(* ===== verification/Godel_Prelude.thy ===== *)
theory Godel_Prelude
  imports Main "HOL-Library.Multiset" "HOL-Library.List_Lexorder" "HOL-Library.Char_ord"
begin

section \<open>Prelude: shared types, collections of facts and generic lemmas\<close>

text \<open>
  Names shared by every component. A Go \<^verbatim>\<open>string\<close> is a list of bytes, a \<^verbatim>\<open>time.Time\<close> and a
  \<^verbatim>\<open>time.Duration\<close> are counted in nanoseconds; where a machine integer can overflow, the
  component that computes with it writes the wrap-around out with \<open>wrap64\<close>. A run-time panic
  of Go (an index out of range, a nil dereference) is the value \<open>None\<close> of an option type, an
  \<^verbatim>\<open>error\<close> result is the left side of a sum.
\<close>

type_synonym key = string
type_synonym time = int
type_synonym duration = int

text \<open>The facts a proof unfolds to look inside a step of the model, and the frame facts of the
  operations (the fields an operation leaves alone).\<close>

named_theorems frame_simps

text \<open>Two's complement wrap-around of a 64-bit signed integer.\<close>

definition wrap64 :: "int \<Rightarrow> int" where
  "wrap64 x = (x + 2 ^ 63) mod 2 ^ 64 - 2 ^ 63"

text \<open>The conversion \<^verbatim>\<open>int32(x)\<close>.\<close>

definition wrap32 :: "int \<Rightarrow> int" where
  "wrap32 x = (x + 2 ^ 31) mod 2 ^ 32 - 2 ^ 31"

text \<open>Go's remainder takes the sign of the dividend.\<close>

definition go_rem :: "int \<Rightarrow> int \<Rightarrow> int" where
  "go_rem a b = sgn a * (\<bar>a\<bar> mod \<bar>b\<bar>)"

text \<open>\<^verbatim>\<open>Value()\<close> of a resource quantity that is counted in thousandths: rounded up.\<close>

definition quantity_Value :: "int \<Rightarrow> int" where
  "quantity_Value milli = - ((- milli) div 1000)"

text \<open>Go's tuple assignment \<^verbatim>\<open>xs[i], xs[j] = xs[j], xs[i]\<close> on a slice, in range.\<close>

definition list_swap :: "'a list \<Rightarrow> nat \<Rightarrow> nat \<Rightarrow> 'a list" where
  "list_swap xs i j = xs[i := xs ! j, j := xs ! i]"

lemma wrap64_id: "- (2 ^ 63) \<le> x \<Longrightarrow> x < 2 ^ 63 \<Longrightarrow> wrap64 x = x"
  by (simp add: wrap64_def)

lemma wrap64_range: "- (2 ^ 63) \<le> wrap64 x \<and> wrap64 x < 2 ^ 63"
proof -
  have "0 \<le> (x + 2 ^ 63) mod 2 ^ 64" "(x + 2 ^ 63) mod 2 ^ 64 < (2 ^ 64 :: int)"
    by simp_all
  then show ?thesis by (simp add: wrap64_def)
qed

lemma go_rem_nonneg: "0 \<le> a \<Longrightarrow> 0 < b \<Longrightarrow> go_rem a b = a mod b"
  by (cases "a = 0") (auto simp: go_rem_def sgn_if)

lemma length_list_swap [simp]: "length (list_swap xs i j) = length xs"
  by (simp add: list_swap_def)

lemma nth_list_swap:
  "i < length xs \<Longrightarrow> j < length xs \<Longrightarrow> k < length xs \<Longrightarrow>
   list_swap xs i j ! k = (if k = i then xs ! j else if k = j then xs ! i else xs ! k)"
  by (auto simp: list_swap_def nth_list_update)

lemma list_swap_same [simp]: "list_swap xs i i = xs"
  by (simp add: list_swap_def)

lemma mset_list_swap [simp]:
  "i < length xs \<Longrightarrow> j < length xs \<Longrightarrow> mset (list_swap xs i j) = mset xs"
  unfolding list_swap_def by (rule mset_swap)

lemma set_list_swap [simp]:
  "i < length xs \<Longrightarrow> j < length xs \<Longrightarrow> set (list_swap xs i j) = set xs"
  by (metis mset_list_swap set_mset_mset)

lemma distinct_list_swap [simp]:
  "i < length xs \<Longrightarrow> j < length xs \<Longrightarrow> distinct (list_swap xs i j) = distinct xs"
  by (metis mset_list_swap mset_eq_imp_distinct_iff)

lemma map_list_swap:
  "i < length xs \<Longrightarrow> j < length xs \<Longrightarrow> map f (list_swap xs i j) = list_swap (map f xs) i j"
  by (simp add: list_swap_def map_update)

lemma take_list_swap_last:
  "i < length xs \<Longrightarrow> xs \<noteq> [] \<Longrightarrow>
   mset (butlast (list_swap xs i (length xs - 1))) = mset xs - {#xs ! i#}"
proof -
  assume i: "i < length xs" and ne: "xs \<noteq> []"
  let ?ys = "list_swap xs i (length xs - 1)"
  have ne': "?ys \<noteq> []" using ne by (metis length_0_conv length_list_swap)
  have last: "last ?ys = xs ! i"
    using ne' i ne by (simp add: last_conv_nth nth_list_swap)
  have "mset ?ys = add_mset (last ?ys) (mset (butlast ?ys))"
    using ne' by (metis append_butlast_last_id mset.simps(1,2) mset_append union_mset_add_mset_right add.right_neutral)
  moreover have "mset ?ys = mset xs" using i ne by simp
  ultimately show ?thesis using last by (metis add_mset_remove_trivial)
qed

text \<open>A comparison that is a strict weak order on a set: what a heap or a sort asks of its
  \<^verbatim>\<open>less\<close> function.\<close>

definition strict_weak_on :: "'a set \<Rightarrow> ('a \<Rightarrow> 'a \<Rightarrow> bool) \<Rightarrow> bool" where
  "strict_weak_on A lt \<longleftrightarrow>
     (\<forall>x\<in>A. \<forall>y\<in>A. lt x y \<longrightarrow> \<not> lt y x) \<and>
     (\<forall>x\<in>A. \<forall>y\<in>A. \<forall>z\<in>A. \<not> lt x y \<longrightarrow> \<not> lt y z \<longrightarrow> \<not> lt x z)"

lemma strict_weak_asym:
  "strict_weak_on A lt \<Longrightarrow> x \<in> A \<Longrightarrow> y \<in> A \<Longrightarrow> lt x y \<Longrightarrow> \<not> lt y x"
  unfolding strict_weak_on_def by blast

lemma strict_weak_neg_trans:
  "strict_weak_on A lt \<Longrightarrow> x \<in> A \<Longrightarrow> y \<in> A \<Longrightarrow> z \<in> A \<Longrightarrow> \<not> lt x y \<Longrightarrow> \<not> lt y z \<Longrightarrow> \<not> lt x z"
  unfolding strict_weak_on_def by blast

lemma strict_weak_irrefl: "strict_weak_on A lt \<Longrightarrow> x \<in> A \<Longrightarrow> \<not> lt x x"
  unfolding strict_weak_on_def by blast

lemma strict_weak_mono: "strict_weak_on A lt \<Longrightarrow> B \<subseteq> A \<Longrightarrow> strict_weak_on B lt"
  unfolding strict_weak_on_def by blast

text \<open>A comparison by a key of a linear order is one; so is the one that never holds.\<close>

lemma strict_weak_key: "strict_weak_on A (\<lambda>x y. f x < (f y :: 'b :: linorder))"
  unfolding strict_weak_on_def by auto

lemma strict_weak_never [simp]: "strict_weak_on A (\<lambda>x y. False)"
  unfolding strict_weak_on_def by simp

text \<open>Comparing by one rule first and by a second where the first sees no difference.\<close>

lemma strict_weak_lex:
  assumes "strict_weak_on A lt1" "strict_weak_on A lt2"
  shows "strict_weak_on A (\<lambda>x y. lt1 x y \<or> (\<not> lt1 y x \<and> lt2 x y))"
  using assms unfolding strict_weak_on_def by blast

text \<open>Maps: the value of a key after an insertion, and the number of entries.\<close>

lemma dom_upd_iff [simp]: "k \<in> dom (m(k' \<mapsto> v)) \<longleftrightarrow> k = k' \<or> k \<in> dom m"
  by auto

lemma map_upd_Some_iff:
  "(m(k \<mapsto> v)) k' = Some w \<longleftrightarrow> (if k' = k then w = v else m k' = Some w)"
  by auto

lemma set_map_filter: "set (List.map_filter f xs) = {y. \<exists>x\<in>set xs. f x = Some y}"
  by (induction xs) (auto simp: List.map_filter_simps split: option.splits)

text \<open>The order of a \<^verbatim>\<open>range\<close> over a map is any enumeration of its keys.\<close>

definition ord_ok :: "(key set \<Rightarrow> key list) \<Rightarrow> bool" where
  "ord_ok ord \<longleftrightarrow> (\<forall>A. finite A \<longrightarrow> set (ord A) = A \<and> distinct (ord A))"

lemma ord_ok_sorted: "ord_ok sorted_list_of_set"
  by (simp add: ord_ok_def)

lemma sorted_wrt_remove1: "sorted_wrt P xs \<Longrightarrow> sorted_wrt P (remove1 x xs)"
  by (induction xs) (auto dest: subsetD [OF set_remove1_subset])

end
