(* ===== verification/Pods.thy ===== *)
theory Pods
  imports Godel_Prelude
begin

section \<open>Pods: scheduling states, annotations and keys (pkg/util/pod, pkg/util/unit)\<close>

text \<open>
  The part of a \<^verbatim>\<open>v1.Pod\<close> the modelled code reads. A Go map may be nil, so the annotations are an
  option: \<open>None\<close> is the nil map, which reads as an empty one. A resource quantity is counted in
  thousandths. The functions are those of pkg/util/pod/podstate.go and util.go and of
  pkg/util/unit/unit.go. The properties: the state predicates partition the pods, pod keys are parsed
  back, and the final-operation annotation of a pod group works as a reentrant lock.
\<close>

type_synonym strmap = "(string \<rightharpoonup> string) option"

text \<open>A term of \<^verbatim>\<open>PodAffinity.RequiredDuringSchedulingIgnoredDuringExecution\<close>; its label selector is
  kept in serialised form.\<close>

record PodAffinityTerm =
  pat_Namespaces :: "string list"
  pat_LabelSelector :: string

record pod =
  pod_Name :: string
  pod_Namespace :: string
  pod_UID :: string
  pod_Labels :: strmap
  pod_Annotations :: strmap
  pod_CreationTimestamp :: time
  pod_ResourceVersion :: string
  pod_Generation :: int
  pod_NodeName :: string
  pod_SchedulerName :: string
  pod_Priority :: "int option"
  pod_Requests :: "(string \<rightharpoonup> int) list"
  pod_InitRequests :: "(string \<rightharpoonup> int) list"
  pod_AffinityTerms :: "PodAffinityTerm list"
  pod_Status :: string

text \<open>Reading a Go map: the zero value where the key is missing or the map is nil.\<close>

definition ann :: "strmap \<Rightarrow> string \<Rightarrow> string" where
  "ann m k = (case m of None \<Rightarrow> [] | Some f \<Rightarrow> (case f k of None \<Rightarrow> [] | Some v \<Rightarrow> v))"

definition ann_has :: "strmap \<Rightarrow> string \<Rightarrow> bool" where
  "ann_has m k = (case m of None \<Rightarrow> False | Some f \<Rightarrow> f k \<noteq> None)"

definition PodStateAnnotationKey :: string where
  "PodStateAnnotationKey = ''godel.bytedance.com/pod-state''"
definition SchedulerAnnotationKey :: string where
  "SchedulerAnnotationKey = ''godel.bytedance.com/selected-scheduler''"
definition FailedSchedulersAnnotationKey :: string where
  "FailedSchedulersAnnotationKey = ''godel.bytedance.com/failed-schedulers''"
definition AssumedNodeAnnotationKey :: string where
  "AssumedNodeAnnotationKey = ''godel.bytedance.com/assumed-node''"
definition NominatedNodeAnnotationKey :: string where
  "NominatedNodeAnnotationKey = ''godel.bytedance.com/nominated-node''"
definition PodGroupNameAnnotationKey :: string where
  "PodGroupNameAnnotationKey = ''godel.bytedance.com/pod-group-name''"
definition PodResourceTypeAnnotationKey :: string where
  "PodResourceTypeAnnotationKey = ''godel.bytedance.com/pod-resource-type''"
definition PodLauncherAnnotationKey :: string where
  "PodLauncherAnnotationKey = ''godel.bytedance.com/pod-launcher''"
definition IgnorePodsLimitAnnotationKey :: string where
  "IgnorePodsLimitAnnotationKey = ''godel.bytedance.com/ignore-pods-limit''"
definition QoSLevelKey :: string where
  "QoSLevelKey = ''katalyst.kubewharf.io/qos_level''"

definition PodPending :: string where "PodPending = ''pending''"
definition PodDispatched :: string where "PodDispatched = ''dispatched''"
definition PodAssumed :: string where "PodAssumed = ''assumed''"

subsection \<open>Pod states\<close>

definition GetPodState :: "strmap \<Rightarrow> string" where
  "GetPodState annotations =
     (case annotations of
        None \<Rightarrow> []
      | Some f \<Rightarrow> (case f PodStateAnnotationKey of None \<Rightarrow> [] | Some v \<Rightarrow> v))"

definition PendingPod :: "pod \<Rightarrow> bool" where
  "PendingPod p \<longleftrightarrow>
     pod_Annotations p \<noteq> None \<and>
     (ann (pod_Annotations p) PodStateAnnotationKey = PodPending \<or>
      length (ann (pod_Annotations p) PodStateAnnotationKey) = 0) \<and>
     length (ann (pod_Annotations p) SchedulerAnnotationKey) = 0 \<and>
     length (ann (pod_Annotations p) AssumedNodeAnnotationKey) = 0 \<and>
     length (ann (pod_Annotations p) NominatedNodeAnnotationKey) = 0 \<and>
     length (pod_NodeName p) = 0"

definition DispatchedPod :: "pod \<Rightarrow> bool" where
  "DispatchedPod p \<longleftrightarrow>
     pod_Annotations p \<noteq> None \<and>
     ann (pod_Annotations p) PodStateAnnotationKey = PodDispatched \<and>
     length (ann (pod_Annotations p) SchedulerAnnotationKey) \<noteq> 0 \<and>
     length (ann (pod_Annotations p) AssumedNodeAnnotationKey) = 0 \<and>
     length (ann (pod_Annotations p) NominatedNodeAnnotationKey) = 0 \<and>
     length (pod_NodeName p) = 0"

definition assumedOrNominatedNodeIsSet :: "pod \<Rightarrow> bool" where
  "assumedOrNominatedNodeIsSet p =
     (if pod_Annotations p \<noteq> None then
        (if length (ann (pod_Annotations p) AssumedNodeAnnotationKey) = 0 \<and>
            length (ann (pod_Annotations p) NominatedNodeAnnotationKey) \<noteq> 0 then True
         else if length (ann (pod_Annotations p) AssumedNodeAnnotationKey) \<noteq> 0 \<and>
            length (ann (pod_Annotations p) NominatedNodeAnnotationKey) = 0 then True
         else False)
      else False)"

definition AssumedPod :: "pod \<Rightarrow> bool" where
  "AssumedPod p \<longleftrightarrow>
     pod_Annotations p \<noteq> None \<and>
     ann (pod_Annotations p) PodStateAnnotationKey = PodAssumed \<and>
     length (ann (pod_Annotations p) SchedulerAnnotationKey) \<noteq> 0 \<and>
     assumedOrNominatedNodeIsSet p \<and>
     length (pod_NodeName p) = 0"

definition BoundPod :: "pod \<Rightarrow> bool" where
  "BoundPod p \<longleftrightarrow> length (pod_NodeName p) \<noteq> 0"

definition AbnormalPodState :: "pod \<Rightarrow> bool" where
  "AbnormalPodState p =
     (if BoundPod p then False
      else let st = ann (pod_Annotations p) PodStateAnnotationKey in
        if st = [] \<or> st = PodPending then \<not> PendingPod p
        else if st = PodDispatched then \<not> DispatchedPod p
        else if st = PodAssumed then \<not> AssumedPod p
        else True)"

subsection \<open>Resource types, launchers, priorities and requests\<close>

datatype pod_error = PodResourceTypeUnsupportError | PodLauncherUnsupportError | PodKeyParseError

definition GuaranteedPod :: string where "GuaranteedPod = ''guaranteed''"
definition BestEffortPod :: string where "BestEffortPod = ''best-effort''"
definition Kubelet :: string where "Kubelet = ''kubelet''"
definition NodeManager :: string where "NodeManager = ''node-manager''"

definition GetPodPriority :: "pod \<Rightarrow> int" where
  "GetPodPriority p = (case pod_Priority p of Some v \<Rightarrow> v | None \<Rightarrow> 0)"

definition GetPodResourceType :: "pod \<Rightarrow> pod_error + string" where
  "GetPodResourceType p =
     (let a = pod_Annotations p; qos = ann a QoSLevelKey in
      if ann_has a QoSLevelKey \<and> (qos = ''dedicated_cores'' \<or> qos = ''shared_cores'') then Inr GuaranteedPod
      else if ann_has a QoSLevelKey \<and> qos = ''reclaimed_cores'' then Inr BestEffortPod
      else if ann_has a PodResourceTypeAnnotationKey then
        (let rt = ann a PodResourceTypeAnnotationKey in
         if rt = GuaranteedPod \<or> rt = BestEffortPod then Inr rt else Inl PodResourceTypeUnsupportError)
      else Inr GuaranteedPod)"

definition GetPodLauncher :: "pod \<Rightarrow> pod_error + string" where
  "GetPodLauncher p =
     (let a = pod_Annotations p in
      if ann_has a PodLauncherAnnotationKey then
        (let pt = ann a PodLauncherAnnotationKey in
         if pt = Kubelet \<or> pt = NodeManager then Inr pt else Inl PodLauncherUnsupportError)
      else Inr Kubelet)"

definition IsLongRunningTask :: "pod \<Rightarrow> bool" where
  "IsLongRunningTask p =
     (if pod_Annotations p = None then True
      else if ann (pod_Annotations p) PodResourceTypeAnnotationKey = BestEffortPod then False
      else if ann (pod_Annotations p) PodLauncherAnnotationKey = NodeManager then False
      else True)"

definition GetDefaultPriorityForGodelPod :: "pod \<Rightarrow> int" where
  "GetDefaultPriorityForGodelPod p =
     (case pod_Priority p of
        Some v \<Rightarrow> v
      | None \<Rightarrow>
          (case GetPodResourceType p of
             Inl _ \<Rightarrow> 100
           | Inr rt \<Rightarrow> if rt = GuaranteedPod then 100 else if rt = BestEffortPod then 40 else 100))"

text \<open>The requests of all containers are added up; an init container counts where it alone asks for
  more.\<close>

definition GetPodRequest :: "pod \<Rightarrow> string \<Rightarrow> int" where
  "GetPodRequest p res =
     (let total = fold (\<lambda>c r. case c res of None \<Rightarrow> r | Some v \<Rightarrow> r + v) (pod_Requests p) 0 in
      fold (\<lambda>c r. case c res of None \<Rightarrow> r | Some v \<Rightarrow> if r < v then v else r) (pod_InitRequests p) total)"

text \<open>The node a pod is on or meant for (pkg/framework/utils/utils.go); \<open>unmarshal\<close> reads the name from the JSON text of a
  nominated node, \<open>None\<close> where it does not parse.\<close>

definition GetNodeNameFromPod :: "(string \<Rightarrow> string option) \<Rightarrow> pod \<Rightarrow> string" where
  "GetNodeNameFromPod unmarshal p =
     (if pod_NodeName p \<noteq> [] then pod_NodeName p
      else if ann (pod_Annotations p) AssumedNodeAnnotationKey \<noteq> [] then ann (pod_Annotations p) AssumedNodeAnnotationKey
      else if ann (pod_Annotations p) NominatedNodeAnnotationKey \<noteq> [] then
        (case unmarshal (ann (pod_Annotations p) NominatedNodeAnnotationKey) of
           Some n \<Rightarrow> n
         | None \<Rightarrow> [])
      else [])"

definition LegalPodResourceTypeAndLauncher :: "pod \<Rightarrow> bool" where
  "LegalPodResourceTypeAndLauncher p =
     (case GetPodLauncher p of
        Inl _ \<Rightarrow> False
      | Inr _ \<Rightarrow> (case GetPodResourceType p of Inl _ \<Rightarrow> False | Inr _ \<Rightarrow> True))"

definition responsibleForPod :: "pod \<Rightarrow> string \<Rightarrow> bool" where
  "responsibleForPod p schedulerName \<longleftrightarrow>
     pod_SchedulerName p = schedulerName \<or> pod_SchedulerName p = ''default-scheduler'' \<or>
     pod_SchedulerName p = []"

definition DispatchedPodOfGodel :: "pod \<Rightarrow> string \<Rightarrow> bool" where
  "DispatchedPodOfGodel p s \<longleftrightarrow>
     LegalPodResourceTypeAndLauncher p \<and> responsibleForPod p s \<and> DispatchedPod p"

definition AssumedPodOfGodel :: "pod \<Rightarrow> string \<Rightarrow> bool" where
  "AssumedPodOfGodel p s \<longleftrightarrow>
     LegalPodResourceTypeAndLauncher p \<and> responsibleForPod p s \<and> AssumedPod p"

definition PendingPodOfGodel :: "pod \<Rightarrow> string \<Rightarrow> bool" where
  "PendingPodOfGodel p s \<longleftrightarrow>
     LegalPodResourceTypeAndLauncher p \<and> responsibleForPod p s \<and> PendingPod p"

definition DispatchedPodOfThisScheduler :: "pod \<Rightarrow> string \<Rightarrow> bool" where
  "DispatchedPodOfThisScheduler p sid \<longleftrightarrow>
     pod_Annotations p \<noteq> None \<and> ann (pod_Annotations p) SchedulerAnnotationKey = sid \<and> DispatchedPod p"

definition DispatchedPodOfOtherScheduler :: "pod \<Rightarrow> string \<Rightarrow> bool" where
  "DispatchedPodOfOtherScheduler p sid \<longleftrightarrow>
     pod_Annotations p \<noteq> None \<and> ann (pod_Annotations p) SchedulerAnnotationKey \<noteq> sid \<and> DispatchedPod p"

definition AbnormalPodStateOfGodel :: "pod \<Rightarrow> string \<Rightarrow> bool" where
  "AbnormalPodStateOfGodel p s \<longleftrightarrow> AbnormalPodState p \<and> responsibleForPod p s"

definition IgnorePodsLimit :: "pod option \<Rightarrow> bool" where
  "IgnorePodsLimit p = (case p of None \<Rightarrow> False | Some q \<Rightarrow> ann_has (pod_Annotations q) IgnorePodsLimitAnnotationKey)"

subsection \<open>Matching the affinity terms of a pod (pkg/util/topologies.go)\<close>

definition GetNamespacesFromPodAffinityTerm :: "pod \<Rightarrow> PodAffinityTerm \<Rightarrow> string set" where
  "GetNamespacesFromPodAffinityTerm p t =
     (if length (pat_Namespaces t) = 0 then {pod_Namespace p} else set (pat_Namespaces t))"

text \<open>A selector is client-go code, a predicate on labels; calling the nil selector panics.\<close>

definition PodMatchesTermsNamespaceAndSelector ::
  "pod \<Rightarrow> string set \<Rightarrow> (strmap \<Rightarrow> bool) option \<Rightarrow> bool option" where
  "PodMatchesTermsNamespaceAndSelector p namespaces selector =
     (if pod_Namespace p \<notin> namespaces then Some False
      else case selector of None \<Rightarrow> None | Some s \<Rightarrow> Some (s (pod_Labels p)))"

subsection \<open>Keys\<close>

text \<open>\<^verbatim>\<open>strings.Split\<close> with a one-byte separator.\<close>

fun split_on :: "char \<Rightarrow> string \<Rightarrow> string list" where
  "split_on c [] = [[]]"
| "split_on c (x # xs) =
     (if x = c then [] # split_on c xs
      else case split_on c xs of [] \<Rightarrow> [[x]] | y # ys \<Rightarrow> (x # y) # ys)"

definition GetPodKey :: "pod \<Rightarrow> string" where
  "GetPodKey p = pod_Namespace p @ ''/'' @ pod_Name p"

definition GetPodFullKey :: "string \<Rightarrow> string \<Rightarrow> string \<Rightarrow> string" where
  "GetPodFullKey namespace name uid = namespace @ ''/'' @ name @ ''/'' @ uid"

definition GeneratePodKey :: "pod \<Rightarrow> string" where
  "GeneratePodKey p = pod_Namespace p @ ''/'' @ pod_Name p @ ''/'' @ pod_UID p"

definition ParsePodKey :: "string \<Rightarrow> pod_error + string \<times> string \<times> string" where
  "ParsePodKey s =
     (case split_on (CHR ''/'') s of
        [a, b, c] \<Rightarrow> Inr (a, b, c)
      | _ \<Rightarrow> Inl PodKeyParseError)"

definition GetUIDFromPodFullKey :: "string \<Rightarrow> string" where
  "GetUIDFromPodFullKey k = (case split_on (CHR ''/'') k of [a, b, c] \<Rightarrow> c | _ \<Rightarrow> [])"

definition GetFailedSchedulersNames :: "pod \<Rightarrow> string set" where
  "GetFailedSchedulersNames p =
     (let a = pod_Annotations p; v = ann a FailedSchedulersAnnotationKey in
      if ann_has a FailedSchedulersAnnotationKey \<and> v \<noteq> [] then set (split_on (CHR '','') v) else {})"

definition GetPodGroupName :: "pod \<Rightarrow> string" where
  "GetPodGroupName p =
     (let pgName = ann (pod_Annotations p) PodGroupNameAnnotationKey in
      if length pgName \<noteq> 0 then pgName else [])"

definition GetPodGroupFullName :: "pod \<Rightarrow> string" where
  "GetPodGroupFullName p =
     (let pgName = GetPodGroupName p in
      if length pgName = 0 then [] else pod_Namespace p @ ''/'' @ pgName)"

definition GetUnitKeyFromPodGroup :: "string \<Rightarrow> string" where
  "GetUnitKeyFromPodGroup k = ''PodGroupUnit'' @ ''/'' @ k"

definition GetUnitKeyFromPod :: "pod \<Rightarrow> string" where
  "GetUnitKeyFromPod p = GetUnitKeyFromPodGroup (GetPodGroupFullName p)"

definition GetUnitIdentifier :: "pod \<Rightarrow> string" where
  "GetUnitIdentifier p =
     (let pgName = GetPodGroupName p in
      if length pgName \<noteq> 0 then ''PodGroupUnit'' @ ''/'' @ pod_Namespace p @ ''/'' @ pgName
      else ''SinglePodUnit'' @ ''/'' @ pod_Namespace p @ ''/'' @ pod_Name p)"

definition PodBelongToUnit :: "pod \<Rightarrow> bool" where
  "PodBelongToUnit p = ann_has (pod_Annotations p) PodGroupNameAnnotationKey"

subsection \<open>The final-operation lock of a pod group\<close>

definition PodGroupFinalOpLock :: string where
  "PodGroupFinalOpLock = ''godel.bytedance.com/podgroup-final-op-lock''"

text \<open>The pod group (nil or its annotations) goes in and comes out; the result tells whether the
  caller holds the lock.\<close>

definition PopulatePodGroupFinalOp :: "strmap option \<Rightarrow> string \<Rightarrow> strmap option \<times> bool" where
  "PopulatePodGroupFinalOp pg opn =
     (case pg of
        None \<Rightarrow> (None, False)
      | Some annots \<Rightarrow>
          let m = (case annots of None \<Rightarrow> Map.empty | Some f \<Rightarrow> f) in
          (case m PodGroupFinalOpLock of
             Some operator \<Rightarrow> (Some (Some m), operator = opn)
           | None \<Rightarrow> (Some (Some (m(PodGroupFinalOpLock \<mapsto> opn))), True)))"

definition PodGroupFinalOp :: "strmap option \<Rightarrow> string" where
  "PodGroupFinalOp pg = (case pg of None \<Rightarrow> [] | Some annots \<Rightarrow> ann annots PodGroupFinalOpLock)"

definition PodGroupFinalState :: "string \<Rightarrow> bool" where
  "PodGroupFinalState phase \<longleftrightarrow> phase = ''Scheduled'' \<or> phase = ''Timeout''"

subsection \<open>Lemmas\<close>

lemmas pod_state_consts = PodPending_def PodDispatched_def PodAssumed_def

lemma split_on_no_sep: "c \<notin> set xs \<Longrightarrow> split_on c xs = [xs]"
  by (induction xs) auto

lemma split_on_nonempty: "split_on c xs \<noteq> []"
  by (induction xs) (auto split: list.splits)

lemma split_on_append: "c \<notin> set xs \<Longrightarrow> split_on c (xs @ c # ys) = xs # split_on c ys"
  by (induction xs) (auto split: list.splits)

lemma append_sep_inj:
  "c \<notin> set xs \<Longrightarrow> c \<notin> set xs' \<Longrightarrow> xs @ c # ys = xs' @ c # ys' \<Longrightarrow> xs = xs' \<and> ys = ys'"
proof (induction xs arbitrary: xs')
  case Nil
  then show ?case by (cases xs') auto
next
  case (Cons x xs)
  then show ?case by (cases xs') auto
qed

subsection \<open>Properties\<close>

text \<open>The pod states partition the pods: every pod is exactly one of pending, dispatched,
  assumed, bound and abnormal, whatever its annotations are.\<close>

theorem pod_state_partition:
  "length (filter (\<lambda>q. q p) [PendingPod, DispatchedPod, AssumedPod, BoundPod, AbnormalPodState]) = 1"
  by (auto simp: AbnormalPodState_def BoundPod_def PendingPod_def DispatchedPod_def AssumedPod_def
      Let_def pod_state_consts)

text \<open>C6. Pod keys are parsed back: where namespace, name and UID hold no slash, \<^verbatim>\<open>ParsePodKey\<close> undoes
  \<^verbatim>\<open>GeneratePodKey\<close> and \<^verbatim>\<open>GetUIDFromPodFullKey\<close> finds the UID.\<close>

theorem pod_key_roundtrip:
  assumes "CHR ''/'' \<notin> set (pod_Namespace p)" "CHR ''/'' \<notin> set (pod_Name p)"
    "CHR ''/'' \<notin> set (pod_UID p)"
  shows "ParsePodKey (GeneratePodKey p) = Inr (pod_Namespace p, pod_Name p, pod_UID p) \<and>
         GetUIDFromPodFullKey (GetPodFullKey (pod_Namespace p) (pod_Name p) (pod_UID p)) = pod_UID p"
  using assms
  by (simp add: ParsePodKey_def GeneratePodKey_def GetPodFullKey_def GetUIDFromPodFullKey_def
      split_on_append split_on_no_sep)

definition pod_example :: pod where
  "pod_example =
     \<lparr>pod_Name = ''web-0'', pod_Namespace = ''prod'', pod_UID = ''u1'', pod_Labels = None, pod_Annotations = Some Map.empty,
      pod_CreationTimestamp = 0, pod_ResourceVersion = ''1'', pod_Generation = 1, pod_NodeName = [],
      pod_SchedulerName = ''godel-scheduler'', pod_Priority = Some 10, pod_Requests = [],
      pod_InitRequests = [], pod_AffinityTerms = [], pod_Status = []\<rparr>"

theorem pod_key_roundtrip_witness:
  "ParsePodKey (GeneratePodKey pod_example) = Inr (''prod'', ''web-0'', ''u1'')"
  using pod_key_roundtrip [of pod_example] by (simp add: pod_example_def)

text \<open>C7. The unit identifier tells units apart: two pods have the same identifier exactly when they
  name the same pod group of the same namespace or, both being outside any group, are the same pod by
  namespace and name.\<close>

theorem unit_identifier_faithful:
  assumes "CHR ''/'' \<notin> set (pod_Namespace p)" "CHR ''/'' \<notin> set (pod_Namespace q)"
  shows "GetUnitIdentifier p = GetUnitIdentifier q \<longleftrightarrow>
         pod_Namespace p = pod_Namespace q \<and>
         (if GetPodGroupName p = [] \<and> GetPodGroupName q = [] then pod_Name p = pod_Name q
          else GetPodGroupName p = GetPodGroupName q)"
proof -
  have inj: "pod_Namespace p @ CHR ''/'' # x = pod_Namespace q @ CHR ''/'' # y \<longleftrightarrow>
             pod_Namespace p = pod_Namespace q \<and> x = y" for x y
    using append_sep_inj [OF assms, of x y] by blast
  show ?thesis
    by (cases "GetPodGroupName p = []"; cases "GetPodGroupName q = []")
      (auto simp: GetUnitIdentifier_def inj)
qed

theorem unit_identifier_faithful_witness:
  "GetUnitIdentifier pod_example \<noteq>
   GetUnitIdentifier (pod_example\<lparr>pod_Annotations := Some [PodGroupNameAnnotationKey \<mapsto> ''web-0'']\<rparr>)"
  using unit_identifier_faithful [of pod_example
      "pod_example\<lparr>pod_Annotations := Some [PodGroupNameAnnotationKey \<mapsto> ''web-0'']\<rparr>"]
  by (simp add: pod_example_def GetPodGroupName_def ann_def)

text \<open>A sequence of attempts by operators to take the lock of one pod group, with their results.\<close>

fun populate_all :: "strmap option \<Rightarrow> string list \<Rightarrow> strmap option \<times> bool list" where
  "populate_all pg [] = (pg, [])"
| "populate_all pg (opn # ops) =
     (let (pg1, r) = PopulatePodGroupFinalOp pg opn; (pg2, rs) = populate_all pg1 ops in (pg2, r # rs))"

lemma populate_all_held:
  "m PodGroupFinalOpLock = Some h \<Longrightarrow> populate_all (Some (Some m)) ops = (Some (Some m), map (\<lambda>b. b = h) ops)"
  by (induction ops) (auto simp: PopulatePodGroupFinalOp_def)

lemma populate_all_nil: "populate_all None ops = (None, map (\<lambda>_. False) ops)"
  by (induction ops) (auto simp: PopulatePodGroupFinalOp_def)

text \<open>C8. The final-operation annotation is a reentrant lock. Over any sequence of attempts on one pod
  group, exactly the attempts of the holder succeed: the operator the annotation already names or, on a
  group without the annotation, the operator of the first attempt, which therefore succeeds. The
  annotations end up naming the holder and are otherwise unchanged. On a nil group every attempt is
  refused.\<close>

theorem pod_group_final_op_lock:
  assumes "ops \<noteq> []" "m = (case annots of None \<Rightarrow> Map.empty | Some f \<Rightarrow> f)"
    "holder = (case m PodGroupFinalOpLock of None \<Rightarrow> hd ops | Some h \<Rightarrow> h)"
  shows "populate_all (Some annots) ops =
      (Some (Some (m(PodGroupFinalOpLock \<mapsto> holder))), map (\<lambda>b. b = holder) ops) \<and>
    PodGroupFinalOp (fst (populate_all (Some annots) ops)) = holder \<and>
    populate_all None ops = (None, map (\<lambda>_. False) ops)"
proof -
  obtain b bs where ops: "ops = b # bs" using assms(1) by (cases ops) auto
  let ?m = "m(PodGroupFinalOpLock \<mapsto> holder)"
  have "PopulatePodGroupFinalOp (Some annots) b = (Some (Some ?m), b = holder)"
    using assms(2,3) ops by (auto simp: PopulatePodGroupFinalOp_def Let_def map_upd_triv split: option.split)
  then have run: "populate_all (Some annots) ops = (Some (Some ?m), map (\<lambda>b. b = holder) ops)"
    using populate_all_held [of ?m holder bs] by (simp add: ops)
  then show ?thesis by (simp add: populate_all_nil PodGroupFinalOp_def ann_def)
qed

theorem pod_group_final_op_lock_witness:
  "snd (populate_all (Some None) [''binder'', ''controller'', ''binder'']) = [True, False, True]"
  using pod_group_final_op_lock [of "[''binder'', ''controller'', ''binder'']" _ None "''binder''", OF _ refl]
  by simp

end
