(* ===== verification/Schedule_Unit.thy ===== *)
theory Schedule_Unit
  imports Complex_Main Pods
begin

section \<open>Schedule units (pkg/framework/api/unit.go, pkg/framework/utils/unit.go)\<close>

text \<open>
  A unit is what the scheduler schedules as a whole: a single pod, or the pods of a pod group.
  \<^verbatim>\<open>PodGroupUnit\<close> and \<^verbatim>\<open>SinglePodUnit\<close> are records, the interface \<^verbatim>\<open>ScheduleUnit\<close> is the
  datatype of the two, and each \<open>unit_\<close> function is the dynamic dispatch of the interface method.
  A nil pointer is \<open>None\<close>. A function that may dereference nil has an option as its result, with
  \<open>None\<close> for the panic. The pods of a group unit are a Go map from UID to pod info; the order in
  which a \<^verbatim>\<open>range\<close> over it visits the keys is the argument \<open>ord\<close>. The properties and tracing
  data of a unit (\<^verbatim>\<open>unitProperty\<close>, \<^verbatim>\<open>QueueSpan\<close>, \<^verbatim>\<open>OwnerReferenceKey\<close>) and \<^verbatim>\<open>String\<close> are left out.
  The interface \<open>pod_holder\<close> states what a client relies on: a pod is found after it is
  added, not after it is deleted, and the key of a unit is that of its pods.
\<close>

subsection \<open>Pod groups and queued pods\<close>

record SortRule =
  sr_Resource :: string
  sr_Dimension :: string
  sr_Order :: string

text \<open>A term of an affinity is its topology key; the node selector is kept in serialised form.\<close>

record PodGroupAffinity =
  pga_Required :: "string list"
  pga_Preferred :: "string list"
  pga_NodeSelector :: "string option"
  pga_SortRules :: "SortRule list"

text \<open>\<^verbatim>\<open>Spec.Affinity\<close> and its field \<^verbatim>\<open>PodGroupAffinity\<close> are both pointers.\<close>

record PodGroup =
  pg_Namespace :: string
  pg_Name :: string
  pg_Annotations :: strmap
  pg_CreationTimestamp :: time
  pg_MinMember :: int
  pg_ScheduleTimeoutSeconds :: "int option"
  pg_PriorityClassName :: string
  pg_Affinity :: "PodGroupAffinity option option"

record QueuedPodInfo =
  qpi_Pod :: "pod option"
  qpi_Timestamp :: time
  qpi_Attempts :: int
  qpi_InitialAttemptTimestamp :: time
  qpi_queueStage :: string

definition UpdateQueueStage :: "QueuedPodInfo \<Rightarrow> string \<Rightarrow> QueuedPodInfo" where
  "UpdateQueueStage pqi queueStage =
     (if queueStage = qpi_queueStage pqi then pqi else pqi\<lparr>qpi_queueStage := queueStage\<rparr>)"

definition newQueuedPodInfo :: "time \<Rightarrow> pod \<Rightarrow> QueuedPodInfo" where
  "newQueuedPodInfo now p =
     \<lparr>qpi_Pod = Some p, qpi_Timestamp = now, qpi_Attempts = 0, qpi_InitialAttemptTimestamp = now,
      qpi_queueStage = []\<rparr>"

text \<open>The zero \<^verbatim>\<open>time.Time\<close> of a lookup key is never read; it is \<open>0\<close> here.\<close>

definition newQueuedPodInfoForLookup :: "pod \<Rightarrow> QueuedPodInfo" where
  "newQueuedPodInfoForLookup p =
     \<lparr>qpi_Pod = Some p, qpi_Timestamp = 0, qpi_Attempts = 0, qpi_InitialAttemptTimestamp = 0,
      qpi_queueStage = []\<rparr>"

definition updatePodInfo :: "QueuedPodInfo \<Rightarrow> pod \<Rightarrow> QueuedPodInfo" where
  "updatePodInfo oldPodInfo newPod = oldPodInfo\<lparr>qpi_Pod := Some newPod\<rparr>"

definition isPodUpdated :: "pod option \<Rightarrow> pod option \<Rightarrow> bool" where
  "isPodUpdated oldPod newPod =
     (case (oldPod, newPod) of
        (Some a, Some b) \<Rightarrow>
          (let strip = (\<lambda>p. p\<lparr>pod_ResourceVersion := [], pod_Generation := 0, pod_Status := []\<rparr>) in
           strip a \<noteq> strip b)
      | _ \<Rightarrow> oldPod \<noteq> None \<or> newPod \<noteq> None)"

datatype unit_error =
  InvalidPod | CannotAddMultiplePods | PodAlreadyExisted | PodGroupIsNil | PodIsNil | EmptyPodGroup |
  PodGroupNotFound | PriorityClassNotFound

datatype ScheduleUnitType = PodGroupUnitType | SinglePodUnitType

definition DebugModeAnnotationKey :: string where
  "DebugModeAnnotationKey = ''godel.bytedance.com/debug-mode''"

subsection \<open>PodGroupUnit\<close>

record PodGroupUnit =
  pgu_key :: key
  pgu_podGroup :: "PodGroup option"
  pgu_priority :: int
  pgu_queuedPodInfoMap :: "string \<rightharpoonup> QueuedPodInfo"
  pgu_timestamp :: time

definition keyForPodGroupUnit :: "PodGroup option \<Rightarrow> key" where
  "keyForPodGroupUnit podGroup =
     (case podGroup of
        None \<Rightarrow> []
      | Some pg \<Rightarrow> ''PodGroupUnit'' @ ''/'' @ pg_Namespace pg @ ''/'' @ pg_Name pg)"

definition NewPodGroupUnit :: "time \<Rightarrow> PodGroup option \<Rightarrow> int \<Rightarrow> PodGroupUnit" where
  "NewPodGroupUnit now podGroup priority =
     \<lparr>pgu_key = keyForPodGroupUnit podGroup, pgu_podGroup = podGroup, pgu_priority = priority,
      pgu_queuedPodInfoMap = Map.empty, pgu_timestamp = now\<rparr>"

definition PodGroupUnit_GetNamespace :: "PodGroupUnit \<Rightarrow> string" where
  "PodGroupUnit_GetNamespace p = (case pgu_podGroup p of None \<Rightarrow> [] | Some pg \<Rightarrow> pg_Namespace pg)"

definition PodGroupUnit_GetName :: "PodGroupUnit \<Rightarrow> string" where
  "PodGroupUnit_GetName p = (case pgu_podGroup p of None \<Rightarrow> [] | Some pg \<Rightarrow> pg_Name pg)"

definition PodGroupUnit_GetKey :: "PodGroupUnit \<Rightarrow> key" where
  "PodGroupUnit_GetKey p = pgu_key p"

definition PodGroupUnit_NumPods :: "PodGroupUnit \<Rightarrow> nat" where
  "PodGroupUnit_NumPods p = card (dom (pgu_queuedPodInfoMap p))"

definition PodGroupUnit_ReadyToBePopulated :: "PodGroupUnit \<Rightarrow> bool" where
  "PodGroupUnit_ReadyToBePopulated p =
     (case pgu_podGroup p of
        None \<Rightarrow> False
      | Some pg \<Rightarrow> int (card (dom (pgu_queuedPodInfoMap p))) \<ge> pg_MinMember pg)"

definition PodGroupUnit_PodBelongToUnit :: "PodGroupUnit \<Rightarrow> pod \<Rightarrow> bool" where
  "PodGroupUnit_PodBelongToUnit p q =
     (let name = ann (pod_Annotations q) PodGroupNameAnnotationKey in
      case pgu_podGroup p of
        None \<Rightarrow> False
      | Some pg \<Rightarrow>
          if length name = 0 then False
          else pg_Name pg = name \<and> pg_Namespace pg = pod_Namespace q)"

definition PodGroupUnit_GetCreationTimestamp :: "PodGroupUnit \<Rightarrow> time option" where
  "PodGroupUnit_GetCreationTimestamp p = map_option pg_CreationTimestamp (pgu_podGroup p)"

definition PodGroupUnit_GetEnqueuedTimestamp :: "PodGroupUnit \<Rightarrow> time" where
  "PodGroupUnit_GetEnqueuedTimestamp p = pgu_timestamp p"

definition PodGroupUnit_SetEnqueuedTimeStamp :: "PodGroupUnit \<Rightarrow> time \<Rightarrow> PodGroupUnit" where
  "PodGroupUnit_SetEnqueuedTimeStamp p ts =
     p\<lparr>pgu_queuedPodInfoMap :=
         (\<lambda>u. map_option (\<lambda>i. i\<lparr>qpi_Timestamp := ts\<rparr>) (pgu_queuedPodInfoMap p u)),
       pgu_timestamp := ts\<rparr>"

definition PodGroupUnit_GetPriority :: "PodGroupUnit \<Rightarrow> int" where
  "PodGroupUnit_GetPriority p = pgu_priority p"

definition PodGroupUnit_ValidatePodCount :: "PodGroupUnit \<Rightarrow> int \<Rightarrow> bool option" where
  "PodGroupUnit_ValidatePodCount p podCount =
     map_option (\<lambda>pg. wrap32 podCount \<ge> pg_MinMember pg) (pgu_podGroup p)"

definition PodGroupUnit_GetPods :: "(key set \<Rightarrow> key list) \<Rightarrow> PodGroupUnit \<Rightarrow> QueuedPodInfo list" where
  "PodGroupUnit_GetPods ord p =
     List.map_filter (pgu_queuedPodInfoMap p) (ord (dom (pgu_queuedPodInfoMap p)))"

definition PodGroupUnit_GetPod :: "PodGroupUnit \<Rightarrow> QueuedPodInfo \<Rightarrow> QueuedPodInfo option" where
  "PodGroupUnit_GetPod p info =
     (case qpi_Pod info of None \<Rightarrow> None | Some q \<Rightarrow> pgu_queuedPodInfoMap p (pod_UID q))"

definition PodGroupUnit_AddPod ::
  "PodGroupUnit \<Rightarrow> QueuedPodInfo \<Rightarrow> PodGroupUnit \<times> (unit_error + unit)" where
  "PodGroupUnit_AddPod p info =
     (case qpi_Pod info of
        None \<Rightarrow> (p, Inl InvalidPod)
      | Some q \<Rightarrow>
          (p\<lparr>pgu_queuedPodInfoMap := (pgu_queuedPodInfoMap p)(pod_UID q \<mapsto> info)\<rparr>, Inr ()))"

definition PodGroupUnit_AddPodsIfNotPresent ::
  "PodGroupUnit \<Rightarrow> QueuedPodInfo list \<Rightarrow> PodGroupUnit \<times> (unit_error + unit)" where
  "PodGroupUnit_AddPodsIfNotPresent p infos =
     (p\<lparr>pgu_queuedPodInfoMap :=
          fold (\<lambda>info m.
                  case qpi_Pod info of
                    None \<Rightarrow> m
                  | Some q \<Rightarrow> if m (pod_UID q) = None then m(pod_UID q \<mapsto> info) else m)
            infos (pgu_queuedPodInfoMap p)\<rparr>, Inr ())"

definition PodGroupUnit_AddPods ::
  "PodGroupUnit \<Rightarrow> QueuedPodInfo list \<Rightarrow> PodGroupUnit \<times> (unit_error + unit)" where
  "PodGroupUnit_AddPods p infos =
     (p\<lparr>pgu_queuedPodInfoMap :=
          fold (\<lambda>info m. case qpi_Pod info of None \<Rightarrow> m | Some q \<Rightarrow> m(pod_UID q \<mapsto> info))
            infos (pgu_queuedPodInfoMap p)\<rparr>, Inr ())"

definition PodGroupUnit_UpdatePod ::
  "PodGroupUnit \<Rightarrow> QueuedPodInfo \<Rightarrow> PodGroupUnit \<times> (unit_error + unit)" where
  "PodGroupUnit_UpdatePod p info =
     (case qpi_Pod info of
        None \<Rightarrow> (p, Inl InvalidPod)
      | Some q \<Rightarrow>
          (p\<lparr>pgu_queuedPodInfoMap := (pgu_queuedPodInfoMap p)(pod_UID q \<mapsto> info)\<rparr>, Inr ()))"

definition PodGroupUnit_DeletePod ::
  "PodGroupUnit \<Rightarrow> QueuedPodInfo \<Rightarrow> PodGroupUnit \<times> (unit_error + unit)" where
  "PodGroupUnit_DeletePod p info =
     (case qpi_Pod info of
        None \<Rightarrow> (p, Inl InvalidPod)
      | Some q \<Rightarrow>
          (p\<lparr>pgu_queuedPodInfoMap := (pgu_queuedPodInfoMap p)(pod_UID q := None)\<rparr>, Inr ()))"

definition PodGroupUnit_GetTimeoutPeriod :: "PodGroupUnit \<Rightarrow> int option" where
  "PodGroupUnit_GetTimeoutPeriod p =
     map_option
       (\<lambda>pg. case pg_ScheduleTimeoutSeconds pg of None \<Rightarrow> 300 | Some s \<Rightarrow> s) (pgu_podGroup p)"

definition PodGroupUnit_GetAnnotations :: "PodGroupUnit \<Rightarrow> strmap" where
  "PodGroupUnit_GetAnnotations p =
     (case pgu_podGroup p of None \<Rightarrow> Some Map.empty | Some pg \<Rightarrow> pg_Annotations pg)"

definition PodGroupUnit_GetMinMember :: "PodGroupUnit \<Rightarrow> unit_error + int" where
  "PodGroupUnit_GetMinMember p =
     (case pgu_podGroup p of None \<Rightarrow> Inl PodGroupIsNil | Some pg \<Rightarrow> Inr (pg_MinMember pg))"

text \<open>The group affinity, where both pointers on the way to it are set.\<close>

definition group_affinity :: "PodGroup \<Rightarrow> PodGroupAffinity option" where
  "group_affinity pg = (case pg_Affinity pg of None \<Rightarrow> None | Some a \<Rightarrow> a)"

definition PodGroupUnit_GetRequiredAffinity :: "PodGroupUnit \<Rightarrow> string list option" where
  "PodGroupUnit_GetRequiredAffinity p =
     map_option
       (\<lambda>pg. case group_affinity pg of
               None \<Rightarrow> []
             | Some a \<Rightarrow> filter (\<lambda>k. k \<noteq> []) (pga_Required a)) (pgu_podGroup p)"

definition PodGroupUnit_GetPreferredAffinity :: "PodGroupUnit \<Rightarrow> string list option" where
  "PodGroupUnit_GetPreferredAffinity p =
     map_option
       (\<lambda>pg. case group_affinity pg of
               None \<Rightarrow> []
             | Some a \<Rightarrow> filter (\<lambda>k. k \<noteq> []) (pga_Preferred a)) (pgu_podGroup p)"

definition PodGroupUnit_GetAffinityNodeSelector :: "PodGroupUnit \<Rightarrow> unit_error + string option" where
  "PodGroupUnit_GetAffinityNodeSelector p =
     (case pgu_podGroup p of
        None \<Rightarrow> Inl EmptyPodGroup
      | Some pg \<Rightarrow>
          (case group_affinity pg of None \<Rightarrow> Inr None | Some a \<Rightarrow> Inr (pga_NodeSelector a)))"

definition PodGroupUnit_GetSortRulesForAffinity :: "PodGroupUnit \<Rightarrow> SortRule list option" where
  "PodGroupUnit_GetSortRulesForAffinity p =
     map_option
       (\<lambda>pg. case group_affinity pg of
               None \<Rightarrow> []
             | Some a \<Rightarrow>
                 map (\<lambda>r. r\<lparr>sr_Dimension :=
                             if length (sr_Dimension r) = 0 then ''Capacity'' else sr_Dimension r\<rparr>)
                   (pga_SortRules a)) (pgu_podGroup p)"

definition PodGroupUnit_IsDebugModeOn :: "PodGroupUnit \<Rightarrow> bool" where
  "PodGroupUnit_IsDebugModeOn p =
     (case pgu_podGroup p of
        None \<Rightarrow> False
      | Some pg \<Rightarrow>
          ann_has (pg_Annotations pg) DebugModeAnnotationKey \<and>
          ann (pg_Annotations pg) DebugModeAnnotationKey = ''on'')"

definition PodGroupUnit_ResetPods :: "PodGroupUnit \<Rightarrow> PodGroupUnit" where
  "PodGroupUnit_ResetPods p = p\<lparr>pgu_queuedPodInfoMap := Map.empty\<rparr>"

subsection \<open>SinglePodUnit\<close>

record SinglePodUnit =
  spu_key :: key
  spu_Pod :: "QueuedPodInfo option"

text \<open>The pod behind the two pointers \<^verbatim>\<open>s.Pod.Pod\<close>.\<close>

definition single_pod :: "SinglePodUnit \<Rightarrow> pod option" where
  "single_pod s = (case spu_Pod s of None \<Rightarrow> None | Some i \<Rightarrow> qpi_Pod i)"

definition keyForSinglePodUnit :: "pod option \<Rightarrow> key" where
  "keyForSinglePodUnit p =
     (case p of
        None \<Rightarrow> []
      | Some q \<Rightarrow> ''SinglePodUnit'' @ ''/'' @ pod_Namespace q @ ''/'' @ pod_Name q)"

definition NewSinglePodUnit :: "QueuedPodInfo option \<Rightarrow> SinglePodUnit" where
  "NewSinglePodUnit podInfo =
     \<lparr>spu_key = (case podInfo of None \<Rightarrow> [] | Some i \<Rightarrow> keyForSinglePodUnit (qpi_Pod i)),
      spu_Pod = podInfo\<rparr>"

definition SinglePodUnit_GetName :: "SinglePodUnit \<Rightarrow> string" where
  "SinglePodUnit_GetName s = (case single_pod s of None \<Rightarrow> [] | Some q \<Rightarrow> pod_Name q)"

definition SinglePodUnit_GetNamespace :: "SinglePodUnit \<Rightarrow> string" where
  "SinglePodUnit_GetNamespace s = (case single_pod s of None \<Rightarrow> [] | Some q \<Rightarrow> pod_Namespace q)"

definition SinglePodUnit_GetKey :: "SinglePodUnit \<Rightarrow> key" where
  "SinglePodUnit_GetKey s = (case spu_Pod s of None \<Rightarrow> [] | Some _ \<Rightarrow> spu_key s)"

definition SinglePodUnit_ReadyToBePopulated :: "SinglePodUnit \<Rightarrow> bool" where
  "SinglePodUnit_ReadyToBePopulated s \<longleftrightarrow> spu_Pod s \<noteq> None \<and> single_pod s \<noteq> None"

definition SinglePodUnit_ValidatePodCount :: "SinglePodUnit \<Rightarrow> int \<Rightarrow> bool" where
  "SinglePodUnit_ValidatePodCount s podCnt \<longleftrightarrow> podCnt > 0"

definition SinglePodUnit_PodBelongToUnit :: "SinglePodUnit \<Rightarrow> pod \<Rightarrow> bool option" where
  "SinglePodUnit_PodBelongToUnit s p =
     map_option (\<lambda>q. pod_Namespace p = pod_Namespace q \<and> pod_Name p = pod_Name q) (single_pod s)"

text \<open>A nil \<^verbatim>\<open>*metav1.Time\<close> is the inner \<open>None\<close>.\<close>

definition SinglePodUnit_GetCreationTimestamp :: "SinglePodUnit \<Rightarrow> time option option" where
  "SinglePodUnit_GetCreationTimestamp s =
     (case spu_Pod s of
        None \<Rightarrow> Some None
      | Some i \<Rightarrow>
          (case qpi_Pod i of None \<Rightarrow> None | Some q \<Rightarrow> Some (Some (pod_CreationTimestamp q))))"

definition SinglePodUnit_GetEnqueuedTimestamp :: "time \<Rightarrow> SinglePodUnit \<Rightarrow> time" where
  "SinglePodUnit_GetEnqueuedTimestamp now s =
     (case spu_Pod s of None \<Rightarrow> now | Some i \<Rightarrow> qpi_Timestamp i)"

definition SinglePodUnit_SetEnqueuedTimeStamp :: "SinglePodUnit \<Rightarrow> time \<Rightarrow> SinglePodUnit" where
  "SinglePodUnit_SetEnqueuedTimeStamp s ts =
     s\<lparr>spu_Pod := map_option (\<lambda>i. i\<lparr>qpi_Timestamp := ts\<rparr>) (spu_Pod s)\<rparr>"

definition SinglePodUnit_GetPriority :: "SinglePodUnit \<Rightarrow> int" where
  "SinglePodUnit_GetPriority s =
     (case single_pod s of
        None \<Rightarrow> 100
      | Some q \<Rightarrow> (case pod_Priority q of None \<Rightarrow> 100 | Some v \<Rightarrow> v))"

definition SinglePodUnit_GetPods :: "SinglePodUnit \<Rightarrow> QueuedPodInfo list" where
  "SinglePodUnit_GetPods s = (case spu_Pod s of None \<Rightarrow> [] | Some i \<Rightarrow> [i])"

definition SinglePodUnit_NumPods :: "SinglePodUnit \<Rightarrow> nat" where
  "SinglePodUnit_NumPods s = (if spu_Pod s \<noteq> None \<and> single_pod s \<noteq> None then 1 else 0)"

definition SinglePodUnit_GetPod :: "SinglePodUnit \<Rightarrow> QueuedPodInfo \<Rightarrow> QueuedPodInfo option option" where
  "SinglePodUnit_GetPod s info =
     (case qpi_Pod info of
        None \<Rightarrow> Some None
      | Some q \<Rightarrow>
          (case spu_Pod s of
             None \<Rightarrow> Some None
           | Some i \<Rightarrow>
               (case qpi_Pod i of
                  None \<Rightarrow> None
                | Some q' \<Rightarrow> Some (if pod_UID q' \<noteq> pod_UID q then None else Some i))))"

definition SinglePodUnit_AddPod ::
  "SinglePodUnit \<Rightarrow> QueuedPodInfo \<Rightarrow> SinglePodUnit \<times> (unit_error + unit)" where
  "SinglePodUnit_AddPod s info =
     (case qpi_Pod info of
        None \<Rightarrow> (s, Inl InvalidPod)
      | Some q \<Rightarrow> (s\<lparr>spu_Pod := Some info, spu_key := keyForSinglePodUnit (Some q)\<rparr>, Inr ()))"

definition SinglePodUnit_AddPods ::
  "SinglePodUnit \<Rightarrow> QueuedPodInfo list \<Rightarrow> SinglePodUnit \<times> (unit_error + unit)" where
  "SinglePodUnit_AddPods s infos =
     (if length infos \<noteq> 1 then (s, Inl CannotAddMultiplePods) else (s, Inr ()))"

definition SinglePodUnit_AddPodsIfNotPresent ::
  "SinglePodUnit \<Rightarrow> QueuedPodInfo list \<Rightarrow> SinglePodUnit \<times> (unit_error + unit)" where
  "SinglePodUnit_AddPodsIfNotPresent s infos =
     (if length infos \<noteq> 1 then (s, Inl CannotAddMultiplePods)
      else if spu_Pod s \<noteq> None then (s, Inl PodAlreadyExisted)
      else (s, Inr ()))"

definition SinglePodUnit_UpdatePod ::
  "SinglePodUnit \<Rightarrow> QueuedPodInfo \<Rightarrow> SinglePodUnit \<times> (unit_error + unit)" where
  "SinglePodUnit_UpdatePod s info =
     (case qpi_Pod info of
        None \<Rightarrow> (s, Inl InvalidPod)
      | Some q \<Rightarrow> (s\<lparr>spu_Pod := Some info, spu_key := keyForSinglePodUnit (Some q)\<rparr>, Inr ()))"

definition SinglePodUnit_DeletePod ::
  "SinglePodUnit \<Rightarrow> QueuedPodInfo \<Rightarrow> SinglePodUnit \<times> (unit_error + unit)" where
  "SinglePodUnit_DeletePod s info =
     (case qpi_Pod info of None \<Rightarrow> (s, Inl InvalidPod) | Some q \<Rightarrow> (s\<lparr>spu_Pod := None\<rparr>, Inr ()))"

definition SinglePodUnit_GetTimeoutPeriod :: "SinglePodUnit \<Rightarrow> int" where
  "SinglePodUnit_GetTimeoutPeriod s = 0"

definition SinglePodUnit_GetAnnotations :: "SinglePodUnit \<Rightarrow> strmap" where
  "SinglePodUnit_GetAnnotations s =
     (case single_pod s of None \<Rightarrow> Some Map.empty | Some q \<Rightarrow> pod_Annotations q)"

definition SinglePodUnit_GetMinMember :: "SinglePodUnit \<Rightarrow> unit_error + int" where
  "SinglePodUnit_GetMinMember s = (case spu_Pod s of None \<Rightarrow> Inl PodIsNil | Some _ \<Rightarrow> Inr 1)"

definition SinglePodUnit_IsDebugModeOn :: "SinglePodUnit \<Rightarrow> bool" where
  "SinglePodUnit_IsDebugModeOn s =
     (case single_pod s of
        None \<Rightarrow> False
      | Some q \<Rightarrow>
          ann_has (pod_Annotations q) DebugModeAnnotationKey \<and>
          ann (pod_Annotations q) DebugModeAnnotationKey = ''on'')"

definition SinglePodUnit_ResetPods :: "SinglePodUnit \<Rightarrow> SinglePodUnit" where
  "SinglePodUnit_ResetPods s = s\<lparr>spu_Pod := None\<rparr>"

subsection \<open>The interface ScheduleUnit\<close>

datatype ScheduleUnit = PodGroupU PodGroupUnit | SinglePodU SinglePodUnit

fun unit_Type :: "ScheduleUnit \<Rightarrow> ScheduleUnitType" where
  "unit_Type (PodGroupU p) = PodGroupUnitType"
| "unit_Type (SinglePodU s) = SinglePodUnitType"

fun unit_GetKey :: "ScheduleUnit \<Rightarrow> key" where
  "unit_GetKey (PodGroupU p) = PodGroupUnit_GetKey p"
| "unit_GetKey (SinglePodU s) = SinglePodUnit_GetKey s"

fun unit_ReadyToBePopulated :: "ScheduleUnit \<Rightarrow> bool" where
  "unit_ReadyToBePopulated (PodGroupU p) = PodGroupUnit_ReadyToBePopulated p"
| "unit_ReadyToBePopulated (SinglePodU s) = SinglePodUnit_ReadyToBePopulated s"

text \<open>The outer \<open>None\<close> is a panic, \<open>Some None\<close> a nil pointer.\<close>

fun unit_GetCreationTimestamp :: "ScheduleUnit \<Rightarrow> time option option" where
  "unit_GetCreationTimestamp (PodGroupU p) = map_option Some (PodGroupUnit_GetCreationTimestamp p)"
| "unit_GetCreationTimestamp (SinglePodU s) = SinglePodUnit_GetCreationTimestamp s"

fun unit_GetPriority :: "ScheduleUnit \<Rightarrow> int" where
  "unit_GetPriority (PodGroupU p) = PodGroupUnit_GetPriority p"
| "unit_GetPriority (SinglePodU s) = SinglePodUnit_GetPriority s"

fun unit_GetPods :: "(key set \<Rightarrow> key list) \<Rightarrow> ScheduleUnit \<Rightarrow> QueuedPodInfo list" where
  "unit_GetPods ord (PodGroupU p) = PodGroupUnit_GetPods ord p"
| "unit_GetPods ord (SinglePodU s) = SinglePodUnit_GetPods s"

fun unit_NumPods :: "ScheduleUnit \<Rightarrow> nat" where
  "unit_NumPods (PodGroupU p) = PodGroupUnit_NumPods p"
| "unit_NumPods (SinglePodU s) = SinglePodUnit_NumPods s"

fun unit_GetPod :: "ScheduleUnit \<Rightarrow> QueuedPodInfo \<Rightarrow> QueuedPodInfo option option" where
  "unit_GetPod (PodGroupU p) i = Some (PodGroupUnit_GetPod p i)"
| "unit_GetPod (SinglePodU s) i = SinglePodUnit_GetPod s i"

fun unit_AddPod :: "ScheduleUnit \<Rightarrow> QueuedPodInfo \<Rightarrow> ScheduleUnit \<times> (unit_error + unit)" where
  "unit_AddPod (PodGroupU p) i = map_prod PodGroupU id (PodGroupUnit_AddPod p i)"
| "unit_AddPod (SinglePodU s) i = map_prod SinglePodU id (SinglePodUnit_AddPod s i)"

fun unit_AddPods :: "ScheduleUnit \<Rightarrow> QueuedPodInfo list \<Rightarrow> ScheduleUnit \<times> (unit_error + unit)" where
  "unit_AddPods (PodGroupU p) is = map_prod PodGroupU id (PodGroupUnit_AddPods p is)"
| "unit_AddPods (SinglePodU s) is = map_prod SinglePodU id (SinglePodUnit_AddPods s is)"

fun unit_AddPodsIfNotPresent ::
  "ScheduleUnit \<Rightarrow> QueuedPodInfo list \<Rightarrow> ScheduleUnit \<times> (unit_error + unit)" where
  "unit_AddPodsIfNotPresent (PodGroupU p) is = map_prod PodGroupU id (PodGroupUnit_AddPodsIfNotPresent p is)"
| "unit_AddPodsIfNotPresent (SinglePodU s) is = map_prod SinglePodU id (SinglePodUnit_AddPodsIfNotPresent s is)"

fun unit_DeletePod :: "ScheduleUnit \<Rightarrow> QueuedPodInfo \<Rightarrow> ScheduleUnit \<times> (unit_error + unit)" where
  "unit_DeletePod (PodGroupU p) i = map_prod PodGroupU id (PodGroupUnit_DeletePod p i)"
| "unit_DeletePod (SinglePodU s) i = map_prod SinglePodU id (SinglePodUnit_DeletePod s i)"

fun unit_GetAnnotations :: "ScheduleUnit \<Rightarrow> strmap" where
  "unit_GetAnnotations (PodGroupU p) = PodGroupUnit_GetAnnotations p"
| "unit_GetAnnotations (SinglePodU s) = SinglePodUnit_GetAnnotations s"

fun unit_SetEnqueuedTimeStamp :: "ScheduleUnit \<Rightarrow> time \<Rightarrow> ScheduleUnit" where
  "unit_SetEnqueuedTimeStamp (PodGroupU p) ts = PodGroupU (PodGroupUnit_SetEnqueuedTimeStamp p ts)"
| "unit_SetEnqueuedTimeStamp (SinglePodU s) ts = SinglePodU (SinglePodUnit_SetEnqueuedTimeStamp s ts)"

subsection \<open>Creation of units\<close>

text \<open>The listers are client-go code: \<open>pgLister\<close> gives the pod group of a namespace and a name,
  \<open>pcLister\<close> the value of a priority class.\<close>

type_synonym pg_lister = "string \<Rightarrow> string \<Rightarrow> PodGroup option"
type_synonym pc_lister = "string \<Rightarrow> int option"

definition CreateScheduleUnit ::
  "pc_lister \<Rightarrow> pg_lister \<Rightarrow> time \<Rightarrow> pod \<Rightarrow> unit_error + ScheduleUnit" where
  "CreateScheduleUnit pcLister pgLister now p =
     (if length (GetPodGroupName p) \<noteq> 0 then
        (case pgLister (pod_Namespace p) (GetPodGroupName p) of
           None \<Rightarrow> Inl PodGroupNotFound
         | Some podGroup \<Rightarrow>
             (if length (pg_PriorityClassName podGroup) = 0 then
                Inr (PodGroupU (NewPodGroupUnit now (Some podGroup) (GetDefaultPriorityForGodelPod p)))
              else
                (case pcLister (pg_PriorityClassName podGroup) of
                   None \<Rightarrow> Inl PriorityClassNotFound
                 | Some v \<Rightarrow> Inr (PodGroupU (NewPodGroupUnit now (Some podGroup) v)))))
      else Inr (SinglePodU \<lparr>spu_key = [], spu_Pod = None\<rparr>))"

text \<open>The wrapper the queues store. Scores are Go floats; they are reals here.\<close>

record QueuedUnitInfo =
  qui_UnitKey :: key
  qui_ScheduleUnit :: ScheduleUnit
  qui_Timestamp :: time
  qui_Attempts :: int
  qui_InitialAttemptTimestamp :: time
  qui_QueuePriorityScore :: real

definition NewQueuedUnitInfo :: "key \<Rightarrow> ScheduleUnit \<Rightarrow> time \<Rightarrow> QueuedUnitInfo" where
  "NewQueuedUnitInfo unitKey u now =
     \<lparr>qui_UnitKey = unitKey, qui_ScheduleUnit = u, qui_Timestamp = now, qui_Attempts = 0,
      qui_InitialAttemptTimestamp = now, qui_QueuePriorityScore = real_of_int (unit_GetPriority u)\<rparr>"

subsection \<open>What a client of a unit relies on\<close>

text \<open>The pod of a UID, and the units without dangling entries: every entry has a pod, under its
  own UID.\<close>

fun unit_find :: "ScheduleUnit \<Rightarrow> string \<Rightarrow> QueuedPodInfo option" where
  "unit_find (PodGroupU p) uid = pgu_queuedPodInfoMap p uid"
| "unit_find (SinglePodU s) uid =
     (case spu_Pod s of
        None \<Rightarrow> None
      | Some i \<Rightarrow> if map_option pod_UID (qpi_Pod i) = Some uid then Some i else None)"

fun unit_ok :: "ScheduleUnit \<Rightarrow> bool" where
  "unit_ok (PodGroupU p) \<longleftrightarrow>
     finite (dom (pgu_queuedPodInfoMap p)) \<and>
     (\<forall>uid i. pgu_queuedPodInfoMap p uid = Some i \<longrightarrow> map_option pod_UID (qpi_Pod i) = Some uid)"
| "unit_ok (SinglePodU s) \<longleftrightarrow> (\<forall>i. spu_Pod s = Some i \<longrightarrow> qpi_Pod i \<noteq> None)"

locale pod_holder =
  fixes ok :: "'u \<Rightarrow> bool"
    and find :: "'u \<Rightarrow> string \<Rightarrow> QueuedPodInfo option"
    and add :: "'u \<Rightarrow> QueuedPodInfo \<Rightarrow> 'u"
    and del :: "'u \<Rightarrow> QueuedPodInfo \<Rightarrow> 'u"
    and num :: "'u \<Rightarrow> nat"
  assumes find_pod: "ok u \<Longrightarrow> find u uid = Some i \<Longrightarrow> map_option pod_UID (qpi_Pod i) = Some uid"
    and add_ok: "ok u \<Longrightarrow> qpi_Pod i = Some p \<Longrightarrow> ok (add u i)"
    and add_find: "ok u \<Longrightarrow> qpi_Pod i = Some p \<Longrightarrow> find (add u i) (pod_UID p) = Some i"
    and del_ok: "ok u \<Longrightarrow> ok (del u i)"
    and del_find: "ok u \<Longrightarrow> qpi_Pod i = Some p \<Longrightarrow> find (del u i) (pod_UID p) = None"
    and del_keeps: "ok u \<Longrightarrow> find (del u i) uid = Some j \<Longrightarrow> find u uid = Some j"
    and num_zero: "ok u \<Longrightarrow> num u = 0 \<longleftrightarrow> (\<forall>uid. find u uid = None)"
begin

lemma add_num: "ok u \<Longrightarrow> qpi_Pod i = Some p \<Longrightarrow> 0 < num (add u i)"
  using add_find [of u i p] num_zero [of "add u i"] add_ok [of u i p] by force

lemma replace_find:
  "ok u \<Longrightarrow> qpi_Pod j = Some q \<Longrightarrow>
   ok (add (del u i) j) \<and> find (add (del u i) j) (pod_UID q) = Some j \<and> 0 < num (add (del u i) j)"
  using add_find add_ok del_ok add_num by blast

lemma adds_find:
  "ok u \<Longrightarrow> (\<And>i. i \<in> set is \<Longrightarrow> qpi_Pod i \<noteq> None) \<Longrightarrow> is \<noteq> [] \<Longrightarrow>
   ok (fold (\<lambda>i u. add u i) is u) \<and> 0 < num (fold (\<lambda>i u. add u i) is u)"
proof (induction "is" arbitrary: u)
  case (Cons i "is")
  from Cons.prems(2) [of i] obtain p where p: "qpi_Pod i = Some p" by auto
  then show ?case
    using Cons add_ok [OF Cons.prems(1) p] add_num [OF Cons.prems(1) p] by (cases "is = []") auto
qed simp

end

lemmas unit_defs =
  PodGroupUnit_AddPod_def PodGroupUnit_DeletePod_def PodGroupUnit_NumPods_def PodGroupUnit_GetKey_def
  SinglePodUnit_AddPod_def SinglePodUnit_DeletePod_def SinglePodUnit_NumPods_def SinglePodUnit_GetKey_def
  single_pod_def

interpretation uh: pod_holder unit_ok unit_find "\<lambda>u i. fst (unit_AddPod u i)"
  "\<lambda>u i. fst (unit_DeletePod u i)" unit_NumPods
proof (unfold_locales, goal_cases)
  case (1 u uid i)
  then show ?case by (cases u) (auto split: option.splits if_splits)
next
  case (2 u i p)
  then show ?case by (cases u) (auto simp: unit_defs)
next
  case (3 u i p)
  then show ?case by (cases u) (auto simp: unit_defs)
next
  case (4 u i)
  then show ?case by (cases u) (auto simp: unit_defs dom_fun_upd split: option.splits if_splits)
next
  case (5 u i p)
  then show ?case by (cases u) (auto simp: unit_defs)
next
  case (6 u i uid j)
  then show ?case by (cases u) (auto simp: unit_defs split: option.splits if_splits)
next
  case (7 u)
  then show ?case by (cases u) (auto simp: unit_defs split: option.splits)
qed

text \<open>A unit made for a pod carries the identifier of the pod as its key.\<close>

definition lister_ok :: "pg_lister \<Rightarrow> bool" where
  "lister_ok pgLister \<longleftrightarrow>
     (\<forall>ns n pg. pgLister ns n = Some pg \<longrightarrow> pg_Namespace pg = ns \<and> pg_Name pg = n)"

lemma CreateScheduleUnit_ok:
  "CreateScheduleUnit pcLister pgLister now p = Inr u \<Longrightarrow> unit_ok u"
  by (auto simp: CreateScheduleUnit_def NewPodGroupUnit_def split: if_splits option.splits)

lemma unit_AddPod_result:
  "qpi_Pod i = Some p \<Longrightarrow> snd (unit_AddPod u i) = Inr ()"
  by (cases u) (auto simp: unit_defs)

lemma unit_GetPod_find:
  "unit_ok v \<Longrightarrow> qpi_Pod i = Some p \<Longrightarrow> unit_GetPod v i = Some (unit_find v (pod_UID p))"
  by (cases v) (auto simp: PodGroupUnit_GetPod_def SinglePodUnit_GetPod_def split: option.splits)

lemma unit_Type_AddPod [simp]: "unit_Type (fst (unit_AddPod u i)) = unit_Type u"
  by (cases u) auto

lemma unit_Type_DeletePod [simp]: "unit_Type (fst (unit_DeletePod u i)) = unit_Type u"
  by (cases u) auto

subsection \<open>Properties\<close>

text \<open>Adding and deleting a pod through the interface ScheduleUnit, for both kinds of units: an
  added pod is the one GetPod returns for its UID, a deleted one is not returned, no entry without a
  pod appears, and a unit a pod was added to is not empty.\<close>

theorem unit_pods_add_delete:
  assumes "unit_ok u" "qpi_Pod i = Some p"
  shows "unit_AddPod u i = (fst (unit_AddPod u i), Inr ()) \<and>
         unit_GetPod (fst (unit_AddPod u i)) i = Some (Some i) \<and>
         unit_NumPods (fst (unit_AddPod u i)) \<noteq> 0 \<and>
         unit_GetPod (fst (unit_DeletePod u i)) i = Some None \<and>
         unit_ok (fst (unit_AddPod u i)) \<and> unit_ok (fst (unit_DeletePod u i))"
  using uh.add_ok [OF assms] uh.add_find [OF assms] uh.add_num [OF assms] uh.del_ok [OF assms(1), of i]
    uh.del_find [OF assms] unit_AddPod_result [OF assms(2), of u]
  by (simp add: unit_GetPod_find [OF _ assms(2)] prod_eq_iff)

definition group_example :: PodGroup where
  "group_example =
     \<lparr>pg_Namespace = ''prod'', pg_Name = ''train'', pg_Annotations = None, pg_CreationTimestamp = 5,
      pg_MinMember = 2, pg_ScheduleTimeoutSeconds = None, pg_PriorityClassName = [],
      pg_Affinity = None\<rparr>"

theorem unit_pods_add_delete_witness:
  "unit_GetPod (fst (unit_AddPod (PodGroupU (NewPodGroupUnit 0 (Some group_example) 7))
     (newQueuedPodInfo 3 pod_example))) (newQueuedPodInfo 3 pod_example) =
   Some (Some (newQueuedPodInfo 3 pod_example))"
  using unit_pods_add_delete [of "PodGroupU (NewPodGroupUnit 0 (Some group_example) 7)"
      "newQueuedPodInfo 3 pod_example" pod_example]
  by (simp add: NewPodGroupUnit_def newQueuedPodInfo_def)

text \<open>The key of a unit created for a pod is the unit identifier of the pod, which is the key the
  scheduling queues look the unit up with, if the pod-group lister answers with the group it was
  asked for.\<close>

theorem created_unit_key:
  assumes "lister_ok pgLister" "CreateScheduleUnit pcLister pgLister now p = Inr u"
    "qpi_Pod i = Some p"
  shows "unit_GetKey (fst (unit_AddPod u i)) = GetUnitIdentifier p"
  using assms
  by (auto simp: CreateScheduleUnit_def lister_ok_def NewPodGroupUnit_def keyForPodGroupUnit_def
      keyForSinglePodUnit_def GetUnitIdentifier_def unit_defs split: if_splits option.splits)

theorem created_unit_key_witness:
  "unit_GetKey (fst (unit_AddPod (SinglePodU \<lparr>spu_key = [], spu_Pod = None\<rparr>)
     (newQueuedPodInfo 3 pod_example))) = GetUnitIdentifier pod_example"
  by (rule created_unit_key [where pgLister = "\<lambda>_ _. None" and pcLister = "\<lambda>_. None" and now = 0])
    (simp_all add: lister_ok_def CreateScheduleUnit_def pod_example_def GetPodGroupName_def ann_def
      newQueuedPodInfo_def)

text \<open>AddPods and AddPodsIfNotPresent of a single-pod unit report success on an empty unit
  given exactly one pod, and drop the pod: neither ever changes the unit.\<close>

theorem single_pod_unit_drops_added_pods:
  "fst (SinglePodUnit_AddPods s infos) = s \<and> fst (SinglePodUnit_AddPodsIfNotPresent s infos) = s \<and>
   snd (SinglePodUnit_AddPods \<lparr>spu_key = k, spu_Pod = None\<rparr> [i]) = Inr () \<and>
   snd (SinglePodUnit_AddPodsIfNotPresent \<lparr>spu_key = k, spu_Pod = None\<rparr> [i]) = Inr ()"
  by (simp add: SinglePodUnit_AddPods_def SinglePodUnit_AddPodsIfNotPresent_def)

end
