(* ===== verification/Queue_Sort.thy ===== *)
theory Queue_Sort
  imports Schedule_Unit "HOL-Library.Product_Lexorder"
begin

section \<open>The orders of the ready queues (pkg/plugins/unitqueuesort, pkg/plugins/queuesort)\<close>

text \<open>
  The comparison plugins \<^verbatim>\<open>DefaultUnitQueueSort\<close>, \<^verbatim>\<open>FCFS\<close> and \<^verbatim>\<open>PrioritySort\<close>. A comparison that
  dereferences nil or indexes an empty slice is \<open>None\<close>. On units of one kind each unit comparison is
  the lexicographic order of a key, hence a strict weak order, which is what the heap asks for; over
  single-pod units and pod-group units together the comparisons have cycles.
\<close>

subsection \<open>The debug priority\<close>

definition PriorityForDebugAnnotation :: string where
  "PriorityForDebugAnnotation = ''godel.bytedance.com/customized-priority-for-debug''"

text \<open>\<^verbatim>\<open>strconv.Atoi\<close>: an optional sign and decimal digits, in the range of a 64-bit integer.\<close>

definition digit_value :: "char \<Rightarrow> int option" where
  "digit_value c =
     (let n = of_char c :: nat in if 48 \<le> n \<and> n \<le> 57 then Some (int n - 48) else None)"

fun parse_digits :: "string \<Rightarrow> int \<Rightarrow> int option" where
  "parse_digits [] acc = Some acc"
| "parse_digits (c # cs) acc =
     (case digit_value c of None \<Rightarrow> None | Some d \<Rightarrow> parse_digits cs (10 * acc + d))"

definition Atoi :: "string \<Rightarrow> int option" where
  "Atoi s =
     (let neg = (s \<noteq> [] \<and> hd s = CHR ''-'');
          ds = (if s \<noteq> [] \<and> (hd s = CHR ''-'' \<or> hd s = CHR ''+'') then tl s else s) in
      if ds = [] then None
      else case parse_digits ds 0 of
             None \<Rightarrow> None
           | Some v \<Rightarrow>
               let r = (if neg then - v else v) in
               if - (2 ^ 63) \<le> r \<and> r < 2 ^ 63 then Some r else None)"

definition GetPriorityForDebug :: "strmap \<Rightarrow> int" where
  "GetPriorityForDebug annotations =
     (let priorityForDebug = ann annotations PriorityForDebugAnnotation in
      if length priorityForDebug = 0 then 0
      else case Atoi priorityForDebug of None \<Rightarrow> 0 | Some v \<Rightarrow> v)"

datatype compare_result = LESS | EQUAL | GREATER

definition ComparePriorityForDebug :: "strmap \<Rightarrow> strmap \<Rightarrow> compare_result" where
  "ComparePriorityForDebug annotations1 annotations2 =
     (let premium1 = GetPriorityForDebug annotations1; premium2 = GetPriorityForDebug annotations2 in
      if premium1 = premium2 then EQUAL else if premium1 < premium2 then LESS else GREATER)"

subsection \<open>The comparisons\<close>

text \<open>The requests the comparisons read from \<^verbatim>\<open>GetPods()[0]\<close> of a single-pod unit: \<^verbatim>\<open>MilliValue\<close> of the
  CPU request and \<^verbatim>\<open>Value\<close>, rounded up, of the memory request.\<close>

definition first_pod_requests :: "ScheduleUnit \<Rightarrow> (int \<times> int) option" where
  "first_pod_requests u =
     (case u of
        PodGroupU p \<Rightarrow> None
      | SinglePodU s \<Rightarrow>
          (case SinglePodUnit_GetPods s of
             [] \<Rightarrow> None
           | i # _ \<Rightarrow>
               (case qpi_Pod i of
                  None \<Rightarrow> None
                | Some p \<Rightarrow>
                    Some (GetPodRequest p ''cpu'', quantity_Value (GetPodRequest p ''memory'')))))"

definition DefaultUnitQueueSort_Less :: "QueuedUnitInfo \<Rightarrow> QueuedUnitInfo \<Rightarrow> bool option" where
  "DefaultUnitQueueSort_Less uInfo1 uInfo2 =
     (let u1 = qui_ScheduleUnit uInfo1; u2 = qui_ScheduleUnit uInfo2;
          compareResult = ComparePriorityForDebug (unit_GetAnnotations u1) (unit_GetAnnotations u2);
          score1 = qui_QueuePriorityScore uInfo1; score2 = qui_QueuePriorityScore uInfo2 in
      if compareResult \<noteq> EQUAL then Some (compareResult = GREATER)
      else if score1 \<noteq> score2 then Some (score1 > score2)
      else if unit_Type u1 = SinglePodUnitType \<and> unit_Type u2 = SinglePodUnitType then
        (case (first_pod_requests u1, first_pod_requests u2) of
           (Some (cpu1, mem1), Some (cpu2, mem2)) \<Rightarrow>
             if cpu1 \<noteq> cpu2 then Some (cpu1 > cpu2)
             else if mem1 \<noteq> mem2 then Some (mem1 > mem2)
             else Some (qui_Timestamp uInfo1 < qui_Timestamp uInfo2)
         | _ \<Rightarrow> None)
      else Some (qui_Timestamp uInfo1 < qui_Timestamp uInfo2))"

text \<open>\<^verbatim>\<open>Equal\<close> and \<^verbatim>\<open>Before\<close> of \<^verbatim>\<open>*metav1.Time\<close>, nil pointers included.\<close>

definition metav1_Equal :: "time option \<Rightarrow> time option \<Rightarrow> bool" where
  "metav1_Equal t u \<longleftrightarrow> t = u"

definition metav1_Before :: "time option \<Rightarrow> time option \<Rightarrow> bool" where
  "metav1_Before t u = (case (t, u) of (Some a, Some b) \<Rightarrow> a < b | _ \<Rightarrow> False)"

definition FCFS_Less :: "QueuedUnitInfo \<Rightarrow> QueuedUnitInfo \<Rightarrow> bool option" where
  "FCFS_Less uInfo1 uInfo2 =
     (let u1 = qui_ScheduleUnit uInfo1; u2 = qui_ScheduleUnit uInfo2;
          compareResult = ComparePriorityForDebug (unit_GetAnnotations u1) (unit_GetAnnotations u2);
          p1 = unit_GetPriority u1; p2 = unit_GetPriority u2 in
      if compareResult \<noteq> EQUAL then Some (compareResult = GREATER)
      else if p1 \<noteq> p2 then Some (p1 > p2)
      else case (unit_GetCreationTimestamp u1, unit_GetCreationTimestamp u2) of
             (Some c1, Some c2) \<Rightarrow>
               if \<not> metav1_Equal c1 c2 then Some (metav1_Before c1 c2)
               else if unit_Type u1 = SinglePodUnitType \<and> unit_Type u2 = SinglePodUnitType then
                 (case (first_pod_requests u1, first_pod_requests u2) of
                    (Some (cpu1, mem1), Some (cpu2, mem2)) \<Rightarrow>
                      if cpu1 \<noteq> cpu2 then Some (cpu1 > cpu2)
                      else if mem1 \<noteq> mem2 then Some (mem1 > mem2)
                      else Some (qui_Timestamp uInfo1 < qui_Timestamp uInfo2)
                  | _ \<Rightarrow> None)
               else Some (qui_Timestamp uInfo1 < qui_Timestamp uInfo2)
           | _ \<Rightarrow> None)"

text \<open>The comparison of the binder's and dispatcher's pod queues; a nil pod panics.\<close>

definition PrioritySort_Less :: "QueuedPodInfo \<Rightarrow> QueuedPodInfo \<Rightarrow> bool option" where
  "PrioritySort_Less pInfo1 pInfo2 =
     (case (qpi_Pod pInfo1, qpi_Pod pInfo2) of
        (Some q1, Some q2) \<Rightarrow>
          let p1 = GetPodPriority q1; p2 = GetPodPriority q2 in
          Some (p1 > p2 \<or> p1 = p2 \<and> qpi_Timestamp pInfo1 < qpi_Timestamp pInfo2)
      | _ \<Rightarrow> None)"

subsection \<open>The comparisons as lexicographic orders\<close>

definition unit_debug :: "QueuedUnitInfo \<Rightarrow> int" where
  "unit_debug u = GetPriorityForDebug (unit_GetAnnotations (qui_ScheduleUnit u))"

definition unit_requests :: "QueuedUnitInfo \<Rightarrow> int \<times> int" where
  "unit_requests u =
     (case first_pod_requests (qui_ScheduleUnit u) of None \<Rightarrow> (0, 0) | Some r \<Rightarrow> r)"

definition default_key :: "QueuedUnitInfo \<Rightarrow> int \<times> real \<times> int \<times> int \<times> int" where
  "default_key u =
     (- unit_debug u, - qui_QueuePriorityScore u, - fst (unit_requests u), - snd (unit_requests u),
      qui_Timestamp u)"

definition fcfs_key :: "QueuedUnitInfo \<Rightarrow> int \<times> int \<times> int \<times> int \<times> int \<times> int" where
  "fcfs_key u =
     (- unit_debug u, - unit_GetPriority (qui_ScheduleUnit u),
      the (the (unit_GetCreationTimestamp (qui_ScheduleUnit u))),
      - fst (unit_requests u), - snd (unit_requests u), qui_Timestamp u)"

text \<open>Units the queues hold: a single-pod unit has its pod, a group unit its pod group.\<close>

fun unit_complete :: "ScheduleUnit \<Rightarrow> bool" where
  "unit_complete (PodGroupU p) \<longleftrightarrow> pgu_podGroup p \<noteq> None"
| "unit_complete (SinglePodU s) \<longleftrightarrow> single_pod s \<noteq> None"

definition same_kind :: "ScheduleUnitType \<Rightarrow> QueuedUnitInfo set \<Rightarrow> bool" where
  "same_kind t A \<longleftrightarrow> (\<forall>u\<in>A. unit_Type (qui_ScheduleUnit u) = t \<and> unit_complete (qui_ScheduleUnit u))"

lemma first_pod_requests_complete:
  "unit_complete u \<Longrightarrow> unit_Type u = SinglePodUnitType \<Longrightarrow> first_pod_requests u \<noteq> None"
  by (cases u) (auto simp: first_pod_requests_def single_pod_def SinglePodUnit_GetPods_def
      split: option.splits)

lemma first_pod_requests_group: "unit_Type u = PodGroupUnitType \<Longrightarrow> first_pod_requests u = None"
  by (cases u) (auto simp: first_pod_requests_def)

lemma creation_complete:
  "unit_complete u \<Longrightarrow> \<exists>t. unit_GetCreationTimestamp u = Some (Some t)"
  by (cases u)
    (auto simp: PodGroupUnit_GetCreationTimestamp_def SinglePodUnit_GetCreationTimestamp_def
      single_pod_def split: option.splits)

lemma compare_debug:
  "ComparePriorityForDebug (unit_GetAnnotations (qui_ScheduleUnit u)) (unit_GetAnnotations (qui_ScheduleUnit v)) =
   (if unit_debug u = unit_debug v then EQUAL else if unit_debug u < unit_debug v then LESS else GREATER)"
  by (simp add: ComparePriorityForDebug_def unit_debug_def Let_def)

lemma DefaultUnitQueueSort_Less_key:
  assumes "same_kind t A" "u \<in> A" "v \<in> A"
  shows "DefaultUnitQueueSort_Less u v = Some (default_key u < default_key v)"
proof (cases t)
  case PodGroupUnitType
  then show ?thesis
    using assms
    by (auto simp: same_kind_def DefaultUnitQueueSort_Less_def compare_debug default_key_def
        unit_requests_def first_pod_requests_group Let_def)
next
  case SinglePodUnitType
  then obtain r1 r2 where
    "first_pod_requests (qui_ScheduleUnit u) = Some r1" "first_pod_requests (qui_ScheduleUnit v) = Some r2"
    using assms first_pod_requests_complete unfolding same_kind_def by (metis not_None_eq)
  then show ?thesis
    using assms SinglePodUnitType
    by (auto simp: same_kind_def DefaultUnitQueueSort_Less_def compare_debug default_key_def
        unit_requests_def Let_def split: prod.splits)
qed

lemma FCFS_Less_key:
  assumes "same_kind t A" "u \<in> A" "v \<in> A"
  shows "FCFS_Less u v = Some (fcfs_key u < fcfs_key v)"
proof -
  obtain c1 c2 where c: "unit_GetCreationTimestamp (qui_ScheduleUnit u) = Some (Some c1)"
    "unit_GetCreationTimestamp (qui_ScheduleUnit v) = Some (Some c2)"
    using assms creation_complete unfolding same_kind_def by blast
  show ?thesis
  proof (cases t)
    case PodGroupUnitType
    then show ?thesis
      using assms c
      by (auto simp: same_kind_def FCFS_Less_def compare_debug fcfs_key_def metav1_Equal_def
          metav1_Before_def unit_requests_def first_pod_requests_group Let_def)
  next
    case SinglePodUnitType
    then obtain r1 r2 where
      "first_pod_requests (qui_ScheduleUnit u) = Some r1" "first_pod_requests (qui_ScheduleUnit v) = Some r2"
      using assms first_pod_requests_complete unfolding same_kind_def by (metis not_None_eq)
    then show ?thesis
      using assms SinglePodUnitType c
      by (auto simp: same_kind_def FCFS_Less_def compare_debug fcfs_key_def metav1_Equal_def
          metav1_Before_def unit_requests_def Let_def split: prod.splits)
  qed
qed

lemma strict_weak_cong:
  "strict_weak_on A lt \<Longrightarrow> (\<And>x y. x \<in> A \<Longrightarrow> y \<in> A \<Longrightarrow> lt' x y = lt x y) \<Longrightarrow> strict_weak_on A lt'"
  unfolding strict_weak_on_def by blast

lemma unit_less_order:
  assumes "same_kind t A"
  shows "strict_weak_on A (\<lambda>u v. DefaultUnitQueueSort_Less u v = Some True)"
    and "strict_weak_on A (\<lambda>u v. FCFS_Less u v = Some True)"
proof -
  show "strict_weak_on A (\<lambda>u v. DefaultUnitQueueSort_Less u v = Some True)"
    by (rule strict_weak_cong [OF strict_weak_key [where f = default_key]])
      (simp add: DefaultUnitQueueSort_Less_key [OF assms])
  show "strict_weak_on A (\<lambda>u v. FCFS_Less u v = Some True)"
    by (rule strict_weak_cong [OF strict_weak_key [where f = fcfs_key]])
      (simp add: FCFS_Less_key [OF assms])
qed

text \<open>On complete units, of the same kind or not, neither comparison panics.\<close>

lemma unit_less_total:
  assumes "unit_complete (qui_ScheduleUnit u)" "unit_complete (qui_ScheduleUnit v)"
  shows "DefaultUnitQueueSort_Less u v \<noteq> None \<and> FCFS_Less u v \<noteq> None"
proof -
  let ?u = "qui_ScheduleUnit u" and ?v = "qui_ScheduleUnit v"
  have r: "unit_Type w = SinglePodUnitType \<Longrightarrow> unit_complete w \<Longrightarrow> \<exists>c m. first_pod_requests w = Some (c, m)" for w
    using first_pod_requests_complete [of w] by (cases "first_pod_requests w") auto
  obtain c1 c2 where c: "unit_GetCreationTimestamp ?u = Some c1" "unit_GetCreationTimestamp ?v = Some c2"
    using creation_complete assms by blast
  show ?thesis
  proof (cases "unit_Type ?u = SinglePodUnitType \<and> unit_Type ?v = SinglePodUnitType")
    case True
    then obtain a1 a2 b1 b2 where "first_pod_requests ?u = Some (a1, a2)" "first_pod_requests ?v = Some (b1, b2)"
      using r assms by meson
    then show ?thesis using c by (simp add: DefaultUnitQueueSort_Less_def FCFS_Less_def Let_def)
  next
    case False
    then show ?thesis using c by (auto simp: DefaultUnitQueueSort_Less_def FCFS_Less_def Let_def)
  qed
qed

subsection \<open>Properties\<close>

text \<open>C12. On units of one kind that hold their pod or pod group, neither unit comparison panics and
  both are strict weak orders, as the heap of the ready queue requires: the default plugin orders by
  debug priority, score, CPU request and memory request, all descending, and then by queueing time;
  FCFS by debug priority, priority, creation time, requests and queueing time.\<close>

theorem unit_sort_strict_weak:
  assumes "same_kind t A"
  shows "(\<forall>u\<in>A. \<forall>v\<in>A.
            DefaultUnitQueueSort_Less u v = Some (default_key u < default_key v) \<and>
            FCFS_Less u v = Some (fcfs_key u < fcfs_key v)) \<and>
         strict_weak_on A (\<lambda>u v. DefaultUnitQueueSort_Less u v = Some True) \<and>
         strict_weak_on A (\<lambda>u v. FCFS_Less u v = Some True)"
  using unit_less_order [OF assms]
  by (simp add: DefaultUnitQueueSort_Less_key [OF assms] FCFS_Less_key [OF assms])

definition single_unit :: "key \<Rightarrow> int \<Rightarrow> time \<Rightarrow> QueuedUnitInfo" where
  "single_unit k cpu ts =
     \<lparr>qui_UnitKey = k,
      qui_ScheduleUnit =
        SinglePodU (NewSinglePodUnit (Some (newQueuedPodInfo ts
          (pod_example\<lparr>pod_Name := k, pod_Requests := [[''cpu'' \<mapsto> cpu]]\<rparr>)))),
      qui_Timestamp = ts, qui_Attempts = 0, qui_InitialAttemptTimestamp = ts,
      qui_QueuePriorityScore = 10\<rparr>"

definition group_unit :: "time \<Rightarrow> QueuedUnitInfo" where
  "group_unit ts =
     \<lparr>qui_UnitKey = ''g'',
      qui_ScheduleUnit = PodGroupU (NewPodGroupUnit ts (Some group_example) 10),
      qui_Timestamp = ts, qui_Attempts = 0, qui_InitialAttemptTimestamp = ts,
      qui_QueuePriorityScore = 10\<rparr>"

lemmas sort_example_defs =
  single_unit_def group_unit_def DefaultUnitQueueSort_Less_def ComparePriorityForDebug_def
  NewSinglePodUnit_def NewPodGroupUnit_def SinglePodUnit_GetAnnotations_def
  PodGroupUnit_GetAnnotations_def single_pod_def newQueuedPodInfo_def pod_example_def
  group_example_def GetPriorityForDebug_def ann_def first_pod_requests_def SinglePodUnit_GetPods_def
  GetPodRequest_def quantity_Value_def

theorem unit_sort_strict_weak_witness:
  "DefaultUnitQueueSort_Less (single_unit ''a'' 10 5) (single_unit ''b'' 1 1) =
   Some (default_key (single_unit ''a'' 10 5) < default_key (single_unit ''b'' 1 1))"
  using unit_sort_strict_weak [of SinglePodUnitType "{single_unit ''a'' 10 5, single_unit ''b'' 1 1}"]
  by (simp add: same_kind_def single_unit_def NewSinglePodUnit_def single_pod_def newQueuedPodInfo_def)

text \<open>C13. Over both kinds of units the default comparison is not a strict weak order: two single-pod
  units and a pod-group unit of the same score can precede each other in a circle, since requests are
  compared only between single-pod units.\<close>

theorem default_sort_cycle:
  "\<exists>a b c. DefaultUnitQueueSort_Less a b = Some True \<and> DefaultUnitQueueSort_Less b c = Some True \<and>
           DefaultUnitQueueSort_Less c a = Some True"
proof (intro exI conjI)
  show "DefaultUnitQueueSort_Less (single_unit ''a'' 10 5) (single_unit ''b'' 1 1) = Some True"
    by (simp add: sort_example_defs)
  show "DefaultUnitQueueSort_Less (single_unit ''b'' 1 1) (group_unit 3) = Some True"
    by (simp add: sort_example_defs)
  show "DefaultUnitQueueSort_Less (group_unit 3) (single_unit ''a'' 10 5) = Some True"
    by (simp add: sort_example_defs)
qed

end
