(* ===== verification/Container_Heap.thy ===== *)
theory Container_Heap
  imports Godel_Prelude
begin

section \<open>The algorithms of Go's container/heap over an abstract heap interface\<close>

text \<open>
  \<^verbatim>\<open>container/heap\<close> works on any value that implements \<^verbatim>\<open>heap.Interface\<close>. Its two loops
  are written here over the two operations they call, \<open>lessf\<close> and \<open>swapf\<close>; \<open>swapf\<close> may panic
  (\<open>None\<close>). The locale \<open>heap_interface\<close> states what an implementation promises: the state shows
  as a list of elements, \<open>lessf\<close> compares two of them and \<open>swapf\<close> exchanges them. Under these laws
  neither loop panics and both permute the elements; in \<open>heap_container\<close>, where the
  comparison is a strict weak order, they restore the heap order.
\<close>

definition parent :: "nat \<Rightarrow> nat" where
  "parent j = (j - 1) div 2"

type_synonym 's less_op = "'s \<Rightarrow> nat \<Rightarrow> nat \<Rightarrow> bool option"
type_synonym 's swap_op = "'s \<Rightarrow> nat \<Rightarrow> nat \<Rightarrow> 's option"

text \<open>\<^verbatim>\<open>heap.up\<close>: a child smaller than its parent moves towards the root.\<close>

function heap_up :: "'s less_op \<Rightarrow> 's swap_op \<Rightarrow> 's \<Rightarrow> nat \<Rightarrow> 's option" where
  "heap_up lessf swapf s j =
     (let i = parent j in
      if i = j then Some s
      else case lessf s j i of
             None \<Rightarrow> None
           | Some b \<Rightarrow>
               if \<not> b then Some s
               else case swapf s i j of
                      None \<Rightarrow> None
                    | Some s' \<Rightarrow> heap_up lessf swapf s' i)"
  by pat_completeness auto
termination
  by (relation "measure (\<lambda>(lessf, swapf, s, j). j)") (auto simp: parent_def)

text \<open>\<^verbatim>\<open>heap.down\<close>: an element larger than its smaller child moves away from the root; the
  result carries the final index, and the Go function returns whether it moved. The test
  \<^verbatim>\<open>j1 < 0\<close> of the Go loop guards against overflow of \<^verbatim>\<open>2*i + 1\<close> and is vacuous on
  natural numbers.\<close>

function heap_down_loop ::
  "'s less_op \<Rightarrow> 's swap_op \<Rightarrow> 's \<Rightarrow> nat \<Rightarrow> nat \<Rightarrow> ('s \<times> nat) option" where
  "heap_down_loop lessf swapf s i n =
     (let j1 = 2 * i + 1; j2 = j1 + 1 in
      if j1 \<ge> n then Some (s, i)
      else case (if j2 < n then lessf s j2 j1 else Some False) of
             None \<Rightarrow> None
           | Some right \<Rightarrow>
               (let j = (if right then j2 else j1) in
                case lessf s j i of
                  None \<Rightarrow> None
                | Some b \<Rightarrow>
                    if \<not> b then Some (s, i)
                    else case swapf s i j of
                           None \<Rightarrow> None
                         | Some s' \<Rightarrow> heap_down_loop lessf swapf s' j n))"
  by pat_completeness auto
termination
  by (relation "measure (\<lambda>(lessf, swapf, s, i, n). n - i)") (auto simp: Let_def split: if_splits)

definition heap_down ::
  "'s less_op \<Rightarrow> 's swap_op \<Rightarrow> 's \<Rightarrow> nat \<Rightarrow> nat \<Rightarrow> ('s \<times> bool) option" where
  "heap_down lessf swapf s i0 n =
     (case heap_down_loop lessf swapf s i0 n of
        None \<Rightarrow> None
      | Some (s', i) \<Rightarrow> Some (s', i > i0))"

text \<open>The tail shared by \<^verbatim>\<open>heap.Fix\<close> and \<^verbatim>\<open>heap.Remove\<close>: \<^verbatim>\<open>if !down(h, i, n) { up(h, i) }\<close>.\<close>

definition heap_sift :: "'s less_op \<Rightarrow> 's swap_op \<Rightarrow> 's \<Rightarrow> nat \<Rightarrow> nat \<Rightarrow> 's option" where
  "heap_sift lessf swapf s i n =
     (case heap_down lessf swapf s i n of
        None \<Rightarrow> None
      | Some (s', moved) \<Rightarrow> if moved then Some s' else heap_up lessf swapf s' i)"

text \<open>The exported functions of the package. \<open>push\<close> and \<open>pop\<close> are the methods \<^verbatim>\<open>Push\<close> and
  \<^verbatim>\<open>Pop\<close> of the interface, \<open>len\<close> its \<^verbatim>\<open>Len\<close>; \<open>pop\<close> may panic and may return nil. Where the
  Go code computes \<^verbatim>\<open>h.Len() - 1\<close> on an empty heap the index is -1 and \<^verbatim>\<open>Swap\<close> panics.\<close>

type_synonym ('s, 'x) push_op = "'s \<Rightarrow> 'x \<Rightarrow> 's"
type_synonym ('s, 'o) pop_op = "'s \<Rightarrow> ('s \<times> 'o option) option"

definition heap_Push ::
  "'s less_op \<Rightarrow> 's swap_op \<Rightarrow> ('s \<Rightarrow> nat) \<Rightarrow> ('s, 'x) push_op \<Rightarrow> 's \<Rightarrow> 'x \<Rightarrow> 's option" where
  "heap_Push lessf swapf len push s x =
     (let s' = push s x in heap_up lessf swapf s' (len s' - 1))"

definition heap_Pop ::
  "'s less_op \<Rightarrow> 's swap_op \<Rightarrow> ('s \<Rightarrow> nat) \<Rightarrow> ('s, 'o) pop_op \<Rightarrow> ('s, 'o) pop_op" where
  "heap_Pop lessf swapf len pop s =
     (if len s = 0 then None
      else let n = len s - 1 in
        case swapf s 0 n of
          None \<Rightarrow> None
        | Some s1 \<Rightarrow>
            (case heap_down lessf swapf s1 0 n of
               None \<Rightarrow> None
             | Some (s2, _) \<Rightarrow> pop s2))"

definition heap_Remove ::
  "'s less_op \<Rightarrow> 's swap_op \<Rightarrow> ('s \<Rightarrow> nat) \<Rightarrow> ('s, 'o) pop_op \<Rightarrow> 's \<Rightarrow> nat
    \<Rightarrow> ('s \<times> 'o option) option" where
  "heap_Remove lessf swapf len pop s i =
     (if len s = 0 then None
      else let n = len s - 1 in
        if n \<noteq> i then
          (case swapf s i n of
             None \<Rightarrow> None
           | Some s1 \<Rightarrow>
               (case heap_sift lessf swapf s1 i n of
                  None \<Rightarrow> None
                | Some s2 \<Rightarrow> pop s2))
        else pop s)"

definition heap_Fix ::
  "'s less_op \<Rightarrow> 's swap_op \<Rightarrow> ('s \<Rightarrow> nat) \<Rightarrow> 's \<Rightarrow> nat \<Rightarrow> 's option" where
  "heap_Fix lessf swapf len s i = heap_sift lessf swapf s i (len s)"

declare heap_up.simps [simp del] heap_down_loop.simps [simp del]

subsection \<open>Heap order on lists\<close>

text \<open>No element is smaller than its parent, for the first \<open>n\<close> positions.\<close>

definition heap_order :: "('a \<Rightarrow> 'a \<Rightarrow> bool) \<Rightarrow> 'a list \<Rightarrow> nat \<Rightarrow> bool" where
  "heap_order lt xs n \<longleftrightarrow> (\<forall>k<n. 0 < k \<longrightarrow> \<not> lt (xs ! k) (xs ! parent k))"

text \<open>The order may be broken between \<open>j\<close> and its parent only; what hangs below \<open>j\<close> already
  respects the parent of \<open>j\<close>.\<close>

definition order_but_up :: "('a \<Rightarrow> 'a \<Rightarrow> bool) \<Rightarrow> 'a list \<Rightarrow> nat \<Rightarrow> nat \<Rightarrow> bool" where
  "order_but_up lt xs n j \<longleftrightarrow>
     (\<forall>k<n. 0 < k \<longrightarrow> k \<noteq> j \<longrightarrow> \<not> lt (xs ! k) (xs ! parent k)) \<and>
     (0 < j \<longrightarrow> (\<forall>k<n. 0 < k \<longrightarrow> parent k = j \<longrightarrow> \<not> lt (xs ! k) (xs ! parent j)))"

text \<open>The order may be broken between \<open>i\<close> and its children only.\<close>

definition order_but_down :: "('a \<Rightarrow> 'a \<Rightarrow> bool) \<Rightarrow> 'a list \<Rightarrow> nat \<Rightarrow> nat \<Rightarrow> bool" where
  "order_but_down lt xs n i \<longleftrightarrow>
     (\<forall>k<n. 0 < k \<longrightarrow> parent k \<noteq> i \<longrightarrow> \<not> lt (xs ! k) (xs ! parent k)) \<and>
     (0 < i \<longrightarrow> (\<forall>k<n. 0 < k \<longrightarrow> parent k = i \<longrightarrow> \<not> lt (xs ! k) (xs ! parent i)))"

text \<open>The order may be broken on both sides of \<open>i\<close>: the state after the element at \<open>i\<close> was
  replaced in a heap.\<close>

definition order_but :: "('a \<Rightarrow> 'a \<Rightarrow> bool) \<Rightarrow> 'a list \<Rightarrow> nat \<Rightarrow> nat \<Rightarrow> bool" where
  "order_but lt xs n i \<longleftrightarrow>
     (\<forall>k<n. 0 < k \<longrightarrow> k \<noteq> i \<longrightarrow> parent k \<noteq> i \<longrightarrow> \<not> lt (xs ! k) (xs ! parent k)) \<and>
     (0 < i \<longrightarrow> (\<forall>k<n. 0 < k \<longrightarrow> parent k = i \<longrightarrow> \<not> lt (xs ! k) (xs ! parent i)))"

lemma parent_less: "0 < k \<Longrightarrow> parent k < k"
  by (simp add: parent_def)

lemma parent_le: "parent k \<le> k"
  by (simp add: parent_def)

lemma parent_eq_self: "parent k = k \<longleftrightarrow> k = 0"
  by (auto simp: parent_def)

lemma self_eq_parent: "k = parent k \<longleftrightarrow> k = 0"
  using parent_eq_self [of k] by auto

lemma parent_children: "0 < k \<Longrightarrow> parent k = i \<longleftrightarrow> k = 2 * i + 1 \<or> k = 2 * i + 2"
  by (auto simp: parent_def)

lemma parent_left [simp]: "parent (Suc (2 * i)) = i"
  by (simp add: parent_def)

lemma parent_right [simp]: "parent (Suc (Suc (2 * i))) = i"
  by (simp add: parent_def)

lemma nth_asym:
  "strict_weak_on (set xs) lt \<Longrightarrow> i < length xs \<Longrightarrow> j < length xs \<Longrightarrow>
   lt (xs ! i) (xs ! j) \<Longrightarrow> \<not> lt (xs ! j) (xs ! i)"
  by (rule strict_weak_asym) auto

lemma nth_neg_trans:
  "strict_weak_on (set xs) lt \<Longrightarrow> i < length xs \<Longrightarrow> j < length xs \<Longrightarrow> k < length xs \<Longrightarrow>
   \<not> lt (xs ! i) (xs ! j) \<Longrightarrow> \<not> lt (xs ! j) (xs ! k) \<Longrightarrow> \<not> lt (xs ! i) (xs ! k)"
  by (rule strict_weak_neg_trans [where y = "xs ! j"]) auto

text \<open>In a heap no element is smaller than the root.\<close>

lemma heap_order_root:
  assumes ord: "heap_order lt xs n" and sw: "strict_weak_on (set xs) lt" and n: "n \<le> length xs"
  shows "k < n \<Longrightarrow> \<not> lt (xs ! k) (xs ! 0)"
proof (induction k rule: less_induct)
  case (less k)
  show ?case
  proof (cases "k = 0")
    case True
    then show ?thesis using nth_asym [OF sw, of 0 0] less.prems n by fastforce
  next
    case False
    then have p: "parent k < k" by (simp add: parent_less)
    then have "\<not> lt (xs ! parent k) (xs ! 0)" using less by simp
    moreover have "\<not> lt (xs ! k) (xs ! parent k)"
      using ord less.prems False by (auto simp: heap_order_def)
    ultimately show ?thesis
      using nth_neg_trans [OF sw, of k "parent k" 0] p less.prems n by fastforce
  qed
qed

text \<open>The smaller child of \<open>i\<close>, as \<^verbatim>\<open>heap.down\<close> chooses it.\<close>

definition small_child :: "('a \<Rightarrow> 'a \<Rightarrow> bool) \<Rightarrow> 'a list \<Rightarrow> nat \<Rightarrow> nat \<Rightarrow> nat" where
  "small_child lt xs n i =
     (if 2 * i + 2 < n \<and> lt (xs ! (2 * i + 2)) (xs ! (2 * i + 1)) then 2 * i + 2 else 2 * i + 1)"

lemma small_child_bound: "2 * i + 1 < n \<Longrightarrow> small_child lt xs n i < n"
  by (auto simp: small_child_def)

lemma small_child_above [simp]: "i < small_child lt xs n i"
  by (auto simp: small_child_def)

lemma small_child_parent [simp]: "parent (small_child lt xs n i) = i"
  by (auto simp: small_child_def)

lemma small_child_least:
  assumes "strict_weak_on (set xs) lt" "n \<le> length xs" "k < n" "0 < k" "parent k = i"
  shows "\<not> lt (xs ! k) (xs ! small_child lt xs n i)"
proof -
  have "k = 2 * i + 1 \<or> k = 2 * i + 2" using assms by (simp add: parent_children)
  then show ?thesis
    using assms nth_asym [OF assms(1), of "2 * i + 2" "2 * i + 1"] nth_asym [OF assms(1), of k k]
    by (auto simp: small_child_def)
qed

lemma order_but_down_weaken:
  "order_but_down lt xs n i \<Longrightarrow> order_but lt xs n i"
  by (auto simp: order_but_def order_but_down_def)

text \<open>Where the element at \<open>i\<close> is no larger than its smaller child, or has no child, the order
  holds below \<open>i\<close>; otherwise exchanging the two moves the place where it may be broken to that
  child.\<close>

lemma order_but_stop:
  assumes ord: "order_but lt xs n i" and sw: "strict_weak_on (set xs) lt"
    and n: "n \<le> length xs" "i < length xs"
    and stop: "2 * i + 1 < n \<Longrightarrow> \<not> lt (xs ! small_child lt xs n i) (xs ! i)"
  shows "order_but_up lt xs n i"
proof -
  have "\<not> lt (xs ! k) (xs ! i)" if k: "k < n" "0 < k" "parent k = i" for k
  proof -
    have l: "2 * i + 1 < n" using k by (auto simp: parent_children)
    then have "small_child lt xs n i < length xs"
      using small_child_bound n by (meson order.strict_trans2)
    then show ?thesis
      using nth_neg_trans [OF sw _ _ _ small_child_least [OF sw n(1) k] stop [OF l]] k n by simp
  qed
  then show ?thesis using ord unfolding order_but_up_def order_but_def by metis
qed

lemma order_but_down_stop:
  assumes ord: "order_but_down lt xs n i" and sw: "strict_weak_on (set xs) lt"
    and n: "n \<le> length xs" "i < length xs"
    and stop: "2 * i + 1 < n \<Longrightarrow> \<not> lt (xs ! small_child lt xs n i) (xs ! i)"
  shows "heap_order lt xs n"
proof -
  have "order_but_up lt xs n i"
    using order_but_stop [OF order_but_down_weaken [OF ord] sw n stop] .
  moreover have "i < n \<Longrightarrow> 0 < i \<Longrightarrow> \<not> lt (xs ! i) (xs ! parent i)"
    using ord parent_less [of i] unfolding order_but_down_def by auto
  ultimately show ?thesis unfolding heap_order_def order_but_up_def by blast
qed

lemma order_but_swap:
  assumes ord: "order_but lt xs n i" and sw: "strict_weak_on (set xs) lt"
    and n: "n \<le> length xs" and l: "2 * i + 1 < n"
    and c_def: "c = small_child lt xs n i"
    and lt: "lt (xs ! c) (xs ! i)"
  shows "order_but_down lt (list_swap xs i c) n c"
proof -
  have c: "c < n" "i < c" "parent c = i" using l small_child_bound unfolding c_def by auto
  have sib: "\<not> lt (xs ! k) (xs ! c)" if "k < n" "0 < k" "parent k = i" for k
    unfolding c_def using small_child_least [OF sw n that] .
  have bk: "\<not> lt (xs ! i) (xs ! c)" using nth_asym [OF sw _ _ lt] c n by simp
  have "\<not> lt (list_swap xs i c ! k) (list_swap xs i c ! parent k)"
    if k: "k < n" "0 < k" "parent k \<noteq> c" for k
    using that c n l ord sib [OF k(1,2)] bk parent_le [of k] parent_eq_self [of k]
    by (auto simp: nth_list_swap order_but_def)
  moreover have "\<not> lt (list_swap xs i c ! k) (list_swap xs i c ! parent c)"
    if k: "k < n" "0 < k" "parent k = c" for k
    using that c n ord parent_less [of k] by (auto simp: nth_list_swap order_but_def)
  ultimately show ?thesis by (auto simp: order_but_down_def)
qed

lemma order_but_up_swap:
  assumes ord: "order_but_up lt xs n j" and sw: "strict_weak_on (set xs) lt"
    and n: "n \<le> length xs" and j: "0 < j" "j < n"
    and lt: "lt (xs ! j) (xs ! parent j)"
  shows "order_but_up lt (list_swap xs (parent j) j) n (parent j)"
proof -
  let ?i = "parent j" and ?ys = "list_swap xs (parent j) j"
  have i: "?i < j" using j by (simp add: parent_less)
  have bk: "\<not> lt (xs ! ?i) (xs ! j)" using strict_weak_asym [OF sw _ _ lt] i j n by simp
  have ups: "\<not> lt (xs ! k) (xs ! j)" if "k < n" "\<not> lt (xs ! k) (xs ! ?i)" for k
    using strict_weak_neg_trans [OF sw, of "xs ! k" "xs ! ?i" "xs ! j"] that bk i j n by simp
  have "\<not> lt (?ys ! k) (?ys ! parent k)" if k: "k < n" "0 < k" "k \<noteq> ?i" for k
    using that i j n ord bk ups [of k] parent_less [of k]
    by (auto simp: nth_list_swap order_but_up_def)
  moreover have "\<not> lt (?ys ! k) (?ys ! parent ?i)"
    if k: "k < n" "0 < k" "parent k = ?i" and pos: "0 < ?i" for k
  proof -
    have gp: "\<not> lt (xs ! ?i) (xs ! parent ?i)"
      using ord pos i j by (auto simp: order_but_up_def)
    have "parent ?i < ?i" using pos by (simp add: parent_less)
    moreover have "\<not> lt (xs ! k) (xs ! parent ?i)" if "k \<noteq> j"
      using strict_weak_neg_trans [OF sw, of "xs ! k" "xs ! ?i" "xs ! parent ?i"]
        ord k that gp i j n calculation by (auto simp: order_but_up_def)
    ultimately show ?thesis using k i j n gp by (auto simp: nth_list_swap)
  qed
  ultimately show ?thesis by (auto simp: order_but_up_def)
qed

subsection \<open>What an implementation of the interface promises\<close>

locale heap_interface =
  fixes lessf :: "'s less_op"
    and swapf :: "'s swap_op"
    and elems :: "'s \<Rightarrow> 'a list"
    and invar :: "'s \<Rightarrow> bool"
    and lt :: "'a \<Rightarrow> 'a \<Rightarrow> bool"
  assumes less_elems:
    "invar s \<Longrightarrow> i < length (elems s) \<Longrightarrow> j < length (elems s) \<Longrightarrow>
       lessf s i j = Some (lt (elems s ! i) (elems s ! j))"
    and swap_elems:
    "invar s \<Longrightarrow> i < length (elems s) \<Longrightarrow> j < length (elems s) \<Longrightarrow>
       \<exists>s'. swapf s i j = Some s' \<and> invar s' \<and> elems s' = list_swap (elems s) i j"
begin

text \<open>One turn of the loop of \<^verbatim>\<open>heap.up\<close>, and of that of \<^verbatim>\<open>heap.down\<close>.\<close>

lemma up_step:
  assumes "invar s" "j < length (elems s)"
  shows "j = 0 \<or> \<not> lt (elems s ! j) (elems s ! parent j) \<Longrightarrow> heap_up lessf swapf s j = Some s"
    and "0 < j \<Longrightarrow> lt (elems s ! j) (elems s ! parent j) \<Longrightarrow>
         \<exists>s'. invar s' \<and> elems s' = list_swap (elems s) (parent j) j \<and>
              heap_up lessf swapf s j = heap_up lessf swapf s' (parent j)"
proof -
  have le: "parent j < length (elems s)" using assms(2) parent_le [of j] by simp
  note l = less_elems [OF assms le]
  show "j = 0 \<or> \<not> lt (elems s ! j) (elems s ! parent j) \<Longrightarrow> heap_up lessf swapf s j = Some s"
    using l by (subst heap_up.simps) (auto simp: Let_def parent_eq_self)
  assume "0 < j" "lt (elems s ! j) (elems s ! parent j)"
  moreover obtain s' where "swapf s (parent j) j = Some s'" "invar s'"
    "elems s' = list_swap (elems s) (parent j) j"
    using swap_elems [OF assms(1) le assms(2)] by blast
  ultimately show "\<exists>s'. invar s' \<and> elems s' = list_swap (elems s) (parent j) j \<and>
              heap_up lessf swapf s j = heap_up lessf swapf s' (parent j)"
    using l by (subst heap_up.simps) (auto simp: Let_def parent_eq_self)
qed

lemma up_total:
  "invar s \<Longrightarrow> j < length (elems s) \<Longrightarrow>
   \<exists>s'. heap_up lessf swapf s j = Some s' \<and> invar s' \<and> mset (elems s') = mset (elems s)"
proof (induction j arbitrary: s rule: less_induct)
  case (less j)
  show ?case
  proof (cases "j = 0 \<or> \<not> lt (elems s ! j) (elems s ! parent j)")
    case True
    then show ?thesis using up_step(1) [OF less.prems] less.prems by blast
  next
    case False
    then have i: "parent j < j" by (simp add: parent_less)
    from False obtain t where t: "invar t" "elems t = list_swap (elems s) (parent j) j"
      "heap_up lessf swapf s j = heap_up lessf swapf t (parent j)"
      using up_step(2) [OF less.prems] by auto
    then show ?thesis using less.IH [OF i t(1)] i less.prems by auto
  qed
qed

lemma down_loop_step:
  fixes i :: nat
  assumes "invar s" "n \<le> length (elems s)"
  defines "c \<equiv> small_child lt (elems s) n i"
  shows "\<not> 2 * i + 1 < n \<Longrightarrow> heap_down_loop lessf swapf s i n = Some (s, i)"
    and "2 * i + 1 < n \<Longrightarrow> \<not> lt (elems s ! c) (elems s ! i) \<Longrightarrow>
         heap_down_loop lessf swapf s i n = Some (s, i)"
    and "2 * i + 1 < n \<Longrightarrow> lt (elems s ! c) (elems s ! i) \<Longrightarrow>
         \<exists>s'. invar s' \<and> elems s' = list_swap (elems s) i c \<and>
              heap_down_loop lessf swapf s i n = heap_down_loop lessf swapf s' c n"
proof -
  show "\<not> 2 * i + 1 < n \<Longrightarrow> heap_down_loop lessf swapf s i n = Some (s, i)"
    by (subst heap_down_loop.simps) (simp add: Let_def)
next
  assume n: "2 * i + 1 < n"
  let ?r = "2 * i + 1 + 1 < n \<and> lt (elems s ! (2 * i + 1 + 1)) (elems s ! (2 * i + 1))"
  have r: "(if 2 * i + 1 + 1 < n then lessf s (2 * i + 1 + 1) (2 * i + 1) else Some False) = Some ?r"
    using assms(1,2) n by (auto simp: less_elems)
  have j: "(if ?r then 2 * i + 1 + 1 else 2 * i + 1) = c"
    by (simp add: c_def small_child_def)
  have less_ci: "lessf s c i = Some (lt (elems s ! c) (elems s ! i))"
    using assms(1,2) n by (intro less_elems) (auto simp: c_def small_child_def)
  have unfold: "heap_down_loop lessf swapf s i n =
    (if \<not> lt (elems s ! c) (elems s ! i) then Some (s, i)
     else case swapf s i c of None \<Rightarrow> None | Some s' \<Rightarrow> heap_down_loop lessf swapf s' c n)"
    using n by (subst heap_down_loop.simps) (simp only: Let_def r option.case j less_ci, simp)
  show "\<not> lt (elems s ! c) (elems s ! i) \<Longrightarrow> heap_down_loop lessf swapf s i n = Some (s, i)"
    using unfold by simp
  assume l: "lt (elems s ! c) (elems s ! i)"
  have "c < length (elems s)" "i < length (elems s)"
    using assms(2) n by (auto simp: c_def small_child_def)
  with assms(1) obtain s' where "swapf s i c = Some s'" "invar s'"
    "elems s' = list_swap (elems s) i c"
    using swap_elems by blast
  then show "\<exists>s'. invar s' \<and> elems s' = list_swap (elems s) i c \<and>
              heap_down_loop lessf swapf s i n = heap_down_loop lessf swapf s' c n"
    using unfold l by auto
qed

lemma down_loop_total:
  "invar s \<Longrightarrow> n \<le> length (elems s) \<Longrightarrow>
   \<exists>s' i'. heap_down_loop lessf swapf s i n = Some (s', i') \<and> invar s' \<and> i \<le> i' \<and>
           mset (elems s') = mset (elems s) \<and> (i' = i \<longrightarrow> s' = s) \<and>
           (\<forall>k. n \<le> k \<longrightarrow> k < length (elems s) \<longrightarrow> elems s' ! k = elems s ! k)"
proof (induction "n - i" arbitrary: s i rule: less_induct)
  case less
  let ?c = "small_child lt (elems s) n i"
  show ?case
  proof (cases "2 * i + 1 < n \<and> lt (elems s ! ?c) (elems s ! i)")
    case False
    then show ?thesis using down_loop_step(1,2) [OF less.prems, of i] less.prems by auto
  next
    case True
    then obtain s' where s': "invar s'" "elems s' = list_swap (elems s) i ?c"
      and eq: "heap_down_loop lessf swapf s i n = heap_down_loop lessf swapf s' ?c n"
      using down_loop_step(3) [OF less.prems, of i] by auto
    have c: "n - ?c < n - i" "i < ?c" "?c < n"
      using True small_child_bound [of i n lt "elems s"] by (auto intro: diff_less_mono2)
    have "n \<le> length (elems s')" using s' less.prems by simp
    from less.hyps [OF c(1) s'(1) this] obtain t i' where t:
      "heap_down_loop lessf swapf s' ?c n = Some (t, i')" "invar t" "?c \<le> i'"
      "mset (elems t) = mset (elems s')"
      "\<forall>k. n \<le> k \<longrightarrow> k < length (elems s') \<longrightarrow> elems t ! k = elems s' ! k" by blast
    have "mset (elems s') = mset (elems s)" using s' c less.prems by simp
    moreover have "\<forall>k. n \<le> k \<longrightarrow> k < length (elems s) \<longrightarrow> elems t ! k = elems s ! k"
      using t(5) s'(2) c less.prems by (auto simp: nth_list_swap)
    moreover have "i < i'" using t(3) c(2) by linarith
    ultimately show ?thesis using t eq by auto
  qed
qed

lemma sift_total:
  assumes "invar s" "n \<le> length (elems s)" "i < length (elems s)"
  shows "\<exists>s'. heap_sift lessf swapf s i n = Some s' \<and> invar s' \<and> mset (elems s') = mset (elems s)"
proof -
  from down_loop_total [OF assms(1,2), of i] obtain s' i' where
    d: "heap_down_loop lessf swapf s i n = Some (s', i')" "invar s'" "i \<le> i'"
       "mset (elems s') = mset (elems s)" by blast
  have len: "length (elems s') = length (elems s)" using d(4) by (metis size_mset)
  show ?thesis
    using d up_total [OF d(2), of i] len assms(3)
    by (auto simp: heap_sift_def heap_down_def)
qed

text \<open>Restoring the heap order.\<close>

lemma up_heap_order:
  "invar s \<Longrightarrow> j < n \<Longrightarrow> n \<le> length (elems s) \<Longrightarrow> strict_weak_on (set (elems s)) lt \<Longrightarrow>
   order_but_up lt (elems s) n j \<Longrightarrow> heap_up lessf swapf s j = Some s' \<Longrightarrow>
   heap_order lt (elems s') n"
proof (induction j arbitrary: s rule: less_induct)
  case (less j)
  have j: "j < length (elems s)" using less.prems by simp
  show ?case
  proof (cases "j = 0 \<or> \<not> lt (elems s ! j) (elems s ! parent j)")
    case True
    then have "s' = s" using up_step(1) [OF less.prems(1) j] less.prems(6) by simp
    then show ?thesis
      using True less.prems(5) by (auto simp: heap_order_def order_but_up_def)
  next
    case False
    then have i: "parent j < j" "0 < j" by (auto simp: parent_less)
    from False obtain t where t: "invar t" "elems t = list_swap (elems s) (parent j) j"
      "heap_up lessf swapf s j = heap_up lessf swapf t (parent j)"
      using up_step(2) [OF less.prems(1) j] by auto
    have "order_but_up lt (elems t) n (parent j)"
      unfolding t(2) using less.prems i False by (intro order_but_up_swap) auto
    moreover have "set (elems t) = set (elems s)" using t i j by simp
    ultimately show ?thesis using less.IH [OF i(1) t(1)] i less.prems t by simp
  qed
qed

lemma down_heap_order:
  "invar s \<Longrightarrow> n \<le> length (elems s) \<Longrightarrow> strict_weak_on (set (elems s)) lt \<Longrightarrow>
   order_but_down lt (elems s) n i \<Longrightarrow> heap_down_loop lessf swapf s i n = Some (s', i') \<Longrightarrow>
   i < length (elems s) \<Longrightarrow> heap_order lt (elems s') n"
proof (induction "n - i" arbitrary: s i rule: less_induct)
  case less
  let ?c = "small_child lt (elems s) n i"
  show ?case
  proof (cases "2 * i + 1 < n \<and> lt (elems s ! ?c) (elems s ! i)")
    case False
    then have "s' = s"
      using down_loop_step(1,2) [OF less.prems(1,2), of i] less.prems(5) by auto
    then show ?thesis
      using order_but_down_stop [OF less.prems(4,3,2)] False less.prems(6) by blast
  next
    case True
    have c: "n - ?c < n - i" "i < ?c" "?c < n"
      using True small_child_bound [of i n lt "elems s"] by (auto intro: diff_less_mono2)
    from True obtain t where t: "invar t" "elems t = list_swap (elems s) i ?c"
      and eq: "heap_down_loop lessf swapf s i n = heap_down_loop lessf swapf t ?c n"
      using down_loop_step(3) [OF less.prems(1,2), of i] by auto
    have "order_but_down lt (elems t) n ?c"
      unfolding t(2) using True less.prems
      by (intro order_but_swap order_but_down_weaken) auto
    moreover have "set (elems t) = set (elems s)" using t c less.prems by simp
    ultimately show ?thesis using less.hyps [OF c(1) t(1)] t eq c less.prems by simp
  qed
qed

text \<open>After the element at \<open>i\<close> was replaced, sifting it down and, where it did not move, up
  restores the order.\<close>

lemma sift_heap_order:
  assumes s: "invar s" "i < n" "n \<le> length (elems s)" "strict_weak_on (set (elems s)) lt"
    and ord: "order_but lt (elems s) n i"
    and res: "heap_sift lessf swapf s i n = Some s'"
  shows "heap_order lt (elems s') n"
proof -
  let ?c = "small_child lt (elems s) n i"
  show ?thesis
  proof (cases "2 * i + 1 < n \<and> lt (elems s ! ?c) (elems s ! i)")
    case False
    then have "heap_down_loop lessf swapf s i n = Some (s, i)"
      using down_loop_step(1,2) [OF s(1,3), of i] by auto
    then have "heap_up lessf swapf s i = Some s'" using res by (simp add: heap_sift_def heap_down_def)
    moreover have "order_but_up lt (elems s) n i"
      using order_but_stop [OF ord s(4,3)] False s by auto
    ultimately show ?thesis using up_heap_order [OF s(1,2,3,4)] by blast
  next
    case True
    then obtain t where t: "invar t" "elems t = list_swap (elems s) i ?c"
      and eq: "heap_down_loop lessf swapf s i n = heap_down_loop lessf swapf t ?c n"
      using down_loop_step(3) [OF s(1,3), of i] by auto
    have ord': "order_but_down lt (elems t) n ?c"
      unfolding t(2) using True s ord by (intro order_but_swap) auto
    have c: "i < ?c" "?c < n" using True small_child_bound [of i n lt "elems s"] by (auto intro: diff_less_mono2)
    then have set: "set (elems t) = set (elems s)" using t s by simp
    from down_loop_total [OF t(1), of n ?c] t s obtain u i' where
      u: "heap_down_loop lessf swapf t ?c n = Some (u, i')" "?c \<le> i'" by auto
    have "s' = u" using u eq res c by (auto simp: heap_sift_def heap_down_def)
    then show ?thesis using down_heap_order [OF t(1) _ _ ord' u(1)] set t s c by simp
  qed
qed

end

subsection \<open>Containers: an interface with its Push and Pop methods\<close>

lemma heap_order_cong:
  "(\<And>k. k < n \<Longrightarrow> xs ! k = ys ! k) \<Longrightarrow> heap_order lt xs n = heap_order lt ys n"
  unfolding heap_order_def by (metis parent_le order.strict_trans1)

lemma heap_order_butlast:
  "heap_order lt (butlast xs) (length xs - 1) = heap_order lt xs (length xs - 1)"
  by (rule heap_order_cong) (simp add: nth_butlast)

lemma heap_order_snoc: "heap_order lt xs (length xs) \<Longrightarrow> order_but_up lt (xs @ [x]) (Suc (length xs)) (length xs)"
  unfolding heap_order_def order_but_up_def
  by (auto simp: nth_append less_Suc_eq parent_eq_self dest: parent_less intro: order.strict_trans)

text \<open>Replacing the element at \<open>i\<close> of a heap breaks the order at \<open>i\<close> only.\<close>

lemma heap_order_upd:
  assumes "heap_order lt xs n" "strict_weak_on (set xs) lt" "n \<le> length xs" "i < n" "m \<le> n"
  shows "order_but lt (xs[i := x]) m i"
proof -
  have "\<not> lt (xs ! k) (xs ! parent i)" if "k < m" "0 < k" "parent k = i" "0 < i" for k
  proof (rule nth_neg_trans [OF assms(2)])
    show "\<not> lt (xs ! k) (xs ! i)" "\<not> lt (xs ! i) (xs ! parent i)"
      using assms that by (auto simp: heap_order_def)
    show "k < length xs" "i < length xs" "parent i < length xs"
      using assms that parent_less [of i] by auto
  qed
  then show ?thesis
    using assms parent_less unfolding order_but_def heap_order_def
    by (auto simp: nth_list_update self_eq_parent parent_eq_self)
qed

lemma order_but_cong:
  assumes eq: "\<And>k. k < n \<Longrightarrow> xs ! k = ys ! k" and i: "i < n"
  shows "order_but lt xs n i = order_but lt ys n i"
proof -
  have "k < n \<Longrightarrow> xs ! parent k = ys ! parent k" for k
    using eq parent_le [of k] by simp
  then show ?thesis using eq i unfolding order_but_def by auto
qed

context heap_interface
begin

lemma up_keeps:
  "invar s \<Longrightarrow> j < length (elems s) \<Longrightarrow> heap_up lessf swapf s j = Some s' \<Longrightarrow> j < k \<Longrightarrow>
   k < length (elems s) \<Longrightarrow> elems s' ! k = elems s ! k"
proof (induction j arbitrary: s rule: less_induct)
  case (less j)
  show ?case
  proof (cases "j = 0 \<or> \<not> lt (elems s ! j) (elems s ! parent j)")
    case True
    then show ?thesis using up_step(1) [OF less.prems(1,2)] less.prems(3) by simp
  next
    case False
    then have i: "parent j < j" by (simp add: parent_less)
    from False obtain t where t: "invar t" "elems t = list_swap (elems s) (parent j) j"
      "heap_up lessf swapf s j = heap_up lessf swapf t (parent j)"
      using up_step(2) [OF less.prems(1,2)] by auto
    then show ?thesis
      using less.IH [OF i t(1)] i less.prems by (simp add: nth_list_swap)
  qed
qed

lemma sift_keeps_last:
  assumes "invar s" "i < n" "n < length (elems s)" "heap_sift lessf swapf s i n = Some s'"
  shows "elems s' ! n = elems s ! n"
proof -
  obtain t i' where t: "heap_down_loop lessf swapf s i n = Some (t, i')" "invar t"
    "i' = i \<longrightarrow> t = s" "i \<le> i'" "elems t ! n = elems s ! n"
    using down_loop_total [OF assms(1), of n i] assms(3) by fastforce
  then show ?thesis
    using assms up_keeps [of s i s' n]
    by (auto simp: heap_sift_def heap_down_def split: if_splits)
qed

end

locale heap_container = heap_interface +
  fixes len :: "'s \<Rightarrow> nat"
    and push :: "('s, 'a) push_op"
    and pop :: "('s, 'o) pop_op"
    and fresh :: "'s \<Rightarrow> 'a \<Rightarrow> bool"
    and out :: "'a \<Rightarrow> 'o"
  assumes len_elems: "len s = length (elems s)"
    and push_elems:
      "invar s \<Longrightarrow> fresh s x \<Longrightarrow> invar (push s x) \<and> elems (push s x) = elems s @ [x]"
    and pop_elems:
      "invar s \<Longrightarrow> elems s \<noteq> [] \<Longrightarrow>
       \<exists>s'. pop s = Some (s', Some (out (last (elems s)))) \<and> invar s' \<and> elems s' = butlast (elems s)"
begin

lemma Push_spec:
  assumes "invar s" "fresh s x"
  shows "\<exists>s'. heap_Push lessf swapf len push s x = Some s' \<and> invar s' \<and>
              mset (elems s') = add_mset x (mset (elems s)) \<and>
              (strict_weak_on (insert x (set (elems s))) lt \<longrightarrow>
               heap_order lt (elems s) (length (elems s)) \<longrightarrow>
               heap_order lt (elems s') (length (elems s')))"
proof -
  let ?t = "push s x" and ?n = "length (elems s)"
  have t: "invar ?t" "elems ?t = elems s @ [x]" using push_elems [OF assms] by auto
  then obtain s' where s': "heap_up lessf swapf ?t ?n = Some s'" "invar s'"
    "mset (elems s') = mset (elems ?t)" using up_total [of ?t ?n] by auto
  have len: "length (elems s') = Suc ?n"
    using s'(3) t(2) by (metis length_append_singleton size_mset)
  have "heap_order lt (elems s') (Suc ?n)"
    if "strict_weak_on (insert x (set (elems s))) lt" "heap_order lt (elems s) ?n"
    using up_heap_order [OF t(1) _ _ _ _ s'(1)] t that by (simp add: heap_order_snoc)
  then show ?thesis using s' t len by (simp add: heap_Push_def len_elems Let_def)
qed

lemma Fix_spec:
  assumes "invar s" "i < length (elems s)"
  shows "\<exists>s'. heap_Fix lessf swapf len s i = Some s' \<and> invar s' \<and>
              mset (elems s') = mset (elems s) \<and>
              (strict_weak_on (set (elems s)) lt \<longrightarrow>
               order_but lt (elems s) (length (elems s)) i \<longrightarrow>
               heap_order lt (elems s') (length (elems s')))"
proof -
  obtain s' where s': "heap_sift lessf swapf s i (length (elems s)) = Some s'" "invar s'"
    "mset (elems s') = mset (elems s)" using sift_total [OF assms(1) _ assms(2)] by blast
  then have "length (elems s') = length (elems s)" by (metis size_mset)
  then show ?thesis
    using s' sift_heap_order [OF assms _ _ _ s'(1)] by (simp add: heap_Fix_def len_elems)
qed

lemma pop_last:
  assumes "invar s" "elems s \<noteq> []"
  obtains s' where "pop s = Some (s', Some (out (last (elems s))))" "invar s'"
    "elems s' = butlast (elems s)" "length (elems s') = length (elems s) - 1"
    "heap_order lt (elems s') (length (elems s')) =
     heap_order lt (elems s) (length (elems s) - 1)"
  using pop_elems [OF assms] heap_order_butlast by fastforce

text \<open>Removing the element at \<open>i\<close>; \<^verbatim>\<open>heap.Pop\<close> is the removal of the root.\<close>

lemma swap_to_last:
  assumes s: "invar s" and i: "i < length (elems s)"
  obtains s1 where "swapf s i (length (elems s) - 1) = Some s1" "invar s1"
    "elems s1 = list_swap (elems s) i (length (elems s) - 1)"
    "mset (elems s1) = mset (elems s)" "set (elems s1) = set (elems s)"
    "elems s1 ! (length (elems s) - 1) = elems s ! i"
    "strict_weak_on (set (elems s)) lt \<Longrightarrow> heap_order lt (elems s) (length (elems s)) \<Longrightarrow>
     i < length (elems s) - 1 \<Longrightarrow> order_but lt (elems s1) (length (elems s) - 1) i"
proof -
  let ?n = "length (elems s) - 1"
  have n: "?n < length (elems s)" using i by simp
  obtain s1 where s1: "swapf s i ?n = Some s1" "invar s1" "elems s1 = list_swap (elems s) i ?n"
    using swap_elems [OF s i n] by blast
  have "order_but lt (elems s1) ?n i"
    if "strict_weak_on (set (elems s)) lt" "heap_order lt (elems s) (length (elems s))" "i < ?n"
  proof -
    have "order_but lt ((elems s)[i := elems s ! ?n]) ?n i"
      using heap_order_upd [OF that(2,1) _ i, of ?n "elems s ! ?n"] by simp
    then show ?thesis
      using s1(3) i that(3) by (subst order_but_cong [where ys = "(elems s)[i := elems s ! ?n]"])
        (auto simp: nth_list_swap nth_list_update)
  qed
  then show ?thesis using that [OF s1] s1(3) i n by (simp add: nth_list_swap)
qed

lemma last_after:
  assumes "mset (elems t) = mset (elems s)" "length (elems s) = Suc n" "elems t ! n = x"
  shows "elems t \<noteq> []" "last (elems t) = x" "length (elems t) = Suc n"
    "mset (butlast (elems t)) = mset (elems s) - {#x#}"
proof -
  show l: "length (elems t) = Suc n" using assms(1,2) by (metis size_mset)
  then show ne: "elems t \<noteq> []" by auto
  then show x: "last (elems t) = x" using l assms(3) by (simp add: last_conv_nth)
  have "mset (elems t) = add_mset x (mset (butlast (elems t)))"
    using ne x by (metis append_butlast_last_id mset.simps(1,2) mset_append
        union_mset_add_mset_right add.right_neutral)
  then show "mset (butlast (elems t)) = mset (elems s) - {#x#}"
    using assms(1) by (metis add_mset_remove_trivial)
qed

lemma Remove_spec:
  assumes s: "invar s" and i: "i < length (elems s)"
  shows "\<exists>s'. heap_Remove lessf swapf len pop s i = Some (s', Some (out (elems s ! i))) \<and> invar s' \<and>
              mset (elems s') = mset (elems s) - {#elems s ! i#} \<and>
              (strict_weak_on (set (elems s)) lt \<longrightarrow>
               heap_order lt (elems s) (length (elems s)) \<longrightarrow>
               heap_order lt (elems s') (length (elems s')))"
proof -
  let ?n = "length (elems s) - 1"
  have n: "length (elems s) = Suc ?n" using i by simp
  show ?thesis
  proof (cases "?n = i")
    case True
    then have *: "elems s ! ?n = elems s ! i" by simp
    note la = last_after [OF refl n *]
    from pop_last [OF s la(1)] obtain s' where s':
      "pop s = Some (s', Some (out (last (elems s))))" "invar s'" "elems s' = butlast (elems s)"
      "heap_order lt (elems s') (length (elems s')) = heap_order lt (elems s) ?n" by blast
    then show ?thesis
      using la n True by (auto simp: heap_Remove_def len_elems heap_order_def)
  next
    case False
    obtain s1 where s1: "swapf s i ?n = Some s1" "invar s1"
      "elems s1 = list_swap (elems s) i ?n" "mset (elems s1) = mset (elems s)"
      "set (elems s1) = set (elems s)" "elems s1 ! ?n = elems s ! i"
      and ord: "strict_weak_on (set (elems s)) lt \<Longrightarrow> heap_order lt (elems s) (length (elems s)) \<Longrightarrow>
         i < ?n \<Longrightarrow> order_but lt (elems s1) ?n i"
      using swap_to_last [OF s i] by blast
    have l1: "i < ?n" "?n \<le> length (elems s1)" "i < length (elems s1)"
      using s1(3) i False by auto
    obtain s2 where s2: "heap_sift lessf swapf s1 i ?n = Some s2" "invar s2"
      "mset (elems s2) = mset (elems s1)" "elems s2 ! ?n = elems s1 ! ?n"
      using sift_total [OF s1(2) l1(2,3)] sift_keeps_last [OF s1(2) l1(1)] l1 s1(3) i by fastforce
    have m2: "mset (elems s2) = mset (elems s)" using s2 s1 by simp
    note la = last_after [OF m2 n]
    have x: "elems s2 ! ?n = elems s ! i" using s2 s1 by simp
    from pop_last [OF s2(2) la(1) [OF x]] obtain s' where s':
      "pop s2 = Some (s', Some (out (last (elems s2))))" "invar s'" "elems s' = butlast (elems s2)"
      "heap_order lt (elems s') (length (elems s')) =
       heap_order lt (elems s2) (length (elems s2) - 1)" by blast
    have "heap_order lt (elems s2) ?n"
      if "strict_weak_on (set (elems s)) lt" "heap_order lt (elems s) (length (elems s))"
      using sift_heap_order [OF s1(2) l1(1,2) _ ord s2(1)] that l1 s1(5) by simp
    then show ?thesis
      using s' la [OF x] s1 s2 n False by (auto simp: heap_Remove_def len_elems Let_def)
  qed
qed

lemma Pop_spec:
  assumes s: "invar s" and ne: "elems s \<noteq> []"
  shows "\<exists>s'. heap_Pop lessf swapf len pop s = Some (s', Some (out (elems s ! 0))) \<and> invar s' \<and>
              mset (elems s') = mset (elems s) - {#elems s ! 0#} \<and>
              (strict_weak_on (set (elems s)) lt \<longrightarrow>
               heap_order lt (elems s) (length (elems s)) \<longrightarrow>
               heap_order lt (elems s') (length (elems s')))"
proof -
  let ?n = "length (elems s) - 1"
  have i: "0 < length (elems s)" using ne by simp
  then have n: "length (elems s) = Suc ?n" by simp
  obtain s1 where s1: "swapf s 0 ?n = Some s1" "invar s1"
      "elems s1 = list_swap (elems s) 0 ?n" "mset (elems s1) = mset (elems s)"
      "set (elems s1) = set (elems s)" "elems s1 ! ?n = elems s ! 0"
      and ord: "strict_weak_on (set (elems s)) lt \<Longrightarrow> heap_order lt (elems s) (length (elems s)) \<Longrightarrow>
         0 < ?n \<Longrightarrow> order_but lt (elems s1) ?n 0"
      using swap_to_last [OF s i] by blast
  have l1: "?n \<le> length (elems s1)" "0 < length (elems s1)" using s1(3) i by auto
  obtain s2 k where s2: "heap_down_loop lessf swapf s1 0 ?n = Some (s2, k)" "invar s2"
      "mset (elems s2) = mset (elems s1)" "elems s2 ! ?n = elems s1 ! ?n"
    using down_loop_total [OF s1(2) l1(1), of 0] s1(3) i by fastforce
  have m2: "mset (elems s2) = mset (elems s)" using s2 s1 by simp
  have x: "elems s2 ! ?n = elems s ! 0" using s2 s1 by simp
  note la = last_after [OF m2 n x]
  from pop_last [OF s2(2) la(1)] obtain s' where s':
      "pop s2 = Some (s', Some (out (last (elems s2))))" "invar s'" "elems s' = butlast (elems s2)"
      "heap_order lt (elems s') (length (elems s')) =
       heap_order lt (elems s2) (length (elems s2) - 1)" by blast
  have "heap_order lt (elems s2) ?n"
      if "strict_weak_on (set (elems s)) lt" "heap_order lt (elems s) (length (elems s))"
  proof (cases "0 < ?n")
    case True
    then have "order_but_down lt (elems s1) ?n 0"
      using ord [OF that] by (auto simp: order_but_def order_but_down_def)
    then show ?thesis using down_heap_order [OF s1(2) l1(1) _ _ s2(1)] that s1(5) l1 by simp
  qed (simp add: heap_order_def)
  then show ?thesis
    using s' la s1 s2 n ne by (auto simp: heap_Pop_def heap_down_def len_elems Let_def)
qed

end

end
