(* ===== verification/Keyed_Heap.thy ===== *)
theory Keyed_Heap
  imports Container_Heap
begin

section \<open>The keyed heap of the scheduling queues (pkg/util/heap/heap.go)\<close>

text \<open>
  A heap of objects with string keys: \<^verbatim>\<open>data.items\<close> maps a key to its object and to the index of
  the key in \<^verbatim>\<open>data.queue\<close>, which holds the keys in heap order. The two function fields of the Go
  struct, \<^verbatim>\<open>keyFunc\<close> and \<^verbatim>\<open>lessFunc\<close>, are the arguments \<open>kf\<close> and \<open>lf\<close> of the operations that
  call them: stored objects are pointers, so both are evaluated in the memory of the call. The name
  and the metric recorder of the Go struct are left out: they feed logs and metrics only.

  An operation returns \<open>None\<close> where the Go code panics, and otherwise the new heap and the Go result,
  \<open>Inl\<close> being a non-nil error. The invariant \<open>data_wf\<close> is the one the comment on \<^verbatim>\<open>items\<close> states
  (the keys of the map and those of the queue are the same) with the indices; every operation keeps
  it, none panics under it except \<^verbatim>\<open>Pop\<close> of an empty heap, and the operations refine those of a finite map
  (locale \<open>sub_queue\<close>).
\<close>

datatype heap_error = KeyError string | ObjectNotFound | ObjectRemoved

record 'a heapItem =
  item_obj :: 'a
  item_index :: nat

record 'a data =
  data_items :: "key \<rightharpoonup> 'a heapItem"
  data_queue :: "key list"

type_synonym 'a keyFunc = "'a \<Rightarrow> string + key"
type_synonym 'a lessFunc = "'a \<Rightarrow> 'a \<Rightarrow> bool"
type_synonym ('a, 'r) heap_result = "('a data \<times> (heap_error + 'r)) option"

definition data_Less :: "'a lessFunc \<Rightarrow> 'a data less_op" where
  "data_Less lf h i j =
     (let q = data_queue h; n = length q in
      if i > n \<or> j > n then Some False
      else if i = n then None
      else case data_items h (q ! i) of
             None \<Rightarrow> Some False
           | Some itemi \<Rightarrow>
               if j = n then None
               else case data_items h (q ! j) of
                      None \<Rightarrow> Some False
                    | Some itemj \<Rightarrow> Some (lf (item_obj itemi) (item_obj itemj)))"

definition data_Len :: "'a data \<Rightarrow> nat" where
  "data_Len h = length (data_queue h)"

text \<open>The assignment \<^verbatim>\<open>item.index = i\<close> through the pointer found at a key; a missing key is a nil
  dereference.\<close>

definition set_index :: "(key \<rightharpoonup> 'a heapItem) \<Rightarrow> key \<Rightarrow> nat \<Rightarrow> (key \<rightharpoonup> 'a heapItem) option" where
  "set_index m k i =
     (case m k of None \<Rightarrow> None | Some it \<Rightarrow> Some (m(k \<mapsto> it\<lparr>item_index := i\<rparr>)))"

definition data_Swap :: "'a data swap_op" where
  "data_Swap h i j =
     (if i < length (data_queue h) \<and> j < length (data_queue h) then
        let q = list_swap (data_queue h) i j in
        case set_index (data_items h) (q ! i) i of
          None \<Rightarrow> None
        | Some m \<Rightarrow>
            (case set_index m (q ! j) j of
               None \<Rightarrow> None
             | Some m' \<Rightarrow> Some \<lparr>data_items = m', data_queue = q\<rparr>)
      else None)"

definition data_Push :: "('a data, key \<times> 'a) push_op" where
  "data_Push h kv =
     h\<lparr>data_items := (data_items h)(fst kv \<mapsto> \<lparr>item_obj = snd kv, item_index = length (data_queue h)\<rparr>),
       data_queue := data_queue h @ [fst kv]\<rparr>"

definition data_Pop :: "('a data, 'a) pop_op" where
  "data_Pop h =
     (if data_queue h = [] then None
      else let k = last (data_queue h); h' = h\<lparr>data_queue := butlast (data_queue h)\<rparr> in
        case data_items h k of
          None \<Rightarrow> Some (h', None)
        | Some it \<Rightarrow> Some (h'\<lparr>data_items := (data_items h)(k := None)\<rparr>, Some (item_obj it)))"

definition data_Peek :: "'a data \<Rightarrow> 'a option option" where
  "data_Peek h =
     (case data_queue h of
        [] \<Rightarrow> Some None
      | k # _ \<Rightarrow>
          (case data_items h k of None \<Rightarrow> None | Some it \<Rightarrow> Some (Some (item_obj it))))"

subsection \<open>The operations of Heap\<close>

definition New :: "'a data" where
  "New = \<lparr>data_items = Map.empty, data_queue = []\<rparr>"

text \<open>Where \<^verbatim>\<open>container/heap\<close> returns a heap, the operation succeeds with it.\<close>

definition succeed :: "'a data option \<Rightarrow> ('a, unit) heap_result" where
  "succeed r = (case r of None \<Rightarrow> None | Some h \<Rightarrow> Some (h, Inr ()))"

definition Heap_Add :: "'a keyFunc \<Rightarrow> 'a lessFunc \<Rightarrow> 'a data \<Rightarrow> 'a \<Rightarrow> ('a, unit) heap_result" where
  "Heap_Add kf lf h x =
     (case kf x of
        Inl e \<Rightarrow> Some (h, Inl (KeyError e))
      | Inr k \<Rightarrow>
          (case data_items h k of
             Some it \<Rightarrow>
               succeed (heap_Fix (data_Less lf) data_Swap data_Len
                 (h\<lparr>data_items := (data_items h)(k \<mapsto> it\<lparr>item_obj := x\<rparr>)\<rparr>) (item_index it))
           | None \<Rightarrow> succeed (heap_Push (data_Less lf) data_Swap data_Len data_Push h (k, x))))"

definition Heap_AddIfNotPresent ::
  "'a keyFunc \<Rightarrow> 'a lessFunc \<Rightarrow> 'a data \<Rightarrow> 'a \<Rightarrow> ('a, unit) heap_result" where
  "Heap_AddIfNotPresent kf lf h x =
     (case kf x of
        Inl e \<Rightarrow> Some (h, Inl (KeyError e))
      | Inr k \<Rightarrow>
          (case data_items h k of
             Some _ \<Rightarrow> Some (h, Inr ())
           | None \<Rightarrow> succeed (heap_Push (data_Less lf) data_Swap data_Len data_Push h (k, x))))"

definition Heap_DeleteByKey :: "'a lessFunc \<Rightarrow> 'a data \<Rightarrow> key \<Rightarrow> ('a, unit) heap_result" where
  "Heap_DeleteByKey lf h k =
     (case data_items h k of
        Some it \<Rightarrow>
          (case heap_Remove (data_Less lf) data_Swap data_Len data_Pop h (item_index it) of
             None \<Rightarrow> None
           | Some (h', _) \<Rightarrow> Some (h', Inr ()))
      | None \<Rightarrow> Some (h, Inl ObjectNotFound))"

definition Heap_Delete :: "'a keyFunc \<Rightarrow> 'a lessFunc \<Rightarrow> 'a data \<Rightarrow> 'a \<Rightarrow> ('a, unit) heap_result" where
  "Heap_Delete kf lf h x =
     (case kf x of
        Inl e \<Rightarrow> Some (h, Inl (KeyError e))
      | Inr k \<Rightarrow> Heap_DeleteByKey lf h k)"

text \<open>\<^verbatim>\<open>Update\<close> deletes the old object if it is not nil, ignoring the error, and adds the new one.\<close>

definition Heap_Update ::
  "'a keyFunc \<Rightarrow> 'a lessFunc \<Rightarrow> 'a data \<Rightarrow> 'a option \<Rightarrow> 'a \<Rightarrow> ('a, unit) heap_result" where
  "Heap_Update kf lf h oldObj newObj =
     (case oldObj of
        None \<Rightarrow> Heap_Add kf lf h newObj
      | Some x \<Rightarrow>
          (case Heap_Delete kf lf h x of
             None \<Rightarrow> None
           | Some (h', _) \<Rightarrow> Heap_Add kf lf h' newObj))"

definition Heap_Peek :: "'a data \<Rightarrow> 'a option option" where
  "Heap_Peek h = data_Peek h"

definition Heap_Pop :: "'a lessFunc \<Rightarrow> 'a data \<Rightarrow> ('a, 'a) heap_result" where
  "Heap_Pop lf h =
     (case heap_Pop (data_Less lf) data_Swap data_Len data_Pop h of
        None \<Rightarrow> None
      | Some (h', Some x) \<Rightarrow> Some (h', Inr x)
      | Some (h', None) \<Rightarrow> Some (h', Inl ObjectRemoved))"

definition Heap_GetByKey :: "'a data \<Rightarrow> key \<Rightarrow> 'a option" where
  "Heap_GetByKey h k =
     (case data_items h k of None \<Rightarrow> None | Some it \<Rightarrow> Some (item_obj it))"

definition Heap_Get :: "'a keyFunc \<Rightarrow> 'a data \<Rightarrow> 'a \<Rightarrow> heap_error + 'a option" where
  "Heap_Get kf h x =
     (case kf x of
        Inl e \<Rightarrow> Inl (KeyError e)
      | Inr k \<Rightarrow> Inr (Heap_GetByKey h k))"

text \<open>\<^verbatim>\<open>List\<close> ranges over the map; Go leaves the order of the keys open, so it is an argument.\<close>

definition Heap_List :: "'a data \<Rightarrow> key list \<Rightarrow> 'a list" where
  "Heap_List h order = List.map_filter (Heap_GetByKey h) order"

definition Heap_Len :: "'a data \<Rightarrow> nat" where
  "Heap_Len h = length (data_queue h)"

text \<open>\<^verbatim>\<open>Process\<close> calls its read-only argument once for every index, in parallel; the model gives
  the arguments of these calls.\<close>

definition Heap_Process :: "'a data \<Rightarrow> (nat \<times> key \<times> 'a option) list" where
  "Heap_Process h =
     map (\<lambda>i. (i, data_queue h ! i, Heap_GetByKey h (data_queue h ! i))) [0..<length (data_queue h)]"

subsection \<open>The invariant, and the heap as an implementation of the container interface\<close>

definition data_wf :: "'a data \<Rightarrow> bool" where
  "data_wf h \<longleftrightarrow>
     distinct (data_queue h) \<and> set (data_queue h) = dom (data_items h) \<and>
     (\<forall>i<length (data_queue h). map_option item_index (data_items h (data_queue h ! i)) = Some i)"

definition data_elems :: "'a data \<Rightarrow> (key \<times> 'a) list" where
  "data_elems h = map (\<lambda>k. (k, item_obj (the (data_items h k)))) (data_queue h)"

definition key_lt :: "'a lessFunc \<Rightarrow> key \<times> 'a \<Rightarrow> key \<times> 'a \<Rightarrow> bool" where
  "key_lt lf x y = lf (snd x) (snd y)"

lemma length_data_elems [simp]: "length (data_elems h) = length (data_queue h)"
  by (simp add: data_elems_def)

lemma data_wf_item:
  assumes "data_wf h" "i < length (data_queue h)"
  obtains it where "data_items h (data_queue h ! i) = Some it" "item_index it = i"
  using assms by (force simp: data_wf_def)

lemma data_wf_index:
  assumes "data_wf h" "data_items h k = Some it"
  shows "item_index it < length (data_queue h)" "data_queue h ! item_index it = k"
proof -
  have "k \<in> set (data_queue h)" using assms by (auto simp: data_wf_def)
  then obtain i where i: "i < length (data_queue h)" "data_queue h ! i = k"
    by (auto simp: in_set_conv_nth)
  with assms have "item_index it = i" by (auto elim!: data_wf_item [of h i])
  with i show "item_index it < length (data_queue h)" "data_queue h ! item_index it = k" by auto
qed

lemma data_Less_elems:
  assumes "data_wf h" "i < length (data_elems h)" "j < length (data_elems h)"
  shows "data_Less lf h i j = Some (key_lt lf (data_elems h ! i) (data_elems h ! j))"
proof -
  from assms obtain iti itj where
    "data_items h (data_queue h ! i) = Some iti" "data_items h (data_queue h ! j) = Some itj"
    by (metis data_wf_item length_data_elems)
  then show ?thesis
    using assms by (simp add: data_Less_def Let_def data_elems_def key_lt_def)
qed

lemma data_Swap_elems:
  assumes wf: "data_wf h" and "i < length (data_elems h)" "j < length (data_elems h)"
  shows "\<exists>h'. data_Swap h i j = Some h' \<and> data_wf h' \<and> data_elems h' = list_swap (data_elems h) i j"
proof -
  let ?q = "data_queue h" and ?m = "data_items h"
  have ij: "i < length ?q" "j < length ?q" using assms by simp_all
  obtain iti itj where it: "?m (?q ! i) = Some iti" "?m (?q ! j) = Some itj"
    using data_wf_item [OF wf] ij by metis
  define m where "m = ?m(?q ! j \<mapsto> itj\<lparr>item_index := i\<rparr>)"
  define m' where "m' = m(?q ! i \<mapsto> (the (m (?q ! i)))\<lparr>item_index := j\<rparr>)"
  define h' where "h' = \<lparr>data_items = m', data_queue = list_swap ?q i j\<rparr>"
  have q: "list_swap ?q i j ! i = ?q ! j" "list_swap ?q i j ! j = ?q ! i"
    using ij by (auto simp: nth_list_swap)
  have "data_Swap h i j = Some h'"
    using ij it q by (auto simp: data_Swap_def set_index_def m_def m'_def h'_def)
  moreover have dom: "dom m' = dom ?m" using it by (auto simp: m'_def m_def)
  have obj: "map_option item_obj (m' k) = map_option item_obj (?m k)" for k
    using it by (auto simp: m'_def m_def)
  have ix: "map_option item_index (m' (list_swap ?q i j ! k)) = Some k" if "k < length ?q" for k
    using that wf ij it unfolding data_wf_def
    by (auto simp: nth_list_swap m'_def m_def nth_eq_iff_index_eq)
  have "data_wf h'" using wf ij dom ix by (simp add: data_wf_def h'_def)
  moreover have "data_elems h' = list_swap (data_elems h) i j"
  proof -
    have "item_obj (the (m' k)) = item_obj (the (?m k))" if "k \<in> set ?q" for k
      using obj [of k] that wf dom by (auto simp: data_wf_def)
    then show ?thesis
      using ij by (simp add: data_elems_def h'_def map_list_swap [symmetric] cong: map_cong)
  qed
  ultimately show ?thesis by blast
qed

lemma data_Push_elems:
  assumes "data_wf h" "fst x \<notin> dom (data_items h)"
  shows "data_wf (data_Push h x) \<and> data_elems (data_Push h x) = data_elems h @ [x]"
  using assms
  by (cases x) (auto simp: data_Push_def data_wf_def data_elems_def nth_append less_Suc_eq)

lemma data_Pop_elems:
  assumes wf: "data_wf h" and ne: "data_elems h \<noteq> []"
  shows "\<exists>h'. data_Pop h = Some (h', Some (snd (last (data_elems h)))) \<and> data_wf h' \<and>
              data_elems h' = butlast (data_elems h)"
proof -
  let ?q = "data_queue h" and ?m = "data_items h" and ?k = "last (data_queue h)"
  have q: "?q \<noteq> []" using ne by (auto simp: data_elems_def)
  then obtain it where it: "?m ?k = Some it"
    using wf by (metis data_wf_def domD last_in_set)
  let ?h' = "h\<lparr>data_queue := butlast ?q, data_items := ?m(?k := None)\<rparr>"
  have notin: "?k \<notin> set (butlast ?q)"
    using wf q by (metis append_butlast_last_id data_wf_def distinct_append disjoint_iff list.set_intros(1))
  have "set (butlast ?q) = dom ?m - {?k}"
    using wf q notin by (metis Diff_insert_absorb append_butlast_last_id data_wf_def
        empty_set list.simps(15) set_append Un_insert_right sup_bot_right)
  moreover have "butlast ?q ! i \<noteq> ?k" if "i < length (butlast ?q)" for i
    using notin that by (metis nth_mem)
  ultimately have "data_wf ?h'"
    using wf by (auto simp: data_wf_def nth_butlast distinct_butlast)
  moreover have "data_elems ?h' = butlast (data_elems h)"
    using notin by (auto simp: data_elems_def map_butlast [symmetric] intro!: map_cong)
  moreover have "snd (last (data_elems h)) = item_obj it"
    using q it by (simp add: data_elems_def last_map)
  ultimately show ?thesis using q it by (simp add: data_Pop_def Let_def)
qed

interpretation kh: heap_container "data_Less lf" data_Swap data_elems data_wf "key_lt lf"
  data_Len data_Push data_Pop "\<lambda>h x. fst x \<notin> dom (data_items h)" snd
  for lf :: "'a lessFunc"
  by unfold_locales
    (simp_all add: data_Less_elems data_Swap_elems data_Push_elems data_Pop_elems data_Len_def
      data_elems_def [THEN arg_cong [where f = length]] del: split_paired_Ex)

subsection \<open>The heap as a finite map\<close>

definition heap_ok :: "'a lessFunc \<Rightarrow> 'a data \<Rightarrow> bool" where
  "heap_ok lf h \<longleftrightarrow> heap_order (key_lt lf) (data_elems h) (length (data_queue h))"

lemma distinct_data_elems: "data_wf h \<Longrightarrow> distinct (map fst (data_elems h))"
  by (simp add: data_wf_def data_elems_def o_def)

lemma GetByKey_map_of: "data_wf h \<Longrightarrow> Heap_GetByKey h = map_of (data_elems h)"
proof
  fix k assume wf: "data_wf h"
  show "Heap_GetByKey h k = map_of (data_elems h) k"
  proof (cases "data_items h k")
    case None
    then have "k \<notin> set (data_queue h)" using wf by (auto simp: data_wf_def)
    then have "map_of (data_elems h) k = None" by (auto simp: data_elems_def map_of_eq_None_iff)
    then show ?thesis using None by (simp add: Heap_GetByKey_def)
  next
    case (Some it)
    then have "k \<in> set (data_queue h)" using wf by (auto simp: data_wf_def)
    then have "(k, item_obj it) \<in> set (data_elems h)" using Some by (auto simp: data_elems_def)
    then show ?thesis
      using distinct_data_elems [OF wf] Some by (simp add: Heap_GetByKey_def)
  qed
qed

lemma GetByKey_dom: "dom (Heap_GetByKey h) = dom (data_items h)"
  by (auto simp: Heap_GetByKey_def split: option.splits)

lemma GetByKey_ran: "data_wf h \<Longrightarrow> ran (Heap_GetByKey h) = snd ` set (data_elems h)"
  by (simp add: GetByKey_map_of ran_distinct distinct_data_elems)

lemma Heap_Len_card: "data_wf h \<Longrightarrow> Heap_Len h = card (dom (Heap_GetByKey h))"
  by (metis GetByKey_dom Heap_Len_def data_wf_def distinct_card)

lemma Heap_Len_0: "data_wf h \<Longrightarrow> Heap_Len h = 0 \<longleftrightarrow> Heap_GetByKey h = Map.empty"
  by (metis GetByKey_dom Heap_Len_def data_wf_def dom_eq_empty_conv length_0_conv set_empty)

lemma GetByKey_elem:
  "data_wf h \<Longrightarrow> data_items h k = Some it \<Longrightarrow> data_elems h ! item_index it = (k, item_obj it)"
  using data_wf_index [of h k it] by (simp add: data_elems_def)

text \<open>Two well-formed heaps with the same elements up to order hold the same map.\<close>

lemma GetByKey_mset:
  assumes "data_wf h" "data_wf h'" "set (data_elems h') = insert (k, x) (set (data_elems h) - {k} \<times> UNIV)"
  shows "Heap_GetByKey h' = (Heap_GetByKey h)(k \<mapsto> x)"
proof
  fix k'
  have "map_of (data_elems h') k' = Some y \<longleftrightarrow> ((map_of (data_elems h))(k \<mapsto> x)) k' = Some y" for y
    using assms(3) by (auto simp: map_of_eq_Some_iff [OF distinct_data_elems [OF assms(1)]]
        map_of_eq_Some_iff [OF distinct_data_elems [OF assms(2)]])
  then show "Heap_GetByKey h' k' = ((Heap_GetByKey h)(k \<mapsto> x)) k'"
    unfolding GetByKey_map_of [OF assms(1)] GetByKey_map_of [OF assms(2)]
    by (metis (no_types, lifting) not_Some_eq)
qed

lemma GetByKey_mset_remove:
  assumes "data_wf h" "data_wf h'" "mset (data_elems h') = mset (data_elems h) - {#(k, x)#}"
    "(k, x) \<in> set (data_elems h)"
  shows "Heap_GetByKey h' = (Heap_GetByKey h)(k := None)"
proof
  fix k'
  have d: "distinct (data_elems h)" using distinct_data_elems [OF assms(1)] by (simp add: distinct_map)
  have u: "\<And>y. (k, y) \<in> set (data_elems h) \<Longrightarrow> y = x"
    using distinct_data_elems [OF assms(1)] assms(4) by (metis eq_key_imp_eq_value)
  have "set (data_elems h') = set (data_elems h) - {(k, x)}"
    by (metis assms(3) d mset_remove1 set_mset_mset set_remove1_eq)
  then have "map_of (data_elems h') k' = Some y \<longleftrightarrow> ((map_of (data_elems h))(k := None)) k' = Some y" for y
    using u by (auto simp: map_of_eq_Some_iff [OF distinct_data_elems [OF assms(1)]]
        map_of_eq_Some_iff [OF distinct_data_elems [OF assms(2)]])
  then show "Heap_GetByKey h' k' = ((Heap_GetByKey h)(k := None)) k'"
    unfolding GetByKey_map_of [OF assms(1)] GetByKey_map_of [OF assms(2)]
    by (metis (no_types, lifting) not_Some_eq)
qed

lemma strict_weak_key_lt: "strict_weak_on (snd ` S) lf \<Longrightarrow> strict_weak_on S (key_lt lf)"
  unfolding strict_weak_on_def key_lt_def by blast

lemma Heap_Push_spec:
  assumes wf: "data_wf h" and k: "data_items h k = None"
  shows "\<exists>h'. heap_Push (data_Less lf) data_Swap data_Len data_Push h (k, x) = Some h' \<and> data_wf h' \<and>
              Heap_GetByKey h' = (Heap_GetByKey h)(k \<mapsto> x) \<and>
              (strict_weak_on (insert x (ran (Heap_GetByKey h))) lf \<longrightarrow> heap_ok lf h \<longrightarrow> heap_ok lf h')"
proof -
  have "fst (k, x) \<notin> dom (data_items h)" using k by auto
  from kh.Push_spec [OF wf this, of lf] obtain h' where
    h': "heap_Push (data_Less lf) data_Swap data_Len data_Push h (k, x) = Some h'" "data_wf h'"
      "mset (data_elems h') = add_mset (k, x) (mset (data_elems h))"
      "strict_weak_on (insert (k, x) (set (data_elems h))) (key_lt lf) \<longrightarrow> heap_ok lf h \<longrightarrow> heap_ok lf h'"
    by (auto simp: heap_ok_def)
  have "k \<notin> set (data_queue h)" using k wf by (auto simp: data_wf_def)
  then have "set (data_elems h) - {k} \<times> UNIV = set (data_elems h)" by (auto simp: data_elems_def)
  then have "set (data_elems h') = insert (k, x) (set (data_elems h) - {k} \<times> UNIV)"
    using arg_cong [OF h'(3), of set_mset] by simp
  then have "Heap_GetByKey h' = (Heap_GetByKey h)(k \<mapsto> x)"
    by (rule GetByKey_mset [OF wf h'(2)])
  moreover have "strict_weak_on (insert x (ran (Heap_GetByKey h))) lf \<Longrightarrow>
      strict_weak_on (insert (k, x) (set (data_elems h))) (key_lt lf)"
    by (rule strict_weak_key_lt) (simp add: GetByKey_ran [OF wf])
  ultimately show ?thesis using h' by blast
qed

lemma Heap_replace_spec:
  fixes x :: 'a
  assumes wf: "data_wf h" and k: "data_items h k = Some it"
  defines "h1 \<equiv> h\<lparr>data_items := (data_items h)(k \<mapsto> it\<lparr>item_obj := x\<rparr>)\<rparr>"
  shows "\<exists>h'. heap_Fix (data_Less lf) data_Swap data_Len h1 (item_index it) = Some h' \<and> data_wf h' \<and>
              Heap_GetByKey h' = (Heap_GetByKey h)(k \<mapsto> x) \<and>
              (strict_weak_on (insert x (ran (Heap_GetByKey h))) lf \<longrightarrow> heap_ok lf h \<longrightarrow> heap_ok lf h')"
proof -
  let ?i = "item_index it"
  note ix = data_wf_index [OF wf k]
  have wf1: "data_wf h1"
    using wf k ix by (auto simp: data_wf_def h1_def nth_eq_iff_index_eq)
  have el1: "data_elems h1 = (data_elems h)[?i := (k, x)]"
    using wf k ix
    by (auto simp: data_elems_def h1_def data_wf_def nth_list_update nth_eq_iff_index_eq
        intro!: nth_equalityI)
  have "?i < length (data_elems h1)" using ix by (simp add: h1_def)
  from kh.Fix_spec [OF wf1 this, of lf] obtain h' where
    h': "heap_Fix (data_Less lf) data_Swap data_Len h1 ?i = Some h'" "data_wf h'"
      "mset (data_elems h') = mset (data_elems h1)"
      "strict_weak_on (set (data_elems h1)) (key_lt lf) \<longrightarrow>
       order_but (key_lt lf) (data_elems h1) (length (data_queue h)) ?i \<longrightarrow> heap_ok lf h'"
    by (auto simp: heap_ok_def h1_def)
  have set1: "set (data_elems h1) = insert (k, x) (set (data_elems h) - {k} \<times> UNIV)"
  proof -
    have d: "distinct (data_elems h)" using distinct_data_elems [OF wf] by (simp add: distinct_map)
    have "set (data_elems h) - {k} \<times> UNIV = set (data_elems h) - {(k, item_obj it)}"
      using k by (auto simp: data_elems_def)
    then show ?thesis
      using set_update_distinct [OF d, of ?i "(k, x)"] GetByKey_elem [OF wf k] ix el1 by simp
  qed
  have "set (data_elems h') = set (data_elems h1)" using h'(3) by (metis set_mset_mset)
  then have "Heap_GetByKey h' = (Heap_GetByKey h)(k \<mapsto> x)"
    using GetByKey_mset [OF wf h'(2)] set1 by simp
  moreover have "heap_ok lf h'"
    if sw: "strict_weak_on (insert x (ran (Heap_GetByKey h))) lf" and ok: "heap_ok lf h"
  proof -
    have "strict_weak_on (insert (k, x) (set (data_elems h))) (key_lt lf)"
      using sw by (intro strict_weak_key_lt) (simp add: GetByKey_ran [OF wf])
    then have "strict_weak_on (set (data_elems h)) (key_lt lf)"
      "strict_weak_on (set (data_elems h1)) (key_lt lf)"
      using set1 by (auto elim: strict_weak_mono)
    moreover from this ok have "order_but (key_lt lf) (data_elems h1) (length (data_queue h)) ?i"
      unfolding el1 heap_ok_def using ix by (intro heap_order_upd [where n = "length (data_queue h)"]) auto
    ultimately show ?thesis using h'(4) by blast
  qed
  ultimately show ?thesis using h' by blast
qed

text \<open>What each operation does to the map, that it keeps the invariant and, where the comparison is
  a strict weak order on the objects involved, the heap order.\<close>

lemma Heap_Add_spec:
  assumes "data_wf h" "kf x = Inr k"
  shows "\<exists>h'. Heap_Add kf lf h x = Some (h', Inr ()) \<and> data_wf h' \<and>
              Heap_GetByKey h' = (Heap_GetByKey h)(k \<mapsto> x) \<and>
              (strict_weak_on (insert x (ran (Heap_GetByKey h))) lf \<longrightarrow> heap_ok lf h \<longrightarrow> heap_ok lf h')"
  using assms Heap_Push_spec [OF assms(1), of k lf x] Heap_replace_spec [OF assms(1), where k = k and x = x and lf = lf]
  by (fastforce simp: Heap_Add_def succeed_def split: option.splits)

lemma Heap_AddIfNotPresent_spec:
  assumes "data_wf h" "kf x = Inr k"
  shows "\<exists>h'. Heap_AddIfNotPresent kf lf h x = Some (h', Inr ()) \<and> data_wf h' \<and>
              Heap_GetByKey h' =
                (if k \<in> dom (Heap_GetByKey h) then Heap_GetByKey h else (Heap_GetByKey h)(k \<mapsto> x)) \<and>
              (strict_weak_on (insert x (ran (Heap_GetByKey h))) lf \<longrightarrow> heap_ok lf h \<longrightarrow> heap_ok lf h')"
  using assms Heap_Push_spec [OF assms(1), of k lf x]
  by (fastforce simp: Heap_AddIfNotPresent_def succeed_def GetByKey_dom split: option.splits)

lemma Heap_DeleteByKey_spec:
  assumes wf: "data_wf h"
  shows "\<exists>h'. Heap_DeleteByKey lf h k =
                Some (h', if k \<in> dom (Heap_GetByKey h) then Inr () else Inl ObjectNotFound) \<and>
              data_wf h' \<and> Heap_GetByKey h' = (Heap_GetByKey h)(k := None) \<and>
              (strict_weak_on (ran (Heap_GetByKey h)) lf \<longrightarrow> heap_ok lf h \<longrightarrow> heap_ok lf h')"
proof (cases "data_items h k")
  case None
  then have "Heap_GetByKey h k = None" by (simp add: Heap_GetByKey_def)
  then have "(Heap_GetByKey h)(k := None) = Heap_GetByKey h" by auto
  then show ?thesis using None wf by (auto simp: Heap_DeleteByKey_def GetByKey_dom)
next
  case (Some it)
  let ?i = "item_index it"
  have i: "?i < length (data_elems h)" using data_wf_index [OF wf Some] by simp
  have el: "data_elems h ! ?i = (k, item_obj it)" by (rule GetByKey_elem [OF wf Some])
  from kh.Remove_spec [OF wf i, of lf] obtain h' where
    h': "heap_Remove (data_Less lf) data_Swap data_Len data_Pop h ?i = Some (h', Some (item_obj it))"
      "data_wf h'" "mset (data_elems h') = mset (data_elems h) - {#(k, item_obj it)#}"
      "strict_weak_on (set (data_elems h)) (key_lt lf) \<longrightarrow> heap_ok lf h \<longrightarrow> heap_ok lf h'"
    unfolding el by (auto simp: heap_ok_def)
  have "Heap_GetByKey h' = (Heap_GetByKey h)(k := None)"
    using GetByKey_mset_remove [OF wf h'(2,3)] i el by (metis nth_mem)
  moreover have "strict_weak_on (ran (Heap_GetByKey h)) lf \<Longrightarrow>
      strict_weak_on (set (data_elems h)) (key_lt lf)"
    by (rule strict_weak_key_lt) (simp add: GetByKey_ran [OF wf])
  ultimately show ?thesis using h' Some by (auto simp: Heap_DeleteByKey_def GetByKey_dom)
qed

lemma Heap_Peek_spec:
  assumes wf: "data_wf h"
  shows "Heap_Peek h = Some (if Heap_Len h = 0 then None else Some (snd (data_elems h ! 0)))"
proof (cases "data_queue h")
  case (Cons k q)
  then obtain it where "data_items h k = Some it" using data_wf_item [OF wf, of 0] by auto
  then show ?thesis using Cons by (simp add: Heap_Peek_def data_Peek_def Heap_Len_def data_elems_def)
qed (simp add: Heap_Peek_def data_Peek_def Heap_Len_def)

text \<open>\<^verbatim>\<open>Pop\<close> returns the object at the root: one that no object of the heap precedes.\<close>

lemma heap_ok_root:
  assumes "data_wf h" "heap_ok lf h" "strict_weak_on (ran (Heap_GetByKey h)) lf"
    "y \<in> ran (Heap_GetByKey h)"
  shows "\<not> lf y (snd (data_elems h ! 0))"
proof -
  have sw: "strict_weak_on (set (data_elems h)) (key_lt lf)"
    by (rule strict_weak_key_lt) (use assms GetByKey_ran [OF assms(1)] in simp)
  obtain z where "z \<in> set (data_elems h)" "snd z = y"
    using assms GetByKey_ran by fastforce
  then obtain i where "i < length (data_elems h)" "snd (data_elems h ! i) = y"
    by (auto simp: in_set_conv_nth)
  then show ?thesis
    using heap_order_root [of "key_lt lf" "data_elems h" "length (data_queue h)" i] assms(2) sw
    by (simp add: heap_ok_def key_lt_def)
qed

lemma Heap_Pop_spec:
  assumes wf: "data_wf h" and ne: "Heap_Len h \<noteq> 0"
  shows "\<exists>h' k x. Heap_Pop lf h = Some (h', Inr x) \<and> data_wf h' \<and> Heap_Peek h = Some (Some x) \<and>
              Heap_GetByKey h k = Some x \<and> Heap_GetByKey h' = (Heap_GetByKey h)(k := None) \<and>
              (strict_weak_on (ran (Heap_GetByKey h)) lf \<longrightarrow> heap_ok lf h \<longrightarrow>
               heap_ok lf h' \<and> (\<forall>y\<in>ran (Heap_GetByKey h). \<not> lf y x))"
proof -
  have el: "data_elems h \<noteq> []" using ne by (metis Heap_Len_def length_data_elems list.size(3))
  obtain k x where kx: "data_elems h ! 0 = (k, x)" by fastforce
  from kh.Pop_spec [OF wf el, of lf] obtain h' where
    h': "heap_Pop (data_Less lf) data_Swap data_Len data_Pop h = Some (h', Some x)" "data_wf h'"
      "mset (data_elems h') = mset (data_elems h) - {#(k, x)#}"
      "strict_weak_on (set (data_elems h)) (key_lt lf) \<longrightarrow> heap_ok lf h \<longrightarrow> heap_ok lf h'"
    unfolding kx by (auto simp: heap_ok_def)
  have mem: "(k, x) \<in> set (data_elems h)" using el kx by (metis length_greater_0_conv nth_mem)
  then have "Heap_GetByKey h k = Some x"
    by (simp add: GetByKey_map_of [OF wf] distinct_data_elems [OF wf])
  moreover have "Heap_GetByKey h' = (Heap_GetByKey h)(k := None)"
    by (rule GetByKey_mset_remove [OF wf h'(2,3) mem])
  moreover have "strict_weak_on (ran (Heap_GetByKey h)) lf \<Longrightarrow>
      strict_weak_on (set (data_elems h)) (key_lt lf)"
    by (rule strict_weak_key_lt) (simp add: GetByKey_ran [OF wf])
  moreover have "Heap_Peek h = Some (Some x)" using Heap_Peek_spec [OF wf] ne kx by simp
  ultimately show ?thesis
    using h' heap_ok_root [OF wf] kx by (auto simp: Heap_Pop_def)
qed

subsection \<open>The interface the scheduling queues rely on\<close>

text \<open>
  A client of a sub-queue sees a finite map from keys to objects. The laws are those of the interface
  \<^verbatim>\<open>SubQueue\<close> of pkg/scheduler/queue: what is stored after \<^verbatim>\<open>Add\<close> and \<^verbatim>\<open>DeleteByKey\<close>, and
  that both keep the invariant. The lemmas are about a family of such queues, one for each name: if no
  key is in two of them, moving an object between them keeps it so.
\<close>

locale sub_queue =
  fixes invar :: "'q \<Rightarrow> bool"
    and lookup :: "'q \<Rightarrow> key \<rightharpoonup> 'a"
    and keyof :: "'a \<Rightarrow> key"
    and add :: "'n \<Rightarrow> 'q \<Rightarrow> 'a \<Rightarrow> 'q"
    and del :: "'n \<Rightarrow> 'q \<Rightarrow> key \<Rightarrow> 'q"
  assumes add_invar: "invar q \<Longrightarrow> invar (add n q x)"
    and add_lookup: "invar q \<Longrightarrow> lookup (add n q x) = (lookup q)(keyof x \<mapsto> x)"
    and del_invar: "invar q \<Longrightarrow> invar (del n q k)"
    and del_lookup: "invar q \<Longrightarrow> lookup (del n q k) = (lookup q)(k := None)"
begin

definition stored :: "('n \<Rightarrow> 'q) \<Rightarrow> key \<Rightarrow> bool" where
  "stored qs k \<longleftrightarrow> (\<exists>n. k \<in> dom (lookup (qs n)))"

definition exclusive :: "('n \<Rightarrow> 'q) \<Rightarrow> bool" where
  "exclusive qs \<longleftrightarrow>
     (\<forall>n. invar (qs n) \<and> (\<forall>k x. lookup (qs n) k = Some x \<longrightarrow> keyof x = k)) \<and>
     (\<forall>n m k. k \<in> dom (lookup (qs n)) \<longrightarrow> k \<in> dom (lookup (qs m)) \<longrightarrow> n = m)"

lemma exclusive_add:
  assumes "exclusive qs" "\<And>m. m \<noteq> n \<Longrightarrow> keyof x \<notin> dom (lookup (qs m))"
  shows "exclusive (qs(n := add n (qs n) x))"
proof -
  have i: "invar (qs m)" for m using assms(1) by (simp add: exclusive_def)
  have k: "lookup (qs m) k = Some y \<Longrightarrow> keyof y = k" for m k y
    using assms(1) by (simp add: exclusive_def)
  have u: "k \<in> dom (lookup (qs m)) \<Longrightarrow> k \<in> dom (lookup (qs m')) \<Longrightarrow> m = m'" for k m m'
    using assms(1) unfolding exclusive_def by blast
  show ?thesis
    unfolding exclusive_def
    using i k u assms(2) by (auto simp: add_invar add_lookup split: if_splits) blast+
qed

lemma exclusive_del:
  assumes "exclusive qs"
  shows "exclusive (qs(n := del n (qs n) k))"
  using assms unfolding exclusive_def by (auto simp: del_invar del_lookup split: if_splits) blast+

lemma not_stored_del:
  assumes "exclusive qs" "k \<in> dom (lookup (qs n))"
  shows "\<not> stored (qs(n := del n (qs n) k)) k"
  using assms unfolding exclusive_def stored_def by (auto simp: del_lookup split: if_splits) blast+

lemma exclusive_add_new:
  assumes "exclusive qs" "\<not> stored qs (keyof x)"
  shows "exclusive (qs(n := add n (qs n) x))"
  using assms by (intro exclusive_add) (auto simp: stored_def)

lemma exclusive_move:
  assumes "exclusive qs" "lookup (qs n) k = Some x" "keyof y = k"
  defines "qs' \<equiv> qs(n := del n (qs n) k)"
  shows "exclusive (qs'(m := add m (qs' m) y))"
  using assms not_stored_del [OF assms(1), of k n]
  by (intro exclusive_add_new) (auto simp: exclusive_del qs'_def)

end

text \<open>The heap's operations as total functions, for the heaps on which they do not panic.\<close>

definition heap_add :: "'a keyFunc \<Rightarrow> 'a lessFunc \<Rightarrow> 'a data \<Rightarrow> 'a \<Rightarrow> 'a data" where
  "heap_add kf lf h x = fst (the (Heap_Add kf lf h x))"

definition heap_del :: "'a lessFunc \<Rightarrow> 'a data \<Rightarrow> key \<Rightarrow> 'a data" where
  "heap_del lf h k = fst (the (Heap_DeleteByKey lf h k))"

lemma heap_add_eq [simp]:
  assumes "data_wf h"
  shows "Heap_Add (\<lambda>x. Inr (keyof x)) lf h x = Some (heap_add (\<lambda>x. Inr (keyof x)) lf h x, Inr ())"
    and "data_wf (heap_add (\<lambda>x. Inr (keyof x)) lf h x)"
    and "Heap_GetByKey (heap_add (\<lambda>x. Inr (keyof x)) lf h x) = (Heap_GetByKey h)(keyof x \<mapsto> x)"
  using Heap_Add_spec [OF assms, of "\<lambda>x. Inr (keyof x)" x "keyof x" lf]
  by (auto simp: heap_add_def)

lemma heap_del_eq [simp]:
  assumes "data_wf h"
  shows "Heap_DeleteByKey lf h k =
           Some (heap_del lf h k, if k \<in> dom (Heap_GetByKey h) then Inr () else Inl ObjectNotFound)"
    and "data_wf (heap_del lf h k)"
    and "Heap_GetByKey (heap_del lf h k) = (Heap_GetByKey h)(k := None)"
  using Heap_DeleteByKey_spec [OF assms, of lf k] unfolding heap_del_def by fastforce+

lemma heap_add_ok:
  "data_wf h \<Longrightarrow> heap_ok lf h \<Longrightarrow> strict_weak_on (insert x (ran (Heap_GetByKey h))) lf \<Longrightarrow>
   heap_ok lf (heap_add (\<lambda>x. Inr (keyof x)) lf h x)"
  using Heap_Add_spec [of h "\<lambda>x. Inr (keyof x)" x "keyof x" lf]
  by (auto simp: heap_add_def simp del: heap_add_eq)

lemma heap_del_ok:
  "data_wf h \<Longrightarrow> heap_ok lf h \<Longrightarrow> strict_weak_on (ran (Heap_GetByKey h)) lf \<Longrightarrow>
   heap_ok lf (heap_del lf h k)"
  using Heap_DeleteByKey_spec [of h lf k] by (auto simp: heap_del_def simp del: heap_del_eq)

interpretation sq: sub_queue data_wf Heap_GetByKey keyof
  "\<lambda>n. heap_add (\<lambda>x. Inr (keyof x)) (lf n)" "\<lambda>n. heap_del (lf n)"
  for keyof :: "'a \<Rightarrow> key" and lf :: "'n \<Rightarrow> 'a lessFunc"
  by unfold_locales simp_all

subsection \<open>Runs of the heap\<close>

datatype 'a heap_op = OpAdd 'a | OpAddIfNotPresent 'a | OpUpdate "'a option" 'a | OpDelete 'a

fun heap_step :: "'a keyFunc \<Rightarrow> 'a lessFunc \<Rightarrow> 'a data \<Rightarrow> 'a heap_op \<Rightarrow> ('a, unit) heap_result" where
  "heap_step kf lf h (OpAdd x) = Heap_Add kf lf h x"
| "heap_step kf lf h (OpAddIfNotPresent x) = Heap_AddIfNotPresent kf lf h x"
| "heap_step kf lf h (OpUpdate old x) = Heap_Update kf lf h old x"
| "heap_step kf lf h (OpDelete x) = Heap_Delete kf lf h x"

fun heap_run :: "'a keyFunc \<Rightarrow> 'a lessFunc \<Rightarrow> 'a data \<Rightarrow> 'a heap_op list \<Rightarrow> 'a data option" where
  "heap_run kf lf h [] = Some h"
| "heap_run kf lf h (p # ps) =
     (case heap_step kf lf h p of None \<Rightarrow> None | Some (h', _) \<Rightarrow> heap_run kf lf h' ps)"

text \<open>The same steps on a finite map.\<close>

fun map_step :: "('a \<Rightarrow> key) \<Rightarrow> (key \<rightharpoonup> 'a) \<Rightarrow> 'a heap_op \<Rightarrow> (key \<rightharpoonup> 'a)" where
  "map_step keyof m (OpAdd x) = m(keyof x \<mapsto> x)"
| "map_step keyof m (OpAddIfNotPresent x) = (if keyof x \<in> dom m then m else m(keyof x \<mapsto> x))"
| "map_step keyof m (OpUpdate old x) =
     (case old of None \<Rightarrow> m | Some y \<Rightarrow> m(keyof y := None))(keyof x \<mapsto> x)"
| "map_step keyof m (OpDelete x) = m(keyof x := None)"

lemma heap_step_spec:
  assumes "data_wf h" "heap_ok lf h" "strict_weak_on UNIV lf"
  shows "\<exists>h' r. heap_step (\<lambda>x. Inr (keyof x)) lf h p = Some (h', r) \<and> data_wf h' \<and> heap_ok lf h' \<and>
                Heap_GetByKey h' = map_step keyof (Heap_GetByKey h) p"
proof (cases p)
  case (OpAddIfNotPresent x)
  then show ?thesis
    using assms Heap_AddIfNotPresent_spec [OF assms(1), of "\<lambda>x. Inr (keyof x)" x "keyof x" lf]
      strict_weak_mono [OF assms(3) subset_UNIV] by auto
qed (use assms strict_weak_mono [OF assms(3) subset_UNIV] in
  \<open>auto simp: Heap_Update_def Heap_Delete_def heap_add_ok heap_del_ok split: option.split\<close>)

lemma New_ok [simp]: "data_wf New" "heap_ok lf New" "Heap_GetByKey New = Map.empty"
  by (auto simp: New_def data_wf_def heap_ok_def heap_order_def Heap_GetByKey_def)

lemma heap_run_spec:
  assumes "data_wf h" "heap_ok lf h" "strict_weak_on UNIV lf"
  shows "\<exists>h'. heap_run (\<lambda>x. Inr (keyof x)) lf h ps = Some h' \<and> data_wf h' \<and> heap_ok lf h' \<and>
              Heap_GetByKey h' = fold (\<lambda>p m. map_step keyof m p) ps (Heap_GetByKey h)"
  using assms(1,2)
proof (induction ps arbitrary: h)
  case (Cons p ps)
  obtain h' r where "heap_step (\<lambda>x. Inr (keyof x)) lf h p = Some (h', r)" "data_wf h'" "heap_ok lf h'"
    "Heap_GetByKey h' = map_step keyof (Heap_GetByKey h) p"
    using heap_step_spec [OF Cons.prems assms(3)] by blast
  then show ?case using Cons.IH by fastforce
qed simp

text \<open>Popping until the heap is empty.\<close>

fun heap_drain :: "'a lessFunc \<Rightarrow> nat \<Rightarrow> 'a data \<Rightarrow> ('a list \<times> 'a data) option" where
  "heap_drain lf 0 h = Some ([], h)"
| "heap_drain lf (Suc n) h =
     (case Heap_Pop lf h of
        Some (h', Inr x) \<Rightarrow> map_option (\<lambda>(xs, h''). (x # xs, h'')) (heap_drain lf n h')
      | _ \<Rightarrow> None)"

lemma Heap_Pop_Len:
  assumes "data_wf h" "data_wf h'" "Heap_GetByKey h k = Some x"
    "Heap_GetByKey h' = (Heap_GetByKey h)(k := None)" "Heap_Len h = Suc n"
  shows "Heap_Len h' = n"
proof -
  have "finite (dom (Heap_GetByKey h))" using assms(1) by (metis GetByKey_dom data_wf_def List.finite_set)
  then show ?thesis
    using assms Heap_Len_card [of h] Heap_Len_card [of h'] by (simp add: domI)
qed

lemma heap_drain_spec:
  "data_wf h \<Longrightarrow> heap_ok lf h \<Longrightarrow> strict_weak_on (ran (Heap_GetByKey h)) lf \<Longrightarrow> Heap_Len h = n \<Longrightarrow>
   \<exists>xs h'. heap_drain lf n h = Some (xs, h') \<and> Heap_Len h' = 0 \<and> length xs = n \<and>
           set xs = ran (Heap_GetByKey h) \<and> sorted_wrt (\<lambda>x y. \<not> lf y x) xs"
proof (induction n arbitrary: h)
  case 0
  then show ?case by (simp add: Heap_Len_0)
next
  case (Suc n)
  from Suc.prems Heap_Pop_spec [of h lf] obtain h' k x where
    p: "Heap_Pop lf h = Some (h', Inr x)" "data_wf h'" "Heap_GetByKey h k = Some x"
       "Heap_GetByKey h' = (Heap_GetByKey h)(k := None)" "heap_ok lf h'"
       "\<forall>y\<in>ran (Heap_GetByKey h). \<not> lf y x" by auto
  have len: "Heap_Len h' = n" by (rule Heap_Pop_Len [OF Suc.prems(1) p(2,3,4) Suc.prems(4)])
  have ran: "ran (Heap_GetByKey h) = insert x (ran (Heap_GetByKey h'))"
    using p(3,4) by (auto simp: ran_def) (metis option.inject)
  then have "strict_weak_on (ran (Heap_GetByKey h')) lf"
    using Suc.prems(3) by (auto elim: strict_weak_mono)
  from Suc.IH [OF p(2,5) this len] show ?case using p(1,6) ran by auto
qed

subsection \<open>Properties\<close>

text \<open>C1. The keyed heap refines a finite map. From the empty heap, any sequence of \<^verbatim>\<open>Add\<close>,
  \<^verbatim>\<open>AddIfNotPresent\<close>, \<^verbatim>\<open>Update\<close> and \<^verbatim>\<open>Delete\<close> calls runs without a panic; the keys of the item map
  and of the queue stay the same set with the indices right, the queue stays in heap order, and looking
  a key up gives what the same updates of a map give.\<close>

theorem heap_run_refines_map:
  assumes "strict_weak_on UNIV lf"
  shows "\<exists>h. heap_run (\<lambda>x. Inr (keyof x)) lf New ps = Some h \<and> data_wf h \<and> heap_ok lf h \<and>
             Heap_GetByKey h = fold (\<lambda>p m. map_step keyof m p) ps Map.empty"
  using heap_run_spec [OF New_ok(1,2) assms] by simp

theorem heap_run_refines_map_witness:
  "\<exists>h. heap_run (\<lambda>x. Inr (fst x)) (\<lambda>x y. snd x < (snd y :: nat)) New
         [OpAdd (''a'', 5), OpAdd (''b'', 3), OpUpdate (Some (''a'', 5)) (''a'', 1), OpDelete (''b'', 9)]
       = Some h \<and> data_wf h \<and> Heap_GetByKey h = [''a'' \<mapsto> (''a'', 1)]"
proof -
  have sw: "strict_weak_on UNIV (\<lambda>x y. snd x < (snd y :: nat))" by (rule strict_weak_key)
  have eq: "fold (\<lambda>p m. map_step fst m p)
     [OpAdd (''a'', 5), OpAdd (''b'', 3), OpUpdate (Some (''a'', 5)) (''a'', 1), OpDelete (''b'', 9)]
     Map.empty = [''a'' \<mapsto> (''a'', 1 :: nat)]"
    by (rule ext) simp
  show ?thesis
    using heap_run_refines_map [OF sw, of fst
      "[OpAdd (''a'', 5), OpAdd (''b'', 3), OpUpdate (Some (''a'', 5)) (''a'', 1), OpDelete (''b'', 9)]"]
    unfolding eq by blast
qed

text \<open>C2. Popping a heap until it is empty returns every stored object once, in the order of the
  comparison: no object comes after one it precedes. This is the promise that the head of the ready
  queue is the unit to schedule next.\<close>

theorem heap_drain_sorted:
  assumes "data_wf h" "heap_ok lf h" "strict_weak_on (ran (Heap_GetByKey h)) lf"
  shows "\<exists>xs h'. heap_drain lf (Heap_Len h) h = Some (xs, h') \<and> Heap_Len h' = 0 \<and>
                 length xs = Heap_Len h \<and> set xs = ran (Heap_GetByKey h) \<and>
                 sorted_wrt (\<lambda>x y. \<not> lf y x) xs"
  using heap_drain_spec [OF assms refl] by simp

definition heap_example :: "(key \<times> nat) data" where
  "heap_example =
     \<lparr>data_items = [''a'' \<mapsto> \<lparr>item_obj = (''a'', 1), item_index = 0\<rparr>,
                    ''b'' \<mapsto> \<lparr>item_obj = (''b'', 3), item_index = 1\<rparr>,
                    ''c'' \<mapsto> \<lparr>item_obj = (''c'', 2), item_index = 2\<rparr>],
      data_queue = [''a'', ''b'', ''c'']\<rparr>"

lemma heap_example_wf: "data_wf heap_example"
  by (auto simp: data_wf_def heap_example_def nth_Cons split: nat.splits)

lemma heap_example_ok: "heap_ok (\<lambda>x y. snd x < snd y) heap_example"
  by (auto simp: heap_ok_def heap_order_def heap_example_def data_elems_def key_lt_def parent_def
      less_Suc_eq numeral_3_eq_3)

theorem heap_drain_sorted_witness:
  "\<exists>xs h'. heap_drain (\<lambda>x y. snd x < snd y) 3 heap_example = Some (xs, h') \<and> length xs = 3 \<and>
           sorted_wrt (\<lambda>x y. \<not> snd y < snd x) xs"
proof -
  have len: "Heap_Len heap_example = 3" by (simp add: Heap_Len_def heap_example_def)
  have sw: "strict_weak_on (ran (Heap_GetByKey heap_example)) (\<lambda>x y. snd x < snd y)"
    by (rule strict_weak_key)
  show ?thesis using heap_drain_sorted [OF heap_example_wf heap_example_ok sw] len by auto
qed

text \<open>On a well-formed heap \<^verbatim>\<open>Pop\<close> panics exactly when the heap is empty: there is no error
  result for that case, the index -1 of \<^verbatim>\<open>container/heap\<close> reaches \<^verbatim>\<open>Swap\<close>.\<close>

theorem heap_pop_panics_iff_empty:
  assumes "data_wf h"
  shows "Heap_Pop lf h = None \<longleftrightarrow> Heap_Len h = 0"
proof (cases "Heap_Len h = 0")
  case True
  then show ?thesis by (simp add: Heap_Pop_def heap_Pop_def Heap_Len_def data_Len_def)
qed (use Heap_Pop_spec [OF assms, of lf] in auto)

theorem heap_pop_panics_iff_empty_witness:
  "Heap_Pop (\<lambda>x y. snd x < snd y) heap_example \<noteq> None \<and> Heap_Pop (\<lambda>x y. False) (New :: nat data) = None"
  using heap_pop_panics_iff_empty [OF heap_example_wf, of "\<lambda>x y. snd x < snd y"]
    heap_pop_panics_iff_empty [OF New_ok(1), of "\<lambda>(x :: nat) y. False"]
  by (simp add: Heap_Len_def heap_example_def New_def)

text \<open>The range guard of \<^verbatim>\<open>Less\<close> is off by one: an index equal to the length of the queue
  passes the test \<^verbatim>\<open>i > len(h.queue)\<close>, and the read that follows panics instead of answering
  false, which is the answer for every larger index.\<close>

theorem heap_less_guard_off_by_one:
  fixes lf :: "'a lessFunc"
  shows "data_Less lf h (length (data_queue h)) 0 = None \<and>
         data_Less lf h (Suc (length (data_queue h))) 0 = Some False"
  by (simp add: data_Less_def)

end
