(* ===== verification/Float64.thy ===== *)
theory Float64
  imports Complex_Main Godel_Prelude
begin

section \<open>Floating point numbers of 64 bits\<close>

text \<open>
  The values of a \<^verbatim>\<open>float64\<close> that is neither infinite nor not-a-number are real numbers. The result of an arithmetic operation
  is the exact result rounded to the nearest number with a significand of 53 bits, ties to the even one, and no finer
  than \<open>2^-1074\<close>. The model does not turn results beyond \<open>2^1024\<close> into an infinity.
\<close>

definition round_even :: "real \<Rightarrow> int" where
  "round_even y =
     (let n = \<lfloor>y\<rfloor>; d = y - real_of_int n in
      if d < 1 / 2 then n else if d > 1 / 2 then n + 1 else if even n then n else n + 1)"

text \<open>The exponent of the last bit of the significand.\<close>

definition fl_exp :: "real \<Rightarrow> int" where
  "fl_exp x = max (- 1074) (\<lfloor>log 2 \<bar>x\<bar>\<rfloor> - 52)"

definition fl64 :: "real \<Rightarrow> real" where
  "fl64 x = real_of_int (round_even (x / 2 powr real_of_int (fl_exp x))) * 2 powr real_of_int (fl_exp x)"

text \<open>The conversion \<^verbatim>\<open>int64(x)\<close> drops the fraction; out of range it gives the least integer, as on amd64.\<close>

definition float_to_int64 :: "real \<Rightarrow> int" where
  "float_to_int64 x =
     (let n = (if 0 \<le> x then \<lfloor>x\<rfloor> else \<lceil>x\<rceil>) in if - (2 ^ 63) \<le> n \<and> n < 2 ^ 63 then n else - (2 ^ 63))"

subsection \<open>Rounding\<close>

lemma round_even_error: "\<bar>real_of_int (round_even y) - y\<bar> \<le> 1 / 2"
  by (simp add: round_even_def Let_def)

lemma round_even_le: "y \<le> real_of_int n \<Longrightarrow> round_even y \<le> n"
proof -
  assume y: "y \<le> real_of_int n"
  show ?thesis
  proof (cases "y = real_of_int n")
    case True
    then show ?thesis by (simp add: round_even_def)
  next
    case False
    then have "\<lfloor>y\<rfloor> < n" using y by (simp add: floor_less_iff)
    then show ?thesis by (auto simp: round_even_def Let_def)
  qed
qed

lemma round_even_ge: "real_of_int n \<le> y \<Longrightarrow> n \<le> round_even y"
proof -
  assume "real_of_int n \<le> y"
  then have "n \<le> \<lfloor>y\<rfloor>" by (simp add: le_floor_iff)
  then show ?thesis by (auto simp: round_even_def Let_def)
qed

lemma fl64_zero [simp]: "fl64 0 = 0"
  using round_even_le [of 0 0] round_even_ge [of 0 0] by (simp add: fl64_def)

lemma fl64_error: "\<bar>fl64 x - x\<bar> \<le> \<bar>x\<bar> / 2 ^ 53 + 1 / 2 ^ 100"
proof (cases "x = 0")
  case x: False
  define e where "e = fl_exp x"
  define b where "b = (2 :: real) powr real_of_int e"
  have b: "0 < b" by (simp add: b_def)
  have "fl64 x - x = (real_of_int (round_even (x / b)) - x / b) * b"
    using b by (simp add: fl64_def e_def [symmetric] b_def [symmetric] field_simps)
  then have "\<bar>fl64 x - x\<bar> = \<bar>real_of_int (round_even (x / b)) - x / b\<bar> * b" using b by (simp add: abs_mult)
  also have "\<dots> \<le> 1 / 2 * b" using round_even_error [of "x / b"] b by (intro mult_right_mono) auto
  finally have err: "\<bar>fl64 x - x\<bar> \<le> b / 2" by simp
  show ?thesis
  proof (cases "e = \<lfloor>log 2 \<bar>x\<bar>\<rfloor> - 52")
    case True
    then have "b = 2 powr real_of_int \<lfloor>log 2 \<bar>x\<bar>\<rfloor> * 2 powr (- 52)" by (simp add: b_def powr_add [symmetric])
    also have "\<dots> \<le> 2 powr log 2 \<bar>x\<bar> * 2 powr (- 52)" by (intro mult_right_mono) (auto intro: powr_mono)
    also have "\<dots> = \<bar>x\<bar> / 2 ^ 52" using x by (simp add: powr_minus_divide powr_realpow [symmetric])
    finally have "b / 2 \<le> \<bar>x\<bar> / 2 ^ 53" by simp
    then show ?thesis using err by simp
  next
    case False
    then have "e = - 1074" by (simp add: e_def fl_exp_def max_def split: if_splits)
    then have "b \<le> 2 powr (- 99)" by (simp add: b_def)
    also have "\<dots> = 2 / 2 ^ 100" by (simp add: powr_minus_divide powr_realpow [symmetric])
    finally have "b / 2 \<le> 1 / 2 ^ 100" by simp
    moreover have "0 \<le> \<bar>x\<bar> / 2 ^ 53" by simp
    ultimately show ?thesis using err by linarith
  qed
qed simp

text \<open>An integer with at most 53 bits is a bound the rounding does not cross, and rounds to itself.\<close>

lemma powr_int_split: "0 \<le> (k :: int) \<Longrightarrow> 2 powr real_of_int k = real_of_int (2 ^ nat k)"
  by (simp add: powr_int)

lemma fl64_le_int:
  assumes x: "x \<le> real_of_int n" and n: "\<bar>n\<bar> < 2 ^ 53"
  shows "fl64 x \<le> real_of_int n"
proof (cases "fl_exp x \<le> 0")
  case True
  define b where "b = (2 :: real) powr real_of_int (fl_exp x)"
  define m where "m = n * 2 ^ nat (- fl_exp x)"
  have "b * 2 powr real_of_int (- fl_exp x) = 1" unfolding b_def by (simp add: powr_add [symmetric])
  then have b: "0 < b" "b * real_of_int (2 ^ nat (- fl_exp x)) = 1" using True powr_int_split [of "- fl_exp x"] by (simp_all add: b_def)
  then have m: "real_of_int m * b = real_of_int n" by (simp add: m_def mult.assoc mult.commute)
  have "x / b \<le> real_of_int m" using x m b(1) by (simp add: field_simps)
  then have "round_even (x / b) \<le> m" by (rule round_even_le)
  then have "real_of_int (round_even (x / b)) * b \<le> real_of_int m * b" using b(1) by simp
  then show ?thesis unfolding m by (simp add: fl64_def b_def)
next
  case False
  define k where "k = fl_exp x"
  define b where "b = (2 :: real) powr real_of_int k"
  have k: "0 < k" "k = \<lfloor>log 2 \<bar>x\<bar>\<rfloor> - 52" using False by (auto simp: k_def fl_exp_def max_def split: if_splits)
  have b: "2 \<le> b" using k(1) powr_mono [of 1 "real_of_int k" 2] by (simp add: b_def)
  have x0: "x \<noteq> 0" using k by (auto simp: log_def)
  have "2 powr real_of_int (k + 52) \<le> 2 powr log 2 \<bar>x\<bar>" using k(2) by (intro powr_mono) auto
  then have big: "b * 2 ^ 52 \<le> \<bar>x\<bar>" using x0 by (simp add: b_def powr_add powr_realpow [symmetric])
  have "x < 0"
  proof (rule ccontr)
    assume "\<not> x < 0"
    moreover have "2 * 2 ^ 52 \<le> b * (2 :: real) ^ 52" using b by simp
    ultimately have "2 ^ 53 \<le> x" using big by simp
    then have "2 ^ 53 \<le> real_of_int n" using x by simp
    then have "2 ^ 53 \<le> n" by (metis of_int_le_iff of_int_numeral of_int_power)
    then show False using n by linarith
  qed
  then have "x / b \<le> real_of_int (- (2 ^ 52))" using big b by (simp add: field_simps)
  then have "round_even (x / b) \<le> - (2 ^ 52)" by (rule round_even_le)
  then have "real_of_int (round_even (x / b)) \<le> real_of_int (- (2 ^ 52))" by (simp only: of_int_le_iff)
  then have "real_of_int (round_even (x / b)) \<le> - (2 ^ 52)" by simp
  then have "real_of_int (round_even (x / b)) * b \<le> - (2 ^ 52) * b" using b by (intro mult_right_mono) auto
  also have "\<dots> \<le> - (2 ^ 53)" using b by simp
  also have "\<dots> \<le> real_of_int n"
  proof -
    have "- (2 ^ 53) \<le> n" using n by linarith
    then have "real_of_int (- (2 ^ 53)) \<le> real_of_int n" by (simp only: of_int_le_iff)
    then show ?thesis by simp
  qed
  finally show ?thesis by (simp add: fl64_def k_def b_def)
qed

lemma round_even_uminus: "round_even (- y) = - round_even y"
proof (cases "y = real_of_int \<lfloor>y\<rfloor>")
  case True
  then obtain n where "y = real_of_int n" by blast
  then show ?thesis using round_even_le [of y n] round_even_ge [of n y] round_even_le [of "- y" "- n"] round_even_ge [of "- n" "- y"] by simp
next
  case False
  define n where "n = \<lfloor>y\<rfloor>"
  have "real_of_int n < y" "y < real_of_int n + 1" using False n_def by linarith+
  then have "\<lfloor>- y\<rfloor> = - n - 1" by (intro floor_unique) auto
  then show ?thesis unfolding round_even_def Let_def n_def [symmetric] by auto
qed

lemma fl64_uminus: "fl64 (- x) = - fl64 x"
  by (simp add: fl64_def fl_exp_def round_even_uminus)

lemma fl64_ge_int:
  assumes "real_of_int n \<le> x" "\<bar>n\<bar> < 2 ^ 53"
  shows "real_of_int n \<le> fl64 x"
  using fl64_le_int [of "- x" "- n"] assms by (simp add: fl64_uminus)

lemma fl64_int [simp]: "\<bar>n\<bar> < 2 ^ 53 \<Longrightarrow> fl64 (real_of_int n) = real_of_int n"
  using fl64_le_int [of "real_of_int n" n] fl64_ge_int [of n "real_of_int n"] by simp

end
