(* ===== verification/Queue_Base.thy ===== *)
theory Queue_Base
  imports Queue_Sort Keyed_Heap Float64 "HOL-Library.Monad_Syntax"
begin

section \<open>Parts of the scheduling queues (pkg/scheduler/queue: backoff, scores, waiting pods)\<close>

text \<open>
  What \<^verbatim>\<open>PriorityQueue\<close> and \<^verbatim>\<open>BlockQueue\<close> share: the backoff handler (internal_backoff.go), the score of
  a popped unit (queue_scorer.go), the list of pods whose unit cannot be created yet
  (internal_waitingpods.go), and the sub-queues of units, heaps of \<^verbatim>\<open>*QueuedUnitInfo\<close> by unit key.
  Durations are 64-bit and their wrap-around is written out; scores are reals.

  The queues store pointers to units. The code changes a unit only while it is out of the sub-queues
  (\<^verbatim>\<open>findAndRemoveUnitFromQueue\<close> removes it first), so the model stores units by value.
\<close>

subsection \<open>Backoff\<close>

record backoffHandler =
  initialDuration :: duration
  maxDuration :: duration

definition newBackoffHandler :: "duration \<Rightarrow> duration \<Rightarrow> backoffHandler" where
  "newBackoffHandler i m = \<lparr>initialDuration = i, maxDuration = m\<rparr>"

fun backoff_loop :: "duration \<Rightarrow> nat \<Rightarrow> duration \<Rightarrow> duration" where
  "backoff_loop mx 0 d = d"
| "backoff_loop mx (Suc n) d =
     (if d > wrap64 (mx - d) then mx else backoff_loop mx n (wrap64 (d + d)))"

definition calculateBackoffDuration :: "backoffHandler \<Rightarrow> QueuedUnitInfo \<Rightarrow> duration" where
  "calculateBackoffDuration h u =
     (if qui_Attempts u = 0 then 0
      else backoff_loop (maxDuration h) (nat (qui_Attempts u - 1)) (initialDuration h))"

definition getBackoffTime :: "backoffHandler \<Rightarrow> QueuedUnitInfo \<Rightarrow> time" where
  "getBackoffTime h u = qui_Timestamp u + calculateBackoffDuration h u"

definition isUnitBackoff :: "backoffHandler \<Rightarrow> time \<Rightarrow> QueuedUnitInfo \<Rightarrow> bool" where
  "isUnitBackoff h now u \<longleftrightarrow> getBackoffTime h u > now"

definition unitsCompareBackoffCompleted :: "backoffHandler \<Rightarrow> QueuedUnitInfo lessFunc" where
  "unitsCompareBackoffCompleted h u1 u2 \<longleftrightarrow> getBackoffTime h u1 < getBackoffTime h u2"

lemma backoff_loop_min:
  assumes "0 \<le> d" "d \<le> mx" "mx < 2 ^ 63"
  shows "backoff_loop mx n d = min (d * 2 ^ n) mx"
  using assms
proof (induction n arbitrary: d)
  case (Suc n)
  have w: "wrap64 (mx - d) = mx - d" using Suc.prems by (intro wrap64_id) auto
  show ?case
  proof (cases "d > mx - d")
    case True
    have "d * 2 \<le> d * (2 * 2 ^ n)" using Suc.prems by (intro mult_left_mono) auto
    with True have "mx \<le> d * (2 * 2 ^ n)" by linarith
    then show ?thesis using True w by (simp add: min_def)
  next
    case False
    then have "wrap64 (d + d) = d + d" using Suc.prems by (intro wrap64_id) auto
    moreover have "(d + d) * 2 ^ n = d * (2 * 2 ^ n)" by (simp add: algebra_simps)
    ultimately show ?thesis using False w Suc.IH [of "d + d"] Suc.prems by simp
  qed
qed simp

subsection \<open>Scores\<close>

text \<open>Every arithmetic result on \<^verbatim>\<open>float64\<close> is rounded, as on amd64, where product and difference are not fused; \<^verbatim>\<open>math.Floor\<close>
  and \<^verbatim>\<open>math.Max\<close> are exact.\<close>

definition getScore :: "int \<Rightarrow> int \<Rightarrow> int \<Rightarrow> real \<Rightarrow> real" where
  "getScore priority minPriority attempts step =
     (if attempts = 0 then fl64 (real_of_int priority)
      else let gap = wrap64 (priority - minPriority);
               q = fl64 (fl64 (real_of_int gap) / step);
               count = float_to_int64 (max 2 (fl64 (real_of_int \<lfloor>q\<rfloor> + 2))) in
           fl64 (fl64 (real_of_int priority) - fl64 (fl64 (real_of_int (go_rem attempts count)) * step)))"

text \<open>The number of scores a unit goes through.\<close>

definition score_count :: "int \<Rightarrow> int \<Rightarrow> real \<Rightarrow> int" where
  "score_count priority minPriority step = \<lfloor>fl64 (real_of_int (priority - minPriority) / step)\<rfloor> + 2"

text \<open>Priorities of 32 bits that are in order, a positive step, and a quotient the conversion can hold.\<close>

definition score_args :: "int \<Rightarrow> int \<Rightarrow> int \<Rightarrow> real \<Rightarrow> bool" where
  "score_args priority minPriority attempts step =
     (0 < step \<and> minPriority \<le> priority \<and> \<bar>priority\<bar> \<le> 2 ^ 31 \<and> \<bar>minPriority\<bar> \<le> 2 ^ 31 \<and> 0 \<le> attempts \<and>
      real_of_int (priority - minPriority) \<le> step * 2 ^ 51)"

lemma getScore_eq:
  assumes "score_args priority minPriority attempts step"
  shows "2 \<le> score_count priority minPriority step" "score_count priority minPriority step \<le> 2 ^ 51 + 2"
    "getScore priority minPriority attempts step =
       fl64 (real_of_int priority - fl64 (real_of_int (attempts mod score_count priority minPriority step) * step))"
proof -
  let ?gap = "priority - minPriority"
  define q where "q = fl64 (real_of_int ?gap / step)"
  have a: "0 < step" "0 \<le> ?gap" "?gap \<le> 2 ^ 32" "\<bar>priority\<bar> < 2 ^ 53" "0 \<le> attempts" "real_of_int ?gap / step \<le> 2 ^ 51"
    using assms by (auto simp: score_args_def field_simps)
  have "0 \<le> q" "q \<le> 2 ^ 51"
    using fl64_ge_int [of 0 "real_of_int ?gap / step"] fl64_le_int [of "real_of_int ?gap / step" "2 ^ 51"] a by (simp_all add: q_def)
  then have f: "0 \<le> \<lfloor>q\<rfloor>" "\<lfloor>q\<rfloor> \<le> 2 ^ 51" by (simp, simp add: floor_le_iff)
  have small: "(2 :: int) ^ 51 + 2 < 2 ^ 53" by simp
  have c: "score_count priority minPriority step = \<lfloor>q\<rfloor> + 2" by (simp add: score_count_def q_def)
  show "2 \<le> score_count priority minPriority step" "score_count priority minPriority step \<le> 2 ^ 51 + 2" using c f by simp_all
  have g: "wrap64 ?gap = ?gap" using a(2,3) by (simp add: wrap64_id)
  have fg: "fl64 (real_of_int ?gap) = real_of_int ?gap" using a(2,3) by (intro fl64_int) simp
  have "fl64 (real_of_int (\<lfloor>q\<rfloor> + 2)) = real_of_int (\<lfloor>q\<rfloor> + 2)" using f by (intro fl64_int) simp
  then have "max 2 (fl64 (real_of_int \<lfloor>q\<rfloor> + 2)) = real_of_int (\<lfloor>q\<rfloor> + 2)" using f(1) by simp
  then have cnt: "float_to_int64 (max 2 (fl64 (real_of_int \<lfloor>q\<rfloor> + 2))) = \<lfloor>q\<rfloor> + 2" using f by (simp add: float_to_int64_def)
  have r: "go_rem attempts (\<lfloor>q\<rfloor> + 2) = attempts mod (\<lfloor>q\<rfloor> + 2)" using go_rem_nonneg [of attempts "\<lfloor>q\<rfloor> + 2"] a(5) f(1) by linarith
  have "attempts mod (\<lfloor>q\<rfloor> + 2) < \<lfloor>q\<rfloor> + 2" "0 \<le> attempts mod (\<lfloor>q\<rfloor> + 2)"
    using f(1) by (intro pos_mod_bound pos_mod_sign; linarith)+
  then have fr: "fl64 (real_of_int (attempts mod (\<lfloor>q\<rfloor> + 2))) = real_of_int (attempts mod (\<lfloor>q\<rfloor> + 2))"
    using f(2) small by (intro fl64_int) linarith
  have p: "fl64 (real_of_int priority) = real_of_int priority" using a(4) by (rule fl64_int)
  show "getScore priority minPriority attempts step =
       fl64 (real_of_int priority - fl64 (real_of_int (attempts mod score_count priority minPriority step) * step))"
    unfolding getScore_def Let_def g fg q_def [symmetric] cnt r fr p c using p by simp
qed


lemma getScore_bounds:
  assumes A: "score_args priority minPriority attempts step"
  shows "real_of_int minPriority - step - (real_of_int (\<bar>priority\<bar> + (priority - minPriority)) + step + 1) / 2 ^ 50
           \<le> getScore priority minPriority attempts step"
    "getScore priority minPriority attempts step \<le> real_of_int priority"
proof -
  define gap where "gap = real_of_int (priority - minPriority)"
  define r where "r = real_of_int (attempts mod score_count priority minPriority step)"
  define p where "p = fl64 (r * step)"
  have a: "0 < step" "0 \<le> gap" "\<bar>priority\<bar> < 2 ^ 53" using A by (auto simp: score_args_def gap_def)
  note c = getScore_eq [OF A]
  have s: "getScore priority minPriority attempts step = fl64 (real_of_int priority - p)" unfolding c(3) p_def r_def ..
  have r0: "0 \<le> r" using c(1) by (simp add: r_def)
  have p0: "0 \<le> p" using fl64_ge_int [of 0 "r * step"] r0 a(1) by (simp add: p_def)
  then show "getScore priority minPriority attempts step \<le> real_of_int priority" unfolding s using a(3) by (intro fl64_le_int) auto
  have "attempts mod score_count priority minPriority step \<le> \<lfloor>fl64 (gap / step)\<rfloor> + 1"
    using c(1) pos_mod_bound [of "score_count priority minPriority step" attempts] unfolding score_count_def gap_def by linarith
  then have "r \<le> fl64 (gap / step) + 1" unfolding r_def using of_int_floor_le [of "fl64 (gap / step)"] by linarith
  also have "\<dots> \<le> gap / step + gap / step / 2 ^ 53 + 1 / 2 ^ 100 + 1"
    using fl64_error [of "gap / step"] a by (simp add: abs_le_iff)
  finally have "r * step \<le> (gap / step + gap / step / 2 ^ 53 + 1 / 2 ^ 100 + 1) * step" using a(1) by (intro mult_right_mono) auto
  also have "\<dots> = gap + gap / 2 ^ 53 + step / 2 ^ 100 + step" using a(1) by (simp add: field_simps)
  finally have rs: "r * step \<le> gap + gap / 2 ^ 53 + step / 2 ^ 100 + step" .
  have "p \<le> r * step + r * step / 2 ^ 53 + 1 / 2 ^ 100" using fl64_error [of "r * step"] r0 a(1) by (simp add: p_def abs_le_iff)
  then have pb: "p \<le> gap + step + (gap + step) / 2 ^ 51 + 1 / 2 ^ 100" using rs a by (simp add: field_simps)
  have "real_of_int priority - p - (\<bar>real_of_int priority\<bar> + p) / 2 ^ 53 - 1 / 2 ^ 100 \<le> fl64 (real_of_int priority - p)"
  proof -
    have "\<bar>real_of_int priority - p\<bar> / 2 ^ 53 \<le> (\<bar>real_of_int priority\<bar> + p) / 2 ^ 53" using p0 by (intro divide_right_mono) auto
    then show ?thesis using fl64_error [of "real_of_int priority - p"] unfolding abs_le_iff by linarith
  qed
  moreover have "real_of_int minPriority = real_of_int priority - gap" by (simp add: gap_def)
  ultimately show "real_of_int minPriority - step - (real_of_int (\<bar>priority\<bar> + (priority - minPriority)) + step + 1) / 2 ^ 50
           \<le> getScore priority minPriority attempts step"
    unfolding s using pb a by (simp add: gap_def [symmetric] field_simps)
qed

lemma getScore_integral:
  assumes A: "score_args priority minPriority attempts (real_of_int k)" and k: "k < 2 ^ 20"
  shows "getScore priority minPriority attempts (real_of_int k) =
    real_of_int (priority - attempts mod ((priority - minPriority) div k + 2) * k)"
proof -
  define gap where "gap = priority - minPriority"
  define n where "n = gap div k"
  have a: "0 < k" "0 \<le> gap" "gap \<le> 2 ^ 32" "\<bar>priority\<bar> \<le> 2 ^ 31" using A by (auto simp: score_args_def gap_def)
  have n: "n * k \<le> gap" "gap \<le> n * k + (k - 1)" "0 \<le> n"
    using a(1,2) div_mult_mod_eq [of gap k] pos_mod_bound [of k gap] pos_mod_sign [of k gap] pos_imp_zdiv_nonneg_iff [of k gap]
    unfolding n_def by linarith+
  have "real_of_int (n * k) \<le> real_of_int gap" "real_of_int gap \<le> real_of_int (n * k + (k - 1))" using n(1,2) by (simp_all only: of_int_le_iff)
  then have lo: "real_of_int n \<le> real_of_int gap / real_of_int k" and hi: "real_of_int gap / real_of_int k \<le> real_of_int n + 1 - 1 / real_of_int k"
    using a(1) by (simp_all add: field_simps)
  have "n \<le> gap" using n a(1) by (smt (verit) mult_left_mono mult_cancel_left1)
  then have nb: "\<bar>n\<bar> < 2 ^ 53" using n(3) a(3) by simp
  have ge: "real_of_int n \<le> fl64 (real_of_int gap / real_of_int k)" using fl64_ge_int [OF lo nb] .
  have gk: "0 \<le> real_of_int gap / real_of_int k" "real_of_int gap / real_of_int k \<le> 2 ^ 32"
  proof -
    show "0 \<le> real_of_int gap / real_of_int k" using a(1,2) by simp
    have "real_of_int gap \<le> real_of_int (2 ^ 32)" using a(3) by (simp only: of_int_le_iff)
    then have "real_of_int gap * 1 \<le> 2 ^ 32 * real_of_int k" using a(1) by (intro mult_mono) auto
    then show "real_of_int gap / real_of_int k \<le> 2 ^ 32" using a(1) by (simp add: field_simps)
  qed
  have "1 / 2 ^ 20 < 1 / real_of_int k"
  proof -
    have "real_of_int k < real_of_int (2 ^ 20)" using k by (simp only: of_int_less_iff)
    then show ?thesis using a(1) by (simp add: field_simps)
  qed
  then have "fl64 (real_of_int gap / real_of_int k) < real_of_int n + 1"
  proof -
    have "x / 2 ^ 53 + 1 / 2 ^ 100 < 1 / 2 ^ 20" if "x \<le> 2 ^ 32" for x :: real using that by simp
    note e = this [OF gk(2)]
    show ?thesis using e fl64_error [of "real_of_int gap / real_of_int k"] hi \<open>1 / 2 ^ 20 < 1 / real_of_int k\<close>
      unfolding abs_of_nonneg [OF gk(1)] abs_le_iff by linarith
  qed
  then have fl: "\<lfloor>fl64 (real_of_int gap / real_of_int k)\<rfloor> = n" using ge by (intro floor_unique) auto
  then have c: "score_count priority minPriority (real_of_int k) = n + 2" by (simp add: score_count_def gap_def)
  define r where "r = attempts mod (n + 2)"
  have r: "0 \<le> r" "r \<le> n + 1" using n(3) pos_mod_bound [of "n + 2" attempts] pos_mod_sign [of "n + 2" attempts] unfolding r_def by linarith+
  have "r * k \<le> (n + 1) * k" using r(2) a(1) by (intro mult_right_mono) auto
  then have rk: "0 \<le> r * k" "r * k \<le> 2 ^ 33" using n(1) a r(1) k by (simp_all add: algebra_simps)
  have "fl64 (real_of_int r * real_of_int k) = real_of_int (r * k)" using rk fl64_int [of "r * k"] by simp
  moreover have "fl64 (real_of_int (priority - r * k)) = real_of_int (priority - r * k)" using rk a(4) by (intro fl64_int) simp
  ultimately show ?thesis using getScore_eq(3) [OF A] unfolding c r_def [symmetric] gap_def [symmetric] n_def [symmetric] by simp
qed

subsection \<open>Waiting pods\<close>

record waitingPods =
  wp_unitKey :: key
  wp_pods :: "string \<rightharpoonup> QueuedPodInfo"

definition waitingPods_GetPods :: "(key set \<Rightarrow> key list) \<Rightarrow> waitingPods \<Rightarrow> QueuedPodInfo list" where
  "waitingPods_GetPods ord w = List.map_filter (wp_pods w) (ord (dom (wp_pods w)))"

definition waitingPods_NumPods :: "waitingPods \<Rightarrow> nat" where
  "waitingPods_NumPods w = card (dom (wp_pods w))"

text \<open>The outer \<open>None\<close> is a panic (a pod info without a pod), \<open>Some None\<close> the nil result. The loop adds
  the pods in the order \<^verbatim>\<open>range\<close> picks.\<close>

definition transferToPodGroupUnit ::
  "pc_lister \<Rightarrow> pg_lister \<Rightarrow> time \<Rightarrow> (key set \<Rightarrow> key list) \<Rightarrow> waitingPods \<Rightarrow> QueuedUnitInfo option option" where
  "transferToPodGroupUnit pcLister pgLister now ord w =
     (case waitingPods_GetPods ord w of
        [] \<Rightarrow> Some None
      | randomPodInfo # _ \<Rightarrow>
          (case qpi_Pod randomPodInfo of
             None \<Rightarrow> None
           | Some p \<Rightarrow>
               (case CreateScheduleUnit pcLister pgLister now p of
                  Inl _ \<Rightarrow> Some None
                | Inr u \<Rightarrow>
                    let u' = fold (\<lambda>i u. fst (unit_AddPod u i)) (waitingPods_GetPods ord w) u in
                    Some (Some (NewQueuedUnitInfo (unit_GetKey u') u' now)))))"

definition waitingPodsKeyFunc :: "waitingPods keyFunc" where
  "waitingPodsKeyFunc = (\<lambda>w. Inr (wp_unitKey w))"

definition alwaysFalse :: "'a lessFunc" where
  "alwaysFalse = (\<lambda>_ _. False)"

type_synonym wp_list = "waitingPods data"

definition removeExistedOrCreateWaitingPods :: "wp_list \<Rightarrow> pod \<Rightarrow> (wp_list \<times> waitingPods) option" where
  "removeExistedOrCreateWaitingPods w p =
     (let unitKey = GetUnitIdentifier p in
      case Heap_GetByKey w unitKey of
        Some obj \<Rightarrow> do { (w', _) \<leftarrow> Heap_DeleteByKey alwaysFalse w unitKey; Some (w', obj) }
      | None \<Rightarrow> Some (w, \<lparr>wp_unitKey = unitKey, wp_pods = Map.empty\<rparr>))"

definition waitingPodsList_Add :: "time \<Rightarrow> wp_list \<Rightarrow> pod \<Rightarrow> (waitingPods, unit) heap_result" where
  "waitingPodsList_Add now w p =
     do { (w', wp) \<leftarrow> removeExistedOrCreateWaitingPods w p;
          Heap_Add waitingPodsKeyFunc alwaysFalse w'
            (wp\<lparr>wp_pods := (wp_pods wp)(pod_UID p \<mapsto> newQueuedPodInfo now p)\<rparr>) }"

definition waitingPodsList_Update ::
  "time \<Rightarrow> wp_list \<Rightarrow> pod \<Rightarrow> pod \<Rightarrow> (waitingPods, unit) heap_result" where
  "waitingPodsList_Update now w oldPod newPod =
     do { (w', wp) \<leftarrow> removeExistedOrCreateWaitingPods w newPod;
          pods \<leftarrow> (case wp_pods wp (pod_UID oldPod) of
                     Some oldPodInfo \<Rightarrow>
                       do { q \<leftarrow> qpi_Pod oldPodInfo;
                            Some ((wp_pods wp)(pod_UID q := None, pod_UID newPod \<mapsto> updatePodInfo oldPodInfo newPod)) }
                   | None \<Rightarrow> Some ((wp_pods wp)(pod_UID newPod \<mapsto> newQueuedPodInfo now newPod)));
          Heap_Add waitingPodsKeyFunc alwaysFalse w' (wp\<lparr>wp_pods := pods\<rparr>) }"

definition waitingPodsList_Delete :: "wp_list \<Rightarrow> pod \<Rightarrow> (waitingPods, unit) heap_result" where
  "waitingPodsList_Delete w p =
     do { (w', wp) \<leftarrow> removeExistedOrCreateWaitingPods w p;
          let wp' = wp\<lparr>wp_pods := (wp_pods wp)(pod_UID p := None)\<rparr>;
          if card (dom (wp_pods wp')) > 0 then Heap_Add waitingPodsKeyFunc alwaysFalse w' wp'
          else Some (w', Inr ()) }"

text \<open>The waiting pods of a well-formed list: each entry holds at least one pod, each pod under its own
  UID, all of the unit the entry is for, and that unit is a pod group (a single pod never waits).\<close>

definition wp_ok :: "waitingPods \<Rightarrow> bool" where
  "wp_ok w \<longleftrightarrow>
     finite (dom (wp_pods w)) \<and> wp_pods w \<noteq> Map.empty \<and>
     (\<forall>uid i. wp_pods w uid = Some i \<longrightarrow>
        (\<exists>p. qpi_Pod i = Some p \<and> pod_UID p = uid \<and> GetUnitIdentifier p = wp_unitKey w \<and>
             GetPodGroupName p \<noteq> []))"

definition wpl_ok :: "wp_list \<Rightarrow> bool" where
  "wpl_ok w \<longleftrightarrow>
     data_wf w \<and> (\<forall>k wp. Heap_GetByKey w k = Some wp \<longrightarrow> wp_unitKey wp = k \<and> wp_ok wp)"

lemma wpl_ok_New [simp]: "wpl_ok New"
  by (simp add: wpl_ok_def)

lemma wpl_ok_delete:
  "wpl_ok w \<Longrightarrow> wpl_ok (heap_del alwaysFalse w k)"
  by (auto simp: wpl_ok_def split: if_splits)

lemma wpl_ok_put:
  "wpl_ok w \<Longrightarrow> wp_ok wp \<Longrightarrow> wpl_ok (heap_add (\<lambda>x. Inr (wp_unitKey x)) alwaysFalse w wp)"
  by (auto simp: wpl_ok_def split: if_splits)

text \<open>The entry the list operations work on: the stored one, taken out, or a new one.\<close>

definition wpl_entry :: "wp_list \<Rightarrow> key \<Rightarrow> waitingPods" where
  "wpl_entry w k =
     (case Heap_GetByKey w k of None \<Rightarrow> \<lparr>wp_unitKey = k, wp_pods = Map.empty\<rparr> | Some wp \<Rightarrow> wp)"

lemma removeExisted_spec:
  assumes "wpl_ok w"
  shows "\<exists>w'. removeExistedOrCreateWaitingPods w p = Some (w', wpl_entry w (GetUnitIdentifier p)) \<and>
              wpl_ok w' \<and> Heap_GetByKey w' = (Heap_GetByKey w)(GetUnitIdentifier p := None)"
proof (cases "Heap_GetByKey w (GetUnitIdentifier p)")
  case None
  then show ?thesis using assms
    by (auto simp: removeExistedOrCreateWaitingPods_def wpl_entry_def)
next
  case (Some wp)
  have "data_wf w" using assms by (simp add: wpl_ok_def)
  then show ?thesis using Some assms
    by (auto simp: removeExistedOrCreateWaitingPods_def wpl_entry_def wpl_ok_delete)
qed

lemma wpl_entry_pods:
  assumes "wpl_ok w" "wp_pods (wpl_entry w k) uid = Some i"
  shows "\<exists>p. qpi_Pod i = Some p \<and> pod_UID p = uid \<and> GetUnitIdentifier p = k \<and> GetPodGroupName p \<noteq> []"
proof (cases "Heap_GetByKey w k")
  case (Some wp)
  then have "wp_ok wp" "wp_unitKey wp = k" "wp_pods wp uid = Some i"
    using assms by (auto simp: wpl_ok_def wpl_entry_def)
  then show ?thesis unfolding wp_ok_def by blast
qed (use assms in \<open>simp add: wpl_entry_def\<close>)

lemma wpl_entry_basic:
  assumes "wpl_ok w"
  shows "finite (dom (wp_pods (wpl_entry w k)))" "wp_unitKey (wpl_entry w k) = k"
  using assms by (auto simp: wpl_ok_def wp_ok_def wpl_entry_def split: option.splits)

lemma waitingPodsList_Add_spec:
  assumes "wpl_ok w" "GetPodGroupName p \<noteq> []"
  defines "k \<equiv> GetUnitIdentifier p"
  shows "\<exists>w'. waitingPodsList_Add now w p = Some (w', Inr ()) \<and> wpl_ok w' \<and>
              Heap_GetByKey w' = (Heap_GetByKey w)
                (k \<mapsto> \<lparr>wp_unitKey = k,
                       wp_pods = (wp_pods (wpl_entry w k))(pod_UID p \<mapsto> newQueuedPodInfo now p)\<rparr>)"
proof -
  obtain w' where w': "removeExistedOrCreateWaitingPods w p = Some (w', wpl_entry w k)" "wpl_ok w'"
    "Heap_GetByKey w' = (Heap_GetByKey w)(k := None)"
    using removeExisted_spec [OF assms(1), of p] by (auto simp: k_def)
  let ?wp = "\<lparr>wp_unitKey = k, wp_pods = (wp_pods (wpl_entry w k))(pod_UID p \<mapsto> newQueuedPodInfo now p)\<rparr>"
  have eq: "(wpl_entry w k)\<lparr>wp_pods := (wp_pods (wpl_entry w k))(pod_UID p \<mapsto> newQueuedPodInfo now p)\<rparr> = ?wp"
    using wpl_entry_basic(2) [OF assms(1), of k] by (cases "wpl_entry w k") simp
  have "wp_ok ?wp"
    using wpl_entry_pods [OF assms(1), of k] wpl_entry_basic(1) [OF assms(1), of k] assms(2)
    by (auto simp: wp_ok_def newQueuedPodInfo_def k_def split: if_splits)
  then have "wpl_ok (heap_add (\<lambda>x. Inr (wp_unitKey x)) alwaysFalse w' ?wp)"
    by (rule wpl_ok_put [OF w'(2)])
  moreover have "data_wf w'" using w'(2) by (simp add: wpl_ok_def)
  ultimately show ?thesis
    using w' by (simp add: waitingPodsList_Add_def waitingPodsKeyFunc_def eq)
qed

lemma waitingPodsList_Update_spec:
  assumes "wpl_ok w" "GetPodGroupName newPod \<noteq> []"
  defines "k \<equiv> GetUnitIdentifier newPod"
  shows "\<exists>w' wp. waitingPodsList_Update now w oldPod newPod = Some (w', Inr ()) \<and> wpl_ok w' \<and>
              Heap_GetByKey w' = (Heap_GetByKey w)(k \<mapsto> wp) \<and>
              map_option qpi_Pod (wp_pods wp (pod_UID newPod)) = Some (Some newPod)"
proof -
  obtain w' where w': "removeExistedOrCreateWaitingPods w newPod = Some (w', wpl_entry w k)" "wpl_ok w'"
    "Heap_GetByKey w' = (Heap_GetByKey w)(k := None)"
    using removeExisted_spec [OF assms(1), of newPod] by (auto simp: k_def)
  let ?m = "wp_pods (wpl_entry w k)"
  define m where "m = (case ?m (pod_UID oldPod) of
      Some i \<Rightarrow> ?m(pod_UID oldPod := None, pod_UID newPod \<mapsto> updatePodInfo i newPod)
    | None \<Rightarrow> ?m(pod_UID newPod \<mapsto> newQueuedPodInfo now newPod))"
  let ?wp = "\<lparr>wp_unitKey = k, wp_pods = m\<rparr>"
  have eq: "(wpl_entry w k)\<lparr>wp_pods := m\<rparr> = ?wp"
    using wpl_entry_basic(2) [OF assms(1), of k] by (cases "wpl_entry w k") simp
  have step: "waitingPodsList_Update now w oldPod newPod = Heap_Add waitingPodsKeyFunc alwaysFalse w' ?wp"
    using w'(1) wpl_entry_pods [OF assms(1), of k "pod_UID oldPod"] eq
    by (auto simp: waitingPodsList_Update_def m_def split: option.splits)
  have "wp_ok ?wp"
    using wpl_entry_pods [OF assms(1), of k] wpl_entry_basic(1) [OF assms(1), of k] assms(2)
    by (auto simp: wp_ok_def m_def newQueuedPodInfo_def updatePodInfo_def k_def
        split: if_splits option.splits)
  then have "wpl_ok (heap_add (\<lambda>x. Inr (wp_unitKey x)) alwaysFalse w' ?wp)"
    by (rule wpl_ok_put [OF w'(2)])
  moreover have "data_wf w'" using w'(2) by (simp add: wpl_ok_def)
  moreover have "map_option qpi_Pod (wp_pods ?wp (pod_UID newPod)) = Some (Some newPod)"
    by (auto simp: m_def newQueuedPodInfo_def updatePodInfo_def split: option.splits)
  ultimately show ?thesis
    using w' step by (auto simp: waitingPodsKeyFunc_def)
qed

lemma waitingPodsList_Delete_spec:
  fixes p :: pod
  assumes "wpl_ok w"
  defines "k \<equiv> GetUnitIdentifier p"
  shows "\<exists>w'. waitingPodsList_Delete w p = Some (w', Inr ()) \<and> wpl_ok w' \<and>
              dom (Heap_GetByKey w') \<subseteq> dom (Heap_GetByKey w) \<and>
              wp_pods (wpl_entry w' k) = (wp_pods (wpl_entry w k))(pod_UID p := None)"
proof -
  obtain w' where w': "removeExistedOrCreateWaitingPods w p = Some (w', wpl_entry w k)" "wpl_ok w'"
    "Heap_GetByKey w' = (Heap_GetByKey w)(k := None)"
    using removeExisted_spec [OF assms(1), of p] by (auto simp: k_def)
  let ?m = "(wp_pods (wpl_entry w k))(pod_UID p := None)"
  let ?wp = "\<lparr>wp_unitKey = k, wp_pods = ?m\<rparr>"
  have eq: "(wpl_entry w k)\<lparr>wp_pods := ?m\<rparr> = ?wp"
    using wpl_entry_basic(2) [OF assms(1), of k] by (cases "wpl_entry w k") simp
  have wf: "data_wf w'" using w'(2) by (simp add: wpl_ok_def)
  have fin: "finite (dom ?m)" using wpl_entry_basic(1) [OF assms(1), of k] by simp
  have del: "waitingPodsList_Delete w p =
      (if card (dom ?m) > 0 then Heap_Add waitingPodsKeyFunc alwaysFalse w' ?wp else Some (w', Inr ()))"
    using eq by (simp add: waitingPodsList_Delete_def w'(1))
  show ?thesis
  proof (cases "?m = Map.empty")
    case True
    then have "waitingPodsList_Delete w p = Some (w', Inr ())" using del by (simp add: True)
    moreover have "wp_pods (wpl_entry w' k) = Map.empty" by (simp add: wpl_entry_def w'(3))
    ultimately show ?thesis using w' True by auto
  next
    case False
    then have "k \<in> dom (Heap_GetByKey w)" by (auto simp: wpl_entry_def split: option.splits)
    moreover have "card (dom ?m) > 0"
      unfolding card_gt_0_iff using False fin by (metis dom_eq_empty_conv)
    moreover have "wp_ok ?wp"
      using wpl_entry_pods [OF assms(1), of k] fin False by (auto simp: wp_ok_def split: if_splits)
    then have "wpl_ok (heap_add (\<lambda>x. Inr (wp_unitKey x)) alwaysFalse w' ?wp)"
      by (rule wpl_ok_put [OF w'(2)])
    moreover have "wp_pods (wpl_entry (heap_add (\<lambda>x. Inr (wp_unitKey x)) alwaysFalse w' ?wp) k) = ?m"
      using wf by (simp add: wpl_entry_def)
    ultimately show ?thesis
      using w' wf del by (auto simp: waitingPodsKeyFunc_def)
  qed
qed

text \<open>The units a queue may hold: no dangling entry, at least one pod, the pod group present.\<close>

definition unit_good :: "ScheduleUnitType set \<Rightarrow> ScheduleUnit \<Rightarrow> bool" where
  "unit_good t u \<longleftrightarrow> unit_ok u \<and> 0 < unit_NumPods u \<and> unit_complete u \<and> unit_Type u \<in> t"

text \<open>The kind of unit a pod is put into.\<close>

definition pod_kind :: "pod \<Rightarrow> ScheduleUnitType" where
  "pod_kind q = (if GetPodGroupName q = [] then SinglePodUnitType else PodGroupUnitType)"

lemma unit_complete_AddPod:
  "unit_complete u \<or> unit_Type u = SinglePodUnitType \<Longrightarrow> qpi_Pod i = Some p \<Longrightarrow>
   unit_complete (fst (unit_AddPod u i))"
  by (cases u) (auto simp: unit_defs)

lemma unit_good_AddPod:
  assumes "unit_ok u" "unit_complete u \<or> unit_Type u = SinglePodUnitType" "qpi_Pod i = Some p" "unit_Type u \<in> t"
  shows "unit_good t (fst (unit_AddPod u i))"
  using assms uh.add_ok [OF assms(1,3)] uh.add_num [OF assms(1,3)] unit_complete_AddPod
  by (auto simp: unit_good_def)

lemma dom_fold_upd:
  fixes g :: "QueuedPodInfo \<Rightarrow> (string \<rightharpoonup> QueuedPodInfo) \<Rightarrow> (string \<rightharpoonup> QueuedPodInfo)"
  assumes "finite (dom m)" "\<And>uid i. m uid = Some i \<Longrightarrow> map_option pod_UID (qpi_Pod i) = Some uid"
    "\<And>i m. g i m = m \<or> (\<exists>q. qpi_Pod i = Some q \<and> g i m = m(pod_UID q \<mapsto> i))"
  shows "finite (dom (fold g is m)) \<and> dom m \<subseteq> dom (fold g is m) \<and>
     (\<forall>uid i. fold g is m uid = Some i \<longrightarrow> map_option pod_UID (qpi_Pod i) = Some uid)"
  using assms(1,2)
proof (induction "is" arbitrary: m)
  case (Cons i "is")
  from assms(3) [of i m] show ?case
  proof (elim disjE exE conjE)
    assume "g i m = m"
    then show ?thesis using Cons by simp
  next
    fix q assume q: "qpi_Pod i = Some q" "g i m = m(pod_UID q \<mapsto> i)"
    have "finite (dom (g i m))" "\<And>uid j. g i m uid = Some j \<Longrightarrow> map_option pod_UID (qpi_Pod j) = Some uid"
      "dom m \<subseteq> dom (g i m)"
      using Cons.prems q by (auto split: if_splits)
    then show ?thesis using Cons.IH [of "g i m"] by (simp add: subset_trans)
  qed
qed auto

lemma unit_good_group:
  assumes "unit_good t (PodGroupU p)" "finite (dom m)" "dom (pgu_queuedPodInfoMap p) \<subseteq> dom m"
    "\<forall>uid i. m uid = Some i \<longrightarrow> map_option pod_UID (qpi_Pod i) = Some uid"
  shows "unit_good t (PodGroupU (p\<lparr>pgu_queuedPodInfoMap := m\<rparr>))"
  using assms by (auto simp: unit_good_def PodGroupUnit_NumPods_def card_gt_0_iff)

lemma unit_good_AddPods:
  assumes "unit_good t u"
  shows "unit_good t (fst (unit_AddPods u is)) \<and> unit_good t (fst (unit_AddPodsIfNotPresent u is))"
proof (cases u)
  case (PodGroupU p)
  have fin: "finite (dom (pgu_queuedPodInfoMap p))"
    "\<And>uid i. pgu_queuedPodInfoMap p uid = Some i \<Longrightarrow> map_option pod_UID (qpi_Pod i) = Some uid"
    using assms PodGroupU by (auto simp: unit_good_def)
  note d = dom_fold_upd [OF fin]
  show ?thesis
    using unit_good_group [of t p] assms PodGroupU
      d [of "\<lambda>info m. case qpi_Pod info of None \<Rightarrow> m | Some q \<Rightarrow> m(pod_UID q \<mapsto> info)" "is"]
      d [of "\<lambda>info m. case qpi_Pod info of None \<Rightarrow> m
          | Some q \<Rightarrow> if m (pod_UID q) = None then m(pod_UID q \<mapsto> info) else m" "is"]
    by (simp add: PodGroupUnit_AddPods_def PodGroupUnit_AddPodsIfNotPresent_def split: option.split)
next
  case (SinglePodU s)
  then show ?thesis
    using assms by (simp add: SinglePodUnit_AddPods_def SinglePodUnit_AddPodsIfNotPresent_def)
qed

lemma unit_good_DeletePod:
  assumes "unit_good t u" "unit_NumPods (fst (unit_DeletePod u i)) \<noteq> 0"
  shows "unit_good t (fst (unit_DeletePod u i))"
proof -
  have "unit_complete (fst (unit_DeletePod u i))"
  proof (cases u)
    case (PodGroupU p)
    then show ?thesis
      using assms(1) by (auto simp: unit_good_def PodGroupUnit_DeletePod_def split: option.splits)
  next
    case (SinglePodU s)
    then show ?thesis
      using assms by (auto simp: unit_good_def unit_defs split: option.splits if_splits)
  qed
  then show ?thesis using assms uh.del_ok [of u i] by (simp add: unit_good_def)
qed

lemma unit_good_cases:
  "unit_good t u \<Longrightarrow> unit_ok u \<and> (unit_complete u \<or> unit_Type u = SinglePodUnitType) \<and> unit_Type u \<in> t"
  by (simp add: unit_good_def)

lemma unit_complete_DeletePod:
  "unit_complete u \<or> unit_Type u = SinglePodUnitType \<Longrightarrow>
   unit_complete (fst (unit_DeletePod u i)) \<or> unit_Type (fst (unit_DeletePod u i)) = SinglePodUnitType"
  by (cases u) (auto simp: unit_defs split: option.splits)

text \<open>A single-pod unit and a group unit never share an identifier.\<close>

lemma identifier_kind:
  "GetUnitIdentifier p = GetUnitIdentifier q \<Longrightarrow> GetPodGroupName p = [] \<longleftrightarrow> GetPodGroupName q = []"
  by (auto simp: GetUnitIdentifier_def Let_def split: if_splits)

lemma CreateScheduleUnit_kind:
  "CreateScheduleUnit pcLister pgLister now p = Inr u \<Longrightarrow> unit_Type u = pod_kind p"
  by (auto simp: CreateScheduleUnit_def pod_kind_def split: if_splits option.splits)

lemma CreateScheduleUnit_complete:
  "CreateScheduleUnit pcLister pgLister now p = Inr u \<Longrightarrow>
   unit_complete u \<or> unit_Type u = SinglePodUnitType"
  by (auto simp: CreateScheduleUnit_def NewPodGroupUnit_def split: if_splits option.splits)

text \<open>Adding a list of pods to a group unit.\<close>

lemma fold_AddPod_group:
  assumes "\<forall>i\<in>set is. \<exists>q. qpi_Pod i = Some q \<and> m (pod_UID q) = Some i"
  shows "\<exists>p'. fold (\<lambda>i u. fst (unit_AddPod u i)) is (PodGroupU p) = PodGroupU p' \<and>
     pgu_key p' = pgu_key p \<and> pgu_podGroup p' = pgu_podGroup p \<and>
     pgu_queuedPodInfoMap p' =
       (\<lambda>uid. if uid \<in> (\<lambda>i. pod_UID (the (qpi_Pod i))) ` set is then m uid
              else pgu_queuedPodInfoMap p uid)"
  using assms
proof (induction "is" arbitrary: p)
  case (Cons i "is")
  then obtain q where q: "qpi_Pod i = Some q" "m (pod_UID q) = Some i" by auto
  let ?p = "p\<lparr>pgu_queuedPodInfoMap := (pgu_queuedPodInfoMap p)(pod_UID q \<mapsto> i)\<rparr>"
  have "fst (unit_AddPod (PodGroupU p) i) = PodGroupU ?p" using q by (simp add: PodGroupUnit_AddPod_def)
  then show ?case using Cons.IH [of ?p] Cons.prems q by (auto simp: fun_eq_iff)
qed auto

lemma waitingPods_GetPods_set:
  "ord_ok ord \<Longrightarrow> finite (dom (wp_pods w)) \<Longrightarrow> set (waitingPods_GetPods ord w) = ran (wp_pods w)"
  unfolding waitingPods_GetPods_def set_map_filter by (auto simp: ord_ok_def ran_def)

lemma created_group_unit:
  assumes "CreateScheduleUnit pcLister pgLister now p = Inr u" "lister_ok pgLister" "GetPodGroupName p \<noteq> []"
  shows "\<exists>g. u = PodGroupU g \<and> pgu_key g = GetUnitIdentifier p \<and> pgu_podGroup g \<noteq> None \<and>
             pgu_queuedPodInfoMap g = Map.empty"
  using assms
  by (auto simp: CreateScheduleUnit_def lister_ok_def NewPodGroupUnit_def keyForPodGroupUnit_def
      GetUnitIdentifier_def split: if_splits option.splits)

lemma transfer_spec:
  assumes w: "wp_ok w" and "lister_ok pgLister" "ord_ok ord" and grp: "PodGroupUnitType \<in> t"
  shows "\<exists>r. transferToPodGroupUnit pcLister pgLister now ord w = Some r \<and>
     (\<forall>u. r = Some u \<longrightarrow> qui_UnitKey u = wp_unitKey w \<and> unit_good t (qui_ScheduleUnit u) \<and>
        unit_find (qui_ScheduleUnit u) = wp_pods w)"
proof -
  have fin: "finite (dom (wp_pods w))" and ne: "wp_pods w \<noteq> Map.empty" using w by (auto simp: wp_ok_def)
  note gs = waitingPods_GetPods_set [OF assms(3) fin]
  have pods: "\<exists>q. qpi_Pod i = Some q \<and> wp_pods w (pod_UID q) = Some i \<and>
      GetUnitIdentifier q = wp_unitKey w \<and> GetPodGroupName q \<noteq> []"
    if "i \<in> set (waitingPods_GetPods ord w)" for i
  proof -
    from that have "i \<in> ran (wp_pods w)" by (simp only: gs)
    then obtain uid where "wp_pods w uid = Some i" by (auto simp: ran_def)
    then show ?thesis using w unfolding wp_ok_def by metis
  qed
  obtain i "is" where l: "waitingPods_GetPods ord w = i # is"
    using ne gs by (cases "waitingPods_GetPods ord w") (auto simp: ran_def fun_eq_iff)
  obtain q where q: "qpi_Pod i = Some q" "GetUnitIdentifier q = wp_unitKey w" "GetPodGroupName q \<noteq> []"
    using pods [of i] l by auto
  show ?thesis
  proof (cases "CreateScheduleUnit pcLister pgLister now q")
    case (Inl e)
    then show ?thesis using l q by (simp add: transferToPodGroupUnit_def)
  next
    case (Inr u)
    obtain g where g: "u = PodGroupU g" "pgu_key g = wp_unitKey w" "pgu_podGroup g \<noteq> None"
      "pgu_queuedPodInfoMap g = Map.empty"
      using created_group_unit [OF Inr assms(2) q(3)] q(2) by auto
    have "\<forall>i\<in>set (waitingPods_GetPods ord w). \<exists>q. qpi_Pod i = Some q \<and> wp_pods w (pod_UID q) = Some i"
      using pods by blast
    from fold_AddPod_group [OF this, of g] obtain g' where
      g': "fold (\<lambda>i u. fst (unit_AddPod u i)) (waitingPods_GetPods ord w) (PodGroupU g) = PodGroupU g'"
        "pgu_key g' = pgu_key g" "pgu_podGroup g' = pgu_podGroup g"
        "pgu_queuedPodInfoMap g' =
           (\<lambda>uid. if uid \<in> (\<lambda>i. pod_UID (the (qpi_Pod i))) ` ran (wp_pods w) then wp_pods w uid
                  else pgu_queuedPodInfoMap g uid)"
      unfolding gs by auto
    have "wp_pods w uid = None" if "uid \<notin> (\<lambda>i. pod_UID (the (qpi_Pod i))) ` ran (wp_pods w)" for uid
      using that w by (force simp: wp_ok_def ran_def image_iff)
    then have m: "pgu_queuedPodInfoMap g' = wp_pods w" using g' g(4) by (auto simp: fun_eq_iff)
    have "unit_good t (PodGroupU g')"
      using m w fin ne g g'(3) grp
      by (auto simp: unit_good_def wp_ok_def PodGroupUnit_NumPods_def card_gt_0_iff)
    then show ?thesis
      using Inr g g' l q m
      by (auto simp: transferToPodGroupUnit_def NewQueuedUnitInfo_def PodGroupUnit_GetKey_def Let_def)
  qed
qed

subsection \<open>The sub-queues of units\<close>

definition unitInfoKeyFunc :: "QueuedUnitInfo keyFunc" where
  "unitInfoKeyFunc = (\<lambda>u. Inr (qui_UnitKey u))"

text \<open>The family of sub-queues of a scheduling queue, by name, and the calls \<^verbatim>\<open>queue.Add\<close>,
  \<^verbatim>\<open>queue.Delete\<close> and \<^verbatim>\<open>queue.DeleteByKey\<close> on one of them; \<open>less\<close> gives each its comparison.\<close>

type_synonym 'n queues = "'n \<Rightarrow> QueuedUnitInfo data"
type_synonym 'n less_family = "'n \<Rightarrow> QueuedUnitInfo lessFunc"

definition q_Add ::
  "'n less_family \<Rightarrow> 'n queues \<Rightarrow> 'n \<Rightarrow> QueuedUnitInfo \<Rightarrow> ('n queues \<times> (heap_error + unit)) option" where
  "q_Add lessf qs n u =
     do { (h, r) \<leftarrow> Heap_Add unitInfoKeyFunc (lessf n) (qs n) u; Some (qs(n := h), r) }"

definition q_DeleteByKey ::
  "'n less_family \<Rightarrow> 'n queues \<Rightarrow> 'n \<Rightarrow> key \<Rightarrow> ('n queues \<times> (heap_error + unit)) option" where
  "q_DeleteByKey lessf qs n k =
     do { (h, r) \<leftarrow> Heap_DeleteByKey (lessf n) (qs n) k; Some (qs(n := h), r) }"

definition q_Delete ::
  "'n less_family \<Rightarrow> 'n queues \<Rightarrow> 'n \<Rightarrow> QueuedUnitInfo \<Rightarrow> ('n queues \<times> (heap_error + unit)) option" where
  "q_Delete lessf qs n u =
     do { (h, r) \<leftarrow> Heap_Delete unitInfoKeyFunc (lessf n) (qs n) u; Some (qs(n := h), r) }"

text \<open>The loop of \<^verbatim>\<open>findAndRemoveUnitFromQueue\<close> over the sub-queues in the given order.\<close>

fun find_and_remove ::
  "'n less_family \<Rightarrow> 'n queues \<Rightarrow> key \<Rightarrow> 'n list \<Rightarrow> ('n queues \<times> ('n \<times> QueuedUnitInfo) option) option" where
  "find_and_remove lessf qs k [] = Some (qs, None)"
| "find_and_remove lessf qs k (n # ns) =
     (case Heap_GetByKey (qs n) k of
        Some u \<Rightarrow> do { (qs', _) \<leftarrow> q_DeleteByKey lessf qs n k; Some (qs', Some (n, u)) }
      | None \<Rightarrow> find_and_remove lessf qs k ns)"

text \<open>The objects \<^verbatim>\<open>Process\<close> hands to its callback.\<close>

definition heap_objects :: "'a data \<Rightarrow> 'a list" where
  "heap_objects h = List.map_filter (\<lambda>(_, _, obj). obj) (Heap_Process h)"

text \<open>The invariant of a family: no key is in two sub-queues, each object is stored under its own key,
  each unit is good and of a kind in \<open>t\<close>, and each sub-queue whose comparison is a strict weak order on such units is a heap for it.\<close>

abbreviation contents :: "'n queues \<Rightarrow> 'n \<Rightarrow> key \<rightharpoonup> QueuedUnitInfo" where
  "contents qs n \<equiv> Heap_GetByKey (qs n)"

abbreviation in_queues :: "'n queues \<Rightarrow> key \<Rightarrow> bool" where
  "in_queues qs k \<equiv> sq.stored qs k"

definition good_units :: "ScheduleUnitType set \<Rightarrow> QueuedUnitInfo set" where
  "good_units t = {u. unit_good t (qui_ScheduleUnit u)}"

definition family_inv :: "ScheduleUnitType set \<Rightarrow> 'n less_family \<Rightarrow> 'n queues \<Rightarrow> bool" where
  "family_inv t lessf qs \<longleftrightarrow>
     sq.exclusive qui_UnitKey qs \<and>
     (\<forall>n. strict_weak_on (good_units t) (lessf n) \<longrightarrow> heap_ok (lessf n) (qs n)) \<and>
     (\<forall>n k u. contents qs n k = Some u \<longrightarrow> unit_good t (qui_ScheduleUnit u))"

lemma family_units: "family_inv t lessf qs \<Longrightarrow> ran (contents qs n) \<subseteq> good_units t"
  by (auto simp: family_inv_def good_units_def ran_def)

lemma family_wf: "family_inv t lessf qs \<Longrightarrow> data_wf (qs n)"
  by (simp add: family_inv_def sq.exclusive_def)

lemma family_key: "family_inv t lessf qs \<Longrightarrow> contents qs n k = Some u \<Longrightarrow> qui_UnitKey u = k"
  by (simp add: family_inv_def sq.exclusive_def)

lemma family_good:
  "family_inv t lessf qs \<Longrightarrow> contents qs n k = Some u \<Longrightarrow> unit_good t (qui_ScheduleUnit u)"
  by (auto simp: family_inv_def)

lemma family_unique:
  "family_inv t lessf qs \<Longrightarrow> contents qs n k = Some u \<Longrightarrow> contents qs m k = Some v \<Longrightarrow> n = m"
  unfolding family_inv_def sq.exclusive_def by blast

lemma family_New: "family_inv t lessf (\<lambda>_. New)"
  by (simp add: family_inv_def sq.exclusive_def)

lemma q_Add_spec:
  assumes "family_inv t lessf qs" "unit_good t (qui_ScheduleUnit u)"
    "\<And>m. m \<noteq> n \<Longrightarrow> qui_UnitKey u \<notin> dom (contents qs m)"
  shows "\<exists>qs'. q_Add lessf qs n u = Some (qs', Inr ()) \<and> family_inv t lessf qs' \<and>
               (\<forall>m j. contents qs' m j =
                  (if m = n \<and> j = qui_UnitKey u then Some u else contents qs m j))"
proof -
  note wf = family_wf [OF assms(1), of n]
  let ?h = "heap_add (\<lambda>x. Inr (qui_UnitKey x)) (lessf n) (qs n) u"
  have "sq.exclusive qui_UnitKey (qs(n := ?h))"
    using assms by (intro sq.exclusive_add) (auto simp: family_inv_def)
  moreover have "heap_ok (lessf n) ?h" if "strict_weak_on (good_units t) (lessf n)"
  proof (intro heap_add_ok wf)
    show "heap_ok (lessf n) (qs n)" using assms(1) that by (simp add: family_inv_def)
    show "strict_weak_on (insert u (ran (contents qs n))) (lessf n)"
      using family_units [OF assms(1), of n] assms(2) by (intro strict_weak_mono [OF that]) (simp add: good_units_def)
  qed
  ultimately have "family_inv t lessf (qs(n := ?h))"
    using assms wf by (auto simp: family_inv_def split: if_splits)
  moreover have "q_Add lessf qs n u = Some (qs(n := ?h), Inr ())"
    using wf by (simp add: q_Add_def unitInfoKeyFunc_def)
  moreover have "contents (qs(n := ?h)) m j =
      (if m = n \<and> j = qui_UnitKey u then Some u else contents qs m j)" for m j
    using wf by simp
  ultimately show ?thesis by blast
qed

lemma q_Add_new_spec:
  assumes "family_inv t lessf qs" "unit_good t (qui_ScheduleUnit u)"
    "\<not> in_queues qs (qui_UnitKey u)"
  shows "\<exists>qs'. q_Add lessf qs n u = Some (qs', Inr ()) \<and> family_inv t lessf qs' \<and>
               (\<forall>m j. contents qs' m j =
                  (if m = n \<and> j = qui_UnitKey u then Some u else contents qs m j))"
  using assms by (intro q_Add_spec) (auto simp: sq.stored_def)

lemma q_DeleteByKey_spec:
  assumes "family_inv t lessf qs"
  shows "\<exists>qs' r. q_DeleteByKey lessf qs n k = Some (qs', r) \<and> family_inv t lessf qs' \<and>
               (\<forall>m j. contents qs' m j = (if m = n \<and> j = k then None else contents qs m j))"
proof -
  note wf = family_wf [OF assms(1), of n]
  let ?h = "heap_del (lessf n) (qs n) k"
  have "sq.exclusive qui_UnitKey (qs(n := ?h))"
    using assms by (intro sq.exclusive_del) (auto simp: family_inv_def)
  moreover have "heap_ok (lessf n) ?h" if "strict_weak_on (good_units t) (lessf n)"
    using assms that by (intro heap_del_ok wf strict_weak_mono [OF that family_units [OF assms(1)]]) (simp add: family_inv_def)
  ultimately have "family_inv t lessf (qs(n := ?h))"
    using assms wf by (auto simp: family_inv_def split: if_splits)
  moreover have "contents (qs(n := ?h)) m j = (if m = n \<and> j = k then None else contents qs m j)" for m j
    using wf by simp
  moreover have "\<exists>r. q_DeleteByKey lessf qs n k = Some (qs(n := ?h), r)"
    using wf by (simp add: q_DeleteByKey_def)
  ultimately show ?thesis by blast
qed

lemma q_Delete_eq: "q_Delete lessf qs n u = q_DeleteByKey lessf qs n (qui_UnitKey u)"
  by (simp add: q_Delete_def q_DeleteByKey_def Heap_Delete_def unitInfoKeyFunc_def)

lemma in_queues_iff: "in_queues qs k \<longleftrightarrow> (\<exists>n u. contents qs n k = Some u)"
  by (auto simp: sq.stored_def)

lemma not_in_queues: "\<not> in_queues qs k \<longleftrightarrow> (\<forall>n. contents qs n k = None)"
  by (auto simp: sq.stored_def)

lemma find_and_remove_spec:
  assumes "family_inv t lessf qs"
  shows "\<exists>qs' r. find_and_remove lessf qs k ns = Some (qs', r) \<and> family_inv t lessf qs' \<and>
     (case r of
        None \<Rightarrow> qs' = qs \<and> (\<forall>n\<in>set ns. contents qs n k = None)
      | Some (n, u) \<Rightarrow>
          n \<in> set ns \<and> contents qs n k = Some u \<and> qui_UnitKey u = k \<and> unit_good t (qui_ScheduleUnit u) \<and>
          \<not> in_queues qs' k \<and> (\<forall>m j. contents qs' m j = (if m = n \<and> j = k then None else contents qs m j)))"
  using assms
proof (induction ns)
  case (Cons n ns)
  show ?case
  proof (cases "contents qs n k")
    case None
    then have eq: "find_and_remove lessf qs k (n # ns) = find_and_remove lessf qs k ns" by simp
    from Cons.IH [OF Cons.prems] None show ?thesis
      unfolding eq by (elim exE, rename_tac qs' r, rule_tac x = qs' in exI, rule_tac x = r in exI)
        (auto split: option.splits)
  next
    case (Some u)
    obtain qs' r where q: "q_DeleteByKey lessf qs n k = Some (qs', r)" "family_inv t lessf qs'"
      "\<forall>m j. contents qs' m j = (if m = n \<and> j = k then None else contents qs m j)"
      using q_DeleteByKey_spec [OF Cons.prems] by blast
    have "contents qs' m k = None" for m
      using family_unique [OF Cons.prems(1) Some, of m] q(3)
      by (cases "contents qs m k") (auto split: if_splits)
    then have "\<not> in_queues qs' k" by (simp add: not_in_queues)
    moreover have "find_and_remove lessf qs k (n # ns) = Some (qs', Some (n, u))"
      using Some q(1) by simp
    moreover have "n \<in> set (n # ns)" by simp
    ultimately show ?thesis
      using Some q(2,3) family_key [OF Cons.prems(1) Some] family_good [OF Cons.prems(1) Some]
      by (intro exI [of _ qs'] exI [of _ "Some (n, u)"]) (unfold option.case prod.case, blast)
  qed
qed simp

lemma data_queue_mem:
  assumes "data_wf h"
  shows "k \<in> set (data_queue h) \<longleftrightarrow> (\<exists>x. Heap_GetByKey h k = Some x)"
proof -
  have "set (data_queue h) = dom (Heap_GetByKey h)"
    using assms by (simp add: data_wf_def GetByKey_dom)
  then show ?thesis by auto
qed

lemma heap_objects_eq:
  "data_wf h \<Longrightarrow> heap_objects h = map (\<lambda>k. the (Heap_GetByKey h k)) (data_queue h)"
proof -
  assume wf: "data_wf h"
  have q: "map (\<lambda>i. data_queue h ! i) [0..<length (data_queue h)] = data_queue h" by (rule map_nth)
  have "heap_objects h = List.map_filter (Heap_GetByKey h) (map (\<lambda>i. data_queue h ! i) [0..<length (data_queue h)])"
    by (simp add: heap_objects_def Heap_Process_def List.map_filter_def filter_map o_def)
  also have "\<dots> = List.map_filter (Heap_GetByKey h) (data_queue h)" by (simp only: q)
  also have "\<dots> = map (\<lambda>k. the (Heap_GetByKey h k)) (data_queue h)"
  proof -
    have "\<forall>k\<in>set (data_queue h). Heap_GetByKey h k \<noteq> None"
      using data_queue_mem [OF wf] by auto
    then show ?thesis unfolding List.map_filter_def by (simp add: filter_id_conv o_def)
  qed
  finally show ?thesis .
qed

lemma heap_objects_set: "data_wf h \<Longrightarrow> set (heap_objects h) = ran (Heap_GetByKey h)"
  by (auto simp: heap_objects_eq ran_def data_queue_mem image_iff) (metis data_queue_mem option.sel)

lemma heap_objects_distinct:
  assumes "data_wf h" "\<And>k x. Heap_GetByKey h k = Some x \<Longrightarrow> keyof x = k"
  shows "distinct (map keyof (heap_objects h))"
proof -
  have "keyof (the (Heap_GetByKey h k)) = k" if "k \<in> set (data_queue h)" for k
    using that assms(2) data_queue_mem [OF assms(1), of k] by auto
  then have "map keyof (heap_objects h) = data_queue h"
    by (simp add: heap_objects_eq [OF assms(1)] map_idI)
  then show ?thesis using assms(1) by (simp add: data_wf_def)
qed

text \<open>Popping a sub-queue, and moving a unit from one sub-queue to another by adding it first.\<close>

lemma q_pop_spec:
  assumes inv: "family_inv t lessf qs" and ne: "Heap_Len (qs n) \<noteq> 0"
  shows "\<exists>h u. Heap_Pop (lessf n) (qs n) = Some (h, Inr u) \<and> Heap_Peek (qs n) = Some (Some u) \<and>
     contents qs n (qui_UnitKey u) = Some u \<and> unit_good t (qui_ScheduleUnit u) \<and>
     family_inv t lessf (qs(n := h)) \<and> \<not> in_queues (qs(n := h)) (qui_UnitKey u) \<and>
     (\<forall>m j. contents (qs(n := h)) m j = (if m = n \<and> j = qui_UnitKey u then None else contents qs m j)) \<and>
     (strict_weak_on (good_units t) (lessf n) \<longrightarrow> (\<forall>v\<in>ran (contents qs n). \<not> lessf n v u))"
proof -
  note wf = family_wf [OF inv(1), of n]
  obtain h k u where h: "Heap_Pop (lessf n) (qs n) = Some (h, Inr u)" "data_wf h"
    "Heap_Peek (qs n) = Some (Some u)" "contents qs n k = Some u"
    "Heap_GetByKey h = (contents qs n)(k := None)"
    "strict_weak_on (ran (contents qs n)) (lessf n) \<longrightarrow> heap_ok (lessf n) (qs n) \<longrightarrow>
     heap_ok (lessf n) h \<and> (\<forall>y\<in>ran (contents qs n). \<not> lessf n y u)"
    using Heap_Pop_spec [OF wf ne, of "lessf n"] by blast
  have k: "qui_UnitKey u = k" by (rule family_key [OF inv(1) h(4)])
  have ok: "heap_ok (lessf n) h" "\<forall>y\<in>ran (contents qs n). \<not> lessf n y u" if "strict_weak_on (good_units t) (lessf n)"
  proof -
    have "strict_weak_on (ran (contents qs n)) (lessf n)" by (rule strict_weak_mono [OF that family_units [OF inv(1)]])
    moreover have "heap_ok (lessf n) (qs n)" using that inv(1) by (simp add: family_inv_def)
    ultimately show "heap_ok (lessf n) h" "\<forall>y\<in>ran (contents qs n). \<not> lessf n y u" using h(6) by blast+
  qed
  have c: "contents (qs(n := h)) m j = (if m = n \<and> j = k then None else contents qs m j)" for m j
    using h(5) by simp
  have "sq.exclusive qui_UnitKey (qs(n := h))"
    unfolding sq.exclusive_def
  proof (intro conjI allI impI)
    fix m j v assume "contents (qs(n := h)) m j = Some v"
    then show "qui_UnitKey v = j" using c family_key [OF inv(1), of m j v] by (metis option.distinct(1))
  next
    fix m m' j assume "j \<in> dom (contents (qs(n := h)) m)" "j \<in> dom (contents (qs(n := h)) m')"
    then have "j \<in> dom (contents qs m)" "j \<in> dom (contents qs m')" using c by (metis domIff)+
    then show "m = m'" using family_unique [OF inv(1)] by blast
  qed (use h(2) wf family_wf [OF inv(1)] in \<open>simp split: if_splits\<close>)
  moreover have "unit_good t (qui_ScheduleUnit v)" if "contents (qs(n := h)) m j = Some v" for m j v
    using that c family_good [OF inv(1), of m j v] by (metis option.distinct(1))
  ultimately have "family_inv t lessf (qs(n := h))"
    using ok inv(1) by (auto simp: family_inv_def)
  moreover have "contents (qs(n := h)) m k = None" for m
    using family_unique [OF inv(1) h(4), of m] c [of m k]
    by (cases "contents qs m k") (auto split: if_splits)
  ultimately show ?thesis
    using h k ok c family_good [OF inv(1) h(4)] by (auto simp: not_in_queues)
qed

lemma q_move_spec:
  assumes inv: "family_inv t lessf qs" and u: "contents qs m (qui_UnitKey u) = Some u" and ne: "n \<noteq> m"
  shows "\<exists>qs1 r qs2 r'. q_Add lessf qs n u = Some (qs1, r) \<and>
     q_Delete lessf qs1 m u = Some (qs2, r') \<and> family_inv t lessf qs2 \<and>
     (\<forall>l j. contents qs2 l j = (if j = qui_UnitKey u then if l = n then Some u else None else contents qs l j))"
proof -
  let ?k = "qui_UnitKey u"
  obtain qs1 r where d: "q_DeleteByKey lessf qs m ?k = Some (qs1, r)" "family_inv t lessf qs1"
    "\<forall>l j. contents qs1 l j = (if l = m \<and> j = ?k then None else contents qs l j)"
    using q_DeleteByKey_spec [OF inv, of m ?k] by blast
  have out: "contents qs1 l ?k = None" for l
    using d(3) family_unique [OF inv(1) u, of l] by (cases "contents qs l ?k") (auto split: if_splits)
  obtain qs2 where a: "q_Add lessf qs1 n u = Some (qs2, Inr ())" "family_inv t lessf qs2"
    "\<forall>l j. contents qs2 l j = (if l = n \<and> j = ?k then Some u else contents qs1 l j)"
    using q_Add_new_spec [OF d(2) family_good [OF inv(1) u], of n] out
    by (auto simp: not_in_queues)
  note wfn = family_wf [OF inv(1), of n] and wfm = family_wf [OF inv(1), of m]
  have "qs1 = qs(m := heap_del (lessf m) (qs m) ?k)"
    using d(1) wfm by (auto simp: q_DeleteByKey_def)
  then have "qs2 = qs(m := heap_del (lessf m) (qs m) ?k, n := heap_add (\<lambda>x. Inr (qui_UnitKey x)) (lessf n) (qs n) u)"
    using a(1) ne wfn by (auto simp: q_Add_def unitInfoKeyFunc_def)
  then have "\<exists>qs' r1 r2. q_Add lessf qs n u = Some (qs', r1) \<and> q_Delete lessf qs' m u = Some (qs2, r2)"
    using ne wfn wfm by (simp add: q_Add_def q_Delete_eq q_DeleteByKey_def unitInfoKeyFunc_def fun_upd_twist)
  then show ?thesis using a out d(3) by (fastforce)
qed

text \<open>The effect of a flush: the units of one sub-queue that satisfy a condition go to their target.\<close>

definition relocate ::
  "'n \<Rightarrow> (QueuedUnitInfo \<Rightarrow> bool) \<Rightarrow> (QueuedUnitInfo \<Rightarrow> 'n) \<Rightarrow> 'n queues \<Rightarrow> 'n \<Rightarrow> key \<rightharpoonup> QueuedUnitInfo" where
  "relocate src P target qs m j =
     (case contents qs src j of
        Some u \<Rightarrow> if P u then (if m = target u then Some u else None) else contents qs m j
      | None \<Rightarrow> contents qs m j)"

lemma relocate_in_queues:
  assumes "\<And>m j. contents qs' m j = relocate src P target qs m j"
  shows "in_queues qs' k \<longleftrightarrow> in_queues qs k"
proof (cases "contents qs src k")
  case None
  then show ?thesis unfolding in_queues_iff assms relocate_def by simp
next
  case (Some u)
  then have "in_queues qs k" unfolding in_queues_iff by blast
  then show ?thesis using Some unfolding in_queues_iff assms relocate_def by (cases "P u") auto
qed

lemma relocate_cong:
  assumes "\<And>k u. contents qs src k = Some u \<Longrightarrow> P u = Q u"
  shows "relocate src P target qs = relocate src Q target qs"
  using assms by (intro ext) (simp add: relocate_def split: option.split)

lemma q_move_spec':
  assumes inv: "family_inv t lessf qs" and u: "contents qs m (qui_UnitKey u) = Some u"
  shows "\<exists>qs1 r qs2 r'. q_Delete lessf qs m u = Some (qs1, r) \<and>
     q_Add lessf qs1 n u = Some (qs2, r') \<and> family_inv t lessf qs2 \<and>
     (\<forall>l j. contents qs2 l j = (if j = qui_UnitKey u then if l = n then Some u else None else contents qs l j))"
proof -
  let ?k = "qui_UnitKey u"
  obtain qs1 r where d: "q_DeleteByKey lessf qs m ?k = Some (qs1, r)" "family_inv t lessf qs1"
    "\<forall>l j. contents qs1 l j = (if l = m \<and> j = ?k then None else contents qs l j)"
    using q_DeleteByKey_spec [OF inv, of m ?k] by blast
  have out: "contents qs1 l ?k = None" for l
    using d(3) family_unique [OF inv(1) u, of l] by (cases "contents qs l ?k") (auto split: if_splits)
  obtain qs2 where a: "q_Add lessf qs1 n u = Some (qs2, Inr ())" "family_inv t lessf qs2"
    "\<forall>l j. contents qs2 l j = (if l = n \<and> j = ?k then Some u else contents qs1 l j)"
    using q_Add_new_spec [OF d(2) family_good [OF inv(1) u], of n] out
    by (auto simp: not_in_queues)
  then show ?thesis using out d by (fastforce simp: q_Delete_eq)
qed

text \<open>A loop that moves the units of a list, one after the other, out of one sub-queue.\<close>

lemma relocate_loop:
  assumes step: "\<And>qs u us. family_inv t lessf qs \<Longrightarrow> contents qs src (qui_UnitKey u) = Some u \<Longrightarrow>
      \<exists>qs'. loop qs (u # us) = loop qs' us \<and> family_inv t lessf qs' \<and>
        (\<forall>m j. contents qs' m j =
           (if j = qui_UnitKey u then if m = target u then Some u else None else contents qs m j))"
    and stop: "\<And>qs. loop qs [] = Some qs"
    and ne: "\<And>u. target u \<noteq> src"
    and inv: "family_inv t lessf qs" and mem: "\<forall>u\<in>set us. contents qs src (qui_UnitKey u) = Some u"
    and dist: "distinct (map qui_UnitKey us)"
  shows "\<exists>qs'. loop qs us = Some qs' \<and> family_inv t lessf qs' \<and>
      (\<forall>m j. contents qs' m j = relocate src (\<lambda>u. u \<in> set us) target qs m j)"
  using inv mem dist
proof (induction us arbitrary: qs)
  case Nil
  then show ?case using stop by (auto simp: relocate_def split: option.split)
next
  case (Cons u us)
  let ?k = "qui_UnitKey u"
  obtain qs1 where q: "loop qs (u # us) = loop qs1 us" "family_inv t lessf qs1"
    "\<forall>m j. contents qs1 m j = (if j = ?k then if m = target u then Some u else None else contents qs m j)"
    using step [OF Cons.prems(1), of u us] Cons.prems(2) by auto
  have "contents qs1 src (qui_UnitKey v) = Some v" if "v \<in> set us" for v
  proof -
    have "qui_UnitKey v \<noteq> ?k" using Cons.prems(3) that by (metis distinct.simps(2) image_eqI list.set_map list.simps(9))
    then show ?thesis using q(3) Cons.prems(2) that by simp
  qed
  then have "\<forall>v\<in>set us. contents qs1 src (qui_UnitKey v) = Some v" by blast
  with Cons.IH [OF q(2)] Cons.prems(3) obtain qs' where
    q': "loop qs1 us = Some qs'" "family_inv t lessf qs'"
      "\<forall>m j. contents qs' m j = relocate src (\<lambda>u. u \<in> set us) target qs1 m j"
    by auto
  have "contents qs' m j = relocate src (\<lambda>v. v \<in> set (u # us)) target qs m j" for m j
  proof (cases "j = ?k")
    case True
    then show ?thesis using q'(3) q(3) ne [of u] Cons.prems(2) by (simp add: relocate_def)
  next
    case False
    then have e: "contents qs1 l j = contents qs l j" for l using q(3) by simp
    have r: "contents qs' m j = relocate src (\<lambda>u. u \<in> set us) target qs1 m j" using q'(3) by blast
    show ?thesis
    proof (cases "contents qs src j")
      case None
      then show ?thesis unfolding r relocate_def e by simp
    next
      case (Some w)
      then have "w \<noteq> u" using family_key [OF Cons.prems(1) Some] False by auto
      then show ?thesis unfolding r relocate_def e Some by simp
    qed
  qed
  then show ?case using q(1) q'(1,2) by auto
qed

subsection \<open>Properties\<close>

text \<open>C14. The backoff of a unit doubles with every attempt up to the maximum: after n attempts it is
  the minimum of initial * 2^(n-1) and the maximum, with no 64-bit overflow on the way, however many
  attempts there were.\<close>

theorem backoff_exponential_capped:
  assumes "0 \<le> initialDuration h" "initialDuration h \<le> maxDuration h" "maxDuration h < 2 ^ 63"
    "0 < qui_Attempts u"
  shows "calculateBackoffDuration h u =
         min (initialDuration h * 2 ^ (nat (qui_Attempts u) - 1)) (maxDuration h)"
  using assms backoff_loop_min [OF assms(1-3), of "nat (qui_Attempts u - 1)"]
  by (simp add: calculateBackoffDuration_def nat_diff_distrib)

theorem backoff_exponential_capped_witness:
  "calculateBackoffDuration \<lparr>initialDuration = 10, maxDuration = 300\<rparr>
     ((single_unit ''a'' 1 0)\<lparr>qui_Attempts := 4\<rparr>) = 80"
  using backoff_exponential_capped [of "\<lparr>initialDuration = 10, maxDuration = 300\<rparr>"
      "(single_unit ''a'' 1 0)\<lparr>qui_Attempts := 4\<rparr>"]
  by simp

text \<open>
  C15. The score of a popped unit, computed on \<^verbatim>\<open>float64\<close>. For priorities of 32 bits with the smallest one in the queue not above the
  priority of the unit, and a positive step that is not smaller than the difference divided by \<open>2^51\<close>, the score is at
  most the priority and at least the smallest priority less one step, up to a rounding error of \<open>2^-50\<close> of the magnitudes.
  Where the step is an integer below \<open>2^20\<close> nothing is rounded: the score falls by one step with every attempt, from the
  priority to at most one step below the smallest priority, and starts again. It does fall below the smallest priority, as in
  getScore(10, 0, 3, 5) = -5, so the range the comment of getScore states does not hold.
\<close>

theorem score_range:
  assumes "score_args priority minPriority attempts step"
  shows "real_of_int minPriority - step - (real_of_int (\<bar>priority\<bar> + (priority - minPriority)) + step + 1) / 2 ^ 50
      \<le> getScore priority minPriority attempts step \<and>
    getScore priority minPriority attempts step \<le> real_of_int priority \<and>
    (\<forall>k. step = real_of_int k \<and> k < 2 ^ 20 \<longrightarrow>
       getScore priority minPriority attempts step = real_of_int (priority - attempts mod ((priority - minPriority) div k + 2) * k)) \<and>
    getScore 10 0 3 5 = - 5"
proof -
  have "score_args 10 0 3 (real_of_int 5)" by (simp add: score_args_def)
  then have "getScore 10 0 3 (real_of_int 5) = - 5" using getScore_integral by fastforce
  then show ?thesis using getScore_bounds [OF assms] getScore_integral assms by auto
qed

theorem score_range_witness:
  "score_args 100 0 7 10 \<and> getScore 100 0 7 10 = 30 \<and> getScore 100 0 11 10 = - 10"
proof -
  have "score_args 100 0 7 10" "score_args 100 0 11 10" by (simp_all add: score_args_def)
  then show ?thesis using score_range [of 100 0 7 10] score_range [of 100 0 11 10] by auto
qed

end
