(* ===== verification/Priority_Queue.thy ===== *)
theory Priority_Queue
  imports Queue_Base
begin

section \<open>The scheduling queue of a scheduler (pkg/scheduler/queue/priority_queue.go)\<close>

text \<open>
  The state of \<^verbatim>\<open>PriorityQueue\<close> and every operation that changes it, each run under the lock, so an
  operation is a function from state to state. Panics are \<open>None\<close>. The configuration fixed at
  construction is \<open>queue_conf\<close>; what an operation reads from outside is \<open>queue_env\<close>: the clock (one
  instant per operation), the two listers, the scheduling status of units in the scheduler cache, the
  parser of label selectors (client-go), and the order of \<^verbatim>\<open>range\<close> over a map. Logging, metrics and the
  wake-up of a waiting \<^verbatim>\<open>Pop\<close> are left out; \<^verbatim>\<open>Pop\<close> on an empty open queue answers \<open>Blocked\<close>.

  The priority heap refers to units that are also in a sub-queue. Only their priority is read there.
  A change of a unit's pods is followed by \<^verbatim>\<open>priorityHeap.Add\<close> or \<^verbatim>\<open>Delete\<close> of the unit, except in
  \<^verbatim>\<open>Delete\<close> of a pod of a group, which does not change the priority; so the copy held by value there has
  the priority of the unit.

  The invariant \<open>pq_inv\<close> says that a unit is in at most one sub-queue, that no unit is both queued and
  waiting for its pod group, and that the heaps are heaps. The properties: every operation keeps it
  and none panics, what \<^verbatim>\<open>Pop\<close> returns, where the flushes leave the units, and the runs in which the
  code loses an update or queues a unit twice.
\<close>

datatype qname = WaitingQ | ReadyQ | BackoffQ | UnschedulableQ

datatype SchedulingStatus = UnknownStatus | PendingStatus | ScheduledStatus | TimeoutStatus

record queue_conf =
  cf_lessFn :: "QueuedUnitInfo lessFunc"
  cf_boHandler :: backoffHandler
  cf_dynamicPriority :: bool
  cf_attemptImpactFactor :: real

record queue_env =
  ev_now :: time
  ev_pcLister :: pc_lister
  ev_pgLister :: pg_lister
  ev_status :: "key \<Rightarrow> SchedulingStatus"
  ev_selector :: "string \<Rightarrow> (strmap \<Rightarrow> bool) option"
  ev_ord :: "key set \<Rightarrow> key list"

record PriorityQueue =
  pq_latestOperationTimestamp :: time
  pq_closed :: bool
  pq_waitingPodsList :: wp_list
  pq_queues :: "qname queues"
  pq_schedulingCycle :: int
  pq_moveRequestCycle :: int
  pq_priorityHeap :: "QueuedUnitInfo data"

definition priority_less :: "QueuedUnitInfo lessFunc" where
  "priority_less u1 u2 \<longleftrightarrow> unit_GetPriority (qui_ScheduleUnit u1) < unit_GetPriority (qui_ScheduleUnit u2)"

fun sub_less :: "queue_conf \<Rightarrow> qname less_family" where
  "sub_less c ReadyQ = cf_lessFn c"
| "sub_less c BackoffQ = unitsCompareBackoffCompleted (cf_boHandler c)"
| "sub_less c WaitingQ = alwaysFalse"
| "sub_less c UnschedulableQ = alwaysFalse"

definition NewPriorityQueue :: "time \<Rightarrow> PriorityQueue" where
  "NewPriorityQueue now =
     \<lparr>pq_latestOperationTimestamp = now, pq_closed = False, pq_waitingPodsList = New,
      pq_queues = (\<lambda>_. New), pq_schedulingCycle = 0, pq_moveRequestCycle = -1, pq_priorityHeap = New\<rparr>"

definition unschedulableQTimeInterval :: duration where
  "unschedulableQTimeInterval = 60 * 1000000000"

definition RecycleExpiration :: duration where
  "RecycleExpiration = 30 * 24 * 3600 * 1000000000"

subsection \<open>Guards\<close>

definition readyToBeScheduled :: "queue_env \<Rightarrow> QueuedUnitInfo \<Rightarrow> bool" where
  "readyToBeScheduled e u \<longleftrightarrow>
     unit_ReadyToBePopulated (qui_ScheduleUnit u) \<or> ev_status e (qui_UnitKey u) = ScheduledStatus"

definition schedulingStatusTimeout :: "queue_env \<Rightarrow> QueuedUnitInfo \<Rightarrow> bool" where
  "schedulingStatusTimeout e u =
     (if unit_Type (qui_ScheduleUnit u) = SinglePodUnitType then False
      else ev_status e (qui_UnitKey u) = TimeoutStatus)"

subsection \<open>Finding and creating units\<close>

definition findAndRemoveUnitFromQueue ::
  "queue_conf \<Rightarrow> PriorityQueue \<Rightarrow> key \<Rightarrow> (PriorityQueue \<times> (qname \<times> QueuedUnitInfo) option) option" where
  "findAndRemoveUnitFromQueue c p unitKey =
     do { (qs, r) \<leftarrow> find_and_remove (sub_less c) (pq_queues p) unitKey
                      [WaitingQ, ReadyQ, BackoffQ, UnschedulableQ];
          Some (p\<lparr>pq_queues := qs\<rparr>, r) }"

definition createUnitInfo ::
  "queue_env \<Rightarrow> wp_list \<Rightarrow> pod \<Rightarrow> (wp_list \<times> (unit_error + QueuedUnitInfo)) option" where
  "createUnitInfo e w q =
     (let pInfo = newQueuedPodInfo (ev_now e) q; unitKey = GetUnitIdentifier q in
      case CreateScheduleUnit (ev_pcLister e) (ev_pgLister e) (ev_now e) q of
        Inl err \<Rightarrow> Some (w, Inl err)
      | Inr scheduleUnit \<Rightarrow>
          (case unit_AddPod scheduleUnit pInfo of
             (_, Inl err) \<Rightarrow> Some (w, Inl err)
           | (u1, Inr _) \<Rightarrow>
               (case Heap_GetByKey w unitKey of
                  None \<Rightarrow> Some (w, Inr (NewQueuedUnitInfo unitKey u1 (ev_now e)))
                | Some wp \<Rightarrow>
                    (case unit_AddPods u1 (waitingPods_GetPods (ev_ord e) wp) of
                       (_, Inl err) \<Rightarrow> Some (w, Inl err)
                     | (u2, Inr _) \<Rightarrow>
                         do { (w', _) \<leftarrow> Heap_DeleteByKey alwaysFalse w unitKey;
                              Some (w', Inr (NewQueuedUnitInfo unitKey u2 (ev_now e))) }))))"

text \<open>The result is the sub-queue the unit was in, nil if it is new, and the unit or the error.\<close>

definition addPodToUnitInfo ::
  "queue_conf \<Rightarrow> queue_env \<Rightarrow> PriorityQueue \<Rightarrow> pod \<Rightarrow>
   (PriorityQueue \<times> qname option \<times> (unit_error + QueuedUnitInfo)) option" where
  "addPodToUnitInfo c e p q =
     do { (p1, r) \<leftarrow> findAndRemoveUnitFromQueue c p (GetUnitIdentifier q);
          (case r of
             Some (n, u) \<Rightarrow>
               (case unit_AddPod (qui_ScheduleUnit u) (newQueuedPodInfo (ev_now e) q) of
                  (_, Inl err) \<Rightarrow> Some (p1, Some n, Inl err)
                | (su, Inr _) \<Rightarrow> Some (p1, Some n, Inr (u\<lparr>qui_ScheduleUnit := su\<rparr>)))
           | None \<Rightarrow>
               do { (w, created) \<leftarrow> createUnitInfo e (pq_waitingPodsList p1) q;
                    Some (p1\<lparr>pq_waitingPodsList := w\<rparr>, None, created) }) }"

definition updatePodInUnitInfo ::
  "queue_conf \<Rightarrow> queue_env \<Rightarrow> PriorityQueue \<Rightarrow> pod \<Rightarrow> pod \<Rightarrow>
   (PriorityQueue \<times> qname option \<times> (unit_error + QueuedUnitInfo)) option" where
  "updatePodInUnitInfo c e p oldPod newPod =
     do { (p1, r) \<leftarrow> findAndRemoveUnitFromQueue c p (GetUnitIdentifier newPod);
          (case r of
             None \<Rightarrow>
               do { (w, created) \<leftarrow> createUnitInfo e (pq_waitingPodsList p1) newPod;
                    Some (p1\<lparr>pq_waitingPodsList := w\<rparr>, None, created) }
           | Some (n, u) \<Rightarrow>
               do { found \<leftarrow> unit_GetPod (qui_ScheduleUnit u) (newQueuedPodInfoForLookup oldPod);
                    let su = (case found of
                                Some oldPodInfo \<Rightarrow>
                                  fst (unit_AddPod (fst (unit_DeletePod (qui_ScheduleUnit u) oldPodInfo))
                                         (updatePodInfo oldPodInfo newPod))
                              | None \<Rightarrow>
                                  fst (unit_AddPod (qui_ScheduleUnit u) (newQueuedPodInfo (ev_now e) newPod)));
                    Some (p1, Some n, Inr (u\<lparr>qui_ScheduleUnit := su\<rparr>)) }) }"

definition deletePodFromUnitInfo ::
  "queue_conf \<Rightarrow> PriorityQueue \<Rightarrow> pod \<Rightarrow> (PriorityQueue \<times> (qname \<times> QueuedUnitInfo) option) option" where
  "deletePodFromUnitInfo c p q =
     do { (p1, r) \<leftarrow> findAndRemoveUnitFromQueue c p (GetUnitIdentifier q);
          (case r of
             Some (n, u) \<Rightarrow>
               Some (p1, Some (n, u\<lparr>qui_ScheduleUnit :=
                      fst (unit_DeletePod (qui_ScheduleUnit u) (newQueuedPodInfoForLookup q))\<rparr>))
           | None \<Rightarrow> Some (p1, None)) }"

text \<open>The calls that store a unit: in a sub-queue, in the priority heap.\<close>

definition put_unit ::
  "queue_conf \<Rightarrow> PriorityQueue \<Rightarrow> qname \<Rightarrow> QueuedUnitInfo \<Rightarrow> (PriorityQueue \<times> (heap_error + unit)) option" where
  "put_unit c p n u = do { (qs, r) \<leftarrow> q_Add (sub_less c) (pq_queues p) n u; Some (p\<lparr>pq_queues := qs\<rparr>, r) }"

definition put_priority :: "PriorityQueue \<Rightarrow> QueuedUnitInfo \<Rightarrow> PriorityQueue option" where
  "put_priority p u =
     do { (h, _) \<leftarrow> Heap_Add unitInfoKeyFunc priority_less (pq_priorityHeap p) u;
          Some (p\<lparr>pq_priorityHeap := h\<rparr>) }"

definition del_priority :: "PriorityQueue \<Rightarrow> QueuedUnitInfo \<Rightarrow> (PriorityQueue \<times> (heap_error + unit)) option" where
  "del_priority p u =
     do { (h, r) \<leftarrow> Heap_Delete unitInfoKeyFunc priority_less (pq_priorityHeap p) u;
          Some (p\<lparr>pq_priorityHeap := h\<rparr>, r) }"

subsection \<open>The operations\<close>

type_synonym pq_result = "(PriorityQueue \<times> (heap_error + unit)) option"

definition pq_Add :: "queue_conf \<Rightarrow> queue_env \<Rightarrow> PriorityQueue \<Rightarrow> pod \<Rightarrow> pq_result" where
  "pq_Add c e p0 q =
     do { (p1, queue, r) \<leftarrow> addPodToUnitInfo c e (p0\<lparr>pq_latestOperationTimestamp := ev_now e\<rparr>) q;
          (case r of
             Inl _ \<Rightarrow>
               do { (w, res) \<leftarrow> waitingPodsList_Add (ev_now e) (pq_waitingPodsList p1) q;
                    Some (p1\<lparr>pq_waitingPodsList := w\<rparr>, res) }
           | Inr u \<Rightarrow>
               do { let n = (if queue = Some BackoffQ then BackoffQ
                             else if readyToBeScheduled e u then ReadyQ else WaitingQ);
                    p2 \<leftarrow> put_priority p1 u;
                    put_unit c p2 n u }) }"

definition pq_AddUnschedulableIfNotPresent ::
  "queue_conf \<Rightarrow> queue_env \<Rightarrow> PriorityQueue \<Rightarrow> QueuedUnitInfo option \<Rightarrow> int \<Rightarrow> pq_result" where
  "pq_AddUnschedulableIfNotPresent c e p0 unitInfo unitSchedulingCycle =
     (let p = p0\<lparr>pq_latestOperationTimestamp := ev_now e\<rparr> in
      case unitInfo of
        None \<Rightarrow> Some (p, Inr ())
      | Some u0 \<Rightarrow>
          if unit_NumPods (qui_ScheduleUnit u0) = 0 then Some (p, Inr ())
          else
            do { (p1, r) \<leftarrow> findAndRemoveUnitFromQueue c p (qui_UnitKey u0);
                 let su = (case r of
                             Some (_, u') \<Rightarrow>
                               fst (unit_AddPodsIfNotPresent (qui_ScheduleUnit u0)
                                      (unit_GetPods (ev_ord e) (qui_ScheduleUnit u')))
                           | None \<Rightarrow> qui_ScheduleUnit u0);
                 let u = u0\<lparr>qui_ScheduleUnit := su, qui_Timestamp := ev_now e\<rparr>;
                 let n = (if pq_moveRequestCycle p1 \<ge> unitSchedulingCycle \<and> \<not> schedulingStatusTimeout e u
                          then BackoffQ else UnschedulableQ);
                 p2 \<leftarrow> put_priority p1 u;
                 put_unit c p2 n u })"

definition pq_Update :: "queue_conf \<Rightarrow> queue_env \<Rightarrow> PriorityQueue \<Rightarrow> pod \<Rightarrow> pod \<Rightarrow> pq_result" where
  "pq_Update c e p0 oldPod newPod =
     do { (p1, queue, r) \<leftarrow> updatePodInUnitInfo c e (p0\<lparr>pq_latestOperationTimestamp := ev_now e\<rparr>) oldPod newPod;
          (case r of
             Inl _ \<Rightarrow>
               do { (w, res) \<leftarrow> waitingPodsList_Update (ev_now e) (pq_waitingPodsList p1) oldPod newPod;
                    Some (p1\<lparr>pq_waitingPodsList := w\<rparr>, res) }
           | Inr u \<Rightarrow>
               do { let n = (case queue of
                               Some q \<Rightarrow>
                                 if q = UnschedulableQ \<and> isPodUpdated (Some oldPod) (Some newPod) then
                                   (if isUnitBackoff (cf_boHandler c) (ev_now e) u then BackoffQ
                                    else if readyToBeScheduled e u then ReadyQ else WaitingQ)
                                 else q
                             | None \<Rightarrow> if readyToBeScheduled e u then ReadyQ else WaitingQ);
                    (p2, res) \<leftarrow> put_unit c p1 n u;
                    p3 \<leftarrow> put_priority p2 u;
                    Some (p3, res) }) }"

definition pq_Delete :: "queue_conf \<Rightarrow> queue_env \<Rightarrow> PriorityQueue \<Rightarrow> pod \<Rightarrow> pq_result" where
  "pq_Delete c e p0 q =
     do { (p1, r) \<leftarrow> deletePodFromUnitInfo c (p0\<lparr>pq_latestOperationTimestamp := ev_now e\<rparr>) q;
          (w, _) \<leftarrow> waitingPodsList_Delete (pq_waitingPodsList p1) q;
          let p2 = p1\<lparr>pq_waitingPodsList := w\<rparr>;
          (case r of
             None \<Rightarrow> Some (p2, Inr ())
           | Some (n, u) \<Rightarrow>
               if unit_NumPods (qui_ScheduleUnit u) = 0 then del_priority p2 u
               else if n \<noteq> WaitingQ \<and> \<not> readyToBeScheduled e u then put_unit c p2 WaitingQ u
               else put_unit c p2 n u) }"

fun move_loop ::
  "queue_conf \<Rightarrow> time \<Rightarrow> qname queues \<Rightarrow> QueuedUnitInfo list \<Rightarrow> qname queues option" where
  "move_loop c now qs [] = Some qs"
| "move_loop c now qs (u # us) =
     do { let n = (if isUnitBackoff (cf_boHandler c) now u then BackoffQ else ReadyQ);
          (qs1, _) \<leftarrow> q_Add (sub_less c) qs n u;
          (qs2, _) \<leftarrow> q_Delete (sub_less c) qs1 UnschedulableQ u;
          move_loop c now qs2 us }"

definition moveUnitsToReadyOrBackoffQueue ::
  "queue_conf \<Rightarrow> queue_env \<Rightarrow> PriorityQueue \<Rightarrow> QueuedUnitInfo list \<Rightarrow> PriorityQueue option" where
  "moveUnitsToReadyOrBackoffQueue c e p us =
     do { qs \<leftarrow> move_loop c (ev_now e) (pq_queues p) us;
          Some (p\<lparr>pq_queues := qs, pq_moveRequestCycle := pq_schedulingCycle p\<rparr>) }"

definition pq_MoveAllToActiveOrBackoffQueue ::
  "queue_conf \<Rightarrow> queue_env \<Rightarrow> PriorityQueue \<Rightarrow> PriorityQueue option" where
  "pq_MoveAllToActiveOrBackoffQueue c e p =
     moveUnitsToReadyOrBackoffQueue c e p
       (filter (\<lambda>u. \<not> schedulingStatusTimeout e u) (heap_objects (pq_queues p UnschedulableQ)))"

text \<open>The inner loop returns at the first matching term; a pod info without a pod, or a selector that
  does not parse and is then called, panics.\<close>

fun any_term :: "(PodAffinityTerm \<Rightarrow> bool option) \<Rightarrow> PodAffinityTerm list \<Rightarrow> bool option" where
  "any_term f [] = Some False"
| "any_term f (t # ts) = do { b \<leftarrow> f t; if b then Some True else any_term f ts }"

fun checkAffinityTerms :: "queue_env \<Rightarrow> pod \<Rightarrow> QueuedPodInfo list \<Rightarrow> bool option" where
  "checkAffinityTerms e q [] = Some False"
| "checkAffinityTerms e q (i # is) =
     do { up \<leftarrow> qpi_Pod i;
          b \<leftarrow> any_term (\<lambda>t. PodMatchesTermsNamespaceAndSelector q (GetNamespacesFromPodAffinityTerm up t)
                                (ev_selector e (pat_LabelSelector t))) (pod_AffinityTerms up);
          if b then Some True else checkAffinityTerms e q is }"

fun filter_option :: "('a \<Rightarrow> bool option) \<Rightarrow> 'a list \<Rightarrow> 'a list option" where
  "filter_option f [] = Some []"
| "filter_option f (x # xs) =
     do { b \<leftarrow> f x; ys \<leftarrow> filter_option f xs; Some (if b then x # ys else ys) }"

definition getUnschedulablePodsWithMatchingAffinityTerm ::
  "queue_env \<Rightarrow> PriorityQueue \<Rightarrow> pod \<Rightarrow> QueuedUnitInfo list option" where
  "getUnschedulablePodsWithMatchingAffinityTerm e p q =
     filter_option
       (\<lambda>u. do { b \<leftarrow> checkAffinityTerms e q (unit_GetPods (ev_ord e) (qui_ScheduleUnit u));
                  Some (b \<and> \<not> schedulingStatusTimeout e u) })
       (heap_objects (pq_queues p UnschedulableQ))"

text \<open>\<^verbatim>\<open>AssignedPodAdded\<close> and \<^verbatim>\<open>AssignedPodUpdated\<close> differ in the name of the recorded event only.\<close>

definition pq_AssignedPodAdded :: "queue_conf \<Rightarrow> queue_env \<Rightarrow> PriorityQueue \<Rightarrow> pod \<Rightarrow> PriorityQueue option" where
  "pq_AssignedPodAdded c e p q =
     do { us \<leftarrow> getUnschedulablePodsWithMatchingAffinityTerm e p q;
          moveUnitsToReadyOrBackoffQueue c e p us }"

definition pq_AssignedPodUpdated :: "queue_conf \<Rightarrow> queue_env \<Rightarrow> PriorityQueue \<Rightarrow> pod \<Rightarrow> PriorityQueue option" where
  "pq_AssignedPodUpdated c e p q =
     do { us \<leftarrow> getUnschedulablePodsWithMatchingAffinityTerm e p q;
          moveUnitsToReadyOrBackoffQueue c e p us }"

definition pq_ActivePodGroupUnit :: "queue_conf \<Rightarrow> queue_env \<Rightarrow> PriorityQueue \<Rightarrow> key \<Rightarrow> PriorityQueue option" where
  "pq_ActivePodGroupUnit c e p unitKey =
     (case Heap_GetByKey (pq_waitingPodsList p) unitKey of
        None \<Rightarrow> Some p
      | Some wp \<Rightarrow>
          do { r \<leftarrow> transferToPodGroupUnit (ev_pcLister e) (ev_pgLister e) (ev_now e) (ev_ord e) wp;
               (case r of
                  None \<Rightarrow> Some p
                | Some u \<Rightarrow>
                    do { (p1, res) \<leftarrow> put_unit c p (if readyToBeScheduled e u then ReadyQ else WaitingQ) u;
                         (case res of
                            Inl _ \<Rightarrow> Some p1
                          | Inr _ \<Rightarrow>
                              do { (w, _) \<leftarrow> Heap_DeleteByKey alwaysFalse (pq_waitingPodsList p1) unitKey;
                                   Some (p1\<lparr>pq_waitingPodsList := w\<rparr>) }) }) })"

partial_function (option) flush_backoff :: "queue_conf \<Rightarrow> time \<Rightarrow> qname queues \<Rightarrow> qname queues option" where
  "flush_backoff c now qs =
     do { r \<leftarrow> Heap_Peek (qs BackoffQ);
          (case r of
             None \<Rightarrow> Some qs
           | Some u \<Rightarrow>
               if isUnitBackoff (cf_boHandler c) now u then Some qs
               else
                 do { (h, popped) \<leftarrow> Heap_Pop (sub_less c BackoffQ) (qs BackoffQ);
                      (case popped of
                         Inl _ \<Rightarrow> Some (qs(BackoffQ := h))
                       | Inr _ \<Rightarrow>
                           do { (qs', res) \<leftarrow> q_Add (sub_less c) (qs(BackoffQ := h)) ReadyQ u;
                                (case res of Inl _ \<Rightarrow> Some qs' | Inr _ \<Rightarrow> flush_backoff c now qs') }) }) }"

definition pq_flushBackoffQCompleted :: "queue_conf \<Rightarrow> queue_env \<Rightarrow> PriorityQueue \<Rightarrow> PriorityQueue option" where
  "pq_flushBackoffQCompleted c e p =
     do { qs \<leftarrow> flush_backoff c (ev_now e) (pq_queues p); Some (p\<lparr>pq_queues := qs\<rparr>) }"

fun flush_scheduled_loop :: "queue_conf \<Rightarrow> qname queues \<Rightarrow> QueuedUnitInfo list \<Rightarrow> qname queues option" where
  "flush_scheduled_loop c qs [] = Some qs"
| "flush_scheduled_loop c qs (u # us) =
     do { (qs1, _) \<leftarrow> q_Delete (sub_less c) qs WaitingQ u;
          (qs2, _) \<leftarrow> q_Add (sub_less c) qs1 ReadyQ u;
          flush_scheduled_loop c qs2 us }"

definition pq_flushScheduledUnitsInWaitingQ ::
  "queue_conf \<Rightarrow> queue_env \<Rightarrow> PriorityQueue \<Rightarrow> PriorityQueue option" where
  "pq_flushScheduledUnitsInWaitingQ c e p =
     do { qs \<leftarrow> flush_scheduled_loop c (pq_queues p)
                  (filter (readyToBeScheduled e) (heap_objects (pq_queues p WaitingQ)));
          Some (p\<lparr>pq_queues := qs\<rparr>) }"

definition pq_flushUnschedulableQLeftover ::
  "queue_conf \<Rightarrow> queue_env \<Rightarrow> PriorityQueue \<Rightarrow> PriorityQueue option" where
  "pq_flushUnschedulableQLeftover c e p =
     moveUnitsToReadyOrBackoffQueue c e p
       (filter (\<lambda>u. ev_now e - qui_Timestamp u > unschedulableQTimeInterval \<and> \<not> schedulingStatusTimeout e u)
          (heap_objects (pq_queues p UnschedulableQ)))"

text \<open>The units the waiting pods can be turned into, and the loop that moves them.\<close>

fun transfer_all :: "queue_env \<Rightarrow> waitingPods list \<Rightarrow> QueuedUnitInfo list option" where
  "transfer_all e [] = Some []"
| "transfer_all e (wp # wps) =
     do { r \<leftarrow> transferToPodGroupUnit (ev_pcLister e) (ev_pgLister e) (ev_now e) (ev_ord e) wp;
          us \<leftarrow> transfer_all e wps;
          Some (case r of None \<Rightarrow> us | Some u \<Rightarrow> u # us) }"

fun flush_waiting_loop :: "queue_conf \<Rightarrow> queue_env \<Rightarrow> PriorityQueue \<Rightarrow> QueuedUnitInfo list \<Rightarrow> PriorityQueue option" where
  "flush_waiting_loop c e p [] = Some p"
| "flush_waiting_loop c e p (u # us) =
     do { (w, _) \<leftarrow> Heap_DeleteByKey alwaysFalse (pq_waitingPodsList p) (qui_UnitKey u);
          (p1, _) \<leftarrow> put_unit c (p\<lparr>pq_waitingPodsList := w\<rparr>)
                        (if readyToBeScheduled e u then ReadyQ else WaitingQ) u;
          flush_waiting_loop c e p1 us }"

definition pq_flushWaitingPodsList :: "queue_conf \<Rightarrow> queue_env \<Rightarrow> PriorityQueue \<Rightarrow> PriorityQueue option" where
  "pq_flushWaitingPodsList c e p =
     do { us \<leftarrow> transfer_all e (heap_objects (pq_waitingPodsList p)); flush_waiting_loop c e p us }"

text \<open>A second \<^verbatim>\<open>Close\<close> closes the channel \<^verbatim>\<open>stop\<close> again and panics.\<close>

definition pq_Close :: "PriorityQueue \<Rightarrow> PriorityQueue option" where
  "pq_Close p = (if pq_closed p then None else Some (p\<lparr>pq_closed := True\<rparr>))"

definition pq_CanBeRecycle :: "queue_env \<Rightarrow> PriorityQueue \<Rightarrow> bool" where
  "pq_CanBeRecycle e p =
     (if \<not> (pq_latestOperationTimestamp p + RecycleExpiration < ev_now e) then False
      else Heap_Len (pq_waitingPodsList p) = 0 \<and>
           list_all (\<lambda>n. Heap_Len (pq_queues p n) = 0) [WaitingQ, ReadyQ, BackoffQ, UnschedulableQ])"

subsection \<open>Pop\<close>

datatype pop_result = Popped QueuedUnitInfo | PopFailed heap_error | QueueClosed | Blocked

definition getMinPriorityInQueueIfExists :: "PriorityQueue \<Rightarrow> int option option" where
  "getMinPriorityInQueueIfExists p =
     map_option (map_option (\<lambda>u. unit_GetPriority (qui_ScheduleUnit u))) (Heap_Peek (pq_priorityHeap p))"

definition setQueuedPriorityScore :: "queue_conf \<Rightarrow> PriorityQueue \<Rightarrow> QueuedUnitInfo \<Rightarrow> QueuedUnitInfo option" where
  "setQueuedPriorityScore c p u =
     (let priority = unit_GetPriority (qui_ScheduleUnit u) in
      if cf_dynamicPriority c then
        do { m \<leftarrow> getMinPriorityInQueueIfExists p;
             let minPriority = (case m of None \<Rightarrow> priority | Some v \<Rightarrow> v);
             Some (u\<lparr>qui_QueuePriorityScore :=
                      getScore priority minPriority (qui_Attempts u) (cf_attemptImpactFactor c)\<rparr>) }
      else Some (u\<lparr>qui_QueuePriorityScore := real_of_int priority\<rparr>))"

definition pq_Pop :: "queue_conf \<Rightarrow> PriorityQueue \<Rightarrow> (PriorityQueue \<times> pop_result) option" where
  "pq_Pop c p =
     (if Heap_Len (pq_queues p ReadyQ) = 0 then
        Some (p, if pq_closed p then QueueClosed else Blocked)
      else
        do { (h, r) \<leftarrow> Heap_Pop (cf_lessFn c) (pq_queues p ReadyQ);
             (case r of
                Inl err \<Rightarrow> Some (p\<lparr>pq_queues := (pq_queues p)(ReadyQ := h)\<rparr>, PopFailed err)
              | Inr u0 \<Rightarrow>
                  do { let p1 = p\<lparr>pq_queues := (pq_queues p)(ReadyQ := h)\<rparr>;
                       u \<leftarrow> setQueuedPriorityScore c p1 (u0\<lparr>qui_Attempts := qui_Attempts u0 + 1\<rparr>);
                       (p2, _) \<leftarrow> del_priority (p1\<lparr>pq_schedulingCycle := pq_schedulingCycle p1 + 1\<rparr>) u;
                       Some (p2, Popped u) }) })"

definition pq_Peek :: "PriorityQueue \<Rightarrow> QueuedUnitInfo option option" where
  "pq_Peek p = (if Heap_Len (pq_queues p ReadyQ) = 0 then Some None else Heap_Peek (pq_queues p ReadyQ))"

definition pq_PendingPods :: "queue_env \<Rightarrow> PriorityQueue \<Rightarrow> pod option list" where
  "pq_PendingPods e p =
     concat (map (\<lambda>w. map qpi_Pod (waitingPods_GetPods (ev_ord e) w))
       (Heap_List (pq_waitingPodsList p) (ev_ord e (dom (Heap_GetByKey (pq_waitingPodsList p)))))) @
     concat (map (\<lambda>n.
       concat (map (\<lambda>u. map qpi_Pod (unit_GetPods (ev_ord e) (qui_ScheduleUnit u)))
         (Heap_List (pq_queues p n) (ev_ord e (dom (Heap_GetByKey (pq_queues p n)))))))
       [WaitingQ, ReadyQ, BackoffQ, UnschedulableQ])"

definition pq_NumUnschedulableUnits :: "PriorityQueue \<Rightarrow> nat" where
  "pq_NumUnschedulableUnits p = Heap_Len (pq_queues p UnschedulableQ)"

subsection \<open>The invariant\<close>

definition prio_ok :: "QueuedUnitInfo data \<Rightarrow> bool" where
  "prio_ok h \<longleftrightarrow>
     data_wf h \<and> heap_ok priority_less h \<and> (\<forall>k u. Heap_GetByKey h k = Some u \<longrightarrow> qui_UnitKey u = k)"

text \<open>The state with the unit of a key taken out: nothing but the priority heap refers to the key.\<close>

definition pq_out :: "ScheduleUnitType set \<Rightarrow> queue_conf \<Rightarrow> key \<Rightarrow> PriorityQueue \<Rightarrow> bool" where
  "pq_out t c k p \<longleftrightarrow>
     family_inv t (sub_less c) (pq_queues p) \<and> wpl_ok (pq_waitingPodsList p) \<and> prio_ok (pq_priorityHeap p) \<and>
     (\<forall>j. j \<in> dom (Heap_GetByKey (pq_priorityHeap p)) \<longrightarrow> j = k \<or> in_queues (pq_queues p) j) \<and>
     (\<forall>j. j \<in> dom (Heap_GetByKey (pq_waitingPodsList p)) \<longrightarrow> j \<noteq> k \<and> \<not> in_queues (pq_queues p) j \<and> PodGroupUnitType \<in> t) \<and>
     \<not> in_queues (pq_queues p) k"

definition pq_inv :: "ScheduleUnitType set \<Rightarrow> queue_conf \<Rightarrow> PriorityQueue \<Rightarrow> bool" where
  "pq_inv t c p \<longleftrightarrow>
     family_inv t (sub_less c) (pq_queues p) \<and> wpl_ok (pq_waitingPodsList p) \<and> prio_ok (pq_priorityHeap p) \<and>
     (\<forall>j. j \<in> dom (Heap_GetByKey (pq_priorityHeap p)) \<longrightarrow> in_queues (pq_queues p) j) \<and>
     (\<forall>j. j \<in> dom (Heap_GetByKey (pq_waitingPodsList p)) \<longrightarrow> \<not> in_queues (pq_queues p) j \<and> PodGroupUnitType \<in> t)"

text \<open>What the code assumes of its surroundings: a lister that answers with the group it was asked for, and an order of the range
  over a map that visits every key once.\<close>

definition env_ok :: "queue_env \<Rightarrow> bool" where
  "env_ok e \<longleftrightarrow> lister_ok (ev_pgLister e) \<and> ord_ok (ev_ord e)"

lemma backoff_order: "strict_weak_on A (sub_less c BackoffQ)"
proof -
  have "unitsCompareBackoffCompleted (cf_boHandler c) =
      (\<lambda>u v. getBackoffTime (cf_boHandler c) u < getBackoffTime (cf_boHandler c) v)"
    by (intro ext) (simp add: unitsCompareBackoffCompleted_def)
  then show ?thesis by (simp add: strict_weak_key)
qed

lemma priority_less_order: "strict_weak_on A priority_less"
proof -
  have "priority_less = (\<lambda>u v. unit_GetPriority (qui_ScheduleUnit u) < unit_GetPriority (qui_ScheduleUnit v))"
    by (intro ext) (simp add: priority_less_def)
  then show ?thesis by (metis strict_weak_key)
qed

lemma pq_inv_New: "pq_inv t c (NewPriorityQueue now)"
  by (simp add: pq_inv_def NewPriorityQueue_def family_New prio_ok_def)

lemma pq_inv_timestamp [simp]:
  "pq_inv t c (p\<lparr>pq_latestOperationTimestamp := now\<rparr>) = pq_inv t c p"
  by (simp add: pq_inv_def)

text \<open>A change of the sub-queues that keeps the set of queued keys keeps the invariant.\<close>

lemma pq_inv_queues:
  assumes "pq_inv t c p" "family_inv t (sub_less c) qs" "\<And>k. in_queues qs k = in_queues (pq_queues p) k"
  shows "pq_inv t c (p\<lparr>pq_queues := qs\<rparr>)"
  using assms by (simp add: pq_inv_def)

lemma find_spec:
  assumes "pq_inv t c p"
  shows "(findAndRemoveUnitFromQueue c p k = Some (p, None) \<and> \<not> in_queues (pq_queues p) k) \<or>
    (\<exists>qs n u. findAndRemoveUnitFromQueue c p k = Some (p\<lparr>pq_queues := qs\<rparr>, Some (n, u)) \<and>
       contents (pq_queues p) n k = Some u \<and> qui_UnitKey u = k \<and> unit_good t (qui_ScheduleUnit u) \<and>
       pq_out t c k (p\<lparr>pq_queues := qs\<rparr>) \<and>
       (\<forall>m j. contents qs m j = (if m = n \<and> j = k then None else contents (pq_queues p) m j)))"
proof -
  let ?ns = "[WaitingQ, ReadyQ, BackoffQ, UnschedulableQ]"
  have fam: "family_inv t (sub_less c) (pq_queues p)" using assms(1) by (simp add: pq_inv_def)
  obtain qs r where f: "find_and_remove (sub_less c) (pq_queues p) k ?ns = Some (qs, r)" "family_inv t (sub_less c) qs"
    "case r of
        None \<Rightarrow> qs = pq_queues p \<and> (\<forall>n\<in>set ?ns. contents (pq_queues p) n k = None)
      | Some (n, u) \<Rightarrow>
          n \<in> set ?ns \<and> contents (pq_queues p) n k = Some u \<and> qui_UnitKey u = k \<and>
          unit_good t (qui_ScheduleUnit u) \<and> \<not> in_queues qs k \<and>
          (\<forall>m j. contents qs m j = (if m = n \<and> j = k then None else contents (pq_queues p) m j))"
    using find_and_remove_spec [OF fam, of k ?ns] by blast
  have eq: "findAndRemoveUnitFromQueue c p k = Some (p\<lparr>pq_queues := qs\<rparr>, r)"
    unfolding findAndRemoveUnitFromQueue_def f(1) by simp
  show ?thesis
  proof (cases r)
    case None
    have "contents (pq_queues p) n k = None" for n using f(3) None by (cases n) auto
    then show ?thesis using None f(3) eq by (simp add: not_in_queues)
  next
    case (Some nu)
    then obtain n u where nu: "r = Some (n, u)" by (cases nu) auto
    have c': "contents qs m j = (if m = n \<and> j = k then None else contents (pq_queues p) m j)" for m j
      using f(3) nu by simp
    have q: "in_queues qs j \<longleftrightarrow> j \<noteq> k \<and> in_queues (pq_queues p) j" for j
    proof (cases "j = k")
      case True then show ?thesis using f(3) nu by simp
    next
      case False then show ?thesis by (simp add: in_queues_iff c')
    qed
    have "in_queues (pq_queues p) k" using f(3) nu not_in_queues [of "pq_queues p" k] by auto
    then have "pq_out t c k (p\<lparr>pq_queues := qs\<rparr>)"
      using assms(1) f(2) q unfolding pq_inv_def pq_out_def by (auto simp: q)
    then show ?thesis using eq nu f(3) by auto
  qed
qed

lemma pq_out_new:
  "pq_inv t c p \<Longrightarrow> \<not> in_queues (pq_queues p) k \<Longrightarrow> Heap_GetByKey (pq_waitingPodsList p) k = None \<Longrightarrow>
   pq_out t c k p"
  unfolding pq_inv_def pq_out_def by auto

lemma put_unit_spec:
  assumes "pq_out t c k p" "qui_UnitKey u = k" "unit_good t (qui_ScheduleUnit u)"
  shows "\<exists>qs. put_unit c p n u = Some (p\<lparr>pq_queues := qs\<rparr>, Inr ()) \<and> pq_inv t c (p\<lparr>pq_queues := qs\<rparr>) \<and>
     (\<forall>m j. contents qs m j = (if m = n \<and> j = k then Some u else contents (pq_queues p) m j))"
proof -
  obtain qs where q: "q_Add (sub_less c) (pq_queues p) n u = Some (qs, Inr ())" "family_inv t (sub_less c) qs"
    "\<forall>m j. contents qs m j = (if m = n \<and> j = k then Some u else contents (pq_queues p) m j)"
    using q_Add_new_spec [of t "sub_less c" "pq_queues p" u n] assms
    by (auto simp: pq_out_def)
  have "in_queues qs j \<longleftrightarrow> j = k \<or> in_queues (pq_queues p) j" for j
    unfolding in_queues_iff using q(3) by (metis option.distinct(1))
  then have "pq_inv t c (p\<lparr>pq_queues := qs\<rparr>)"
    using assms(1) q(2) unfolding pq_inv_def pq_out_def by auto
  then show ?thesis using q by (auto simp: put_unit_def)
qed

lemma put_priority_spec:
  assumes "prio_ok (pq_priorityHeap p)"
  shows "\<exists>h. put_priority p u = Some (p\<lparr>pq_priorityHeap := h\<rparr>) \<and> prio_ok h \<and>
             Heap_GetByKey h = (Heap_GetByKey (pq_priorityHeap p))(qui_UnitKey u \<mapsto> u)"
  using assms
  by (intro exI [of _ "heap_add (\<lambda>x. Inr (qui_UnitKey x)) priority_less (pq_priorityHeap p) u"])
    (auto simp: put_priority_def prio_ok_def unitInfoKeyFunc_def heap_add_ok priority_less_order)

lemma del_priority_spec:
  assumes "prio_ok (pq_priorityHeap p)"
  shows "\<exists>h r. del_priority p u = Some (p\<lparr>pq_priorityHeap := h\<rparr>, r) \<and> prio_ok h \<and>
             Heap_GetByKey h = (Heap_GetByKey (pq_priorityHeap p))(qui_UnitKey u := None)"
  using assms
  by (intro exI [of _ "heap_del priority_less (pq_priorityHeap p) (qui_UnitKey u)"])
    (auto simp: del_priority_def Heap_Delete_def prio_ok_def unitInfoKeyFunc_def heap_del_ok
      priority_less_order split: if_splits)

text \<open>Storing a unit in the priority heap and a sub-queue, in either order.\<close>

lemma store_spec:
  assumes "pq_out t c k p" "qui_UnitKey u = k" "unit_good t (qui_ScheduleUnit u)"
  shows "\<exists>qs h. put_priority p u = Some (p\<lparr>pq_priorityHeap := h\<rparr>) \<and>
     put_unit c (p\<lparr>pq_priorityHeap := h\<rparr>) n u = Some (p\<lparr>pq_priorityHeap := h, pq_queues := qs\<rparr>, Inr ()) \<and>
     pq_inv t c (p\<lparr>pq_priorityHeap := h, pq_queues := qs\<rparr>) \<and>
     (\<forall>m j. contents qs m j = (if m = n \<and> j = k then Some u else contents (pq_queues p) m j))"
proof -
  obtain h where h: "put_priority p u = Some (p\<lparr>pq_priorityHeap := h\<rparr>)" "prio_ok h"
    "Heap_GetByKey h = (Heap_GetByKey (pq_priorityHeap p))(k \<mapsto> u)"
    using put_priority_spec [of p u] assms by (auto simp: pq_out_def)
  have "pq_out t c k (p\<lparr>pq_priorityHeap := h\<rparr>)"
    using assms(1) h(2,3) unfolding pq_out_def by auto
  from put_unit_spec [OF this assms(2,3), of n] obtain qs where
    "put_unit c (p\<lparr>pq_priorityHeap := h\<rparr>) n u = Some (p\<lparr>pq_priorityHeap := h, pq_queues := qs\<rparr>, Inr ())"
    "pq_inv t c (p\<lparr>pq_priorityHeap := h, pq_queues := qs\<rparr>)"
    "\<forall>m j. contents qs m j = (if m = n \<and> j = k then Some u else contents (pq_queues p) m j)"
    by auto
  then show ?thesis using h(1) by blast
qed

lemma store_spec':
  assumes "pq_out t c k p" "qui_UnitKey u = k" "unit_good t (qui_ScheduleUnit u)"
  shows "\<exists>qs h. put_unit c p n u = Some (p\<lparr>pq_queues := qs\<rparr>, Inr ()) \<and>
     put_priority (p\<lparr>pq_queues := qs\<rparr>) u = Some (p\<lparr>pq_queues := qs, pq_priorityHeap := h\<rparr>) \<and>
     pq_inv t c (p\<lparr>pq_queues := qs, pq_priorityHeap := h\<rparr>) \<and>
     (\<forall>m j. contents qs m j = (if m = n \<and> j = k then Some u else contents (pq_queues p) m j))"
proof -
  obtain qs where q: "put_unit c p n u = Some (p\<lparr>pq_queues := qs\<rparr>, Inr ())" "pq_inv t c (p\<lparr>pq_queues := qs\<rparr>)"
    "\<forall>m j. contents qs m j = (if m = n \<and> j = k then Some u else contents (pq_queues p) m j)"
    using put_unit_spec [OF assms, of n] by blast
  obtain h where h: "put_priority (p\<lparr>pq_queues := qs\<rparr>) u = Some (p\<lparr>pq_queues := qs, pq_priorityHeap := h\<rparr>)"
    "prio_ok h" "Heap_GetByKey h = (Heap_GetByKey (pq_priorityHeap p))(k \<mapsto> u)"
    using put_priority_spec [of "p\<lparr>pq_queues := qs\<rparr>" u] q(2) assms(2) by (auto simp: pq_inv_def)
  have "in_queues qs k" using q(3) not_in_queues [of qs k] by (metis option.distinct(1))
  then have "pq_inv t c (p\<lparr>pq_queues := qs, pq_priorityHeap := h\<rparr>)"
    using q(2) h(2,3) unfolding pq_inv_def by auto
  then show ?thesis using q h by blast
qed

subsection \<open>Adding, updating and deleting a pod\<close>

lemma fold_pods_map:
  assumes "\<forall>i\<in>set is. \<exists>q. qpi_Pod i = Some q \<and> m (pod_UID q) = Some i"
  shows "fold (\<lambda>info m'. case qpi_Pod info of None \<Rightarrow> m' | Some q \<Rightarrow> m'(pod_UID q \<mapsto> info)) is m0 =
    (\<lambda>uid. if uid \<in> (\<lambda>i. pod_UID (the (qpi_Pod i))) ` set is then m uid else m0 uid)"
  using assms
proof (induction "is" arbitrary: m0)
  case (Cons i "is")
  from Cons.prems obtain q where q: "qpi_Pod i = Some q" "m (pod_UID q) = Some i" by auto
  have "\<forall>i\<in>set is. \<exists>q. qpi_Pod i = Some q \<and> m (pod_UID q) = Some i" using Cons.prems by simp
  note IH = Cons.IH [OF this, of "m0(pod_UID q \<mapsto> i)"]
  show ?case unfolding fold_Cons o_def q(1) option.case IH using q by (auto simp: fun_eq_iff)
qed auto

lemma waiting_pods_add:
  assumes "wp_ok wp" "ord_ok ord"
  shows "fold (\<lambda>info m'. case qpi_Pod info of None \<Rightarrow> m' | Some q \<Rightarrow> m'(pod_UID q \<mapsto> info))
           (waitingPods_GetPods ord wp) m0 = m0 ++ wp_pods wp"
proof -
  have s: "set (waitingPods_GetPods ord wp) = ran (wp_pods wp)"
    using assms by (intro waitingPods_GetPods_set) (auto simp: wp_ok_def)
  have p: "\<exists>q. qpi_Pod i = Some q \<and> pod_UID q = uid" if "wp_pods wp uid = Some i" for uid i
    using assms(1) that unfolding wp_ok_def by blast
  have "\<forall>i\<in>set (waitingPods_GetPods ord wp). \<exists>q. qpi_Pod i = Some q \<and> wp_pods wp (pod_UID q) = Some i"
    unfolding s using p by (fastforce simp: ran_def)
  note f = fold_pods_map [OF this, of m0, unfolded s]
  have "(\<lambda>i. pod_UID (the (qpi_Pod i))) ` ran (wp_pods wp) = dom (wp_pods wp)"
    using p by (force simp: ran_def image_iff)
  then show ?thesis unfolding f by (auto simp: map_add_def fun_eq_iff split: option.splits)
qed

text \<open>What \<^verbatim>\<open>createUnitInfo\<close> returns: an error only for a pod of a group, whose group or priority class is
  unknown; otherwise a unit of the pod and of the pods that waited for it.\<close>

definition created_ok :: "ScheduleUnitType set \<Rightarrow> wp_list \<Rightarrow> wp_list \<Rightarrow> pod \<Rightarrow> unit_error + QueuedUnitInfo \<Rightarrow> bool" where
  "created_ok t w w' q r \<longleftrightarrow>
     (case r of
        Inl _ \<Rightarrow> w' = w \<and> GetPodGroupName q \<noteq> []
      | Inr u \<Rightarrow>
          qui_UnitKey u = GetUnitIdentifier q \<and> unit_good t (qui_ScheduleUnit u) \<and>
          Heap_GetByKey w' = (Heap_GetByKey w)(GetUnitIdentifier q := None) \<and>
          (\<exists>i. unit_find (qui_ScheduleUnit u) (pod_UID q) = Some i \<and>
             (wp_pods (wpl_entry w (GetUnitIdentifier q)) (pod_UID q) = None \<longrightarrow> qpi_Pod i = Some q)) \<and>
          (\<forall>uid i. wp_pods (wpl_entry w (GetUnitIdentifier q)) uid = Some i \<longrightarrow>
             unit_find (qui_ScheduleUnit u) uid = Some i))"

lemma createUnitInfo_spec:
  assumes w: "wpl_ok w" and e: "env_ok e" and kind: "pod_kind q \<in> t"
  shows "\<exists>w' r. createUnitInfo e w q = Some (w', r) \<and> wpl_ok w' \<and> created_ok t w w' q r"
proof (cases "CreateScheduleUnit (ev_pcLister e) (ev_pgLister e) (ev_now e) q")
  case (Inl err)
  then have "GetPodGroupName q \<noteq> []" by (auto simp: CreateScheduleUnit_def)
  then show ?thesis using Inl w by (auto simp: createUnitInfo_def created_ok_def)
next
  case (Inr su)
  let ?k = "GetUnitIdentifier q" and ?i = "newQueuedPodInfo (ev_now e) q"
  have i: "qpi_Pod ?i = Some q" by (simp add: newQueuedPodInfo_def)
  obtain u1 where u1: "unit_AddPod su ?i = (u1, Inr ())" "fst (unit_AddPod su ?i) = u1"
    using unit_AddPod_result [OF i, of su] by (cases "unit_AddPod su ?i") auto
  have ok: "unit_ok su" by (rule CreateScheduleUnit_ok [OF Inr])
  have good: "unit_good t u1"
    using unit_good_AddPod [OF ok CreateScheduleUnit_complete [OF Inr] i, of t] u1 kind
    by (simp add: CreateScheduleUnit_kind [OF Inr])
  have find: "unit_find u1 (pod_UID q) = Some ?i" using uh.add_find [OF ok i] u1 by simp
  show ?thesis
  proof (cases "Heap_GetByKey w ?k")
    case None
    then have "(Heap_GetByKey w)(?k := None) = Heap_GetByKey w" by auto
    then show ?thesis using Inr u1 w None good find i
      by (auto simp: createUnitInfo_def Let_def created_ok_def NewQueuedUnitInfo_def wpl_entry_def)
  next
    case (Some wp)
    have wp: "wp_ok wp" "wp_unitKey wp = ?k" using w Some by (auto simp: wpl_ok_def)
    have "GetPodGroupName q \<noteq> []"
    proof -
      obtain uid j where "wp_pods wp uid = Some j" using wp(1) by (auto simp: wp_ok_def fun_eq_iff)
      then obtain p where "GetUnitIdentifier p = ?k" "GetPodGroupName p \<noteq> []"
        using wp unfolding wp_ok_def by metis
      then show ?thesis using identifier_kind by blast
    qed
    then obtain g where g: "su = PodGroupU g" "pgu_queuedPodInfoMap g = Map.empty"
      using created_group_unit [OF Inr] e by (auto simp: env_ok_def)
    define g1 where "g1 = g\<lparr>pgu_queuedPodInfoMap := [pod_UID q \<mapsto> ?i]\<rparr>"
    have u1': "u1 = PodGroupU g1"
      using u1 g i by (simp add: PodGroupUnit_AddPod_def g1_def)
    have add: "unit_AddPods u1 (waitingPods_GetPods (ev_ord e) wp) =
        (PodGroupU (g1\<lparr>pgu_queuedPodInfoMap := [pod_UID q \<mapsto> ?i] ++ wp_pods wp\<rparr>), Inr ())"
      using waiting_pods_add [OF wp(1), of "ev_ord e" "[pod_UID q \<mapsto> ?i]"] e
      by (simp add: u1' PodGroupUnit_AddPods_def g1_def env_ok_def)
    have good2: "unit_good t (PodGroupU (g1\<lparr>pgu_queuedPodInfoMap := [pod_UID q \<mapsto> ?i] ++ wp_pods wp\<rparr>))"
      using unit_good_AddPods [OF good, of "waitingPods_GetPods (ev_ord e) wp"] add by simp
    have "data_wf w" using w by (simp add: wpl_ok_def)
    then show ?thesis using Inr u1 w Some good2 add i wpl_ok_delete [OF w, of ?k]
      by (auto simp: createUnitInfo_def Let_def created_ok_def NewQueuedUnitInfo_def wpl_entry_def
          map_add_def split: option.splits)
  qed
qed

text \<open>The pod info held for a UID in the unit of a key: in a sub-queue or among the waiting pods.\<close>

definition holds_pod :: "PriorityQueue \<Rightarrow> key \<Rightarrow> string \<Rightarrow> QueuedPodInfo \<Rightarrow> bool" where
  "holds_pod p k uid i \<longleftrightarrow>
     (\<exists>n u. contents (pq_queues p) n k = Some u \<and> unit_find (qui_ScheduleUnit u) uid = Some i) \<or>
     wp_pods (wpl_entry (pq_waitingPodsList p) k) uid = Some i"

text \<open>The unit info made by the first half of an operation can be stored, or there is none and the pod is
  of a group that is not queued.\<close>

definition half_ok :: "ScheduleUnitType set \<Rightarrow> queue_conf \<Rightarrow> pod \<Rightarrow> PriorityQueue \<Rightarrow> PriorityQueue \<Rightarrow> unit_error + QueuedUnitInfo \<Rightarrow> bool" where
  "half_ok t c q p p1 r \<longleftrightarrow>
     (case r of
        Inl _ \<Rightarrow> p1 = p \<and> GetPodGroupName q \<noteq> [] \<and> \<not> in_queues (pq_queues p) (GetUnitIdentifier q)
      | Inr u \<Rightarrow>
          pq_out t c (GetUnitIdentifier q) p1 \<and> qui_UnitKey u = GetUnitIdentifier q \<and>
          unit_good t (qui_ScheduleUnit u) \<and>
          (\<forall>n j. j \<noteq> GetUnitIdentifier q \<longrightarrow> contents (pq_queues p1) n j = contents (pq_queues p) n j) \<and>
          (\<exists>i. unit_find (qui_ScheduleUnit u) (pod_UID q) = Some i \<and>
             (wp_pods (wpl_entry (pq_waitingPodsList p) (GetUnitIdentifier q)) (pod_UID q) = None \<longrightarrow>
              qpi_Pod i = Some q)))"

lemma create_half:
  assumes "pq_inv t c p" "env_ok e" "\<not> in_queues (pq_queues p) (GetUnitIdentifier q)" "pod_kind q \<in> t"
  shows "\<exists>w r. createUnitInfo e (pq_waitingPodsList p) q = Some (w, r) \<and>
               half_ok t c q p (p\<lparr>pq_waitingPodsList := w\<rparr>) r"
proof -
  let ?w = "pq_waitingPodsList p" and ?k = "GetUnitIdentifier q"
  obtain w r where w: "createUnitInfo e ?w q = Some (w, r)" "wpl_ok w" "created_ok t ?w w q r"
    using createUnitInfo_spec [of ?w e q t] assms by (auto simp: pq_inv_def)
  show ?thesis
  proof (cases r)
    case (Inl err)
    then show ?thesis using w assms(3) by (auto simp: half_ok_def created_ok_def)
  next
    case (Inr u)
    have g: "Heap_GetByKey w = (Heap_GetByKey ?w)(?k := None)" using w(3) Inr by (simp add: created_ok_def)
    have "pq_inv t c (p\<lparr>pq_waitingPodsList := w\<rparr>)"
      using assms(1) w(2) g unfolding pq_inv_def by auto
    then have "pq_out t c ?k (p\<lparr>pq_waitingPodsList := w\<rparr>)"
      by (rule pq_out_new) (use assms(3) g in simp_all)
    then show ?thesis using w Inr by (auto simp: half_ok_def created_ok_def)
  qed
qed

lemma addPodToUnitInfo_spec:
  assumes "pq_inv t c p" "env_ok e" "pod_kind q \<in> t"
  shows "\<exists>p1 n r. addPodToUnitInfo c e p q = Some (p1, n, r) \<and> half_ok t c q p p1 r"
proof -
  let ?k = "GetUnitIdentifier q" and ?i = "newQueuedPodInfo (ev_now e) q"
  have i: "qpi_Pod ?i = Some q" by (simp add: newQueuedPodInfo_def)
  from find_spec [OF assms(1), of ?k] show ?thesis
  proof (elim disjE exE conjE)
    assume f: "findAndRemoveUnitFromQueue c p ?k = Some (p, None)" "\<not> in_queues (pq_queues p) ?k"
    then show ?thesis
      using create_half [OF assms(1,2) f(2) assms(3)] by (auto simp: addPodToUnitInfo_def)
  next
    fix qs n u
    assume f: "findAndRemoveUnitFromQueue c p ?k = Some (p\<lparr>pq_queues := qs\<rparr>, Some (n, u))"
      "qui_UnitKey u = ?k" "unit_good t (qui_ScheduleUnit u)" "pq_out t c ?k (p\<lparr>pq_queues := qs\<rparr>)"
      "\<forall>m j. contents qs m j = (if m = n \<and> j = ?k then None else contents (pq_queues p) m j)"
    obtain su where a: "unit_AddPod (qui_ScheduleUnit u) ?i = (su, Inr ())"
      using unit_AddPod_result [OF i, of "qui_ScheduleUnit u"]
      by (cases "unit_AddPod (qui_ScheduleUnit u) ?i") auto
    then have su: "fst (unit_AddPod (qui_ScheduleUnit u) ?i) = su" by simp
    note ok = unit_good_cases [OF f(3)]
    have "unit_good t su" using ok unit_good_AddPod [OF _ _ i, of "qui_ScheduleUnit u"] su by blast
    moreover have "unit_find su (pod_UID q) = Some ?i"
      using uh.add_find [OF _ i, of "qui_ScheduleUnit u"] ok su by auto
    ultimately have "half_ok t c q p (p\<lparr>pq_queues := qs\<rparr>) (Inr (u\<lparr>qui_ScheduleUnit := su\<rparr>))"
      using f i by (simp add: half_ok_def)
    moreover have "addPodToUnitInfo c e p q =
        Some (p\<lparr>pq_queues := qs\<rparr>, Some n, Inr (u\<lparr>qui_ScheduleUnit := su\<rparr>))"
      unfolding addPodToUnitInfo_def f(1) by (simp add: a)
    ultimately show ?thesis by blast
  qed
qed

lemma updatePodInUnitInfo_spec:
  assumes "pq_inv t c p" "env_ok e" "pod_kind newPod \<in> t"
  shows "\<exists>p1 n r. updatePodInUnitInfo c e p oldPod newPod = Some (p1, n, r) \<and> half_ok t c newPod p p1 r"
proof -
  let ?k = "GetUnitIdentifier newPod"
  from find_spec [OF assms(1), of ?k] show ?thesis
  proof (elim disjE exE conjE)
    assume f: "findAndRemoveUnitFromQueue c p ?k = Some (p, None)" "\<not> in_queues (pq_queues p) ?k"
    then show ?thesis
      using create_half [OF assms(1,2) f(2) assms(3)] by (auto simp: updatePodInUnitInfo_def)
  next
    fix qs n u
    assume f: "findAndRemoveUnitFromQueue c p ?k = Some (p\<lparr>pq_queues := qs\<rparr>, Some (n, u))"
      "qui_UnitKey u = ?k" "unit_good t (qui_ScheduleUnit u)" "pq_out t c ?k (p\<lparr>pq_queues := qs\<rparr>)"
      "\<forall>m j. contents qs m j = (if m = n \<and> j = ?k then None else contents (pq_queues p) m j)"
    let ?su = "qui_ScheduleUnit u"
    note ok = unit_good_cases [OF f(3)]
    define v where "v = (case unit_find ?su (pod_UID oldPod) of
        Some i \<Rightarrow> fst (unit_AddPod (fst (unit_DeletePod ?su i)) (updatePodInfo i newPod))
      | None \<Rightarrow> fst (unit_AddPod ?su (newQueuedPodInfo (ev_now e) newPod)))"
    have get: "unit_GetPod ?su (newQueuedPodInfoForLookup oldPod) = Some (unit_find ?su (pod_UID oldPod))"
      using ok by (intro unit_GetPod_find) (auto simp: newQueuedPodInfoForLookup_def)
    have v: "unit_good t v \<and> (\<exists>i. unit_find v (pod_UID newPod) = Some i \<and> qpi_Pod i = Some newPod)"
    proof (cases "unit_find ?su (pod_UID oldPod)")
      case None
      have i: "qpi_Pod (newQueuedPodInfo (ev_now e) newPod) = Some newPod" by (simp add: newQueuedPodInfo_def)
      then show ?thesis
        using None ok unit_good_AddPod [of ?su _ newPod t] uh.add_find [of ?su _ newPod] by (auto simp: v_def)
    next
      case (Some i)
      let ?d = "fst (unit_DeletePod ?su i)"
      have j: "qpi_Pod (updatePodInfo i newPod) = Some newPod" by (simp add: updatePodInfo_def)
      have "unit_ok ?d" "unit_complete ?d \<or> unit_Type ?d = SinglePodUnitType" "unit_Type ?d \<in> t"
        using ok uh.del_ok [of ?su i] unit_complete_DeletePod [of ?su i] by auto
      then show ?thesis
        using Some j unit_good_AddPod [of ?d _ newPod t] uh.add_find [of ?d _ newPod] by (auto simp: v_def)
    qed
    have "half_ok t c newPod p (p\<lparr>pq_queues := qs\<rparr>) (Inr (u\<lparr>qui_ScheduleUnit := v\<rparr>))"
      using f v by (auto simp: half_ok_def)
    moreover have "updatePodInUnitInfo c e p oldPod newPod =
        Some (p\<lparr>pq_queues := qs\<rparr>, Some n, Inr (u\<lparr>qui_ScheduleUnit := v\<rparr>))"
      unfolding updatePodInUnitInfo_def f(1) v_def by (simp add: get Let_def)
    ultimately show ?thesis by blast
  qed
qed

text \<open>Storing what the first half made.\<close>

lemma half_store:
  assumes "half_ok t c q p p1 (Inr u)"
    "\<forall>m j. contents qs m j = (if m = n \<and> j = GetUnitIdentifier q then Some u else contents (pq_queues p1) m j)"
    "pq_queues p2 = qs"
  shows "(\<exists>i. holds_pod p2 (GetUnitIdentifier q) (pod_UID q) i \<and>
            (wp_pods (wpl_entry (pq_waitingPodsList p) (GetUnitIdentifier q)) (pod_UID q) = None \<longrightarrow>
             qpi_Pod i = Some q)) \<and>
         (\<forall>m j. j \<noteq> GetUnitIdentifier q \<longrightarrow> contents (pq_queues p2) m j = contents (pq_queues p) m j)"
proof -
  let ?k = "GetUnitIdentifier q"
  have c: "contents (pq_queues p2) m j = (if m = n \<and> j = ?k then Some u else contents (pq_queues p1) m j)" for m j
    using assms(2,3) by simp
  obtain i where i: "unit_find (qui_ScheduleUnit u) (pod_UID q) = Some i"
    "wp_pods (wpl_entry (pq_waitingPodsList p) ?k) (pod_UID q) = None \<longrightarrow> qpi_Pod i = Some q"
    and o: "\<forall>n j. j \<noteq> ?k \<longrightarrow> contents (pq_queues p1) n j = contents (pq_queues p) n j"
    using assms(1) by (auto simp: half_ok_def)
  have "holds_pod p2 ?k (pod_UID q) i" unfolding holds_pod_def using c [of n ?k] i(1) by auto
  then show ?thesis using i(2) o c by auto
qed

lemma waiting_inv:
  assumes "pq_inv t c p" "wpl_ok w" "\<not> in_queues (pq_queues p) k" "PodGroupUnitType \<in> t"
    "Heap_GetByKey w = (Heap_GetByKey (pq_waitingPodsList p))(k \<mapsto> wp)"
  shows "pq_inv t c (p\<lparr>pq_waitingPodsList := w\<rparr>)"
  using assms unfolding pq_inv_def by auto

definition stores_pod :: "pod \<Rightarrow> PriorityQueue \<Rightarrow> PriorityQueue \<Rightarrow> bool" where
  "stores_pod q p p' \<longleftrightarrow>
     (\<exists>i. holds_pod p' (GetUnitIdentifier q) (pod_UID q) i \<and>
        (wp_pods (wpl_entry (pq_waitingPodsList p) (GetUnitIdentifier q)) (pod_UID q) = None \<longrightarrow>
         qpi_Pod i = Some q)) \<and>
     (\<forall>m j. j \<noteq> GetUnitIdentifier q \<longrightarrow> contents (pq_queues p') m j = contents (pq_queues p) m j)"

lemma stores_pod_timestamp [simp]:
  "stores_pod q (p\<lparr>pq_latestOperationTimestamp := now\<rparr>) p' = stores_pod q p p'"
  by (simp add: stores_pod_def)

lemma pq_Add_spec:
  assumes "pq_inv t c p0" "env_ok e" "pod_kind q \<in> t"
  shows "\<exists>p'. pq_Add c e p0 q = Some (p', Inr ()) \<and> pq_inv t c p' \<and> stores_pod q p0 p'"
proof -
  define p where "p = p0\<lparr>pq_latestOperationTimestamp := ev_now e\<rparr>"
  have inv: "pq_inv t c p" using assms(1) by (simp add: p_def)
  let ?k = "GetUnitIdentifier q"
  obtain p1 n r where a: "addPodToUnitInfo c e p q = Some (p1, n, r)" "half_ok t c q p p1 r"
    using addPodToUnitInfo_spec [OF inv assms(2,3)] by blast
  show ?thesis
  proof (cases r)
    case (Inl err)
    have p1: "p1 = p" "GetPodGroupName q \<noteq> []" "\<not> in_queues (pq_queues p) ?k"
      using a(2) Inl by (auto simp: half_ok_def)
    have grp: "PodGroupUnitType \<in> t" using assms(3) p1(2) by (simp add: pod_kind_def)
    have "wpl_ok (pq_waitingPodsList p)" using inv by (simp add: pq_inv_def)
    from waitingPodsList_Add_spec [OF this p1(2), of "ev_now e"] obtain w wp where
      w: "waitingPodsList_Add (ev_now e) (pq_waitingPodsList p) q = Some (w, Inr ())" "wpl_ok w"
        "Heap_GetByKey w = (Heap_GetByKey (pq_waitingPodsList p))(?k \<mapsto> wp)"
        "wp_pods wp (pod_UID q) = Some (newQueuedPodInfo (ev_now e) q)"
      by auto
    have "holds_pod (p\<lparr>pq_waitingPodsList := w\<rparr>) ?k (pod_UID q) (newQueuedPodInfo (ev_now e) q)"
      using w(3,4) by (simp add: holds_pod_def wpl_entry_def)
    then have "stores_pod q p (p\<lparr>pq_waitingPodsList := w\<rparr>)"
      by (auto simp: stores_pod_def newQueuedPodInfo_def)
    then show ?thesis
      using waiting_inv [OF inv w(2) p1(3) grp w(3)] a(1) Inl w(1) p1(1)
      by (simp add: pq_Add_def p_def)
  next
    case (Inr u)
    let ?n = "if n = Some BackoffQ then BackoffQ else if readyToBeScheduled e u then ReadyQ else WaitingQ"
    have h: "half_ok t c q p p1 (Inr u)" using a(2) Inr by simp
    then have out: "pq_out t c ?k p1" "qui_UnitKey u = ?k" "unit_good t (qui_ScheduleUnit u)"
      by (auto simp: half_ok_def)
    obtain qs hp where s: "put_priority p1 u = Some (p1\<lparr>pq_priorityHeap := hp\<rparr>)"
      "put_unit c (p1\<lparr>pq_priorityHeap := hp\<rparr>) ?n u = Some (p1\<lparr>pq_priorityHeap := hp, pq_queues := qs\<rparr>, Inr ())"
      "pq_inv t c (p1\<lparr>pq_priorityHeap := hp, pq_queues := qs\<rparr>)"
      "\<forall>m j. contents qs m j = (if m = ?n \<and> j = ?k then Some u else contents (pq_queues p1) m j)"
      using store_spec [OF out, of ?n] by blast
    have "stores_pod q p (p1\<lparr>pq_priorityHeap := hp, pq_queues := qs\<rparr>)"
      unfolding stores_pod_def by (rule half_store [OF h s(4)]) simp
    then show ?thesis using a(1) Inr s(1-3) by (simp add: pq_Add_def p_def Let_def)
  qed
qed

lemma pq_Update_spec:
  assumes "pq_inv t c p0" "env_ok e" "pod_kind newPod \<in> t"
  shows "\<exists>p'. pq_Update c e p0 oldPod newPod = Some (p', Inr ()) \<and> pq_inv t c p' \<and> stores_pod newPod p0 p'"
proof -
  define p where "p = p0\<lparr>pq_latestOperationTimestamp := ev_now e\<rparr>"
  have inv: "pq_inv t c p" using assms(1) by (simp add: p_def)
  let ?k = "GetUnitIdentifier newPod"
  obtain p1 n r where a: "updatePodInUnitInfo c e p oldPod newPod = Some (p1, n, r)" "half_ok t c newPod p p1 r"
    using updatePodInUnitInfo_spec [OF inv assms(2,3)] by blast
  show ?thesis
  proof (cases r)
    case (Inl err)
    have p1: "p1 = p" "GetPodGroupName newPod \<noteq> []" "\<not> in_queues (pq_queues p) ?k"
      using a(2) Inl by (auto simp: half_ok_def)
    have grp: "PodGroupUnitType \<in> t" using assms(3) p1(2) by (simp add: pod_kind_def)
    have "wpl_ok (pq_waitingPodsList p)" using inv by (simp add: pq_inv_def)
    from waitingPodsList_Update_spec [OF this p1(2), of "ev_now e" oldPod] obtain w wp i where
      w: "waitingPodsList_Update (ev_now e) (pq_waitingPodsList p) oldPod newPod = Some (w, Inr ())" "wpl_ok w"
        "Heap_GetByKey w = (Heap_GetByKey (pq_waitingPodsList p))(?k \<mapsto> wp)"
        "wp_pods wp (pod_UID newPod) = Some i" "qpi_Pod i = Some newPod"
      by auto
    have "holds_pod (p\<lparr>pq_waitingPodsList := w\<rparr>) ?k (pod_UID newPod) i"
      using w(3,4) by (simp add: holds_pod_def wpl_entry_def)
    then have "stores_pod newPod p (p\<lparr>pq_waitingPodsList := w\<rparr>)"
      using w(5) by (auto simp: stores_pod_def)
    then show ?thesis
      using waiting_inv [OF inv w(2) p1(3) grp w(3)] a(1) Inl w(1) p1(1)
      by (simp add: pq_Update_def p_def)
  next
    case (Inr u)
    let ?n = "case n of
        Some q \<Rightarrow>
          if q = UnschedulableQ \<and> isPodUpdated (Some oldPod) (Some newPod) then
            (if isUnitBackoff (cf_boHandler c) (ev_now e) u then BackoffQ
             else if readyToBeScheduled e u then ReadyQ else WaitingQ)
          else q
      | None \<Rightarrow> if readyToBeScheduled e u then ReadyQ else WaitingQ"
    have h: "half_ok t c newPod p p1 (Inr u)" using a(2) Inr by simp
    then have out: "pq_out t c ?k p1" "qui_UnitKey u = ?k" "unit_good t (qui_ScheduleUnit u)"
      by (auto simp: half_ok_def)
    obtain qs hp where s: "put_unit c p1 ?n u = Some (p1\<lparr>pq_queues := qs\<rparr>, Inr ())"
      "put_priority (p1\<lparr>pq_queues := qs\<rparr>) u = Some (p1\<lparr>pq_queues := qs, pq_priorityHeap := hp\<rparr>)"
      "pq_inv t c (p1\<lparr>pq_queues := qs, pq_priorityHeap := hp\<rparr>)"
      "\<forall>m j. contents qs m j = (if m = ?n \<and> j = ?k then Some u else contents (pq_queues p1) m j)"
      using store_spec' [OF out, of ?n] by blast
    have "stores_pod newPod p (p1\<lparr>pq_queues := qs, pq_priorityHeap := hp\<rparr>)"
      unfolding stores_pod_def by (rule half_store [OF h s(4)]) simp
    then show ?thesis using a(1) Inr s(1-3) by (simp add: pq_Update_def p_def Let_def)
  qed
qed

lemma pq_Delete_spec:
  assumes "pq_inv t c p0"
  shows "\<exists>p' r. pq_Delete c e p0 q = Some (p', r) \<and> pq_inv t c p' \<and>
     (\<forall>i. \<not> holds_pod p' (GetUnitIdentifier q) (pod_UID q) i) \<and>
     (\<forall>m j. j \<noteq> GetUnitIdentifier q \<longrightarrow> contents (pq_queues p') m j = contents (pq_queues p0) m j)"
proof -
  define p where "p = p0\<lparr>pq_latestOperationTimestamp := ev_now e\<rparr>"
  have inv: "pq_inv t c p" and qp: "pq_queues p0 = pq_queues p" using assms(1) by (simp_all add: p_def)
  let ?k = "GetUnitIdentifier q" and ?w = "pq_waitingPodsList p"
  have "wpl_ok ?w" using inv by (simp add: pq_inv_def)
  from waitingPodsList_Delete_spec [OF this, of q] obtain w where
    w: "waitingPodsList_Delete ?w q = Some (w, Inr ())" "wpl_ok w"
      "dom (Heap_GetByKey w) \<subseteq> dom (Heap_GetByKey ?w)"
      "wp_pods (wpl_entry w ?k) = (wp_pods (wpl_entry ?w ?k))(pod_UID q := None)"
    by blast
  have gone: "wp_pods (wpl_entry w ?k) (pod_UID q) = None" using w(4) by simp
  from find_spec [OF inv, of ?k] show ?thesis
  proof (elim disjE exE conjE)
    assume f: "findAndRemoveUnitFromQueue c p ?k = Some (p, None)" "\<not> in_queues (pq_queues p) ?k"
    have "pq_Delete c e p0 q = Some (p\<lparr>pq_waitingPodsList := w\<rparr>, Inr ())"
      using f(1) w(1) by (simp add: pq_Delete_def deletePodFromUnitInfo_def p_def [symmetric])
    moreover have "pq_inv t c (p\<lparr>pq_waitingPodsList := w\<rparr>)"
      using inv w(2) subsetD [OF w(3)] unfolding pq_inv_def by simp blast
    moreover have "\<not> holds_pod (p\<lparr>pq_waitingPodsList := w\<rparr>) ?k (pod_UID q) i" for i
      using f(2) gone by (auto simp: holds_pod_def in_queues_iff)
    ultimately show ?thesis by (auto simp: qp)
  next
    fix qs n u
    assume f: "findAndRemoveUnitFromQueue c p ?k = Some (p\<lparr>pq_queues := qs\<rparr>, Some (n, u))"
      "qui_UnitKey u = ?k" "unit_good t (qui_ScheduleUnit u)" "pq_out t c ?k (p\<lparr>pq_queues := qs\<rparr>)"
      "\<forall>m j. contents qs m j = (if m = n \<and> j = ?k then None else contents (pq_queues p) m j)"
    let ?l = "newQueuedPodInfoForLookup q" and ?su = "qui_ScheduleUnit u"
    define v where "v = u\<lparr>qui_ScheduleUnit := fst (unit_DeletePod ?su ?l)\<rparr>"
    define p2 where "p2 = p\<lparr>pq_queues := qs, pq_waitingPodsList := w\<rparr>"
    have find: "unit_find (qui_ScheduleUnit v) (pod_UID q) = None"
      using uh.del_find [of ?su ?l q] f(3)
      by (simp add: v_def unit_good_def newQueuedPodInfoForLookup_def)
    have out: "pq_out t c ?k p2" using f(4) w(2) subsetD [OF w(3)] unfolding pq_out_def p2_def by simp blast
    have eq: "pq_Delete c e p0 q =
        (if unit_NumPods (qui_ScheduleUnit v) = 0 then del_priority p2 v
         else if n \<noteq> WaitingQ \<and> \<not> readyToBeScheduled e v then put_unit c p2 WaitingQ v
         else put_unit c p2 n v)"
      using f(1) w(1)
      by (simp add: pq_Delete_def deletePodFromUnitInfo_def p_def [symmetric] v_def p2_def)
    show ?thesis
    proof (cases "unit_NumPods (qui_ScheduleUnit v) = 0")
      case True
      obtain h r where h: "del_priority p2 v = Some (p2\<lparr>pq_priorityHeap := h\<rparr>, r)" "prio_ok h"
        "Heap_GetByKey h = (Heap_GetByKey (pq_priorityHeap p2))(?k := None)"
        using del_priority_spec [of p2 v] out f(2) by (auto simp: pq_out_def v_def)
      have "pq_inv t c (p2\<lparr>pq_priorityHeap := h\<rparr>)"
        using out h(2,3) unfolding pq_out_def pq_inv_def by (auto split: if_splits)
      moreover have "\<not> holds_pod (p2\<lparr>pq_priorityHeap := h\<rparr>) ?k (pod_UID q) i" for i
        using out gone by (auto simp: holds_pod_def pq_out_def in_queues_iff p2_def)
      ultimately show ?thesis using eq True h(1) f(5) by (simp add: qp p2_def)
    next
      case False
      define m where "m = (if n \<noteq> WaitingQ \<and> \<not> readyToBeScheduled e v then WaitingQ else n)"
      have good: "unit_good t (qui_ScheduleUnit v)"
        using unit_good_DeletePod [OF f(3), of ?l] False by (simp add: v_def)
      have k: "qui_UnitKey v = ?k" using f(2) by (simp add: v_def)
      obtain qs' where s: "put_unit c p2 m v = Some (p2\<lparr>pq_queues := qs'\<rparr>, Inr ())"
        "pq_inv t c (p2\<lparr>pq_queues := qs'\<rparr>)"
        "\<forall>l j. contents qs' l j = (if l = m \<and> j = ?k then Some v else contents (pq_queues p2) l j)"
        using put_unit_spec [OF out k good, of m] by blast
      have "\<not> holds_pod (p2\<lparr>pq_queues := qs'\<rparr>) ?k (pod_UID q) i" for i
        using s(3) out gone find by (auto simp: holds_pod_def pq_out_def in_queues_iff p2_def split: if_splits)
      moreover have "pq_Delete c e p0 q = put_unit c p2 m v" using eq False by (simp add: m_def)
      ultimately show ?thesis using s f(5) by (simp add: qp p2_def)
    qed
  qed
qed

subsection \<open>Units that failed, moves and flushes\<close>

lemma pq_AddUnschedulable_spec:
  assumes "pq_inv t c p0" "unit_good t (qui_ScheduleUnit u0)"
    "qui_UnitKey u0 \<notin> dom (Heap_GetByKey (pq_waitingPodsList p0))"
  shows "\<exists>p' n u. pq_AddUnschedulableIfNotPresent c e p0 (Some u0) cycle = Some (p', Inr ()) \<and> pq_inv t c p' \<and>
     contents (pq_queues p') n (qui_UnitKey u0) = Some u \<and> qui_Timestamp u = ev_now e \<and>
     n = (if pq_moveRequestCycle p0 \<ge> cycle \<and> \<not> schedulingStatusTimeout e u then BackoffQ else UnschedulableQ)"
proof -
  define p where "p = p0\<lparr>pq_latestOperationTimestamp := ev_now e\<rparr>"
  have inv: "pq_inv t c p" and cyc: "pq_moveRequestCycle p = pq_moveRequestCycle p0"
    using assms(1) by (simp_all add: p_def)
  let ?k = "qui_UnitKey u0"
  obtain p1 r where f: "findAndRemoveUnitFromQueue c p ?k = Some (p1, r)" "pq_out t c ?k p1"
    "pq_moveRequestCycle p1 = pq_moveRequestCycle p0"
    using find_spec [OF inv, of ?k]
  proof (elim disjE exE conjE)
    assume a: "findAndRemoveUnitFromQueue c p ?k = Some (p, None)" "\<not> in_queues (pq_queues p) ?k"
    have "pq_out t c ?k p" by (rule pq_out_new [OF inv a(2)]) (use assms(3) in \<open>auto simp: p_def\<close>)
    then show thesis using that a(1) cyc by blast
  next
    fix qs n u
    assume "findAndRemoveUnitFromQueue c p ?k = Some (p\<lparr>pq_queues := qs\<rparr>, Some (n, u))"
      "pq_out t c ?k (p\<lparr>pq_queues := qs\<rparr>)"
    then show thesis using that cyc by auto
  qed
  define u where "u = u0\<lparr>qui_ScheduleUnit := (case r of
        Some (_, u') \<Rightarrow> fst (unit_AddPodsIfNotPresent (qui_ScheduleUnit u0) (unit_GetPods (ev_ord e) (qui_ScheduleUnit u')))
      | None \<Rightarrow> qui_ScheduleUnit u0), qui_Timestamp := ev_now e\<rparr>"
  let ?n = "if pq_moveRequestCycle p1 \<ge> cycle \<and> \<not> schedulingStatusTimeout e u then BackoffQ else UnschedulableQ"
  have good: "unit_good t (qui_ScheduleUnit u)"
    using assms(2) unit_good_AddPods [OF assms(2)] by (auto simp: u_def split: option.split)
  have k: "qui_UnitKey u = ?k" by (simp add: u_def)
  obtain qs h where s: "put_priority p1 u = Some (p1\<lparr>pq_priorityHeap := h\<rparr>)"
    "put_unit c (p1\<lparr>pq_priorityHeap := h\<rparr>) ?n u = Some (p1\<lparr>pq_priorityHeap := h, pq_queues := qs\<rparr>, Inr ())"
    "pq_inv t c (p1\<lparr>pq_priorityHeap := h, pq_queues := qs\<rparr>)"
    "\<forall>m j. contents qs m j = (if m = ?n \<and> j = ?k then Some u else contents (pq_queues p1) m j)"
    using store_spec [OF f(2) k good, of ?n] by blast
  have num: "unit_NumPods (qui_ScheduleUnit u0) \<noteq> 0" using assms(2) by (simp add: unit_good_def)
  have "pq_AddUnschedulableIfNotPresent c e p0 (Some u0) cycle =
      Some (p1\<lparr>pq_priorityHeap := h, pq_queues := qs\<rparr>, Inr ())"
    unfolding pq_AddUnschedulableIfNotPresent_def Let_def p_def [symmetric] option.case f(1)
    using num s(1,2) by (simp add: u_def [symmetric] cong: if_cong)
  then show ?thesis using s(3,4) f(3) by (intro exI [of _ "p1\<lparr>pq_priorityHeap := h, pq_queues := qs\<rparr>"] exI [of _ ?n] exI [of _ u])
    (auto simp: u_def)
qed

definition move_target :: "queue_conf \<Rightarrow> queue_env \<Rightarrow> QueuedUnitInfo \<Rightarrow> qname" where
  "move_target c e u = (if isUnitBackoff (cf_boHandler c) (ev_now e) u then BackoffQ else ReadyQ)"

lemma move_loop_spec:
  assumes "family_inv t (sub_less c) qs" "\<forall>u\<in>set us. contents qs UnschedulableQ (qui_UnitKey u) = Some u"
    "distinct (map qui_UnitKey us)"
  shows "\<exists>qs'. move_loop c (ev_now e) qs us = Some qs' \<and> family_inv t (sub_less c) qs' \<and>
     (\<forall>m j. contents qs' m j = relocate UnschedulableQ (\<lambda>u. u \<in> set us) (move_target c e) qs m j)"
proof (rule relocate_loop [where lessf = "sub_less c" and loop = "move_loop c (ev_now e)", OF _ _ _ assms(1,2,3)])
  fix qs u us assume "family_inv t (sub_less c) qs" "contents qs UnschedulableQ (qui_UnitKey u) = Some u"
  moreover have "move_target c e u \<noteq> UnschedulableQ" by (simp add: move_target_def)
  ultimately obtain qs1 r qs2 r' where
    "q_Add (sub_less c) qs (move_target c e u) u = Some (qs1, r)"
    "q_Delete (sub_less c) qs1 UnschedulableQ u = Some (qs2, r')" "family_inv t (sub_less c) qs2"
    "\<forall>l j. contents qs2 l j =
       (if j = qui_UnitKey u then if l = move_target c e u then Some u else None else contents qs l j)"
    using q_move_spec [of t "sub_less c" qs UnschedulableQ u "move_target c e u"] by blast
  then show "\<exists>qs'. move_loop c (ev_now e) qs (u # us) = move_loop c (ev_now e) qs' us \<and>
      family_inv t (sub_less c) qs' \<and>
      (\<forall>m j. contents qs' m j =
         (if j = qui_UnitKey u then if m = move_target c e u then Some u else None else contents qs m j))"
    by (intro exI [of _ qs2]) (simp add: move_target_def Let_def)
qed (simp_all add: move_target_def)

lemma objects_members:
  assumes "family_inv t lessf qs"
  shows "\<forall>u\<in>set (filter P (heap_objects (qs n))). contents qs n (qui_UnitKey u) = Some u"
    and "distinct (map qui_UnitKey (filter P (heap_objects (qs n))))"
proof -
  note wf = family_wf [OF assms, of n]
  show "\<forall>u\<in>set (filter P (heap_objects (qs n))). contents qs n (qui_UnitKey u) = Some u"
    using family_key [OF assms] by (auto simp: heap_objects_set [OF wf] ran_def)
  have "distinct (map qui_UnitKey (heap_objects (qs n)))"
    using heap_objects_distinct [OF wf, of qui_UnitKey] family_key [OF assms] by blast
  then show "distinct (map qui_UnitKey (filter P (heap_objects (qs n))))"
    by (rule distinct_map_filter)
qed

text \<open>The moves out of the unschedulable queue: the units that satisfy the condition go to the ready or
  the backoff queue, all others stay, and the move is recorded for the running cycles.\<close>

lemma move_units_spec:
  assumes "pq_inv t c p"
  shows "\<exists>p'. moveUnitsToReadyOrBackoffQueue c e p (filter P (heap_objects (pq_queues p UnschedulableQ))) = Some p' \<and>
     pq_inv t c p' \<and> pq_moveRequestCycle p' = pq_schedulingCycle p \<and>
     (\<forall>m j. contents (pq_queues p') m j = relocate UnschedulableQ P (move_target c e) (pq_queues p) m j)"
proof -
  let ?us = "filter P (heap_objects (pq_queues p UnschedulableQ))"
  have fam: "family_inv t (sub_less c) (pq_queues p)" using assms(1) by (simp add: pq_inv_def)
  obtain qs where q: "move_loop c (ev_now e) (pq_queues p) ?us = Some qs" "family_inv t (sub_less c) qs"
    "\<forall>m j. contents qs m j = relocate UnschedulableQ (\<lambda>u. u \<in> set ?us) (move_target c e) (pq_queues p) m j"
    using move_loop_spec [OF fam objects_members [OF fam], where e = e] by blast
  have "relocate UnschedulableQ (\<lambda>u. u \<in> set ?us) (move_target c e) (pq_queues p) =
      relocate UnschedulableQ P (move_target c e) (pq_queues p)"
    by (rule relocate_cong) (auto simp: heap_objects_set [OF family_wf [OF fam]] ran_def)
  with q(3) have c: "contents qs m j = relocate UnschedulableQ P (move_target c e) (pq_queues p) m j" for m j
    by simp
  have "pq_inv t c (p\<lparr>pq_queues := qs\<rparr>)"
    by (rule pq_inv_queues [OF assms(1) q(2)]) (rule relocate_in_queues [OF c])
  then have "pq_inv t c (p\<lparr>pq_queues := qs, pq_moveRequestCycle := pq_schedulingCycle p\<rparr>)"
    by (simp add: pq_inv_def)
  then show ?thesis using q(1) c by (simp add: moveUnitsToReadyOrBackoffQueue_def)
qed

lemma flushScheduled_spec:
  assumes "pq_inv t c p"
  shows "\<exists>p'. pq_flushScheduledUnitsInWaitingQ c e p = Some p' \<and> pq_inv t c p' \<and>
     (\<forall>m j. contents (pq_queues p') m j = relocate WaitingQ (readyToBeScheduled e) (\<lambda>_. ReadyQ) (pq_queues p) m j)"
proof -
  let ?us = "filter (readyToBeScheduled e) (heap_objects (pq_queues p WaitingQ))"
  have fam: "family_inv t (sub_less c) (pq_queues p)" using assms(1) by (simp add: pq_inv_def)
  have "\<exists>qs'. flush_scheduled_loop c (pq_queues p) ?us = Some qs' \<and> family_inv t (sub_less c) qs' \<and>
     (\<forall>m j. contents qs' m j = relocate WaitingQ (\<lambda>u. u \<in> set ?us) (\<lambda>_. ReadyQ) (pq_queues p) m j)"
  proof (rule relocate_loop [where lessf = "sub_less c" and loop = "flush_scheduled_loop c", OF _ _ _ fam objects_members [OF fam]])
    fix qs u us assume "family_inv t (sub_less c) qs" "contents qs WaitingQ (qui_UnitKey u) = Some u"
    from q_move_spec' [OF this(1) this(2), of ReadyQ]
    show "\<exists>qs'. flush_scheduled_loop c qs (u # us) = flush_scheduled_loop c qs' us \<and>
        family_inv t (sub_less c) qs' \<and>
        (\<forall>m j. contents qs' m j =
           (if j = qui_UnitKey u then if m = ReadyQ then Some u else None else contents qs m j))"
      by (auto split: prod.splits)
  qed simp_all
  then obtain qs where q: "flush_scheduled_loop c (pq_queues p) ?us = Some qs" "family_inv t (sub_less c) qs"
    "\<forall>m j. contents qs m j = relocate WaitingQ (\<lambda>u. u \<in> set ?us) (\<lambda>_. ReadyQ) (pq_queues p) m j"
    by blast
  have "relocate WaitingQ (\<lambda>u. u \<in> set ?us) (\<lambda>_. ReadyQ) (pq_queues p) =
      relocate WaitingQ (readyToBeScheduled e) (\<lambda>_. ReadyQ) (pq_queues p)"
    by (rule relocate_cong) (auto simp: heap_objects_set [OF family_wf [OF fam]] ran_def)
  with q(3) have c: "contents qs m j = relocate WaitingQ (readyToBeScheduled e) (\<lambda>_. ReadyQ) (pq_queues p) m j" for m j
    by simp
  have "pq_inv t c (p\<lparr>pq_queues := qs\<rparr>)"
    by (rule pq_inv_queues [OF assms(1) q(2)]) (rule relocate_in_queues [OF c])
  then show ?thesis using q(1) c by (simp add: pq_flushScheduledUnitsInWaitingQ_def)
qed

lemma filter_option_total:
  "\<forall>x\<in>set xs. f x \<noteq> None \<Longrightarrow> filter_option f xs = Some (filter (\<lambda>x. f x = Some True) xs)"
  by (induction xs) auto

lemma any_term_total: "\<forall>t. f t \<noteq> None \<Longrightarrow> any_term f ts \<noteq> None"
proof (induction ts)
  case (Cons t ts)
  from Cons.prems obtain b where "f t = Some b" by blast
  then show ?case using Cons by (cases b) auto
qed simp

lemma term_match_total: "s \<noteq> None \<Longrightarrow> PodMatchesTermsNamespaceAndSelector q ns s \<noteq> None"
  by (cases s) (auto simp: PodMatchesTermsNamespaceAndSelector_def)

lemma checkAffinityTerms_total:
  assumes "\<forall>s. ev_selector e s \<noteq> None" "\<forall>i\<in>set is. qpi_Pod i \<noteq> None"
  shows "checkAffinityTerms e q is \<noteq> None"
  using assms(2)
proof (induction "is")
  case (Cons i "is")
  then obtain up where up: "qpi_Pod i = Some up" by auto
  let ?f = "\<lambda>t. PodMatchesTermsNamespaceAndSelector q (GetNamespacesFromPodAffinityTerm up t)
              (ev_selector e (pat_LabelSelector t))"
  have "ev_selector e s \<noteq> None" for s using assms(1) by simp
  then have "\<forall>t. ?f t \<noteq> None" using term_match_total by blast
  then obtain b where "any_term ?f (pod_AffinityTerms up) = Some b"
    using any_term_total [of ?f] by blast
  then show ?case using Cons up by (cases b) auto
qed simp

lemma unit_GetPods_pods:
  assumes "unit_ok u" "i \<in> set (unit_GetPods ord u)"
  shows "qpi_Pod i \<noteq> None"
proof (cases u)
  case (PodGroupU p)
  then obtain uid where "pgu_queuedPodInfoMap p uid = Some i"
    using assms(2) by (auto simp: PodGroupUnit_GetPods_def set_map_filter)
  then show ?thesis using assms(1) PodGroupU by auto
qed (use assms in \<open>auto simp: SinglePodUnit_GetPods_def split: option.splits\<close>)

lemma AssignedPodAdded_spec:
  assumes "pq_inv t c p" "\<forall>s. ev_selector e s \<noteq> None"
  shows "\<exists>p'. pq_AssignedPodAdded c e p q = Some p' \<and> pq_inv t c p'"
proof -
  let ?f = "\<lambda>u. do { b \<leftarrow> checkAffinityTerms e q (unit_GetPods (ev_ord e) (qui_ScheduleUnit u));
                  Some (b \<and> \<not> schedulingStatusTimeout e u) }"
  let ?us = "heap_objects (pq_queues p UnschedulableQ)"
  have fam: "family_inv t (sub_less c) (pq_queues p)" using assms(1) by (simp add: pq_inv_def)
  have "?f u \<noteq> None" if "u \<in> set ?us" for u
  proof -
    from that obtain k where "contents (pq_queues p) UnschedulableQ k = Some u"
      by (auto simp: heap_objects_set [OF family_wf [OF fam]] ran_def)
    then have "unit_ok (qui_ScheduleUnit u)" using family_good [OF fam] by (auto simp: unit_good_def)
    then have "checkAffinityTerms e q (unit_GetPods (ev_ord e) (qui_ScheduleUnit u)) \<noteq> None"
      using unit_GetPods_pods by (intro checkAffinityTerms_total [OF assms(2)]) blast
    then show ?thesis by auto
  qed
  then have "getUnschedulablePodsWithMatchingAffinityTerm e p q = Some (filter (\<lambda>u. ?f u = Some True) ?us)"
    unfolding getUnschedulablePodsWithMatchingAffinityTerm_def by (intro filter_option_total) blast
  then show ?thesis
    using move_units_spec [OF assms(1), of e "\<lambda>u. ?f u = Some True"] by (auto simp: pq_AssignedPodAdded_def)
qed

lemma AssignedPodUpdated_eq: "pq_AssignedPodUpdated = pq_AssignedPodAdded"
  by (intro ext) (simp add: pq_AssignedPodUpdated_def pq_AssignedPodAdded_def)

text \<open>The flush of the backoff queue ends, and moves exactly the units whose backoff is over.\<close>

lemma flush_backoff_spec:
  assumes "family_inv t (sub_less c) qs"
  shows "\<exists>qs'. flush_backoff c now qs = Some qs' \<and> family_inv t (sub_less c) qs' \<and>
     (\<forall>m j. contents qs' m j =
        relocate BackoffQ (\<lambda>u. \<not> isUnitBackoff (cf_boHandler c) now u) (\<lambda>_. ReadyQ) qs m j)"
  using assms(1)
proof (induction "Heap_Len (qs BackoffQ)" arbitrary: qs rule: less_induct)
  case less
  note fam = less.prems and wf = family_wf [OF less.prems, of BackoffQ]
  let ?P = "\<lambda>u. \<not> isUnitBackoff (cf_boHandler c) now u"
  show ?case
  proof (cases "Heap_Len (qs BackoffQ) = 0")
    case True
    then have "Heap_Peek (qs BackoffQ) = Some None" using Heap_Peek_spec [OF wf] by simp
    moreover have "contents qs BackoffQ = Map.empty" using True Heap_Len_0 [OF wf] by simp
    ultimately show ?thesis using fam
      by (subst flush_backoff.simps) (simp add: relocate_def)
  next
    case False
    obtain h u where u: "Heap_Pop (sub_less c BackoffQ) (qs BackoffQ) = Some (h, Inr u)"
      "Heap_Peek (qs BackoffQ) = Some (Some u)" "contents qs BackoffQ (qui_UnitKey u) = Some u"
      "unit_good t (qui_ScheduleUnit u)" "family_inv t (sub_less c) (qs(BackoffQ := h))"
      "\<not> in_queues (qs(BackoffQ := h)) (qui_UnitKey u)"
      "\<forall>m j. contents (qs(BackoffQ := h)) m j =
         (if m = BackoffQ \<and> j = qui_UnitKey u then None else contents qs m j)"
      "\<forall>v\<in>ran (contents qs BackoffQ). \<not> sub_less c BackoffQ v u"
      using q_pop_spec [OF fam False] backoff_order by blast
    show ?thesis
    proof (cases "isUnitBackoff (cf_boHandler c) now u")
      case True
      have "\<not> ?P v" if "contents qs BackoffQ k = Some v" for k v
        using that u(8) True
        by (auto simp: isUnitBackoff_def unitsCompareBackoffCompleted_def ran_def)
      then have "relocate BackoffQ ?P (\<lambda>_. ReadyQ) qs m j = contents qs m j" for m j
        by (simp add: relocate_def split: option.split)
      then show ?thesis using fam True u(2) by (subst flush_backoff.simps) simp
    next
      case over: False
      obtain qs1 where a: "q_Add (sub_less c) (qs(BackoffQ := h)) ReadyQ u = Some (qs1, Inr ())"
        "family_inv t (sub_less c) qs1"
        "\<forall>m j. contents qs1 m j =
           (if m = ReadyQ \<and> j = qui_UnitKey u then Some u else contents (qs(BackoffQ := h)) m j)"
        using q_Add_new_spec [OF u(5) u(4,6), of ReadyQ] by blast
      have c1: "contents qs1 m j = (if j = qui_UnitKey u then if m = ReadyQ then Some u else None
          else contents qs m j)" for m j
        using a(3) u(6,7) by (auto simp: in_queues_iff)
      have "Heap_Len (qs1 BackoffQ) < Heap_Len (qs BackoffQ)"
      proof -
        have "contents qs1 BackoffQ = (contents qs BackoffQ)(qui_UnitKey u := None)"
          using c1 by (auto simp: fun_eq_iff)
        then have "dom (contents qs1 BackoffQ) = dom (contents qs BackoffQ) - {qui_UnitKey u}" by simp
        moreover have "finite (dom (contents qs BackoffQ))"
          using wf by (metis GetByKey_dom data_wf_def List.finite_set)
        ultimately show ?thesis
          using u(3) Heap_Len_card [OF wf] Heap_Len_card [OF family_wf [OF a(2)], of BackoffQ]
          by (metis card_Diff1_less domI)
      qed
      from less.hyps [OF this a(2)] obtain qs' where
        q': "flush_backoff c now qs1 = Some qs'" "family_inv t (sub_less c) qs'"
          "\<forall>m j. contents qs' m j = relocate BackoffQ ?P (\<lambda>_. ReadyQ) qs1 m j" by blast
      have "flush_backoff c now qs = Some qs'"
        using u(1,2) over a(1) q'(1) by (subst flush_backoff.simps) simp
      moreover have "contents qs' m j = relocate BackoffQ ?P (\<lambda>_. ReadyQ) qs m j" for m j
      proof (cases "j = qui_UnitKey u")
        case True
        then show ?thesis using q'(3) over u(3) c1 by (simp add: relocate_def)
      next
        case False
        then have e: "contents qs1 l j = contents qs l j" for l using c1 by simp
        show ?thesis unfolding q'(3) [rule_format] relocate_def e ..
      qed
      ultimately show ?thesis using q'(2) by blast
    qed
  qed
qed

lemma flushBackoff_spec:
  assumes "pq_inv t c p"
  shows "\<exists>p'. pq_flushBackoffQCompleted c e p = Some p' \<and> pq_inv t c p' \<and>
     (\<forall>m j. contents (pq_queues p') m j =
        relocate BackoffQ (\<lambda>u. \<not> isUnitBackoff (cf_boHandler c) (ev_now e) u) (\<lambda>_. ReadyQ) (pq_queues p) m j)"
proof -
  have "family_inv t (sub_less c) (pq_queues p)" using assms(1) by (simp add: pq_inv_def)
  from flush_backoff_spec [OF this, of "ev_now e"] obtain qs where
    q: "flush_backoff c (ev_now e) (pq_queues p) = Some qs" "family_inv t (sub_less c) qs"
      "\<And>m j. contents qs m j =
        relocate BackoffQ (\<lambda>u. \<not> isUnitBackoff (cf_boHandler c) (ev_now e) u) (\<lambda>_. ReadyQ) (pq_queues p) m j"
    by blast
  have "pq_inv t c (p\<lparr>pq_queues := qs\<rparr>)"
    by (rule pq_inv_queues [OF assms(1) q(2)]) (rule relocate_in_queues [OF q(3)])
  then show ?thesis using q(1,3) by (simp add: pq_flushBackoffQCompleted_def)
qed

subsection \<open>Units made of waiting pods\<close>

lemma activate_spec:
  assumes "pq_inv t c p" "\<not> in_queues (pq_queues p) (qui_UnitKey u)" "unit_good t (qui_ScheduleUnit u)"
  shows "\<exists>w r qs. Heap_DeleteByKey alwaysFalse (pq_waitingPodsList p) (qui_UnitKey u) = Some (w, r) \<and>
     put_unit c p n u = Some (p\<lparr>pq_queues := qs\<rparr>, Inr ()) \<and>
     put_unit c (p\<lparr>pq_waitingPodsList := w\<rparr>) n u = Some (p\<lparr>pq_queues := qs, pq_waitingPodsList := w\<rparr>, Inr ()) \<and>
     pq_inv t c (p\<lparr>pq_queues := qs, pq_waitingPodsList := w\<rparr>) \<and>
     (\<forall>m j. contents qs m j = (if m = n \<and> j = qui_UnitKey u then Some u else contents (pq_queues p) m j))"
proof -
  let ?k = "qui_UnitKey u" and ?w = "pq_waitingPodsList p"
  define w where "w = heap_del alwaysFalse ?w ?k"
  have wpl: "wpl_ok ?w" "data_wf ?w" using assms(1) by (auto simp: pq_inv_def wpl_ok_def)
  have w: "\<exists>r. Heap_DeleteByKey alwaysFalse ?w ?k = Some (w, r)" "wpl_ok w"
    "Heap_GetByKey w = (Heap_GetByKey ?w)(?k := None)"
    using wpl wpl_ok_delete [OF wpl(1), of ?k] by (auto simp: w_def)
  have "pq_inv t c (p\<lparr>pq_waitingPodsList := w\<rparr>)"
    using assms(1) w(2,3) unfolding pq_inv_def by auto
  then have out: "pq_out t c ?k (p\<lparr>pq_waitingPodsList := w\<rparr>)"
    by (rule pq_out_new) (use assms(2) w(3) in simp_all)
  from put_unit_spec [OF out refl assms(3), of n] obtain qs where
    q: "put_unit c (p\<lparr>pq_waitingPodsList := w\<rparr>) n u = Some (p\<lparr>pq_waitingPodsList := w, pq_queues := qs\<rparr>, Inr ())"
      "pq_inv t c (p\<lparr>pq_waitingPodsList := w, pq_queues := qs\<rparr>)"
      "\<forall>m j. contents qs m j = (if m = n \<and> j = ?k then Some u else contents (pq_queues p) m j)"
    by auto
  obtain a where a: "q_Add (sub_less c) (pq_queues p) n u = Some (a, Inr ())"
    "p\<lparr>pq_waitingPodsList := w, pq_queues := a\<rparr> = p\<lparr>pq_waitingPodsList := w, pq_queues := qs\<rparr>"
    using q(1) by (auto simp: put_unit_def split: bind_splits)
  have "a = qs" using arg_cong [OF a(2), of pq_queues] by simp
  with a(1) have "put_unit c p n u = Some (p\<lparr>pq_queues := qs\<rparr>, Inr ())" by (simp add: put_unit_def)
  moreover have swap: "p\<lparr>pq_waitingPodsList := w, pq_queues := qs\<rparr> = p\<lparr>pq_queues := qs, pq_waitingPodsList := w\<rparr>"
    by simp
  ultimately show ?thesis using w(1) q(3) q(1,2) [unfolded swap] by blast
qed

lemma ActivePodGroupUnit_spec:
  assumes "pq_inv t c p" "env_ok e"
  shows "\<exists>p'. pq_ActivePodGroupUnit c e p k = Some p' \<and> pq_inv t c p'"
proof (cases "Heap_GetByKey (pq_waitingPodsList p) k")
  case None
  then show ?thesis using assms(1) by (simp add: pq_ActivePodGroupUnit_def)
next
  case (Some wp)
  then have wp: "wp_ok wp" "wp_unitKey wp = k" "\<not> in_queues (pq_queues p) k" "PodGroupUnitType \<in> t"
    using assms(1) by (auto simp: pq_inv_def wpl_ok_def)
  obtain r where r: "transferToPodGroupUnit (ev_pcLister e) (ev_pgLister e) (ev_now e) (ev_ord e) wp = Some r"
    "\<forall>u. r = Some u \<longrightarrow> qui_UnitKey u = k \<and> unit_good t (qui_ScheduleUnit u)"
    using transfer_spec [OF wp(1) _ _ wp(4)] assms(2) wp(2) unfolding env_ok_def by metis
  show ?thesis
  proof (cases r)
    case None
    then show ?thesis using Some r(1) assms(1) by (simp add: pq_ActivePodGroupUnit_def)
  next
    case u: (Some u)
    then have "qui_UnitKey u = k" "unit_good t (qui_ScheduleUnit u)" using r(2) by auto
    with activate_spec [OF assms(1), of u "if readyToBeScheduled e u then ReadyQ else WaitingQ"] wp(3)
    show ?thesis using Some r(1) u by (auto simp: pq_ActivePodGroupUnit_def)
  qed
qed

lemma transfer_all_spec:
  assumes "env_ok e" "\<forall>wp\<in>set wps. wp_ok wp \<and> PodGroupUnitType \<in> t"
  shows "\<exists>us. transfer_all e wps = Some us \<and> (\<forall>u\<in>set us. unit_good t (qui_ScheduleUnit u)) \<and>
     qui_UnitKey ` set us \<subseteq> wp_unitKey ` set wps \<and>
     (distinct (map wp_unitKey wps) \<longrightarrow> distinct (map qui_UnitKey us))"
  using assms(2)
proof (induction wps)
  case (Cons wp wps)
  then obtain us where us: "transfer_all e wps = Some us" "\<forall>u\<in>set us. unit_good t (qui_ScheduleUnit u)"
    "qui_UnitKey ` set us \<subseteq> wp_unitKey ` set wps"
    "distinct (map wp_unitKey wps) \<longrightarrow> distinct (map qui_UnitKey us)"
    by auto
  have "wp_ok wp" "PodGroupUnitType \<in> t" using Cons.prems by simp_all
  then obtain r where r:
    "transferToPodGroupUnit (ev_pcLister e) (ev_pgLister e) (ev_now e) (ev_ord e) wp = Some r"
    "\<forall>u. r = Some u \<longrightarrow> qui_UnitKey u = wp_unitKey wp \<and> unit_good t (qui_ScheduleUnit u)"
    using transfer_spec assms(1) unfolding env_ok_def by metis
  show ?case
  proof (cases r)
    case None
    then show ?thesis using us r(1) by auto
  next
    case (Some u)
    then have u: "qui_UnitKey u = wp_unitKey wp" "unit_good t (qui_ScheduleUnit u)" using r(2) by auto
    have "transfer_all e (wp # wps) = Some (u # us)" using us(1) r(1) Some by simp
    then show ?thesis using us(2-4) u by (auto simp: subset_iff image_iff)
  qed
qed simp

lemma flush_waiting_loop_spec:
  assumes "pq_inv t c p" "\<forall>u\<in>set us. unit_good t (qui_ScheduleUnit u)"
    "\<forall>u\<in>set us. \<not> in_queues (pq_queues p) (qui_UnitKey u)" "distinct (map qui_UnitKey us)"
  shows "\<exists>p'. flush_waiting_loop c e p us = Some p' \<and> pq_inv t c p'"
  using assms
proof (induction us arbitrary: p)
  case (Cons u us)
  let ?n = "if readyToBeScheduled e u then ReadyQ else WaitingQ"
  obtain w r qs where a: "Heap_DeleteByKey alwaysFalse (pq_waitingPodsList p) (qui_UnitKey u) = Some (w, r)"
    "put_unit c (p\<lparr>pq_waitingPodsList := w\<rparr>) ?n u = Some (p\<lparr>pq_queues := qs, pq_waitingPodsList := w\<rparr>, Inr ())"
    "pq_inv t c (p\<lparr>pq_queues := qs, pq_waitingPodsList := w\<rparr>)"
    "\<forall>m j. contents qs m j = (if m = ?n \<and> j = qui_UnitKey u then Some u else contents (pq_queues p) m j)"
    using activate_spec [OF Cons.prems(1), of u ?n] Cons.prems(2,3) by auto
  have "\<not> in_queues qs (qui_UnitKey v)" if "v \<in> set us" for v
  proof -
    have "qui_UnitKey v \<noteq> qui_UnitKey u" using Cons.prems(4) that by (auto simp: image_iff)
    then show ?thesis using a(4) Cons.prems(3) that by (simp add: in_queues_iff)
  qed
  then have "\<exists>p'. flush_waiting_loop c e (p\<lparr>pq_queues := qs, pq_waitingPodsList := w\<rparr>) us = Some p' \<and> pq_inv t c p'"
    using Cons.prems by (intro Cons.IH a(3)) auto
  then show ?case using a(1,2) by simp
qed simp

lemma transfer_waiting:
  assumes w: "wpl_ok w" and e: "env_ok e" and grp: "\<forall>k. k \<in> dom (Heap_GetByKey w) \<longrightarrow> PodGroupUnitType \<in> t"
  shows "\<exists>us. transfer_all e (heap_objects w) = Some us \<and> (\<forall>u\<in>set us. unit_good t (qui_ScheduleUnit u)) \<and>
     qui_UnitKey ` set us \<subseteq> dom (Heap_GetByKey w) \<and> distinct (map qui_UnitKey us)"
proof -
  have wf: "data_wf w" using w by (simp add: wpl_ok_def)
  have set: "set (heap_objects w) = ran (Heap_GetByKey w)" by (rule heap_objects_set [OF wf])
  have "\<forall>wp\<in>set (heap_objects w). wp_ok wp \<and> PodGroupUnitType \<in> t"
    using w grp unfolding set by (auto simp: wpl_ok_def ran_def dom_def)
  from transfer_all_spec [OF e this] obtain us where
    us: "transfer_all e (heap_objects w) = Some us" "\<forall>u\<in>set us. unit_good t (qui_ScheduleUnit u)"
      "qui_UnitKey ` set us \<subseteq> wp_unitKey ` set (heap_objects w)"
      "distinct (map wp_unitKey (heap_objects w)) \<longrightarrow> distinct (map qui_UnitKey us)"
    by blast
  have "distinct (map wp_unitKey (heap_objects w))"
    using heap_objects_distinct [OF wf, of wp_unitKey] w by (auto simp: wpl_ok_def)
  with us(4) have d: "distinct (map qui_UnitKey us)" ..
  have "wp_unitKey x \<in> dom (Heap_GetByKey w)" if x: "x \<in> ran (Heap_GetByKey w)" for x
  proof -
    obtain k where k: "Heap_GetByKey w k = Some x" using x by (auto simp: ran_def)
    moreover have "wp_unitKey x = k" using w k unfolding wpl_ok_def by blast
    ultimately show ?thesis by (simp add: domI)
  qed
  then have "wp_unitKey ` set (heap_objects w) \<subseteq> dom (Heap_GetByKey w)"
    unfolding set by (rule image_subsetI)
  from subset_trans [OF us(3) this] show ?thesis using us(1,2) d by simp
qed

lemma flushWaitingPodsList_spec:
  assumes "pq_inv t c p" "env_ok e"
  shows "\<exists>p'. pq_flushWaitingPodsList c e p = Some p' \<and> pq_inv t c p'"
proof -
  let ?w = "pq_waitingPodsList p"
  have w: "wpl_ok ?w" and grp: "\<forall>k. k \<in> dom (Heap_GetByKey ?w) \<longrightarrow> PodGroupUnitType \<in> t"
    using assms(1) unfolding pq_inv_def by blast+
  obtain us where us: "transfer_all e (heap_objects ?w) = Some us" "\<forall>u\<in>set us. unit_good t (qui_ScheduleUnit u)"
    "qui_UnitKey ` set us \<subseteq> dom (Heap_GetByKey ?w)" "distinct (map qui_UnitKey us)"
    using transfer_waiting [OF w assms(2) grp] by blast
  have "\<not> in_queues (pq_queues p) (qui_UnitKey u)" if "u \<in> set us" for u
    using subsetD [OF us(3) imageI [OF that]] assms(1) by (simp add: pq_inv_def)
  then have "\<forall>u\<in>set us. \<not> in_queues (pq_queues p) (qui_UnitKey u)" by simp
  then show ?thesis
    using flush_waiting_loop_spec [OF assms(1) us(2) _ us(4), of e] us(1)
    by (auto simp: pq_flushWaitingPodsList_def)
qed

subsection \<open>Pop\<close>

text \<open>The unit a \<^verbatim>\<open>Pop\<close> hands out: one more attempt, and a score that leaves the rest alone.\<close>

definition popped_from :: "QueuedUnitInfo \<Rightarrow> QueuedUnitInfo \<Rightarrow> bool" where
  "popped_from u0 u \<longleftrightarrow>
     (\<exists>sc. u = u0\<lparr>qui_Attempts := qui_Attempts u0 + 1, qui_QueuePriorityScore := sc\<rparr>)"

lemma setQueuedPriorityScore_total:
  assumes "prio_ok (pq_priorityHeap p)"
  shows "\<exists>sc. setQueuedPriorityScore c p u = Some (u\<lparr>qui_QueuePriorityScore := sc\<rparr>)"
proof -
  obtain m where "getMinPriorityInQueueIfExists p = Some m"
    using Heap_Peek_spec [of "pq_priorityHeap p"] assms
    by (auto simp: getMinPriorityInQueueIfExists_def prio_ok_def)
  then show ?thesis by (auto simp: setQueuedPriorityScore_def Let_def)
qed

lemma pq_Pop_spec:
  assumes inv: "pq_inv t c p" and ne: "Heap_Len (pq_queues p ReadyQ) \<noteq> 0"
  shows "\<exists>p' u0 u. pq_Pop c p = Some (p', Popped u) \<and> pq_inv t c p' \<and> popped_from u0 u \<and>
     contents (pq_queues p) ReadyQ (qui_UnitKey u0) = Some u0 \<and> unit_good t (qui_ScheduleUnit u0) \<and>
     (strict_weak_on (good_units t) (cf_lessFn c) \<longrightarrow>
        (\<forall>v\<in>ran (contents (pq_queues p) ReadyQ). \<not> cf_lessFn c v u0)) \<and>
     \<not> in_queues (pq_queues p') (qui_UnitKey u0) \<and>
     (\<forall>m j. j \<noteq> qui_UnitKey u0 \<longrightarrow> contents (pq_queues p') m j = contents (pq_queues p) m j) \<and>
     pq_schedulingCycle p' = pq_schedulingCycle p + 1 \<and> pq_moveRequestCycle p' = pq_moveRequestCycle p"
proof -
  have fam: "family_inv t (sub_less c) (pq_queues p)" using inv(1) by (simp add: pq_inv_def)
  obtain h u0 where h: "Heap_Pop (cf_lessFn c) (pq_queues p ReadyQ) = Some (h, Inr u0)"
    "contents (pq_queues p) ReadyQ (qui_UnitKey u0) = Some u0" "unit_good t (qui_ScheduleUnit u0)"
    "family_inv t (sub_less c) ((pq_queues p)(ReadyQ := h))"
    "\<not> in_queues ((pq_queues p)(ReadyQ := h)) (qui_UnitKey u0)"
    "\<forall>m j. contents ((pq_queues p)(ReadyQ := h)) m j =
       (if m = ReadyQ \<and> j = qui_UnitKey u0 then None else contents (pq_queues p) m j)"
    "strict_weak_on (good_units t) (cf_lessFn c) \<longrightarrow>
       (\<forall>v\<in>ran (contents (pq_queues p) ReadyQ). \<not> cf_lessFn c v u0)"
    using q_pop_spec [OF fam ne] by auto
  let ?k = "qui_UnitKey u0" and ?qs = "(pq_queues p)(ReadyQ := h)"
  define p1 where "p1 = p\<lparr>pq_queues := ?qs\<rparr>"
  have prio: "prio_ok (pq_priorityHeap p1)" using inv(1) by (simp add: pq_inv_def p1_def)
  obtain u sc where u: "setQueuedPriorityScore c p1 (u0\<lparr>qui_Attempts := qui_Attempts u0 + 1\<rparr>) = Some u"
    "u = u0\<lparr>qui_Attempts := qui_Attempts u0 + 1, qui_QueuePriorityScore := sc\<rparr>"
    using setQueuedPriorityScore_total [OF prio] by blast
  obtain hp r where d: "del_priority (p1\<lparr>pq_schedulingCycle := pq_schedulingCycle p1 + 1\<rparr>) u =
      Some (p1\<lparr>pq_schedulingCycle := pq_schedulingCycle p1 + 1, pq_priorityHeap := hp\<rparr>, r)" "prio_ok hp"
    "Heap_GetByKey hp = (Heap_GetByKey (pq_priorityHeap p1))(?k := None)"
    using del_priority_spec [of "p1\<lparr>pq_schedulingCycle := pq_schedulingCycle p1 + 1\<rparr>" u] prio u(2) by auto
  let ?p' = "p1\<lparr>pq_schedulingCycle := pq_schedulingCycle p1 + 1, pq_priorityHeap := hp\<rparr>"
  have cyc: "pq_schedulingCycle p1 = pq_schedulingCycle p" by (simp add: p1_def)
  have sub: "in_queues ?qs j \<longleftrightarrow> j \<noteq> ?k \<and> in_queues (pq_queues p) j" for j
  proof (cases "j = ?k")
    case True then show ?thesis using h(5) by simp
  next
    case False then show ?thesis using h(6) by (simp add: in_queues_iff)
  qed
  have "pq_inv t c ?p'"
    using inv(1) h(4) d(2,3) sub unfolding pq_inv_def p1_def by (auto split: if_splits)
  moreover have "pq_Pop c p = Some (?p', Popped u)"
    using ne h(1) u(1) d(1) cyc by (simp add: pq_Pop_def p1_def [symmetric] Let_def)
  moreover have "popped_from u0 u" using u(2) by (auto simp: popped_from_def)
  ultimately show ?thesis
    using h by (intro exI [of _ ?p'] exI [of _ u0] exI [of _ u]) (auto simp: p1_def)
qed

subsection \<open>Runs of the queue\<close>

datatype pq_op =
  QAdd pod | QAddUnschedulable "QueuedUnitInfo option" int | QUpdate pod pod | QDelete pod |
  QAssignedPodAdded pod | QAssignedPodUpdated pod | QMoveAll | QActivePodGroupUnit key | QPop |
  QFlushBackoff | QFlushScheduled | QFlushUnschedulable | QFlushWaitingPods | QClose

fun pq_exec :: "queue_conf \<Rightarrow> queue_env \<Rightarrow> pq_op \<Rightarrow> PriorityQueue \<Rightarrow> PriorityQueue option" where
  "pq_exec c e (QAdd q) p = map_option fst (pq_Add c e p q)"
| "pq_exec c e (QAddUnschedulable u cycle) p = map_option fst (pq_AddUnschedulableIfNotPresent c e p u cycle)"
| "pq_exec c e (QUpdate q q') p = map_option fst (pq_Update c e p q q')"
| "pq_exec c e (QDelete q) p = map_option fst (pq_Delete c e p q)"
| "pq_exec c e (QAssignedPodAdded q) p = pq_AssignedPodAdded c e p q"
| "pq_exec c e (QAssignedPodUpdated q) p = pq_AssignedPodUpdated c e p q"
| "pq_exec c e QMoveAll p = pq_MoveAllToActiveOrBackoffQueue c e p"
| "pq_exec c e (QActivePodGroupUnit k) p = pq_ActivePodGroupUnit c e p k"
| "pq_exec c e QPop p = map_option fst (pq_Pop c p)"
| "pq_exec c e QFlushBackoff p = pq_flushBackoffQCompleted c e p"
| "pq_exec c e QFlushScheduled p = pq_flushScheduledUnitsInWaitingQ c e p"
| "pq_exec c e QFlushUnschedulable p = pq_flushUnschedulableQLeftover c e p"
| "pq_exec c e QFlushWaitingPods p = pq_flushWaitingPodsList c e p"
| "pq_exec c e QClose p = pq_Close p"

text \<open>The operations a run may take. The pods and units handed in are of the kinds \<open>t\<close> (all kinds for
  \<open>UNIV\<close>). The scheduler hands back units it popped: with pods, complete, and of a group whose other pods
  do not wait for the pod group to reappear; the event handlers report assigned pods while every label
  selector of the queue parses, since the code panics on one that does not; a queue is closed once.\<close>

fun op_ok :: "ScheduleUnitType set \<Rightarrow> queue_env \<Rightarrow> pq_op \<Rightarrow> PriorityQueue \<Rightarrow> bool" where
  "op_ok t e (QAdd q) p \<longleftrightarrow> pod_kind q \<in> t"
| "op_ok t e (QUpdate q q') p \<longleftrightarrow> pod_kind q' \<in> t"
| "op_ok t e (QAddUnschedulable (Some u) cycle) p \<longleftrightarrow>
     unit_NumPods (qui_ScheduleUnit u) = 0 \<or>
     unit_good t (qui_ScheduleUnit u) \<and> qui_UnitKey u \<notin> dom (Heap_GetByKey (pq_waitingPodsList p))"
| "op_ok t e (QAssignedPodAdded q) p \<longleftrightarrow> (\<forall>s. ev_selector e s \<noteq> None)"
| "op_ok t e (QAssignedPodUpdated q) p \<longleftrightarrow> (\<forall>s. ev_selector e s \<noteq> None)"
| "op_ok t e QClose p \<longleftrightarrow> \<not> pq_closed p"
| "op_ok t e _ p \<longleftrightarrow> True"

inductive pq_reachable :: "ScheduleUnitType set \<Rightarrow> queue_conf \<Rightarrow> PriorityQueue \<Rightarrow> bool" for t c where
  start: "pq_reachable t c (NewPriorityQueue now)"
| step: "pq_reachable t c p \<Longrightarrow> env_ok e \<Longrightarrow> op_ok t e opn p \<Longrightarrow> pq_exec c e opn p = Some p' \<Longrightarrow>
         pq_reachable t c p'"

lemma pq_exec_inv:
  assumes "pq_inv t c p" "env_ok e" "op_ok t e opn p"
  shows "\<exists>p'. pq_exec c e opn p = Some p' \<and> pq_inv t c p'"
proof (cases opn)
  case (QAdd q)
  then show ?thesis using pq_Add_spec [OF assms(1,2), of q] assms(3) by auto
next
  case (QAddUnschedulable uo cycle)
  show ?thesis
  proof (cases "case uo of None \<Rightarrow> True | Some u \<Rightarrow> unit_NumPods (qui_ScheduleUnit u) = 0")
    case True
    then show ?thesis using QAddUnschedulable assms(1)
      by (auto simp: pq_AddUnschedulableIfNotPresent_def Let_def split: option.splits)
  next
    case False
    then obtain u where "uo = Some u" "unit_NumPods (qui_ScheduleUnit u) \<noteq> 0" by (auto split: option.splits)
    then show ?thesis
      using QAddUnschedulable assms(3) pq_AddUnschedulable_spec [OF assms(1), of u e cycle] by auto
  qed
next
  case (QUpdate q q')
  then show ?thesis using pq_Update_spec [OF assms(1,2), of q' q] assms(3) by auto
next
  case (QDelete q)
  then show ?thesis using pq_Delete_spec [OF assms(1), of e q] by auto
next
  case QPop
  show ?thesis
  proof (cases "Heap_Len (pq_queues p ReadyQ) = 0")
    case True
    then show ?thesis using QPop assms(1) by (simp add: pq_Pop_def)
  next
    case False
    then show ?thesis using QPop pq_Pop_spec [OF assms(1) False] by auto
  qed
next
  case QMoveAll
  then show ?thesis
    using move_units_spec [OF assms(1)] by (fastforce simp: pq_MoveAllToActiveOrBackoffQueue_def)
next
  case QFlushUnschedulable
  then show ?thesis
    using move_units_spec [OF assms(1)] by (fastforce simp: pq_flushUnschedulableQLeftover_def)
next
  case QClose
  then show ?thesis using assms(1,3) by (simp add: pq_Close_def pq_inv_def)
qed (use assms AssignedPodAdded_spec ActivePodGroupUnit_spec flushBackoff_spec flushScheduled_spec
    flushWaitingPodsList_spec in \<open>auto simp: AssignedPodUpdated_eq, metis+\<close>)

lemma pq_reachable_inv: "pq_reachable t c p \<Longrightarrow> pq_inv t c p"
proof (induction rule: pq_reachable.induct)
  case (step p e opn p')
  then show ?case using pq_exec_inv by (metis option.inject)
qed (rule pq_inv_New)

subsection \<open>Shipped comparisons\<close>

text \<open>The two comparisons the repository ships, and that each is an order on units of one kind.\<close>

definition shipped_less :: "QueuedUnitInfo lessFunc \<Rightarrow> bool" where
  "shipped_less lt \<longleftrightarrow> lt = (\<lambda>u v. DefaultUnitQueueSort_Less u v = Some True) \<or>
                     lt = (\<lambda>u v. FCFS_Less u v = Some True)"

lemma good_units_kind: "same_kind kd (good_units {kd})"
  by (simp add: same_kind_def good_units_def unit_good_def)

lemma shipped_less_order: "shipped_less lt \<Longrightarrow> strict_weak_on (good_units {kd}) lt"
  unfolding shipped_less_def using unit_less_order [OF good_units_kind] by blast

subsection \<open>Properties\<close>

text \<open>C16. No operation panics, whatever the comparison of the ready queue, an order or not. Take a state
  reached by operations that \<open>op_ok\<close> admits: every operation but three kinds without a condition; the
  hand-back of a unit that holds no pod, or that is complete and whose key does not wait for its pod
  group; an AssignedPod event while every label selector parses; the first Close. There every admitted
  operation ends without a panic, a unit key is in at most one of the four sub-queues, a key that
  waits for its pod group is in none of them, every queued unit is stored under its own key and holds
  at least one pod, and neither shipped comparison panics on two units of the queue, of the same kind
  or not.\<close>

theorem pq_operations_safe:
  assumes "pq_reachable UNIV c p" "env_ok e" "op_ok UNIV e opn p"
  shows "(\<exists>p'. pq_exec c e opn p = Some p' \<and> pq_reachable UNIV c p') \<and>
    (\<forall>n m k. k \<in> dom (contents (pq_queues p) n) \<longrightarrow> k \<in> dom (contents (pq_queues p) m) \<longrightarrow> n = m) \<and>
    (\<forall>n k. k \<in> dom (Heap_GetByKey (pq_waitingPodsList p)) \<longrightarrow> k \<notin> dom (contents (pq_queues p) n)) \<and>
    (\<forall>n k u. contents (pq_queues p) n k = Some u \<longrightarrow>
       qui_UnitKey u = k \<and> 0 < unit_NumPods (qui_ScheduleUnit u)) \<and>
    (\<forall>n m j k u v. contents (pq_queues p) n j = Some u \<longrightarrow> contents (pq_queues p) m k = Some v \<longrightarrow>
       DefaultUnitQueueSort_Less u v \<noteq> None \<and> FCFS_Less u v \<noteq> None)"
proof -
  have inv: "pq_inv UNIV c p" by (rule pq_reachable_inv [OF assms(1)])
  then have fam: "family_inv UNIV (sub_less c) (pq_queues p)" by (simp add: pq_inv_def)
  have "\<exists>p'. pq_exec c e opn p = Some p' \<and> pq_reachable UNIV c p'"
    using pq_exec_inv [OF inv assms(2,3)] pq_reachable.step [OF assms] by blast
  moreover have "\<forall>n m k. k \<in> dom (contents (pq_queues p) n) \<longrightarrow> k \<in> dom (contents (pq_queues p) m) \<longrightarrow> n = m"
    using family_unique [OF fam] by blast
  moreover have "\<forall>n k. k \<in> dom (Heap_GetByKey (pq_waitingPodsList p)) \<longrightarrow> k \<notin> dom (contents (pq_queues p) n)"
    using inv unfolding pq_inv_def not_in_queues by (metis domIff)
  moreover have "\<forall>n k u. contents (pq_queues p) n k = Some u \<longrightarrow>
      qui_UnitKey u = k \<and> 0 < unit_NumPods (qui_ScheduleUnit u)"
    using family_key [OF fam] family_good [OF fam] by (auto simp: unit_good_def)
  moreover have "\<forall>n m j k u v. contents (pq_queues p) n j = Some u \<longrightarrow> contents (pq_queues p) m k = Some v \<longrightarrow>
       DefaultUnitQueueSort_Less u v \<noteq> None \<and> FCFS_Less u v \<noteq> None"
    using family_good [OF fam] unit_less_total unfolding unit_good_def by blast
  ultimately show ?thesis by blast
qed

definition conf_example :: queue_conf where
  "conf_example =
     \<lparr>cf_lessFn = (\<lambda>u v. DefaultUnitQueueSort_Less u v = Some True), cf_boHandler = newBackoffHandler 10 300,
      cf_dynamicPriority = False, cf_attemptImpactFactor = 10\<rparr>"

definition group_pod :: "string \<Rightarrow> string \<Rightarrow> pod" where
  "group_pod uid version =
     pod_example\<lparr>pod_Name := uid, pod_UID := uid, pod_ResourceVersion := version,
       pod_Annotations := Some [PodGroupNameAnnotationKey \<mapsto> ''train'']\<rparr>"

text \<open>The pod group is known, with one pod enough, or unknown.\<close>

definition env_example :: "bool \<Rightarrow> queue_env" where
  "env_example known =
     \<lparr>ev_now = 7, ev_pcLister = (\<lambda>_. None),
      ev_pgLister = (\<lambda>ns n. if known \<and> ns = ''prod'' \<and> n = ''train''
                            then Some (group_example\<lparr>pg_MinMember := 1\<rparr>) else None),
      ev_status = (\<lambda>_. UnknownStatus), ev_selector = (\<lambda>_. Some (\<lambda>_. True)),
      ev_ord = sorted_list_of_set\<rparr>"

lemma env_example_ok: "env_ok (env_example known)"
  by (auto simp: env_ok_def env_example_def lister_ok_def ord_ok_sorted group_example_def)

text \<open>States reached by one operation: a unit in the ready queue, and one that was handed back.\<close>

lemma not_in_new_queues: "\<not> in_queues (\<lambda>_. New) k"
  by (simp add: not_in_queues)

lemma single_unit_example:
  assumes "SinglePodUnitType \<in> t"
  shows "\<exists>u. createUnitInfo (env_example True) New pod_example = Some (New, Inr u) \<and>
     unit_ReadyToBePopulated (qui_ScheduleUnit u) \<and> qui_UnitKey u = GetUnitIdentifier pod_example \<and>
     unit_good t (qui_ScheduleUnit u) \<and> unit_Type (qui_ScheduleUnit u) = SinglePodUnitType \<and>
     qui_Timestamp u = 7 \<and> qui_Attempts u = 0"
proof -
  have n: "GetPodGroupName pod_example = []" by (simp add: GetPodGroupName_def pod_example_def ann_def)
  obtain u where c: "createUnitInfo (env_example True) New pod_example = Some (New, Inr u)"
    "unit_ReadyToBePopulated (qui_ScheduleUnit u)"
    "unit_Type (qui_ScheduleUnit u) = SinglePodUnitType" "qui_Timestamp u = 7" "qui_Attempts u = 0"
    using n
    by (simp add: createUnitInfo_def CreateScheduleUnit_def env_example_def newQueuedPodInfo_def Let_def
      NewQueuedUnitInfo_def SinglePodUnit_AddPod_def SinglePodUnit_ReadyToBePopulated_def single_pod_def)
  have "created_ok t New New pod_example (Inr u)"
    using createUnitInfo_spec [OF wpl_ok_New env_example_ok, of pod_example t True] c(1) n assms
    by (simp add: pod_kind_def)
  then show ?thesis using c by (auto simp: created_ok_def)
qed

lemma ready_state:
  assumes "SinglePodUnitType \<in> t"
  shows "\<exists>p u. pq_reachable t conf_example p \<and> contents (pq_queues p) ReadyQ (GetUnitIdentifier pod_example) = Some u \<and>
     (\<forall>k. k \<noteq> GetUnitIdentifier pod_example \<longrightarrow> contents (pq_queues p) ReadyQ k = None)"
proof -
  let ?e = "env_example True" and ?p = "NewPriorityQueue 7" and ?k = "GetUnitIdentifier pod_example"
  obtain u where u: "createUnitInfo ?e New pod_example = Some (New, Inr u)"
    "readyToBeScheduled ?e u" "qui_UnitKey u = ?k" "unit_good t (qui_ScheduleUnit u)"
    using single_unit_example [OF assms] by (auto simp: readyToBeScheduled_def)
  have f: "findAndRemoveUnitFromQueue conf_example ?p ?k = Some (?p, None)"
    by (simp add: findAndRemoveUnitFromQueue_def NewPriorityQueue_def)
  have add: "addPodToUnitInfo conf_example ?e ?p pod_example = Some (?p, None, Inr u)"
    using f u(1) by (simp add: addPodToUnitInfo_def NewPriorityQueue_def)
  obtain h where h: "put_priority ?p u = Some (?p\<lparr>pq_priorityHeap := h\<rparr>)"
    using put_priority_spec [of ?p u] pq_inv_New [of t _ 7] by (auto simp: pq_inv_def)
  obtain qs where q: "q_Add (sub_less conf_example) (\<lambda>_. New) ReadyQ u = Some (qs, Inr ())"
    "\<forall>m j. contents qs m j = (if m = ReadyQ \<and> j = ?k then Some u else None)"
    using q_Add_new_spec [OF family_New u(4) not_in_new_queues, of "sub_less conf_example" ReadyQ] u(3)
    by auto
  have "pq_exec conf_example ?e (QAdd pod_example) ?p = Some (?p\<lparr>pq_priorityHeap := h, pq_queues := qs\<rparr>)"
    using add h q(1) u(2)
    by (simp add: pq_Add_def put_unit_def NewPriorityQueue_def env_example_def)
  then have "pq_reachable t conf_example (?p\<lparr>pq_priorityHeap := h, pq_queues := qs\<rparr>)"
    using pq_reachable.step [OF pq_reachable.start env_example_ok, where t = t and opn = "QAdd pod_example"] assms
    by (simp add: pod_kind_def GetPodGroupName_def pod_example_def ann_def)
  then show ?thesis using q(2) by (intro exI [of _ "?p\<lparr>pq_priorityHeap := h, pq_queues := qs\<rparr>"] exI [of _ u]) simp
qed

lemma rejected_state:
  assumes "SinglePodUnitType \<in> t"
  shows "\<exists>p u. pq_reachable t conf_example p \<and>
     contents (pq_queues p) (if cycle \<le> (-1::int) then BackoffQ else UnschedulableQ) (GetUnitIdentifier pod_example) = Some u \<and>
     qui_Timestamp u = 7 \<and> qui_Attempts u = 0 \<and> unit_Type (qui_ScheduleUnit u) = SinglePodUnitType"
proof -
  let ?e = "env_example True" and ?p = "NewPriorityQueue 7" and ?k = "GetUnitIdentifier pod_example"
  let ?n = "if cycle \<le> -1 then BackoffQ else UnschedulableQ"
  obtain u0 :: QueuedUnitInfo where u0: "qui_UnitKey u0 = ?k" "unit_good t (qui_ScheduleUnit u0)"
    "unit_Type (qui_ScheduleUnit u0) = SinglePodUnitType" "qui_Attempts u0 = 0"
    using single_unit_example [OF assms] by blast
  define u where "u = u0\<lparr>qui_Timestamp := 7\<rparr>"
  have u: "qui_UnitKey u = ?k" "unit_good t (qui_ScheduleUnit u)" "\<not> schedulingStatusTimeout ?e u"
    "qui_Timestamp u = 7" "qui_Attempts u = 0" "unit_Type (qui_ScheduleUnit u) = SinglePodUnitType"
    using u0 by (simp_all add: u_def schedulingStatusTimeout_def)
  have f: "findAndRemoveUnitFromQueue conf_example ?p ?k = Some (?p, None)"
    by (simp add: findAndRemoveUnitFromQueue_def NewPriorityQueue_def)
  obtain h where h: "put_priority ?p u = Some (?p\<lparr>pq_priorityHeap := h\<rparr>)"
    using put_priority_spec [of ?p u] pq_inv_New [of t _ 7] by (auto simp: pq_inv_def)
  obtain qs where q: "q_Add (sub_less conf_example) (\<lambda>_. New) ?n u = Some (qs, Inr ())"
    "\<forall>m j. contents qs m j = (if m = ?n \<and> j = ?k then Some u else None)"
    using q_Add_new_spec [OF family_New u(2) not_in_new_queues, of "sub_less conf_example" ?n] u(1)
    by auto
  have sel: "pq_moveRequestCycle ?p = -1" "?p\<lparr>pq_latestOperationTimestamp := 7\<rparr> = ?p" "pq_queues ?p = (\<lambda>_. New)"
     "pq_waitingPodsList ?p = New"
    by (simp_all add: NewPriorityQueue_def)
  have now: "ev_now ?e = 7" by (simp add: env_example_def)
  have "pq_exec conf_example ?e (QAddUnschedulable (Some u0) cycle) ?p = Some (?p\<lparr>pq_priorityHeap := h, pq_queues := qs\<rparr>)"
    using f h q(1) u(3) u0(1,2)
    by (simp add: pq_AddUnschedulableIfNotPresent_def put_unit_def sel now Let_def u_def unit_good_def)
  moreover have "op_ok t ?e (QAddUnschedulable (Some u0) cycle) ?p" using u0(2) by (simp add: sel)
  ultimately have "pq_reachable t conf_example (?p\<lparr>pq_priorityHeap := h, pq_queues := qs\<rparr>)"
    using pq_reachable.step [OF pq_reachable.start env_example_ok] by blast
  then show ?thesis using q(2) u(4-6)
    by (intro exI [of _ "?p\<lparr>pq_priorityHeap := h, pq_queues := qs\<rparr>"] exI [of _ u]) simp
qed

theorem pq_operations_safe_witness:
  "\<exists>p'. pq_exec conf_example (env_example True) (QAdd pod_example) (NewPriorityQueue 0) = Some p'"
  using pq_operations_safe [OF pq_reachable.start [of _ conf_example 0] env_example_ok [of True], of "QAdd pod_example"]
  by auto

text \<open>C17. Add and Delete are inverse on the pods held: in a reachable state Add succeeds and leaves the
  queue holding the pod, as given if it was not held before, and a Delete afterwards leaves no entry
  of its UID; neither touches another unit.\<close>

theorem pq_add_delete:
  assumes "pq_reachable UNIV c p" "env_ok e" "k = GetUnitIdentifier q"
  shows "\<exists>p1 p2 i r. pq_Add c e p q = Some (p1, Inr ()) \<and> holds_pod p1 k (pod_UID q) i \<and>
     ((\<exists>j. holds_pod p k (pod_UID q) j) \<or> qpi_Pod i = Some q) \<and>
     pq_Delete c e p1 q = Some (p2, r) \<and> \<not> (\<exists>j. holds_pod p2 k (pod_UID q) j) \<and>
     (\<forall>n j. j = k \<or> contents (pq_queues p1) n j = contents (pq_queues p) n j \<and>
                    contents (pq_queues p2) n j = contents (pq_queues p) n j)"
proof -
  have inv: "pq_inv UNIV c p" by (rule pq_reachable_inv [OF assms(1)])
  obtain p1 where p1: "pq_Add c e p q = Some (p1, Inr ())" "pq_inv UNIV c p1" "stores_pod q p p1"
    using pq_Add_spec [OF inv assms(2)] by auto
  obtain p2 r where p2: "pq_Delete c e p1 q = Some (p2, r)"
    "\<forall>i. \<not> holds_pod p2 (GetUnitIdentifier q) (pod_UID q) i"
    "\<forall>m j. j \<noteq> GetUnitIdentifier q \<longrightarrow> contents (pq_queues p2) m j = contents (pq_queues p1) m j"
    using pq_Delete_spec [OF p1(2)] by blast
  obtain i where "holds_pod p1 k (pod_UID q) i"
    "wp_pods (wpl_entry (pq_waitingPodsList p) k) (pod_UID q) = None \<longrightarrow> qpi_Pod i = Some q"
    using p1(3) assms(3) by (auto simp: stores_pod_def)
  moreover from this(2) have "(\<exists>j. holds_pod p k (pod_UID q) j) \<or> qpi_Pod i = Some q"
    unfolding holds_pod_def by (metis option.exhaust)
  ultimately show ?thesis
    using p1(1,3) p2 assms(3) unfolding stores_pod_def by metis
qed

theorem pq_add_delete_witness:
  "\<exists>p1 i. pq_Add conf_example (env_example True) (NewPriorityQueue 0) pod_example = Some (p1, Inr ()) \<and>
     holds_pod p1 (GetUnitIdentifier pod_example) ''u1'' i"
  using pq_add_delete [OF pq_reachable.start [of _ conf_example 0] env_example_ok [of True] refl, of pod_example]
  by (auto simp: pod_example_def)

text \<open>C18. Pop of a reachable queue whose ready queue is not empty hands out a unit of the ready queue,
  with one more attempt and otherwise unchanged but for its score; the unit leaves the queue, all
  others stay, and the scheduling cycle advances. No other ready unit precedes it when the queue is
  configured with one of the two shipped comparisons and was given pods and units of one kind only
  (single pods, or pod groups), or with any comparison that is a strict weak order on the units it was
  given; over both kinds the shipped comparison is none. Pop of an empty ready queue changes
  nothing, and reports that the queue is closed if it is.\<close>

theorem pq_pop_minimal:
  assumes "pq_reachable t c p"
  shows "if Heap_Len (pq_queues p ReadyQ) = 0
    then pq_Pop c p = Some (p, if pq_closed p then QueueClosed else Blocked)
    else (\<exists>p' u0 u. pq_Pop c p = Some (p', Popped u) \<and> popped_from u0 u \<and>
            contents (pq_queues p) ReadyQ (qui_UnitKey u0) = Some u0 \<and>
            (t = {kd} \<and> shipped_less (cf_lessFn c) \<or> strict_weak_on (good_units t) (cf_lessFn c) \<longrightarrow>
               (\<forall>v\<in>ran (contents (pq_queues p) ReadyQ). \<not> cf_lessFn c v u0)) \<and>
            (\<forall>n. contents (pq_queues p') n (qui_UnitKey u0) = None) \<and>
            (\<forall>n k. k \<noteq> qui_UnitKey u0 \<longrightarrow> contents (pq_queues p') n k = contents (pq_queues p) n k) \<and>
            pq_schedulingCycle p' = pq_schedulingCycle p + 1)"
proof (cases "Heap_Len (pq_queues p ReadyQ) = 0")
  case True
  then show ?thesis by (simp add: pq_Pop_def)
next
  case False
  have "t = {kd} \<and> shipped_less (cf_lessFn c) \<Longrightarrow> strict_weak_on (good_units t) (cf_lessFn c)"
    using shipped_less_order by blast
  then show ?thesis
    using False pq_Pop_spec [OF pq_reachable_inv [OF assms] False] unfolding not_in_queues if_not_P [OF False]
    by (elim exE conjE) (intro exI conjI impI; (elim disjE)?; assumption | blast)
qed

theorem pq_pop_minimal_witness:
  "\<exists>p p' u u0. pq_reachable {SinglePodUnitType} conf_example p \<and> pq_Pop conf_example p = Some (p', Popped u) \<and>
     qui_UnitKey u = GetUnitIdentifier pod_example \<and> popped_from u0 u \<and>
     (\<forall>v\<in>ran (contents (pq_queues p) ReadyQ). DefaultUnitQueueSort_Less v u0 \<noteq> Some True)"
proof -
  obtain p v where p: "pq_reachable {SinglePodUnitType} conf_example p"
    "contents (pq_queues p) ReadyQ (GetUnitIdentifier pod_example) = Some v"
    "\<forall>k. k \<noteq> GetUnitIdentifier pod_example \<longrightarrow> contents (pq_queues p) ReadyQ k = None"
    using ready_state [of "{SinglePodUnitType}"] by blast
  have "Heap_Len (pq_queues p ReadyQ) \<noteq> 0"
    using p(2) pq_reachable_inv [OF p(1)] family_wf Heap_Len_0 unfolding pq_inv_def
    by (metis option.distinct(1))
  moreover have "shipped_less (cf_lessFn conf_example)" by (simp add: shipped_less_def conf_example_def)
  ultimately obtain p' u0 u where u: "pq_Pop conf_example p = Some (p', Popped u)" "popped_from u0 u"
     "contents (pq_queues p) ReadyQ (qui_UnitKey u0) = Some u0"
     "\<forall>v\<in>ran (contents (pq_queues p) ReadyQ). \<not> cf_lessFn conf_example v u0"
    using pq_pop_minimal [OF p(1), of SinglePodUnitType] by auto
  have "qui_UnitKey u = GetUnitIdentifier pod_example"
    using p(3) u(2,3) unfolding popped_from_def by fastforce
  then show ?thesis using p(1) u by (auto simp: conf_example_def)
qed

text \<open>C19. flushBackoffQCompleted ends in every reachable state, and moves exactly the units whose backoff
  is over from the backoff queue to the ready queue: the units left in the backoff queue are still in
  backoff, and nothing else moves.\<close>

theorem pq_flush_backoff_exact:
  assumes "pq_reachable UNIV c p"
  shows "\<exists>p'. pq_flushBackoffQCompleted c e p = Some p' \<and>
    (\<forall>n k. contents (pq_queues p') n k =
       (case contents (pq_queues p) BackoffQ k of
          Some u \<Rightarrow>
            if isUnitBackoff (cf_boHandler c) (ev_now e) u then contents (pq_queues p) n k
            else if n = ReadyQ then Some u else None
        | None \<Rightarrow> contents (pq_queues p) n k))"
proof -
  obtain p' where p': "pq_flushBackoffQCompleted c e p = Some p'"
    "\<forall>m j. contents (pq_queues p') m j =
        relocate BackoffQ (\<lambda>u. \<not> isUnitBackoff (cf_boHandler c) (ev_now e) u) (\<lambda>_. ReadyQ) (pq_queues p) m j"
    using flushBackoff_spec [OF pq_reachable_inv [OF assms(1)]] by blast
  then show ?thesis by (intro exI [of _ p']) (simp add: relocate_def split: option.split)
qed

theorem pq_flush_backoff_exact_witness:
  "\<exists>p p' u. pq_flushBackoffQCompleted conf_example (env_example True) p = Some p' \<and>
     contents (pq_queues p) BackoffQ (GetUnitIdentifier pod_example) = Some u \<and>
     contents (pq_queues p') ReadyQ (GetUnitIdentifier pod_example) = Some u"
proof -
  obtain p u where p: "pq_reachable UNIV conf_example p"
    "contents (pq_queues p) BackoffQ (GetUnitIdentifier pod_example) = Some u"
    "qui_Timestamp u = 7" "qui_Attempts u = 0"
    using rejected_state [of UNIV "-1"] by auto
  have "\<not> isUnitBackoff (cf_boHandler conf_example) (ev_now (env_example True)) u"
    using p(3,4) by (simp add: isUnitBackoff_def getBackoffTime_def calculateBackoffDuration_def
      conf_example_def env_example_def newBackoffHandler_def)
  then show ?thesis
    using pq_flush_backoff_exact [OF p(1), of "env_example True"] p(2)
    by (elim exE conjE) (intro exI conjI, assumption, simp, simp)
qed

text \<open>C20. MoveAllToActiveOrBackoffQueue moves every unit of the unschedulable queue, except the pod
  groups that timed out, to the backoff queue if it is still in backoff and to the ready queue
  otherwise, leaves all other units where they are, and records the scheduling cycle as that of the
  last move request.\<close>

theorem pq_move_all_exact:
  assumes "pq_reachable UNIV c p"
  shows "\<exists>p'. pq_MoveAllToActiveOrBackoffQueue c e p = Some p' \<and>
    pq_moveRequestCycle p' = pq_schedulingCycle p \<and>
    (\<forall>n k. contents (pq_queues p') n k =
       (case contents (pq_queues p) UnschedulableQ k of
          Some u \<Rightarrow>
            if schedulingStatusTimeout e u then contents (pq_queues p) n k
            else if n = (if isUnitBackoff (cf_boHandler c) (ev_now e) u then BackoffQ else ReadyQ)
                 then Some u else None
        | None \<Rightarrow> contents (pq_queues p) n k))"
proof -
  obtain p' where p': "pq_MoveAllToActiveOrBackoffQueue c e p = Some p'"
    "pq_moveRequestCycle p' = pq_schedulingCycle p"
    "\<forall>m j. contents (pq_queues p') m j =
        relocate UnschedulableQ (\<lambda>u. \<not> schedulingStatusTimeout e u) (move_target c e) (pq_queues p) m j"
    using move_units_spec [OF pq_reachable_inv [OF assms(1)], of e "\<lambda>u. \<not> schedulingStatusTimeout e u"]
    by (auto simp: pq_MoveAllToActiveOrBackoffQueue_def)
  then show ?thesis
    by (intro exI [of _ p']) (simp add: relocate_def move_target_def split: option.split)
qed

theorem pq_move_all_exact_witness:
  "\<exists>p p' u. pq_MoveAllToActiveOrBackoffQueue conf_example (env_example True) p = Some p' \<and>
     contents (pq_queues p) UnschedulableQ (GetUnitIdentifier pod_example) = Some u \<and>
     contents (pq_queues p') ReadyQ (GetUnitIdentifier pod_example) = Some u"
proof -
  obtain p u where p: "pq_reachable UNIV conf_example p"
    "contents (pq_queues p) UnschedulableQ (GetUnitIdentifier pod_example) = Some u"
    "qui_Timestamp u = 7" "qui_Attempts u = 0" "unit_Type (qui_ScheduleUnit u) = SinglePodUnitType"
    using rejected_state [of UNIV 0] by auto
  have "\<not> isUnitBackoff (cf_boHandler conf_example) (ev_now (env_example True)) u"
      "\<not> schedulingStatusTimeout (env_example True) u"
    using p(3-5) by (simp_all add: isUnitBackoff_def getBackoffTime_def calculateBackoffDuration_def
      conf_example_def env_example_def newBackoffHandler_def schedulingStatusTimeout_def)
  then show ?thesis
    using pq_move_all_exact [OF p(1), of "env_example True"] p(2)
    by (elim exE conjE) (intro exI conjI, assumption, simp, simp)
qed

text \<open>A state in which a pod waits for its group, reached by one Add.\<close>

abbreviation train_key :: key where
  "train_key \<equiv> GetUnitIdentifier (group_pod ''u1'' ''1'')"

definition waiting_example :: waitingPods where
  "waiting_example =
     \<lparr>wp_unitKey = train_key, wp_pods = [''u1'' \<mapsto> newQueuedPodInfo 7 (group_pod ''u1'' ''1'')]\<rparr>"

lemma group_pod_name: "GetPodGroupName (group_pod uid v) = ''train''"
  by (simp add: GetPodGroupName_def group_pod_def ann_def)

lemma group_pod_key: "GetUnitIdentifier (group_pod uid v) = train_key"
  by (simp add: GetUnitIdentifier_def group_pod_name) (simp add: group_pod_def)

lemma waiting_state:
  "\<exists>p. pq_reachable UNIV conf_example p \<and> pq_moveRequestCycle p = -1 \<and>
       pq_queues p = (\<lambda>_. New) \<and> Heap_GetByKey (pq_waitingPodsList p) train_key = Some waiting_example"
proof -
  let ?q = "group_pod ''u1'' ''1''" and ?p = "NewPriorityQueue 7"
  have ne: "GetPodGroupName ?q \<noteq> []" by (simp add: group_pod_name)
  obtain w where w: "waitingPodsList_Add 7 New ?q = Some (w, Inr ())"
    "Heap_GetByKey w train_key = Some waiting_example"
    using waitingPodsList_Add_spec [OF wpl_ok_New ne, of 7]
    by (auto simp: waiting_example_def wpl_entry_def group_pod_def)
  have f: "findAndRemoveUnitFromQueue conf_example ?p train_key = Some (?p, None)"
    by (simp add: findAndRemoveUnitFromQueue_def NewPriorityQueue_def)
  have "CreateScheduleUnit (ev_pcLister (env_example False)) (ev_pgLister (env_example False)) 7 ?q =
      Inl PodGroupNotFound"
    by (simp add: CreateScheduleUnit_def group_pod_name env_example_def)
  then have "createUnitInfo (env_example False) New ?q = Some (New, Inl PodGroupNotFound)"
    by (simp add: createUnitInfo_def env_example_def Let_def)
  then have "pq_Add conf_example (env_example False) ?p ?q = Some (?p\<lparr>pq_waitingPodsList := w\<rparr>, Inr ())"
    using f w(1) by (simp add: pq_Add_def addPodToUnitInfo_def NewPriorityQueue_def env_example_def)
  then have "pq_exec conf_example (env_example False) (QAdd ?q) ?p = Some (?p\<lparr>pq_waitingPodsList := w\<rparr>)" by simp
  then have "pq_reachable UNIV conf_example (?p\<lparr>pq_waitingPodsList := w\<rparr>)"
    using pq_reachable.step [OF pq_reachable.start env_example_ok, where t = UNIV and opn = "QAdd ?q"] by simp
  then show ?thesis using w(2) by (intro exI [of _ "?p\<lparr>pq_waitingPodsList := w\<rparr>"]) (simp add: NewPriorityQueue_def)
qed

lemma waiting_example_transfer:
  "\<exists>u. transferToPodGroupUnit (\<lambda>_. None) (ev_pgLister (env_example True)) 7 sorted_list_of_set waiting_example =
     Some (Some u) \<and> readyToBeScheduled (env_example True) u"
proof -
  let ?i = "newQueuedPodInfo 7 (group_pod ''u1'' ''1'')"
  have l: "waitingPods_GetPods sorted_list_of_set waiting_example = [?i]"
    by (simp add: waitingPods_GetPods_def waiting_example_def List.map_filter_simps)
  let ?g = "NewPodGroupUnit 7 (Some (group_example\<lparr>pg_MinMember := 1\<rparr>)) 10"
  have cr: "CreateScheduleUnit (\<lambda>_. None) (ev_pgLister (env_example True)) 7 (group_pod ''u1'' ''1'') =
      Inr (PodGroupU ?g)"
    by (simp add: CreateScheduleUnit_def group_pod_name env_example_def)
      (simp add: group_pod_def pod_example_def group_example_def GetDefaultPriorityForGodelPod_def)
  have "qpi_Pod ?i = Some (group_pod ''u1'' ''1'')" by (simp add: newQueuedPodInfo_def)
  then show ?thesis
    using l cr
    by (simp add: transferToPodGroupUnit_def Let_def PodGroupUnit_AddPod_def readyToBeScheduled_def
        NewQueuedUnitInfo_def PodGroupUnit_ReadyToBePopulated_def NewPodGroupUnit_def group_example_def)
qed

text \<open>C21. A unit can be in two sub-queues: when the scheduler hands back a popped group unit while other
  pods of the group wait because the pod group was deleted meanwhile, and the group is then
  recreated, ActivePodGroupUnit queues a second unit of the same key next to the first, since neither
  operation looks where the other one stores.\<close>

theorem pq_unit_queued_twice:
  assumes "pq_reachable UNIV c p" "env_ok e" "Heap_GetByKey (pq_waitingPodsList p) k = Some wp"
    "transferToPodGroupUnit (ev_pcLister e) (ev_pgLister e) (ev_now e) (ev_ord e) wp = Some (Some v)"
    "unit_good UNIV (qui_ScheduleUnit u)" "qui_UnitKey u = k" "pq_moveRequestCycle p < cycle"
  shows "\<exists>p1 p2. pq_AddUnschedulableIfNotPresent c e p (Some u) cycle = Some (p1, Inr ()) \<and>
     pq_ActivePodGroupUnit c e p1 k = Some p2 \<and> k \<in> dom (contents (pq_queues p2) UnschedulableQ) \<and>
     k \<in> dom (contents (pq_queues p2) (if readyToBeScheduled e v then ReadyQ else WaitingQ))"
proof -
  have inv: "pq_inv UNIV c p" by (rule pq_reachable_inv [OF assms(1)])
  then have fam: "family_inv UNIV (sub_less c) (pq_queues p)" and wpl: "wpl_ok (pq_waitingPodsList p)"
    and nq: "\<not> in_queues (pq_queues p) k" and prio: "prio_ok (pq_priorityHeap p)"
    using assms(3) by (auto simp: pq_inv_def)
  have v: "qui_UnitKey v = k"
    using transfer_spec [of wp "ev_pgLister e" "ev_ord e" UNIV "ev_pcLister e" "ev_now e"] assms(2-4) wpl
    by (auto simp: env_ok_def wpl_ok_def)
  let ?p = "p\<lparr>pq_latestOperationTimestamp := ev_now e\<rparr>" and ?u = "u\<lparr>qui_Timestamp := ev_now e\<rparr>"
  have f: "findAndRemoveUnitFromQueue c ?p k = Some (?p, None)"
    using find_spec [of UNIV c ?p k] inv nq by (auto simp: in_queues_iff)
  obtain h where h: "put_priority ?p ?u = Some (?p\<lparr>pq_priorityHeap := h\<rparr>)"
    using put_priority_spec [of ?p ?u] prio by auto
  obtain qs where q: "q_Add (sub_less c) (pq_queues p) UnschedulableQ ?u = Some (qs, Inr ())"
    "family_inv UNIV (sub_less c) qs"
    "\<forall>m j. contents qs m j = (if m = UnschedulableQ \<and> j = k then Some ?u else contents (pq_queues p) m j)"
    using q_Add_new_spec [OF fam, of ?u UnschedulableQ] assms(5,6) nq by auto
  define p1 where "p1 = ?p\<lparr>pq_priorityHeap := h, pq_queues := qs\<rparr>"
  have 1: "pq_AddUnschedulableIfNotPresent c e p (Some u) cycle = Some (p1, Inr ())"
    using f h q(1) assms(5-7)
    by (simp add: pq_AddUnschedulableIfNotPresent_def Let_def unit_good_def put_unit_def p1_def)
  let ?n = "if readyToBeScheduled e v then ReadyQ else WaitingQ"
  let ?qs = "qs(?n := heap_add (\<lambda>x. Inr (qui_UnitKey x)) (sub_less c ?n) (qs ?n) v)"
  note wf = family_wf [OF q(2), of ?n]
  have put: "put_unit c p1 ?n v = Some (p1\<lparr>pq_queues := ?qs\<rparr>, Inr ())"
    using wf by (simp add: put_unit_def q_Add_def unitInfoKeyFunc_def p1_def)
  have wd: "data_wf (pq_waitingPodsList p)" using wpl by (simp add: wpl_ok_def)
  have w1: "pq_waitingPodsList p1 = pq_waitingPodsList p" by (simp add: p1_def)
  have 2: "pq_ActivePodGroupUnit c e p1 k =
      Some (p1\<lparr>pq_queues := ?qs, pq_waitingPodsList := heap_del alwaysFalse (pq_waitingPodsList p) k\<rparr>)"
    using put assms(3,4) wd w1 by (simp add: pq_ActivePodGroupUnit_def)
  have "contents qs UnschedulableQ k = Some ?u" using q(3) by simp
  then have "k \<in> dom (contents ?qs UnschedulableQ)" "k \<in> dom (contents ?qs ?n)"
    using wf v by (auto split: if_splits)
  then show ?thesis using 1 2 by auto
qed

theorem pq_unit_queued_twice_witness:
  "\<exists>p1 p2 p u. pq_AddUnschedulableIfNotPresent conf_example (env_example True) p (Some u) 1 = Some (p1, Inr ()) \<and>
     pq_ActivePodGroupUnit conf_example (env_example True) p1 train_key = Some p2 \<and>
     train_key \<in> dom (contents (pq_queues p2) UnschedulableQ) \<and>
     train_key \<in> dom (contents (pq_queues p2) ReadyQ)"
proof -
  obtain p where p: "pq_reachable UNIV conf_example p" "pq_moveRequestCycle p = -1"
    "Heap_GetByKey (pq_waitingPodsList p) train_key = Some waiting_example"
    using waiting_state by blast
  obtain v where v: "transferToPodGroupUnit (ev_pcLister (env_example True)) (ev_pgLister (env_example True))
      (ev_now (env_example True)) (ev_ord (env_example True)) waiting_example = Some (Some v)"
    "readyToBeScheduled (env_example True) v"
    using waiting_example_transfer by (auto simp: env_example_def)
  have "wp_ok waiting_example" "wp_unitKey waiting_example = train_key"
    using pq_reachable_inv [OF p(1)] p(3) by (auto simp: pq_inv_def wpl_ok_def)
  then have "unit_good UNIV (qui_ScheduleUnit v)" "qui_UnitKey v = train_key"
    using transfer_spec [of waiting_example "ev_pgLister (env_example True)" "ev_ord (env_example True)" UNIV
        "ev_pcLister (env_example True)" "ev_now (env_example True)"] v(1) env_example_ok [of True]
    by (auto simp: env_ok_def)
  then show ?thesis
    using pq_unit_queued_twice [OF p(1) env_example_ok p(3) v(1), of v 1] p(2) v(2) by auto
qed

text \<open>An update of a pod that still waits for its group is lost when the group has become known: the
  unit made for the new version picks up the waiting pods and replaces the new version by the waiting
  one, so the queue holds the old pod after Update.\<close>

theorem pq_update_keeps_stale_pod:
  assumes "pq_reachable UNIV c p" "env_ok e" "k = GetUnitIdentifier newPod"
    "Heap_GetByKey (pq_waitingPodsList p) k = Some wp" "wp_pods wp (pod_UID newPod) = Some i"
    "CreateScheduleUnit (ev_pcLister e) (ev_pgLister e) (ev_now e) newPod = Inr su"
  shows "\<exists>p' n u. pq_Update c e p oldPod newPod = Some (p', Inr ()) \<and>
     contents (pq_queues p') n k = Some u \<and> unit_find (qui_ScheduleUnit u) (pod_UID newPod) = Some i"
proof -
  define p0 where "p0 = p\<lparr>pq_latestOperationTimestamp := ev_now e\<rparr>"
  have inv: "pq_inv UNIV c p0" using pq_reachable_inv [OF assms(1)] by (simp add: p0_def)
  have wpl: "wpl_ok (pq_waitingPodsList p0)" and nq: "\<not> in_queues (pq_queues p0) k"
    using inv assms(4) by (auto simp: pq_inv_def p0_def)
  have f: "findAndRemoveUnitFromQueue c p0 k = Some (p0, None)"
    using find_spec [OF inv, of k] nq by (auto simp: in_queues_iff)
  obtain w r where w: "createUnitInfo e (pq_waitingPodsList p0) newPod = Some (w, r)"
    "half_ok UNIV c newPod p0 (p0\<lparr>pq_waitingPodsList := w\<rparr>) r" "created_ok UNIV (pq_waitingPodsList p0) w newPod r"
    using create_half [OF inv assms(2), of newPod] nq assms(3) createUnitInfo_spec [OF wpl assms(2), of newPod UNIV]
    by auto
  have "\<exists>u. r = Inr u"
  proof (cases r)
    case (Inl err)
    have "GetPodGroupName newPod \<noteq> []" using w(2) Inl by (simp add: half_ok_def)
    then obtain g where "su = PodGroupU g"
      using created_group_unit [OF assms(6)] assms(2) by (auto simp: env_ok_def)
    then have "\<exists>w' u. createUnitInfo e (pq_waitingPodsList p0) newPod = Some (w', Inr u)"
      using assms(3,4,6) wpl
      by (auto simp: createUnitInfo_def Let_def PodGroupUnit_AddPod_def PodGroupUnit_AddPods_def
          newQueuedPodInfo_def p0_def wpl_ok_def)
    then show ?thesis using w(1) Inl by auto
  qed auto
  then obtain u where r: "r = Inr u" by blast
  have find: "unit_find (qui_ScheduleUnit u) (pod_UID newPod) = Some i"
    using w(3) r assms(3-5) by (auto simp: created_ok_def wpl_entry_def p0_def)
  define p1 where "p1 = p0\<lparr>pq_waitingPodsList := w\<rparr>"
  have out: "pq_out UNIV c k p1" "qui_UnitKey u = k" "unit_good UNIV (qui_ScheduleUnit u)"
    using w(2) r assms(3) by (auto simp: half_ok_def p1_def)
  let ?n = "if readyToBeScheduled e u then ReadyQ else WaitingQ"
  obtain qs h where s: "put_unit c p1 ?n u = Some (p1\<lparr>pq_queues := qs\<rparr>, Inr ())"
    "put_priority (p1\<lparr>pq_queues := qs\<rparr>) u = Some (p1\<lparr>pq_queues := qs, pq_priorityHeap := h\<rparr>)"
    "\<forall>m j. contents qs m j = (if m = ?n \<and> j = k then Some u else contents (pq_queues p1) m j)"
    using store_spec' [OF out, of ?n] by blast
  have "pq_Update c e p oldPod newPod = Some (p1\<lparr>pq_queues := qs, pq_priorityHeap := h\<rparr>, Inr ())"
    using f w(1) r s(1,2) assms(3)
    by (simp add: pq_Update_def updatePodInUnitInfo_def p0_def [symmetric] p1_def [symmetric] Let_def)
  moreover have "contents qs ?n k = Some u" using s(3) by simp
  ultimately show ?thesis using find by auto
qed

theorem pq_update_keeps_stale_pod_witness:
  "\<exists>p p' n u i. pq_Update conf_example (env_example True) p (group_pod ''u1'' ''1'') (group_pod ''u1'' ''2'') =
       Some (p', Inr ()) \<and>
     contents (pq_queues p') n train_key = Some u \<and> unit_find (qui_ScheduleUnit u) ''u1'' = Some i \<and>
     qpi_Pod i = Some (group_pod ''u1'' ''1'')"
proof -
  let ?new = "group_pod ''u1'' ''2''" and ?i = "newQueuedPodInfo 7 (group_pod ''u1'' ''1'')"
  obtain p where p: "pq_reachable UNIV conf_example p"
    "Heap_GetByKey (pq_waitingPodsList p) (GetUnitIdentifier ?new) = Some waiting_example"
    using waiting_state unfolding group_pod_key [of "''u1''" "''2''"] by blast
  have u: "pod_UID ?new = ''u1''" by (simp add: group_pod_def)
  have i: "wp_pods waiting_example (pod_UID ?new) = Some ?i" by (simp add: waiting_example_def u)
  obtain su where su: "CreateScheduleUnit (ev_pcLister (env_example True)) (ev_pgLister (env_example True))
      (ev_now (env_example True)) ?new = Inr su"
    by (simp add: CreateScheduleUnit_def group_pod_name env_example_def)
      (simp add: group_pod_def pod_example_def group_example_def)
  have "qpi_Pod ?i = Some (group_pod ''u1'' ''1'')" by (simp add: newQueuedPodInfo_def)
  then show ?thesis
    using pq_update_keeps_stale_pod [OF p(1) env_example_ok refl p(2) i su,
        of "group_pod ''u1'' ''1''"]
    unfolding u group_pod_key [of "''u1''" "''2''"] by blast
qed

text \<open>A unit made of waiting pods by ActivePodGroupUnit is queued but never enters the priority
  heap, unlike every unit queued by Add, Update or AddUnschedulableIfNotPresent, so the smallest
  priority in the queue that scores are computed from leaves it out.\<close>

theorem pq_activated_unit_not_in_priority_heap:
  assumes "pq_reachable UNIV c p" "env_ok e" "Heap_GetByKey (pq_waitingPodsList p) k = Some wp"
    "transferToPodGroupUnit (ev_pcLister e) (ev_pgLister e) (ev_now e) (ev_ord e) wp = Some (Some u)"
  shows "\<exists>p'. pq_ActivePodGroupUnit c e p k = Some p' \<and>
     contents (pq_queues p') (if readyToBeScheduled e u then ReadyQ else WaitingQ) k = Some u \<and>
     Heap_GetByKey (pq_priorityHeap p') k = None"
proof -
  have inv: "pq_inv UNIV c p" by (rule pq_reachable_inv [OF assms(1)])
  then have wpl: "wpl_ok (pq_waitingPodsList p)" and nq: "\<not> in_queues (pq_queues p) k"
    using assms(3) by (auto simp: pq_inv_def)
  have prio: "Heap_GetByKey (pq_priorityHeap p) k = None"
    using inv nq unfolding pq_inv_def by (metis domIff)
  have u: "qui_UnitKey u = k" "unit_good UNIV (qui_ScheduleUnit u)"
    using transfer_spec [of wp "ev_pgLister e" "ev_ord e" UNIV "ev_pcLister e" "ev_now e"] assms(2-4) wpl
    by (auto simp: env_ok_def wpl_ok_def)
  let ?n = "if readyToBeScheduled e u then ReadyQ else WaitingQ"
  obtain w r qs where a: "Heap_DeleteByKey alwaysFalse (pq_waitingPodsList p) k = Some (w, r)"
    "put_unit c p ?n u = Some (p\<lparr>pq_queues := qs\<rparr>, Inr ())"
    "\<forall>m j. contents qs m j = (if m = ?n \<and> j = k then Some u else contents (pq_queues p) m j)"
    using activate_spec [OF inv, of u ?n] nq u by auto
  have "pq_ActivePodGroupUnit c e p k = Some (p\<lparr>pq_queues := qs, pq_waitingPodsList := w\<rparr>)"
    using a(1,2) assms(3,4) by (simp add: pq_ActivePodGroupUnit_def)
  moreover have "contents qs ?n k = Some u" using a(3) by simp
  ultimately show ?thesis using prio by auto
qed

theorem pq_activated_unit_not_in_priority_heap_witness:
  "\<exists>p p'. pq_ActivePodGroupUnit conf_example (env_example True) p train_key = Some p' \<and>
     train_key \<in> dom (contents (pq_queues p') ReadyQ) \<and> Heap_GetByKey (pq_priorityHeap p') train_key = None"
proof -
  obtain p where p: "pq_reachable UNIV conf_example p"
    "Heap_GetByKey (pq_waitingPodsList p) train_key = Some waiting_example"
    using waiting_state by blast
  obtain v where v: "transferToPodGroupUnit (ev_pcLister (env_example True)) (ev_pgLister (env_example True))
      (ev_now (env_example True)) (ev_ord (env_example True)) waiting_example = Some (Some v)"
    "readyToBeScheduled (env_example True) v"
    using waiting_example_transfer by (auto simp: env_example_def)
  show ?thesis
    using pq_activated_unit_not_in_priority_heap [OF p(1) env_example_ok p(2) v(1)] v(2) by auto
qed

end
