(* ===== verification/Block_Queue.thy ===== *)
theory Block_Queue
  imports Priority_Queue
begin

section \<open>The blocking scheduling queue (pkg/scheduler/queue/block_queue.go)\<close>

text \<open>
  \<^verbatim>\<open>BlockQueue\<close> is the scheduling queue without backoff and unschedulable sub-queues: a unit that could
  not be scheduled goes back to the ready queue, and \<^verbatim>\<open>Pop\<close> waits while the unit at the head is in
  backoff. The model follows that of \<^verbatim>\<open>PriorityQueue\<close> and shares its parts; the state is \<open>BlockQueue\<close>, the
  invariant \<open>bq_inv\<close>. The properties: every operation keeps the invariant and none panics, and \<^verbatim>\<open>Pop\<close>
  returns the head or blocks.
\<close>

datatype bqname = BWaitingQ | BReadyQ

record BlockQueue =
  bq_latestOperationTimestamp :: time
  bq_closed :: bool
  bq_waitingPodsList :: wp_list
  bq_queues :: "bqname queues"
  bq_schedulingCycle :: int
  bq_moveRequestCycle :: int

fun bq_less :: "queue_conf \<Rightarrow> bqname less_family" where
  "bq_less c BReadyQ = cf_lessFn c"
| "bq_less c BWaitingQ = alwaysFalse"

definition NewBlockQueue :: "time \<Rightarrow> BlockQueue" where
  "NewBlockQueue now =
     \<lparr>bq_latestOperationTimestamp = now, bq_closed = False, bq_waitingPodsList = New,
      bq_queues = (\<lambda>_. New), bq_schedulingCycle = 0, bq_moveRequestCycle = -1\<rparr>"

definition bq_readyToBeScheduled :: "queue_env \<Rightarrow> QueuedUnitInfo \<Rightarrow> bool" where
  "bq_readyToBeScheduled e u \<longleftrightarrow>
     unit_ReadyToBePopulated (qui_ScheduleUnit u) \<or> ev_status e (qui_UnitKey u) = ScheduledStatus"

definition bq_findAndRemoveUnitFromQueue ::
  "queue_conf \<Rightarrow> BlockQueue \<Rightarrow> key \<Rightarrow> (BlockQueue \<times> (bqname \<times> QueuedUnitInfo) option) option" where
  "bq_findAndRemoveUnitFromQueue c p unitKey =
     do { (qs, r) \<leftarrow> find_and_remove (bq_less c) (bq_queues p) unitKey [BWaitingQ, BReadyQ];
          Some (p\<lparr>bq_queues := qs\<rparr>, r) }"

text \<open>The body of \<^verbatim>\<open>createUnitInfo\<close> is that of \<^verbatim>\<open>PriorityQueue\<close>, word for word.\<close>

definition bq_createUnitInfo ::
  "queue_env \<Rightarrow> wp_list \<Rightarrow> pod \<Rightarrow> (wp_list \<times> (unit_error + QueuedUnitInfo)) option" where
  "bq_createUnitInfo e w q = createUnitInfo e w q"

definition bq_addPodToUnitInfo ::
  "queue_conf \<Rightarrow> queue_env \<Rightarrow> BlockQueue \<Rightarrow> pod \<Rightarrow>
   (BlockQueue \<times> bqname option \<times> (unit_error + QueuedUnitInfo)) option" where
  "bq_addPodToUnitInfo c e p q =
     do { (p1, r) \<leftarrow> bq_findAndRemoveUnitFromQueue c p (GetUnitIdentifier q);
          (case r of
             Some (n, u) \<Rightarrow>
               (case unit_AddPod (qui_ScheduleUnit u) (newQueuedPodInfo (ev_now e) q) of
                  (_, Inl err) \<Rightarrow> Some (p1, Some n, Inl err)
                | (su, Inr _) \<Rightarrow> Some (p1, Some n, Inr (u\<lparr>qui_ScheduleUnit := su\<rparr>)))
           | None \<Rightarrow>
               do { (w, created) \<leftarrow> bq_createUnitInfo e (bq_waitingPodsList p1) q;
                    Some (p1\<lparr>bq_waitingPodsList := w\<rparr>, None, created) }) }"

definition bq_updatePodInUnitInfo ::
  "queue_conf \<Rightarrow> queue_env \<Rightarrow> BlockQueue \<Rightarrow> pod \<Rightarrow> pod \<Rightarrow>
   (BlockQueue \<times> bqname option \<times> (unit_error + QueuedUnitInfo)) option" where
  "bq_updatePodInUnitInfo c e p oldPod newPod =
     do { (p1, r) \<leftarrow> bq_findAndRemoveUnitFromQueue c p (GetUnitIdentifier newPod);
          (case r of
             None \<Rightarrow>
               do { (w, created) \<leftarrow> bq_createUnitInfo e (bq_waitingPodsList p1) newPod;
                    Some (p1\<lparr>bq_waitingPodsList := w\<rparr>, None, created) }
           | Some (n, u) \<Rightarrow>
               do { found \<leftarrow> unit_GetPod (qui_ScheduleUnit u) (newQueuedPodInfoForLookup oldPod);
                    let su = (case found of
                                Some oldPodInfo \<Rightarrow>
                                  fst (unit_AddPod (fst (unit_DeletePod (qui_ScheduleUnit u) oldPodInfo))
                                         (updatePodInfo oldPodInfo newPod))
                              | None \<Rightarrow>
                                  fst (unit_AddPod (qui_ScheduleUnit u) (newQueuedPodInfo (ev_now e) newPod)));
                    Some (p1, Some n, Inr (u\<lparr>qui_ScheduleUnit := su\<rparr>)) }) }"

definition bq_deletePodFromUnitInfo ::
  "queue_conf \<Rightarrow> BlockQueue \<Rightarrow> pod \<Rightarrow> (BlockQueue \<times> (bqname \<times> QueuedUnitInfo) option) option" where
  "bq_deletePodFromUnitInfo c p q =
     do { (p1, r) \<leftarrow> bq_findAndRemoveUnitFromQueue c p (GetUnitIdentifier q);
          (case r of
             Some (n, u) \<Rightarrow>
               Some (p1, Some (n, u\<lparr>qui_ScheduleUnit :=
                      fst (unit_DeletePod (qui_ScheduleUnit u) (newQueuedPodInfoForLookup q))\<rparr>))
           | None \<Rightarrow> Some (p1, None)) }"

definition bq_put ::
  "queue_conf \<Rightarrow> BlockQueue \<Rightarrow> bqname \<Rightarrow> QueuedUnitInfo \<Rightarrow> (BlockQueue \<times> (heap_error + unit)) option" where
  "bq_put c p n u = do { (qs, r) \<leftarrow> q_Add (bq_less c) (bq_queues p) n u; Some (p\<lparr>bq_queues := qs\<rparr>, r) }"

subsection \<open>The operations\<close>

type_synonym bq_result = "(BlockQueue \<times> (heap_error + unit)) option"

definition bq_Add :: "queue_conf \<Rightarrow> queue_env \<Rightarrow> BlockQueue \<Rightarrow> pod \<Rightarrow> bq_result" where
  "bq_Add c e p0 q =
     do { (p1, queue, r) \<leftarrow> bq_addPodToUnitInfo c e (p0\<lparr>bq_latestOperationTimestamp := ev_now e\<rparr>) q;
          (case r of
             Inl _ \<Rightarrow>
               do { (w, res) \<leftarrow> waitingPodsList_Add (ev_now e) (bq_waitingPodsList p1) q;
                    Some (p1\<lparr>bq_waitingPodsList := w\<rparr>, res) }
           | Inr u \<Rightarrow> bq_put c p1 (if bq_readyToBeScheduled e u then BReadyQ else BWaitingQ) u) }"

definition bq_AddUnschedulableIfNotPresent ::
  "queue_conf \<Rightarrow> queue_env \<Rightarrow> BlockQueue \<Rightarrow> QueuedUnitInfo option \<Rightarrow> bq_result" where
  "bq_AddUnschedulableIfNotPresent c e p0 unitInfo =
     (let p = p0\<lparr>bq_latestOperationTimestamp := ev_now e\<rparr> in
      case unitInfo of
        None \<Rightarrow> Some (p, Inr ())
      | Some u0 \<Rightarrow>
          if unit_NumPods (qui_ScheduleUnit u0) = 0 then Some (p, Inr ())
          else
            do { (p1, r) \<leftarrow> bq_findAndRemoveUnitFromQueue c p (qui_UnitKey u0);
                 let su = (case r of
                             Some (_, u') \<Rightarrow>
                               fst (unit_AddPodsIfNotPresent (qui_ScheduleUnit u0)
                                      (unit_GetPods (ev_ord e) (qui_ScheduleUnit u')))
                           | None \<Rightarrow> qui_ScheduleUnit u0);
                 bq_put c p1 BReadyQ (u0\<lparr>qui_ScheduleUnit := su, qui_Timestamp := ev_now e\<rparr>) })"

definition bq_Update :: "queue_conf \<Rightarrow> queue_env \<Rightarrow> BlockQueue \<Rightarrow> pod \<Rightarrow> pod \<Rightarrow> bq_result" where
  "bq_Update c e p0 oldPod newPod =
     do { (p1, queue, r) \<leftarrow> bq_updatePodInUnitInfo c e (p0\<lparr>bq_latestOperationTimestamp := ev_now e\<rparr>) oldPod newPod;
          (case r of
             Inl _ \<Rightarrow>
               do { (w, res) \<leftarrow> waitingPodsList_Update (ev_now e) (bq_waitingPodsList p1) oldPod newPod;
                    Some (p1\<lparr>bq_waitingPodsList := w\<rparr>, res) }
           | Inr u \<Rightarrow> bq_put c p1 (if bq_readyToBeScheduled e u then BReadyQ else BWaitingQ) u) }"

definition bq_Delete :: "queue_conf \<Rightarrow> queue_env \<Rightarrow> BlockQueue \<Rightarrow> pod \<Rightarrow> bq_result" where
  "bq_Delete c e p0 q =
     do { (p1, r) \<leftarrow> bq_deletePodFromUnitInfo c (p0\<lparr>bq_latestOperationTimestamp := ev_now e\<rparr>) q;
          (w, werr) \<leftarrow> waitingPodsList_Delete (bq_waitingPodsList p1) q;
          let p2 = p1\<lparr>bq_waitingPodsList := w\<rparr>;
          (case r of
             None \<Rightarrow> Some (p2, Inr ())
           | Some (n, u) \<Rightarrow>
               if unit_NumPods (qui_ScheduleUnit u) = 0 then Some (p2, werr)
               else if n \<noteq> BWaitingQ \<and> \<not> bq_readyToBeScheduled e u then bq_put c p2 BWaitingQ u
               else bq_put c p2 n u) }"

definition bq_ActivePodGroupUnit :: "queue_conf \<Rightarrow> queue_env \<Rightarrow> BlockQueue \<Rightarrow> key \<Rightarrow> BlockQueue option" where
  "bq_ActivePodGroupUnit c e p unitKey =
     (case Heap_GetByKey (bq_waitingPodsList p) unitKey of
        None \<Rightarrow> Some p
      | Some wp \<Rightarrow>
          do { r \<leftarrow> transferToPodGroupUnit (ev_pcLister e) (ev_pgLister e) (ev_now e) (ev_ord e) wp;
               (case r of
                  None \<Rightarrow> Some p
                | Some u \<Rightarrow>
                    do { (p1, res) \<leftarrow> bq_put c p (if bq_readyToBeScheduled e u then BReadyQ else BWaitingQ) u;
                         (case res of
                            Inl _ \<Rightarrow> Some p1
                          | Inr _ \<Rightarrow>
                              do { (w, _) \<leftarrow> Heap_DeleteByKey alwaysFalse (bq_waitingPodsList p1) unitKey;
                                   Some (p1\<lparr>bq_waitingPodsList := w\<rparr>) }) }) })"

fun bq_flush_scheduled_loop :: "queue_conf \<Rightarrow> bqname queues \<Rightarrow> QueuedUnitInfo list \<Rightarrow> bqname queues option" where
  "bq_flush_scheduled_loop c qs [] = Some qs"
| "bq_flush_scheduled_loop c qs (u # us) =
     do { (qs1, _) \<leftarrow> q_Delete (bq_less c) qs BWaitingQ u;
          (qs2, _) \<leftarrow> q_Add (bq_less c) qs1 BReadyQ u;
          bq_flush_scheduled_loop c qs2 us }"

definition bq_flushScheduledUnitsInWaitingQ :: "queue_conf \<Rightarrow> queue_env \<Rightarrow> BlockQueue \<Rightarrow> BlockQueue option" where
  "bq_flushScheduledUnitsInWaitingQ c e p =
     do { qs \<leftarrow> bq_flush_scheduled_loop c (bq_queues p)
                  (filter (bq_readyToBeScheduled e) (heap_objects (bq_queues p BWaitingQ)));
          Some (p\<lparr>bq_queues := qs\<rparr>) }"

fun bq_flush_waiting_loop :: "queue_conf \<Rightarrow> queue_env \<Rightarrow> BlockQueue \<Rightarrow> QueuedUnitInfo list \<Rightarrow> BlockQueue option" where
  "bq_flush_waiting_loop c e p [] = Some p"
| "bq_flush_waiting_loop c e p (u # us) =
     do { (w, _) \<leftarrow> Heap_DeleteByKey alwaysFalse (bq_waitingPodsList p) (qui_UnitKey u);
          (p1, _) \<leftarrow> bq_put c (p\<lparr>bq_waitingPodsList := w\<rparr>)
                        (if bq_readyToBeScheduled e u then BReadyQ else BWaitingQ) u;
          bq_flush_waiting_loop c e p1 us }"

definition bq_flushWaitingPodsList :: "queue_conf \<Rightarrow> queue_env \<Rightarrow> BlockQueue \<Rightarrow> BlockQueue option" where
  "bq_flushWaitingPodsList c e p =
     do { us \<leftarrow> transfer_all e (heap_objects (bq_waitingPodsList p)); bq_flush_waiting_loop c e p us }"

text \<open>A second \<^verbatim>\<open>Close\<close> closes the channel \<^verbatim>\<open>stop\<close> again and panics.\<close>

definition bq_Close :: "BlockQueue \<Rightarrow> BlockQueue option" where
  "bq_Close p = (if bq_closed p then None else Some (p\<lparr>bq_closed := True\<rparr>))"

definition bq_CanBeRecycle :: "queue_env \<Rightarrow> BlockQueue \<Rightarrow> bool" where
  "bq_CanBeRecycle e p =
     (if \<not> (bq_latestOperationTimestamp p + RecycleExpiration < ev_now e) then False
      else Heap_Len (bq_waitingPodsList p) = 0 \<and>
           list_all (\<lambda>n. Heap_Len (bq_queues p n) = 0) [BWaitingQ, BReadyQ])"

text \<open>The condition of the waiting loop of \<^verbatim>\<open>Pop\<close>: no unit, or one in backoff at the head.\<close>

definition bq_must_wait :: "queue_conf \<Rightarrow> queue_env \<Rightarrow> BlockQueue \<Rightarrow> bool option" where
  "bq_must_wait c e p =
     (if Heap_Len (bq_queues p BReadyQ) = 0 then Some True
      else do { r \<leftarrow> Heap_Peek (bq_queues p BReadyQ);
                (case r of None \<Rightarrow> None | Some u \<Rightarrow> Some (isUnitBackoff (cf_boHandler c) (ev_now e) u)) })"

definition bq_Pop :: "queue_conf \<Rightarrow> queue_env \<Rightarrow> BlockQueue \<Rightarrow> (BlockQueue \<times> pop_result) option" where
  "bq_Pop c e p =
     do { b \<leftarrow> bq_must_wait c e p;
          if b then Some (p, if bq_closed p then QueueClosed else Blocked)
          else
            do { (h, r) \<leftarrow> Heap_Pop (cf_lessFn c) (bq_queues p BReadyQ);
                 let p1 = p\<lparr>bq_queues := (bq_queues p)(BReadyQ := h)\<rparr>;
                 (case r of
                    Inl err \<Rightarrow> Some (p1, PopFailed err)
                  | Inr u \<Rightarrow>
                      Some (p1\<lparr>bq_schedulingCycle := bq_schedulingCycle p1 + 1\<rparr>,
                            Popped (u\<lparr>qui_Attempts := qui_Attempts u + 1\<rparr>))) } }"

definition bq_Peek :: "BlockQueue \<Rightarrow> QueuedUnitInfo option option" where
  "bq_Peek p = (if Heap_Len (bq_queues p BReadyQ) = 0 then Some None else Heap_Peek (bq_queues p BReadyQ))"

definition bq_PendingPods :: "queue_env \<Rightarrow> BlockQueue \<Rightarrow> pod option list" where
  "bq_PendingPods e p =
     concat (map (\<lambda>w. map qpi_Pod (waitingPods_GetPods (ev_ord e) w))
       (Heap_List (bq_waitingPodsList p) (ev_ord e (dom (Heap_GetByKey (bq_waitingPodsList p)))))) @
     concat (map (\<lambda>n.
       concat (map (\<lambda>u. map qpi_Pod (unit_GetPods (ev_ord e) (qui_ScheduleUnit u)))
         (Heap_List (bq_queues p n) (ev_ord e (dom (Heap_GetByKey (bq_queues p n)))))))
       [BWaitingQ, BReadyQ])"

text \<open>Whether the ticker wakes the waiting \<^verbatim>\<open>Pop\<close>.\<close>

definition bq_triggerBroadcastIfNeeded :: "queue_conf \<Rightarrow> queue_env \<Rightarrow> BlockQueue \<Rightarrow> bool option" where
  "bq_triggerBroadcastIfNeeded c e p =
     do { r \<leftarrow> Heap_Peek (bq_queues p BReadyQ);
          Some (case r of None \<Rightarrow> False | Some u \<Rightarrow> \<not> isUnitBackoff (cf_boHandler c) (ev_now e) u) }"

subsection \<open>The invariant\<close>

definition bq_inv :: "ScheduleUnitType set \<Rightarrow> queue_conf \<Rightarrow> BlockQueue \<Rightarrow> bool" where
  "bq_inv t c p \<longleftrightarrow>
     family_inv t (bq_less c) (bq_queues p) \<and> wpl_ok (bq_waitingPodsList p) \<and>
     (\<forall>j. j \<in> dom (Heap_GetByKey (bq_waitingPodsList p)) \<longrightarrow> \<not> in_queues (bq_queues p) j \<and> PodGroupUnitType \<in> t)"

definition bq_out :: "ScheduleUnitType set \<Rightarrow> queue_conf \<Rightarrow> key \<Rightarrow> BlockQueue \<Rightarrow> bool" where
  "bq_out t c k p \<longleftrightarrow>
     bq_inv t c p \<and> \<not> in_queues (bq_queues p) k \<and> Heap_GetByKey (bq_waitingPodsList p) k = None"

lemma bq_inv_New: "bq_inv t c (NewBlockQueue now)"
  by (simp add: bq_inv_def NewBlockQueue_def family_New)

lemma bq_inv_timestamp [simp]: "bq_inv t c (p\<lparr>bq_latestOperationTimestamp := now\<rparr>) = bq_inv t c p"
  by (simp add: bq_inv_def)

lemma bq_inv_queues:
  assumes "bq_inv t c p" "family_inv t (bq_less c) qs" "\<And>k. in_queues qs k \<Longrightarrow> in_queues (bq_queues p) k"
  shows "bq_inv t c (p\<lparr>bq_queues := qs\<rparr>)"
  using assms unfolding bq_inv_def by auto

lemma bq_find_spec:
  assumes "bq_inv t c p"
  shows "(bq_findAndRemoveUnitFromQueue c p k = Some (p, None) \<and> \<not> in_queues (bq_queues p) k) \<or>
    (\<exists>qs n u. bq_findAndRemoveUnitFromQueue c p k = Some (p\<lparr>bq_queues := qs\<rparr>, Some (n, u)) \<and>
       qui_UnitKey u = k \<and> unit_good t (qui_ScheduleUnit u) \<and> bq_out t c k (p\<lparr>bq_queues := qs\<rparr>))"
proof -
  let ?ns = "[BWaitingQ, BReadyQ]"
  have fam: "family_inv t (bq_less c) (bq_queues p)" using assms(1) by (simp add: bq_inv_def)
  obtain qs r where f: "find_and_remove (bq_less c) (bq_queues p) k ?ns = Some (qs, r)" "family_inv t (bq_less c) qs"
    "case r of
        None \<Rightarrow> qs = bq_queues p \<and> (\<forall>n\<in>set ?ns. contents (bq_queues p) n k = None)
      | Some (n, u) \<Rightarrow>
          n \<in> set ?ns \<and> contents (bq_queues p) n k = Some u \<and> qui_UnitKey u = k \<and>
          unit_good t (qui_ScheduleUnit u) \<and> \<not> in_queues qs k \<and>
          (\<forall>m j. contents qs m j = (if m = n \<and> j = k then None else contents (bq_queues p) m j))"
    using find_and_remove_spec [OF fam, of k ?ns] by blast
  have eq: "bq_findAndRemoveUnitFromQueue c p k = Some (p\<lparr>bq_queues := qs\<rparr>, r)"
    unfolding bq_findAndRemoveUnitFromQueue_def f(1) by simp
  show ?thesis
  proof (cases r)
    case None
    have "contents (bq_queues p) n k = None" for n using f(3) None by (cases n) auto
    then show ?thesis using None f(3) eq by (simp add: not_in_queues)
  next
    case (Some nu)
    then obtain n u where nu: "r = Some (n, u)" by (cases nu) auto
    have c': "contents qs m j = (if m = n \<and> j = k then None else contents (bq_queues p) m j)" for m j
      using f(3) nu by simp
    have sub: "in_queues (bq_queues p) j" if "in_queues qs j" for j
      using that unfolding in_queues_iff c' by (metis option.distinct(1))
    have "in_queues (bq_queues p) k" using f(3) nu unfolding in_queues_iff by auto
    then have "Heap_GetByKey (bq_waitingPodsList p) k = None" using assms(1) unfolding bq_inv_def by (metis domIff)
    moreover have "bq_inv t c (p\<lparr>bq_queues := qs\<rparr>)" by (rule bq_inv_queues [OF assms(1) f(2) sub])
    ultimately have "bq_out t c k (p\<lparr>bq_queues := qs\<rparr>)" using f(3) nu by (simp add: bq_out_def)
    then show ?thesis using eq nu f(3) by auto
  qed
qed

lemma bq_put_spec:
  assumes "bq_out t c k p" "qui_UnitKey u = k" "unit_good t (qui_ScheduleUnit u)"
  shows "\<exists>qs. bq_put c p n u = Some (p\<lparr>bq_queues := qs\<rparr>, Inr ()) \<and> bq_inv t c (p\<lparr>bq_queues := qs\<rparr>) \<and>
     (\<forall>m j. contents qs m j = (if m = n \<and> j = k then Some u else contents (bq_queues p) m j))"
proof -
  obtain qs where q: "q_Add (bq_less c) (bq_queues p) n u = Some (qs, Inr ())" "family_inv t (bq_less c) qs"
    "\<forall>m j. contents qs m j = (if m = n \<and> j = k then Some u else contents (bq_queues p) m j)"
    using q_Add_new_spec [of t "bq_less c" "bq_queues p" u n] assms
    by (auto simp: bq_out_def bq_inv_def)
  have "in_queues qs j \<longleftrightarrow> j = k \<or> in_queues (bq_queues p) j" for j
    unfolding in_queues_iff using q(3) by (metis option.distinct(1))
  then have "bq_inv t c (p\<lparr>bq_queues := qs\<rparr>)"
    using assms(1) q(2) unfolding bq_inv_def bq_out_def by auto
  then show ?thesis using q by (auto simp: bq_put_def)
qed

text \<open>The first half of an operation gives a unit that can be stored, or an error for a pod of a group
  that is not queued.\<close>

definition bq_half_ok :: "ScheduleUnitType set \<Rightarrow> queue_conf \<Rightarrow> pod \<Rightarrow> BlockQueue \<Rightarrow> BlockQueue \<Rightarrow> unit_error + QueuedUnitInfo \<Rightarrow> bool" where
  "bq_half_ok t c q p p1 r \<longleftrightarrow>
     (case r of
        Inl _ \<Rightarrow> p1 = p \<and> GetPodGroupName q \<noteq> [] \<and> \<not> in_queues (bq_queues p) (GetUnitIdentifier q)
      | Inr u \<Rightarrow>
          bq_out t c (GetUnitIdentifier q) p1 \<and> qui_UnitKey u = GetUnitIdentifier q \<and>
          unit_good t (qui_ScheduleUnit u))"

lemma bq_create_half:
  assumes "bq_inv t c p" "env_ok e" "\<not> in_queues (bq_queues p) (GetUnitIdentifier q)" "pod_kind q \<in> t"
  shows "\<exists>w r. bq_createUnitInfo e (bq_waitingPodsList p) q = Some (w, r) \<and>
               bq_half_ok t c q p (p\<lparr>bq_waitingPodsList := w\<rparr>) r"
proof -
  let ?w = "bq_waitingPodsList p" and ?k = "GetUnitIdentifier q"
  obtain w r where w: "createUnitInfo e ?w q = Some (w, r)" "wpl_ok w" "created_ok t ?w w q r"
    using createUnitInfo_spec [of ?w e q t] assms by (auto simp: bq_inv_def)
  show ?thesis
  proof (cases r)
    case (Inl err)
    then show ?thesis using w assms(3) by (auto simp: bq_half_ok_def created_ok_def bq_createUnitInfo_def)
  next
    case (Inr u)
    have g: "Heap_GetByKey w = (Heap_GetByKey ?w)(?k := None)" using w(3) Inr by (simp add: created_ok_def)
    have "bq_inv t c (p\<lparr>bq_waitingPodsList := w\<rparr>)"
      using assms(1) w(2) g unfolding bq_inv_def by auto
    then have "bq_out t c ?k (p\<lparr>bq_waitingPodsList := w\<rparr>)" using assms(3) g by (simp add: bq_out_def)
    then show ?thesis using w Inr by (auto simp: bq_half_ok_def created_ok_def bq_createUnitInfo_def)
  qed
qed

lemma bq_addPodToUnitInfo_spec:
  assumes "bq_inv t c p" "env_ok e" "pod_kind q \<in> t"
  shows "\<exists>p1 n r. bq_addPodToUnitInfo c e p q = Some (p1, n, r) \<and> bq_half_ok t c q p p1 r"
proof -
  let ?k = "GetUnitIdentifier q" and ?i = "newQueuedPodInfo (ev_now e) q"
  have i: "qpi_Pod ?i = Some q" by (simp add: newQueuedPodInfo_def)
  from bq_find_spec [OF assms(1), of ?k] show ?thesis
  proof (elim disjE exE conjE)
    assume f: "bq_findAndRemoveUnitFromQueue c p ?k = Some (p, None)" "\<not> in_queues (bq_queues p) ?k"
    then show ?thesis using bq_create_half [OF assms(1,2) f(2) assms(3)] by (auto simp: bq_addPodToUnitInfo_def)
  next
    fix qs n u
    assume f: "bq_findAndRemoveUnitFromQueue c p ?k = Some (p\<lparr>bq_queues := qs\<rparr>, Some (n, u))"
      "qui_UnitKey u = ?k" "unit_good t (qui_ScheduleUnit u)" "bq_out t c ?k (p\<lparr>bq_queues := qs\<rparr>)"
    obtain su where a: "unit_AddPod (qui_ScheduleUnit u) ?i = (su, Inr ())"
      using unit_AddPod_result [OF i, of "qui_ScheduleUnit u"]
      by (cases "unit_AddPod (qui_ScheduleUnit u) ?i") auto
    then have su: "fst (unit_AddPod (qui_ScheduleUnit u) ?i) = su" by simp
    have "unit_good t su"
      using unit_good_cases [OF f(3)] unit_good_AddPod [OF _ _ i, of "qui_ScheduleUnit u"] su by blast
    then show ?thesis using f a by (simp add: bq_addPodToUnitInfo_def bq_half_ok_def)
  qed
qed

lemma bq_updatePodInUnitInfo_spec:
  assumes "bq_inv t c p" "env_ok e" "pod_kind newPod \<in> t"
  shows "\<exists>p1 n r. bq_updatePodInUnitInfo c e p oldPod newPod = Some (p1, n, r) \<and> bq_half_ok t c newPod p p1 r"
proof -
  let ?k = "GetUnitIdentifier newPod"
  from bq_find_spec [OF assms(1), of ?k] show ?thesis
  proof (elim disjE exE conjE)
    assume f: "bq_findAndRemoveUnitFromQueue c p ?k = Some (p, None)" "\<not> in_queues (bq_queues p) ?k"
    then show ?thesis using bq_create_half [OF assms(1,2) f(2) assms(3)] by (auto simp: bq_updatePodInUnitInfo_def)
  next
    fix qs n u
    assume f: "bq_findAndRemoveUnitFromQueue c p ?k = Some (p\<lparr>bq_queues := qs\<rparr>, Some (n, u))"
      "qui_UnitKey u = ?k" "unit_good t (qui_ScheduleUnit u)" "bq_out t c ?k (p\<lparr>bq_queues := qs\<rparr>)"
    let ?su = "qui_ScheduleUnit u"
    note ok = unit_good_cases [OF f(3)]
    have get: "unit_GetPod ?su (newQueuedPodInfoForLookup oldPod) = Some (unit_find ?su (pod_UID oldPod))"
      using ok by (intro unit_GetPod_find) (auto simp: newQueuedPodInfoForLookup_def)
    have "unit_good t (fst (unit_AddPod ?su (newQueuedPodInfo (ev_now e) newPod)))"
      using ok by (intro unit_good_AddPod [where p = newPod]) (auto simp: newQueuedPodInfo_def)
    moreover have "unit_good t (fst (unit_AddPod (fst (unit_DeletePod ?su i)) (updatePodInfo i newPod)))" for i
      using ok uh.del_ok [of ?su i] unit_complete_DeletePod [of ?su i]
      by (intro unit_good_AddPod [where p = newPod]) (auto simp: updatePodInfo_def)
    ultimately show ?thesis
      using f get by (simp add: bq_updatePodInUnitInfo_def bq_half_ok_def Let_def split: option.split)
  qed
qed

lemma bq_Add_spec:
  assumes "bq_inv t c p0" "env_ok e" "pod_kind q \<in> t"
  shows "\<exists>p'. bq_Add c e p0 q = Some (p', Inr ()) \<and> bq_inv t c p'"
proof -
  define p where "p = p0\<lparr>bq_latestOperationTimestamp := ev_now e\<rparr>"
  have inv: "bq_inv t c p" using assms(1) by (simp add: p_def)
  obtain p1 n r where a: "bq_addPodToUnitInfo c e p q = Some (p1, n, r)" "bq_half_ok t c q p p1 r"
    using bq_addPodToUnitInfo_spec [OF inv assms(2,3)] by blast
  show ?thesis
  proof (cases r)
    case (Inl err)
    have p1: "p1 = p" "GetPodGroupName q \<noteq> []" "\<not> in_queues (bq_queues p) (GetUnitIdentifier q)"
      using a(2) Inl by (auto simp: bq_half_ok_def)
    have "wpl_ok (bq_waitingPodsList p)" using inv by (simp add: bq_inv_def)
    from waitingPodsList_Add_spec [OF this p1(2), of "ev_now e"] obtain w wp where
      w: "waitingPodsList_Add (ev_now e) (bq_waitingPodsList p) q = Some (w, Inr ())" "wpl_ok w"
        "Heap_GetByKey w = (Heap_GetByKey (bq_waitingPodsList p))(GetUnitIdentifier q \<mapsto> wp)"
      by auto
    have "bq_inv t c (p\<lparr>bq_waitingPodsList := w\<rparr>)" 
      using inv w(2,3) p1(2,3) assms(3) unfolding bq_inv_def by (auto simp: pod_kind_def)
    then show ?thesis using a(1) Inl w(1) p1(1) by (simp add: bq_Add_def p_def)
  next
    case (Inr u)
    then have "bq_out t c (GetUnitIdentifier q) p1" "qui_UnitKey u = GetUnitIdentifier q" "unit_good t (qui_ScheduleUnit u)"
      using a(2) by (auto simp: bq_half_ok_def)
    from bq_put_spec [OF this, of "if bq_readyToBeScheduled e u then BReadyQ else BWaitingQ"]
    show ?thesis using a(1) Inr by (auto simp: bq_Add_def p_def)
  qed
qed

lemma bq_Update_spec:
  assumes "bq_inv t c p0" "env_ok e" "pod_kind newPod \<in> t"
  shows "\<exists>p'. bq_Update c e p0 oldPod newPod = Some (p', Inr ()) \<and> bq_inv t c p'"
proof -
  define p where "p = p0\<lparr>bq_latestOperationTimestamp := ev_now e\<rparr>"
  have inv: "bq_inv t c p" using assms(1) by (simp add: p_def)
  let ?k = "GetUnitIdentifier newPod"
  obtain p1 n r where a: "bq_updatePodInUnitInfo c e p oldPod newPod = Some (p1, n, r)" "bq_half_ok t c newPod p p1 r"
    using bq_updatePodInUnitInfo_spec [OF inv assms(2,3)] by blast
  show ?thesis
  proof (cases r)
    case (Inl err)
    have p1: "p1 = p" "GetPodGroupName newPod \<noteq> []" "\<not> in_queues (bq_queues p) ?k"
      using a(2) Inl by (auto simp: bq_half_ok_def)
    have "wpl_ok (bq_waitingPodsList p)" using inv by (simp add: bq_inv_def)
    from waitingPodsList_Update_spec [OF this p1(2), of "ev_now e" oldPod] obtain w wp where
      w: "waitingPodsList_Update (ev_now e) (bq_waitingPodsList p) oldPod newPod = Some (w, Inr ())" "wpl_ok w"
        "Heap_GetByKey w = (Heap_GetByKey (bq_waitingPodsList p))(?k \<mapsto> wp)"
      by auto
    have "bq_inv t c (p\<lparr>bq_waitingPodsList := w\<rparr>)" 
      using inv w(2,3) p1(2,3) assms(3) unfolding bq_inv_def by (auto simp: pod_kind_def)
    then show ?thesis using a(1) Inl w(1) p1(1) by (simp add: bq_Update_def p_def)
  next
    case (Inr u)
    then have "bq_out t c ?k p1" "qui_UnitKey u = ?k" "unit_good t (qui_ScheduleUnit u)"
      using a(2) by (auto simp: bq_half_ok_def)
    from bq_put_spec [OF this, of "if bq_readyToBeScheduled e u then BReadyQ else BWaitingQ"]
    show ?thesis using a(1) Inr by (auto simp: bq_Update_def p_def)
  qed
qed

lemma bq_Delete_spec:
  assumes "bq_inv t c p0"
  shows "\<exists>p' r. bq_Delete c e p0 q = Some (p', r) \<and> bq_inv t c p'"
proof -
  define p where "p = p0\<lparr>bq_latestOperationTimestamp := ev_now e\<rparr>"
  have inv: "bq_inv t c p" using assms(1) by (simp add: p_def)
  let ?k = "GetUnitIdentifier q" and ?w = "bq_waitingPodsList p"
  have "wpl_ok ?w" using inv by (simp add: bq_inv_def)
  from waitingPodsList_Delete_spec [OF this, of q] obtain w where
    w: "waitingPodsList_Delete ?w q = Some (w, Inr ())" "wpl_ok w"
      "dom (Heap_GetByKey w) \<subseteq> dom (Heap_GetByKey ?w)"
    by blast
  from bq_find_spec [OF inv, of ?k] show ?thesis
  proof (elim disjE exE conjE)
    assume f: "bq_findAndRemoveUnitFromQueue c p ?k = Some (p, None)"
    have "bq_inv t c (p\<lparr>bq_waitingPodsList := w\<rparr>)"
      using inv w(2) subsetD [OF w(3)] unfolding bq_inv_def by simp blast
    then show ?thesis using f w(1)
      by (simp add: bq_Delete_def bq_deletePodFromUnitInfo_def p_def [symmetric])
  next
    fix qs n u
    assume f: "bq_findAndRemoveUnitFromQueue c p ?k = Some (p\<lparr>bq_queues := qs\<rparr>, Some (n, u))"
      "qui_UnitKey u = ?k" "unit_good t (qui_ScheduleUnit u)" "bq_out t c ?k (p\<lparr>bq_queues := qs\<rparr>)"
    let ?l = "newQueuedPodInfoForLookup q"
    define v where "v = u\<lparr>qui_ScheduleUnit := fst (unit_DeletePod (qui_ScheduleUnit u) ?l)\<rparr>"
    define p2 where "p2 = p\<lparr>bq_queues := qs, bq_waitingPodsList := w\<rparr>"
    have "Heap_GetByKey w ?k = None" using f(4) subsetD [OF w(3), of ?k] by (auto simp: bq_out_def)
    then have out: "bq_out t c ?k p2"
      using f(4) w(2) subsetD [OF w(3)] unfolding bq_out_def bq_inv_def p2_def by simp blast
    have eq: "bq_Delete c e p0 q =
        (if unit_NumPods (qui_ScheduleUnit v) = 0 then Some (p2, Inr ())
         else bq_put c p2 (if n \<noteq> BWaitingQ \<and> \<not> bq_readyToBeScheduled e v then BWaitingQ else n) v)"
      using f(1) w(1)
      by (simp add: bq_Delete_def bq_deletePodFromUnitInfo_def p_def [symmetric] v_def p2_def)
    show ?thesis
    proof (cases "unit_NumPods (qui_ScheduleUnit v) = 0")
      case True
      then show ?thesis using eq out by (simp add: bq_out_def)
    next
      case False
      have "unit_good t (qui_ScheduleUnit v)"
        using unit_good_DeletePod [OF f(3), of ?l] False by (simp add: v_def)
      moreover have "qui_UnitKey v = ?k" using f(2) by (simp add: v_def)
      ultimately show ?thesis
        using bq_put_spec [OF out, of v
            "if n \<noteq> BWaitingQ \<and> \<not> bq_readyToBeScheduled e v then BWaitingQ else n"] eq False by auto
    qed
  qed
qed

lemma bq_AddUnschedulable_spec:
  assumes "bq_inv t c p0" "unit_good t (qui_ScheduleUnit u0)"
    "qui_UnitKey u0 \<notin> dom (Heap_GetByKey (bq_waitingPodsList p0))"
  shows "\<exists>p'. bq_AddUnschedulableIfNotPresent c e p0 (Some u0) = Some (p', Inr ()) \<and> bq_inv t c p'"
proof -
  define p where "p = p0\<lparr>bq_latestOperationTimestamp := ev_now e\<rparr>"
  have inv: "bq_inv t c p" using assms(1) by (simp add: p_def)
  let ?k = "qui_UnitKey u0"
  obtain p1 r where f: "bq_findAndRemoveUnitFromQueue c p ?k = Some (p1, r)" "bq_out t c ?k p1"
    using bq_find_spec [OF inv, of ?k] assms(3) inv
    by (elim disjE exE conjE) (auto simp: bq_out_def p_def domIff)
  define u where "u = u0\<lparr>qui_ScheduleUnit := (case r of
        Some (_, u') \<Rightarrow> fst (unit_AddPodsIfNotPresent (qui_ScheduleUnit u0) (unit_GetPods (ev_ord e) (qui_ScheduleUnit u')))
      | None \<Rightarrow> qui_ScheduleUnit u0), qui_Timestamp := ev_now e\<rparr>"
  have good: "unit_good t (qui_ScheduleUnit u)"
    using assms(2) unit_good_AddPods [OF assms(2)] by (auto simp: u_def split: option.split)
  have k: "qui_UnitKey u = ?k" by (simp add: u_def)
  have num: "unit_NumPods (qui_ScheduleUnit u0) \<noteq> 0" using assms(2) by (simp add: unit_good_def)
  have "bq_AddUnschedulableIfNotPresent c e p0 (Some u0) = bq_put c p1 BReadyQ u"
    unfolding bq_AddUnschedulableIfNotPresent_def Let_def p_def [symmetric] option.case f(1)
    using num by (simp add: u_def)
  then show ?thesis using bq_put_spec [OF f(2) k good, of BReadyQ] by auto
qed

lemma bq_activate_spec:
  assumes "bq_inv t c p" "\<not> in_queues (bq_queues p) (qui_UnitKey u)" "unit_good t (qui_ScheduleUnit u)"
  shows "\<exists>w r qs. Heap_DeleteByKey alwaysFalse (bq_waitingPodsList p) (qui_UnitKey u) = Some (w, r) \<and>
     bq_put c p n u = Some (p\<lparr>bq_queues := qs\<rparr>, Inr ()) \<and>
     bq_put c (p\<lparr>bq_waitingPodsList := w\<rparr>) n u = Some (p\<lparr>bq_queues := qs, bq_waitingPodsList := w\<rparr>, Inr ()) \<and>
     bq_inv t c (p\<lparr>bq_queues := qs, bq_waitingPodsList := w\<rparr>) \<and>
     (\<forall>m j. contents qs m j = (if m = n \<and> j = qui_UnitKey u then Some u else contents (bq_queues p) m j))"
proof -
  let ?k = "qui_UnitKey u" and ?w = "bq_waitingPodsList p"
  define w where "w = heap_del alwaysFalse ?w ?k"
  have fam: "family_inv t (bq_less c) (bq_queues p)" using assms(1) by (simp add: bq_inv_def)
  have wpl: "wpl_ok ?w" "data_wf ?w" using assms(1) by (auto simp: bq_inv_def wpl_ok_def)
  have w: "\<exists>r. Heap_DeleteByKey alwaysFalse ?w ?k = Some (w, r)" "wpl_ok w"
    "Heap_GetByKey w = (Heap_GetByKey ?w)(?k := None)"
    using wpl wpl_ok_delete [OF wpl(1), of ?k] by (auto simp: w_def)
  obtain qs where q: "q_Add (bq_less c) (bq_queues p) n u = Some (qs, Inr ())" "family_inv t (bq_less c) qs"
    "\<forall>m j. contents qs m j = (if m = n \<and> j = ?k then Some u else contents (bq_queues p) m j)"
    using q_Add_new_spec [OF fam assms(3,2), of n] by blast
  have "in_queues qs j \<longleftrightarrow> j = ?k \<or> in_queues (bq_queues p) j" for j
    unfolding in_queues_iff using q(3) by (metis option.distinct(1))
  then have "bq_inv t c (p\<lparr>bq_queues := qs, bq_waitingPodsList := w\<rparr>)"
    using assms(1) w(2,3) q(2) unfolding bq_inv_def by auto
  moreover have "bq_put c p n u = Some (p\<lparr>bq_queues := qs\<rparr>, Inr ())"
    "bq_put c (p\<lparr>bq_waitingPodsList := w\<rparr>) n u = Some (p\<lparr>bq_queues := qs, bq_waitingPodsList := w\<rparr>, Inr ())"
    using q(1) by (simp_all add: bq_put_def)
  ultimately show ?thesis using w(1) q(3) by blast
qed

lemma bq_ActivePodGroupUnit_spec:
  assumes "bq_inv t c p" "env_ok e"
  shows "\<exists>p'. bq_ActivePodGroupUnit c e p k = Some p' \<and> bq_inv t c p'"
proof (cases "Heap_GetByKey (bq_waitingPodsList p) k")
  case None
  then show ?thesis using assms(1) by (simp add: bq_ActivePodGroupUnit_def)
next
  case (Some wp)
  then have wp: "wp_ok wp" "wp_unitKey wp = k" "\<not> in_queues (bq_queues p) k" "PodGroupUnitType \<in> t"
    using assms(1) by (auto simp: bq_inv_def wpl_ok_def)
  obtain r where r: "transferToPodGroupUnit (ev_pcLister e) (ev_pgLister e) (ev_now e) (ev_ord e) wp = Some r"
    "\<forall>u. r = Some u \<longrightarrow> qui_UnitKey u = k \<and> unit_good t (qui_ScheduleUnit u)"
    using transfer_spec [OF wp(1) _ _ wp(4)] assms(2) wp(2) unfolding env_ok_def by metis
  show ?thesis
  proof (cases r)
    case None
    then show ?thesis using Some r(1) assms(1) by (simp add: bq_ActivePodGroupUnit_def)
  next
    case u: (Some u)
    then have "qui_UnitKey u = k" "unit_good t (qui_ScheduleUnit u)" using r(2) by auto
    with bq_activate_spec [OF assms(1), of u "if bq_readyToBeScheduled e u then BReadyQ else BWaitingQ"] wp(3)
    show ?thesis using Some r(1) u by (auto simp: bq_ActivePodGroupUnit_def)
  qed
qed

lemma bq_flush_waiting_loop_spec:
  assumes "bq_inv t c p" "\<forall>u\<in>set us. unit_good t (qui_ScheduleUnit u)"
    "\<forall>u\<in>set us. \<not> in_queues (bq_queues p) (qui_UnitKey u)" "distinct (map qui_UnitKey us)"
  shows "\<exists>p'. bq_flush_waiting_loop c e p us = Some p' \<and> bq_inv t c p'"
  using assms
proof (induction us arbitrary: p)
  case (Cons u us)
  let ?n = "if bq_readyToBeScheduled e u then BReadyQ else BWaitingQ"
  obtain w r qs where a: "Heap_DeleteByKey alwaysFalse (bq_waitingPodsList p) (qui_UnitKey u) = Some (w, r)"
    "bq_put c (p\<lparr>bq_waitingPodsList := w\<rparr>) ?n u = Some (p\<lparr>bq_queues := qs, bq_waitingPodsList := w\<rparr>, Inr ())"
    "bq_inv t c (p\<lparr>bq_queues := qs, bq_waitingPodsList := w\<rparr>)"
    "\<forall>m j. contents qs m j = (if m = ?n \<and> j = qui_UnitKey u then Some u else contents (bq_queues p) m j)"
    using bq_activate_spec [OF Cons.prems(1), of u ?n] Cons.prems(2,3) by auto
  have "\<not> in_queues qs (qui_UnitKey v)" if "v \<in> set us" for v
  proof -
    have "qui_UnitKey v \<noteq> qui_UnitKey u" using Cons.prems(4) that by (auto simp: image_iff)
    then show ?thesis using a(4) Cons.prems(3) that by (simp add: in_queues_iff)
  qed
  then have "\<exists>p'. bq_flush_waiting_loop c e (p\<lparr>bq_queues := qs, bq_waitingPodsList := w\<rparr>) us = Some p' \<and> bq_inv t c p'"
    using Cons.prems by (intro Cons.IH a(3)) auto
  then show ?case using a(1,2) by simp
qed simp

lemma bq_flushWaitingPodsList_spec:
  assumes "bq_inv t c p" "env_ok e"
  shows "\<exists>p'. bq_flushWaitingPodsList c e p = Some p' \<and> bq_inv t c p'"
proof -
  let ?w = "bq_waitingPodsList p"
  have w: "wpl_ok ?w" and grp: "\<forall>k. k \<in> dom (Heap_GetByKey ?w) \<longrightarrow> PodGroupUnitType \<in> t"
    using assms(1) unfolding bq_inv_def by blast+
  obtain us where us: "transfer_all e (heap_objects ?w) = Some us" "\<forall>u\<in>set us. unit_good t (qui_ScheduleUnit u)"
    "qui_UnitKey ` set us \<subseteq> dom (Heap_GetByKey ?w)" "distinct (map qui_UnitKey us)"
    using transfer_waiting [OF w assms(2) grp] by blast
  have "\<not> in_queues (bq_queues p) (qui_UnitKey u)" if "u \<in> set us" for u
    using subsetD [OF us(3) imageI [OF that]] assms(1) by (simp add: bq_inv_def)
  then have "\<forall>u\<in>set us. \<not> in_queues (bq_queues p) (qui_UnitKey u)" by simp
  then show ?thesis
    using bq_flush_waiting_loop_spec [OF assms(1) us(2) _ us(4), of e] us(1)
    by (auto simp: bq_flushWaitingPodsList_def)
qed

lemma bq_flushScheduled_spec:
  assumes "bq_inv t c p"
  shows "\<exists>p'. bq_flushScheduledUnitsInWaitingQ c e p = Some p' \<and> bq_inv t c p'"
proof -
  let ?us = "filter (bq_readyToBeScheduled e) (heap_objects (bq_queues p BWaitingQ))"
  have fam: "family_inv t (bq_less c) (bq_queues p)" using assms(1) by (simp add: bq_inv_def)
  have "\<exists>qs'. bq_flush_scheduled_loop c (bq_queues p) ?us = Some qs' \<and> family_inv t (bq_less c) qs' \<and>
     (\<forall>m j. contents qs' m j = relocate BWaitingQ (\<lambda>u. u \<in> set ?us) (\<lambda>_. BReadyQ) (bq_queues p) m j)"
  proof (rule relocate_loop [where lessf = "bq_less c" and loop = "bq_flush_scheduled_loop c",
        OF _ _ _ fam objects_members [OF fam]])
    fix qs u us assume "family_inv t (bq_less c) qs" "contents qs BWaitingQ (qui_UnitKey u) = Some u"
    from q_move_spec' [OF this(1) this(2), of BReadyQ]
    show "\<exists>qs'. bq_flush_scheduled_loop c qs (u # us) = bq_flush_scheduled_loop c qs' us \<and>
        family_inv t (bq_less c) qs' \<and>
        (\<forall>m j. contents qs' m j =
           (if j = qui_UnitKey u then if m = BReadyQ then Some u else None else contents qs m j))"
      by (auto split: prod.splits)
  qed simp_all
  then obtain qs where q: "bq_flush_scheduled_loop c (bq_queues p) ?us = Some qs" "family_inv t (bq_less c) qs"
    "\<And>m j. contents qs m j = relocate BWaitingQ (\<lambda>u. u \<in> set ?us) (\<lambda>_. BReadyQ) (bq_queues p) m j"
    by blast
  have "bq_inv t c (p\<lparr>bq_queues := qs\<rparr>)"
    by (rule bq_inv_queues [OF assms(1) q(2)]) (simp add: relocate_in_queues [OF q(3)])
  then show ?thesis using q(1) by (simp add: bq_flushScheduledUnitsInWaitingQ_def)
qed

lemma bq_Pop_spec:
  assumes inv: "bq_inv t c p"
  shows "(Heap_Len (bq_queues p BReadyQ) = 0 \<and>
       bq_Pop c e p = Some (p, if bq_closed p then QueueClosed else Blocked)) \<or>
    (\<exists>p' u0. contents (bq_queues p) BReadyQ (qui_UnitKey u0) = Some u0 \<and>
       Heap_Peek (bq_queues p BReadyQ) = Some (Some u0) \<and>
       (t = {kd} \<and> shipped_less (cf_lessFn c) \<or> strict_weak_on (good_units t) (cf_lessFn c) \<longrightarrow>
          (\<forall>v\<in>ran (contents (bq_queues p) BReadyQ). \<not> cf_lessFn c v u0)) \<and>
       (if isUnitBackoff (cf_boHandler c) (ev_now e) u0
        then bq_Pop c e p = Some (p, if bq_closed p then QueueClosed else Blocked)
        else bq_Pop c e p = Some (p', Popped (u0\<lparr>qui_Attempts := qui_Attempts u0 + 1\<rparr>)) \<and> bq_inv t c p' \<and>
             \<not> in_queues (bq_queues p') (qui_UnitKey u0) \<and>
             (\<forall>n k. k \<noteq> qui_UnitKey u0 \<longrightarrow> contents (bq_queues p') n k = contents (bq_queues p) n k) \<and>
             bq_schedulingCycle p' = bq_schedulingCycle p + 1))"
proof (cases "Heap_Len (bq_queues p BReadyQ) = 0")
  case True
  then show ?thesis by (simp add: bq_Pop_def bq_must_wait_def)
next
  case False
  have fam: "family_inv t (bq_less c) (bq_queues p)" using inv(1) by (simp add: bq_inv_def)
  obtain h u0 where h: "Heap_Pop (cf_lessFn c) (bq_queues p BReadyQ) = Some (h, Inr u0)"
    "Heap_Peek (bq_queues p BReadyQ) = Some (Some u0)"
    "contents (bq_queues p) BReadyQ (qui_UnitKey u0) = Some u0"
    "family_inv t (bq_less c) ((bq_queues p)(BReadyQ := h))"
    "\<not> in_queues ((bq_queues p)(BReadyQ := h)) (qui_UnitKey u0)"
    "\<forall>m j. contents ((bq_queues p)(BReadyQ := h)) m j =
       (if m = BReadyQ \<and> j = qui_UnitKey u0 then None else contents (bq_queues p) m j)"
    "strict_weak_on (good_units t) (cf_lessFn c) \<longrightarrow>
       (\<forall>v\<in>ran (contents (bq_queues p) BReadyQ). \<not> cf_lessFn c v u0)"
    using q_pop_spec [OF fam False] by auto
  let ?qs = "(bq_queues p)(BReadyQ := h)"
  let ?p' = "p\<lparr>bq_queues := ?qs, bq_schedulingCycle := bq_schedulingCycle p + 1\<rparr>"
  have sub: "in_queues (bq_queues p) j" if "in_queues ?qs j" for j
    using that h(6) unfolding in_queues_iff by (metis option.distinct(1))
  have "bq_inv t c (p\<lparr>bq_queues := ?qs\<rparr>)" by (rule bq_inv_queues [OF inv(1) h(4) sub])
  then have inv': "bq_inv t c ?p'" by (simp add: bq_inv_def)
  have w: "bq_must_wait c e p = Some (isUnitBackoff (cf_boHandler c) (ev_now e) u0)"
    using False h(2) by (simp add: bq_must_wait_def)
  have min: "(t = {kd} \<and> shipped_less (cf_lessFn c) \<or> strict_weak_on (good_units t) (cf_lessFn c) \<longrightarrow>
          (\<forall>v\<in>ran (contents (bq_queues p) BReadyQ). \<not> cf_lessFn c v u0))"
    using h(7) shipped_less_order by blast
  show ?thesis
    using h(2,3,5,6) min inv'
    by (intro disjI2 exI [of _ ?p'] exI [of _ u0]) (auto simp: bq_Pop_def w h(1))
qed

subsection \<open>Runs of the queue\<close>

text \<open>The other methods of the interface, \<^verbatim>\<open>AssignedPodAdded\<close>, \<^verbatim>\<open>AssignedPodUpdated\<close> and
  \<^verbatim>\<open>MoveAllToActiveOrBackoffQueue\<close>, have empty bodies.\<close>

datatype bq_op =
  BAdd pod | BAddUnschedulable "QueuedUnitInfo option" | BUpdate pod pod | BDelete pod |
  BActivePodGroupUnit key | BPop | BFlushScheduled | BFlushWaitingPods | BClose

fun bq_exec :: "queue_conf \<Rightarrow> queue_env \<Rightarrow> bq_op \<Rightarrow> BlockQueue \<Rightarrow> BlockQueue option" where
  "bq_exec c e (BAdd q) p = map_option fst (bq_Add c e p q)"
| "bq_exec c e (BAddUnschedulable u) p = map_option fst (bq_AddUnschedulableIfNotPresent c e p u)"
| "bq_exec c e (BUpdate q q') p = map_option fst (bq_Update c e p q q')"
| "bq_exec c e (BDelete q) p = map_option fst (bq_Delete c e p q)"
| "bq_exec c e (BActivePodGroupUnit k) p = bq_ActivePodGroupUnit c e p k"
| "bq_exec c e BPop p = map_option fst (bq_Pop c e p)"
| "bq_exec c e BFlushScheduled p = bq_flushScheduledUnitsInWaitingQ c e p"
| "bq_exec c e BFlushWaitingPods p = bq_flushWaitingPodsList c e p"
| "bq_exec c e BClose p = bq_Close p"

text \<open>The operations a run may take, as for \<^verbatim>\<open>PriorityQueue\<close>: pods and units of the kinds \<open>t\<close>; units
  handed back with pods, complete, and of a key that does not wait for its pod group; one \<^verbatim>\<open>Close\<close>.\<close>

fun bq_op_ok :: "ScheduleUnitType set \<Rightarrow> bq_op \<Rightarrow> BlockQueue \<Rightarrow> bool" where
  "bq_op_ok t (BAdd q) p \<longleftrightarrow> pod_kind q \<in> t"
| "bq_op_ok t (BUpdate q q') p \<longleftrightarrow> pod_kind q' \<in> t"
| "bq_op_ok t (BAddUnschedulable (Some u)) p \<longleftrightarrow>
     unit_NumPods (qui_ScheduleUnit u) = 0 \<or>
     unit_good t (qui_ScheduleUnit u) \<and> qui_UnitKey u \<notin> dom (Heap_GetByKey (bq_waitingPodsList p))"
| "bq_op_ok t BClose p \<longleftrightarrow> \<not> bq_closed p"
| "bq_op_ok t _ p \<longleftrightarrow> True"

inductive bq_reachable :: "ScheduleUnitType set \<Rightarrow> queue_conf \<Rightarrow> BlockQueue \<Rightarrow> bool" for t c where
  bq_start: "bq_reachable t c (NewBlockQueue now)"
| bq_step: "bq_reachable t c p \<Longrightarrow> env_ok e \<Longrightarrow> bq_op_ok t opn p \<Longrightarrow> bq_exec c e opn p = Some p' \<Longrightarrow>
            bq_reachable t c p'"

lemma bq_AddUnschedulable_empty:
  assumes "case uo of None \<Rightarrow> True | Some u \<Rightarrow> unit_NumPods (qui_ScheduleUnit u) = 0" "bq_inv t c p"
  shows "\<exists>p'. bq_AddUnschedulableIfNotPresent c e p uo = Some (p', Inr ()) \<and> bq_inv t c p'"
  using assms by (auto simp: bq_AddUnschedulableIfNotPresent_def Let_def bq_inv_def split: option.splits)

lemma bq_exec_inv:
  assumes "bq_inv t c p" "env_ok e" "bq_op_ok t opn p"
  shows "\<exists>p'. bq_exec c e opn p = Some p' \<and> bq_inv t c p'"
proof (cases opn)
  case (BAdd q)
  then show ?thesis using bq_Add_spec [OF assms(1,2), of q] assms(3) by auto
next
  case (BAddUnschedulable uo)
  show ?thesis
  proof (cases "case uo of None \<Rightarrow> True | Some u \<Rightarrow> unit_NumPods (qui_ScheduleUnit u) = 0")
    case True
    then show ?thesis using BAddUnschedulable bq_AddUnschedulable_empty [OF True assms(1), of e] by auto
  next
    case False
    then obtain u where "uo = Some u" "unit_NumPods (qui_ScheduleUnit u) \<noteq> 0" by (auto split: option.splits)
    then show ?thesis
      using BAddUnschedulable assms(3) bq_AddUnschedulable_spec [OF assms(1), of u e] by auto
  qed
next
  case (BUpdate q q')
  then show ?thesis using bq_Update_spec [OF assms(1,2), of q' q] assms(3) by auto
next
  case (BDelete q)
  then show ?thesis using bq_Delete_spec [OF assms(1), of e q] by auto
next
  case (BActivePodGroupUnit k)
  then show ?thesis using bq_ActivePodGroupUnit_spec [OF assms(1,2), of k] by simp
next
  case BPop
  then show ?thesis
    using bq_Pop_spec [OF assms(1), of e SinglePodUnitType] assms(1) by (auto split: if_splits)
next
  case BFlushScheduled
  then show ?thesis using bq_flushScheduled_spec [OF assms(1), of e] by simp
next
  case BFlushWaitingPods
  then show ?thesis using bq_flushWaitingPodsList_spec [OF assms(1,2)] by simp
next
  case BClose
  then show ?thesis using assms(1,3) by (simp add: bq_Close_def bq_inv_def)
qed

lemma bq_reachable_inv: "bq_reachable t c p \<Longrightarrow> bq_inv t c p"
proof (induction rule: bq_reachable.induct)
  case (bq_step p e opn p')
  then show ?case using bq_exec_inv by (metis option.inject)
qed (simp add: bq_inv_New)

subsection \<open>Properties\<close>

text \<open>C24. No operation of the blocking queue panics, whatever the comparison of the ready queue, an order or
  not. Take a state reached by operations that \<open>bq_op_ok\<close> admits: every operation but two kinds without
  a condition; the hand-back of a unit that holds no pod, or that is complete and whose key does not
  wait for its pod group; the first Close. There every admitted operation ends without a panic, a unit
  key is in at most one of the two sub-queues, a key that waits for its pod group is in neither, every
  queued unit is stored under its own key and holds at least one pod, and neither shipped comparison
  panics on two units of the queue.\<close>

theorem bq_operations_safe:
  assumes "bq_reachable UNIV c p" "env_ok e" "bq_op_ok UNIV opn p"
  shows "(\<exists>p'. bq_exec c e opn p = Some p' \<and> bq_reachable UNIV c p') \<and>
    (\<forall>n m k. k \<in> dom (contents (bq_queues p) n) \<longrightarrow> k \<in> dom (contents (bq_queues p) m) \<longrightarrow> n = m) \<and>
    (\<forall>n k. k \<in> dom (Heap_GetByKey (bq_waitingPodsList p)) \<longrightarrow> k \<notin> dom (contents (bq_queues p) n)) \<and>
    (\<forall>n k u. contents (bq_queues p) n k = Some u \<longrightarrow>
       qui_UnitKey u = k \<and> 0 < unit_NumPods (qui_ScheduleUnit u)) \<and>
    (\<forall>n m j k u v. contents (bq_queues p) n j = Some u \<longrightarrow> contents (bq_queues p) m k = Some v \<longrightarrow>
       DefaultUnitQueueSort_Less u v \<noteq> None \<and> FCFS_Less u v \<noteq> None)"
proof -
  have inv: "bq_inv UNIV c p" by (rule bq_reachable_inv [OF assms(1)])
  then have fam: "family_inv UNIV (bq_less c) (bq_queues p)" by (simp add: bq_inv_def)
  have "\<exists>p'. bq_exec c e opn p = Some p' \<and> bq_reachable UNIV c p'"
    using bq_exec_inv [OF inv assms(2,3)] bq_reachable.bq_step [OF assms] by blast
  moreover have "\<forall>n m k. k \<in> dom (contents (bq_queues p) n) \<longrightarrow> k \<in> dom (contents (bq_queues p) m) \<longrightarrow> n = m"
    using family_unique [OF fam] by blast
  moreover have "\<forall>n k. k \<in> dom (Heap_GetByKey (bq_waitingPodsList p)) \<longrightarrow> k \<notin> dom (contents (bq_queues p) n)"
    using inv unfolding bq_inv_def not_in_queues by (metis domIff)
  moreover have "\<forall>n k u. contents (bq_queues p) n k = Some u \<longrightarrow>
      qui_UnitKey u = k \<and> 0 < unit_NumPods (qui_ScheduleUnit u)"
    using family_key [OF fam] family_good [OF fam] by (auto simp: unit_good_def)
  moreover have "\<forall>n m j k u v. contents (bq_queues p) n j = Some u \<longrightarrow> contents (bq_queues p) m k = Some v \<longrightarrow>
       DefaultUnitQueueSort_Less u v \<noteq> None \<and> FCFS_Less u v \<noteq> None"
    using family_good [OF fam] unit_less_total unfolding unit_good_def by blast
  ultimately show ?thesis by blast
qed

theorem bq_operations_safe_witness:
  "\<exists>p'. bq_exec conf_example (env_example True) (BAdd pod_example) (NewBlockQueue 0) = Some p'"
  using bq_operations_safe [OF bq_reachable.bq_start [of _ conf_example 0] env_example_ok [of True], of "BAdd pod_example"]
  by auto

text \<open>C25. Pop of the blocking queue takes the head of the ready queue: if the ready queue is empty, or its
  head is in backoff, Pop changes nothing and waits, or reports that the queue is closed; else it
  returns the head with one more attempt, removes it and nothing else, and advances the scheduling
  cycle. A unit out of backoff behind one in backoff is not returned. No unit precedes the head when
  the queue has one of the shipped comparisons and was given units of one kind only, or when its
  comparison is a strict weak order on the units it was given.\<close>

theorem bq_pop_head:
  assumes "bq_reachable t c p" "env_ok e"
  shows "(Heap_Len (bq_queues p BReadyQ) = 0 \<and>
       bq_Pop c e p = Some (p, if bq_closed p then QueueClosed else Blocked)) \<or>
    (\<exists>p' u0. contents (bq_queues p) BReadyQ (qui_UnitKey u0) = Some u0 \<and>
       Heap_Peek (bq_queues p BReadyQ) = Some (Some u0) \<and>
       (t = {kd} \<and> shipped_less (cf_lessFn c) \<or> strict_weak_on (good_units t) (cf_lessFn c) \<longrightarrow>
          (\<forall>v\<in>ran (contents (bq_queues p) BReadyQ). \<not> cf_lessFn c v u0)) \<and>
       (if isUnitBackoff (cf_boHandler c) (ev_now e) u0
        then bq_Pop c e p = Some (p, if bq_closed p then QueueClosed else Blocked)
        else bq_Pop c e p = Some (p', Popped (u0\<lparr>qui_Attempts := qui_Attempts u0 + 1\<rparr>)) \<and>
             bq_reachable t c p' \<and>
             (\<forall>n. contents (bq_queues p') n (qui_UnitKey u0) = None) \<and>
             (\<forall>n k. k \<noteq> qui_UnitKey u0 \<longrightarrow> contents (bq_queues p') n k = contents (bq_queues p) n k) \<and>
             bq_schedulingCycle p' = bq_schedulingCycle p + 1))"
proof -
  have inv: "bq_inv t c p" by (rule bq_reachable_inv [OF assms(1)])
  have reach: "bq_reachable t c p'" if "bq_Pop c e p = Some (p', r)" for p' r
    using bq_reachable.bq_step [OF assms, of BPop p'] that by simp
  show ?thesis using bq_Pop_spec [OF inv, of e kd] reach unfolding not_in_queues by metis
qed

lemma bq_ready_state:
  "\<exists>p u. bq_reachable {SinglePodUnitType} conf_example p \<and> contents (bq_queues p) BReadyQ (GetUnitIdentifier pod_example) = Some u \<and>
     (\<forall>k. k \<noteq> GetUnitIdentifier pod_example \<longrightarrow> contents (bq_queues p) BReadyQ k = None) \<and>
     \<not> isUnitBackoff (cf_boHandler conf_example) (ev_now (env_example True)) u"
proof -
  let ?e = "env_example True" and ?p = "NewBlockQueue 7" and ?k = "GetUnitIdentifier pod_example"
  obtain u where u: "createUnitInfo ?e New pod_example = Some (New, Inr u)"
    "bq_readyToBeScheduled ?e u" "qui_UnitKey u = ?k" "unit_good {SinglePodUnitType} (qui_ScheduleUnit u)"
    "qui_Timestamp u = 7" "qui_Attempts u = 0"
    using single_unit_example [of "{SinglePodUnitType}"] by (auto simp: bq_readyToBeScheduled_def)
  have f: "bq_findAndRemoveUnitFromQueue conf_example ?p ?k = Some (?p, None)"
    by (simp add: bq_findAndRemoveUnitFromQueue_def NewBlockQueue_def)
  have add: "bq_addPodToUnitInfo conf_example ?e ?p pod_example = Some (?p, None, Inr u)"
    using f u(1) by (simp add: bq_addPodToUnitInfo_def bq_createUnitInfo_def NewBlockQueue_def)
  obtain qs where q: "q_Add (bq_less conf_example) (\<lambda>_. New) BReadyQ u = Some (qs, Inr ())"
    "\<forall>m j. contents qs m j = (if m = BReadyQ \<and> j = ?k then Some u else None)"
    using q_Add_new_spec [OF family_New u(4) not_in_new_queues, of "bq_less conf_example" BReadyQ] u(3)
    by auto
  have "bq_exec conf_example ?e (BAdd pod_example) ?p = Some (?p\<lparr>bq_queues := qs\<rparr>)"
    using add q(1) u(2) by (simp add: bq_Add_def bq_put_def NewBlockQueue_def env_example_def)
  then have "bq_reachable {SinglePodUnitType} conf_example (?p\<lparr>bq_queues := qs\<rparr>)"
    using bq_reachable.bq_step [OF bq_reachable.bq_start env_example_ok, where opn = "BAdd pod_example"]
    by (simp add: pod_kind_def GetPodGroupName_def pod_example_def ann_def)
  moreover have "\<not> isUnitBackoff (cf_boHandler conf_example) (ev_now ?e) u"
    using u(5,6) by (simp add: isUnitBackoff_def getBackoffTime_def calculateBackoffDuration_def
        conf_example_def env_example_def newBackoffHandler_def)
  ultimately show ?thesis using q(2) by (intro exI [of _ "?p\<lparr>bq_queues := qs\<rparr>"] exI [of _ u]) simp
qed

theorem bq_pop_head_witness:
  "\<exists>p p' u. bq_reachable {SinglePodUnitType} conf_example p \<and> bq_Pop conf_example (env_example True) p = Some (p', Popped u)"
proof -
  obtain p u where p: "bq_reachable {SinglePodUnitType} conf_example p"
    "contents (bq_queues p) BReadyQ (GetUnitIdentifier pod_example) = Some u"
    "\<forall>k. k \<noteq> GetUnitIdentifier pod_example \<longrightarrow> contents (bq_queues p) BReadyQ k = None"
    "\<not> isUnitBackoff (cf_boHandler conf_example) (ev_now (env_example True)) u"
    using bq_ready_state by blast
  have "Heap_Len (bq_queues p BReadyQ) \<noteq> 0"
    using p(2) bq_reachable_inv [OF p(1)] family_wf Heap_Len_0 unfolding bq_inv_def
    by (metis option.distinct(1))
  moreover have "u0 = u" if "contents (bq_queues p) BReadyQ (qui_UnitKey u0) = Some u0" for u0
    using that p(2,3) by (metis option.inject option.distinct(1))
  ultimately show ?thesis
    using bq_pop_head [OF p(1) env_example_ok, of True SinglePodUnitType] p(1,4) by (metis (full_types))
qed

end
