(* ===== verification/Generation_Store.thy ===== *)
theory Generation_Store
  imports Godel_Prelude "HOL-Library.Monad_Syntax"
begin

section \<open>Generation stores (pkg/util/generationstore)\<close>

text \<open>
  The scheduler cache keeps its objects in a \<^verbatim>\<open>ListStoreImpl\<close>: a hash map into a doubly linked list, the
  most recently set item first, each object stamped with a growing generation number. A snapshot is
  a \<^verbatim>\<open>RawStoreImpl\<close>, brought up to date by \<^verbatim>\<open>UpdateRawStore\<close>, which walks the list only down to the
  generation the snapshot has seen.

  The linked list is modelled with its pointers: items live at addresses, \<open>next\<close> and \<open>prev\<close> are
  optional addresses, and a read at an address without an item, a dereference that Go would not
  survive, gives \<open>None\<close>. Generations are 64-bit and wrap. Go's map iteration order is a parameter
  \<open>ord\<close>. Objects are stored by value, so an object is in one store under one key, as in the callers,
  which clone objects between stores. The methods' tests for a nil receiver are left out.

  The properties: the list holds exactly the stored items in strictly falling generations, with
  \<open>next\<close> and \<open>prev\<close> inverse to each other; both stores are maps; and \<^verbatim>\<open>UpdateRawStore\<close> makes the
  snapshot equal to the cache in every state the two can reach.
\<close>

subsection \<open>Objects and items\<close>

record 'a StoredObj =
  so_generation :: int
  so_obj :: 'a

definition nextGeneration :: "int \<Rightarrow> int" where
  "nextGeneration g = wrap64 (g + 1)"

type_synonym addr = nat

record 'a ListItem =
  li_key :: key
  li_obj :: "'a StoredObj"
  li_next :: "addr option"
  li_prev :: "addr option"

definition newListItem :: "key \<Rightarrow> 'a StoredObj \<Rightarrow> 'a ListItem" where
  "newListItem k obj = \<lparr>li_key = k, li_obj = obj, li_next = None, li_prev = None\<rparr>"

type_synonym 'a items = "addr \<rightharpoonup> 'a ListItem"

definition item_remove :: "'a items \<Rightarrow> addr \<Rightarrow> 'a items option" where
  "item_remove h a =
     do { item \<leftarrow> h a;
          h1 \<leftarrow> (case li_prev item of
                  None \<Rightarrow> Some h
                | Some p \<Rightarrow> do { pi \<leftarrow> h p; Some (h(p \<mapsto> pi\<lparr>li_next := li_next item\<rparr>)) });
          (case li_next item of
             None \<Rightarrow> Some h1
           | Some n \<Rightarrow> do { ni \<leftarrow> h1 n; Some (h1(n \<mapsto> ni\<lparr>li_prev := li_prev item\<rparr>)) }) }"

subsection \<open>The list store\<close>

record 'a ListStoreImpl =
  ls_store :: "key \<rightharpoonup> addr"
  ls_head :: "addr option"
  ls_generation :: int
  ls_items :: "'a items"
  ls_fresh :: addr

definition NewListStore :: "'a ListStoreImpl" where
  "NewListStore =
     \<lparr>ls_store = Map.empty, ls_head = None, ls_generation = 0, ls_items = Map.empty, ls_fresh = 0\<rparr>"

definition ListStore_Get :: "'a ListStoreImpl \<Rightarrow> key \<Rightarrow> 'a StoredObj option" where
  "ListStore_Get s k = (case ls_store s k of None \<Rightarrow> None | Some a \<Rightarrow> map_option li_obj (ls_items s a))"

definition ListStore_remove :: "'a ListStoreImpl \<Rightarrow> addr \<Rightarrow> 'a ListStoreImpl option" where
  "ListStore_remove s a =
     do { h \<leftarrow> item_remove (ls_items s) a;
          item \<leftarrow> h a;
          Some (s\<lparr>ls_items := h, ls_head := (if ls_head s = Some a then li_next item else ls_head s)\<rparr>) }"

text \<open>The second half of \<^verbatim>\<open>Set\<close>: the item at \<open>a\<close>, in no list, is stamped and made the head.\<close>

definition ListStore_pushFront ::
  "'a ListStoreImpl \<Rightarrow> addr \<Rightarrow> key \<Rightarrow> 'a StoredObj \<Rightarrow> 'a ListStoreImpl option" where
  "ListStore_pushFront s a k obj =
     do { let g = nextGeneration (ls_generation s);
          h \<leftarrow> (case ls_head s of
                 None \<Rightarrow> Some (ls_items s)
               | Some f \<Rightarrow> do { fi \<leftarrow> ls_items s f; Some ((ls_items s)(f \<mapsto> fi\<lparr>li_prev := Some a\<rparr>)) });
          item \<leftarrow> h a;
          Some (s\<lparr>ls_generation := g,
                  ls_items := h(a \<mapsto> item\<lparr>li_obj := obj\<lparr>so_generation := g\<rparr>, li_next := ls_head s, li_prev := None\<rparr>),
                  ls_head := Some a,
                  ls_store := (ls_store s)(k \<mapsto> a)\<rparr>) }"

definition ListStore_Set :: "'a ListStoreImpl \<Rightarrow> key \<Rightarrow> 'a StoredObj \<Rightarrow> 'a ListStoreImpl option" where
  "ListStore_Set s k obj =
     (case ls_store s k of
        Some a \<Rightarrow>
          do { s1 \<leftarrow> ListStore_remove s a;
               item \<leftarrow> ls_items s1 a;
               ListStore_pushFront (s1\<lparr>ls_items := (ls_items s1)(a \<mapsto> item\<lparr>li_obj := obj\<rparr>)\<rparr>) a k obj }
      | None \<Rightarrow>
          (let a = ls_fresh s in
           ListStore_pushFront
             (s\<lparr>ls_items := (ls_items s)(a \<mapsto> newListItem k obj), ls_fresh := Suc a\<rparr>) a k obj))"

definition ListStore_Delete :: "'a ListStoreImpl \<Rightarrow> key \<Rightarrow> 'a ListStoreImpl option" where
  "ListStore_Delete s k =
     do { s1 \<leftarrow> (case ls_store s k of None \<Rightarrow> Some s | Some a \<Rightarrow> ListStore_remove s a);
          Some (s1\<lparr>ls_store := (ls_store s1)(k := None)\<rparr>) }"

definition ListStore_Len :: "'a ListStoreImpl \<Rightarrow> nat" where
  "ListStore_Len s = card (dom (ls_store s))"

definition ListStore_Keys :: "(key set \<Rightarrow> key list) \<Rightarrow> 'a ListStoreImpl \<Rightarrow> key list" where
  "ListStore_Keys ord s = ord (dom (ls_store s))"

subsection \<open>The raw store\<close>

record 'a RawStoreImpl =
  rs_store :: "key \<rightharpoonup> 'a StoredObj"
  rs_generation :: int
  rs_updatedSet :: "key set"

definition NewRawStore :: "'a RawStoreImpl" where
  "NewRawStore = \<lparr>rs_store = Map.empty, rs_generation = 0, rs_updatedSet = {}\<rparr>"

definition RawStore_Get :: "'a RawStoreImpl \<Rightarrow> key \<Rightarrow> 'a StoredObj option" where
  "RawStore_Get s k = rs_store s k"

definition RawStore_Set :: "'a RawStoreImpl \<Rightarrow> key \<Rightarrow> 'a StoredObj \<Rightarrow> 'a RawStoreImpl" where
  "RawStore_Set s k obj =
     s\<lparr>rs_store := (rs_store s)(k \<mapsto> obj), rs_updatedSet := insert k (rs_updatedSet s)\<rparr>"

definition RawStore_Delete :: "'a RawStoreImpl \<Rightarrow> key \<Rightarrow> 'a RawStoreImpl" where
  "RawStore_Delete s k =
     s\<lparr>rs_store := (rs_store s)(k := None), rs_updatedSet := insert k (rs_updatedSet s)\<rparr>"

definition RawStore_Len :: "'a RawStoreImpl \<Rightarrow> nat" where
  "RawStore_Len s = card (dom (rs_store s))"

definition RawStore_Keys :: "(key set \<Rightarrow> key list) \<Rightarrow> 'a RawStoreImpl \<Rightarrow> key list" where
  "RawStore_Keys ord s = ord (dom (rs_store s))"

definition RawStore_SetGeneration :: "'a RawStoreImpl \<Rightarrow> int \<Rightarrow> 'a RawStoreImpl" where
  "RawStore_SetGeneration s g = s\<lparr>rs_generation := g\<rparr>"

definition RawStore_ResetUpdatedSet :: "'a RawStoreImpl \<Rightarrow> 'a RawStoreImpl" where
  "RawStore_ResetUpdatedSet s = s\<lparr>rs_updatedSet := {}\<rparr>"

subsection \<open>Ranges\<close>

text \<open>A range over a map calls its function for each key still present when its turn comes; the function
  may change the state the map is part of. The traversal stops at the first negative answer.\<close>

fun condition_range ::
  "('s \<Rightarrow> key \<Rightarrow> 'o option) \<Rightarrow> (key \<Rightarrow> 'o \<Rightarrow> 's \<Rightarrow> 's \<times> bool) \<Rightarrow> key list \<Rightarrow> 's \<Rightarrow> 's \<times> bool" where
  "condition_range get f [] s = (s, False)"
| "condition_range get f (k # ks) s =
     (case get s k of
        None \<Rightarrow> condition_range get f ks s
      | Some obj \<Rightarrow>
          (case f k obj s of (s', c) \<Rightarrow> if c then condition_range get f ks s' else (s', True)))"

definition RawStore_ConditionRange ::
  "(key set \<Rightarrow> key list) \<Rightarrow> (key \<Rightarrow> 'a StoredObj \<Rightarrow> 'a RawStoreImpl \<times> 't \<Rightarrow> ('a RawStoreImpl \<times> 't) \<times> bool) \<Rightarrow>
   'a RawStoreImpl \<times> 't \<Rightarrow> ('a RawStoreImpl \<times> 't) \<times> bool" where
  "RawStore_ConditionRange ord f st =
     condition_range (\<lambda>(s, _). RawStore_Get s) f (ord (dom (rs_store (fst st)))) st"

definition RawStore_Range ::
  "(key set \<Rightarrow> key list) \<Rightarrow> (key \<Rightarrow> 'a StoredObj \<Rightarrow> 't \<Rightarrow> 't) \<Rightarrow> 'a RawStoreImpl \<Rightarrow> 't \<Rightarrow> 't" where
  "RawStore_Range ord f s t =
     fst (condition_range (\<lambda>_. RawStore_Get s) (\<lambda>k obj t. (f k obj t, True)) (ord (dom (rs_store s))) t)"

definition ListStore_ConditionRange ::
  "(key set \<Rightarrow> key list) \<Rightarrow> (key \<Rightarrow> 'a StoredObj \<Rightarrow> 't \<Rightarrow> 't \<times> bool) \<Rightarrow> 'a ListStoreImpl \<Rightarrow> 't \<Rightarrow> 't \<times> bool" where
  "ListStore_ConditionRange ord f s t = condition_range (\<lambda>_. ListStore_Get s) f (ord (dom (ls_store s))) t"

definition ListStore_Range ::
  "(key set \<Rightarrow> key list) \<Rightarrow> (key \<Rightarrow> 'a StoredObj \<Rightarrow> 't \<Rightarrow> 't) \<Rightarrow> 'a ListStoreImpl \<Rightarrow> 't \<Rightarrow> 't" where
  "ListStore_Range ord f s t =
     fst (condition_range (\<lambda>_. ListStore_Get s) (\<lambda>k obj t. (f k obj t, True)) (ord (dom (ls_store s))) t)"

subsection \<open>Updating a snapshot\<close>

type_synonym ('a, 'b) clone_func = "key \<Rightarrow> 'a StoredObj \<Rightarrow> 'b RawStoreImpl \<Rightarrow> 'b RawStoreImpl option"

text \<open>The walk along the list. Nothing in it bounds the number of steps, so the result is \<open>None\<close> if it does
  not end, and where the function that clones an object panics.\<close>

partial_function (option) update_walk ::
  "'a items \<Rightarrow> int \<Rightarrow> ('a, 'b) clone_func \<Rightarrow> addr option \<Rightarrow> 'b RawStoreImpl \<Rightarrow> 'b RawStoreImpl option" where
  "update_walk h storedGeneration cloneFunc e store =
     (case e of
        None \<Rightarrow> Some store
      | Some a \<Rightarrow>
          (case h a of
             None \<Rightarrow> None
           | Some item \<Rightarrow>
               if so_generation (li_obj item) \<le> storedGeneration then Some store
               else
                 do { s1 \<leftarrow> cloneFunc (li_key item) (li_obj item) store;
                      update_walk h storedGeneration cloneFunc (li_next item)
                        (s1\<lparr>rs_updatedSet := rs_updatedSet s1 - {li_key item}\<rparr>) }))"

fun update_refresh ::
  "'a ListStoreImpl \<Rightarrow> ('a, 'b) clone_func \<Rightarrow> key list \<Rightarrow> 'b RawStoreImpl \<Rightarrow> 'b RawStoreImpl option" where
  "update_refresh s cloneFunc [] store = Some store"
| "update_refresh s cloneFunc (k # ks) store =
     do { store1 \<leftarrow> (case ListStore_Get s k of None \<Rightarrow> Some store | Some obj \<Rightarrow> cloneFunc k obj store);
          update_refresh s cloneFunc ks store1 }"

definition UpdateRawStore ::
  "(key set \<Rightarrow> key list) \<Rightarrow> 'a ListStoreImpl \<Rightarrow> ('a, 'b) clone_func \<Rightarrow> ('b RawStoreImpl \<Rightarrow> 'b RawStoreImpl) \<Rightarrow>
   'b RawStoreImpl \<Rightarrow> 'b RawStoreImpl option" where
  "UpdateRawStore ord s cloneFunc cleanFunc store =
     do { store1 \<leftarrow> update_walk (ls_items s) (rs_generation store) cloneFunc (ls_head s) store;
          store2 \<leftarrow> update_refresh s cloneFunc (ord (rs_updatedSet store1)) store1;
          Some (cleanFunc (RawStore_SetGeneration (RawStore_ResetUpdatedSet store2) (ls_generation s))) }"

definition DefaultCleanFunc ::
  "(key set \<Rightarrow> key list) \<Rightarrow> 'a ListStoreImpl \<Rightarrow> 'b RawStoreImpl \<Rightarrow> 'b RawStoreImpl" where
  "DefaultCleanFunc ord cache snapshot =
     (if ListStore_Len cache \<noteq> RawStore_Len snapshot
      then fst (fst (RawStore_ConditionRange ord
             (\<lambda>k _ (snap, diff).
                if diff \<le> 0 then ((snap, diff), False)
                else if ListStore_Get cache k = None then ((RawStore_Delete snap k, diff - 1), True)
                else ((snap, diff), True))
             (snapshot, int (RawStore_Len snapshot) - int (ListStore_Len cache))))
      else snapshot)"

text \<open>The items of the list from \<^verbatim>\<open>Front\<close> by \<^verbatim>\<open>Next\<close>.\<close>

partial_function (option) list_walk :: "'a items \<Rightarrow> addr option \<Rightarrow> (key \<times> 'a StoredObj) list option" where
  "list_walk h e =
     (case e of
        None \<Rightarrow> Some []
      | Some a \<Rightarrow>
          do { item \<leftarrow> h a;
               rest \<leftarrow> list_walk h (li_next item);
               Some ((li_key item, li_obj item) # rest) })"

subsection \<open>The linked list\<close>

text \<open>\<open>seg h pv p as l q\<close>: from \<open>p\<close>, whose predecessor is \<open>pv\<close>, the pointers lead through the items at \<open>as\<close>,
  the last of which is \<open>l\<close>, to \<open>q\<close>.\<close>

fun seg :: "'a items \<Rightarrow> addr option \<Rightarrow> addr option \<Rightarrow> addr list \<Rightarrow> addr option \<Rightarrow> addr option \<Rightarrow> bool" where
  "seg h pv p [] l q \<longleftrightarrow> pv = l \<and> p = q"
| "seg h pv p (a # as) l q \<longleftrightarrow>
     p = Some a \<and> (\<exists>it. h a = Some it \<and> li_prev it = pv \<and> seg h (Some a) (li_next it) as l q)"

lemma seg_append:
  "seg h pv p (xs @ ys) l q \<longleftrightarrow> (\<exists>m n. seg h pv p xs m n \<and> seg h m n ys l q)"
  by (induction xs arbitrary: pv p) auto

lemma seg_frame: "\<forall>a\<in>set as. h' a = h a \<Longrightarrow> seg h' pv p as l q = seg h pv p as l q"
  by (induction as arbitrary: pv p) auto

lemma seg_dom: "seg h pv p as l q \<Longrightarrow> a \<in> set as \<Longrightarrow> \<exists>it. h a = Some it"
  by (induction as arbitrary: pv p) auto

definition set_next :: "'a items \<Rightarrow> addr option \<Rightarrow> addr option \<Rightarrow> 'a items" where
  "set_next h m q = (case m of None \<Rightarrow> h | Some b \<Rightarrow> h(b := map_option (\<lambda>it. it\<lparr>li_next := q\<rparr>) (h b)))"

definition set_prev :: "'a items \<Rightarrow> addr option \<Rightarrow> addr option \<Rightarrow> 'a items" where
  "set_prev h p m = (case p of None \<Rightarrow> h | Some c \<Rightarrow> h(c := map_option (\<lambda>it. it\<lparr>li_prev := m\<rparr>) (h c)))"

lemma seg_set_next:
  assumes "seg h None p xs m q" "distinct xs"
  shows "seg (set_next h m q') None (if xs = [] then q' else p) xs m q'"
proof (cases xs rule: rev_cases)
  case Nil
  then show ?thesis using assms by (auto simp: set_next_def)
next
  case (snoc ys b)
  then obtain m' it where s: "seg h None p ys m' (Some b)" "h b = Some it" "li_prev it = m'" "m = Some b"
    using assms(1) by (auto simp: seg_append)
  then have "seg (h(b := map_option (\<lambda>it. it\<lparr>li_next := q'\<rparr>) (h b))) None p ys m' (Some b)"
    using assms(2) snoc by (subst seg_frame [of ys _ h]) auto
  then show ?thesis using s snoc by (auto simp: seg_append set_next_def)
qed

lemma seg_set_prev:
  assumes "seg h pv p ys l None" "distinct ys"
  shows "seg (set_prev h p m) m p ys (if ys = [] then m else l) None"
proof (cases ys)
  case Nil
  then show ?thesis using assms by (auto simp: set_prev_def)
next
  case (Cons c zs)
  then obtain it where s: "p = Some c" "h c = Some it" "seg h (Some c) (li_next it) zs l None"
    using assms(1) by auto
  then have "seg (h(c := map_option (\<lambda>it. it\<lparr>li_prev := m\<rparr>) (h c))) (Some c) (li_next it) zs l None"
    using assms(2) Cons by (subst seg_frame [of zs _ h]) auto
  then show ?thesis using s Cons by (auto simp: set_prev_def)
qed

lemma set_next_other: "(\<And>b. m = Some b \<Longrightarrow> a \<noteq> b) \<Longrightarrow> set_next h m q a = h a"
  by (auto simp: set_next_def split: option.split)

lemma set_prev_other: "(\<And>b. p = Some b \<Longrightarrow> a \<noteq> b) \<Longrightarrow> set_prev h p m a = h a"
  by (auto simp: set_prev_def split: option.split)

lemma seg_last: "seg h pv p xs m q \<Longrightarrow> m = (if xs = [] then pv else Some (last xs))"
  by (induction xs arbitrary: pv p) auto

lemma seg_first: "seg h pv p xs m q \<Longrightarrow> p = (if xs = [] then q else Some (hd xs))"
  by (cases xs) auto

text \<open>What an item holds besides its pointers.\<close>

definition it_val :: "'a items \<Rightarrow> addr \<Rightarrow> (key \<times> 'a StoredObj) option" where
  "it_val h a = map_option (\<lambda>it. (li_key it, li_obj it)) (h a)"

lemma it_val_set_next [simp]: "it_val (set_next h m q) = it_val h"
  by (rule ext) (auto simp: it_val_def set_next_def option.map_comp comp_def split: option.split)

lemma it_val_set_prev [simp]: "it_val (set_prev h p m) = it_val h"
  by (rule ext) (auto simp: it_val_def set_prev_def option.map_comp comp_def split: option.split)

lemma item_remove_spec:
  assumes "seg h None p (xs @ a # ys) l None" "distinct (xs @ a # ys)"
  shows "\<exists>h' it. h a = Some it \<and> item_remove h a = Some h' \<and> h' a = Some it \<and> it_val h' = it_val h \<and>
     (\<exists>l'. seg h' None (if xs = [] then li_next it else p) (xs @ ys) l' None)"
proof -
  obtain m it where s: "seg h None p xs m (Some a)" "h a = Some it" "li_prev it = m"
    "seg h (Some a) (li_next it) ys l None"
    using assms(1) by (auto simp: seg_append)
  let ?n = "li_next it"
  note m = seg_last [OF s(1)] and n = seg_first [OF s(4)]
  define h1 where "h1 = set_next h m ?n"
  define h2 where "h2 = set_prev h1 ?n m"
  have 1: "seg h1 None (if xs = [] then ?n else p) xs m ?n"
    unfolding h1_def by (rule seg_set_next [OF s(1)]) (use assms(2) in auto)
  have last: "b \<in> set xs" if "m = Some b" for b using that m by (auto split: if_splits)
  have first: "c \<in> set ys" if "?n = Some c" for c using that n by (auto split: if_splits)
  have f1: "\<forall>b\<in>set (a # ys). h1 b = h b"
    using assms(2) unfolding h1_def by (intro ballI set_next_other) (auto dest!: last)
  then have "seg h1 (Some a) ?n ys l None" using s(4) seg_frame [of ys h1 h] by simp
  then have 2: "seg h2 m ?n ys (if ys = [] then m else l) None"
    unfolding h2_def by (rule seg_set_prev) (use assms(2) in auto)
  have f2: "\<forall>b\<in>set (a # xs). h2 b = h1 b"
    using assms(2) unfolding h2_def by (intro ballI set_prev_other) (auto dest!: first)
  then have 3: "seg h2 None (if xs = [] then ?n else p) xs m ?n" using 1 seg_frame [of xs h2 h1] by simp
  have "\<exists>l'. seg h2 None (if xs = [] then ?n else p) (xs @ ys) l' None"
    using 2 3 unfolding seg_append by blast
  moreover have "item_remove h a = Some h2"
  proof -
    have hm: "\<exists>i. h b = Some i" if "m = Some b" for b
      using that m seg_dom [OF s(1), of b] by (auto split: if_splits)
    have hn: "\<exists>i. h1 c = Some i" if "?n = Some c" for c
      using that n seg_dom [OF 2, of c] by (auto simp: h2_def set_prev_def split: if_splits)
    show ?thesis
      using s(2,3) hm hn
      by (auto simp: item_remove_def h1_def h2_def set_next_def set_prev_def split: option.splits)
  qed
  moreover have "h2 a = Some it" using s(2) f1 f2 by simp
  ultimately show ?thesis using s(2) by (auto simp: h2_def h1_def)
qed

subsection \<open>The invariant of the list store\<close>

definition gen_of :: "'a items \<Rightarrow> addr \<Rightarrow> int" where
  "gen_of h a = (case it_val h a of None \<Rightarrow> 0 | Some (_, obj) \<Rightarrow> so_generation obj)"

definition ls_wf :: "'a ListStoreImpl \<Rightarrow> addr list \<Rightarrow> bool" where
  "ls_wf s as \<longleftrightarrow>
     (\<exists>l. seg (ls_items s) None (ls_head s) as l None) \<and> distinct as \<and>
     (\<forall>k a. ls_store s k = Some a \<longleftrightarrow> a \<in> set as \<and> (\<exists>obj. it_val (ls_items s) a = Some (k, obj))) \<and>
     sorted_wrt (\<lambda>a b. gen_of (ls_items s) b < gen_of (ls_items s) a) as \<and>
     (\<forall>a\<in>set as. gen_of (ls_items s) a \<le> ls_generation s) \<and>
     (\<forall>a. ls_items s a \<noteq> None \<longrightarrow> a < ls_fresh s)"

lemma ListStore_Get_val: "ListStore_Get s k = Option.bind (ls_store s k) (\<lambda>a. map_option snd (it_val (ls_items s) a))"
  by (auto simp: ListStore_Get_def it_val_def option.map_comp comp_def split: option.split)

lemma ls_wf_New [simp]: "ls_wf NewListStore []"
  by (simp add: ls_wf_def NewListStore_def)

lemma it_val_dom: "h a = None \<longleftrightarrow> it_val h a = None"
  by (simp add: it_val_def)

lemma ListStore_remove_spec:
  assumes wf: "ls_wf s as" and a: "a \<in> set as"
  shows "\<exists>s1 h hd it l. ListStore_remove s a = Some s1 \<and> s1 = s\<lparr>ls_items := h, ls_head := hd\<rparr> \<and> h a = Some it \<and>
     it_val h = it_val (ls_items s) \<and> seg h None hd (remove1 a as) l None"
proof -
  obtain xs ys where as: "as = xs @ a # ys" "a \<notin> set xs" using a by (metis split_list_first)
  obtain l where l: "seg (ls_items s) None (ls_head s) (xs @ a # ys) l None" and d: "distinct (xs @ a # ys)"
    using wf as by (auto simp: ls_wf_def)
  obtain h it l' where h: "ls_items s a = Some it" "item_remove (ls_items s) a = Some h" "h a = Some it"
    "it_val h = it_val (ls_items s)" "seg h None (if xs = [] then li_next it else ls_head s) (xs @ ys) l' None"
    using item_remove_spec [OF l d] by blast
  have "ls_head s = Some a \<longleftrightarrow> xs = []" using seg_first [OF l] as(2) by (cases xs) auto
  then have "ListStore_remove s a =
      Some (s\<lparr>ls_items := h, ls_head := (if xs = [] then li_next it else ls_head s)\<rparr>)"
    using h(2,3) by (simp add: ListStore_remove_def)
  moreover have "remove1 a as = xs @ ys" using as by (simp add: remove1_append)
  ultimately show ?thesis using h(3-5) by metis
qed

lemma ListStore_pushFront_spec:
  assumes s: "seg (ls_items s) None (ls_head s) bs l None" and d: "distinct (a # bs)"
    and a: "ls_items s a = Some it"
  shows "\<exists>h l'. ListStore_pushFront s a k obj =
       Some (s\<lparr>ls_generation := nextGeneration (ls_generation s), ls_items := h, ls_head := Some a,
               ls_store := (ls_store s)(k \<mapsto> a)\<rparr>) \<and>
     seg h None (Some a) (a # bs) l' None \<and>
     it_val h = (it_val (ls_items s))(a \<mapsto> (li_key it, obj\<lparr>so_generation := nextGeneration (ls_generation s)\<rparr>))"
proof -
  define g where "g = nextGeneration (ls_generation s)"
  define h0 where "h0 = set_prev (ls_items s) (ls_head s) (Some a)"
  have 0: "(case ls_head s of None \<Rightarrow> Some (ls_items s)
            | Some f \<Rightarrow> do { fi \<leftarrow> ls_items s f; Some ((ls_items s)(f \<mapsto> fi\<lparr>li_prev := Some a\<rparr>)) }) = Some h0"
  proof (cases bs)
    case Nil
    then show ?thesis using s by (simp add: h0_def set_prev_def)
  next
    case (Cons f cs)
    then show ?thesis using s by (auto simp: h0_def set_prev_def)
  qed
  have "h0 a = Some it"
    using a seg_first [OF s] d by (auto simp: h0_def set_prev_def split: option.splits if_splits)
  moreover define h where "h = h0(a \<mapsto> it\<lparr>li_obj := obj\<lparr>so_generation := g\<rparr>, li_next := ls_head s, li_prev := None\<rparr>)"
  ultimately have 1: "ListStore_pushFront s a k obj =
       Some (s\<lparr>ls_generation := g, ls_items := h, ls_head := Some a, ls_store := (ls_store s)(k \<mapsto> a)\<rparr>)"
    by (simp add: ListStore_pushFront_def 0 g_def Let_def)
  have "seg h0 (Some a) (ls_head s) bs (if bs = [] then Some a else l) None"
    unfolding h0_def by (rule seg_set_prev [OF s]) (use d in auto)
  then have "seg h (Some a) (ls_head s) bs (if bs = [] then Some a else l) None"
    using d by (subst seg_frame [of bs _ h0]) (auto simp: h_def)
  then have 2: "seg h None (Some a) (a # bs) (if bs = [] then Some a else l) None" by (simp add: h_def)
  have "it_val h = (it_val h0)(a \<mapsto> (li_key it, obj\<lparr>so_generation := g\<rparr>))"
    by (rule ext) (simp add: h_def it_val_def)
  then show ?thesis using 1 2 by (auto simp: h0_def g_def)
qed

lemma ls_wf_set_front:
  assumes wf: "ls_wf s as"
    and seg: "seg h None (Some a) (a # remove1 a as) l None" and d: "distinct as"
    and val: "it_val h = (it_val (ls_items s))(a \<mapsto> (k, obj\<lparr>so_generation := ls_generation s + 1\<rparr>))"
    and a: "case ls_store s k of Some b \<Rightarrow> a = b \<and> f = ls_fresh s | None \<Rightarrow> a = ls_fresh s \<and> f = Suc a"
    and s': "s' = s\<lparr>ls_fresh := f, ls_generation := ls_generation s + 1, ls_items := h, ls_head := Some a,
                      ls_store := (ls_store s)(k \<mapsto> a)\<rparr>"
  shows "ls_wf s' (a # remove1 a as) \<and>
     ListStore_Get s' = (ListStore_Get s)(k \<mapsto> obj\<lparr>so_generation := ls_generation s + 1\<rparr>)"
proof -
  let ?v = "it_val (ls_items s)"
  have st: "ls_store s j = Some b \<longleftrightarrow> b \<in> set as \<and> (\<exists>obj. ?v b = Some (j, obj))" for j b
    using wf by (simp add: ls_wf_def)
  have fresh: "?v b \<noteq> None \<Longrightarrow> b < ls_fresh s" for b
    using wf unfolding ls_wf_def it_val_dom [symmetric] by blast
  have nin: "ls_store s j \<noteq> Some a" if "j \<noteq> k" for j
    using a st [of j a] st [of k a] that fresh [of a] by (auto split: option.splits)
  have gen: "gen_of h b = (if b = a then ls_generation s + 1 else gen_of (ls_items s) b)" for b
    by (simp add: gen_of_def val)
  have srt: "sorted_wrt (\<lambda>b c. gen_of (ls_items s) c < gen_of (ls_items s) b) (remove1 a as)"
    using wf by (auto simp: ls_wf_def sorted_wrt_remove1)
  have le: "gen_of (ls_items s) b \<le> ls_generation s" if "b \<in> set as" for b
    using wf that by (simp add: ls_wf_def)
  have na: "b \<noteq> a" if "b \<in> set (remove1 a as)" for b using that d by auto
  have "sorted_wrt (\<lambda>b c. gen_of h c < gen_of h b) (a # remove1 a as)"
    using srt na le d by (auto simp: gen sorted_wrt_append intro: sorted_wrt_mono_rel [rotated])
  moreover have "\<forall>b\<in>set (a # remove1 a as). gen_of h b \<le> ls_generation s + 1"
    using le d by (fastforce simp: gen)
  moreover have "h b \<noteq> None \<longrightarrow> b < f" for b
    unfolding it_val_dom val using fresh [of b] fresh [of a] st [of k a] a
    by (auto split: option.splits if_splits)
  moreover have "((ls_store s)(k \<mapsto> a)) j = Some b \<longleftrightarrow>
      b \<in> set (a # remove1 a as) \<and> (\<exists>obj. it_val h b = Some (j, obj))" for j b
  proof (cases "j = k \<and> b \<noteq> a")
    case True
    have "ls_store s k \<noteq> Some b" using a True by auto
    then show ?thesis using st [of k b] True by (auto simp: val)
  next
    case False
    then show ?thesis using st [of j b] nin [of j] d by (auto simp: val)
  qed
  moreover have "ListStore_Get s' j = ((ListStore_Get s)(k \<mapsto> obj\<lparr>so_generation := ls_generation s + 1\<rparr>)) j" for j
    using nin [of j] s' by (cases "ls_store s j") (auto simp: ListStore_Get_val val)
  ultimately show ?thesis
    using seg d s' unfolding ls_wf_def fun_eq_iff by simp blast
qed

lemma nextGeneration_step: "0 \<le> g \<Longrightarrow> g < 2 ^ 63 - 1 \<Longrightarrow> nextGeneration g = g + 1"
  unfolding nextGeneration_def by (rule wrap64_id) auto

lemma ListStore_Set_spec:
  assumes wf: "ls_wf s as" and g: "0 \<le> ls_generation s" "ls_generation s < 2 ^ 63 - 1"
  shows "\<exists>s' as'. ListStore_Set s k obj = Some s' \<and> ls_wf s' as' \<and> ls_generation s' = ls_generation s + 1 \<and>
     ListStore_Get s' = (ListStore_Get s)(k \<mapsto> obj\<lparr>so_generation := ls_generation s + 1\<rparr>)"
proof -
  note ng = nextGeneration_step [OF g]
  have d: "distinct as" using wf by (simp add: ls_wf_def)
  show ?thesis
  proof (cases "ls_store s k")
    case None
    let ?a = "ls_fresh s"
    define s1 where "s1 = s\<lparr>ls_items := (ls_items s)(?a \<mapsto> newListItem k obj), ls_fresh := Suc ?a\<rparr>"
    have na: "?a \<notin> set as" using wf seg_dom [of "ls_items s"] unfolding ls_wf_def by blast
    obtain l where l: "seg (ls_items s) None (ls_head s) as l None" using wf by (auto simp: ls_wf_def)
    have "seg (ls_items s1) None (ls_head s1) as l None"
      using l na unfolding s1_def by (simp, subst seg_frame [of as _ "ls_items s"]) auto
    moreover have "ls_items s1 ?a = Some (newListItem k obj)" by (simp add: s1_def)
    ultimately obtain h l' where h: "ListStore_pushFront s1 ?a k obj =
         Some (s1\<lparr>ls_generation := nextGeneration (ls_generation s1), ls_items := h, ls_head := Some ?a,
                 ls_store := (ls_store s1)(k \<mapsto> ?a)\<rparr>)" "seg h None (Some ?a) (?a # as) l' None"
      "it_val h = (it_val (ls_items s1))(?a \<mapsto> (k, obj\<lparr>so_generation := nextGeneration (ls_generation s1)\<rparr>))"
      using ListStore_pushFront_spec [of s1 as l ?a "newListItem k obj" k obj] na d by (auto simp: newListItem_def)
    have v: "(it_val (ls_items s1))(?a \<mapsto> x) = (it_val (ls_items s))(?a \<mapsto> x)" for x
      by (auto simp: s1_def it_val_def fun_eq_iff)
    have "ListStore_Set s k obj = ListStore_pushFront s1 ?a k obj" by (simp add: ListStore_Set_def None s1_def Let_def)
    then have set: "ListStore_Set s k obj = Some (s\<lparr>ls_fresh := Suc ?a, ls_generation := ls_generation s + 1, ls_items := h,
        ls_head := Some ?a, ls_store := (ls_store s)(k \<mapsto> ?a)\<rparr>)"
      using h(1) by (simp add: ng s1_def)
    have "it_val h = (it_val (ls_items s))(?a \<mapsto> (k, obj\<lparr>so_generation := ls_generation s + 1\<rparr>))"
      using h(3) unfolding v by (simp add: ng s1_def)
    from ls_wf_set_front [OF wf _ d this _ refl, of l' "Suc ?a"] h(2) na None
    show ?thesis unfolding set by (auto simp: remove1_idem)
  next
    case (Some a)
    then have a: "a \<in> set as" and ka: "\<exists>obj. it_val (ls_items s) a = Some (k, obj)"
      using wf by (auto simp: ls_wf_def)
    obtain h0 hd it l where r: "ListStore_remove s a = Some (s\<lparr>ls_items := h0, ls_head := hd\<rparr>)" "h0 a = Some it"
      "it_val h0 = it_val (ls_items s)" "seg h0 None hd (remove1 a as) l None"
      using ListStore_remove_spec [OF wf a] by blast
    have key: "li_key it = k" using ka r(2) unfolding r(3) [symmetric] by (auto simp: it_val_def)
    define s1 where "s1 = s\<lparr>ls_head := hd, ls_items := h0(a \<mapsto> it\<lparr>li_obj := obj\<rparr>)\<rparr>"
    have "seg (ls_items s1) None (ls_head s1) (remove1 a as) l None"
      using r(4) d unfolding s1_def by (simp, subst seg_frame [of _ _ h0]) auto
    moreover have "ls_items s1 a = Some (it\<lparr>li_obj := obj\<rparr>)" by (simp add: s1_def)
    ultimately obtain h l' where h: "ListStore_pushFront s1 a k obj =
         Some (s1\<lparr>ls_generation := nextGeneration (ls_generation s1), ls_items := h, ls_head := Some a,
                 ls_store := (ls_store s1)(k \<mapsto> a)\<rparr>)" "seg h None (Some a) (a # remove1 a as) l' None"
      "it_val h = (it_val (ls_items s1))(a \<mapsto> (k, obj\<lparr>so_generation := nextGeneration (ls_generation s1)\<rparr>))"
      using ListStore_pushFront_spec [of s1 "remove1 a as" l a "it\<lparr>li_obj := obj\<rparr>" k obj] d key by auto
    have v: "(it_val (ls_items s1))(a \<mapsto> x) = (it_val (ls_items s))(a \<mapsto> x)" for x
      unfolding r(3) [symmetric] by (auto simp: s1_def it_val_def fun_eq_iff)
    have "ListStore_Set s k obj = ListStore_pushFront s1 a k obj"
      using r(1,2) by (simp add: ListStore_Set_def Some s1_def)
    then have set: "ListStore_Set s k obj = Some (s\<lparr>ls_fresh := ls_fresh s, ls_generation := ls_generation s + 1,
        ls_items := h, ls_head := Some a, ls_store := (ls_store s)(k \<mapsto> a)\<rparr>)"
      using h(1) by (simp add: ng s1_def)
    have "it_val h = (it_val (ls_items s))(a \<mapsto> (k, obj\<lparr>so_generation := ls_generation s + 1\<rparr>))"
      using h(3) unfolding v by (simp add: ng s1_def)
    from ls_wf_set_front [OF wf h(2) d this _ refl, of "ls_fresh s"] Some
    show ?thesis unfolding set by auto
  qed
qed

lemma ListStore_Delete_spec:
  assumes wf: "ls_wf s as"
  shows "\<exists>s' as'. ListStore_Delete s k = Some s' \<and> ls_wf s' as' \<and> ls_generation s' = ls_generation s \<and>
     ListStore_Get s' = (ListStore_Get s)(k := None)"
proof (cases "ls_store s k")
  case None
  then have "ListStore_Delete s k = Some s" by (simp add: ListStore_Delete_def fun_upd_idem)
  moreover have "(ListStore_Get s)(k := None) = ListStore_Get s"
    using None by (simp add: fun_upd_idem ListStore_Get_def)
  ultimately show ?thesis using wf by auto
next
  case (Some a)
  have st: "ls_store s j = Some b \<longleftrightarrow> b \<in> set as \<and> (\<exists>obj. it_val (ls_items s) b = Some (j, obj))" for j b
    using wf by (simp add: ls_wf_def)
  have a: "a \<in> set as" "distinct as" using st [of k a] Some wf by (auto simp: ls_wf_def)
  obtain h hd it l where r: "ListStore_remove s a = Some (s\<lparr>ls_items := h, ls_head := hd\<rparr>)"
    "it_val h = it_val (ls_items s)" "seg h None hd (remove1 a as) l None"
    using ListStore_remove_spec [OF wf a(1)] by blast
  define s' where "s' = s\<lparr>ls_items := h, ls_head := hd, ls_store := (ls_store s)(k := None)\<rparr>"
  have gen: "gen_of h = gen_of (ls_items s)" by (simp add: gen_of_def r(2) fun_eq_iff)
  have dom: "\<forall>b. h b \<noteq> None \<longrightarrow> b < ls_fresh s"
    using wf unfolding ls_wf_def it_val_dom r(2) by blast
  have "((ls_store s)(k := None)) j = Some b \<longleftrightarrow>
      b \<in> set (remove1 a as) \<and> (\<exists>obj. it_val h b = Some (j, obj))" for j b
    using st [of j b] st [of k b] Some a by (auto simp: r(2))
  then have "ls_wf s' (remove1 a as)"
    using wf r(3) a dom unfolding ls_wf_def s'_def
    by (auto simp: gen sorted_wrt_remove1)
  moreover have "ListStore_Delete s k = Some s'" using Some r(1) by (simp add: ListStore_Delete_def s'_def)
  moreover have "ListStore_Get s' = (ListStore_Get s)(k := None)"
    by (rule ext) (simp add: ListStore_Get_val s'_def r(2))
  ultimately show ?thesis by (auto simp: s'_def)
qed

subsection \<open>The list as a sequence\<close>

lemma list_walk_seg:
  "seg h pv p as l None \<Longrightarrow> list_walk h p = Some (map (\<lambda>a. the (it_val h a)) as)"
proof (induction as arbitrary: pv p)
  case Nil
  then show ?case by (simp add: list_walk.simps)
next
  case (Cons a as)
  then show ?case by (subst list_walk.simps) (auto simp: it_val_def)
qed

definition falling :: "(key \<times> 'a StoredObj) list \<Rightarrow> bool" where
  "falling kvs \<longleftrightarrow> sorted_wrt (\<lambda>x y. so_generation (snd y) < so_generation (snd x)) kvs"

definition walk_ok :: "'a ListStoreImpl \<Rightarrow> (key \<times> 'a StoredObj) list \<Rightarrow> bool" where
  "walk_ok s kvs \<longleftrightarrow>
     list_walk (ls_items s) (ls_head s) = Some kvs \<and> distinct (map fst kvs) \<and> map_of kvs = ListStore_Get s \<and>
     falling kvs \<and> ListStore_Len s = length kvs \<and> (\<forall>x\<in>set kvs. so_generation (snd x) \<le> ls_generation s)"

lemma ls_wf_walk:
  assumes wf: "ls_wf s as"
  shows "walk_ok s (map (\<lambda>a. the (it_val (ls_items s) a)) as)"
proof -
  let ?v = "it_val (ls_items s)" let ?kvs = "map (\<lambda>a. the (?v a)) as"
  obtain l where l: "seg (ls_items s) None (ls_head s) as l None" using wf by (auto simp: ls_wf_def)
  have v: "\<exists>k obj. ?v a = Some (k, obj)" if "a \<in> set as" for a
    using seg_dom [OF l that] by (auto simp: it_val_def)
  have st: "ls_store s k = Some a \<longleftrightarrow> a \<in> set as \<and> (\<exists>obj. ?v a = Some (k, obj))" for k a
    using wf by (simp add: ls_wf_def)
  have inj: "inj_on (\<lambda>a. fst (the (?v a))) (set as)"
  proof (rule inj_onI)
    fix a b assume ab: "a \<in> set as" "b \<in> set as" "fst (the (?v a)) = fst (the (?v b))"
    obtain k x y where "?v a = Some (k, x)" "?v b = Some (k, y)" using v ab by fastforce
    then have "ls_store s k = Some a" "ls_store s k = Some b" using st ab by auto
    then show "a = b" by simp
  qed
  have d: "distinct (map fst ?kvs)" using wf inj by (simp add: ls_wf_def distinct_map comp_def)
  have m: "map_of ?kvs k = ListStore_Get s k" for k
  proof (cases "ls_store s k")
    case None
    have "fst (the (?v a)) \<noteq> k" if "a \<in> set as" for a
      using st [of k a] v [OF that] None that by auto
    then have "map_of ?kvs k = None" unfolding map_of_eq_None_iff set_map by blast
    then show ?thesis using None by (simp add: ListStore_Get_def)
  next
    case (Some a)
    then obtain obj where a: "a \<in> set as" "?v a = Some (k, obj)" using st by blast
    then have "(k, obj) \<in> set ?kvs" by force
    then show ?thesis using d a Some by (simp add: ListStore_Get_val)
  qed
  have gen: "so_generation (snd (the (?v a))) = gen_of (ls_items s) a" if "a \<in> set as" for a
    using v [OF that] by (auto simp: gen_of_def)
  have "falling ?kvs"
    unfolding falling_def sorted_wrt_map
    by (rule sorted_wrt_mono_rel [of as "\<lambda>a b. gen_of (ls_items s) b < gen_of (ls_items s) a"])
      (use wf gen in \<open>auto simp: ls_wf_def\<close>)
  moreover have "dom (ls_store s) = (\<lambda>a. fst (the (?v a))) ` set as" using st v by (force simp: dom_def)
  then have "ListStore_Len s = length ?kvs"
    using inj wf by (simp add: ListStore_Len_def card_image distinct_card ls_wf_def)
  moreover have "\<forall>x\<in>set ?kvs. so_generation (snd x) \<le> ls_generation s"
    using wf gen by (auto simp: ls_wf_def)
  ultimately show ?thesis using list_walk_seg [OF l] d m by (auto simp: walk_ok_def)
qed

subsection \<open>Updating a snapshot: the three phases\<close>

text \<open>The clone functions of the callers store a copy of the object under the same key.\<close>

definition copy_func :: "('a StoredObj \<Rightarrow> 'b StoredObj) \<Rightarrow> ('a, 'b) clone_func" where
  "copy_func cl k obj r = Some (RawStore_Set r k (cl obj))"

text \<open>A clone function that copies the objects of a cache.\<close>

definition copies :: "('a, 'b) clone_func \<Rightarrow> ('a StoredObj \<Rightarrow> 'b StoredObj) \<Rightarrow> 'a ListStoreImpl \<Rightarrow> bool" where
  "copies cf cl s \<longleftrightarrow> (\<forall>k obj r. ListStore_Get s k = Some obj \<longrightarrow> cf k obj r = Some (RawStore_Set r k (cl obj)))"

definition copy_step ::
  "('a StoredObj \<Rightarrow> 'b StoredObj) \<Rightarrow> key \<times> 'a StoredObj \<Rightarrow> 'b RawStoreImpl \<Rightarrow> 'b RawStoreImpl" where
  "copy_step cl kv r =
     r\<lparr>rs_store := (rs_store r)(fst kv \<mapsto> cl (snd kv)), rs_updatedSet := rs_updatedSet r - {fst kv}\<rparr>"

lemma update_walk_eq:
  assumes "list_walk h p = Some kvs" and "\<forall>kv \<in> set kvs. \<forall>r. cf (fst kv) (snd kv) r = Some (RawStore_Set r (fst kv) (cl (snd kv)))"
  shows "update_walk h g cf p r =
     Some (fold (copy_step cl) (takeWhile (\<lambda>kv. g < so_generation (snd kv)) kvs) r)"
  using assms
proof (induction kvs arbitrary: p r)
  case Nil
  then have "p = None" by (subst (asm) list_walk.simps) (auto split: option.splits bind_splits)
  then show ?case by (simp add: update_walk.simps)
next
  case (Cons kv kvs)
  then obtain a it where a: "p = Some a" "h a = Some it" "kv = (li_key it, li_obj it)" "list_walk h (li_next it) = Some kvs"
    by (subst (asm) list_walk.simps) (auto split: option.splits bind_splits)
  have cf: "cf (li_key it) (li_obj it) r = Some (RawStore_Set r (li_key it) (cl (li_obj it)))" using Cons.prems(2) a(3) by simp
  show ?case
  proof (cases "g < so_generation (li_obj it)")
    case True
    then have "update_walk h g cf p r = update_walk h g cf (li_next it) (copy_step cl kv r)"
      by (subst update_walk.simps) (simp add: a(1-3) cf copy_step_def RawStore_Set_def)
    then show ?thesis using Cons.IH [OF a(4)] Cons.prems(2) True a(3) by simp
  next
    case False
    then show ?thesis by (subst update_walk.simps) (simp add: a)
  qed
qed

lemma falling_takeWhile: "falling kvs \<Longrightarrow>
    takeWhile (\<lambda>kv. g < so_generation (snd kv)) kvs = filter (\<lambda>kv. g < so_generation (snd kv)) kvs"
proof (induction kvs)
  case (Cons kv kvs)
  then have "\<forall>y\<in>set kvs. so_generation (snd y) < so_generation (snd kv)" by (simp add: falling_def)
  then have "\<not> g < so_generation (snd kv) \<Longrightarrow> filter (\<lambda>kv. g < so_generation (snd kv)) kvs = []"
    by (auto simp: filter_empty_conv)
  then show ?case using Cons by (auto simp: falling_def)
qed simp

lemma fold_copy:
  assumes "distinct (map fst kvs)"
  shows "rs_store (fold (copy_step cl) kvs r) k =
       (case map_of kvs k of None \<Rightarrow> rs_store r k | Some obj \<Rightarrow> Some (cl obj)) \<and>
     rs_updatedSet (fold (copy_step cl) kvs r) = rs_updatedSet r - fst ` set kvs \<and>
     rs_generation (fold (copy_step cl) kvs r) = rs_generation r"
  using assms
proof (induction kvs arbitrary: r)
  case (Cons kv kvs)
  then have n: "fst kv \<notin> fst ` set kvs" "distinct (map fst kvs)" by auto
  then have "map_of kvs (fst kv) = None" by (simp add: map_of_eq_None_iff)
  then show ?case
    using Cons.IH [OF n(2), of "copy_step cl kv r"] by (cases kv) (auto simp: copy_step_def split: option.split)
qed simp

lemma update_refresh_spec:
  assumes "copies cf cl s"
  shows "\<exists>r'. update_refresh s cf ks r = Some r' \<and> rs_generation r' = rs_generation r \<and>
    (\<forall>k. rs_store r' k =
       (if k \<in> set ks then (case ListStore_Get s k of None \<Rightarrow> rs_store r k | Some obj \<Rightarrow> Some (cl obj)) else rs_store r k))"
proof (induction ks arbitrary: r)
  case (Cons j ks)
  show ?case
  proof (cases "ListStore_Get s j")
    case None
    then show ?thesis using Cons [of r] by (auto split: option.split)
  next
    case (Some obj)
    then have "cf j obj r = Some (RawStore_Set r j (cl obj))" using assms by (simp add: copies_def)
    then show ?thesis using Some Cons [of "RawStore_Set r j (cl obj)"] by (auto simp: RawStore_Set_def split: option.split)
  qed
qed simp

text \<open>The loop of \<^verbatim>\<open>DefaultCleanFunc\<close>, with the number of keys to remove known.\<close>

abbreviation clean_step where
  "clean_step cache k obj \<equiv> \<lambda>(snap, diff).
      if diff \<le> 0 then ((snap, diff), False)
      else if ListStore_Get cache k = None then ((RawStore_Delete snap k, diff - 1), True)
      else ((snap, diff), True)"

lemma RawStore_Get_eq: "RawStore_Get = rs_store"
  by (simp add: RawStore_Get_def fun_eq_iff)

lemma clean_loop:
  fixes r :: "'b RawStoreImpl"
  assumes "distinct ks" "set ks \<subseteq> dom (rs_store r)" "diff = int (card {k \<in> set ks. ListStore_Get cache k = None})"
    "(r', e) = fst (condition_range (\<lambda>(s, _). RawStore_Get s) (clean_step cache) ks (r, diff))"
  shows "rs_store r' = (\<lambda>k. if k \<in> set ks \<and> ListStore_Get cache k = None then None else rs_store r k) \<and>
     rs_generation r' = rs_generation r \<and> finite (rs_updatedSet r') = finite (rs_updatedSet r)"
  using assms
proof (induction ks arbitrary: r diff)
  case (Cons k ks)
  obtain obj where obj: "rs_store r k = Some obj" using Cons.prems(2) by auto
  let ?S = "{j \<in> set ks. ListStore_Get cache j = None}"
  show ?case
  proof (cases "ListStore_Get cache k = None")
    case True
    then have eq: "{j \<in> set (k # ks). ListStore_Get cache j = None} = insert k ?S" by auto
    have c: "diff = int (card ?S) + 1" using Cons.prems(1,3) unfolding eq by simp
    let ?r = "RawStore_Delete r k"
    have "rs_store r' = (\<lambda>j. if j \<in> set ks \<and> ListStore_Get cache j = None then None else rs_store ?r j) \<and>
        rs_generation r' = rs_generation ?r \<and> finite (rs_updatedSet r') = finite (rs_updatedSet ?r)"
    proof (rule Cons.IH)
      show "set ks \<subseteq> dom (rs_store ?r)" using Cons.prems(1,2) by (auto simp: RawStore_Delete_def)
      show "(r', e) = fst (condition_range (\<lambda>(s, _). RawStore_Get s) (clean_step cache) ks (?r, diff - 1))"
        using Cons.prems(4) obj True c by (simp add: RawStore_Get_eq)
    qed (use Cons.prems(1) c in auto)
    then show ?thesis using True by (auto simp: RawStore_Delete_def fun_eq_iff)
  next
    case False
    then have eq: "{j \<in> set (k # ks). ListStore_Get cache j = None} = ?S" by auto
    show ?thesis
    proof (cases "diff \<le> 0")
      case True
      then have "?S = {}" using Cons.prems(3) unfolding eq by simp
      moreover have "r' = r" using Cons.prems(4) obj True by (simp add: RawStore_Get_eq)
      ultimately show ?thesis using False by (auto simp: fun_eq_iff)
    next
      case d: False
      have "(r', e) = fst (condition_range (\<lambda>(s, _). RawStore_Get s) (clean_step cache) ks (r, diff))"
        using Cons.prems(4) obj False d by (simp add: RawStore_Get_eq)
      then show ?thesis using Cons.IH [of r diff] Cons.prems(1-3) False unfolding eq by (auto simp: fun_eq_iff)
    qed
  qed
qed simp

lemma DefaultCleanFunc_spec:
  assumes ord: "ord_ok ord" and fin: "finite (dom (rs_store r))" and wf: "walk_ok cache kvs"
    and sub: "dom (ListStore_Get cache) \<subseteq> dom (rs_store r)"
  shows "rs_store (DefaultCleanFunc ord cache r) = rs_store r |` dom (ListStore_Get cache) \<and>
     rs_generation (DefaultCleanFunc ord cache r) = rs_generation r \<and>
     finite (rs_updatedSet (DefaultCleanFunc ord cache r)) = finite (rs_updatedSet r)"
proof -
  let ?C = "dom (ListStore_Get cache)" and ?R = "dom (rs_store r)"
  have len: "ListStore_Len cache = card ?C"
    using wf by (metis distinct_card dom_map_of_conv_image_fst length_map set_map walk_ok_def)
  have finC: "finite ?C" using sub fin by (rule finite_subset)
  show ?thesis
  proof (cases "ListStore_Len cache = RawStore_Len r")
    case True
    then have "?C = ?R" using len sub fin by (simp add: RawStore_Len_def card_subset_eq)
    then have "rs_store r |` ?C = rs_store r" by (simp add: restrict_map_def fun_eq_iff domIff)
    then show ?thesis using True by (simp add: DefaultCleanFunc_def)
  next
    case False
    let ?ks = "ord ?R" and ?d = "int (RawStore_Len r) - int (ListStore_Len cache)"
    have ks: "set ?ks = ?R" "distinct ?ks" using ord fin by (auto simp: ord_ok_def)
    have "{k \<in> set ?ks. ListStore_Get cache k = None} = ?R - ?C" using ks by auto
    then have "?d = int (card {k \<in> set ?ks. ListStore_Get cache k = None})"
      using len sub fin finC by (simp add: card_Diff_subset RawStore_Len_def card_mono of_nat_diff)
    moreover obtain r' e where r': "(r', e) =
        fst (condition_range (\<lambda>(s, _). RawStore_Get s) (clean_step cache) ?ks (r, ?d))"
      by (cases "fst (condition_range (\<lambda>(s, _). RawStore_Get s) (clean_step cache) ?ks (r, ?d))") simp
    ultimately have "rs_store r' = (\<lambda>k. if k \<in> set ?ks \<and> ListStore_Get cache k = None then None else rs_store r k) \<and>
        rs_generation r' = rs_generation r \<and> finite (rs_updatedSet r') = finite (rs_updatedSet r)"
      using clean_loop [OF ks(2) _ _ r'] ks(1) by simp
    moreover have "DefaultCleanFunc ord cache r = r'"
      using False by (simp add: DefaultCleanFunc_def RawStore_ConditionRange_def r' [symmetric])
    ultimately show ?thesis using ks(1) by (auto simp: restrict_map_def fun_eq_iff domIff)
  qed
qed

text \<open>What the snapshot knows: an object no newer than its generation, and not changed in the snapshot
  since, has its copy there.\<close>

definition in_sync :: "('a StoredObj \<Rightarrow> 'b StoredObj) \<Rightarrow> 'a ListStoreImpl \<Rightarrow> 'b RawStoreImpl \<Rightarrow> bool" where
  "in_sync cl s r \<longleftrightarrow>
     rs_generation r \<le> ls_generation s \<and> finite (dom (rs_store r)) \<and> finite (rs_updatedSet r) \<and>
     (\<forall>k obj. ListStore_Get s k = Some obj \<longrightarrow> so_generation obj \<le> rs_generation r \<longrightarrow>
        k \<notin> rs_updatedSet r \<longrightarrow> rs_store r k = Some (cl obj))"

lemma copies_copy_func [simp]: "copies (copy_func cl) cl s"
  by (simp add: copies_def copy_func_def)

text \<open>The update before it cleans up: the snapshot has a copy of every object of the cache.\<close>

lemma UpdateRawStore_copies:
  assumes ord: "ord_ok ord" and wf: "walk_ok s kvs" and sync: "in_sync cl s r" and cf: "copies cf cl s"
  shows "\<exists>r3. (\<forall>clean. UpdateRawStore ord s cf clean r = Some (clean r3)) \<and> rs_generation r3 = ls_generation s \<and>
    rs_updatedSet r3 = {} \<and> finite (dom (rs_store r3)) \<and>
    (\<forall>k obj. ListStore_Get s k = Some obj \<longrightarrow> rs_store r3 k = Some (cl obj)) \<and>
    (\<forall>k. ListStore_Get s k = None \<longrightarrow> rs_store r3 k = rs_store r k)"
proof -
  let ?g = "rs_generation r"
  define new where "new = filter (\<lambda>kv. ?g < so_generation (snd kv)) kvs"
  define r1 where "r1 = fold (copy_step cl) new r"
  have kvs: "list_walk (ls_items s) (ls_head s) = Some kvs" "distinct (map fst kvs)" "map_of kvs = ListStore_Get s"
    "falling kvs" using wf by (auto simp: walk_ok_def)
  have cp: "\<forall>kv \<in> set kvs. \<forall>r. cf (fst kv) (snd kv) r = Some (RawStore_Set r (fst kv) (cl (snd kv)))"
    using cf kvs(2) unfolding copies_def kvs(3) [symmetric] by simp
  have walk: "update_walk (ls_items s) ?g cf (ls_head s) r = Some r1"
    unfolding update_walk_eq [OF kvs(1) cp] falling_takeWhile [OF kvs(4)] by (simp add: r1_def new_def)
  have dn: "distinct (map fst new)" using kvs(2) by (simp add: new_def distinct_map_filter)
  have mo: "map_of new k = Some obj \<longleftrightarrow> ListStore_Get s k = Some obj \<and> ?g < so_generation obj" for k obj
    using map_of_eq_Some_iff [OF dn] map_of_eq_Some_iff [OF kvs(2)] kvs(3) by (auto simp: new_def)
  have r1: "rs_store r1 k = (case map_of new k of None \<Rightarrow> rs_store r k | Some obj \<Rightarrow> Some (cl obj))"
    "rs_updatedSet r1 = rs_updatedSet r - fst ` set new" for k
    using fold_copy [OF dn, of cl r] by (simp_all add: r1_def)
  have fin1: "finite (rs_updatedSet r1)" using r1(2) sync by (simp add: in_sync_def)
  obtain r2 where ref: "update_refresh s cf (ord (rs_updatedSet r1)) r1 = Some r2" and
    r2: "\<And>k. rs_store r2 k = (if k \<in> rs_updatedSet r1
      then (case ListStore_Get s k of None \<Rightarrow> rs_store r1 k | Some obj \<Rightarrow> Some (cl obj)) else rs_store r1 k)"
    using update_refresh_spec [OF cf, of "ord (rs_updatedSet r1)" r1] ord fin1 by (auto simp: ord_ok_def)
  have hit: "rs_store r2 k = Some (cl obj)" if k: "ListStore_Get s k = Some obj" for k obj
  proof (cases "?g < so_generation obj")
    case True
    then show ?thesis using mo [of k obj] k by (simp add: r2 r1(1))
  next
    case False
    have n: "map_of new k = None"
    proof (cases "map_of new k")
      case (Some x)
      then show ?thesis using mo [of k x] k False by simp
    qed
    then have "k \<in> rs_updatedSet r1 \<longleftrightarrow> k \<in> rs_updatedSet r" by (auto simp: r1(2) map_of_eq_None_iff)
    then show ?thesis using False k n sync by (auto simp: r2 r1(1) in_sync_def)
  qed
  have miss: "rs_store r2 k = rs_store r k" if k: "ListStore_Get s k = None" for k
  proof (cases "map_of new k")
    case (Some x)
    then show ?thesis using mo [of k x] k by simp
  qed (use k in \<open>simp add: r2 r1(1)\<close>)
  define r3 where "r3 = RawStore_SetGeneration (RawStore_ResetUpdatedSet r2) (ls_generation s)"
  have r3: "rs_store r3 = rs_store r2" "rs_generation r3 = ls_generation s" "rs_updatedSet r3 = {}"
    by (simp_all add: r3_def RawStore_SetGeneration_def RawStore_ResetUpdatedSet_def)
  have "dom (rs_store r2) \<subseteq> dom (rs_store r) \<union> dom (ListStore_Get s)"
    using miss by (metis (no_types, lifting) UnCI domIff subsetI)
  moreover have "finite (dom (ListStore_Get s))" using kvs(3) by (metis finite_dom_map_of)
  ultimately have "finite (dom (rs_store r3))" using sync r3(1) by (simp add: in_sync_def finite_subset)
  moreover have "\<forall>clean. UpdateRawStore ord s cf clean r = Some (clean r3)"
    by (simp add: UpdateRawStore_def walk ref r3_def)
  ultimately show ?thesis using r3 hit miss by (intro exI [of _ r3]) simp
qed

lemma UpdateRawStore_spec:
  assumes ord: "ord_ok ord" and wf: "walk_ok s kvs" and sync: "in_sync cl s r"
  shows "\<exists>r'. UpdateRawStore ord s (copy_func cl) (DefaultCleanFunc ord s) r = Some r' \<and>
     rs_store r' = (\<lambda>k. map_option cl (ListStore_Get s k)) \<and> rs_generation r' = ls_generation s \<and>
     finite (rs_updatedSet r')"
proof -
  obtain r3 where r3: "UpdateRawStore ord s (copy_func cl) (DefaultCleanFunc ord s) r = Some (DefaultCleanFunc ord s r3)"
      "rs_generation r3 = ls_generation s" "rs_updatedSet r3 = {}" "finite (dom (rs_store r3))"
    and hit: "\<And>k obj. ListStore_Get s k = Some obj \<Longrightarrow> rs_store r3 k = Some (cl obj)"
    using UpdateRawStore_copies [OF ord wf sync copies_copy_func] by blast
  have "dom (ListStore_Get s) \<subseteq> dom (rs_store r3)" using hit by auto
  from DefaultCleanFunc_spec [OF ord r3(4) wf this]
  have clean: "rs_store (DefaultCleanFunc ord s r3) = rs_store r3 |` dom (ListStore_Get s)"
     "rs_generation (DefaultCleanFunc ord s r3) = rs_generation r3"
     "finite (rs_updatedSet (DefaultCleanFunc ord s r3)) = finite (rs_updatedSet r3)" by blast+
  have "(rs_store r3 |` dom (ListStore_Get s)) k = map_option cl (ListStore_Get s k)" for k
    using hit [of k] by (cases "ListStore_Get s k") (auto simp: restrict_map_def domIff)
  then show ?thesis using r3 clean by auto
qed

subsection \<open>The contract of a store\<close>

text \<open>The part of the interface \<^verbatim>\<open>Store\<close> its clients rely on: a finite map that may restamp what it stores.
  \<open>room\<close> says that another \<^verbatim>\<open>Set\<close> does not overflow the generation counter.\<close>

locale store_contract =
  fixes inv :: "'s \<Rightarrow> bool" and room :: "'s \<Rightarrow> bool" and get :: "'s \<Rightarrow> key \<Rightarrow> 'a StoredObj option"
    and put :: "'s \<Rightarrow> key \<Rightarrow> 'a StoredObj \<Rightarrow> 's option" and del :: "'s \<Rightarrow> key \<Rightarrow> 's option"
  assumes put_law: "inv s \<Longrightarrow> room s \<Longrightarrow>
      \<exists>s' g. put s k obj = Some s' \<and> inv s' \<and> get s' = (get s)(k \<mapsto> obj\<lparr>so_generation := g\<rparr>)"
    and del_law: "inv s \<Longrightarrow> \<exists>s'. del s k = Some s' \<and> inv s' \<and> get s' = (get s)(k := None) \<and> (room s \<longrightarrow> room s')"
begin

text \<open>Replacing an object by another one, possibly under another key.\<close>

lemma replace_law:
  assumes "inv s" "room s"
  shows "\<exists>s1 s2 g. del s j = Some s1 \<and> put s1 k obj = Some s2 \<and> inv s2 \<and>
     get s2 = (get s)(j := None, k \<mapsto> obj\<lparr>so_generation := g\<rparr>)"
proof -
  obtain s1 where s1: "del s j = Some s1" "inv s1" "get s1 = (get s)(j := None)" "room s1"
    using del_law [OF assms(1), of j] assms(2) by blast
  obtain s2 g where "put s1 k obj = Some s2" "inv s2" "get s2 = (get s1)(k \<mapsto> obj\<lparr>so_generation := g\<rparr>)"
    using put_law [OF s1(2,4)] by blast
  then show ?thesis using s1(1,3) by auto
qed

end

definition ls_inv :: "'a ListStoreImpl \<Rightarrow> bool" where
  "ls_inv s \<longleftrightarrow> (\<exists>as. ls_wf s as) \<and> 0 \<le> ls_generation s"

definition ls_room :: "'a ListStoreImpl \<Rightarrow> bool" where
  "ls_room s \<longleftrightarrow> ls_generation s < 2 ^ 63 - 1"

lemma ls_Set: "ls_inv s \<Longrightarrow> ls_room s \<Longrightarrow>
    \<exists>s'. ListStore_Set s k obj = Some s' \<and> ls_inv s' \<and> ls_generation s' = ls_generation s + 1 \<and>
      ListStore_Get s' = (ListStore_Get s)(k \<mapsto> obj\<lparr>so_generation := ls_generation s + 1\<rparr>)"
  unfolding ls_inv_def ls_room_def using ListStore_Set_spec [of s _ k obj] by fastforce

lemma ls_Delete: "ls_inv s \<Longrightarrow>
    \<exists>s'. ListStore_Delete s k = Some s' \<and> ls_inv s' \<and> ls_generation s' = ls_generation s \<and>
      ListStore_Get s' = (ListStore_Get s)(k := None)"
  unfolding ls_inv_def using ListStore_Delete_spec [of s _ k] by fastforce

interpretation ls: store_contract ls_inv ls_room ListStore_Get ListStore_Set ListStore_Delete
proof
  fix s :: "'a ListStoreImpl" and k obj
  assume "ls_inv s" "ls_room s"
  from ls_Set [OF this] show "\<exists>s' g. ListStore_Set s k obj = Some s' \<and> ls_inv s' \<and>
      ListStore_Get s' = (ListStore_Get s)(k \<mapsto> obj\<lparr>so_generation := g\<rparr>)" by blast
next
  fix s :: "'a ListStoreImpl" and k
  assume "ls_inv s"
  from ls_Delete [OF this, of k] show "\<exists>s'. ListStore_Delete s k = Some s' \<and> ls_inv s' \<and>
      ListStore_Get s' = (ListStore_Get s)(k := None) \<and> (ls_room s \<longrightarrow> ls_room s')"
    by (auto simp: ls_room_def)
qed

interpretation rs: store_contract "\<lambda>s. finite (dom (rs_store s))" "\<lambda>_. True" RawStore_Get
    "\<lambda>s k obj. Some (RawStore_Set s k obj)" "\<lambda>s k. Some (RawStore_Delete s k)"
proof
  fix s :: "'a RawStoreImpl" and k obj
  assume "finite (dom (rs_store s))"
  then show "\<exists>s' g. Some (RawStore_Set s k obj) = Some s' \<and> finite (dom (rs_store s')) \<and>
      RawStore_Get s' = (RawStore_Get s)(k \<mapsto> obj\<lparr>so_generation := g\<rparr>)"
    by (intro exI [of _ "RawStore_Set s k obj"] exI [of _ "so_generation obj"])
      (simp add: RawStore_Set_def RawStore_Get_eq)
qed (simp add: RawStore_Delete_def RawStore_Get_eq)

subsection \<open>The states a cache and its snapshot reach\<close>

text \<open>The cache and the snapshot change on their own, the snapshot through simulated scheduling, and are
  brought together by updates, each with an iteration order of its own.\<close>

inductive gs_reachable :: "('a StoredObj \<Rightarrow> 'b StoredObj) \<Rightarrow> 'a ListStoreImpl \<Rightarrow> 'b RawStoreImpl \<Rightarrow> bool" for cl where
  gs_start: "gs_reachable cl NewListStore NewRawStore"
| gs_cache_set: "gs_reachable cl s r \<Longrightarrow> ls_generation s < 2 ^ 63 - 1 \<Longrightarrow> ListStore_Set s k obj = Some s' \<Longrightarrow>
    gs_reachable cl s' r"
| gs_cache_delete: "gs_reachable cl s r \<Longrightarrow> ListStore_Delete s k = Some s' \<Longrightarrow> gs_reachable cl s' r"
| gs_snapshot_set: "gs_reachable cl s r \<Longrightarrow> gs_reachable cl s (RawStore_Set r k obj')"
| gs_snapshot_delete: "gs_reachable cl s r \<Longrightarrow> gs_reachable cl s (RawStore_Delete r k)"
| gs_update: "gs_reachable cl s r \<Longrightarrow> ord_ok ord \<Longrightarrow>
    UpdateRawStore ord s (copy_func cl) (DefaultCleanFunc ord s) r = Some r' \<Longrightarrow> gs_reachable cl s r'"

lemma ls_inv_walk: "ls_inv s \<Longrightarrow> \<exists>kvs. walk_ok s kvs"
  unfolding ls_inv_def using ls_wf_walk by blast

lemma ls_inv_New [simp]: "ls_inv NewListStore"
  unfolding ls_inv_def using ls_wf_New by (auto simp: NewListStore_def)

lemma ListStore_Get_New [simp]: "ListStore_Get NewListStore = Map.empty"
  by (simp add: ListStore_Get_def NewListStore_def fun_eq_iff)

lemma in_sync_cache_set:
  assumes "in_sync cl s r" "ListStore_Get s' = (ListStore_Get s)(k \<mapsto> obj\<lparr>so_generation := ls_generation s + 1\<rparr>)"
    "ls_generation s' = ls_generation s + 1"
  shows "in_sync cl s' r"
  using assms unfolding in_sync_def by (auto split: if_splits)

lemma gs_reachable_inv: "gs_reachable cl s r \<Longrightarrow> ls_inv s \<and> in_sync cl s r"
proof (induction rule: gs_reachable.induct)
  case gs_start
  then show ?case by (simp add: in_sync_def NewRawStore_def) (simp add: NewListStore_def)
next
  case (gs_cache_set s r k obj s')
  then show ?case using ls_Set [of s k obj] in_sync_cache_set [of cl s r s' k obj] by (auto simp: ls_room_def)
next
  case (gs_cache_delete s r k s')
  then show ?case using ls_Delete [of s k] by (auto simp: in_sync_def split: if_splits)
next
  case (gs_update s r ord r')
  obtain kvs where kvs: "walk_ok s kvs" using gs_update.IH ls_inv_walk by blast
  have "rs_store r' = (\<lambda>k. map_option cl (ListStore_Get s k)) \<and> rs_generation r' = ls_generation s \<and>
      finite (rs_updatedSet r')"
    using UpdateRawStore_spec [OF gs_update.hyps(2) kvs, of cl r] gs_update by auto
  moreover have "finite (dom (ListStore_Get s))" using kvs by (metis finite_dom_map_of walk_ok_def)
  then have "finite (dom (\<lambda>k. map_option cl (ListStore_Get s k)))" by (rule rev_finite_subset) auto
  ultimately show ?case using gs_update.IH by (auto simp: in_sync_def)
qed (auto simp: in_sync_def RawStore_Set_def RawStore_Delete_def)

subsection \<open>Properties\<close>

text \<open>C26. The linked list of a cache in any reachable state is the cache: no operation meets a nil or
  dangling pointer, the walk from the front ends and meets every stored key exactly once with the
  object \<^verbatim>\<open>Get\<close> returns, in strictly falling generations; a \<^verbatim>\<open>Set\<close> succeeds, stamping the object with
  a generation above all others, and a \<^verbatim>\<open>Delete\<close> removes its key and nothing else.\<close>

theorem list_store_walk:
  assumes "gs_reachable cl s r" "ls_generation s < 2 ^ 63 - 1"
  shows "(\<exists>kvs. list_walk (ls_items s) (ls_head s) = Some kvs \<and> distinct (map fst kvs) \<and>
       map_of kvs = ListStore_Get s \<and> ListStore_Len s = length kvs \<and>
       sorted_wrt (\<lambda>x y. so_generation (snd y) < so_generation (snd x)) kvs \<and>
       (\<forall>x\<in>set kvs. so_generation (snd x) \<le> ls_generation s)) \<and>
    (\<exists>s'. ListStore_Set s k obj = Some s' \<and> gs_reachable cl s' r \<and> ls_generation s' = ls_generation s + 1 \<and>
       ListStore_Get s' = (ListStore_Get s)(k \<mapsto> obj\<lparr>so_generation := ls_generation s + 1\<rparr>)) \<and>
    (\<exists>s'. ListStore_Delete s k = Some s' \<and> gs_reachable cl s' r \<and> ls_generation s' = ls_generation s \<and>
       ListStore_Get s' = (ListStore_Get s)(k := None))"
proof -
  have inv: "ls_inv s" using gs_reachable_inv [OF assms(1)] by blast
  have room: "ls_room s" using assms(2) by (simp add: ls_room_def)
  show ?thesis
    using ls_inv_walk [OF inv] ls_Set [OF inv room, of k obj] ls_Delete [OF inv, of k]
      gs_reachable.gs_cache_set [OF assms] gs_reachable.gs_cache_delete [OF assms(1)]
    unfolding walk_ok_def falling_def by metis
qed

definition obj_example :: "nat StoredObj" where
  "obj_example = \<lparr>so_generation = 0, so_obj = 5\<rparr>"

theorem list_store_walk_witness:
  "\<exists>s'. ListStore_Set NewListStore ''a'' obj_example = Some s' \<and> ls_generation s' = 1 \<and>
     ListStore_Get s' ''a'' = Some \<lparr>so_generation = 1, so_obj = 5\<rparr>"
  using list_store_walk [OF gs_reachable.gs_start [of id], of "''a''" obj_example]
  by (auto simp: NewListStore_def obj_example_def)

text \<open>C27. The incremental update of a snapshot is exact. Whatever was set and deleted in the cache and in
  the snapshot before, and whatever the iteration order, \<^verbatim>\<open>UpdateRawStore\<close> with a copying clone function
  and \<^verbatim>\<open>DefaultCleanFunc\<close> ends and leaves the snapshot holding exactly a copy of every object of the
  cache, at the generation of the cache, although it clones only objects newer than the snapshot or
  touched in it.\<close>

theorem update_raw_store_exact:
  assumes "gs_reachable cl s r" "ord_ok ord"
  shows "\<exists>r'. UpdateRawStore ord s (copy_func cl) (DefaultCleanFunc ord s) r = Some r' \<and> gs_reachable cl s r' \<and>
    (\<forall>k. RawStore_Get r' k = map_option cl (ListStore_Get s k)) \<and> rs_generation r' = ls_generation s"
proof -
  have inv: "ls_inv s" "in_sync cl s r" using gs_reachable_inv [OF assms(1)] by auto
  obtain kvs where kvs: "walk_ok s kvs" using ls_inv_walk [OF inv(1)] by blast
  obtain r' where r': "UpdateRawStore ord s (copy_func cl) (DefaultCleanFunc ord s) r = Some r'"
    "rs_store r' = (\<lambda>k. map_option cl (ListStore_Get s k))" "rs_generation r' = ls_generation s"
    using UpdateRawStore_spec [OF assms(2) kvs inv(2)] by blast
  then show ?thesis
    using gs_reachable.gs_update [OF assms r'(1)] by (simp add: RawStore_Get_def)
qed

lemma gs_example:
  "\<exists>s. gs_reachable id s (RawStore_Set NewRawStore ''b'' obj_example) \<and>
     ListStore_Get s = [''a'' \<mapsto> obj_example\<lparr>so_generation := 1\<rparr>]"
proof -
  from ls_Set [OF ls_inv_New, of "''a''" obj_example] obtain s where
    s: "ListStore_Set NewListStore ''a'' obj_example = Some s"
      "ListStore_Get s = (ListStore_Get NewListStore)(''a'' \<mapsto> obj_example\<lparr>so_generation := 1\<rparr>)"
    by (auto simp: ls_room_def NewListStore_def)
  have "gs_reachable id s NewRawStore"
    by (rule gs_reachable.gs_cache_set [OF gs_reachable.gs_start _ s(1)]) (simp add: NewListStore_def)
  then show ?thesis using s(2) gs_reachable.gs_snapshot_set by (intro exI [of _ s]) simp
qed

theorem update_raw_store_exact_witness:
  "\<exists>s r'. UpdateRawStore sorted_list_of_set s (copy_func id) (DefaultCleanFunc sorted_list_of_set s)
       (RawStore_Set NewRawStore ''b'' obj_example) = Some r' \<and>
     RawStore_Get r' ''a'' = Some \<lparr>so_generation = 1, so_obj = 5\<rparr> \<and> RawStore_Get r' ''b'' = None"
proof -
  obtain s where s: "gs_reachable id s (RawStore_Set NewRawStore ''b'' obj_example)"
    "ListStore_Get s = [''a'' \<mapsto> obj_example\<lparr>so_generation := 1\<rparr>]" using gs_example by blast
  obtain r' where "UpdateRawStore sorted_list_of_set s (copy_func id) (DefaultCleanFunc sorted_list_of_set s)
       (RawStore_Set NewRawStore ''b'' obj_example) = Some r'" "\<forall>k. RawStore_Get r' k = map_option id (ListStore_Get s k)"
    using update_raw_store_exact [OF s(1) ord_ok_sorted] by blast
  then show ?thesis using s(2) by (intro exI [of _ s] exI [of _ r']) (simp add: obj_example_def)
qed

end
