(* ===== verification/Pod_Group_Store.thy ===== *)
theory Pod_Group_Store
  imports Generation_Store Schedule_Unit
begin

section \<open>The pod group store (pkg/scheduler/cache/commonstores/podgroup_store)\<close>

text \<open>
  The store of pod groups, as every store of the scheduler cache, exists twice: as a cache over a
  \<^verbatim>\<open>ListStore\<close> and as a snapshot over a \<^verbatim>\<open>RawStore\<close>. Its field is the interface \<^verbatim>\<open>generationstore.Store\<close>,
  modelled by the sum \<open>generation_store\<close> of the two; \<^verbatim>\<open>TransferGenerationStore\<close> panics where the dynamic
  types are not those it asserts. A stored group is a \<^verbatim>\<open>GenerationPodGroupImpl\<close>, a pointer to a pod group
  with a generation; its clone shares the pointer, and nothing changes a stored group in place.
\<close>

datatype 'a generation_store = ListS "'a ListStoreImpl" | RawS "'a RawStoreImpl"

fun store_Get :: "'a generation_store \<Rightarrow> key \<Rightarrow> 'a StoredObj option" where
  "store_Get (ListS s) k = ListStore_Get s k"
| "store_Get (RawS s) k = RawStore_Get s k"

fun store_Set :: "'a generation_store \<Rightarrow> key \<Rightarrow> 'a StoredObj \<Rightarrow> 'a generation_store option" where
  "store_Set (ListS s) k obj = map_option ListS (ListStore_Set s k obj)"
| "store_Set (RawS s) k obj = Some (RawS (RawStore_Set s k obj))"

fun store_Delete :: "'a generation_store \<Rightarrow> key \<Rightarrow> 'a generation_store option" where
  "store_Delete (ListS s) k = map_option ListS (ListStore_Delete s k)"
| "store_Delete (RawS s) k = Some (RawS (RawStore_Delete s k))"

fun TransferGenerationStore ::
  "'a generation_store \<Rightarrow> 'a generation_store \<Rightarrow> ('a ListStoreImpl \<times> 'a RawStoreImpl) option" where
  "TransferGenerationStore (ListS c) (RawS s) = Some (c, s)"
| "TransferGenerationStore _ _ = None"

subsection \<open>Stored pod groups\<close>

type_synonym GenerationPodGroup = "PodGroup option StoredObj"

definition NewGenerationPodGroup :: "PodGroup option \<Rightarrow> GenerationPodGroup" where
  "NewGenerationPodGroup pg = \<lparr>so_generation = 0, so_obj = pg\<rparr>"

definition GenerationPodGroup_Clone :: "GenerationPodGroup \<Rightarrow> GenerationPodGroup" where
  "GenerationPodGroup_Clone i = \<lparr>so_generation = so_generation i, so_obj = so_obj i\<rparr>"

definition GetPodGroupKey :: "PodGroup \<Rightarrow> key" where
  "GetPodGroupKey pg = pg_Namespace pg @ ''/'' @ pg_Name pg"

subsection \<open>The store\<close>

type_synonym PodGroupStore = "PodGroup option generation_store"

definition pgs_NewCache :: PodGroupStore where
  "pgs_NewCache = ListS NewListStore"

definition pgs_NewSnapshot :: PodGroupStore where
  "pgs_NewSnapshot = RawS NewRawStore"

definition AddPodGroup :: "PodGroupStore \<Rightarrow> PodGroup \<Rightarrow> PodGroupStore option" where
  "AddPodGroup s pg = store_Set s (GetPodGroupKey pg) (NewGenerationPodGroup (Some pg))"

definition DeletePodGroup :: "PodGroupStore \<Rightarrow> PodGroup \<Rightarrow> PodGroupStore option" where
  "DeletePodGroup s pg = store_Delete s (GetPodGroupKey pg)"

definition UpdatePodGroup :: "PodGroupStore \<Rightarrow> PodGroup \<Rightarrow> PodGroup \<Rightarrow> PodGroupStore option" where
  "UpdatePodGroup s oldPodGroup newPodGroup =
     do { s1 \<leftarrow> DeletePodGroup s oldPodGroup; AddPodGroup s1 newPodGroup }"

text \<open>The snapshot after \<^verbatim>\<open>UpdateSnapshot\<close>; the cache is not changed.\<close>

definition pgs_UpdateSnapshot ::
  "(key set \<Rightarrow> key list) \<Rightarrow> PodGroupStore \<Rightarrow> PodGroupStore \<Rightarrow> PodGroupStore option" where
  "pgs_UpdateSnapshot ord s store =
     do { (cache, snapshot) \<leftarrow> TransferGenerationStore s store;
          r \<leftarrow> UpdateRawStore ord cache
                 (\<lambda>k obj snap. Some (RawStore_Set snap k (GenerationPodGroup_Clone obj)))
                 (DefaultCleanFunc ord cache) snapshot;
          Some (RawS r) }"

definition GetPodGroupInfo :: "PodGroupStore \<Rightarrow> key \<Rightarrow> PodGroup option" where
  "GetPodGroupInfo s podGroupName =
     (case store_Get s podGroupName of
        None \<Rightarrow> None
      | Some pgObj \<Rightarrow> (case so_obj pgObj of None \<Rightarrow> None | Some pg \<Rightarrow> Some pg))"

subsection \<open>The contract, for either kind of store\<close>

fun store_inv :: "'a generation_store \<Rightarrow> bool" where
  "store_inv (ListS s) = ls_inv s"
| "store_inv (RawS s) = finite (dom (rs_store s))"

fun store_room :: "'a generation_store \<Rightarrow> bool" where
  "store_room (ListS s) = ls_room s"
| "store_room (RawS s) = True"

interpretation gst: store_contract store_inv store_room store_Get store_Set store_Delete
proof
  fix s :: "'a generation_store" and k obj
  assume "store_inv s" "store_room s"
  then show "\<exists>s' g. store_Set s k obj = Some s' \<and> store_inv s' \<and>
      store_Get s' = (store_Get s)(k \<mapsto> obj\<lparr>so_generation := g\<rparr>)"
  proof (cases s)
    case (ListS l)
    then show ?thesis using ls.put_law [of l k obj] \<open>store_inv s\<close> \<open>store_room s\<close> by (fastforce simp: fun_eq_iff)
  next
    case (RawS r)
    then show ?thesis using rs.put_law [of r k obj] \<open>store_inv s\<close> by (fastforce simp: fun_eq_iff)
  qed
next
  fix s :: "'a generation_store" and k
  assume "store_inv s"
  then show "\<exists>s'. store_Delete s k = Some s' \<and> store_inv s' \<and>
      store_Get s' = (store_Get s)(k := None) \<and> (store_room s \<longrightarrow> store_room s')"
  proof (cases s)
    case (ListS l)
    then show ?thesis using ls.del_law [of l k] \<open>store_inv s\<close> by (fastforce simp: fun_eq_iff)
  next
    case (RawS r)
    then show ?thesis using rs.del_law [of r k] \<open>store_inv s\<close> by (fastforce simp: fun_eq_iff)
  qed
qed

lemma GetPodGroupInfo_Get: "GetPodGroupInfo s k = Option.bind (store_Get s k) so_obj"
  by (auto simp: GetPodGroupInfo_def split: option.split)

subsection \<open>Properties\<close>

text \<open>In a pod group store, cache or snapshot, \<^verbatim>\<open>UpdatePodGroup\<close> makes the new group found under its
  key, makes the old key unknown if it is another one, and leaves every other group alone.\<close>

theorem pod_group_update:
  assumes "store_inv s" "store_room s"
  shows "\<exists>s'. UpdatePodGroup s old new = Some s' \<and> store_inv s' \<and>
    (\<forall>k. GetPodGroupInfo s' k =
       (if k = GetPodGroupKey new then Some new
        else if k = GetPodGroupKey old then None else GetPodGroupInfo s k))"
proof -
  obtain s1 s2 g where "store_Delete s (GetPodGroupKey old) = Some s1"
    "store_Set s1 (GetPodGroupKey new) (NewGenerationPodGroup (Some new)) = Some s2" "store_inv s2"
    "store_Get s2 = (store_Get s)(GetPodGroupKey old := None,
        GetPodGroupKey new \<mapsto> (NewGenerationPodGroup (Some new))\<lparr>so_generation := g\<rparr>)"
    using gst.replace_law [OF assms] by blast
  then show ?thesis
    by (intro exI [of _ s2])
      (simp add: UpdatePodGroup_def DeletePodGroup_def AddPodGroup_def GetPodGroupInfo_Get NewGenerationPodGroup_def)
qed

theorem pod_group_update_witness:
  "\<exists>s'. UpdatePodGroup pgs_NewCache group_example (group_example\<lparr>pg_MinMember := 9\<rparr>) = Some s' \<and>
     GetPodGroupInfo s' (GetPodGroupKey group_example) = Some (group_example\<lparr>pg_MinMember := 9\<rparr>)"
proof -
  let ?new = "group_example\<lparr>pg_MinMember := 9\<rparr>"
  have "store_inv pgs_NewCache" "store_room pgs_NewCache"
    by (simp_all add: pgs_NewCache_def ls_room_def) (simp add: NewListStore_def)
  from pod_group_update [OF this, of group_example ?new] obtain s' where
    "UpdatePodGroup pgs_NewCache group_example ?new = Some s'" "GetPodGroupInfo s' (GetPodGroupKey ?new) = Some ?new"
    by auto
  moreover have "GetPodGroupKey ?new = GetPodGroupKey group_example" by (simp add: GetPodGroupKey_def)
  ultimately show ?thesis by metis
qed

text \<open>After \<^verbatim>\<open>UpdateSnapshot\<close> the snapshot answers every pod group lookup as the cache does, whatever
  happened to either before.\<close>

theorem pod_group_snapshot_agrees:
  assumes "gs_reachable GenerationPodGroup_Clone c r" "ord_ok ord"
  shows "\<exists>s'. pgs_UpdateSnapshot ord (ListS c) (RawS r) = Some s' \<and>
    (\<forall>k. GetPodGroupInfo s' k = GetPodGroupInfo (ListS c) k)"
proof -
  have cf: "(\<lambda>k obj snap. Some (RawStore_Set snap k (GenerationPodGroup_Clone obj))) = copy_func GenerationPodGroup_Clone"
    by (simp add: copy_func_def fun_eq_iff)
  obtain kvs where "walk_ok c kvs" "in_sync GenerationPodGroup_Clone c r"
    using gs_reachable_inv [OF assms(1)] ls_inv_walk by blast
  from UpdateRawStore_spec [OF assms(2) this] obtain r' where
    r': "UpdateRawStore ord c (copy_func GenerationPodGroup_Clone) (DefaultCleanFunc ord c) r = Some r'"
      "rs_store r' = (\<lambda>k. map_option GenerationPodGroup_Clone (ListStore_Get c k))"
    by blast
  have "GetPodGroupInfo (RawS r') k = GetPodGroupInfo (ListS c) k" for k
    by (cases "ListStore_Get c k")
      (simp_all add: GetPodGroupInfo_Get RawStore_Get_def r'(2) GenerationPodGroup_Clone_def)
  then show ?thesis using r'(1) by (simp add: pgs_UpdateSnapshot_def cf)
qed

theorem pod_group_snapshot_agrees_witness:
  "\<exists>s'. pgs_UpdateSnapshot sorted_list_of_set pgs_NewCache pgs_NewSnapshot = Some s' \<and>
     GetPodGroupInfo s' (GetPodGroupKey group_example) = None"
  using pod_group_snapshot_agrees [OF gs_reachable.gs_start ord_ok_sorted]
  by (auto simp: pgs_NewCache_def pgs_NewSnapshot_def GetPodGroupInfo_Get)

end
