(* ===== verification/Resources.thy ===== *)
theory Resources
  imports Pods "HOL-Library.Word" "HOL-Library.AList" "HOL-Library.Sublist"
begin

section \<open>Resources and host ports (pkg/framework/api/types.go, pkg/util/non_zero.go, pkg/util/helper/helpers.go)\<close>

text \<open>
  A \<^verbatim>\<open>Resource\<close> holds \<^verbatim>\<open>int64\<close> amounts, modelled as 64-bit words, so sums wrap as they do in Go; they are
  compared as signed numbers. A \<^verbatim>\<open>ResourceList\<close> is a map from names to quantities in thousandths. A loop
  over a map touches every key once, so it is written pointwise. A nil \<^verbatim>\<open>ScalarResources\<close> map reads as an
  empty one everywhere and is not told apart from it.

  The feature gates are the parameter \<open>res_cfg\<close>.
\<close>

subsection \<open>Names of resources\<close>

definition strings_Contains :: "string \<Rightarrow> string \<Rightarrow> bool" where "strings_Contains s sub = sublist sub s"

definition IsPrefixedNativeResource :: "string \<Rightarrow> bool" where
  "IsPrefixedNativeResource name = strings_Contains name ''kubernetes.io/''"

definition IsNativeResource :: "string \<Rightarrow> bool" where
  "IsNativeResource name = (\<not> strings_Contains name ''/'' \<or> IsPrefixedNativeResource name)"

definition IsExtendedResourceName :: "string \<Rightarrow> bool" where
  "IsExtendedResourceName name = (if IsNativeResource name \<or> prefix ''requests.'' name then False else True)"

definition IsHugePageResourceName :: "string \<Rightarrow> bool" where
  "IsHugePageResourceName name = prefix ''hugepages-'' name"

definition IsAttachableVolumeResourceName :: "string \<Rightarrow> bool" where
  "IsAttachableVolumeResourceName name = prefix ''attachable-volumes-'' name"

definition IsOvercommitAllowed :: "string \<Rightarrow> bool" where
  "IsOvercommitAllowed name = (IsNativeResource name \<and> \<not> IsHugePageResourceName name)"

definition IsScalarResourceName :: "string \<Rightarrow> bool" where
  "IsScalarResourceName name =
     (IsExtendedResourceName name \<or> IsHugePageResourceName name \<or> IsPrefixedNativeResource name \<or> IsAttachableVolumeResourceName name)"

lemmas resource_name_defs = strings_Contains_def IsPrefixedNativeResource_def IsNativeResource_def IsExtendedResourceName_def
  IsHugePageResourceName_def IsAttachableVolumeResourceName_def IsScalarResourceName_def

subsection \<open>Amounts\<close>

type_synonym int64 = "64 word"
type_synonym ResourceList = "string \<rightharpoonup> int"

record res_cfg =
  rc_LocalStorageCapacityIsolation :: bool
  rc_PodOverhead :: bool
  rc_ResourceReservation :: bool

record Resource =
  r_MilliCPU :: int64
  r_Memory :: int64
  r_EphemeralStorage :: int64
  r_AllowedPodNumber :: int64
  r_ScalarResources :: "string \<rightharpoonup> int64"

definition zero_Resource :: Resource where
  "zero_Resource = \<lparr>r_MilliCPU = 0, r_Memory = 0, r_EphemeralStorage = 0, r_AllowedPodNumber = 0, r_ScalarResources = Map.empty\<rparr>"

text \<open>Reading a missing name of a map yields zero; a quantity is read with \<^verbatim>\<open>MilliValue\<close> for the CPU and with
  \<^verbatim>\<open>Value\<close> otherwise.\<close>

definition lookup0 :: "('k \<rightharpoonup> 'v::zero) \<Rightarrow> 'k \<Rightarrow> 'v" where
  "lookup0 m k = (case m k of None \<Rightarrow> 0 | Some v \<Rightarrow> v)"

definition rl_milli :: "ResourceList \<Rightarrow> string \<Rightarrow> int64" where
  "rl_milli rl k = (case rl k of None \<Rightarrow> 0 | Some q \<Rightarrow> of_int q)"

definition rl_value :: "ResourceList \<Rightarrow> string \<Rightarrow> int64" where
  "rl_value rl k = (case rl k of None \<Rightarrow> 0 | Some q \<Rightarrow> of_int (quantity_Value q))"

text \<open>The names the \<^verbatim>\<open>default\<close> branch of the loops handles.\<close>

definition native_names :: "string list" where
  "native_names = [''cpu'', ''memory'', ''pods'', ''ephemeral-storage'']"

definition SetScalar :: "Resource \<Rightarrow> string \<Rightarrow> int64 \<Rightarrow> Resource" where
  "SetScalar r name quantity = r\<lparr>r_ScalarResources := (r_ScalarResources r)(name \<mapsto> quantity)\<rparr>"

definition AddScalar :: "Resource \<Rightarrow> string \<Rightarrow> int64 \<Rightarrow> Resource" where
  "AddScalar r name quantity = SetScalar r name (lookup0 (r_ScalarResources r) name + quantity)"

text \<open>\<^verbatim>\<open>Add\<close> and \<^verbatim>\<open>Sub\<close> of a list; \<open>sg\<close> is 1 or -1.\<close>

definition add_signed :: "res_cfg \<Rightarrow> int64 \<Rightarrow> Resource \<Rightarrow> ResourceList \<Rightarrow> Resource" where
  "add_signed cfg sg r rl =
     r\<lparr>r_MilliCPU := r_MilliCPU r + sg * rl_milli rl ''cpu'',
       r_Memory := r_Memory r + sg * rl_value rl ''memory'',
       r_AllowedPodNumber := r_AllowedPodNumber r + sg * rl_value rl ''pods'',
       r_EphemeralStorage :=
         (if rc_LocalStorageCapacityIsolation cfg then r_EphemeralStorage r + sg * rl_value rl ''ephemeral-storage''
          else r_EphemeralStorage r),
       r_ScalarResources :=
         (\<lambda>name. if rl name \<noteq> None \<and> name \<notin> set native_names \<and> IsScalarResourceName name
                 then Some (lookup0 (r_ScalarResources r) name + sg * rl_value rl name)
                 else r_ScalarResources r name)\<rparr>"

definition Resource_Add :: "res_cfg \<Rightarrow> Resource \<Rightarrow> ResourceList \<Rightarrow> Resource" where
  "Resource_Add cfg r rl = add_signed cfg 1 r rl"

definition Resource_Sub :: "res_cfg \<Rightarrow> Resource \<Rightarrow> ResourceList \<Rightarrow> Resource" where
  "Resource_Sub cfg r rl = add_signed cfg (- 1) r rl"

definition NewResource :: "res_cfg \<Rightarrow> ResourceList \<Rightarrow> Resource" where
  "NewResource cfg rl = Resource_Add cfg zero_Resource rl"

definition NewResourceFromPtr :: "res_cfg \<Rightarrow> ResourceList option \<Rightarrow> Resource" where
  "NewResourceFromPtr cfg rl = (case rl of None \<Rightarrow> zero_Resource | Some l \<Rightarrow> NewResource cfg l)"

definition getScalarResourceQuantity :: "res_cfg \<Rightarrow> Resource \<Rightarrow> string \<Rightarrow> int64 \<times> bool" where
  "getScalarResourceQuantity cfg r name =
     (if \<not> IsScalarResourceName name then (0, False)
      else (case r_ScalarResources r name of Some q \<Rightarrow> (q, True) | None \<Rightarrow> (0, False)))"

definition AddResource :: "res_cfg \<Rightarrow> Resource option \<Rightarrow> Resource option \<Rightarrow> Resource option" where
  "AddResource cfg ro o' =
     (case ro of
        None \<Rightarrow> None
      | Some r \<Rightarrow>
          (case o' of
             None \<Rightarrow> Some r
           | Some s \<Rightarrow>
               Some (r\<lparr>r_MilliCPU := r_MilliCPU r + r_MilliCPU s,
                       r_Memory := r_Memory r + r_Memory s,
                       r_AllowedPodNumber := r_AllowedPodNumber r + r_AllowedPodNumber s,
                       r_EphemeralStorage :=
                         (if rc_LocalStorageCapacityIsolation cfg then r_EphemeralStorage r + r_EphemeralStorage s
                          else r_EphemeralStorage r),
                       r_ScalarResources :=
                         (\<lambda>name. case r_ScalarResources s name of
                                   None \<Rightarrow> r_ScalarResources r name
                                 | Some q \<Rightarrow>
                                     (case getScalarResourceQuantity cfg r name of
                                        (quant, ok) \<Rightarrow> if ok then Some (q + quant) else Some q))\<rparr>)))"

definition SubResource :: "res_cfg \<Rightarrow> Resource option \<Rightarrow> Resource option \<Rightarrow> Resource option" where
  "SubResource cfg ro o' =
     (case ro of
        None \<Rightarrow> None
      | Some r \<Rightarrow>
          (case o' of
             None \<Rightarrow> Some r
           | Some s \<Rightarrow>
               Some (r\<lparr>r_MilliCPU := r_MilliCPU r - r_MilliCPU s,
                       r_Memory := r_Memory r - r_Memory s,
                       r_AllowedPodNumber := r_AllowedPodNumber r - r_AllowedPodNumber s,
                       r_EphemeralStorage :=
                         (if rc_LocalStorageCapacityIsolation cfg then r_EphemeralStorage r - r_EphemeralStorage s
                          else r_EphemeralStorage r),
                       r_ScalarResources :=
                         (\<lambda>name. case r_ScalarResources s name of
                                   None \<Rightarrow> r_ScalarResources r name
                                 | Some q \<Rightarrow> Some (fst (getScalarResourceQuantity cfg r name) - q))\<rparr>)))"

definition Resource_Clone :: "Resource \<Rightarrow> Resource" where
  "Resource_Clone r =
     \<lparr>r_MilliCPU = r_MilliCPU r, r_Memory = r_Memory r, r_EphemeralStorage = r_EphemeralStorage r,
      r_AllowedPodNumber = r_AllowedPodNumber r, r_ScalarResources = (\<lambda>k. r_ScalarResources r k)\<rparr>"

text \<open>\<^verbatim>\<open>SetMaxResource\<close> and \<^verbatim>\<open>SetMinResource\<close>: \<open>better new old\<close> says whether the new value replaces the old one.\<close>

definition pick :: "(int64 \<Rightarrow> int64 \<Rightarrow> bool) \<Rightarrow> ResourceList \<Rightarrow> string \<Rightarrow> int64 \<Rightarrow> int64 \<Rightarrow> int64" where
  "pick better rl name new old = (if rl name \<noteq> None \<and> better new old then new else old)"

definition set_extreme :: "(int64 \<Rightarrow> int64 \<Rightarrow> bool) \<Rightarrow> res_cfg \<Rightarrow> Resource \<Rightarrow> ResourceList \<Rightarrow> Resource" where
  "set_extreme better cfg r rl =
     r\<lparr>r_Memory := pick better rl ''memory'' (rl_value rl ''memory'') (r_Memory r),
       r_MilliCPU := pick better rl ''cpu'' (rl_milli rl ''cpu'') (r_MilliCPU r),
       r_EphemeralStorage := pick better rl ''ephemeral-storage'' (rl_value rl ''ephemeral-storage'') (r_EphemeralStorage r),
       r_ScalarResources :=
         (\<lambda>name. if rl name \<noteq> None \<and> name \<notin> {''memory'', ''cpu'', ''ephemeral-storage''} \<and> IsScalarResourceName name \<and>
                    better (rl_value rl name) (lookup0 (r_ScalarResources r) name)
                 then Some (rl_value rl name) else r_ScalarResources r name)\<rparr>"

definition SetMaxResource :: "res_cfg \<Rightarrow> Resource \<Rightarrow> ResourceList \<Rightarrow> Resource" where
  "SetMaxResource = set_extreme (\<lambda>new old. sint old < sint new)"

definition SetMinResource :: "res_cfg \<Rightarrow> Resource \<Rightarrow> ResourceList \<Rightarrow> Resource" where
  "SetMinResource = set_extreme (\<lambda>new old. sint new < sint old)"

text \<open>The loop of \<^verbatim>\<open>Satisfy\<close> runs over the names of the available scalar resources; \<open>names\<close> lists them.\<close>

definition Satisfy :: "res_cfg \<Rightarrow> string list \<Rightarrow> Resource option \<Rightarrow> Resource option \<Rightarrow> bool" where
  "Satisfy cfg names ro request =
     (let r = (case ro of None \<Rightarrow> zero_Resource | Some r \<Rightarrow> r) in
      case request of
        None \<Rightarrow> True
      | Some q \<Rightarrow>
          if 0 < sint (r_MilliCPU q) \<and> sint (r_MilliCPU r) < sint (r_MilliCPU q) then False
          else if 0 < sint (r_Memory q) \<and> sint (r_Memory r) < sint (r_Memory q) then False
          else if rc_LocalStorageCapacityIsolation cfg \<and>
                  0 < sint (r_EphemeralStorage q) \<and> sint (r_EphemeralStorage r) < sint (r_EphemeralStorage q) then False
          else list_all (\<lambda>name. \<not> (0 < sint (lookup0 (r_ScalarResources q) name) \<and>
                                   sint (lookup0 (r_ScalarResources r) name) < sint (lookup0 (r_ScalarResources q) name))) names)"

definition Resource_IsZero :: "string list \<Rightarrow> Resource \<Rightarrow> bool" where
  "Resource_IsZero names r =
     (r_MilliCPU r = 0 \<and> r_Memory r = 0 \<and> r_EphemeralStorage r = 0 \<and> length names = 0)"

subsection \<open>The request of a pod\<close>

text \<open>The parts of a \<^verbatim>\<open>v1.Pod\<close> only the node cache reads: the overhead, the host ports of the containers as
  (host IP, protocol, host port), whether a pod affinity is set, the number of required terms of the pod
  anti-affinity, if it is set, the start time and the tolerations.\<close>

record taint =
  taint_Key :: string
  taint_Value :: string
  taint_Effect :: string

record toleration =
  tol_Key :: string
  tol_Operator :: string
  tol_Value :: string
  tol_Effect :: string

record v1pod = pod +
  pod_Overhead :: "ResourceList option"
  pod_Ports :: "(string \<times> string \<times> int) list"
  pod_HasPodAffinity :: bool
  pod_AntiAffinity :: "nat option"
  pod_StartTime :: "time option"
  pod_Tolerations :: "toleration list"

definition GetNonzeroRequests :: "ResourceList \<Rightarrow> int64 \<times> int64" where
  "GetNonzeroRequests requests =
     ((case requests ''cpu'' of None \<Rightarrow> 100 | Some q \<Rightarrow> of_int q),
      (case requests ''memory'' of None \<Rightarrow> 200 * 1024 * 1024 | Some q \<Rightarrow> of_int (quantity_Value q)))"

definition calc_container :: "res_cfg \<Rightarrow> ResourceList \<Rightarrow> Resource \<times> int64 \<times> int64 \<Rightarrow> Resource \<times> int64 \<times> int64" where
  "calc_container cfg c st =
     (case st of (res, cpu, mem) \<Rightarrow>
        (Resource_Add cfg res c, cpu + fst (GetNonzeroRequests c), mem + snd (GetNonzeroRequests c)))"

definition calc_init :: "res_cfg \<Rightarrow> ResourceList \<Rightarrow> Resource \<times> int64 \<times> int64 \<Rightarrow> Resource \<times> int64 \<times> int64" where
  "calc_init cfg ic st =
     (case st of (res, cpu, mem) \<Rightarrow>
        (SetMaxResource cfg res ic,
         (if sint cpu < sint (fst (GetNonzeroRequests ic)) then fst (GetNonzeroRequests ic) else cpu),
         (if sint mem < sint (snd (GetNonzeroRequests ic)) then snd (GetNonzeroRequests ic) else mem)))"

definition calc_overhead :: "res_cfg \<Rightarrow> ResourceList option \<Rightarrow> Resource \<times> int64 \<times> int64 \<Rightarrow> Resource \<times> int64 \<times> int64" where
  "calc_overhead cfg ov st =
     (case ov of
        None \<Rightarrow> st
      | Some rl \<Rightarrow>
          if rc_PodOverhead cfg then
            (case st of (res, cpu, mem) \<Rightarrow>
               (Resource_Add cfg res rl,
                (if rl ''cpu'' \<noteq> None then cpu + rl_milli rl ''cpu'' else cpu),
                (if rl ''memory'' \<noteq> None then mem + rl_value rl ''memory'' else mem)))
          else st)"

definition CalculateResource :: "res_cfg \<Rightarrow> v1pod \<Rightarrow> Resource \<times> int64 \<times> int64" where
  "CalculateResource cfg p =
     calc_overhead cfg (pod_Overhead p)
       (fold (calc_init cfg) (pod_InitRequests p) (fold (calc_container cfg) (pod_Requests p) (zero_Resource, 0, 0)))"

subsection \<open>Host ports\<close>

definition DefaultBindAllHostIP :: string where "DefaultBindAllHostIP = ''0.0.0.0''"
definition ProtocolTCP :: string where "ProtocolTCP = ''TCP''"

type_synonym ProtocolPort = "string \<times> int"

definition NewProtocolPort :: "string \<Rightarrow> int \<Rightarrow> ProtocolPort" where
  "NewProtocolPort protocol port = (if length protocol = 0 then (ProtocolTCP, port) else (protocol, port))"

text \<open>A Go map from addresses to sets; the order of the list is not observable.\<close>

type_synonym HostPortInfo = "(string \<times> ProtocolPort set) list"

definition sanitize :: "string \<times> string \<Rightarrow> string \<times> string" where
  "sanitize x =
     (case x of (ip, protocol) \<Rightarrow>
        (if length ip = 0 then DefaultBindAllHostIP else ip, if length protocol = 0 then ProtocolTCP else protocol))"

definition HostPortInfo_Add :: "HostPortInfo \<Rightarrow> string \<Rightarrow> string \<Rightarrow> int \<Rightarrow> HostPortInfo" where
  "HostPortInfo_Add h ip0 protocol0 port =
     (if port \<le> 0 then h
      else
        (case sanitize (ip0, protocol0) of (ip, protocol) \<Rightarrow>
           (case map_of h ip of
              None \<Rightarrow> AList.update ip {NewProtocolPort protocol port} h
            | Some m \<Rightarrow> AList.update ip (insert (NewProtocolPort protocol port) m) h)))"

definition HostPortInfo_Remove :: "HostPortInfo \<Rightarrow> string \<Rightarrow> string \<Rightarrow> int \<Rightarrow> HostPortInfo" where
  "HostPortInfo_Remove h ip0 protocol0 port =
     (if port \<le> 0 then h
      else
        (case sanitize (ip0, protocol0) of (ip, protocol) \<Rightarrow>
           (case map_of h ip of
              None \<Rightarrow> h
            | Some m \<Rightarrow>
                (let m' = m - {NewProtocolPort protocol port}; h' = AList.update ip m' h in
                 if m' = {} then AList.delete ip h' else h'))))"

definition HostPortInfo_Len :: "HostPortInfo \<Rightarrow> nat" where
  "HostPortInfo_Len h = sum_list (map (\<lambda>(ip, m). card m) h)"

definition CheckConflict :: "HostPortInfo \<Rightarrow> string \<Rightarrow> string \<Rightarrow> int \<Rightarrow> bool" where
  "CheckConflict h ip0 protocol0 port =
     (if port \<le> 0 then False
      else
        (case sanitize (ip0, protocol0) of (ip, protocol) \<Rightarrow>
           (let pp = NewProtocolPort protocol port in
            if ip = DefaultBindAllHostIP then list_ex (\<lambda>(k, m). pp \<in> m) h
            else list_ex (\<lambda>key. case map_of h key of None \<Rightarrow> False | Some m \<Rightarrow> pp \<in> m) [DefaultBindAllHostIP, ip])))"

subsection \<open>Properties\<close>

text \<open>The occupied (address, protocol, port) triples.\<close>

definition used :: "HostPortInfo \<Rightarrow> (string \<times> ProtocolPort) set" where
  "used h = {(ip, pp) |ip pp m. map_of h ip = Some m \<and> pp \<in> m}"

definition ports_ok :: "HostPortInfo \<Rightarrow> bool" where
  "ports_ok h = (distinct (map fst h) \<and> (\<forall>m \<in> snd ` set h. m \<noteq> {} \<and> finite m))"

definition sets_ok :: "(string \<rightharpoonup> ProtocolPort set) \<Rightarrow> bool" where
  "sets_ok f = (\<forall>ip m. f ip = Some m \<longrightarrow> m \<noteq> {} \<and> finite m)"

lemma ports_ok_map_of: "ports_ok h \<longleftrightarrow> distinct (map fst h) \<and> sets_ok (map_of h)"
proof -
  have "(\<forall>m \<in> snd ` set h. m \<noteq> {} \<and> finite m) \<longleftrightarrow> (\<forall>ip m. (ip, m) \<in> set h \<longrightarrow> m \<noteq> {} \<and> finite m)" by force
  then show ?thesis unfolding ports_ok_def sets_ok_def using map_of_eq_Some_iff [of h] by (cases "distinct (map fst h)") simp_all
qed

lemma used_iff: "x \<in> used h \<longleftrightarrow> (case map_of h (fst x) of None \<Rightarrow> False | Some m \<Rightarrow> snd x \<in> m)"
  by (cases x) (auto simp: used_def split: option.splits)

text \<open>The triple a call is about.\<close>

definition triple :: "string \<Rightarrow> string \<Rightarrow> int \<Rightarrow> string \<times> ProtocolPort" where
  "triple ip protocol port =
     (fst (sanitize (ip, protocol)), NewProtocolPort (snd (sanitize (ip, protocol))) port)"

lemma HostPortInfo_Add_map:
  assumes "0 < port" and "triple ip protocol port = (i, pp)"
  shows "map_of (HostPortInfo_Add h ip protocol port) = (map_of h)(i \<mapsto> insert pp (case map_of h i of None \<Rightarrow> {} | Some m \<Rightarrow> m))"
  using assms by (auto simp: HostPortInfo_Add_def triple_def update_conv' split: prod.splits option.splits)

lemma HostPortInfo_Remove_map:
  assumes "0 < port" and "triple ip protocol port = (i, pp)" and "distinct (map fst h)"
  shows "map_of (HostPortInfo_Remove h ip protocol port) =
    (case map_of h i of None \<Rightarrow> map_of h | Some m \<Rightarrow> (map_of h)(i := if m - {pp} = {} then None else Some (m - {pp})))"
  using assms(1,2)
  by (cases "map_of h i"; cases "the (map_of h i) \<subseteq> {pp}")
    (auto simp: HostPortInfo_Remove_def triple_def update_conv' delete_conv' Let_def split: prod.splits)

lemma HostPortInfo_distinct:
  "distinct (map fst h) \<Longrightarrow> distinct (map fst (HostPortInfo_Add h ip protocol port))"
  "distinct (map fst h) \<Longrightarrow> distinct (map fst (HostPortInfo_Remove h ip protocol port))"
  by (auto simp: HostPortInfo_Add_def HostPortInfo_Remove_def Let_def distinct_update distinct_delete split: prod.splits option.splits)

lemma HostPortInfo_Add_used:
  assumes "ports_ok h"
  shows "ports_ok (HostPortInfo_Add h ip protocol port) \<and>
    used (HostPortInfo_Add h ip protocol port) = (if port \<le> 0 then used h else insert (triple ip protocol port) (used h))"
proof (cases "port \<le> 0")
  case False
  obtain i pp where t: "triple ip protocol port = (i, pp)" by (cases "triple ip protocol port") auto
  have m: "map_of (HostPortInfo_Add h ip protocol port) = (map_of h)(i \<mapsto> insert pp (case map_of h i of None \<Rightarrow> {} | Some m \<Rightarrow> m))"
    using False t by (intro HostPortInfo_Add_map) auto
  have "sets_ok (map_of h)" "distinct (map fst h)" using assms by (auto simp: ports_ok_map_of)
  then have "ports_ok (HostPortInfo_Add h ip protocol port)"
    unfolding ports_ok_map_of m using HostPortInfo_distinct by (auto simp: sets_ok_def split: option.splits simp del: map_of_eq_Some_iff)
  moreover have "used (HostPortInfo_Add h ip protocol port) = insert (i, pp) (used h)"
    by (rule set_eqI) (auto simp: used_iff m split: option.splits)
  ultimately show ?thesis using False t by simp
qed (use assms in \<open>simp add: HostPortInfo_Add_def\<close>)

lemma HostPortInfo_Remove_used:
  assumes "ports_ok h"
  shows "ports_ok (HostPortInfo_Remove h ip protocol port) \<and>
    used (HostPortInfo_Remove h ip protocol port) = (if port \<le> 0 then used h else used h - {triple ip protocol port})"
proof (cases "port \<le> 0")
  case False
  obtain i pp where t: "triple ip protocol port = (i, pp)" by (cases "triple ip protocol port") auto
  have d: "sets_ok (map_of h)" "distinct (map fst h)" using assms by (auto simp: ports_ok_map_of)
  have m: "map_of (HostPortInfo_Remove h ip protocol port) =
    (case map_of h i of None \<Rightarrow> map_of h | Some m \<Rightarrow> (map_of h)(i := if m - {pp} = {} then None else Some (m - {pp})))"
    using False t d by (intro HostPortInfo_Remove_map) auto
  have "ports_ok (HostPortInfo_Remove h ip protocol port)"
    unfolding ports_ok_map_of m using HostPortInfo_distinct d
    by (cases "map_of h i") (auto simp: sets_ok_def simp del: map_of_eq_Some_iff)
  moreover have "used (HostPortInfo_Remove h ip protocol port) = used h - {(i, pp)}"
    by (rule set_eqI) (auto simp: used_iff m split: option.splits)
  ultimately show ?thesis using False t by simp
qed (use assms in \<open>simp add: HostPortInfo_Remove_def\<close>)

lemma CheckConflict_used:
  assumes "ports_ok h"
  shows "CheckConflict h ip protocol port \<longleftrightarrow>
    0 < port \<and> (\<exists>ip'. (ip', snd (triple ip protocol port)) \<in> used h \<and>
      (fst (triple ip protocol port) = DefaultBindAllHostIP \<or> ip' = DefaultBindAllHostIP \<or> ip' = fst (triple ip protocol port)))"
proof -
  obtain i pr where sz: "sanitize (ip, protocol) = (i, pr)" by (cases "sanitize (ip, protocol)") auto
  let ?pp = "NewProtocolPort pr port"
  have t: "triple ip protocol port = (i, ?pp)" by (simp add: triple_def sz)
  have d: "distinct (map fst h)" using assms by (simp add: ports_ok_def)
  have all: "list_ex (\<lambda>(k, m). ?pp \<in> m) h \<longleftrightarrow> (\<exists>ip'. (ip', ?pp) \<in> used h)"
  proof
    assume "list_ex (\<lambda>(k, m). ?pp \<in> m) h"
    then obtain k m where "(k, m) \<in> set h" "?pp \<in> m" by (auto simp: list_ex_iff)
    then have "(k, ?pp) \<in> used h" using map_of_eq_Some_iff [OF d, of k m] by (simp add: used_iff)
    then show "\<exists>ip'. (ip', ?pp) \<in> used h" by blast
  next
    assume "\<exists>ip'. (ip', ?pp) \<in> used h"
    then obtain k m where "map_of h k = Some m" "?pp \<in> m" by (auto simp: used_def)
    then show "list_ex (\<lambda>(k, m). ?pp \<in> m) h" using map_of_SomeD [of h k m] by (fastforce simp: list_ex_iff)
  qed
  show ?thesis
    unfolding t using sz all
    by (auto simp: CheckConflict_def Let_def used_iff split: option.splits)
qed

lemma HostPortInfo_Len_used:
  assumes "ports_ok h"
  shows "HostPortInfo_Len h = card (used h)"
  using assms
proof (induction h)
  case Nil
  then show ?case by (simp add: HostPortInfo_Len_def used_def)
next
  case (Cons x h)
  obtain ip m where x: "x = (ip, m)" by (cases x) auto
  have ok: "ports_ok h" "finite m" "ip \<notin> fst ` set h" using Cons.prems x by (auto simp: ports_ok_def)
  then have n: "map_of h ip = None" by (simp add: map_of_eq_None_iff)
  have u: "used (x # h) = Pair ip ` m \<union> used h"
    by (rule set_eqI) (auto simp: used_iff x n image_iff split: option.splits)
  have fin: "finite (used h)"
  proof -
    have "used h \<subseteq> (\<Union>(k, m) \<in> set h. Pair k ` m)"
      by (auto simp: used_def dest!: map_of_SomeD)
    moreover have "finite (\<Union>(k, m) \<in> set h. Pair k ` m)" using ok(1) by (fastforce simp: ports_ok_def)
    ultimately show ?thesis by (rule finite_subset)
  qed
  have "Pair ip ` m \<inter> used h = {}" by (auto simp: used_iff n)
  then have "card (used (x # h)) = card m + card (used h)"
    unfolding u using fin ok(2) by (simp add: card_Un_disjoint card_image inj_on_def)
  then show ?case using Cons.IH ok(1) x by (simp add: HostPortInfo_Len_def)
qed

text \<open>A resource and the amounts read from it.\<close>

definition amounts :: "Resource \<Rightarrow> int64 \<times> int64 \<times> int64 \<times> int64 \<times> (string \<Rightarrow> int64)" where
  "amounts r = (r_MilliCPU r, r_Memory r, r_EphemeralStorage r, r_AllowedPodNumber r, lookup0 (r_ScalarResources r))"

lemma lookup0_simps [simp]: "m k = None \<Longrightarrow> lookup0 m k = 0" "m k = Some v \<Longrightarrow> lookup0 m k = v"
  by (simp_all add: lookup0_def)

lemma AddResource_SubResource:
  assumes "\<And>name. name \<in> dom (r_ScalarResources r) \<union> dom (r_ScalarResources s) \<Longrightarrow> IsScalarResourceName name"
  shows "\<exists>a b. AddResource cfg (Some r) (Some s) = Some a \<and> SubResource cfg (Some a) (Some s) = Some b \<and> amounts b = amounts r"
proof -
  have "lookup0 (r_ScalarResources (the (SubResource cfg (AddResource cfg (Some r) (Some s)) (Some s)))) name = lookup0 (r_ScalarResources r) name" for name
  proof (cases "r_ScalarResources s name")
    case None
    then show ?thesis by (simp add: AddResource_def SubResource_def lookup0_def)
  next
    case (Some q)
    then have "IsScalarResourceName name" using assms by auto
    then show ?thesis using Some
      by (cases "r_ScalarResources r name") (simp_all add: AddResource_def SubResource_def lookup0_def getScalarResourceQuantity_def)
  qed
  then show ?thesis
    by (simp add: AddResource_def SubResource_def amounts_def fun_eq_iff)
qed

lemma add_signed_inverse: "amounts (add_signed cfg (- 1) (add_signed cfg 1 r rl) rl) = amounts r"
proof -
  have "lookup0 (r_ScalarResources (add_signed cfg (- 1) (add_signed cfg 1 r rl) rl)) name = lookup0 (r_ScalarResources r) name" for name
    by (simp add: add_signed_def lookup0_def)
  then show ?thesis by (simp add: amounts_def fun_eq_iff) (simp add: add_signed_def)
qed

subsubsection \<open>The request of a pod in integers\<close>

definition in64 :: "int \<Rightarrow> bool" where "in64 x \<longleftrightarrow> - (2 ^ 63) \<le> x \<and> x < 2 ^ 63"

lemma sint_of_int64: "in64 x \<Longrightarrow> sint (of_int x :: int64) = x"
  unfolding in64_def by (simp add: sint_sbintrunc' signed_take_bit_int_eq_self)

definition cpu_of :: "ResourceList \<Rightarrow> int" where "cpu_of c = lookup0 c ''cpu''"
definition value_of :: "string \<Rightarrow> ResourceList \<Rightarrow> int" where "value_of name c = quantity_Value (lookup0 c name)"

lemma rl_of:
  "rl_milli rl ''cpu'' = of_int (cpu_of rl)" "rl_value rl name = of_int (value_of name rl)"
  by (simp_all add: rl_milli_def rl_value_def cpu_of_def value_of_def lookup0_def quantity_Value_def split: option.splits)

text \<open>What a pod asks for: the containers together or the largest init container, and the overhead. The request
  lists of a pod in which no request and no sum leaves the range of an \<^verbatim>\<open>int64\<close>, and the containers do not ask
  for less than nothing.\<close>

definition pod_amount :: "res_cfg \<Rightarrow> v1pod \<Rightarrow> (ResourceList \<Rightarrow> int) \<Rightarrow> int" where
  "pod_amount cfg p f =
     fold max (map f (pod_InitRequests p)) (\<Sum>c \<leftarrow> pod_Requests p. f c) +
     (case pod_Overhead p of Some rl \<Rightarrow> if rc_PodOverhead cfg then f rl else 0 | None \<Rightarrow> 0)"

definition amount_ok :: "res_cfg \<Rightarrow> v1pod \<Rightarrow> (ResourceList \<Rightarrow> int) \<Rightarrow> bool" where
  "amount_ok cfg p f =
     (0 \<le> (\<Sum>c \<leftarrow> pod_Requests p. f c) \<and> in64 (\<Sum>c \<leftarrow> pod_Requests p. f c) \<and> in64 (pod_amount cfg p f) \<and>
      list_all (\<lambda>c. in64 (f c)) (pod_InitRequests p))"

lemma sint_add_of_int: "in64 (x + y) \<Longrightarrow> sint (a :: int64) = x \<Longrightarrow> sint (a + of_int y) = x + y"
proof -
  assume r: "in64 (x + y)" and x: "sint a = x"
  have "a = of_int x" using x by (metis of_int_sint scast_id)
  then have "a + of_int y = of_int (x + y)" by simp
  then show "sint (a + of_int y) = x + y" using sint_of_int64 [OF r] by simp
qed

text \<open>An amount of a \<^verbatim>\<open>Resource\<close> that follows a request: \<^verbatim>\<open>Add\<close> adds the request, \<^verbatim>\<open>SetMaxResource\<close> raises the amount to it.\<close>

locale followed_amount =
  fixes cfg :: res_cfg and g :: "Resource \<Rightarrow> int64" and f :: "ResourceList \<Rightarrow> int"
  assumes g_zero: "g zero_Resource = 0"
    and g_add: "g (Resource_Add cfg r c) = g r + of_int (f c)"
    and g_max: "0 \<le> sint (g r) \<Longrightarrow> in64 (f c) \<Longrightarrow> sint (g (SetMaxResource cfg r c)) = max (f c) (sint (g r))"
begin

lemma containers:
  "fold (calc_container cfg) cs (res, cpu, mem) = (res', cpu', mem') \<Longrightarrow> g res' = g res + of_int (\<Sum>c \<leftarrow> cs. f c)"
proof (induction cs arbitrary: res cpu mem)
  case (Cons c cs)
  then show ?case using Cons.IH [of "Resource_Add cfg res c"] by (auto simp: calc_container_def g_add)
qed simp

lemma inits:
  assumes "fold (calc_init cfg) ics (res, cpu, mem) = (res', cpu', mem')"
    and "0 \<le> sint (g res)" and "\<forall>c \<in> set ics. in64 (f c)"
  shows "sint (g res') = fold max (map f ics) (sint (g res))"
  using assms
proof (induction ics arbitrary: res cpu mem)
  case (Cons c ics)
  let ?r = "SetMaxResource cfg res c"
  obtain cpu1 mem1 where "calc_init cfg c (res, cpu, mem) = (?r, cpu1, mem1)" by (simp add: calc_init_def)
  then have st: "fold (calc_init cfg) ics (?r, cpu1, mem1) = (res', cpu', mem')" using Cons.prems(1) by simp
  have "sint (g ?r) = max (f c) (sint (g res))" using Cons.prems(2,3) by (intro g_max) simp_all
  then show ?case using Cons.IH [OF st] Cons.prems(2,3) by simp
qed simp

lemma exact:
  assumes "amount_ok cfg p f" and "CalculateResource cfg p = (res, cpu, mem)"
  shows "sint (g res) = pod_amount cfg p f"
proof -
  obtain r1 c1 m1 where 1: "fold (calc_container cfg) (pod_Requests p) (zero_Resource, 0, 0) = (r1, c1, m1)"
    using prod_cases3 by blast
  obtain r2 c2 m2 where 2: "fold (calc_init cfg) (pod_InitRequests p) (r1, c1, m1) = (r2, c2, m2)"
    using prod_cases3 by blast
  let ?x = "\<Sum>c \<leftarrow> pod_Requests p. f c"
  have ok: "0 \<le> ?x" "in64 ?x" "in64 (pod_amount cfg p f)" "\<forall>c \<in> set (pod_InitRequests p). in64 (f c)"
    using assms(1) by (auto simp: amount_ok_def list_all_iff)
  have r1: "sint (g r1) = ?x" using containers [OF 1] ok by (simp add: g_zero sint_of_int64)
  have r2: "sint (g r2) = fold max (map f (pod_InitRequests p)) ?x"
    using inits [OF 2 _ ok(4)] r1 ok(1) by simp
  show ?thesis
  proof (cases "\<exists>rl. pod_Overhead p = Some rl \<and> rc_PodOverhead cfg")
    case True
    then obtain rl where o: "pod_Overhead p = Some rl" "rc_PodOverhead cfg" by blast
    then have "g res = g r2 + of_int (f rl)"
      using assms(2) 1 2 by (auto simp: CalculateResource_def calc_overhead_def g_add)
    then show ?thesis using ok(3) r2 o by (simp add: pod_amount_def sint_add_of_int)
  next
    case False
    then have "res = r2"
      using assms(2) 1 2 by (auto simp: CalculateResource_def calc_overhead_def split: option.splits)
    then show ?thesis using False r2 by (auto simp: pod_amount_def split: option.splits)
  qed
qed

end

text \<open>An init container raises an amount to its own request.\<close>

lemma pick_max:
  assumes "0 \<le> sint old" "in64 y" "rl name = None \<longrightarrow> y = 0"
  shows "sint (pick (\<lambda>new old. sint old < sint new) rl name (of_int y) old) = max y (sint old)"
  using assms sint_of_int64 [of y] by (auto simp: pick_def max_def)

lemma cpu_of_none: "rl ''cpu'' = None \<longrightarrow> cpu_of rl = 0" by (simp add: cpu_of_def lookup0_def)

lemma value_of_none: "rl name = None \<longrightarrow> value_of name rl = 0"
  by (simp add: value_of_def lookup0_def quantity_Value_def)

interpretation cpu_amount: followed_amount cfg r_MilliCPU cpu_of for cfg
  by unfold_locales (auto simp: zero_Resource_def Resource_Add_def add_signed_def rl_of SetMaxResource_def set_extreme_def
      pick_max cpu_of_none)

interpretation memory_amount: followed_amount cfg r_Memory "value_of ''memory''" for cfg
  by unfold_locales (auto simp: zero_Resource_def Resource_Add_def add_signed_def rl_of SetMaxResource_def set_extreme_def
      pick_max value_of_none)

lemma storage_amount:
  "rc_LocalStorageCapacityIsolation cfg \<Longrightarrow> followed_amount cfg r_EphemeralStorage (value_of ''ephemeral-storage'')"
  by unfold_locales (auto simp: zero_Resource_def Resource_Add_def add_signed_def rl_of SetMaxResource_def set_extreme_def
      pick_max value_of_none)

lemma scalar_amount:
  assumes "IsScalarResourceName name" "name \<notin> set native_names"
  shows "followed_amount cfg (\<lambda>r. lookup0 (r_ScalarResources r) name) (value_of name)"
proof
  show "lookup0 (r_ScalarResources zero_Resource) name = 0" by (simp add: zero_Resource_def lookup0_def)
  show "lookup0 (r_ScalarResources (Resource_Add cfg r c)) name = lookup0 (r_ScalarResources r) name + of_int (value_of name c)" for r c
    using assms value_of_none [of c name]
    by (cases "c name") (simp_all add: Resource_Add_def add_signed_def rl_of lookup0_def)
  show "sint (lookup0 (r_ScalarResources (SetMaxResource cfg r c)) name) = max (value_of name c) (sint (lookup0 (r_ScalarResources r) name))"
    if "0 \<le> sint (lookup0 (r_ScalarResources r) name)" "in64 (value_of name c)" for r c
  proof -
    have "name \<notin> {''memory'', ''cpu'', ''ephemeral-storage''}" using assms(2) by (auto simp: native_names_def)
    then have "lookup0 (r_ScalarResources (SetMaxResource cfg r c)) name =
        pick (\<lambda>new old. sint old < sint new) c name (of_int (value_of name c)) (lookup0 (r_ScalarResources r) name)"
      using assms(1) by (simp add: SetMaxResource_def set_extreme_def pick_def rl_of lookup0_def)
    then show ?thesis using pick_max [OF that, of c name] value_of_none by simp
  qed
qed

subsubsection \<open>The properties of the component\<close>

datatype port_op = AddPort string string int | RemovePort string string int

primrec port_step :: "port_op \<Rightarrow> HostPortInfo \<Rightarrow> HostPortInfo" where
  "port_step (AddPort ip pr p) h = HostPortInfo_Add h ip pr p"
| "port_step (RemovePort ip pr p) h = HostPortInfo_Remove h ip pr p"

primrec port_spec :: "port_op \<Rightarrow> (string \<times> ProtocolPort) set \<Rightarrow> (string \<times> ProtocolPort) set" where
  "port_spec (AddPort ip pr p) U = (if p \<le> 0 then U else insert (triple ip pr p) U)"
| "port_spec (RemovePort ip pr p) U = (if p \<le> 0 then U else U - {triple ip pr p})"

lemma port_run: "ports_ok h \<Longrightarrow> ports_ok (fold port_step ops h) \<and> used (fold port_step ops h) = fold port_spec ops (used h)"
proof (induction ops arbitrary: h)
  case (Cons op ops)
  have "ports_ok (port_step op h) \<and> used (port_step op h) = port_spec op (used h)"
    using HostPortInfo_Add_used [OF Cons.prems] HostPortInfo_Remove_used [OF Cons.prems] by (cases op) auto
  then show ?case using Cons.IH by simp
qed simp

text \<open>
  C33. The host ports of a node implement a set of triples: after any sequence of additions and removals the
  recorded (address, protocol, port) triples are those of the abstract set, \<^verbatim>\<open>CheckConflict\<close> answers true exactly
  when an occupied triple has the protocol and port and shares the address or one of the two is the wildcard
  address, and \<^verbatim>\<open>Len\<close> counts the triples. An empty address or protocol stands for the wildcard and TCP, a
  port that is not positive changes nothing and never conflicts.
\<close>

theorem host_ports_refine:
  "let h = fold port_step ops []; U = fold port_spec ops {} in
   used h = U \<and> ports_ok h \<and> HostPortInfo_Len h = card U \<and>
   CheckConflict h ip protocol port =
     (0 < port \<and> (\<exists>ip'. (ip', snd (triple ip protocol port)) \<in> U \<and>
        (fst (triple ip protocol port) = DefaultBindAllHostIP \<or> ip' = DefaultBindAllHostIP \<or> ip' = fst (triple ip protocol port))))"
proof -
  have e: "ports_ok []" "used [] = {}" by (auto simp: ports_ok_def used_def)
  note run = port_run [OF e(1), of ops, unfolded e(2)]
  show ?thesis
    using run CheckConflict_used HostPortInfo_Len_used by (simp add: Let_def)
qed

text \<open>
  C34. Subtracting what was added restores every amount of a resource, with \<^verbatim>\<open>int64\<close> wrap-around and for every setting of
  the feature gates: for \<^verbatim>\<open>AddResource\<close> and \<^verbatim>\<open>SubResource\<close> when the scalar names are scalar names to the helper,
  for \<^verbatim>\<open>Add\<close> and \<^verbatim>\<open>Sub\<close> of a resource list always.
\<close>

theorem resource_round_trip:
  assumes "\<And>name. name \<in> dom (r_ScalarResources r) \<union> dom (r_ScalarResources s) \<Longrightarrow> IsScalarResourceName name"
  shows "(\<exists>a b. AddResource cfg (Some r) (Some s) = Some a \<and> SubResource cfg (Some a) (Some s) = Some b \<and> amounts b = amounts r) \<and>
    amounts (Resource_Sub cfg (Resource_Add cfg r rl) rl) = amounts r"
  using AddResource_SubResource [OF assms] add_signed_inverse by (simp add: Resource_Add_def Resource_Sub_def)

definition cfg_example :: res_cfg where
  "cfg_example = \<lparr>rc_LocalStorageCapacityIsolation = True,
                  rc_PodOverhead = True, rc_ResourceReservation = True\<rparr>"

definition resource_example :: Resource where
  "resource_example = \<lparr>r_MilliCPU = - 1, r_Memory = 7, r_EphemeralStorage = 3, r_AllowedPodNumber = 0, r_ScalarResources = [''nvidia.com/gpu'' \<mapsto> 2]\<rparr>"

theorem resource_round_trip_witness:
  "\<exists>a b. AddResource cfg_example (Some zero_Resource) (Some resource_example) = Some a \<and> r_ScalarResources a ''nvidia.com/gpu'' = Some 2 \<and>
         SubResource cfg_example (Some a) (Some resource_example) = Some b \<and> amounts b = amounts zero_Resource"
proof -
  have sc: "IsScalarResourceName name"
    if "name \<in> dom (r_ScalarResources zero_Resource) \<union> dom (r_ScalarResources resource_example)" for name
    using that by (auto simp: zero_Resource_def resource_example_def resource_name_defs sublist_code split: if_splits)
  obtain a b where ab: "AddResource cfg_example (Some zero_Resource) (Some resource_example) = Some a"
      "SubResource cfg_example (Some a) (Some resource_example) = Some b" "amounts b = amounts zero_Resource"
    using resource_round_trip [OF sc, where rl = Map.empty] by blast
  have "r_ScalarResources a ''nvidia.com/gpu'' = Some 2"
    using ab(1) by (auto simp: AddResource_def zero_Resource_def resource_example_def getScalarResourceQuantity_def)
  with ab show ?thesis by blast
qed

text \<open>
  C35. \<^verbatim>\<open>CalculateResource\<close> returns the request the Kubernetes rule asks for: the sum over the containers, or the largest
  init container where it is larger, plus the overhead where the gate is on. This holds of the CPU, the memory, every
  scalar resource and, where the gate of the local storage is on, the ephemeral storage, each provided that
  the containers do not ask for less than nothing of it and that no request of an init container, no sum over the
  containers and no result leaves the range of an \<^verbatim>\<open>int64\<close>. With the gate off the ephemeral storage does not follow the rule.
\<close>

theorem calculate_resource_exact:
  assumes "CalculateResource cfg p = (res, non0CPU, non0Mem)"
  shows "(amount_ok cfg p cpu_of \<longrightarrow> sint (r_MilliCPU res) = pod_amount cfg p cpu_of) \<and>
    (amount_ok cfg p (value_of ''memory'') \<longrightarrow> sint (r_Memory res) = pod_amount cfg p (value_of ''memory'')) \<and>
    (rc_LocalStorageCapacityIsolation cfg \<and> amount_ok cfg p (value_of ''ephemeral-storage'') \<longrightarrow>
       sint (r_EphemeralStorage res) = pod_amount cfg p (value_of ''ephemeral-storage'')) \<and>
    (IsScalarResourceName name \<and> name \<notin> set native_names \<and> amount_ok cfg p (value_of name) \<longrightarrow>
       sint (lookup0 (r_ScalarResources res) name) = pod_amount cfg p (value_of name))"
proof (intro conjI impI)
  show "sint (r_EphemeralStorage res) = pod_amount cfg p (value_of ''ephemeral-storage'')"
    if "rc_LocalStorageCapacityIsolation cfg \<and> amount_ok cfg p (value_of ''ephemeral-storage'')"
    using that assms by (blast intro: followed_amount.exact [OF storage_amount])
  show "sint (lookup0 (r_ScalarResources res) name) = pod_amount cfg p (value_of name)"
    if "IsScalarResourceName name \<and> name \<notin> set native_names \<and> amount_ok cfg p (value_of name)"
    using that assms by (blast intro: followed_amount.exact [OF scalar_amount])
qed (use cpu_amount.exact [OF _ assms] memory_amount.exact [OF _ assms] in blast)+

definition v1pod_example :: v1pod where
  "v1pod_example =
     \<lparr>pod_Name = ''a'', pod_Namespace = ''ns'', pod_UID = ''u1'', pod_Labels = None, pod_Annotations = None,
      pod_CreationTimestamp = 0, pod_ResourceVersion = ''1'', pod_Generation = 0, pod_NodeName = ''n1'',
      pod_SchedulerName = ''godel'', pod_Priority = Some 10,
      pod_Requests = [[''cpu'' \<mapsto> 100, ''memory'' \<mapsto> 5000], [''cpu'' \<mapsto> 250, ''memory'' \<mapsto> 1500]],
      pod_InitRequests = [[''cpu'' \<mapsto> 900]], pod_AffinityTerms = [], pod_Status = ''Running'',
      pod_Overhead = Some [''cpu'' \<mapsto> 50], pod_Ports = [(''10.0.0.1'', [], 80)], pod_HasPodAffinity = False,
      pod_AntiAffinity = Some 1, pod_StartTime = Some 5, pod_Tolerations = []\<rparr>"

theorem calculate_resource_exact_witness:
  "\<exists>res a b. CalculateResource cfg_example v1pod_example = (res, a, b) \<and> sint (r_MilliCPU res) = 950 \<and> sint (r_Memory res) = 7"
proof -
  have ok: "amount_ok cfg_example v1pod_example cpu_of" "amount_ok cfg_example v1pod_example (value_of ''memory'')"
    by (simp_all add: amount_ok_def in64_def pod_amount_def v1pod_example_def cfg_example_def cpu_of_def value_of_def lookup0_def
        quantity_Value_def)
  obtain res a b where c: "CalculateResource cfg_example v1pod_example = (res, a, b)" using prod_cases3 by blast
  have "sint (r_MilliCPU res) = 950 \<and> sint (r_Memory res) = 7"
    using calculate_resource_exact [OF c] ok
    by (simp add: pod_amount_def v1pod_example_def cfg_example_def cpu_of_def value_of_def lookup0_def quantity_Value_def)
  then show ?thesis using c by blast
qed

end
