(* ===== verification/Load_Aware_Store.thy ===== *)
theory Load_Aware_Store
  imports Pod_Group_Store Queue_Sort Resources
begin

section \<open>The load-aware store (pkg/scheduler/cache/commonstores/load_aware_store)\<close>

text \<open>
  For every node the store keeps the resource usage its agent reports in a custom node resource (CNR) and,
  of the pods on the node that the report does not count yet, the sum of their requests, for guaranteed
  and best-effort pods apart. Amounts are \<^verbatim>\<open>int64\<close> and are modelled as 64-bit words, so the sums hold with
  wrap-around. A \<^verbatim>\<open>resource.Quantity\<close> is its amount in thousandths.

  The state of a node is \<open>NodeMetricInfo\<close>, stored in a generation store as in the code; the code changes it
  in place and stores it again, the model stores the changed value. The cache handler, the JSON decoder
  and the map iteration order are parameters (\<open>las_env\<close>). A nil \<^verbatim>\<open>GenericUsage\<close> or nil amount in a CNR panics.

  The properties: the sums are those of the uncounted pods in every state the store reaches through a
  well-behaved cache, the snapshot answers like the cache, and deleting a CNR does not delete it.
\<close>

subsection \<open>Reports\<close>

record ResourceMetric =
  rm_CPU :: "int option"
  rm_Memory :: "int option"

record GroupMetricInfo =
  gm_QoSLevel :: string
  gm_GenericUsage :: "ResourceMetric option"
  gm_PodList :: "key list"

record NodeMetricStatus =
  nms_UpdateTime :: time
  nms_GroupMetric :: "GroupMetricInfo list"

record CustomNodeResource =
  cnr_Name :: string
  cnr_NodeMetricStatus :: "NodeMetricStatus option"

definition GetResourceTypeFromQoS :: "string \<Rightarrow> string" where
  "GetResourceTypeFromQoS qos =
     (if qos = ''dedicated_cores'' \<or> qos = ''shared_cores'' then GuaranteedPod
      else if qos = ''reclaimed_cores'' then BestEffortPod
      else GuaranteedPod)"

text \<open>The zero value of \<^verbatim>\<open>metav1.Time\<close> is the first second of year 1.\<close>

definition zero_time :: time where
  "zero_time = - 62135596800 * 10 ^ 9"

definition parseUpdateTimeFromCNR :: "CustomNodeResource option \<Rightarrow> time" where
  "parseUpdateTimeFromCNR cnr =
     (case cnr of
        None \<Rightarrow> zero_time
      | Some c \<Rightarrow> (case cnr_NodeMetricStatus c of None \<Rightarrow> zero_time | Some st \<Rightarrow> nms_UpdateTime st))"

subsection \<open>Pods and the sums over them\<close>

record podBasicInfo =
  pbi_Key :: key
  pbi_MilliCPU :: int64
  pbi_Memory :: int64
  pbi_PodResourceType :: string

definition newPodBasicInfo :: "pod \<Rightarrow> pod_error + podBasicInfo" where
  "newPodBasicInfo p =
     (case GetPodResourceType p of
        Inl err \<Rightarrow> Inl err
      | Inr rt \<Rightarrow>
          Inr \<lparr>pbi_Key = GetPodKey p, pbi_MilliCPU = of_int (GetPodRequest p ''cpu''),
               pbi_Memory = of_int (quantity_Value (GetPodRequest p ''memory'')), pbi_PodResourceType = rt\<rparr>)"

record PodMetricInfos =
  pmi_ProfileMilliCPU :: int64
  pmi_ProfileMEM :: int64
  pmi_RequestMilliCPU :: int64
  pmi_RequestMEM :: int64
  pmi_ProfilePods :: "key set"

fun profile_loop ::
  "string \<Rightarrow> GroupMetricInfo list \<Rightarrow> int64 \<times> int64 \<times> key set \<Rightarrow> (int64 \<times> int64 \<times> key set) option" where
  "profile_loop rt [] acc = Some acc"
| "profile_loop rt (g # gs) (cpu, mem, pods) =
     (if GetResourceTypeFromQoS (gm_QoSLevel g) = rt then
        do { u \<leftarrow> gm_GenericUsage g;
             c \<leftarrow> rm_CPU u;
             m \<leftarrow> rm_Memory u;
             profile_loop rt gs (cpu + of_int c, mem + of_int (quantity_Value m), pods \<union> set (gm_PodList g)) }
      else profile_loop rt gs (cpu, mem, pods))"

fun request_loop ::
  "string \<Rightarrow> (key \<rightharpoonup> podBasicInfo) \<Rightarrow> key set \<Rightarrow> key list \<Rightarrow> int64 \<times> int64 \<Rightarrow> int64 \<times> int64" where
  "request_loop rt existing pods [] acc = acc"
| "request_loop rt existing pods (k # ks) (cpu, mem) =
     request_loop rt existing pods ks
       (case existing k of
          None \<Rightarrow> (cpu, mem)
        | Some p \<Rightarrow>
            if pbi_PodResourceType p = rt \<and> k \<notin> pods then (cpu + pbi_MilliCPU p, mem + pbi_Memory p)
            else (cpu, mem))"

definition newPodMetricInfos ::
  "(key set \<Rightarrow> key list) \<Rightarrow> CustomNodeResource option \<Rightarrow> (key \<rightharpoonup> podBasicInfo) \<Rightarrow> string \<Rightarrow> PodMetricInfos option" where
  "newPodMetricInfos ord cnr existing rt =
     do { (cpu, mem, pods) \<leftarrow>
            (case cnr of
               None \<Rightarrow> Some (0, 0, {})
             | Some c \<Rightarrow>
                 (case cnr_NodeMetricStatus c of
                    None \<Rightarrow> Some (0, 0, {})
                  | Some st \<Rightarrow> profile_loop rt (nms_GroupMetric st) (0, 0, {})));
          let (rcpu, rmem) = request_loop rt existing pods (ord (dom existing)) (0, 0);
          Some \<lparr>pmi_ProfileMilliCPU = cpu, pmi_ProfileMEM = mem, pmi_RequestMilliCPU = rcpu,
                pmi_RequestMEM = rmem, pmi_ProfilePods = pods\<rparr> }"

subsection \<open>The state of a node\<close>

record NodeMetricInfo =
  nmi_name :: string
  nmi_cnrExist :: bool
  nmi_updateTime :: time
  nmi_gtPodMetricInfos :: PodMetricInfos
  nmi_bePodMetricInfos :: PodMetricInfos
  nmi_allPods :: "key \<rightharpoonup> podBasicInfo"

definition NewNodeMetricInfo ::
  "(key set \<Rightarrow> key list) \<Rightarrow> string \<Rightarrow> CustomNodeResource option \<Rightarrow> NodeMetricInfo option" where
  "NewNodeMetricInfo ord nodeName cnr =
     do { gt \<leftarrow> newPodMetricInfos ord cnr Map.empty GuaranteedPod;
          be \<leftarrow> newPodMetricInfos ord cnr Map.empty BestEffortPod;
          Some \<lparr>nmi_name = nodeName, nmi_cnrExist = (cnr \<noteq> None), nmi_updateTime = parseUpdateTimeFromCNR cnr,
                nmi_gtPodMetricInfos = gt, nmi_bePodMetricInfos = be, nmi_allPods = Map.empty\<rparr> }"

definition nmi_Reset ::
  "(key set \<Rightarrow> key list) \<Rightarrow> NodeMetricInfo \<Rightarrow> CustomNodeResource option \<Rightarrow> NodeMetricInfo option" where
  "nmi_Reset ord i cnr =
     do { gt \<leftarrow> newPodMetricInfos ord cnr (nmi_allPods i) GuaranteedPod;
          be \<leftarrow> newPodMetricInfos ord cnr (nmi_allPods i) BestEffortPod;
          Some (i\<lparr>nmi_cnrExist := (cnr \<noteq> None), nmi_updateTime := parseUpdateTimeFromCNR cnr,
                  nmi_gtPodMetricInfos := gt, nmi_bePodMetricInfos := be\<rparr>) }"

definition pod_op_infos :: "podBasicInfo \<Rightarrow> bool \<Rightarrow> bool \<Rightarrow> PodMetricInfos \<Rightarrow> PodMetricInfos" where
  "pod_op_infos pInfo isCacheStore isAdd infos =
     (if isCacheStore \<and> pbi_Key pInfo \<in> pmi_ProfilePods infos then infos
      else if isAdd then
        infos\<lparr>pmi_RequestMilliCPU := pmi_RequestMilliCPU infos + pbi_MilliCPU pInfo,
              pmi_RequestMEM := pmi_RequestMEM infos + pbi_Memory pInfo\<rparr>
      else
        infos\<lparr>pmi_RequestMilliCPU := pmi_RequestMilliCPU infos - pbi_MilliCPU pInfo,
              pmi_RequestMEM := pmi_RequestMEM infos - pbi_Memory pInfo\<rparr>)"

definition nmi_PodOp :: "NodeMetricInfo \<Rightarrow> podBasicInfo \<Rightarrow> bool \<Rightarrow> bool \<Rightarrow> NodeMetricInfo" where
  "nmi_PodOp i pInfo isCacheStore isAdd =
     (let i1 = i\<lparr>nmi_allPods := (nmi_allPods i)(pbi_Key pInfo := if isAdd then Some pInfo else None)\<rparr> in
      if pbi_PodResourceType pInfo = GuaranteedPod
      then i1\<lparr>nmi_gtPodMetricInfos := pod_op_infos pInfo isCacheStore isAdd (nmi_gtPodMetricInfos i1)\<rparr>
      else i1\<lparr>nmi_bePodMetricInfos := pod_op_infos pInfo isCacheStore isAdd (nmi_bePodMetricInfos i1)\<rparr>)"

definition nmi_CanBeRecycle :: "NodeMetricInfo \<Rightarrow> bool" where
  "nmi_CanBeRecycle i \<longleftrightarrow> \<not> nmi_cnrExist i \<and> dom (nmi_allPods i) = {}"

text \<open>\<^verbatim>\<open>Clone\<close> copies every field, the pods into a map of its own.\<close>

definition nmi_Clone :: "NodeMetricInfo StoredObj \<Rightarrow> NodeMetricInfo StoredObj" where
  "nmi_Clone obj =
     (let i = so_obj obj in
      \<lparr>so_generation = so_generation obj,
       so_obj = \<lparr>nmi_name = nmi_name i, nmi_cnrExist = nmi_cnrExist i, nmi_updateTime = nmi_updateTime i,
                 nmi_gtPodMetricInfos = nmi_gtPodMetricInfos i, nmi_bePodMetricInfos = nmi_bePodMetricInfos i,
                 nmi_allPods = nmi_allPods i\<rparr>\<rparr>)"

subsection \<open>The store\<close>

record LoadAwareStore =
  las_isCache :: bool
  las_Store :: "NodeMetricInfo generation_store"

text \<open>What the operations read: the type of the scheduler, the pod of a pod state, the requests of a node,
  the node name in a nominated-node annotation, and the iteration order.\<close>

record las_env =
  le_SchedulerType :: string
  le_GetPodState :: "key \<Rightarrow> pod option"
  le_requested :: "key \<Rightarrow> string \<Rightarrow> (int64 \<times> int64) option"
  le_unmarshal :: "string \<Rightarrow> string option"
  le_ord :: "key set \<Rightarrow> key list"

datatype las_error = PodErr pod_error | EmptyUID

type_synonym las_result = "(LoadAwareStore \<times> (las_error + unit)) option"

definition las_NewCache :: LoadAwareStore where
  "las_NewCache = \<lparr>las_isCache = True, las_Store = ListS NewListStore\<rparr>"

definition las_NewSnapshot :: LoadAwareStore where
  "las_NewSnapshot = \<lparr>las_isCache = False, las_Store = RawS NewRawStore\<rparr>"

definition las_put :: "LoadAwareStore \<Rightarrow> key \<Rightarrow> NodeMetricInfo StoredObj \<Rightarrow> LoadAwareStore option" where
  "las_put s k obj = do { st \<leftarrow> store_Set (las_Store s) k obj; Some (s\<lparr>las_Store := st\<rparr>) }"

definition las_remove :: "LoadAwareStore \<Rightarrow> key \<Rightarrow> LoadAwareStore option" where
  "las_remove s k = do { st \<leftarrow> store_Delete (las_Store s) k; Some (s\<lparr>las_Store := st\<rparr>) }"

definition las_podOp :: "las_env \<Rightarrow> LoadAwareStore \<Rightarrow> pod \<Rightarrow> bool \<Rightarrow> las_result" where
  "las_podOp e s p isAdd =
     (let nodeName = GetNodeNameFromPod (le_unmarshal e) p in
      if nodeName = [] then Some (s, Inr ())
      else
        (case newPodBasicInfo p of
           Inl err \<Rightarrow> Some (s, Inl (PodErr err))
         | Inr pInfo \<Rightarrow>
             if isAdd then
               do { obj \<leftarrow> (case store_Get (las_Store s) nodeName of
                            Some obj \<Rightarrow> Some obj
                          | None \<Rightarrow> do { i \<leftarrow> NewNodeMetricInfo (le_ord e) nodeName None;
                                        Some \<lparr>so_generation = 0, so_obj = i\<rparr> });
                    s1 \<leftarrow> las_put s nodeName (obj\<lparr>so_obj := nmi_PodOp (so_obj obj) pInfo (las_isCache s) True\<rparr>);
                    Some (s1, Inr ()) }
             else
               (case store_Get (las_Store s) nodeName of
                  None \<Rightarrow> Some (s, Inr ())
                | Some obj \<Rightarrow>
                    (let i = nmi_PodOp (so_obj obj) pInfo (las_isCache s) False in
                     do { s1 \<leftarrow> (if nmi_CanBeRecycle i then las_remove s nodeName
                                else las_put s nodeName (obj\<lparr>so_obj := i\<rparr>));
                          Some (s1, Inr ()) }))))"

definition las_nodeMetricOp :: "las_env \<Rightarrow> LoadAwareStore \<Rightarrow> CustomNodeResource \<Rightarrow> bool \<Rightarrow> LoadAwareStore option" where
  "las_nodeMetricOp e s cnr isAdd =
     (let nodeName = cnr_Name cnr in
      if length nodeName = 0 then Some s
      else if isAdd then
        do { obj \<leftarrow> (case store_Get (las_Store s) nodeName of
                     Some obj \<Rightarrow> do { i \<leftarrow> nmi_Reset (le_ord e) (so_obj obj) (Some cnr); Some (obj\<lparr>so_obj := i\<rparr>) }
                   | None \<Rightarrow> do { i \<leftarrow> NewNodeMetricInfo (le_ord e) nodeName (Some cnr);
                                 Some \<lparr>so_generation = 0, so_obj = i\<rparr> });
             las_put s nodeName obj }
      else
        (case store_Get (las_Store s) nodeName of
           None \<Rightarrow> Some s
         | Some obj \<Rightarrow>
             do { i \<leftarrow> nmi_Reset (le_ord e) (so_obj obj) None;
                  if nmi_CanBeRecycle i then las_remove s nodeName else las_put s nodeName (obj\<lparr>so_obj := i\<rparr>) }))"

definition las_AddCNR :: "las_env \<Rightarrow> LoadAwareStore \<Rightarrow> CustomNodeResource \<Rightarrow> LoadAwareStore option" where
  "las_AddCNR e s cnr = las_nodeMetricOp e s cnr True"

definition las_UpdateCNR ::
  "las_env \<Rightarrow> LoadAwareStore \<Rightarrow> CustomNodeResource \<Rightarrow> CustomNodeResource \<Rightarrow> LoadAwareStore option" where
  "las_UpdateCNR e s oldCNR newCNR =
     do { s1 \<leftarrow> las_nodeMetricOp e s oldCNR False; las_nodeMetricOp e s1 newCNR True }"

definition las_DeleteCNR :: "las_env \<Rightarrow> LoadAwareStore \<Rightarrow> CustomNodeResource \<Rightarrow> LoadAwareStore option" where
  "las_DeleteCNR e s cnr = las_nodeMetricOp e s cnr True"

definition las_AddPod :: "las_env \<Rightarrow> LoadAwareStore \<Rightarrow> pod \<Rightarrow> las_result" where
  "las_AddPod e s p =
     (if \<not> BoundPod p \<and> \<not> AssumedPodOfGodel p (le_SchedulerType e) then Some (s, Inr ())
      else las_podOp e s p True)"

definition las_DeletePod :: "las_env \<Rightarrow> LoadAwareStore \<Rightarrow> pod \<Rightarrow> las_result" where
  "las_DeletePod e s p =
     (if \<not> BoundPod p \<and> \<not> AssumedPodOfGodel p (le_SchedulerType e) then Some (s, Inr ())
      else las_podOp e s p False)"

definition las_UpdatePod :: "las_env \<Rightarrow> LoadAwareStore \<Rightarrow> pod \<Rightarrow> pod \<Rightarrow> las_result" where
  "las_UpdatePod e s oldPod newPod =
     (if length (pod_UID oldPod) = 0 then Some (s, Inl EmptyUID)
      else
        do { (s1, r) \<leftarrow> (case le_GetPodState e (pod_UID oldPod) of
                          None \<Rightarrow> Some (s, Inr ())
                        | Some stored \<Rightarrow> las_DeletePod e s stored);
             (case r of Inl err \<Rightarrow> Some (s1, Inl err) | Inr _ \<Rightarrow> las_AddPod e s1 newPod) })"

definition las_AssumePod :: "las_env \<Rightarrow> LoadAwareStore \<Rightarrow> pod \<Rightarrow> las_result" where
  "las_AssumePod e s p = las_podOp e s p True"

definition las_ForgetPod :: "las_env \<Rightarrow> LoadAwareStore \<Rightarrow> pod \<Rightarrow> las_result" where
  "las_ForgetPod e s p = las_podOp e s p False"

definition las_UpdateSnapshot :: "las_env \<Rightarrow> LoadAwareStore \<Rightarrow> LoadAwareStore \<Rightarrow> LoadAwareStore option" where
  "las_UpdateSnapshot e s store =
     do { (cache, snapshot) \<leftarrow> TransferGenerationStore (las_Store s) (las_Store store);
          r \<leftarrow> UpdateRawStore (le_ord e) cache (\<lambda>k so snap. Some (RawStore_Set snap k (nmi_Clone so)))
                 (DefaultCleanFunc (le_ord e) cache) snapshot;
          Some (store\<lparr>las_Store := RawS r\<rparr>) }"

record LoadAwareNodeMetricInfo =
  lmi_Name :: string
  lmi_UpdateTime :: time
  lmi_ProfileMilliCPUUsage :: int64
  lmi_ProfileMEMUsage :: int64

definition GetLoadAwareNodeMetricInfo :: "LoadAwareStore \<Rightarrow> string \<Rightarrow> string \<Rightarrow> LoadAwareNodeMetricInfo option" where
  "GetLoadAwareNodeMetricInfo s nodeName rt =
     (case store_Get (las_Store s) nodeName of
        None \<Rightarrow> None
      | Some obj \<Rightarrow>
          (let i = so_obj obj;
               infos = (if rt = GuaranteedPod then nmi_gtPodMetricInfos i else nmi_bePodMetricInfos i) in
           if \<not> nmi_cnrExist i then None
           else Some \<lparr>lmi_Name = nodeName, lmi_UpdateTime = nmi_updateTime i,
                      lmi_ProfileMilliCPUUsage = pmi_ProfileMilliCPU infos,
                      lmi_ProfileMEMUsage = pmi_ProfileMEM infos\<rparr>))"

record LoadAwareNodeUsage =
  lnu_RequestMilliCPU :: int64
  lnu_RequestMEM :: int64
  lnu_ProfileMilliCPU :: int64
  lnu_ProfileMEM :: int64

definition GetLoadAwareNodeUsage :: "las_env \<Rightarrow> LoadAwareStore \<Rightarrow> string \<Rightarrow> string \<Rightarrow> LoadAwareNodeUsage option" where
  "GetLoadAwareNodeUsage e s nodeName rt =
     (case store_Get (las_Store s) nodeName of
        None \<Rightarrow>
          do { (cpu, mem) \<leftarrow> le_requested e nodeName (if rt = GuaranteedPod then GuaranteedPod else BestEffortPod);
               Some \<lparr>lnu_RequestMilliCPU = cpu, lnu_RequestMEM = mem, lnu_ProfileMilliCPU = 0, lnu_ProfileMEM = 0\<rparr> }
      | Some obj \<Rightarrow>
          (let i = so_obj obj;
               infos = (if rt = GuaranteedPod then nmi_gtPodMetricInfos i else nmi_bePodMetricInfos i) in
           Some \<lparr>lnu_RequestMilliCPU = pmi_RequestMilliCPU infos, lnu_RequestMEM = pmi_RequestMEM infos,
                 lnu_ProfileMilliCPU = pmi_ProfileMilliCPU infos, lnu_ProfileMEM = pmi_ProfileMEM infos\<rparr>))"

subsection \<open>The sums of a node\<close>

definition uncounted :: "(key \<rightharpoonup> podBasicInfo) \<Rightarrow> string \<Rightarrow> PodMetricInfos \<Rightarrow> key set" where
  "uncounted m rt infos = {k. \<exists>p. m k = Some p \<and> pbi_PodResourceType p = rt \<and> k \<notin> pmi_ProfilePods infos}"

definition sums_ok :: "(key \<rightharpoonup> podBasicInfo) \<Rightarrow> string \<Rightarrow> PodMetricInfos \<Rightarrow> bool" where
  "sums_ok m rt infos \<longleftrightarrow>
     pmi_RequestMilliCPU infos = (\<Sum>k\<in>uncounted m rt infos. pbi_MilliCPU (the (m k))) \<and>
     pmi_RequestMEM infos = (\<Sum>k\<in>uncounted m rt infos. pbi_Memory (the (m k)))"

text \<open>The groups of a report that count for a resource type, and what the code keeps of them: the usage they
  report and the pods they list.\<close>

definition report_groups :: "CustomNodeResource option \<Rightarrow> string \<Rightarrow> GroupMetricInfo list" where
  "report_groups cnr rt =
     (case cnr of
        None \<Rightarrow> []
      | Some c \<Rightarrow>
          (case cnr_NodeMetricStatus c of
             None \<Rightarrow> []
           | Some st \<Rightarrow> filter (\<lambda>g. GetResourceTypeFromQoS (gm_QoSLevel g) = rt) (nms_GroupMetric st)))"

definition reported_pods :: "CustomNodeResource option \<Rightarrow> string \<Rightarrow> key set" where
  "reported_pods cnr rt = (\<Union>g\<in>set (report_groups cnr rt). set (gm_PodList g))"

definition reported_cpu :: "CustomNodeResource option \<Rightarrow> string \<Rightarrow> int64" where
  "reported_cpu cnr rt = (\<Sum>g\<leftarrow>report_groups cnr rt. of_int (the (rm_CPU (the (gm_GenericUsage g)))))"

definition reported_memory :: "CustomNodeResource option \<Rightarrow> string \<Rightarrow> int64" where
  "reported_memory cnr rt =
     (\<Sum>g\<leftarrow>report_groups cnr rt. of_int (quantity_Value (the (rm_Memory (the (gm_GenericUsage g))))))"

definition report_ok :: "CustomNodeResource option \<Rightarrow> string \<Rightarrow> PodMetricInfos \<Rightarrow> bool" where
  "report_ok cnr rt infos \<longleftrightarrow>
     pmi_ProfilePods infos = reported_pods cnr rt \<and> pmi_ProfileMilliCPU infos = reported_cpu cnr rt \<and>
     pmi_ProfileMEM infos = reported_memory cnr rt"

lemma profile_loop_groups:
  "profile_loop rt gs (c, m, ps) = Some (c', m', ps') \<Longrightarrow>
   ps' = ps \<union> (\<Union>g\<in>set (filter (\<lambda>g. GetResourceTypeFromQoS (gm_QoSLevel g) = rt) gs). set (gm_PodList g)) \<and>
   c' = c + (\<Sum>g\<leftarrow>filter (\<lambda>g. GetResourceTypeFromQoS (gm_QoSLevel g) = rt) gs. of_int (the (rm_CPU (the (gm_GenericUsage g))))) \<and>
   m' = m + (\<Sum>g\<leftarrow>filter (\<lambda>g. GetResourceTypeFromQoS (gm_QoSLevel g) = rt) gs.
               of_int (quantity_Value (the (rm_Memory (the (gm_GenericUsage g))))))"
proof (induction gs arbitrary: c m ps)
  case (Cons g gs)
  show ?case
  proof (cases "GetResourceTypeFromQoS (gm_QoSLevel g) = rt")
    case True
    then obtain u x y where u: "gm_GenericUsage g = Some u" "rm_CPU u = Some x" "rm_Memory u = Some y"
      using Cons.prems by (auto split: bind_splits)
    then have "profile_loop rt gs (c + of_int x, m + of_int (quantity_Value y), ps \<union> set (gm_PodList g)) = Some (c', m', ps')"
      using Cons.prems True by simp
    from Cons.IH [OF this] show ?thesis using True u by (simp add: Un_assoc add.assoc)
  next
    case False
    then show ?thesis using Cons by simp
  qed
qed simp

lemma newPodMetricInfos_report:
  assumes "newPodMetricInfos ord cnr m rt = Some infos"
  shows "report_ok cnr rt infos"
proof (cases "\<exists>c st. cnr = Some c \<and> cnr_NodeMetricStatus c = Some st")
  case True
  then obtain c st where c: "cnr = Some c" "cnr_NodeMetricStatus c = Some st" by blast
  then obtain x y ps where "profile_loop rt (nms_GroupMetric st) (0, 0, {}) = Some (x, y, ps)"
    "pmi_ProfilePods infos = ps" "pmi_ProfileMilliCPU infos = x" "pmi_ProfileMEM infos = y"
    using assms by (auto simp: newPodMetricInfos_def Let_def split: bind_splits prod.splits)
  with profile_loop_groups [OF this(1)] c show ?thesis
    by (simp add: report_ok_def reported_pods_def reported_cpu_def reported_memory_def report_groups_def)
next
  case False
  then have "report_groups cnr rt = []" by (auto simp: report_groups_def split: option.split)
  moreover have "pmi_ProfilePods infos = {} \<and> pmi_ProfileMilliCPU infos = 0 \<and> pmi_ProfileMEM infos = 0"
    using assms False by (auto simp: newPodMetricInfos_def Let_def split: bind_splits prod.splits option.splits)
  ultimately show ?thesis by (simp add: report_ok_def reported_pods_def reported_cpu_def reported_memory_def)
qed

lemma report_ok_pod_op [simp]: "report_ok cnr rt (pod_op_infos p c a infos) = report_ok cnr rt infos"
  by (simp add: report_ok_def pod_op_infos_def)

text \<open>The entry of a node whose last report is \<open>r\<close> and whose pods are \<open>m\<close>.\<close>

definition nmi_ok :: "CustomNodeResource option \<Rightarrow> (key \<rightharpoonup> podBasicInfo) \<Rightarrow> NodeMetricInfo \<Rightarrow> bool" where
  "nmi_ok r m i \<longleftrightarrow>
     nmi_allPods i = m \<and> nmi_cnrExist i = (r \<noteq> None) \<and>
     report_ok r GuaranteedPod (nmi_gtPodMetricInfos i) \<and> report_ok r BestEffortPod (nmi_bePodMetricInfos i) \<and>
     finite (dom m) \<and>
     (\<forall>k p. m k = Some p \<longrightarrow> pbi_Key p = k \<and> pbi_PodResourceType p \<in> {GuaranteedPod, BestEffortPod}) \<and>
     sums_ok m GuaranteedPod (nmi_gtPodMetricInfos i) \<and> sums_ok m BestEffortPod (nmi_bePodMetricInfos i)"

lemma types_differ [simp]: "GuaranteedPod \<noteq> BestEffortPod" "BestEffortPod \<noteq> GuaranteedPod"
  by (simp_all add: GuaranteedPod_def BestEffortPod_def)

lemma uncounted_dom: "uncounted m rt infos \<subseteq> dom m"
  by (auto simp: uncounted_def)

lemma request_loop_sum:
  fixes m :: "key \<rightharpoonup> podBasicInfo"
  defines "C \<equiv> \<lambda>rt pods ks. {k \<in> set ks. \<exists>p. m k = Some p \<and> pbi_PodResourceType p = rt \<and> k \<notin> pods}"
  assumes "distinct ks"
  shows "request_loop rt m pods ks (c, n) =
     (c + (\<Sum>k\<in>C rt pods ks. pbi_MilliCPU (the (m k))), n + (\<Sum>k\<in>C rt pods ks. pbi_Memory (the (m k))))"
  using assms(2)
proof (induction ks arbitrary: c n)
  case Nil
  then show ?case by (simp add: C_def)
next
  case (Cons k ks)
  have fin: "finite (C rt pods ks)" and nk: "k \<notin> C rt pods ks" using Cons.prems by (auto simp: C_def)
  show ?case
  proof (cases "\<exists>p. m k = Some p \<and> pbi_PodResourceType p = rt \<and> k \<notin> pods")
    case True
    then have "C rt pods (k # ks) = insert k (C rt pods ks)" by (auto simp: C_def)
    then show ?thesis using True Cons fin nk by (auto simp: add.assoc)
  next
    case False
    then have "C rt pods (k # ks) = C rt pods ks" by (auto simp: C_def)
    moreover have "request_loop rt m pods (k # ks) (c, n) = request_loop rt m pods ks (c, n)"
      using False by (auto split: option.split)
    ultimately show ?thesis using Cons by simp
  qed
qed

lemma newPodMetricInfos_sums:
  assumes "newPodMetricInfos ord cnr m rt = Some infos" "ord_ok ord" "finite (dom m)"
  shows "sums_ok m rt infos"
proof -
  have o: "distinct (ord (dom m))" "set (ord (dom m)) = dom m" using assms(2,3) by (auto simp: ord_ok_def)
  obtain pods where p: "pmi_ProfilePods infos = pods"
    "(pmi_RequestMilliCPU infos, pmi_RequestMEM infos) = request_loop rt m pods (ord (dom m)) (0, 0)"
    using assms(1) by (auto simp: newPodMetricInfos_def Let_def split: bind_splits prod.splits)
  have "{k \<in> dom m. \<exists>p. m k = Some p \<and> pbi_PodResourceType p = rt \<and> k \<notin> pods} = uncounted m rt infos"
    using p(1) by (auto simp: uncounted_def)
  then show ?thesis using p(2) unfolding request_loop_sum [OF o(1)] o(2) by (simp add: sums_ok_def)
qed

lemma sums_add:
  assumes "sums_ok m rt infos" "finite (dom m)" "m (pbi_Key p) = None"
  shows "sums_ok (m(pbi_Key p \<mapsto> p)) rt (if pbi_PodResourceType p = rt then pod_op_infos p True True infos else infos)"
proof -
  let ?k = "pbi_Key p" and ?U = "uncounted m rt infos"
  let ?infos = "if pbi_PodResourceType p = rt then pod_op_infos p True True infos else infos"
  have nk: "?k \<notin> ?U" using assms(3) uncounted_dom by fastforce
  have fin: "finite ?U" using uncounted_dom assms(2) by (rule finite_subset)
  have cong: "(\<Sum>k\<in>?U. f (the ((m(?k \<mapsto> p)) k))) = (\<Sum>k\<in>?U. f (the (m k)))" for f :: "podBasicInfo \<Rightarrow> int64"
    using nk by (intro sum.cong) auto
  have prof: "pmi_ProfilePods ?infos = pmi_ProfilePods infos" by (simp add: pod_op_infos_def)
  show ?thesis
  proof (cases "pbi_PodResourceType p = rt \<and> ?k \<notin> pmi_ProfilePods infos")
    case True
    then have "uncounted (m(?k \<mapsto> p)) rt ?infos = insert ?k ?U" using prof by (auto simp: uncounted_def)
    then show ?thesis using True assms(1) fin nk cong
      by (simp add: sums_ok_def pod_op_infos_def add.commute)
  next
    case False
    then have "uncounted (m(?k \<mapsto> p)) rt ?infos = ?U" using prof assms(3) by (auto simp: uncounted_def)
    moreover have "?infos = infos" using False by (auto simp: pod_op_infos_def)
    ultimately show ?thesis using assms(1) cong by (simp add: sums_ok_def)
  qed
qed

lemma sums_remove:
  assumes "sums_ok m rt infos" "finite (dom m)" "m (pbi_Key p) = Some p"
  shows "sums_ok (m(pbi_Key p := None)) rt (if pbi_PodResourceType p = rt then pod_op_infos p True False infos else infos)"
proof -
  let ?k = "pbi_Key p" and ?U = "uncounted m rt infos"
  let ?infos = "if pbi_PodResourceType p = rt then pod_op_infos p True False infos else infos"
  have fin: "finite ?U" using uncounted_dom assms(2) by (rule finite_subset)
  have prof: "pmi_ProfilePods ?infos = pmi_ProfilePods infos" by (simp add: pod_op_infos_def)
  have un: "uncounted (m(?k := None)) rt ?infos = ?U - {?k}" using prof by (auto simp: uncounted_def)
  have cong: "(\<Sum>k\<in>?U - {?k}. f (the ((m(?k := None)) k))) = (\<Sum>k\<in>?U - {?k}. f (the (m k)))" for f :: "podBasicInfo \<Rightarrow> int64"
    by (intro sum.cong) auto
  show ?thesis
  proof (cases "pbi_PodResourceType p = rt \<and> ?k \<notin> pmi_ProfilePods infos")
    case True
    then have "?k \<in> ?U" using assms(3) by (auto simp: uncounted_def)
    then show ?thesis using True assms(1,3) fin un cong
      by (simp add: sums_ok_def pod_op_infos_def sum_diff1)
  next
    case False
    then have "?U - {?k} = ?U" using assms(3) by (auto simp: uncounted_def)
    moreover have "?infos = infos" using False by (auto simp: pod_op_infos_def)
    ultimately show ?thesis using assms(1) un cong by (simp add: sums_ok_def)
  qed
qed

lemma nmi_PodOp_fields:
  assumes "pbi_PodResourceType p \<in> {GuaranteedPod, BestEffortPod}"
  shows "nmi_allPods (nmi_PodOp i p c a) = (nmi_allPods i)(pbi_Key p := if a then Some p else None)"
    "nmi_gtPodMetricInfos (nmi_PodOp i p c a) =
       (if pbi_PodResourceType p = GuaranteedPod then pod_op_infos p c a (nmi_gtPodMetricInfos i)
        else nmi_gtPodMetricInfos i)"
    "nmi_bePodMetricInfos (nmi_PodOp i p c a) =
       (if pbi_PodResourceType p = BestEffortPod then pod_op_infos p c a (nmi_bePodMetricInfos i)
        else nmi_bePodMetricInfos i)"
    "nmi_cnrExist (nmi_PodOp i p c a) = nmi_cnrExist i"
  using assms by (auto simp: nmi_PodOp_def Let_def)

lemma nmi_PodOp_add:
  assumes "nmi_ok r m i" "m (pbi_Key p) = None" "pbi_PodResourceType p \<in> {GuaranteedPod, BestEffortPod}"
  shows "nmi_ok r (m(pbi_Key p \<mapsto> p)) (nmi_PodOp i p True True)"
  using assms sums_add [of m GuaranteedPod "nmi_gtPodMetricInfos i" p]
    sums_add [of m BestEffortPod "nmi_bePodMetricInfos i" p]
  unfolding nmi_ok_def nmi_PodOp_fields [OF assms(3)] by simp

lemma nmi_PodOp_remove:
  assumes "nmi_ok r m i" "m (pbi_Key p) = Some p"
  shows "nmi_ok r (m(pbi_Key p := None)) (nmi_PodOp i p True False)"
proof -
  have t: "pbi_PodResourceType p \<in> {GuaranteedPod, BestEffortPod}" using assms by (auto simp: nmi_ok_def)
  have fin: "finite (dom m)" using assms(1) by (auto simp: nmi_ok_def)
  have "sums_ok m GuaranteedPod (nmi_gtPodMetricInfos i)"
    "sums_ok m BestEffortPod (nmi_bePodMetricInfos i)" using assms(1) by (auto simp: nmi_ok_def)
  note sums_remove [OF this(1) fin assms(2)] sums_remove [OF this(2) fin assms(2)]
  then show ?thesis
    using fin assms(1) unfolding nmi_ok_def nmi_PodOp_fields [OF t] by simp
qed

lemma newPodBasicInfo_type:
  "newPodBasicInfo q = Inr p \<Longrightarrow> pbi_PodResourceType p \<in> {GuaranteedPod, BestEffortPod} \<and> pbi_Key p = GetPodKey q"
  by (auto simp: newPodBasicInfo_def GetPodResourceType_def Let_def split: sum.splits if_splits)

subsection \<open>Reports that do not panic\<close>

definition cnr_ok :: "CustomNodeResource \<Rightarrow> bool" where
  "cnr_ok c \<longleftrightarrow>
     (\<forall>st. cnr_NodeMetricStatus c = Some st \<longrightarrow>
        (\<forall>g\<in>set (nms_GroupMetric st). \<exists>u. gm_GenericUsage g = Some u \<and> rm_CPU u \<noteq> None \<and> rm_Memory u \<noteq> None))"

lemma profile_loop_total:
  "\<forall>g\<in>set gs. \<exists>u. gm_GenericUsage g = Some u \<and> rm_CPU u \<noteq> None \<and> rm_Memory u \<noteq> None \<Longrightarrow>
   \<exists>r. profile_loop rt gs acc = Some r"
  by (induction rt gs acc rule: profile_loop.induct) auto

lemma newPodMetricInfos_total:
  assumes "\<forall>c. cnr = Some c \<longrightarrow> cnr_ok c"
  shows "\<exists>infos. newPodMetricInfos ord cnr m rt = Some infos"
proof -
  have "\<exists>r. (case cnr of None \<Rightarrow> Some (0, 0, {})
      | Some c \<Rightarrow> (case cnr_NodeMetricStatus c of None \<Rightarrow> Some (0, 0, {})
                   | Some st \<Rightarrow> profile_loop rt (nms_GroupMetric st) (0, 0, {}))) = Some r"
    using assms profile_loop_total by (auto simp: cnr_ok_def split: option.split)
  then show ?thesis by (auto simp: newPodMetricInfos_def Let_def split: prod.splits)
qed

lemma NewNodeMetricInfo_spec:
  assumes "\<forall>c. cnr = Some c \<longrightarrow> cnr_ok c" "ord_ok ord"
  shows "\<exists>i. NewNodeMetricInfo ord n cnr = Some i \<and> nmi_ok cnr Map.empty i"
proof -
  obtain gt be where i: "newPodMetricInfos ord cnr Map.empty GuaranteedPod = Some gt"
    "newPodMetricInfos ord cnr Map.empty BestEffortPod = Some be"
    using newPodMetricInfos_total [OF assms(1)] by blast
  show ?thesis
    using i newPodMetricInfos_sums [OF i(1) assms(2)] newPodMetricInfos_sums [OF i(2) assms(2)]
      newPodMetricInfos_report [OF i(1)] newPodMetricInfos_report [OF i(2)]
    by (simp add: NewNodeMetricInfo_def nmi_ok_def)
qed

lemma nmi_Reset_spec:
  assumes "\<forall>c. cnr = Some c \<longrightarrow> cnr_ok c" "ord_ok ord" "nmi_ok r m i"
  shows "\<exists>i'. nmi_Reset ord i cnr = Some i' \<and> nmi_ok cnr m i'"
proof -
  have fin: "finite (dom (nmi_allPods i))" using assms(3) by (simp add: nmi_ok_def)
  obtain gt be where i: "newPodMetricInfos ord cnr (nmi_allPods i) GuaranteedPod = Some gt"
    "newPodMetricInfos ord cnr (nmi_allPods i) BestEffortPod = Some be"
    using newPodMetricInfos_total [OF assms(1)] by blast
  show ?thesis
    using i assms(3) newPodMetricInfos_sums [OF i(1) assms(2) fin] newPodMetricInfos_sums [OF i(2) assms(2) fin]
      newPodMetricInfos_report [OF i(1)] newPodMetricInfos_report [OF i(2)]
    by (simp add: nmi_Reset_def nmi_ok_def)
qed

subsection \<open>The invariant of the store\<close>

fun store_gen :: "'a generation_store \<Rightarrow> int" where
  "store_gen (ListS l) = ls_generation l"
| "store_gen (RawS r) = 0"

text \<open>What the store stands for: the last report of every node, and the pods of every node. A node without a
  report and without pods has no entry.\<close>

record las_view =
  lv_report :: "key \<rightharpoonup> CustomNodeResource"
  lv_pods :: "key \<Rightarrow> key \<rightharpoonup> podBasicInfo"

definition entry_ok :: "CustomNodeResource option \<Rightarrow> (key \<rightharpoonup> podBasicInfo) \<Rightarrow> NodeMetricInfo StoredObj option \<Rightarrow> bool" where
  "entry_ok r m entry \<longleftrightarrow>
     (case entry of None \<Rightarrow> r = None \<and> m = Map.empty | Some obj \<Rightarrow> nmi_ok r m (so_obj obj))"

definition las_ok :: "las_view \<Rightarrow> LoadAwareStore \<Rightarrow> bool" where
  "las_ok v s \<longleftrightarrow>
     las_isCache s \<and> store_inv (las_Store s) \<and>
     (\<forall>k. entry_ok (lv_report v k) (lv_pods v k) (store_Get (las_Store s) k))"

lemma las_ok_entry:
  "las_ok v s \<Longrightarrow> store_Get (las_Store s) k = Some obj \<Longrightarrow> nmi_ok (lv_report v k) (lv_pods v k) (so_obj obj)"
  unfolding las_ok_def entry_ok_def by (auto dest!: spec [of _ k])

lemma las_ok_no_entry:
  "las_ok v s \<Longrightarrow> store_Get (las_Store s) k = None \<Longrightarrow> lv_report v k = None \<and> lv_pods v k = Map.empty"
  unfolding las_ok_def entry_ok_def by (auto dest!: spec [of _ k])

definition set_node :: "las_view \<Rightarrow> key \<Rightarrow> CustomNodeResource option \<Rightarrow> (key \<rightharpoonup> podBasicInfo) \<Rightarrow> las_view" where
  "set_node v k r m = v\<lparr>lv_report := (lv_report v)(k := r), lv_pods := (lv_pods v)(k := m)\<rparr>"

lemma set_node_fields [simp]:
  "lv_report (set_node v k r m) = (lv_report v)(k := r)" "lv_pods (set_node v k r m) = (lv_pods v)(k := m)"
  by (simp_all add: set_node_def)

lemma set_node_same [simp]: "set_node v k (lv_report v k) (lv_pods v k) = v"
  by (simp add: set_node_def)

text \<open>An operation changes the entry of one node and uses up at most one generation.\<close>

definition las_step :: "las_view \<Rightarrow> LoadAwareStore \<Rightarrow> LoadAwareStore \<Rightarrow> bool" where
  "las_step v s s' \<longleftrightarrow> las_ok v s' \<and> store_gen (las_Store s') \<le> store_gen (las_Store s) + 1"

lemma las_step_refl: "las_ok v s \<Longrightarrow> las_step v s s"
  by (simp add: las_step_def)

lemma las_put_spec:
  assumes "las_ok v s" "store_gen (las_Store s) < 2 ^ 63 - 1" "nmi_ok r m (so_obj obj)"
  shows "\<exists>s' g. las_put s k obj = Some s' \<and> las_step (set_node v k r m) s s' \<and>
     store_Get (las_Store s') = (store_Get (las_Store s))(k \<mapsto> obj\<lparr>so_generation := g\<rparr>)"
proof -
  have inv: "store_inv (las_Store s)" using assms(1) by (simp add: las_ok_def)
  have room: "store_room (las_Store s)"
    using assms(2) by (cases "las_Store s") (auto simp: ls_room_def)
  obtain st g where st: "store_Set (las_Store s) k obj = Some st" "store_inv st"
    "store_Get st = (store_Get (las_Store s))(k \<mapsto> obj\<lparr>so_generation := g\<rparr>)"
    using gst.put_law [OF inv room] by blast
  have "store_gen st \<le> store_gen (las_Store s) + 1"
  proof (cases "las_Store s")
    case (ListS l)
    then have "ls_inv l" "ls_room l" using inv room by auto
    from ls_Set [OF this, of k obj] show ?thesis using st(1) ListS by auto
  next
    case (RawS r)
    then show ?thesis using st(1) by auto
  qed
  then show ?thesis using assms(1,3) st by (auto simp: las_put_def las_step_def las_ok_def entry_ok_def [of r])
qed

lemma las_remove_spec:
  assumes "las_ok v s"
  shows "\<exists>s'. las_remove s k = Some s' \<and> las_step (set_node v k None Map.empty) s s' \<and>
     store_Get (las_Store s') = (store_Get (las_Store s))(k := None)"
proof -
  have inv: "store_inv (las_Store s)" using assms by (simp add: las_ok_def)
  obtain st where st: "store_Delete (las_Store s) k = Some st" "store_inv st"
    "store_Get st = (store_Get (las_Store s))(k := None)"
    using gst.del_law [OF inv, of k] by blast
  have "store_gen st \<le> store_gen (las_Store s) + 1"
  proof (cases "las_Store s")
    case (ListS l)
    then have "ls_inv l" using inv by auto
    from ls_Delete [OF this, of k] show ?thesis using st(1) ListS by auto
  next
    case (RawS r)
    then show ?thesis using st(1) by auto
  qed
  then show ?thesis using assms st by (auto simp: las_remove_def las_step_def las_ok_def entry_ok_def [of None])
qed

text \<open>An entry without a report and without pods is removed, any other stored.\<close>

lemma las_recycle_spec:
  assumes "las_ok v s" "store_gen (las_Store s) < 2 ^ 63 - 1" "nmi_ok r m i"
  shows "\<exists>s'. (if nmi_CanBeRecycle i then las_remove s k else las_put s k (obj\<lparr>so_obj := i\<rparr>)) = Some s' \<and>
     las_step (set_node v k r m) s s'"
proof (cases "nmi_CanBeRecycle i")
  case True
  then have "r = None" "m = Map.empty" using assms(3) by (auto simp: nmi_CanBeRecycle_def nmi_ok_def)
  then show ?thesis using las_remove_spec [OF assms(1), of k] True by auto
next
  case False
  then show ?thesis using las_put_spec [OF assms(1,2), of r m "obj\<lparr>so_obj := i\<rparr>" k] assms(3) by auto
qed

subsection \<open>What the operations do to the view\<close>

definition view_add :: "las_env \<Rightarrow> pod \<Rightarrow> las_view \<Rightarrow> las_view" where
  "view_add e p v =
     (let n = GetNodeNameFromPod (le_unmarshal e) p in
      case newPodBasicInfo p of
        Inl _ \<Rightarrow> v
      | Inr i \<Rightarrow> if n = [] then v else set_node v n (lv_report v n) ((lv_pods v n)(GetPodKey p \<mapsto> i)))"

definition view_remove :: "las_env \<Rightarrow> pod \<Rightarrow> las_view \<Rightarrow> las_view" where
  "view_remove e p v =
     (let n = GetNodeNameFromPod (le_unmarshal e) p in
      case newPodBasicInfo p of
        Inl _ \<Rightarrow> v
      | Inr i \<Rightarrow> if n = [] then v else set_node v n (lv_report v n) ((lv_pods v n)(GetPodKey p := None)))"

definition view_report :: "key \<Rightarrow> CustomNodeResource option \<Rightarrow> las_view \<Rightarrow> las_view" where
  "view_report n r v = (if n = [] then v else set_node v n r (lv_pods v n))"

text \<open>What a well-behaved cache guarantees: a pod is added where its node does not hold it, and removed as
  it was added.\<close>

definition add_ok :: "las_env \<Rightarrow> LoadAwareStore \<Rightarrow> pod \<Rightarrow> bool" where
  "add_ok e s p \<longleftrightarrow>
     (\<forall>obj. store_Get (las_Store s) (GetNodeNameFromPod (le_unmarshal e) p) = Some obj \<longrightarrow>
        nmi_allPods (so_obj obj) (GetPodKey p) = None)"

definition remove_ok :: "las_env \<Rightarrow> LoadAwareStore \<Rightarrow> pod \<Rightarrow> bool" where
  "remove_ok e s p \<longleftrightarrow>
     (\<forall>obj pInfo. store_Get (las_Store s) (GetNodeNameFromPod (le_unmarshal e) p) = Some obj \<longrightarrow> newPodBasicInfo p = Inr pInfo \<longrightarrow>
        nmi_allPods (so_obj obj) (GetPodKey p) = Some pInfo)"

lemma las_podOp_add:
  assumes "las_ok v s" "store_gen (las_Store s) < 2 ^ 63 - 1" "add_ok e s p" "ord_ok (le_ord e)"
  shows "\<exists>s' r. las_podOp e s p True = Some (s', r) \<and> las_step (view_add e p v) s s' \<and>
     (\<exists>err. r = Inl err) = (GetNodeNameFromPod (le_unmarshal e) p \<noteq> [] \<and> (\<exists>err. newPodBasicInfo p = Inl err))"
proof (cases "GetNodeNameFromPod (le_unmarshal e) p = [] \<or> (\<exists>err. newPodBasicInfo p = Inl err)")
  case True
  then show ?thesis using las_step_refl [OF assms(1)] by (auto simp: las_podOp_def view_add_def Let_def split: sum.split)
next
  case False
  let ?n = "GetNodeNameFromPod (le_unmarshal e) p"
  obtain pInfo where p: "newPodBasicInfo p = Inr pInfo" using False by (cases "newPodBasicInfo p") auto
  note t = newPodBasicInfo_type [OF p]
  obtain obj where obj: "(case store_Get (las_Store s) ?n of
        Some obj \<Rightarrow> Some obj
      | None \<Rightarrow> do { i \<leftarrow> NewNodeMetricInfo (le_ord e) ?n None; Some \<lparr>so_generation = 0, so_obj = i\<rparr> }) = Some obj"
    "nmi_ok (lv_report v ?n) (lv_pods v ?n) (so_obj obj)" "lv_pods v ?n (pbi_Key pInfo) = None"
  proof (cases "store_Get (las_Store s) ?n")
    case None
    then show ?thesis
      using that NewNodeMetricInfo_spec [of None "le_ord e" ?n] assms(4) las_ok_no_entry [OF assms(1) None] by auto
  next
    case (Some obj)
    note ok = las_ok_entry [OF assms(1) Some]
    then have "lv_pods v ?n (pbi_Key pInfo) = None"
      using assms(3) t Some by (auto simp: add_ok_def nmi_ok_def)
    then show ?thesis using that [of obj] Some ok by simp
  qed
  let ?i = "nmi_PodOp (so_obj obj) pInfo True True"
  have "nmi_ok (lv_report v ?n) ((lv_pods v ?n)(pbi_Key pInfo \<mapsto> pInfo)) (so_obj (obj\<lparr>so_obj := ?i\<rparr>))"
    using nmi_PodOp_add [OF obj(2,3)] t by simp
  from las_put_spec [OF assms(1,2) this, of ?n] obtain s' where
    s': "las_put s ?n (obj\<lparr>so_obj := ?i\<rparr>) = Some s'"
      "las_step (set_node v ?n (lv_report v ?n) ((lv_pods v ?n)(pbi_Key pInfo \<mapsto> pInfo))) s s'"
    by blast
  have c: "las_isCache s" using assms(1) by (simp add: las_ok_def)
  have "las_podOp e s p True = Some (s', Inr ())"
    unfolding las_podOp_def Let_def p using False s'(1) c obj(1) by (simp cong: option.case_cong)
  moreover have "las_step (view_add e p v) s s'" using s'(2) p t False by (simp add: view_add_def Let_def)
  ultimately show ?thesis using p by auto
qed

lemma las_podOp_remove:
  assumes "las_ok v s" "store_gen (las_Store s) < 2 ^ 63 - 1" "remove_ok e s p"
  shows "\<exists>s' r. las_podOp e s p False = Some (s', r) \<and> las_step (view_remove e p v) s s' \<and>
     (\<exists>err. r = Inl err) = (GetNodeNameFromPod (le_unmarshal e) p \<noteq> [] \<and> (\<exists>err. newPodBasicInfo p = Inl err))"
proof (cases "GetNodeNameFromPod (le_unmarshal e) p = [] \<or> (\<exists>err. newPodBasicInfo p = Inl err)")
  case True
  then show ?thesis using las_step_refl [OF assms(1)] by (auto simp: las_podOp_def view_remove_def Let_def split: sum.split)
next
  case some: False
  let ?n = "GetNodeNameFromPod (le_unmarshal e) p"
  obtain pInfo where p: "newPodBasicInfo p = Inr pInfo" using some by (cases "newPodBasicInfo p") auto
  note t = newPodBasicInfo_type [OF p]
  have view: "view_remove e p v = set_node v ?n (lv_report v ?n) ((lv_pods v ?n)(pbi_Key pInfo := None))"
    using p t some by (simp add: view_remove_def Let_def)
  show ?thesis
  proof (cases "store_Get (las_Store s) ?n")
    case None
    have "lv_pods v ?n = Map.empty" using las_ok_no_entry [OF assms(1) None] by simp
    then have "(lv_pods v ?n)(pbi_Key pInfo := None) = lv_pods v ?n" by simp
    then have "view_remove e p v = v" unfolding view by simp
    then show ?thesis using None p some las_step_refl [OF assms(1)] by (simp add: las_podOp_def Let_def)
  next
    case (Some obj)
    note ok = las_ok_entry [OF assms(1) Some]
    let ?i = "nmi_PodOp (so_obj obj) pInfo True False"
    have c: "las_isCache s" using assms(1) by (simp add: las_ok_def)
    have "lv_pods v ?n (pbi_Key pInfo) = Some pInfo" using assms(3) p t Some ok by (auto simp: remove_ok_def nmi_ok_def)
    from las_recycle_spec [OF assms(1,2) nmi_PodOp_remove [OF ok this], of ?n obj] obtain s' where
      "(if nmi_CanBeRecycle ?i then las_remove s ?n else las_put s ?n (obj\<lparr>so_obj := ?i\<rparr>)) = Some s'"
      "las_step (view_remove e p v) s s'"
      unfolding view by blast
    then have "las_podOp e s p False = Some (s', Inr ()) \<and> las_step (view_remove e p v) s s'"
      unfolding las_podOp_def Let_def p using some c Some by (auto split: if_splits)
    then show ?thesis using p by auto
  qed
qed

lemma las_nodeMetricOp_add:
  assumes "las_ok v s" "store_gen (las_Store s) < 2 ^ 63 - 1" "cnr_ok c" "ord_ok (le_ord e)"
  shows "\<exists>s'. las_nodeMetricOp e s c True = Some s' \<and> las_step (view_report (cnr_Name c) (Some c) v) s s'"
proof (cases "cnr_Name c = []")
  case True
  then show ?thesis using las_step_refl [OF assms(1)] by (simp add: las_nodeMetricOp_def view_report_def)
next
  case False
  let ?n = "cnr_Name c"
  have ok: "\<forall>x. Some c = Some x \<longrightarrow> cnr_ok x" using assms(3) by simp
  obtain obj where obj: "(case store_Get (las_Store s) ?n of
        Some obj \<Rightarrow> do { i \<leftarrow> nmi_Reset (le_ord e) (so_obj obj) (Some c); Some (obj\<lparr>so_obj := i\<rparr>) }
      | None \<Rightarrow> do { i \<leftarrow> NewNodeMetricInfo (le_ord e) ?n (Some c); Some \<lparr>so_generation = 0, so_obj = i\<rparr> }) = Some obj"
    "nmi_ok (Some c) (lv_pods v ?n) (so_obj obj)"
  proof (cases "store_Get (las_Store s) ?n")
    case None
    then show ?thesis using that NewNodeMetricInfo_spec [OF ok assms(4), of ?n] las_ok_no_entry [OF assms(1) None] by auto
  next
    case (Some x)
    from nmi_Reset_spec [OF ok assms(4) las_ok_entry [OF assms(1) Some]] show ?thesis using that Some by auto
  qed
  obtain s' where "las_put s ?n obj = Some s'" "las_step (set_node v ?n (Some c) (lv_pods v ?n)) s s'"
    using las_put_spec [OF assms(1,2) obj(2)] by blast
  then show ?thesis using False obj(1) by (simp add: las_nodeMetricOp_def Let_def view_report_def)
qed

lemma las_nodeMetricOp_remove:
  assumes "las_ok v s" "store_gen (las_Store s) < 2 ^ 63 - 1" "ord_ok (le_ord e)"
  shows "\<exists>s'. las_nodeMetricOp e s c False = Some s' \<and> las_step (view_report (cnr_Name c) None v) s s'"
proof (cases "cnr_Name c = []")
  case True
  then show ?thesis using las_step_refl [OF assms(1)] by (simp add: las_nodeMetricOp_def view_report_def)
next
  case named: False
  let ?n = "cnr_Name c"
  show ?thesis
  proof (cases "store_Get (las_Store s) ?n")
    case None
    have "view_report ?n None v = v"
      using las_ok_no_entry [OF assms(1) None] named set_node_same [of v ?n] by (simp add: view_report_def)
    then show ?thesis using None named las_step_refl [OF assms(1)] by (simp add: las_nodeMetricOp_def Let_def)
  next
    case (Some obj)
    obtain i where i: "nmi_Reset (le_ord e) (so_obj obj) None = Some i" "nmi_ok None (lv_pods v ?n) i"
      using nmi_Reset_spec [of None, OF _ assms(3) las_ok_entry [OF assms(1) Some]] by auto
    show ?thesis
      using las_recycle_spec [OF assms(1,2) i(2), of ?n obj] Some named i(1)
      by (simp add: las_nodeMetricOp_def Let_def view_report_def)
  qed
qed

subsection \<open>Runs of the cache\<close>

datatype las_op =
  LAddCNR CustomNodeResource | LUpdateCNR CustomNodeResource CustomNodeResource | LDeleteCNR CustomNodeResource |
  LAddPod pod | LDeletePod pod | LUpdatePod pod pod | LAssumePod pod | LForgetPod pod

fun las_exec :: "las_env \<Rightarrow> las_op \<Rightarrow> LoadAwareStore \<Rightarrow> LoadAwareStore option" where
  "las_exec e (LAddCNR c) s = las_AddCNR e s c"
| "las_exec e (LUpdateCNR c c') s = las_UpdateCNR e s c c'"
| "las_exec e (LDeleteCNR c) s = las_DeleteCNR e s c"
| "las_exec e (LAddPod p) s = map_option fst (las_AddPod e s p)"
| "las_exec e (LDeletePod p) s = map_option fst (las_DeletePod e s p)"
| "las_exec e (LUpdatePod p p') s = map_option fst (las_UpdatePod e s p p')"
| "las_exec e (LAssumePod p) s = map_option fst (las_AssumePod e s p)"
| "las_exec e (LForgetPod p) s = map_option fst (las_ForgetPod e s p)"

fun las_op_ok :: "las_env \<Rightarrow> las_op \<Rightarrow> LoadAwareStore \<Rightarrow> bool" where
  "las_op_ok e (LAddCNR c) s \<longleftrightarrow> cnr_ok c"
| "las_op_ok e (LUpdateCNR c c') s \<longleftrightarrow> cnr_ok c'"
| "las_op_ok e (LDeleteCNR c) s \<longleftrightarrow> cnr_ok c"
| "las_op_ok e (LAddPod p) s \<longleftrightarrow> add_ok e s p"
| "las_op_ok e (LDeletePod p) s \<longleftrightarrow> remove_ok e s p"
| "las_op_ok e (LUpdatePod p p') s \<longleftrightarrow>
     (case le_GetPodState e (pod_UID p) of
        None \<Rightarrow> add_ok e s p'
      | Some stored \<Rightarrow>
          remove_ok e s stored \<and> (\<forall>s1 r. las_DeletePod e s stored = Some (s1, r) \<longrightarrow> add_ok e s1 p'))"
| "las_op_ok e (LAssumePod p) s \<longleftrightarrow> add_ok e s p"
| "las_op_ok e (LForgetPod p) s \<longleftrightarrow> remove_ok e s p"

definition handled :: "las_env \<Rightarrow> pod \<Rightarrow> bool" where
  "handled e p \<longleftrightarrow> BoundPod p \<or> AssumedPodOfGodel p (le_SchedulerType e)"

text \<open>The view after an operation. \<^verbatim>\<open>DeleteCNR\<close> keeps the report it is given, as the code does; \<^verbatim>\<open>UpdatePod\<close> stops
  after an error of its deletion.\<close>

fun view_step :: "las_env \<Rightarrow> las_op \<Rightarrow> las_view \<Rightarrow> las_view" where
  "view_step e (LAddCNR c) v = view_report (cnr_Name c) (Some c) v"
| "view_step e (LUpdateCNR c c') v = view_report (cnr_Name c') (Some c') (view_report (cnr_Name c) None v)"
| "view_step e (LDeleteCNR c) v = view_report (cnr_Name c) (Some c) v"
| "view_step e (LAddPod p) v = (if handled e p then view_add e p v else v)"
| "view_step e (LDeletePod p) v = (if handled e p then view_remove e p v else v)"
| "view_step e (LUpdatePod p p') v =
     (if pod_UID p = [] then v
      else
        (let v1 = (case le_GetPodState e (pod_UID p) of
                     None \<Rightarrow> v
                   | Some stored \<Rightarrow> if handled e stored then view_remove e stored v else v);
             failed = (case le_GetPodState e (pod_UID p) of
                         None \<Rightarrow> False
                       | Some stored \<Rightarrow> handled e stored \<and> GetNodeNameFromPod (le_unmarshal e) stored \<noteq> [] \<and>
                                       (\<exists>err. newPodBasicInfo stored = Inl err)) in
         if failed then v1 else if handled e p' then view_add e p' v1 else v1))"
| "view_step e (LAssumePod p) v = view_add e p v"
| "view_step e (LForgetPod p) v = view_remove e p v"

definition view_start :: las_view where
  "view_start = \<lparr>lv_report = Map.empty, lv_pods = (\<lambda>_. Map.empty)\<rparr>"

text \<open>An operation changes an object at most twice, so it needs two generations.\<close>

inductive las_reachable :: "las_view \<Rightarrow> LoadAwareStore \<Rightarrow> bool" where
  las_start: "las_reachable view_start las_NewCache"
| las_op_step: "las_reachable v s \<Longrightarrow> ord_ok (le_ord e) \<Longrightarrow> las_op_ok e opn s \<Longrightarrow>
    store_gen (las_Store s) < 2 ^ 63 - 2 \<Longrightarrow> las_exec e opn s = Some s' \<Longrightarrow> las_reachable (view_step e opn v) s'"

lemma las_AddPod_spec:
  assumes "las_ok v s" "store_gen (las_Store s) < 2 ^ 63 - 1" "add_ok e s p" "ord_ok (le_ord e)"
  shows "\<exists>s' r. las_AddPod e s p = Some (s', r) \<and> las_step (view_step e (LAddPod p) v) s s'"
  using las_podOp_add [OF assms] las_step_refl [OF assms(1)] by (auto simp: las_AddPod_def handled_def)

lemma las_DeletePod_spec:
  assumes "las_ok v s" "store_gen (las_Store s) < 2 ^ 63 - 1" "remove_ok e s p"
  shows "\<exists>s' r. las_DeletePod e s p = Some (s', r) \<and> las_step (view_step e (LDeletePod p) v) s s' \<and>
    (\<exists>err. r = Inl err) = (handled e p \<and> GetNodeNameFromPod (le_unmarshal e) p \<noteq> [] \<and> (\<exists>err. newPodBasicInfo p = Inl err))"
  using las_podOp_remove [OF assms] las_step_refl [OF assms(1)] by (auto simp: las_DeletePod_def handled_def)

lemma las_UpdatePod_spec:
  assumes "las_ok v s" "store_gen (las_Store s) < 2 ^ 63 - 2" "las_op_ok e (LUpdatePod p p') s" "ord_ok (le_ord e)"
  shows "\<exists>s' r. las_UpdatePod e s p p' = Some (s', r) \<and> las_ok (view_step e (LUpdatePod p p') v) s'"
proof (cases "pod_UID p = []")
  case True
  then show ?thesis using assms(1) by (simp add: las_UpdatePod_def)
next
  case False
  let ?st = "le_GetPodState e (pod_UID p)"
  define v1 where "v1 = (case ?st of None \<Rightarrow> v | Some stored \<Rightarrow> view_step e (LDeletePod stored) v)"
  define failed where "failed = (case ?st of
      None \<Rightarrow> False
    | Some stored \<Rightarrow> handled e stored \<and> GetNodeNameFromPod (le_unmarshal e) stored \<noteq> [] \<and>
                    (\<exists>err. newPodBasicInfo stored = Inl err))"
  obtain s1 r1 where s1: "(case ?st of None \<Rightarrow> Some (s, Inr ())
      | Some stored \<Rightarrow> las_DeletePod e s stored) = Some (s1, r1)" "las_step v1 s s1" "add_ok e s1 p'" "(\<exists>err. r1 = Inl err) = failed"
  proof (cases ?st)
    case None
    then show ?thesis using that [of s "Inr ()"] assms(3) las_step_refl [OF assms(1)] by (simp add: v1_def failed_def)
  next
    case (Some stored)
    then show ?thesis
      using that las_DeletePod_spec [OF assms(1), of e stored] assms(2,3) by (auto simp: v1_def failed_def)
  qed
  have "las_ok v1 s1" "store_gen (las_Store s1) < 2 ^ 63 - 1" using s1(2) assms(2) by (auto simp: las_step_def)
  from las_AddPod_spec [OF this s1(3) assms(4)] obtain s2 r2 where
    s2: "las_AddPod e s1 p' = Some (s2, r2)" "las_ok (view_step e (LAddPod p') v1) s2" by (auto simp: las_step_def)
  have view: "view_step e (LUpdatePod p p') v = (if failed then v1 else view_step e (LAddPod p') v1)"
    using False by (auto simp: v1_def failed_def Let_def split: option.split)
  show ?thesis
  proof (cases r1)
    case (Inl err)
    then show ?thesis using False s1 view by (auto simp: las_UpdatePod_def las_step_def)
  next
    case (Inr x)
    then have "\<not> failed" using s1(4) by auto
    then show ?thesis using False s1(1) s2 view Inr by (auto simp: las_UpdatePod_def)
  qed
qed

lemma las_exec_ok:
  assumes "las_ok v s" "ord_ok (le_ord e)" "las_op_ok e opn s" "store_gen (las_Store s) < 2 ^ 63 - 2"
  shows "\<exists>s'. las_exec e opn s = Some s' \<and> las_ok (view_step e opn v) s'"
proof -
  have room: "store_gen (las_Store s) < 2 ^ 63 - 1" using assms(4) by simp
  show ?thesis
  proof (cases opn)
    case (LUpdateCNR c c')
    obtain s1 where s1: "las_nodeMetricOp e s c False = Some s1" "las_step (view_report (cnr_Name c) None v) s s1"
      using las_nodeMetricOp_remove [OF assms(1) room assms(2)] by blast
    then have "las_ok (view_report (cnr_Name c) None v) s1" "store_gen (las_Store s1) < 2 ^ 63 - 1"
      using assms(4) by (auto simp: las_step_def)
    from las_nodeMetricOp_add [OF this, of c' e] show ?thesis
      using s1(1) LUpdateCNR assms(2,3) by (auto simp: las_UpdateCNR_def las_step_def)
  next
    case (LUpdatePod p p')
    then show ?thesis using las_UpdatePod_spec [OF assms(1,4), of e p p'] assms(2,3) by auto
  next
    case (LAddPod p)
    then show ?thesis using las_AddPod_spec [OF assms(1) room, of e p] assms(2,3) by (auto simp: las_step_def)
  next
    case (LDeletePod p)
    then show ?thesis using las_DeletePod_spec [OF assms(1) room, of e p] assms(3) by (auto simp: las_step_def)
  next
    case (LAssumePod p)
    then show ?thesis using las_podOp_add [OF assms(1) room, of e p] assms(2,3)
      by (auto simp: las_step_def las_AssumePod_def)
  next
    case (LForgetPod p)
    then show ?thesis using las_podOp_remove [OF assms(1) room, of e p] assms(3)
      by (auto simp: las_step_def las_ForgetPod_def)
  next
    case (LAddCNR c)
    then show ?thesis using las_nodeMetricOp_add [OF assms(1) room, of c e] assms(2,3)
      by (auto simp: las_step_def las_AddCNR_def)
  next
    case (LDeleteCNR c)
    then show ?thesis using las_nodeMetricOp_add [OF assms(1) room, of c e] assms(2,3)
      by (auto simp: las_step_def las_DeleteCNR_def)
  qed
qed

lemma las_reachable_ok: "las_reachable v s \<Longrightarrow> las_ok v s"
proof (induction rule: las_reachable.induct)
  case las_start
  show ?case by (simp add: las_ok_def entry_ok_def las_NewCache_def view_start_def)
next
  case (las_op_step v s e opn s')
  then show ?case using las_exec_ok [of v s e opn] by auto
qed

subsection \<open>Properties\<close>

text \<open>C30. The store answers for a node exactly what its last report and the pods added to it give. Follow the
  operations with a view that keeps, per node, the last report and the pods added and not removed
  since. In every state the cache reaches by operations of a well-behaved caller (a pod is added
  where its node does not hold it and removed as it was added, the usage in a report is complete) the next such
  operation ends without a panic and the view follows it. The usage answered for a node with a report or
  a pod is, for each resource type and modulo \<open>2 ^ 64\<close>, the usage the groups of that type in the report
  sum up to, and the requests of exactly the pods of that type which no such group lists.\<close>

theorem load_usage_exact:
  assumes "las_reachable v s" "ord_ok (le_ord e)" "las_op_ok e opn s" "store_gen (las_Store s) < 2 ^ 63 - 2"
    "rt \<in> {GuaranteedPod, BestEffortPod}" "r = lv_report v n" "m = lv_pods v n" "r \<noteq> None \<or> m \<noteq> Map.empty"
    "U = {k. \<exists>p. m k = Some p \<and> pbi_PodResourceType p = rt \<and> k \<notin> reported_pods r rt}"
  shows "(\<exists>s'. las_exec e opn s = Some s' \<and> las_reachable (view_step e opn v) s') \<and>
    GetLoadAwareNodeUsage e s n rt =
      Some \<lparr>lnu_RequestMilliCPU = (\<Sum>k\<in>U. pbi_MilliCPU (the (m k))), lnu_RequestMEM = (\<Sum>k\<in>U. pbi_Memory (the (m k))),
            lnu_ProfileMilliCPU = reported_cpu r rt, lnu_ProfileMEM = reported_memory r rt\<rparr>"
proof -
  have ok: "las_ok v s" by (rule las_reachable_ok [OF assms(1)])
  have "\<exists>s'. las_exec e opn s = Some s' \<and> las_reachable (view_step e opn v) s'"
    using las_exec_ok [OF ok assms(2-4)] las_reachable.las_op_step [OF assms(1-4)] by blast
  moreover obtain obj where obj: "store_Get (las_Store s) n = Some obj"
    using las_ok_no_entry [OF ok, of n] assms(6-8) by (cases "store_Get (las_Store s) n") auto
  define infos where "infos = (if rt = GuaranteedPod then nmi_gtPodMetricInfos (so_obj obj) else nmi_bePodMetricInfos (so_obj obj))"
  have "sums_ok m rt infos" "report_ok r rt infos"
    using las_ok_entry [OF ok obj] assms(5-7) by (auto simp: nmi_ok_def infos_def)
  moreover have "U = uncounted m rt infos" using calculation(3) assms(9) by (simp add: uncounted_def report_ok_def)
  moreover have "GetLoadAwareNodeUsage e s n rt = Some \<lparr>lnu_RequestMilliCPU = pmi_RequestMilliCPU infos,
      lnu_RequestMEM = pmi_RequestMEM infos, lnu_ProfileMilliCPU = pmi_ProfileMilliCPU infos,
      lnu_ProfileMEM = pmi_ProfileMEM infos\<rparr>"
    using obj by (simp add: GetLoadAwareNodeUsage_def infos_def Let_def)
  ultimately show ?thesis by (simp add: sums_ok_def report_ok_def)
qed

definition las_env_example :: las_env where
  "las_env_example =
     \<lparr>le_SchedulerType = ''godel-scheduler'', le_GetPodState = (\<lambda>_. None), le_requested = (\<lambda>_ _. None),
      le_unmarshal = (\<lambda>_. None), le_ord = sorted_list_of_set\<rparr>"

definition bound_pod :: pod where
  "bound_pod = pod_example\<lparr>pod_NodeName := ''n1'', pod_Requests := [[''cpu'' \<mapsto> 250]]\<rparr>"

definition cnr_example :: CustomNodeResource where
  "cnr_example =
     \<lparr>cnr_Name = ''n1'',
      cnr_NodeMetricStatus = Some \<lparr>nms_UpdateTime = 3, nms_GroupMetric =
        [\<lparr>gm_QoSLevel = ''shared_cores'', gm_GenericUsage = Some \<lparr>rm_CPU = Some 40, rm_Memory = Some 1000\<rparr>,
          gm_PodList = [''prod/web-0'']\<rparr>]\<rparr>\<rparr>"

lemma las_env_example_ord [simp]: "ord_ok (le_ord las_env_example)"
  by (simp add: las_env_example_def ord_ok_sorted)

lemma cnr_example_ok [simp]: "cnr_ok cnr_example"
  by (simp add: cnr_ok_def cnr_example_def)

lemma las_NewCache_Get [simp]: "store_Get (las_Store las_NewCache) = Map.empty"
  by (rule ext) (simp add: las_NewCache_def)

lemma las_NewCache_gen [simp]: "store_gen (las_Store las_NewCache) = 0"
  by (simp add: las_NewCache_def NewListStore_def)

lemma bound_pod_simps [simp]:
  "GetNodeNameFromPod (le_unmarshal e) bound_pod = ''n1''" "BoundPod bound_pod" "GetPodKey bound_pod = ''prod/web-0''"
  "newPodBasicInfo bound_pod =
     Inr \<lparr>pbi_Key = ''prod/web-0'', pbi_MilliCPU = 250, pbi_Memory = 0, pbi_PodResourceType = GuaranteedPod\<rparr>"
  by (simp_all add: GetNodeNameFromPod_def bound_pod_def BoundPod_def GetPodKey_def newPodBasicInfo_def pod_example_def
      GetPodResourceType_def ann_has_def GetPodRequest_def quantity_Value_def)

text \<open>A pod on a node, and a report that counts it.\<close>

abbreviation bound_info :: podBasicInfo where
  "bound_info \<equiv> \<lparr>pbi_Key = ''prod/web-0'', pbi_MilliCPU = 250, pbi_Memory = 0, pbi_PodResourceType = GuaranteedPod\<rparr>"

definition las_one :: las_view where
  "las_one = view_step las_env_example (LAddPod bound_pod) view_start"

lemma las_one_pods: "lv_pods las_one ''n1'' = [''prod/web-0'' \<mapsto> bound_info]" "lv_report las_one ''n1'' = None"
  by (simp_all add: las_one_def handled_def view_add_def set_node_def view_start_def)

lemma las_one_reachable: "\<exists>s. las_reachable las_one s \<and> store_gen (las_Store s) \<le> 1"
proof -
  let ?e = las_env_example and ?s = las_NewCache
  have ok: "las_ok view_start ?s" by (rule las_reachable_ok [OF las_reachable.las_start])
  have add: "add_ok ?e ?s bound_pod" by (simp add: add_ok_def)
  obtain s r where s: "las_AddPod ?e ?s bound_pod = Some (s, r)" "las_step las_one ?s s"
    using las_AddPod_spec [OF ok _ add] by (auto simp: las_one_def)
  then have "las_reachable las_one s"
    using las_reachable.las_op_step [OF las_reachable.las_start, of ?e "LAddPod bound_pod" s] add by (simp add: las_one_def)
  then show ?thesis using s(2) by (auto simp: las_step_def)
qed

theorem load_usage_exact_witness:
  "\<exists>s s' u u'. las_AddCNR las_env_example s cnr_example = Some s' \<and>
     GetLoadAwareNodeUsage las_env_example s ''n1'' GuaranteedPod = Some u \<and>
     lnu_RequestMilliCPU u = 250 \<and> lnu_ProfileMilliCPU u = 0 \<and>
     GetLoadAwareNodeUsage las_env_example s' ''n1'' GuaranteedPod = Some u' \<and>
     lnu_RequestMilliCPU u' = 0 \<and> lnu_ProfileMilliCPU u' = 40"
proof -
  let ?v = las_one and ?e = las_env_example and ?rt = GuaranteedPod
  let ?v' = "view_step ?e (LAddCNR cnr_example) ?v"
  obtain s where s: "las_reachable ?v s" "store_gen (las_Store s) \<le> 1" using las_one_reachable by blast
  have room: "store_gen (las_Store s) < 2 ^ 63 - 2" "store_gen (las_Store s) < 2 ^ 63 - 1" using s(2) by simp_all
  have v': "lv_pods ?v' ''n1'' = [''prod/web-0'' \<mapsto> bound_info]" "lv_report ?v' ''n1'' = Some cnr_example"
    using las_one_pods by (simp_all add: view_report_def cnr_example_def)
  have g: "report_groups None ?rt = []" "report_groups (Some cnr_example) ?rt =
      [\<lparr>gm_QoSLevel = ''shared_cores'', gm_GenericUsage = Some \<lparr>rm_CPU = Some 40, rm_Memory = Some 1000\<rparr>,
        gm_PodList = [''prod/web-0'']\<rparr>]"
    by (simp_all add: report_groups_def cnr_example_def GetResourceTypeFromQoS_def)
  have U: "{k. \<exists>p. lv_pods ?v ''n1'' k = Some p \<and> pbi_PodResourceType p = ?rt \<and> k \<notin> reported_pods (lv_report ?v ''n1'') ?rt} =
      {''prod/web-0''}"
    unfolding las_one_pods by (auto simp: reported_pods_def g split: if_splits)
  have U': "{k. \<exists>p. lv_pods ?v' ''n1'' k = Some p \<and> pbi_PodResourceType p = ?rt \<and> k \<notin> reported_pods (lv_report ?v' ''n1'') ?rt} = {}"
    unfolding v' by (auto simp: reported_pods_def g split: if_splits)
  have op: "las_op_ok ?e (LAddCNR cnr_example) t" for t by simp
  obtain s' where s': "las_AddCNR ?e s cnr_example = Some s'" "store_gen (las_Store s') \<le> 2"
    using las_nodeMetricOp_add [OF las_reachable_ok [OF s(1)] room(2) cnr_example_ok las_env_example_ord] s(2)
    by (auto simp: las_AddCNR_def las_step_def)
  have r': "las_reachable ?v' s'"
    using las_reachable.las_op_step [OF s(1) las_env_example_ord op room(1)] s'(1) by simp
  have room': "store_gen (las_Store s') < 2 ^ 63 - 2" using s'(2) by simp
  obtain u where u: "GetLoadAwareNodeUsage ?e s ''n1'' ?rt = Some u" "lnu_RequestMilliCPU u = 250" "lnu_ProfileMilliCPU u = 0"
    using load_usage_exact [OF s(1) las_env_example_ord op room(1) _ refl refl _ refl, of ?rt "''n1''"]
    unfolding U by (simp add: las_one_pods reported_cpu_def g)
  obtain u' where u': "GetLoadAwareNodeUsage ?e s' ''n1'' ?rt = Some u'" "lnu_RequestMilliCPU u' = 0" "lnu_ProfileMilliCPU u' = 40"
    using load_usage_exact [OF r' las_env_example_ord op room' _ refl refl _ refl, of ?rt "''n1''"]
    unfolding U' unfolding v' by (simp add: reported_cpu_def g)
  show ?thesis using s'(1) u u' by blast
qed

text \<open>The snapshot answers like the cache: after \<^verbatim>\<open>UpdateSnapshot\<close> both answers about a node, its usage
  and its report, are those of the cache.\<close>

theorem load_snapshot_agrees:
  assumes "gs_reachable nmi_Clone c r" "ord_ok (le_ord e)"
    "cache = \<lparr>las_isCache = True, las_Store = ListS c\<rparr>" "snapshot = \<lparr>las_isCache = False, las_Store = RawS r\<rparr>"
  shows "\<exists>s'. las_UpdateSnapshot e cache snapshot = Some s' \<and>
    (\<forall>n rt. GetLoadAwareNodeUsage e s' n rt = GetLoadAwareNodeUsage e cache n rt \<and>
            GetLoadAwareNodeMetricInfo s' n rt = GetLoadAwareNodeMetricInfo cache n rt)"
proof -
  have cf: "(\<lambda>k so snap. Some (RawStore_Set snap k (nmi_Clone so))) = copy_func nmi_Clone"
    by (simp add: copy_func_def fun_eq_iff)
  have clone: "nmi_Clone = (\<lambda>obj. obj)" by (rule ext) (simp add: nmi_Clone_def Let_def)
  obtain kvs where "walk_ok c kvs" "in_sync nmi_Clone c r"
    using gs_reachable_inv [OF assms(1)] ls_inv_walk by blast
  from UpdateRawStore_spec [OF assms(2) this] obtain r' where
    r': "UpdateRawStore (le_ord e) c (copy_func nmi_Clone) (DefaultCleanFunc (le_ord e) c) r = Some r'"
      "rs_store r' = (\<lambda>k. map_option nmi_Clone (ListStore_Get c k))"
    by blast
  have "RawStore_Get r' = ListStore_Get c"
    by (rule ext) (simp add: RawStore_Get_def r'(2), simp add: clone option.map_ident)
  then show ?thesis
    using r'(1) assms(3,4)
    by (simp add: las_UpdateSnapshot_def cf GetLoadAwareNodeUsage_def GetLoadAwareNodeMetricInfo_def)
qed

theorem load_snapshot_agrees_witness:
  "\<exists>s'. las_UpdateSnapshot las_env_example las_NewCache las_NewSnapshot = Some s' \<and>
     GetLoadAwareNodeMetricInfo s' ''n1'' GuaranteedPod = None"
proof -
  obtain s' where "las_UpdateSnapshot las_env_example las_NewCache las_NewSnapshot = Some s'"
    "GetLoadAwareNodeMetricInfo s' ''n1'' GuaranteedPod = GetLoadAwareNodeMetricInfo las_NewCache ''n1'' GuaranteedPod"
    using load_snapshot_agrees [OF gs_reachable.gs_start las_env_example_ord las_NewCache_def las_NewSnapshot_def]
    by blast
  then show ?thesis by (simp add: GetLoadAwareNodeMetricInfo_def)
qed

text \<open>Deleting a node's report does not delete it: after \<^verbatim>\<open>DeleteCNR\<close> the node still has a report, the one
  passed to \<^verbatim>\<open>DeleteCNR\<close>, and its usage still counts as reported.\<close>

theorem delete_cnr_keeps_report:
  assumes "las_reachable v s" "cnr_ok cnr" "cnr_Name cnr \<noteq> []" "ord_ok (le_ord e)"
    "store_gen (las_Store s) < 2 ^ 63 - 2"
  shows "\<exists>s'. las_DeleteCNR e s cnr = Some s' \<and> las_reachable (view_step e (LDeleteCNR cnr) v) s' \<and>
    GetLoadAwareNodeMetricInfo s' (cnr_Name cnr) rt \<noteq> None"
proof -
  let ?v = "view_step e (LDeleteCNR cnr) v" and ?n = "cnr_Name cnr"
  have op: "las_op_ok e (LDeleteCNR cnr) s" using assms(2) by simp
  obtain s' where s': "las_DeleteCNR e s cnr = Some s'" "las_ok ?v s'"
    using las_exec_ok [OF las_reachable_ok [OF assms(1)] assms(4) op assms(5)] by auto
  have r: "lv_report ?v ?n = Some cnr" using assms(3) by (simp add: view_report_def set_node_def)
  obtain obj where obj: "store_Get (las_Store s') ?n = Some obj"
    using las_ok_no_entry [OF s'(2), of ?n] r by (cases "store_Get (las_Store s') ?n") auto
  have "nmi_cnrExist (so_obj obj)" using las_ok_entry [OF s'(2) obj] r by (simp add: nmi_ok_def)
  moreover have "las_reachable ?v s'"
    using las_reachable.las_op_step [OF assms(1,4) op assms(5)] s'(1) by simp
  ultimately show ?thesis using s'(1) obj by (auto simp: GetLoadAwareNodeMetricInfo_def Let_def)
qed

theorem delete_cnr_keeps_report_witness:
  "\<exists>s'. las_DeleteCNR las_env_example las_NewCache cnr_example = Some s' \<and>
     GetLoadAwareNodeMetricInfo s' ''n1'' GuaranteedPod \<noteq> None"
  using delete_cnr_keeps_report [OF las_reachable.las_start cnr_example_ok, of las_env_example GuaranteedPod]
  by (auto simp: cnr_example_def)

end
