(* ===== verification/Hash_Slice.thy ===== *)
theory Hash_Slice
  imports Godel_Prelude "HOL-Library.Monad_Syntax"
begin

section \<open>Hash slices (nodeinfo_podinfo.go, nodeinfo_hashslice.go)\<close>

text \<open>
  \<^verbatim>\<open>PodInfoSliceImpl\<close> and \<^verbatim>\<open>NodeHashSliceImpl\<close> keep their objects in a slice and a map from keys to indices; a
  deletion moves the last object into the gap. The two types have the same code over different objects;
  the model takes the key of an object as the parameter \<open>kf\<close>. An index out of range panics and is \<open>None\<close>.

  The laws of the interface are stated in the locale \<open>keyed_store\<close>, which the slices interpret: every
  sequence of additions and deletions acts on the finite map from keys to objects.
\<close>

subsection \<open>Operations\<close>

record 'a hash_slice =
  hs_hash :: "key \<rightharpoonup> int"
  hs_items :: "'a list"
  hs_count :: int

definition NewHashSlice :: "'a hash_slice" where
  "NewHashSlice = \<lparr>hs_hash = Map.empty, hs_items = [], hs_count = 0\<rparr>"

definition set_item :: "'a list \<Rightarrow> int \<Rightarrow> 'a \<Rightarrow> 'a list option" where
  "set_item xs i x = (if 0 \<le> i \<and> i < int (length xs) then Some (xs[nat i := x]) else None)"

definition get_item :: "'a list \<Rightarrow> int \<Rightarrow> 'a option" where
  "get_item xs i = (if 0 \<le> i \<and> i < int (length xs) then Some (xs ! nat i) else None)"

definition HashSlice_Add :: "('a \<Rightarrow> key) \<Rightarrow> 'a hash_slice \<Rightarrow> 'a \<Rightarrow> ('a hash_slice \<times> bool) option" where
  "HashSlice_Add kf hs x =
     (case hs_hash hs (kf x) of
        None \<Rightarrow>
          Some (\<lparr>hs_hash = (hs_hash hs)(kf x \<mapsto> hs_count hs), hs_items = hs_items hs @ [x], hs_count = hs_count hs + 1\<rparr>, True)
      | Some p \<Rightarrow> do { items \<leftarrow> set_item (hs_items hs) p x; Some (hs\<lparr>hs_items := items\<rparr>, False) })"

definition HashSlice_Del :: "('a \<Rightarrow> key) \<Rightarrow> 'a hash_slice \<Rightarrow> key \<Rightarrow> ('a hash_slice \<times> bool) option" where
  "HashSlice_Del kf hs key =
     (case hs_hash hs key of
        None \<Rightarrow> Some (hs, False)
      | Some px \<Rightarrow>
          do { let count = hs_count hs - 1;
               y \<leftarrow> get_item (hs_items hs) count;
               items \<leftarrow> set_item (hs_items hs) px y;
               Some (\<lparr>hs_hash = ((hs_hash hs)(kf y \<mapsto> px))(key := None), hs_items = take (nat count) items, hs_count = count\<rparr>, True) })"

definition HashSlice_Has :: "'a hash_slice \<Rightarrow> key \<Rightarrow> bool" where
  "HashSlice_Has hs key = (hs_hash hs key \<noteq> None)"

definition HashSlice_Items :: "'a hash_slice \<Rightarrow> 'a list" where
  "HashSlice_Items hs = hs_items hs"

definition HashSlice_Len :: "'a hash_slice \<Rightarrow> int" where
  "HashSlice_Len hs = hs_count hs"

definition HashSlice_Clone :: "'a hash_slice \<Rightarrow> 'a hash_slice" where
  "HashSlice_Clone hs =
     \<lparr>hs_hash = (\<lambda>k. hs_hash hs k), hs_items = take (nat (hs_count hs)) (hs_items hs), hs_count = hs_count hs\<rparr>"

subsection \<open>The interface\<close>

text \<open>A store of keyed objects: what it holds is a map, and the two operations return and act on the map.\<close>

locale keyed_store =
  fixes keyf :: "'a \<Rightarrow> key" and ok :: "'s \<Rightarrow> bool" and view :: "'s \<Rightarrow> key \<rightharpoonup> 'a"
    and add :: "'s \<Rightarrow> 'a \<Rightarrow> ('s \<times> bool) option" and del :: "'s \<Rightarrow> key \<Rightarrow> ('s \<times> bool) option"
  assumes add_law: "ok s \<Longrightarrow> \<exists>s'. add s x = Some (s', view s (keyf x) = None) \<and> ok s' \<and> view s' = (view s)(keyf x \<mapsto> x)"
    and del_law: "ok s \<Longrightarrow> \<exists>s'. del s k = Some (s', view s k \<noteq> None) \<and> ok s' \<and> view s' = (view s)(k := None)"
begin

text \<open>Any sequence of operations, an addition given by the object and a deletion by its key.\<close>

primrec run :: "('a + key) list \<Rightarrow> 's \<Rightarrow> 's option" where
  "run [] s = Some s"
| "run (op # ops) s =
     (case (case op of Inl x \<Rightarrow> add s x | Inr k \<Rightarrow> del s k) of None \<Rightarrow> None | Some r \<Rightarrow> run ops (fst r))"

lemma run_map:
  "ok s \<Longrightarrow> \<exists>s'. run ops s = Some s' \<and> ok s' \<and>
     view s' = fold (\<lambda>op m. case op of Inl x \<Rightarrow> m(keyf x \<mapsto> x) | Inr k \<Rightarrow> m(k := None)) ops (view s)"
proof (induction ops arbitrary: s)
  case (Cons op ops)
  obtain s1 b where s1: "(case op of Inl x \<Rightarrow> add s x | Inr k \<Rightarrow> del s k) = Some (s1, b)" "ok s1"
      "view s1 = (case op of Inl x \<Rightarrow> (view s)(keyf x \<mapsto> x) | Inr k \<Rightarrow> (view s)(k := None))"
    using add_law [OF Cons.prems] del_law [OF Cons.prems] by (cases op) fastforce+
  then show ?case using Cons.IH [OF s1(2)] by (auto split: sum.splits)
qed simp

end

subsection \<open>The slices implement it\<close>

definition slice_ok :: "('a \<Rightarrow> key) \<Rightarrow> 'a hash_slice \<Rightarrow> bool" where
  "slice_ok kf hs =
     (hs_count hs = int (length (hs_items hs)) \<and> distinct (map kf (hs_items hs)) \<and>
      (\<forall>i < length (hs_items hs). hs_hash hs (kf (hs_items hs ! i)) = Some (int i)) \<and>
      (\<forall>k p. hs_hash hs k = Some p \<longrightarrow> (\<exists>i < length (hs_items hs). p = int i \<and> kf (hs_items hs ! i) = k)))"

definition slice_map :: "('a \<Rightarrow> key) \<Rightarrow> 'a hash_slice \<Rightarrow> key \<rightharpoonup> 'a" where
  "slice_map kf hs k = find (\<lambda>x. kf x = k) (hs_items hs)"

lemma slice_map_iff:
  assumes "slice_ok kf hs"
  shows "slice_map kf hs k = Some x \<longleftrightarrow> x \<in> set (hs_items hs) \<and> kf x = k"
proof -
  have d: "distinct (map kf (hs_items hs))" using assms by (simp add: slice_ok_def)
  then have "kf x = k \<Longrightarrow> x \<in> set xs \<Longrightarrow> distinct (map kf xs) \<Longrightarrow> find (\<lambda>x. kf x = k) xs = Some x" for xs
    by (induction xs) auto
  moreover have "find (\<lambda>x. kf x = k) (hs_items hs) = Some x \<Longrightarrow> x \<in> set (hs_items hs) \<and> kf x = k"
    by (auto simp: find_Some_iff)
  ultimately show ?thesis using d unfolding slice_map_def by blast
qed

lemma slice_map_eqI:
  assumes "slice_ok kf hs" and "\<And>k x. m k = Some x \<longleftrightarrow> x \<in> set (hs_items hs) \<and> kf x = k"
  shows "slice_map kf hs = m"
proof
  fix k
  have "slice_map kf hs k = Some x \<longleftrightarrow> m k = Some x" for x
    unfolding slice_map_iff [OF assms(1)] assms(2) ..
  then show "slice_map kf hs k = m k" by (cases "m k") auto
qed

lemma slice_index:
  assumes "slice_ok kf hs"
  shows "hs_hash hs k = Some p \<longleftrightarrow> (\<exists>i < length (hs_items hs). p = int i \<and> kf (hs_items hs ! i) = k)"
proof
  show "hs_hash hs k = Some p \<Longrightarrow> \<exists>i < length (hs_items hs). p = int i \<and> kf (hs_items hs ! i) = k"
    using assms by (simp add: slice_ok_def)
  assume "\<exists>i < length (hs_items hs). p = int i \<and> kf (hs_items hs ! i) = k"
  then obtain i where "i < length (hs_items hs)" "p = int i" "kf (hs_items hs ! i) = k" by blast
  moreover have "\<forall>i < length (hs_items hs). hs_hash hs (kf (hs_items hs ! i)) = Some (int i)"
    using assms unfolding slice_ok_def by blast
  ultimately show "hs_hash hs k = Some p" by metis
qed

lemma slice_okI:
  assumes "hs_count hs = int (length (hs_items hs))" and "distinct (map kf (hs_items hs))"
    and "\<And>k p. hs_hash hs k = Some p \<longleftrightarrow> (\<exists>i < length (hs_items hs). p = int i \<and> kf (hs_items hs ! i) = k)"
  shows "slice_ok kf hs"
  using assms(1,2) unfolding slice_ok_def assms(3) by blast

lemma slice_hash_None:
  assumes ok: "slice_ok kf hs"
  shows "hs_hash hs k = None \<longleftrightarrow> k \<notin> kf ` set (hs_items hs)" "slice_map kf hs k = None \<longleftrightarrow> k \<notin> kf ` set (hs_items hs)"
proof -
  have "hs_hash hs k \<noteq> None \<longleftrightarrow> (\<exists>i < length (hs_items hs). kf (hs_items hs ! i) = k)"
    using slice_index [OF ok, of k] by auto
  also have "\<dots> \<longleftrightarrow> k \<in> kf ` set (hs_items hs)" unfolding image_iff Bex_def in_set_conv_nth by blast
  finally show "hs_hash hs k = None \<longleftrightarrow> k \<notin> kf ` set (hs_items hs)" by blast
  show "slice_map kf hs k = None \<longleftrightarrow> k \<notin> kf ` set (hs_items hs)"
    by (auto simp: slice_map_def find_None_iff)
qed

text \<open>Two positions with the same key are the same.\<close>

lemma slice_nth_inj:
  "slice_ok kf hs \<Longrightarrow> i < length (hs_items hs) \<Longrightarrow> j < length (hs_items hs) \<Longrightarrow> kf (hs_items hs ! i) = kf (hs_items hs ! j) \<Longrightarrow> i = j"
  using nth_eq_iff_index_eq [of "map kf (hs_items hs)" i j] by (simp add: slice_ok_def)

lemma HashSlice_Add_ok:
  assumes ok: "slice_ok kf hs"
  shows "\<exists>hs'. HashSlice_Add kf hs x = Some (hs', slice_map kf hs (kf x) = None) \<and> slice_ok kf hs' \<and>
               slice_map kf hs' = (slice_map kf hs)(kf x \<mapsto> x)"
proof (cases "hs_hash hs (kf x)")
  case None
  let ?hs = "\<lparr>hs_hash = (hs_hash hs)(kf x \<mapsto> hs_count hs), hs_items = hs_items hs @ [x], hs_count = hs_count hs + 1\<rparr>"
  have new: "kf x \<notin> kf ` set (hs_items hs)" using slice_hash_None(1) [OF ok] None by blast
  then have new': "y \<in> set (hs_items hs) \<Longrightarrow> kf y \<noteq> kf x" for y by (metis imageI)
  have c: "hs_count hs = int (length (hs_items hs))" "distinct (map kf (hs_items hs))" using ok by (auto simp: slice_ok_def)
  have ok': "slice_ok kf ?hs"
  proof (rule slice_okI)
    fix k p
    show "hs_hash ?hs k = Some p \<longleftrightarrow> (\<exists>i < length (hs_items ?hs). p = int i \<and> kf (hs_items ?hs ! i) = k)"
    proof (cases "k = kf x")
      case True
      have "kf (hs_items hs ! i) \<noteq> k" if "i < length (hs_items hs)" for i
        using new True imageI [OF nth_mem [OF that], of kf] by metis
      then show ?thesis using True c(1) by (auto simp: nth_append less_Suc_eq)
    next
      case False
      then show ?thesis using slice_index [OF ok, of k p] by (auto simp: nth_append less_Suc_eq)
    qed
  qed (use c new in auto)
  moreover have "slice_map kf ?hs = (slice_map kf hs)(kf x \<mapsto> x)"
  proof (rule slice_map_eqI [OF ok'])
    fix k y
    show "((slice_map kf hs)(kf x \<mapsto> x)) k = Some y \<longleftrightarrow> y \<in> set (hs_items ?hs) \<and> kf y = k"
      using slice_map_iff [OF ok, of k y] new' [of y] by (cases "k = kf x") auto
  qed
  ultimately show ?thesis
    using None slice_hash_None(2) [OF ok] new by (simp add: HashSlice_Add_def)
next
  case (Some p)
  then obtain i where i: "i < length (hs_items hs)" "p = int i" "kf (hs_items hs ! i) = kf x"
    using slice_index [OF ok] by blast
  let ?hs = "hs\<lparr>hs_items := (hs_items hs)[i := x]\<rparr>"
  have keys: "map kf (hs_items ?hs) = map kf (hs_items hs)"
    using i by (simp add: map_update list_update_same_conv)
  have nk: "kf (hs_items ?hs ! j) = kf (hs_items hs ! j)" if "j < length (hs_items hs)" for j
    using arg_cong [OF keys, of "\<lambda>l. l ! j"] that by simp
  have ok': "slice_ok kf ?hs"
    by (rule slice_okI) (use ok keys nk slice_index [OF ok] in \<open>auto simp: slice_ok_def\<close>)
  have st: "y \<in> set ((hs_items hs)[i := x]) \<longleftrightarrow> y = x \<or> (y \<in> set (hs_items hs) \<and> kf y \<noteq> kf x)" for y
  proof -
    have "y \<in> set ((hs_items hs)[i := x]) \<longleftrightarrow> (\<exists>j < length (hs_items hs). y = (if j = i then x else hs_items hs ! j))"
      by (auto simp: in_set_conv_nth nth_list_update)
    also have "\<dots> \<longleftrightarrow> y = x \<or> (\<exists>j < length (hs_items hs). j \<noteq> i \<and> y = hs_items hs ! j)" using i(1) by auto
    also have "\<dots> \<longleftrightarrow> y = x \<or> (\<exists>j < length (hs_items hs). kf (hs_items hs ! j) \<noteq> kf x \<and> y = hs_items hs ! j)"
      using slice_nth_inj [OF ok] i by metis
    finally show ?thesis by (auto simp: in_set_conv_nth)
  qed
  have "slice_map kf ?hs = (slice_map kf hs)(kf x \<mapsto> x)"
  proof (rule slice_map_eqI [OF ok'])
    fix k y
    show "((slice_map kf hs)(kf x \<mapsto> x)) k = Some y \<longleftrightarrow> y \<in> set (hs_items ?hs) \<and> kf y = k"
      using slice_map_iff [OF ok, of k y] st [of y] by (cases "k = kf x") auto
  qed
  moreover have "slice_map kf hs (kf x) \<noteq> None" using slice_hash_None [OF ok, of "kf x"] Some by auto
  ultimately show ?thesis
    using Some i ok' by (simp add: HashSlice_Add_def set_item_def)
qed

lemma HashSlice_Del_ok:
  assumes ok: "slice_ok kf hs"
  shows "\<exists>hs'. HashSlice_Del kf hs key = Some (hs', slice_map kf hs key \<noteq> None) \<and> slice_ok kf hs' \<and>
               slice_map kf hs' = (slice_map kf hs)(key := None)"
proof (cases "hs_hash hs key")
  case None
  then have n: "slice_map kf hs key = None" using slice_hash_None [OF ok, of key] by auto
  then have "(slice_map kf hs)(key := None) = slice_map kf hs" by (rule fun_upd_idem)
  then show ?thesis using None n ok by (simp add: HashSlice_Del_def)
next
  case (Some px)
  let ?xs = "hs_items hs" and ?n = "length (hs_items hs) - 1"
  obtain i where i: "i < length ?xs" "px = int i" "kf (?xs ! i) = key" using slice_index [OF ok] Some by blast
  let ?y = "?xs ! ?n" and ?ys = "take ?n (?xs[i := ?xs ! ?n])"
  let ?hs = "\<lparr>hs_hash = ((hs_hash hs)(kf ?y \<mapsto> px))(key := None), hs_items = ?ys, hs_count = int ?n\<rparr>"
  have c: "hs_count hs = int (length ?xs)" using ok by (simp add: slice_ok_def)
  have n: "?n < length ?xs" "nat (int (length ?xs) - 1) = ?n" "int (length ?xs) - 1 = int ?n" using i(1) by auto
  have len: "length ?ys = ?n" by simp
  have nth: "?ys ! j = (if j = i then ?y else ?xs ! j)" if "j < ?n" for j using that i(1) by (auto simp: nth_list_update)
  have ne: "?xs \<noteq> []" using i(1) by auto
  have del: "HashSlice_Del kf hs key = Some (?hs, True)"
    using Some i(1,2) c ne by (simp add: HashSlice_Del_def get_item_def set_item_def nat_diff_distrib of_nat_diff Let_def)
  have last: "?xs[i := ?y] = ?ys @ [?y]"
    using n(1) i(1) by (intro nth_equalityI) (auto simp: nth_append nth_list_update intro!: arg_cong [of _ _ "nth ?xs"])
  have "mset (?xs ! i # ?ys) = mset ?xs"
    using arg_cong [OF last, of mset] i(1) by (simp add: mset_update) (metis insert_DiffM nth_mem_mset)
  then have ms: "mset (map kf (?xs ! i # ?ys)) = mset (map kf ?xs)" "set (?xs ! i # ?ys) = set ?xs"
    by (metis mset_map) (metis \<open>mset (?xs ! i # ?ys) = mset ?xs\<close> set_mset_mset)
  then have d: "distinct (map kf (?xs ! i # ?ys))"
    using ok mset_eq_imp_distinct_iff [OF ms(1)] by (simp add: slice_ok_def)
  then have "key \<notin> kf ` set ?ys" using i(3) by simp
  then have keyz: "kf z \<noteq> key" if "z \<in> set ?ys" for z using imageI [OF that, of kf] by metis
  have ok': "slice_ok kf ?hs"
  proof (rule slice_okI)
    fix k p
    show "hs_hash ?hs k = Some p \<longleftrightarrow> (\<exists>j < length (hs_items ?hs). p = int j \<and> kf (hs_items ?hs ! j) = k)"
    proof
      assume h: "hs_hash ?hs k = Some p"
      then have k: "k \<noteq> key" by (auto split: if_splits)
      show "\<exists>j < length (hs_items ?hs). p = int j \<and> kf (hs_items ?hs ! j) = k"
      proof (cases "k = kf ?y")
        case True
        then have "i \<noteq> ?n" using k i(3) by metis
        then have "i < ?n" using i(1) by simp
        moreover have "p = int i" using True h i(2) k by simp
        ultimately have "i < ?n" "p = int i" by simp_all
        then show ?thesis using True nth [of i] len by auto
      next
        case False
        then have "hs_hash hs k = Some p" using h by (auto split: if_splits)
        then obtain j where j: "j < length ?xs" "p = int j" "kf (?xs ! j) = k" using slice_index [OF ok] by blast
        then have "j \<noteq> ?n" "j \<noteq> i" using False k i(3) by auto
        then show ?thesis using j nth [of j] len by (intro exI [of _ j]) auto
      qed
    next
      assume "\<exists>j < length (hs_items ?hs). p = int j \<and> kf (hs_items ?hs ! j) = k"
      then obtain j where j: "j < ?n" "p = int j" "kf (?ys ! j) = k" by auto
      have "?ys ! j \<in> set ?ys" using j(1) len by (metis nth_mem)
      then have kk: "k \<noteq> key" using keyz j(3) by blast
      show "hs_hash ?hs k = Some p"
      proof (cases "j = i")
        case True
        then show ?thesis using j nth [of j] i(2) kk by auto
      next
        case False
        have jl: "j < length ?xs" using j(1) by linarith
        have "kf (?xs ! j) = k" using False j nth [of j] by simp
        moreover have "k \<noteq> kf ?y" using calculation slice_nth_inj [OF ok jl n(1)] j(1) by auto
        ultimately show ?thesis using slice_index [OF ok, of k p] j kk jl by auto
      qed
    qed
  qed (use d len in auto)
  have "slice_map kf ?hs = (slice_map kf hs)(key := None)"
  proof (rule slice_map_eqI [OF ok'])
    fix k z
    have "z \<in> set ?xs \<longleftrightarrow> z = ?xs ! i \<or> z \<in> set ?ys" using ms(2) by auto
    then show "((slice_map kf hs)(key := None)) k = Some z \<longleftrightarrow> z \<in> set (hs_items ?hs) \<and> kf z = k"
      using slice_map_iff [OF ok, of k z] i(3) keyz [of z] by (cases "k = key") auto
  qed
  moreover have "slice_map kf hs key \<noteq> None" using slice_hash_None [OF ok, of key] Some by auto
  ultimately show ?thesis using del ok' by auto
qed

interpretation slice: keyed_store kf "slice_ok kf" "slice_map kf" "HashSlice_Add kf" "HashSlice_Del kf" for kf
  by unfold_locales (fact HashSlice_Add_ok, fact HashSlice_Del_ok)

subsection \<open>The property of the component\<close>

primrec slice_run :: "('a \<Rightarrow> key) \<Rightarrow> ('a + key) list \<Rightarrow> 'a hash_slice \<Rightarrow> 'a hash_slice option" where
  "slice_run kf [] hs = Some hs"
| "slice_run kf (op # ops) hs =
     (case (case op of Inl x \<Rightarrow> HashSlice_Add kf hs x | Inr k \<Rightarrow> HashSlice_Del kf hs k) of
        None \<Rightarrow> None
      | Some r \<Rightarrow> slice_run kf ops (fst r))"

lemma slice_run_eq: "slice_run kf ops hs = slice.run kf ops hs"
  by (induction ops arbitrary: hs) (auto split: option.splits)

lemma NewHashSlice_ok: "slice_ok kf NewHashSlice" "slice_map kf NewHashSlice = Map.empty"
  by (auto simp: slice_ok_def slice_map_def NewHashSlice_def)

text \<open>
  C36. A hash slice implements a map from keys to objects: no sequence of additions and deletions panics; after it the
  slice holds exactly the objects of the map, each once, \<^verbatim>\<open>Has\<close> answers for every key, \<^verbatim>\<open>Len\<close> is their
  number, and a clone is equal to the slice.
\<close>

theorem hash_slice_refine:
  "\<exists>hs. slice_run kf ops NewHashSlice = Some hs \<and>
     (let m = fold (\<lambda>op m. case op of Inl x \<Rightarrow> m(kf x \<mapsto> x) | Inr k \<Rightarrow> m(k := None)) ops Map.empty in
      (\<forall>k x. m k = Some x \<longleftrightarrow> x \<in> set (HashSlice_Items hs) \<and> kf x = k) \<and> distinct (map kf (HashSlice_Items hs)) \<and>
      (\<forall>k. HashSlice_Has hs k = (m k \<noteq> None)) \<and> HashSlice_Len hs = int (length (HashSlice_Items hs)) \<and> HashSlice_Clone hs = hs)"
proof -
  obtain hs where hs: "slice_run kf ops NewHashSlice = Some hs" "slice_ok kf hs"
      "slice_map kf hs = fold (\<lambda>op m. case op of Inl x \<Rightarrow> m(kf x \<mapsto> x) | Inr k \<Rightarrow> m(k := None)) ops Map.empty"
    using slice.run_map [OF NewHashSlice_ok(1), of kf ops] unfolding slice_run_eq NewHashSlice_ok(2) by blast
  have c: "hs_count hs = int (length (hs_items hs))" "distinct (map kf (hs_items hs))"
    using hs(2) by (simp_all add: slice_ok_def)
  show ?thesis
    unfolding Let_def hs(3) [symmetric]
    using hs(1) c slice_map_iff [OF hs(2)] slice_hash_None [OF hs(2)]
    by (intro exI [of _ hs]) (auto simp: HashSlice_Items_def HashSlice_Has_def HashSlice_Len_def HashSlice_Clone_def)
qed

end
