(* ===== verification/Splay.thy ===== *)
theory Splay
  imports Godel_Prelude "HOL-Library.Monad_Syntax"
begin

section \<open>The splay tree (pkg/util/splay)\<close>

text \<open>
  The pods of a node that may be preempted are kept in a splay tree over a slice of nodes: links are indices
  into the slice, 0 is the nil node, and the indices 1 and 2 hold two sentinels below and above every
  object. Every node carries a summary of its subtree (\<^verbatim>\<open>MaintainInfo\<close>), from which \<^verbatim>\<open>Partition\<close> answers
  for all objects smaller than a bound at once. Deletion moves the last node of the slice into the gap.

  The model keeps the slice and the indices: \<open>sp_items\<close> and \<open>sp_infos\<close> are partial maps on the indices in
  range, so a read out of range, a panic, is \<open>None\<close>, as is a failed type assertion. The loops are partial
  functions whose value is \<open>None\<close> where they do not end. What a stored object supplies, its key,
  comparison and summary, is the parameter \<open>stored_class\<close>.

  The proofs relate the slice to a tree of indices (\<open>rep\<close>) and a rotation to a rotation of a tree in a
  context (\<open>plug\<close>).
\<close>

subsection \<open>State\<close>

text \<open>What \<^verbatim>\<open>StoredObj\<close> and \<^verbatim>\<open>MaintainInfo\<close> ask for. \<open>sc_Compare v w\<close> says that \<open>v\<close> is strictly greater.\<close>

record ('o, 'i) stored_class =
  sc_Key :: "'o \<Rightarrow> key"
  sc_Compare :: "'o \<Rightarrow> 'o \<Rightarrow> bool"
  sc_MakeMaintainInfo :: "'o \<Rightarrow> 'i"
  sc_Maintain :: "'i \<Rightarrow> 'i option \<Rightarrow> 'i option \<Rightarrow> 'i"

datatype 'o splay_obj = LookupObj key | Obj 'o

datatype 'i splay_info = LookupInfo | Info 'i

record 'o node =
  nd_lchild :: int
  nd_rchild :: int
  nd_parent :: int
  nd_key :: key
  nd_obj :: "'o splay_obj"

fun obj_Key :: "('o, 'i) stored_class \<Rightarrow> 'o splay_obj \<Rightarrow> key" where
  "obj_Key c (LookupObj k) = k"
| "obj_Key c (Obj v) = sc_Key c v"

fun obj_MakeMaintainInfo :: "('o, 'i) stored_class \<Rightarrow> 'o splay_obj \<Rightarrow> 'i splay_info" where
  "obj_MakeMaintainInfo c (LookupObj k) = LookupInfo"
| "obj_MakeMaintainInfo c (Obj v) = Info (sc_MakeMaintainInfo c v)"

definition newNode :: "('o, 'i) stored_class \<Rightarrow> 'o splay_obj \<Rightarrow> int \<Rightarrow> 'o node" where
  "newNode c v p = \<lparr>nd_lchild = 0, nd_rchild = 0, nd_parent = p, nd_key = obj_Key c v, nd_obj = v\<rparr>"

abbreviation nilObj :: "'o splay_obj" where "nilObj \<equiv> LookupObj ''NilObj''"
abbreviation minObj :: "'o splay_obj" where "minObj \<equiv> LookupObj ''MinObj''"
abbreviation maxObj :: "'o splay_obj" where "maxObj \<equiv> LookupObj ''MaxObj''"

type_synonym 'o nodes = "int \<rightharpoonup> 'o node"
type_synonym 'i infos = "int \<rightharpoonup> 'i splay_info"

record ('o, 'i) splay =
  sp_root :: int
  sp_hash :: "key \<rightharpoonup> int"
  sp_items :: "'o nodes"
  sp_infos :: "'i infos"
  sp_count :: int

text \<open>The fields \<^verbatim>\<open>minv\<close> and \<^verbatim>\<open>maxv\<close> are set once.\<close>

abbreviation minv :: int where "minv \<equiv> 1"
abbreviation maxv :: int where "maxv \<equiv> 2"

definition NewSplay :: "('o, 'i) stored_class \<Rightarrow> ('o, 'i) splay" where
  "NewSplay c =
     \<lparr>sp_root = minv, sp_hash = Map.empty,
      sp_items = [0 \<mapsto> newNode c nilObj (- 1), minv \<mapsto> (newNode c minObj 0)\<lparr>nd_rchild := maxv\<rparr>,
                  maxv \<mapsto> (newNode c maxObj 1)\<lparr>nd_parent := minv\<rparr>],
      sp_infos = [0 \<mapsto> LookupInfo, minv \<mapsto> LookupInfo, maxv \<mapsto> LookupInfo],
      sp_count = 2\<rparr>"

subsection \<open>Reading and writing the slice\<close>

definition upd :: "int \<Rightarrow> ('o node \<Rightarrow> 'o node) \<Rightarrow> 'o nodes \<Rightarrow> 'o nodes option" where
  "upd i f h = (case h i of None \<Rightarrow> None | Some n \<Rightarrow> Some (h(i \<mapsto> f n)))"

text \<open>The index of the child to follow: true for the right one. \<open>q\<close> is the comparison of the searched object.\<close>

definition chooseChildIndex :: "'o nodes \<Rightarrow> ('o \<Rightarrow> bool) \<Rightarrow> int \<Rightarrow> bool option" where
  "chooseChildIndex h q n =
     (if n = minv then Some True
      else if n = maxv then Some False
      else do { nd \<leftarrow> h n; (case nd_obj nd of Obj w \<Rightarrow> Some (q w) | LookupObj _ \<Rightarrow> None) })"

definition getChildIndex :: "'o nodes \<Rightarrow> int \<Rightarrow> int \<Rightarrow> bool option" where
  "getChildIndex h x y = (if y = 0 then Some False else do { ny \<leftarrow> h y; Some (nd_rchild ny = x) })"

definition child_info :: "'i infos \<Rightarrow> int \<Rightarrow> int \<Rightarrow> 'i splay_info option option" where
  "child_info infs i sentinel =
     (if i \<noteq> 0 \<and> i \<noteq> sentinel then do { x \<leftarrow> infs i; Some (Some x) } else Some None)"

definition info_arg :: "'i splay_info option \<Rightarrow> 'i option option" where
  "info_arg x = (case x of None \<Rightarrow> Some None | Some (Info v) \<Rightarrow> Some (Some v) | Some LookupInfo \<Rightarrow> None)"

definition info_Maintain ::
  "('o, 'i) stored_class \<Rightarrow> 'i splay_info \<Rightarrow> 'i splay_info option \<Rightarrow> 'i splay_info option \<Rightarrow> 'i splay_info option" where
  "info_Maintain c x l r =
     (case x of
        LookupInfo \<Rightarrow> Some LookupInfo
      | Info v \<Rightarrow> do { l' \<leftarrow> info_arg l; r' \<leftarrow> info_arg r; Some (Info (sc_Maintain c v l' r')) })"

definition maintain :: "('o, 'i) stored_class \<Rightarrow> ('o, 'i) splay \<Rightarrow> int \<Rightarrow> ('o, 'i) splay option" where
  "maintain c s i =
     do { n \<leftarrow> sp_items s i;
          l \<leftarrow> child_info (sp_infos s) (nd_lchild n) minv;
          r \<leftarrow> child_info (sp_infos s) (nd_rchild n) maxv;
          x \<leftarrow> sp_infos s i;
          x' \<leftarrow> info_Maintain c x l r;
          Some (s\<lparr>sp_infos := (sp_infos s)(i \<mapsto> x')\<rparr>) }"

subsection \<open>Rotating and splaying\<close>

text \<open>The changes \<^verbatim>\<open>rotate\<close> makes to the links, one after the other.\<close>

definition rotate_items :: "'o nodes \<Rightarrow> int \<Rightarrow> int \<Rightarrow> int \<Rightarrow> 'o nodes option" where
  "rotate_items h x y z =
     do { k \<leftarrow> getChildIndex h x y;
          h1 \<leftarrow> (if z \<noteq> 0 then
                  do { kz \<leftarrow> getChildIndex h y z;
                       if kz then upd z (\<lambda>n. n\<lparr>nd_rchild := x\<rparr>) h else upd z (\<lambda>n. n\<lparr>nd_lchild := x\<rparr>) h }
                else Some h);
          h2 \<leftarrow> upd x (\<lambda>n. n\<lparr>nd_parent := z\<rparr>) h1;
          nx \<leftarrow> h2 x;
          h5 \<leftarrow> (if k then
                  do { h3 \<leftarrow> upd y (\<lambda>n. n\<lparr>nd_rchild := nd_lchild nx\<rparr>) h2;
                       h4 \<leftarrow> (if nd_lchild nx \<noteq> 0 then upd (nd_lchild nx) (\<lambda>n. n\<lparr>nd_parent := y\<rparr>) h3 else Some h3);
                       upd x (\<lambda>n. n\<lparr>nd_lchild := y\<rparr>) h4 }
                else
                  do { h3 \<leftarrow> upd y (\<lambda>n. n\<lparr>nd_lchild := nd_rchild nx\<rparr>) h2;
                       h4 \<leftarrow> (if nd_rchild nx \<noteq> 0 then upd (nd_rchild nx) (\<lambda>n. n\<lparr>nd_parent := y\<rparr>) h3 else Some h3);
                       upd x (\<lambda>n. n\<lparr>nd_rchild := y\<rparr>) h4 });
          upd y (\<lambda>n. n\<lparr>nd_parent := x\<rparr>) h5 }"

definition rotate_at :: "('o, 'i) stored_class \<Rightarrow> ('o, 'i) splay \<Rightarrow> int \<Rightarrow> ('o, 'i) splay option" where
  "rotate_at c s x =
     do { nx \<leftarrow> sp_items s x;
          ny \<leftarrow> sp_items s (nd_parent nx);
          h \<leftarrow> rotate_items (sp_items s) x (nd_parent nx) (nd_parent ny);
          s1 \<leftarrow> maintain c (s\<lparr>sp_items := h\<rparr>) (nd_parent nx);
          maintain c s1 x }"

partial_function (option) splay_loop ::
  "('o, 'i) stored_class \<Rightarrow> int \<Rightarrow> int \<Rightarrow> ('o, 'i) splay \<Rightarrow> ('o, 'i) splay option" where
  "splay_loop c x k s =
     do { nx \<leftarrow> sp_items s x;
          if nd_parent nx = k then Some s
          else
            do { let y = nd_parent nx;
                 ny \<leftarrow> sp_items s y;
                 let z = nd_parent ny;
                 s1 \<leftarrow> (if z \<noteq> k then
                         do { kx \<leftarrow> getChildIndex (sp_items s) x y;
                              ky \<leftarrow> getChildIndex (sp_items s) y z;
                              if kx \<noteq> ky then rotate_at c s x else rotate_at c s y }
                       else Some s);
                 s2 \<leftarrow> rotate_at c s1 x;
                 splay_loop c x k s2 } }"

definition splay :: "('o, 'i) stored_class \<Rightarrow> ('o, 'i) splay \<Rightarrow> int \<Rightarrow> int \<Rightarrow> ('o, 'i) splay option" where
  "splay c s x k = do { s1 \<leftarrow> splay_loop c x k s; Some (if k = 0 then s1\<lparr>sp_root := x\<rparr> else s1) }"

subsection \<open>The operations\<close>

partial_function (option) insert_descend :: "'o nodes \<Rightarrow> ('o \<Rightarrow> bool) \<Rightarrow> int \<Rightarrow> int \<Rightarrow> int option" where
  "insert_descend h q p n =
     (if n = 0 then Some p
      else
        do { right \<leftarrow> chooseChildIndex h q n;
             nd \<leftarrow> h n;
             insert_descend h q n (if right then nd_rchild nd else nd_lchild nd) })"

definition Splay_Insert ::
  "('o, 'i) stored_class \<Rightarrow> ('o, 'i) splay \<Rightarrow> 'o \<Rightarrow> (('o, 'i) splay \<times> bool) option" where
  "Splay_Insert c s v =
     (case sp_hash s (sc_Key c v) of
        Some i \<Rightarrow> do { h \<leftarrow> upd i (\<lambda>n. n\<lparr>nd_obj := Obj v\<rparr>) (sp_items s); Some (s\<lparr>sp_items := h\<rparr>, False) }
      | None \<Rightarrow>
          do { p \<leftarrow> insert_descend (sp_items s) (sc_Compare c v) 0 (sp_root s);
               let n = sp_count s + 1;
               let h = (sp_items s)(n \<mapsto> newNode c (Obj v) p);
               h1 \<leftarrow> (if p \<noteq> 0 then
                       do { right \<leftarrow> chooseChildIndex h (sc_Compare c v) p;
                            if right then upd p (\<lambda>m. m\<lparr>nd_rchild := n\<rparr>) h else upd p (\<lambda>m. m\<lparr>nd_lchild := n\<rparr>) h }
                     else Some h);
               s1 \<leftarrow> splay c (s\<lparr>sp_items := h1, sp_infos := (sp_infos s)(n \<mapsto> obj_MakeMaintainInfo c (Obj v)),
                                sp_count := n, sp_hash := (sp_hash s)(sc_Key c v \<mapsto> n)\<rparr>) n 0;
               Some (s1, True) })"

text \<open>The last node of a chain of right (or left) children.\<close>

partial_function (option) chain_end :: "'o nodes \<Rightarrow> bool \<Rightarrow> int \<Rightarrow> int option" where
  "chain_end h right i =
     do { n \<leftarrow> h i;
          let j = (if right then nd_rchild n else nd_lchild n);
          if j \<noteq> 0 then chain_end h right j else Some i }"

text \<open>The second part of \<^verbatim>\<open>Delete\<close>: the last node of the slice takes the place of node \<open>i\<close>.\<close>

definition move_last :: "('o, 'i) splay \<Rightarrow> int \<Rightarrow> ('o, 'i) splay option" where
  "move_last s i =
     (let lastIndex = sp_count s in
      if i \<noteq> lastIndex then
        do { lastNode \<leftarrow> sp_items s lastIndex;
             h1 \<leftarrow> (if nd_parent lastNode \<noteq> 0 then
                     do { right \<leftarrow> getChildIndex (sp_items s) lastIndex (nd_parent lastNode);
                          if right then upd (nd_parent lastNode) (\<lambda>n. n\<lparr>nd_rchild := i\<rparr>) (sp_items s)
                          else upd (nd_parent lastNode) (\<lambda>n. n\<lparr>nd_lchild := i\<rparr>) (sp_items s) }
                   else Some (sp_items s));
             h2 \<leftarrow> (if nd_lchild lastNode \<noteq> 0 then upd (nd_lchild lastNode) (\<lambda>n. n\<lparr>nd_parent := i\<rparr>) h1 else Some h1);
             h3 \<leftarrow> (if nd_rchild lastNode \<noteq> 0 then upd (nd_rchild lastNode) (\<lambda>n. n\<lparr>nd_parent := i\<rparr>) h2 else Some h2);
             moved \<leftarrow> h3 lastIndex;
             info \<leftarrow> sp_infos s lastIndex;
             Some (s\<lparr>sp_hash := (sp_hash s)(nd_key moved \<mapsto> i), sp_items := h3(i \<mapsto> moved),
                     sp_infos := (sp_infos s)(i \<mapsto> info),
                     sp_root := (if sp_root s = lastIndex then i else sp_root s)\<rparr>) }
      else Some s)"

text \<open>The end of \<^verbatim>\<open>Delete\<close>: the slices lose their last element.\<close>

definition drop_last :: "('o, 'i) splay \<Rightarrow> ('o, 'i) splay" where
  "drop_last s =
     s\<lparr>sp_items := sp_items s |` {0..<sp_count s}, sp_infos := sp_infos s |` {0..<sp_count s},
       sp_count := sp_count s - 1\<rparr>"

definition Splay_Delete ::
  "('o, 'i) stored_class \<Rightarrow> ('o, 'i) splay \<Rightarrow> key \<Rightarrow> (('o, 'i) splay \<times> bool) option" where
  "Splay_Delete c s key =
     (case sp_hash s key of
        None \<Rightarrow> Some (s, False)
      | Some i \<Rightarrow>
          do { s1 \<leftarrow> splay c s i 0;
               ni \<leftarrow> sp_items s1 i;
               pre \<leftarrow> chain_end (sp_items s1) True (nd_lchild ni);
               nxt \<leftarrow> chain_end (sp_items s1) False (nd_rchild ni);
               s2 \<leftarrow> splay c s1 pre 0;
               s3 \<leftarrow> splay c s2 nxt pre;
               h \<leftarrow> upd nxt (\<lambda>n. n\<lparr>nd_lchild := 0\<rparr>) (sp_items s3);
               s4 \<leftarrow> maintain c (s3\<lparr>sp_items := h\<rparr>) nxt;
               s5 \<leftarrow> maintain c s4 pre;
               s6 \<leftarrow> move_last (s5\<lparr>sp_hash := (sp_hash s5)(key := None)\<rparr>) i;
               Some (drop_last s6, True) })"

definition Splay_Get :: "('o, 'i) splay \<Rightarrow> key \<Rightarrow> 'o splay_obj option option" where
  "Splay_Get s key =
     (case sp_hash s key of
        None \<Rightarrow> Some None
      | Some i \<Rightarrow> do { n \<leftarrow> sp_items s i; Some (Some (nd_obj n)) })"

partial_function (option) partition_descend :: "'o nodes \<Rightarrow> ('o \<Rightarrow> bool) \<Rightarrow> int \<Rightarrow> int \<Rightarrow> int option" where
  "partition_descend h q nxt p =
     (if p = 0 then Some nxt
      else
        do { right \<leftarrow> chooseChildIndex h q p;
             nd \<leftarrow> h p;
             if right then partition_descend h q nxt (nd_rchild nd) else partition_descend h q p (nd_lchild nd) })"

definition Splay_Partition ::
  "('o, 'i) stored_class \<Rightarrow> ('o, 'i) splay \<Rightarrow> ('o \<Rightarrow> bool) \<Rightarrow> (('o, 'i) splay \<times> 'i splay_info option) option" where
  "Splay_Partition c s q =
     do { s1 \<leftarrow> splay c s minv 0;
          nxt \<leftarrow> partition_descend (sp_items s1) q 0 (sp_root s1);
          s2 \<leftarrow> splay c s1 nxt minv;
          n \<leftarrow> sp_items s2 nxt;
          if nd_lchild n = 0 then Some (s2, None)
          else do { x \<leftarrow> sp_infos s2 (nd_lchild n); Some (s2, Some x) } }"

text \<open>The objects \<^verbatim>\<open>Range\<close> visits, in order.\<close>

partial_function (option) range_dfs :: "'o nodes \<Rightarrow> int \<Rightarrow> 'o splay_obj list option" where
  "range_dfs h i =
     (if i = 0 then Some []
      else
        do { n \<leftarrow> h i;
             l \<leftarrow> range_dfs h (nd_lchild n);
             r \<leftarrow> range_dfs h (nd_rchild n);
             Some (l @ (if i \<noteq> minv \<and> i \<noteq> maxv then [nd_obj n] else []) @ r) })"

definition Splay_Range :: "('o, 'i) splay \<Rightarrow> 'o splay_obj list option" where
  "Splay_Range s = range_dfs (sp_items s) (sp_root s)"

text \<open>The objects \<^verbatim>\<open>ConditionRange\<close> calls its function \<open>f\<close> on, in order: a negative answer ends the visit of
  the subtree only.\<close>

partial_function (option) condition_dfs :: "'o nodes \<Rightarrow> ('o splay_obj \<Rightarrow> bool) \<Rightarrow> int \<Rightarrow> 'o splay_obj list option" where
  "condition_dfs h f i =
     (if i = 0 then Some []
      else
        do { n \<leftarrow> h i;
             l \<leftarrow> condition_dfs h f (nd_lchild n);
             if i \<noteq> minv \<and> i \<noteq> maxv \<and> \<not> f (nd_obj n) then Some (l @ [nd_obj n])
             else
               do { r \<leftarrow> condition_dfs h f (nd_rchild n);
                    Some (l @ (if i \<noteq> minv \<and> i \<noteq> maxv then [nd_obj n] else []) @ r) } })"

definition Splay_ConditionRange :: "('o, 'i) splay \<Rightarrow> ('o splay_obj \<Rightarrow> bool) \<Rightarrow> 'o splay_obj list option" where
  "Splay_ConditionRange s f = condition_dfs (sp_items s) f (sp_root s)"

definition Splay_Len :: "('o, 'i) splay \<Rightarrow> int" where
  "Splay_Len s = sp_count s - 2"

text \<open>\<^verbatim>\<open>Clone\<close> copies as many nodes as the hash has keys, and the three without an object, and builds the hash anew. Slots
  beyond the copied nodes, which no link reaches, are left out.\<close>

primrec clone_hash :: "'o nodes \<Rightarrow> int list \<Rightarrow> (key \<rightharpoonup> int) \<Rightarrow> (key \<rightharpoonup> int) option" where
  "clone_hash items [] hash = Some hash"
| "clone_hash items (i # is) hash = do { n \<leftarrow> items i; clone_hash items is (hash(nd_key n \<mapsto> i)) }"

definition Splay_Clone :: "('o, 'i) splay \<Rightarrow> ('o, 'i) splay option" where
  "Splay_Clone s =
     do { let n = int (card (dom (sp_hash s))) + 3;
          let items = sp_items s |` {0..<n};
          hash \<leftarrow> clone_hash items [3..sp_count s] Map.empty;
          Some \<lparr>sp_root = sp_root s, sp_hash = hash, sp_items = items, sp_infos = sp_infos s |` {0..<n}, sp_count = sp_count s\<rparr> }"

end
