(* ===== verification/Splay_Tree.thy ===== *)
theory Splay_Tree
  imports Splay "HOL-Library.Tree"
begin

section \<open>Rotating and splaying as rotations of a tree\<close>

text \<open>
  The slice of nodes represents a tree of indices (\<open>rep\<close>). A node of the tree is reached through a context, a
  list of frames from the node up to the root (\<open>plug\<close>), and \<open>rotate\<close> turns the innermost frame into a
  child of the node (\<open>lift_frame\<close>). From this follow that the loop of \<open>splay\<close> ends, that it keeps the order of
  the nodes, and that it leaves the summaries of the subtrees right.
\<close>

subsection \<open>Links and payload of a node\<close>

definition lnk :: "'o nodes \<Rightarrow> int \<Rightarrow> (int \<times> int \<times> int) option" where
  "lnk h a = map_option (\<lambda>n. (nd_parent n, nd_lchild n, nd_rchild n)) (h a)"

definition pay :: "'o nodes \<Rightarrow> int \<Rightarrow> (key \<times> 'o splay_obj) option" where
  "pay h a = map_option (\<lambda>n. (nd_key n, nd_obj n)) (h a)"

lemma lnk_upd [simp]:
  "lnk (h(i \<mapsto> n)) a = (if a = i then Some (nd_parent n, nd_lchild n, nd_rchild n) else lnk h a)"
  by (simp add: lnk_def)

lemma pay_upd [simp]: "pay (h(i \<mapsto> n)) a = (if a = i then Some (nd_key n, nd_obj n) else pay h a)"
  by (simp add: pay_def)

lemma lnk_SomeE:
  assumes "lnk h a = Some (p, l, r)"
  obtains n where "h a = Some n" "nd_parent n = p" "nd_lchild n = l" "nd_rchild n = r"
  using assms by (auto simp: lnk_def)

lemma lnk_SomeI: "h a = Some n \<Longrightarrow> lnk h a = Some (nd_parent n, nd_lchild n, nd_rchild n)"
  by (simp add: lnk_def)

lemma pay_eq_dom: "pay h' = pay h \<Longrightarrow> dom h' = dom h"
proof -
  have "dom g = {a. pay g a \<noteq> None}" for g :: "'a nodes"
    by (auto simp: pay_def)
  then show "pay h' = pay h \<Longrightarrow> dom h' = dom h" by simp
qed

subsection \<open>Trees and contexts of indices\<close>

fun rt :: "int tree \<Rightarrow> int" where
  "rt Leaf = 0"
| "rt (Node l a r) = a"

fun rep :: "'o nodes \<Rightarrow> int \<Rightarrow> int tree \<Rightarrow> bool" where
  "rep h p Leaf = True"
| "rep h p (Node l a r) = (a \<noteq> 0 \<and> lnk h a = Some (p, rt l, rt r) \<and> rep h a l \<and> rep h a r)"

type_synonym frame = "bool \<times> int \<times> int tree"

fun plug :: "frame list \<Rightarrow> int tree \<Rightarrow> int tree" where
  "plug [] t = t"
| "plug ((d, a, s) # ctx) t = plug ctx (if d then Node s a t else Node t a s)"

fun top_ix :: "frame list \<Rightarrow> int" where
  "top_ix [] = 0"
| "top_ix ((d, a, s) # ctx) = a"

fun repc :: "'o nodes \<Rightarrow> frame list \<Rightarrow> int \<Rightarrow> bool" where
  "repc h [] i = True"
| "repc h ((d, a, s) # ctx) i =
     (a \<noteq> 0 \<and> lnk h a = Some (top_ix ctx, if d then rt s else i, if d then i else rt s) \<and> rep h a s \<and> repc h ctx a)"

fun lctx :: "frame list \<Rightarrow> int list" where
  "lctx [] = []"
| "lctx ((d, a, s) # ctx) = lctx ctx @ (if d then inorder s @ [a] else [])"

fun rctx :: "frame list \<Rightarrow> int list" where
  "rctx [] = []"
| "rctx ((d, a, s) # ctx) = (if d then [] else a # inorder s) @ rctx ctx"

lemma inorder_plug: "inorder (plug ctx t) = lctx ctx @ inorder t @ rctx ctx"
  by (induction ctx t rule: plug.induct) auto

lemma set_tree_plug: "set_tree (plug ctx t) = set (lctx ctx) \<union> set_tree t \<union> set (rctx ctx)"
  using arg_cong [OF inorder_plug, of set ctx t] by auto

lemma plug_append: "plug (ctx1 @ ctx2) t = plug ctx2 (plug ctx1 t)"
  by (induction ctx1 t rule: plug.induct) auto

lemma rep_plug: "rep h 0 (plug ctx t) \<longleftrightarrow> repc h ctx (rt t) \<and> rep h (top_ix ctx) t"
  by (induction ctx t rule: plug.induct) auto

lemma rt_in: "t \<noteq> Leaf \<Longrightarrow> rt t \<in> set_tree t"
  by (cases t) auto

lemma rep_nonzero: "rep h p t \<Longrightarrow> a \<in> set_tree t \<Longrightarrow> a \<noteq> 0"
  by (induction h p t rule: rep.induct) auto

lemma rt_zero: "rep h p t \<Longrightarrow> rt t = 0 \<longleftrightarrow> t = Leaf"
  by (cases t) auto

lemma repc_nonzero: "repc h ctx i \<Longrightarrow> a \<in> set (lctx ctx) \<union> set (rctx ctx) \<Longrightarrow> a \<noteq> 0"
  by (induction h ctx i rule: repc.induct) (auto split: if_splits dest: rep_nonzero)

lemma rep_frame: "(\<And>a. a \<in> set_tree t \<Longrightarrow> lnk h' a = lnk h a) \<Longrightarrow> rep h p t \<Longrightarrow> rep h' p t"
  by (induction h p t rule: rep.induct) auto

lemma repc_frame:
  "(\<And>a. a \<in> set (lctx ctx) \<union> set (rctx ctx) \<Longrightarrow> lnk h' a = lnk h a) \<Longrightarrow> repc h ctx i \<Longrightarrow> repc h' ctx i"
proof (induction h ctx i rule: repc.induct)
  case (2 h d a s ctx i)
  then show ?case
    using rep_frame [of s h' h a] by (auto split: if_splits)
qed simp

lemma rep_lnk: "rep h p t \<Longrightarrow> a \<in> set_tree t \<Longrightarrow> lnk h a \<noteq> None"
  by (induction h p t rule: rep.induct) auto

text \<open>Making another node the parent of a tree.\<close>

lemma rep_reparent:
  assumes "rep h p t" and "distinct (inorder t)"
    and "\<And>a. a \<in> set_tree t \<Longrightarrow> a \<noteq> rt t \<Longrightarrow> lnk h' a = lnk h a"
    and "t \<noteq> Leaf \<Longrightarrow> \<exists>q l r. lnk h (rt t) = Some (q, l, r) \<and> lnk h' (rt t) = Some (p', l, r)"
  shows "rep h' p' t"
proof (cases t)
  case (Node l a r)
  have "rep h' a l" "rep h' a r"
    using assms(1-3) Node by (auto intro!: rep_frame [of _ h' h])
  then show ?thesis using assms(1,4) Node by auto
qed simp

text \<open>Making another node the child of the innermost frame.\<close>

lemma repc_retarget:
  assumes "repc h ctx i" and "distinct (lctx ctx @ rctx ctx)"
    and "\<And>a. a \<in> set (lctx ctx) \<union> set (rctx ctx) \<Longrightarrow> a \<noteq> top_ix ctx \<Longrightarrow> lnk h' a = lnk h a"
    and "\<And>d a s ctx'. ctx = (d, a, s) # ctx' \<Longrightarrow>
           lnk h' a = Some (top_ix ctx', if d then rt s else j, if d then j else rt s)"
  shows "repc h' ctx j"
proof (cases ctx)
  case (Cons f ctx')
  obtain d a s where f: "f = (d, a, s)" by (cases f) auto
  have d: "a \<notin> set_tree s" "a \<notin> set (lctx ctx') \<union> set (rctx ctx')"
    using assms(2) Cons f by (auto split: if_splits)
  have "rep h' a s"
    by (rule rep_frame [of s h' h]) (use assms(1,3) Cons f d in \<open>auto split: if_splits\<close>)
  moreover have "repc h' ctx' a"
    by (rule repc_frame [of ctx' h' h]) (use assms(1,3) Cons f d in \<open>auto split: if_splits\<close>)
  ultimately show ?thesis using assms(1,4) Cons f by auto
qed simp

subsection \<open>The links after a rotation\<close>

lemma upd_Some: "h i = Some n \<Longrightarrow> upd i f h = Some (h(i \<mapsto> f n))"
  by (simp add: upd_def)

lemma upd_lchild:
  assumes "lnk h i = Some (p, l, r)"
  obtains h' where "upd i (\<lambda>n. n\<lparr>nd_lchild := v\<rparr>) h = Some h'" "lnk h' = (lnk h)(i \<mapsto> (p, v, r))" "pay h' = pay h"
proof -
  obtain n where "h i = Some n" "nd_parent n = p" "nd_lchild n = l" "nd_rchild n = r"
    using assms by (rule lnk_SomeE)
  then show ?thesis
    by (intro that [of "h(i \<mapsto> n\<lparr>nd_lchild := v\<rparr>)"]) (auto simp: upd_def fun_eq_iff lnk_def pay_def)
qed

lemma upd_rchild:
  assumes "lnk h i = Some (p, l, r)"
  obtains h' where "upd i (\<lambda>n. n\<lparr>nd_rchild := v\<rparr>) h = Some h'" "lnk h' = (lnk h)(i \<mapsto> (p, l, v))" "pay h' = pay h"
proof -
  obtain n where "h i = Some n" "nd_parent n = p" "nd_lchild n = l" "nd_rchild n = r"
    using assms by (rule lnk_SomeE)
  then show ?thesis
    by (intro that [of "h(i \<mapsto> n\<lparr>nd_rchild := v\<rparr>)"]) (auto simp: upd_def fun_eq_iff lnk_def pay_def)
qed

lemma upd_parent:
  assumes "lnk h i = Some (p, l, r)"
  obtains h' where "upd i (\<lambda>n. n\<lparr>nd_parent := v\<rparr>) h = Some h'" "lnk h' = (lnk h)(i \<mapsto> (v, l, r))" "pay h' = pay h"
proof -
  obtain n where "h i = Some n" "nd_parent n = p" "nd_lchild n = l" "nd_rchild n = r"
    using assms by (rule lnk_SomeE)
  then show ?thesis
    by (intro that [of "h(i \<mapsto> n\<lparr>nd_parent := v\<rparr>)"]) (auto simp: upd_def fun_eq_iff lnk_def pay_def)
qed

lemma getChildIndex_lnk: "lnk h y = Some (p, l, r) \<Longrightarrow> y \<noteq> 0 \<Longrightarrow> getChildIndex h x y = Some (r = x)"
  by (auto simp: getChildIndex_def elim!: lnk_SomeE)

text \<open>The link from the parent \<open>z\<close> of \<open>y\<close> is redirected to \<open>x\<close>; the parent of \<open>c\<close> becomes \<open>y\<close>, if there is a \<open>c\<close>.\<close>

lemma redirect_child:
  assumes "z \<noteq> 0 \<Longrightarrow> lnk h z = Some (zp, zl, zr)"
  obtains h' where
    "(if z \<noteq> 0 then
        do { kz \<leftarrow> getChildIndex h y z;
             if kz then upd z (\<lambda>n. n\<lparr>nd_rchild := x\<rparr>) h else upd z (\<lambda>n. n\<lparr>nd_lchild := x\<rparr>) h }
      else Some h) = Some h'"
    "lnk h' = (if z \<noteq> 0 then (lnk h)(z \<mapsto> (zp, if zr = y then zl else x, if zr = y then x else zr)) else lnk h)"
    "pay h' = pay h"
proof (cases "z = 0")
  case True
  then show ?thesis by (intro that [of h]) auto
next
  case False
  obtain h1 where "upd z (\<lambda>n. n\<lparr>nd_rchild := x\<rparr>) h = Some h1" "lnk h1 = (lnk h)(z \<mapsto> (zp, zl, x))" "pay h1 = pay h"
    using upd_rchild [OF assms [OF False]] .
  moreover obtain h2 where "upd z (\<lambda>n. n\<lparr>nd_lchild := x\<rparr>) h = Some h2" "lnk h2 = (lnk h)(z \<mapsto> (zp, x, zr))" "pay h2 = pay h"
    using upd_lchild [OF assms [OF False]] .
  ultimately show ?thesis
    using False getChildIndex_lnk [OF assms [OF False] False, of y]
    by (cases "zr = y") (auto intro: that)
qed

lemma redirect_parent:
  assumes "c \<noteq> 0 \<Longrightarrow> lnk h c = Some (cp, cl, cr)"
  obtains h' where "(if c \<noteq> 0 then upd c (\<lambda>n. n\<lparr>nd_parent := y\<rparr>) h else Some h) = Some h'"
    "lnk h' = (if c \<noteq> 0 then (lnk h)(c \<mapsto> (y, cl, cr)) else lnk h)" "pay h' = pay h"
proof (cases "c = 0")
  case True
  then show ?thesis by (intro that [of h]) auto
next
  case False
  obtain h' where "upd c (\<lambda>n. n\<lparr>nd_parent := y\<rparr>) h = Some h'" "lnk h' = (lnk h)(c \<mapsto> (y, cl, cr))" "pay h' = pay h"
    using upd_parent [OF assms [OF False]] .
  with False show ?thesis by (intro that [of h']) simp_all
qed

lemma rotate_items_right:
  assumes x: "lnk h x = Some (y, xl, xr)" and y: "lnk h y = Some (z, yl, x)"
    and z: "z \<noteq> 0 \<Longrightarrow> lnk h z = Some (zp, zl, zr)" and xl: "xl \<noteq> 0 \<Longrightarrow> lnk h xl = Some (x, cl, cr)"
    and ne: "x \<noteq> y" "z \<noteq> x" "z \<noteq> y" "y \<noteq> 0" "xl \<noteq> x" "xl \<noteq> y" "xl \<noteq> 0 \<Longrightarrow> xl \<noteq> z"
  obtains h' where "rotate_items h x y z = Some h'" "pay h' = pay h"
      "lnk h' = (\<lambda>a. if a = x then Some (z, y, xr) else if a = y then Some (x, yl, xl)
                     else if a = z \<and> z \<noteq> 0 then Some (zp, if zr = y then zl else x, if zr = y then x else zr)
                     else if a = xl \<and> xl \<noteq> 0 then Some (y, cl, cr) else lnk h a)"
proof -
  obtain h1 where h1: "(if z \<noteq> 0 then do { kz \<leftarrow> getChildIndex h y z;
             if kz then upd z (\<lambda>n. n\<lparr>nd_rchild := x\<rparr>) h else upd z (\<lambda>n. n\<lparr>nd_lchild := x\<rparr>) h }
      else Some h) = Some h1"
    and l1: "lnk h1 = (if z \<noteq> 0 then (lnk h)(z \<mapsto> (zp, if zr = y then zl else x, if zr = y then x else zr)) else lnk h)"
    and p1: "pay h1 = pay h"
    by (rule redirect_child [OF z, where y = y and x = x])
  obtain h2 where h2: "upd x (\<lambda>n. n\<lparr>nd_parent := z\<rparr>) h1 = Some h2" and l2: "lnk h2 = (lnk h1)(x \<mapsto> (z, xl, xr))"
    and p2: "pay h2 = pay h1"
    by (rule upd_parent [of h1 x y xl xr z]) (use x ne l1 in \<open>auto\<close>)
  obtain nx where nx: "h2 x = Some nx" "nd_lchild nx = xl"
    using l2 by (metis lnk_SomeE fun_upd_same)
  obtain h3 where h3: "upd y (\<lambda>n. n\<lparr>nd_rchild := xl\<rparr>) h2 = Some h3" and l3: "lnk h3 = (lnk h2)(y \<mapsto> (z, yl, xl))"
    and p3: "pay h3 = pay h2"
    by (rule upd_rchild [of h2 y z yl x xl]) (use y ne l1 l2 in \<open>auto\<close>)
  obtain h4 where h4: "(if xl \<noteq> 0 then upd xl (\<lambda>n. n\<lparr>nd_parent := y\<rparr>) h3 else Some h3) = Some h4"
    and l4: "lnk h4 = (if xl \<noteq> 0 then (lnk h3)(xl \<mapsto> (y, cl, cr)) else lnk h3)" and p4: "pay h4 = pay h3"
    by (rule redirect_parent [of xl h3 x cl cr y]) (use xl ne l1 l2 l3 in \<open>auto\<close>)
  obtain h5 where h5: "upd x (\<lambda>n. n\<lparr>nd_lchild := y\<rparr>) h4 = Some h5" and l5: "lnk h5 = (lnk h4)(x \<mapsto> (z, y, xr))"
    and p5: "pay h5 = pay h4"
    by (rule upd_lchild [of h4 x z xl xr y]) (use ne l2 l3 l4 in \<open>auto\<close>)
  obtain h6 where h6: "upd y (\<lambda>n. n\<lparr>nd_parent := x\<rparr>) h5 = Some h6" and l6: "lnk h6 = (lnk h5)(y \<mapsto> (x, yl, xl))"
    and p6: "pay h6 = pay h5"
    by (rule upd_parent [of h5 y z yl xl x]) (use ne l3 l4 l5 in \<open>auto\<close>)
  have "rotate_items h x y z = Some h6"
    using getChildIndex_lnk [OF y \<open>y \<noteq> 0\<close>, of x] h1 h2 nx h3 h4 h5 h6
    unfolding rotate_items_def by (simp split: if_splits)
  moreover have "pay h6 = pay h" by (simp add: p1 p2 p3 p4 p5 p6)
  ultimately show ?thesis
    by (rule that) (use ne in \<open>auto simp: fun_eq_iff l1 l2 l3 l4 l5 l6\<close>)
qed

lemma rotate_items_left:
  assumes x: "lnk h x = Some (y, xl, xr)" and y: "lnk h y = Some (z, x, yr)"
    and z: "z \<noteq> 0 \<Longrightarrow> lnk h z = Some (zp, zl, zr)" and xr: "xr \<noteq> 0 \<Longrightarrow> lnk h xr = Some (x, cl, cr)"
    and ne: "x \<noteq> y" "z \<noteq> x" "z \<noteq> y" "y \<noteq> 0" "yr \<noteq> x" "xr \<noteq> x" "xr \<noteq> y" "xr \<noteq> 0 \<Longrightarrow> xr \<noteq> z"
  obtains h' where "rotate_items h x y z = Some h'" "pay h' = pay h"
      "lnk h' = (\<lambda>a. if a = x then Some (z, xl, y) else if a = y then Some (x, xr, yr)
                     else if a = z \<and> z \<noteq> 0 then Some (zp, if zr = y then zl else x, if zr = y then x else zr)
                     else if a = xr \<and> xr \<noteq> 0 then Some (y, cl, cr) else lnk h a)"
proof -
  obtain h1 where h1: "(if z \<noteq> 0 then do { kz \<leftarrow> getChildIndex h y z;
             if kz then upd z (\<lambda>n. n\<lparr>nd_rchild := x\<rparr>) h else upd z (\<lambda>n. n\<lparr>nd_lchild := x\<rparr>) h }
      else Some h) = Some h1"
    and l1: "lnk h1 = (if z \<noteq> 0 then (lnk h)(z \<mapsto> (zp, if zr = y then zl else x, if zr = y then x else zr)) else lnk h)"
    and p1: "pay h1 = pay h"
    by (rule redirect_child [OF z, where y = y and x = x])
  obtain h2 where h2: "upd x (\<lambda>n. n\<lparr>nd_parent := z\<rparr>) h1 = Some h2" and l2: "lnk h2 = (lnk h1)(x \<mapsto> (z, xl, xr))"
    and p2: "pay h2 = pay h1"
    by (rule upd_parent [of h1 x y xl xr z]) (use x ne l1 in \<open>auto\<close>)
  obtain nx where nx: "h2 x = Some nx" "nd_rchild nx = xr"
    using l2 by (metis lnk_SomeE fun_upd_same)
  obtain h3 where h3: "upd y (\<lambda>n. n\<lparr>nd_lchild := xr\<rparr>) h2 = Some h3" and l3: "lnk h3 = (lnk h2)(y \<mapsto> (z, xr, yr))"
    and p3: "pay h3 = pay h2"
    by (rule upd_lchild [of h2 y z x yr xr]) (use y ne l1 l2 in \<open>auto\<close>)
  obtain h4 where h4: "(if xr \<noteq> 0 then upd xr (\<lambda>n. n\<lparr>nd_parent := y\<rparr>) h3 else Some h3) = Some h4"
    and l4: "lnk h4 = (if xr \<noteq> 0 then (lnk h3)(xr \<mapsto> (y, cl, cr)) else lnk h3)" and p4: "pay h4 = pay h3"
    by (rule redirect_parent [of xr h3 x cl cr y]) (use xr ne l1 l2 l3 in \<open>auto\<close>)
  obtain h5 where h5: "upd x (\<lambda>n. n\<lparr>nd_rchild := y\<rparr>) h4 = Some h5" and l5: "lnk h5 = (lnk h4)(x \<mapsto> (z, xl, y))"
    and p5: "pay h5 = pay h4"
    by (rule upd_rchild [of h4 x z xl xr y]) (use ne l2 l3 l4 in \<open>auto\<close>)
  obtain h6 where h6: "upd y (\<lambda>n. n\<lparr>nd_parent := x\<rparr>) h5 = Some h6" and l6: "lnk h6 = (lnk h5)(y \<mapsto> (x, xr, yr))"
    and p6: "pay h6 = pay h5"
    by (rule upd_parent [of h5 y z xr yr x]) (use ne l3 l4 l5 in \<open>auto\<close>)
  have "rotate_items h x y z = Some h6"
    using getChildIndex_lnk [OF y \<open>y \<noteq> 0\<close>, of x] \<open>yr \<noteq> x\<close> h1 h2 nx h3 h4 h5 h6
    unfolding rotate_items_def by (simp split: if_splits)
  moreover have "pay h6 = pay h" by (simp add: p1 p2 p3 p4 p5 p6)
  ultimately show ?thesis
    by (rule that) (use ne in \<open>auto simp: fun_eq_iff l1 l2 l3 l4 l5 l6\<close>)
qed

text \<open>The subtree of \<open>x\<close> after its rotation over the innermost frame.\<close>

fun lift_frame :: "frame \<Rightarrow> int tree \<Rightarrow> int \<Rightarrow> int tree \<Rightarrow> int tree" where
  "lift_frame (d, y, C) A x B = (if d then Node (Node C y A) x B else Node A x (Node B y C))"

lemma inorder_lift_frame [simp]: "inorder (lift_frame f A x B) = inorder (plug [f] (Node A x B))"
  by (cases f) auto

lemma rt_lift_frame [simp]: "rt (lift_frame f A x B) = x"
  by (cases f) auto

lemma rep_child_lnk: "rep h p t \<Longrightarrow> \<exists>cl cr. rt t \<noteq> 0 \<longrightarrow> lnk h (rt t) = Some (p, cl, cr)"
  by (cases t) auto

lemma rt_notin: "rep h p t \<Longrightarrow> a \<notin> set_tree t \<Longrightarrow> rt t = a \<Longrightarrow> a = 0"
  by (cases t) auto

lemma top_ix_in: "ctx \<noteq> [] \<Longrightarrow> top_ix ctx \<in> set (lctx ctx) \<union> set (rctx ctx)"
  by (cases ctx) (auto split: if_splits)

lemma top_ix_zero: "repc h ctx i \<Longrightarrow> top_ix ctx = 0 \<longleftrightarrow> ctx = []"
  by (cases ctx) auto

text \<open>The context of \<open>y\<close> after \<open>x\<close> has taken its place.\<close>

lemma repc_rotate:
  assumes "repc h ctx y" and "distinct (lctx ctx @ rctx ctx)" and "y \<notin> set (lctx ctx) \<union> set (rctx ctx)" and "y \<noteq> 0"
    and "top_ix ctx \<noteq> 0 \<Longrightarrow> lnk h (top_ix ctx) = Some (zp, zl, zr)"
    and "top_ix ctx \<noteq> 0 \<Longrightarrow> lnk h' (top_ix ctx) = Some (zp, if zr = y then zl else x, if zr = y then x else zr)"
    and "\<And>a. a \<in> set (lctx ctx) \<union> set (rctx ctx) \<Longrightarrow> a \<noteq> top_ix ctx \<Longrightarrow> lnk h' a = lnk h a"
  shows "repc h' ctx x"
proof (rule repc_retarget [OF assms(1,2,7)])
  fix d a s ctx' assume ctx: "ctx = (d, a, s) # ctx'"
  then have "\<not> d \<Longrightarrow> rt s \<noteq> y"
    using assms(1,3,4) rt_notin [of h a s y] by (auto split: if_splits)
  then show "lnk h' a = Some (top_ix ctx', if d then rt s else x, if d then x else rt s)"
    using assms(1,5,6) ctx by (auto split: if_splits)
qed auto

lemma rep_rotate:
  assumes rep: "rep h 0 (plug ((d, y, C) # ctx) (Node A x B))"
    and dist: "distinct (inorder (plug ((d, y, C) # ctx) (Node A x B)))"
  shows "\<exists>h'. rotate_items h x y (top_ix ctx) = Some h' \<and> pay h' = pay h \<and>
              rep h' 0 (plug ctx (lift_frame (d, y, C) A x B))"
proof -
  let ?z = "top_ix ctx" and ?cs = "set (lctx ctx) \<union> set (rctx ctx)"
  have r: "lnk h x = Some (y, rt A, rt B)" "rep h x A" "rep h x B" "rep h y C" "x \<noteq> 0" "y \<noteq> 0"
      "lnk h y = Some (?z, if d then rt C else x, if d then x else rt C)" "repc h ctx y"
    using rep by (auto simp: rep_plug simp del: plug.simps)
  have ds: "distinct (inorder A)" "distinct (inorder B)" "distinct (inorder C)" "distinct (lctx ctx @ rctx ctx)"
      "x \<noteq> y" "x \<notin> set_tree A" "x \<notin> set_tree B" "x \<notin> set_tree C" "y \<notin> set_tree A" "y \<notin> set_tree B" "y \<notin> set_tree C"
    and dj: "set_tree A \<inter> set_tree B = {}" "set_tree A \<inter> set_tree C = {}" "set_tree B \<inter> set_tree C = {}"
    and dc: "?cs \<inter> insert x (insert y (set_tree A \<union> set_tree B \<union> set_tree C)) = {}"
    using dist by (auto simp: inorder_plug simp del: plug.simps split: if_splits)
  have zin: "?z \<noteq> 0 \<Longrightarrow> ?z \<in> ?cs"
    using top_ix_in [of ctx] by (cases ctx) auto
  have zne: "?z \<noteq> x" "?z \<noteq> y" using zin dc r by auto
  have ain: "rt A \<noteq> 0 \<Longrightarrow> rt A \<in> set_tree A" "rt B \<noteq> 0 \<Longrightarrow> rt B \<in> set_tree B"
    using r(2,3) by (auto intro!: rt_in)
  have ane: "rt A \<noteq> x" "rt A \<noteq> y" "rt B \<noteq> x" "rt B \<noteq> y" "rt C \<noteq> x"
    using rt_notin [OF r(2) ds(6)] rt_notin [OF r(2) ds(9)] rt_notin [OF r(3) ds(7)] rt_notin [OF r(3) ds(10)]
      rt_notin [OF r(4) ds(8)] r(5,6) by auto
  have azn: "rt A \<noteq> 0 \<Longrightarrow> rt A \<noteq> ?z" "rt B \<noteq> 0 \<Longrightarrow> rt B \<noteq> ?z"
    using ain zin dc by force+
  obtain zp zl zr where z: "?z \<noteq> 0 \<Longrightarrow> lnk h ?z = Some (zp, zl, zr)"
    using r(8) by (cases ctx) auto
  obtain al ar bl br where cA: "rt A \<noteq> 0 \<Longrightarrow> lnk h (rt A) = Some (x, al, ar)" and cB: "rt B \<noteq> 0 \<Longrightarrow> lnk h (rt B) = Some (x, bl, br)"
    using rep_child_lnk [OF r(2)] rep_child_lnk [OF r(3)] by blast
  show ?thesis
  proof (cases d)
    case True
    obtain h' where h': "rotate_items h x y ?z = Some h'" "pay h' = pay h"
      and l: "lnk h' = (\<lambda>a. if a = x then Some (?z, y, rt B) else if a = y then Some (x, rt C, rt A)
                     else if a = ?z \<and> ?z \<noteq> 0 then Some (zp, if zr = y then zl else x, if zr = y then x else zr)
                     else if a = rt A \<and> rt A \<noteq> 0 then Some (y, al, ar) else lnk h a)"
      by (rule rotate_items_right [of h x y "rt A" "rt B" ?z "rt C" zp zl zr al ar]) (use r True z cA ane azn zne ds in auto)
    have "rep h' x B"
      by (rule rep_frame [OF _ r(3)]) (use l ds dj dc zin ain in auto)
    moreover have "rep h' y C"
      by (rule rep_frame [OF _ r(4)]) (use l ds dj dc zin ain in auto)
    moreover have "rep h' y A"
      by (rule rep_reparent [OF r(2) ds(1)]) (use l ds dc zin ain ane azn cA r(2) in \<open>auto simp: rt_zero\<close>)
    moreover have "repc h' ctx x"
      by (rule repc_rotate [OF r(8) ds(4) _ r(6) z]) (use l ds dc zin ain zne in auto)
    ultimately show ?thesis
      using h' True r l zne ds by (auto simp: rep_plug)
  next
    case False
    obtain h' where h': "rotate_items h x y ?z = Some h'" "pay h' = pay h"
      and l: "lnk h' = (\<lambda>a. if a = x then Some (?z, rt A, y) else if a = y then Some (x, rt B, rt C)
                     else if a = ?z \<and> ?z \<noteq> 0 then Some (zp, if zr = y then zl else x, if zr = y then x else zr)
                     else if a = rt B \<and> rt B \<noteq> 0 then Some (y, bl, br) else lnk h a)"
      by (rule rotate_items_left [of h x y "rt A" "rt B" ?z "rt C" zp zl zr bl br]) (use r False z cB ane azn zne ds in auto)
    have "rep h' x A"
      by (rule rep_frame [OF _ r(2)]) (use l ds dj dc zin ain in auto)
    moreover have "rep h' y C"
      by (rule rep_frame [OF _ r(4)]) (use l ds dj dc zin ain in auto)
    moreover have "rep h' y B"
      by (rule rep_reparent [OF r(3) ds(2)]) (use l ds dc zin ain ane azn cB r(3) in \<open>auto simp: rt_zero\<close>)
    moreover have "repc h' ctx x"
      by (rule repc_rotate [OF r(8) ds(4) _ r(6) z]) (use l ds dc zin ain zne in auto)
    ultimately show ?thesis
      using h' False r l zne ds by (auto simp: rep_plug)
  qed
qed

subsection \<open>The summaries\<close>

definition ob :: "'o nodes \<Rightarrow> int \<Rightarrow> 'o option" where
  "ob h a = (case pay h a of Some (k, Obj v) \<Rightarrow> Some v | _ \<Rightarrow> None)"

lemma ob_pay: "pay h' = pay h \<Longrightarrow> ob h' = ob h"
  by (simp add: ob_def fun_eq_iff)

fun the_info :: "'i splay_info \<Rightarrow> 'i option" where
  "the_info LookupInfo = None"
| "the_info (Info v) = Some v"

text \<open>The summary of a subtree: the object at its root joined with the summaries of the children, a
  sentinel child left out as in \<^verbatim>\<open>maintain\<close>.\<close>

fun smry :: "('o, 'i) stored_class \<Rightarrow> (int \<Rightarrow> 'o option) \<Rightarrow> int tree \<Rightarrow> 'i splay_info" where
  "smry c b Leaf = LookupInfo"
| "smry c b (Node l a r) =
     (case b a of
        None \<Rightarrow> LookupInfo
      | Some v \<Rightarrow> Info (sc_Maintain c (sc_MakeMaintainInfo c v)
                       (if rt l = minv then None else the_info (smry c b l))
                       (if rt r = maxv then None else the_info (smry c b r))))"

declare smry.simps(2) [simp del]

fun info_ok :: "('o, 'i) stored_class \<Rightarrow> (int \<Rightarrow> 'o option) \<Rightarrow> 'i infos \<Rightarrow> int tree \<Rightarrow> bool" where
  "info_ok c b f Leaf = True"
| "info_ok c b f (Node l a r) = (f a = Some (smry c b (Node l a r)) \<and> info_ok c b f l \<and> info_ok c b f r)"

text \<open>An entry that the next \<^verbatim>\<open>maintain\<close> turns into the summary.\<close>

definition based :: "('o, 'i) stored_class \<Rightarrow> 'o option \<Rightarrow> 'i splay_info \<Rightarrow> bool" where
  "based c o' w =
     (case o' of
        None \<Rightarrow> w = LookupInfo
      | Some v \<Rightarrow> \<exists>i. w = Info i \<and> (\<forall>l r. sc_Maintain c i l r = sc_Maintain c (sc_MakeMaintainInfo c v) l r))"

lemma info_ok_frame: "(\<And>a. a \<in> set_tree t \<Longrightarrow> f' a = f a) \<Longrightarrow> info_ok c b f t \<Longrightarrow> info_ok c b f' t"
  by (induction t) auto

definition ends_ok :: "int list \<Rightarrow> bool" where
  "ends_ok xs = (xs \<noteq> [] \<and> distinct xs \<and> hd xs = minv \<and> last xs = maxv)"

lemma ends_ok_children:
  "ends_ok (inorder (plug ctx (Node l a r))) \<Longrightarrow> maxv \<notin> set_tree l \<and> minv \<notin> set_tree r"
proof -
  assume e: "ends_ok (inorder (plug ctx (Node l a r)))"
  let ?u = "lctx ctx @ inorder l @ [a]" and ?v = "a # inorder r @ rctx ctx"
  have "maxv = last ?v" "minv = hd ?u"
    using e by (auto simp: ends_ok_def inorder_plug hd_append)
  then have "maxv \<in> set ?v" "minv \<in> set ?u"
    using last_in_set [of ?v] hd_in_set [of ?u] by simp_all
  then show ?thesis
    using e by (auto simp: ends_ok_def inorder_plug)
qed

text \<open>The slice holds the tree \<open>T\<close> between the two sentinels; every entry of the infos is based on its object.\<close>

definition shape :: "('o, 'i) stored_class \<Rightarrow> ('o, 'i) splay \<Rightarrow> int tree \<Rightarrow> bool" where
  "shape c s T =
     (rep (sp_items s) 0 T \<and> ends_ok (inorder T) \<and>
      (\<forall>a \<in> set_tree T. (ob (sp_items s) a = None \<longleftrightarrow> a \<in> {minv, maxv}) \<and>
                     (\<exists>w. sp_infos s a = Some w \<and> based c (ob (sp_items s) a) w)))"

lemma shape_node:
  "shape c s T \<Longrightarrow> e \<in> set_tree T \<Longrightarrow>
   (ob (sp_items s) e = None \<longleftrightarrow> e \<in> {minv, maxv}) \<and> (\<exists>w. sp_infos s e = Some w \<and> based c (ob (sp_items s) e) w)"
  unfolding shape_def by simp

lemma shapeI:
  assumes "rep (sp_items s) 0 T" and "ends_ok (inorder T)"
    and "\<And>e. e \<in> set_tree T \<Longrightarrow>
      (ob (sp_items s) e = None \<longleftrightarrow> e \<in> {minv, maxv}) \<and> (\<exists>w. sp_infos s e = Some w \<and> based c (ob (sp_items s) e) w)"
  shows "shape c s T"
  unfolding shape_def using assms by simp

text \<open>What rotations leave alone: everything but the links and the infos of the nodes in \<open>X\<close>.\<close>

definition only_links :: "int set \<Rightarrow> ('o, 'i) splay \<Rightarrow> ('o, 'i) splay \<Rightarrow> bool" where
  "only_links X s s' =
     (sp_root s' = sp_root s \<and> sp_hash s' = sp_hash s \<and> sp_count s' = sp_count s \<and>
      pay (sp_items s') = pay (sp_items s) \<and> dom (sp_infos s') = dom (sp_infos s) \<and>
      (\<forall>a. a \<notin> X \<longrightarrow> sp_infos s' a = sp_infos s a))"

lemma only_links_refl [simp]: "only_links X s s"
  by (simp add: only_links_def)

lemma only_links_trans: "only_links X s s' \<Longrightarrow> only_links Y s' s'' \<Longrightarrow> X \<subseteq> Z \<Longrightarrow> Y \<subseteq> Z \<Longrightarrow> only_links Z s s''"
  unfolding only_links_def by (metis subsetD)

lemma only_links_ob: "only_links X s s' \<Longrightarrow> ob (sp_items s') = ob (sp_items s)"
  by (auto simp: only_links_def intro: ob_pay)

lemma info_ok_only_links:
  "only_links X s s' \<Longrightarrow> set_tree t \<inter> X = {} \<Longrightarrow> info_ok c (ob (sp_items s)) (sp_infos s) t \<Longrightarrow>
   info_ok c (ob (sp_items s')) (sp_infos s') t"
  using only_links_ob [of X s s']
  by (auto simp: only_links_def intro!: info_ok_frame [of t "sp_infos s'" "sp_infos s"])

abbreviation state_ok :: "('o, 'i) stored_class \<Rightarrow> ('o, 'i) splay \<Rightarrow> int tree \<Rightarrow> bool" where
  "state_ok c s t \<equiv> info_ok c (ob (sp_items s)) (sp_infos s) t"

definition frames_ok :: "('o, 'i) stored_class \<Rightarrow> ('o, 'i) splay \<Rightarrow> frame list \<Rightarrow> bool" where
  "frames_ok c s ctx = (\<forall>f \<in> set ctx. state_ok c s (snd (snd f)))"

lemma frames_ok_Nil [simp]: "frames_ok c s []"
  by (simp add: frames_ok_def)

lemma frames_ok_Cons [simp]: "frames_ok c s ((d, a, t) # ctx) \<longleftrightarrow> state_ok c s t \<and> frames_ok c s ctx"
  by (simp add: frames_ok_def)

lemma frames_ok_append [simp]: "frames_ok c s (ctx @ ctx') \<longleftrightarrow> frames_ok c s ctx \<and> frames_ok c s ctx'"
  by (auto simp: frames_ok_def)

lemma lctx_append [simp]: "lctx (ctx @ ctx') = lctx ctx' @ lctx ctx"
  by (induction ctx rule: lctx.induct) auto

lemma rctx_append [simp]: "rctx (ctx @ ctx') = rctx ctx @ rctx ctx'"
  by (induction ctx rule: rctx.induct) auto

lemma frame_tree_sub: "f \<in> set ctx \<Longrightarrow> set_tree (snd (snd f)) \<subseteq> set (lctx ctx) \<union> set (rctx ctx)"
  by (induction ctx rule: lctx.induct) auto

lemma frames_ok_only_links:
  "only_links X s s' \<Longrightarrow> (set (lctx ctx) \<union> set (rctx ctx)) \<inter> X = {} \<Longrightarrow> frames_ok c s ctx \<Longrightarrow> frames_ok c s' ctx"
  unfolding frames_ok_def using info_ok_only_links [of X s s'] frame_tree_sub [of _ ctx] by blast

text \<open>The node \<open>x\<close> has been lifted to the root of the subtree \<open>t\<close>.\<close>

definition lifted :: "('o, 'i) stored_class \<Rightarrow> ('o, 'i) splay \<Rightarrow> frame list \<Rightarrow> int tree \<Rightarrow> int \<Rightarrow> ('o, 'i) splay \<Rightarrow> bool" where
  "lifted c s ctx t x s' =
     (\<exists>A B. shape c s' (plug ctx (Node A x B)) \<and> inorder (Node A x B) = inorder t \<and>
            state_ok c s' (Node A x B) \<and> only_links (set_tree t) s s')"

locale summary_class =
  fixes c :: "('o, 'i) stored_class"
  assumes maintain_again:
    "sc_Maintain c (sc_Maintain c (sc_MakeMaintainInfo c v) l r) l' r' = sc_Maintain c (sc_MakeMaintainInfo c v) l' r'"
begin

lemma based_smry: "based c (ob h a) (smry c (ob h) (Node l a r))"
  using maintain_again by (auto simp: based_def smry.simps(2) split: option.splits)

lemma info_ok_the_info:
  "info_ok c b f t \<Longrightarrow> rt t \<noteq> 0 \<Longrightarrow> f (rt t) = Some (smry c b t)"
  by (cases t) auto

text \<open>Under the condition that the children are represented, \<^verbatim>\<open>maintain\<close> succeeds; where their infos are their
  summaries, so is the new entry.\<close>

lemma maintain_node:
  assumes lnk: "lnk (sp_items s) a = Some (p, rt l, rt r)" and rep: "rep (sp_items s) a l" "rep (sp_items s) a r"
    and ends: "maxv \<notin> set_tree l" "minv \<notin> set_tree r"
    and ok: "\<And>e. e \<in> insert a (set_tree l \<union> set_tree r) \<Longrightarrow> (ob (sp_items s) e = None \<longleftrightarrow> e \<in> {minv, maxv}) \<and>
                     (\<exists>w. sp_infos s e = Some w \<and> based c (ob (sp_items s) e) w)"
  shows "\<exists>w. maintain c s a = Some (s\<lparr>sp_infos := (sp_infos s)(a \<mapsto> w)\<rparr>) \<and> based c (ob (sp_items s) a) w \<and>
             (info_ok c (ob (sp_items s)) (sp_infos s) l \<and> info_ok c (ob (sp_items s)) (sp_infos s) r \<longrightarrow>
                w = smry c (ob (sp_items s)) (Node l a r))"
proof -
  let ?b = "ob (sp_items s)" and ?f = "sp_infos s"
  have child: "\<exists>x. child_info ?f (rt t) e = Some x \<and> (\<exists>y. info_arg x = Some y \<and>
         (info_ok c ?b ?f t \<longrightarrow> y = (if rt t = e then None else the_info (smry c ?b t))))"
    if t: "t = l \<or> t = r" and e: "e = minv \<and> maxv \<notin> set_tree t \<or> e = maxv \<and> minv \<notin> set_tree t" for t e
  proof (cases "rt t = 0 \<or> rt t = e")
    case True
    then have "t = Leaf \<or> rt t = e" using rep t rt_zero by blast
    then show ?thesis using True by (auto simp: child_info_def info_arg_def)
  next
    case False
    then have "rt t \<in> set_tree t" by (intro rt_in) auto
    then obtain v i where "?b (rt t) = Some v" "?f (rt t) = Some (Info i)"
      using ok [of "rt t"] t e False by (auto simp: based_def)
    then show ?thesis
      using False info_ok_the_info [of ?b ?f t]
      by (auto simp: child_info_def info_arg_def) (metis the_info.simps(2))
  qed
  obtain n where n: "sp_items s a = Some n" "nd_lchild n = rt l" "nd_rchild n = rt r"
    using lnk by (rule lnk_SomeE)
  obtain w where w: "?f a = Some w" "based c (?b a) w" using ok [of a] by auto
  obtain xl yl where xl: "child_info ?f (rt l) minv = Some xl" "info_arg xl = Some yl"
      "info_ok c ?b ?f l \<Longrightarrow> yl = (if rt l = minv then None else the_info (smry c ?b l))"
    using child [of l minv] ends by auto
  obtain xr yr where xr: "child_info ?f (rt r) maxv = Some xr" "info_arg xr = Some yr"
      "info_ok c ?b ?f r \<Longrightarrow> yr = (if rt r = maxv then None else the_info (smry c ?b r))"
    using child [of r maxv] ends by auto
  show ?thesis
  proof (cases "?b a")
    case None
    then show ?thesis
      using w n xl xr by (auto simp: maintain_def info_Maintain_def based_def smry.simps(2))
  next
    case (Some v)
    then obtain i where i: "w = Info i" "\<And>l r. sc_Maintain c i l r = sc_Maintain c (sc_MakeMaintainInfo c v) l r"
      using w by (auto simp: based_def)
    then show ?thesis
      using Some w n xl xr maintain_again by (auto simp: maintain_def info_Maintain_def based_def smry.simps(2))
  qed
qed

lemma maintain_shape:
  assumes sh: "shape c s (plug ctx (Node l a r))"
  shows "\<exists>s'. maintain c s a = Some s' \<and> shape c s' (plug ctx (Node l a r)) \<and> only_links {a} s s' \<and> sp_items s' = sp_items s \<and>
    (info_ok c (ob (sp_items s)) (sp_infos s) l \<and> info_ok c (ob (sp_items s)) (sp_infos s) r \<longrightarrow>
       info_ok c (ob (sp_items s')) (sp_infos s') (Node l a r))"
proof -
  let ?T = "plug ctx (Node l a r)" and ?b = "ob (sp_items s)"
  have in_T: "insert a (set_tree l \<union> set_tree r) \<subseteq> set_tree ?T"
    by (auto simp: set_tree_plug)
  have rep: "rep (sp_items s) 0 ?T" and dist: "a \<notin> set_tree l \<union> set_tree r"
    using sh by (auto simp: shape_def ends_ok_def inorder_plug)
  have ends: "maxv \<notin> set_tree l" "minv \<notin> set_tree r"
    using sh ends_ok_children [of ctx l a r] by (auto simp: shape_def)
  have lr: "lnk (sp_items s) a = Some (top_ix ctx, rt l, rt r)" "rep (sp_items s) a l" "rep (sp_items s) a r"
    using rep by (auto simp: rep_plug)
  have ok: "(?b e = None \<longleftrightarrow> e \<in> {minv, maxv}) \<and> (\<exists>w. sp_infos s e = Some w \<and> based c (?b e) w)"
    if "e \<in> insert a (set_tree l \<union> set_tree r)" for e
    using shape_node [OF sh subsetD [OF in_T that]] .
  obtain w where w: "maintain c s a = Some (s\<lparr>sp_infos := (sp_infos s)(a \<mapsto> w)\<rparr>)" "based c (?b a) w"
      "info_ok c ?b (sp_infos s) l \<Longrightarrow> info_ok c ?b (sp_infos s) r \<Longrightarrow> w = smry c ?b (Node l a r)"
    using maintain_node [OF lr ends ok] by blast
  let ?s = "s\<lparr>sp_infos := (sp_infos s)(a \<mapsto> w)\<rparr>"
  have "a \<in> dom (sp_infos s)" using sh in_T by (auto simp: shape_def)
  then have "only_links {a} s ?s" by (auto simp: only_links_def)
  moreover have "shape c ?s ?T" using sh w(2) by (auto simp: shape_def)
  moreover have "info_ok c (ob (sp_items ?s)) (sp_infos ?s) (Node l a r)"
    if "info_ok c ?b (sp_infos s) l" "info_ok c ?b (sp_infos s) r"
    using that w(3) dist by (auto intro!: info_ok_frame [where f = "sp_infos s"])
  ultimately show ?thesis using w(1) by auto
qed

text \<open>A rotation of the model is a rotation of the tree.\<close>

lemma rotate_shape:
  assumes sh: "shape c s (plug ((d, y, C) # ctx) (Node A x B))"
  shows "\<exists>s'. rotate_at c s x = Some s' \<and> shape c s' (plug ctx (lift_frame (d, y, C) A x B)) \<and> only_links {x, y} s s' \<and>
    (info_ok c (ob (sp_items s)) (sp_infos s) C \<and> info_ok c (ob (sp_items s)) (sp_infos s) (if d then A else B) \<longrightarrow>
       info_ok c (ob (sp_items s')) (sp_infos s') (if d then Node C y A else Node B y C) \<and>
       (info_ok c (ob (sp_items s)) (sp_infos s) (if d then B else A) \<longrightarrow>
          info_ok c (ob (sp_items s')) (sp_infos s') (lift_frame (d, y, C) A x B)))"
proof -
  let ?h = "sp_items s" and ?T = "plug ((d, y, C) # ctx) (Node A x B)" and ?T' = "plug ctx (lift_frame (d, y, C) A x B)"
  let ?ok = "\<lambda>s t. info_ok c (ob (sp_items s)) (sp_infos s) t"
  have rep: "rep ?h 0 ?T" and dist: "distinct (inorder ?T)"
    using sh by (auto simp: shape_def ends_ok_def)
  have lx: "lnk ?h x = Some (y, rt A, rt B)" and ly: "lnk ?h y = Some (top_ix ctx, if d then rt C else x, if d then x else rt C)"
    using rep by (auto simp: rep_plug simp del: plug.simps)
  obtain h' where h': "rotate_items ?h x y (top_ix ctx) = Some h'" "pay h' = pay ?h" "rep h' 0 ?T'"
    using rep_rotate [OF rep dist] by blast
  let ?s1 = "s\<lparr>sp_items := h'\<rparr>" and ?l = "if d then C else B" and ?r = "if d then A else C"
  have obs: "ob h' = ob ?h" using h'(2) by (rule ob_pay)
  have io: "inorder ?T' = inorder ?T" by (simp add: inorder_plug)
  then have st: "set_tree ?T' = set_tree ?T" by (metis set_inorder)
  have sh1: "shape c ?s1 ?T'" using sh h'(3) obs io st by (simp add: shape_def)
  have T': "?T' = plug ((\<not> d, x, if d then B else A) # ctx) (Node ?l y ?r)" by auto
  obtain s2 where s2: "maintain c ?s1 y = Some s2" "shape c s2 ?T'" "only_links {y} ?s1 s2" "sp_items s2 = h'"
      "?ok ?s1 ?l \<Longrightarrow> ?ok ?s1 ?r \<Longrightarrow> ?ok s2 (Node ?l y ?r)"
    using maintain_shape [OF sh1 [unfolded T']] T' by auto
  let ?L = "if d then Node ?l y ?r else A" and ?R = "if d then B else Node ?l y ?r"
  have T'': "lift_frame (d, y, C) A x B = Node ?L x ?R" by auto
  obtain s3 where s3: "maintain c s2 x = Some s3" "shape c s3 ?T'" "only_links {x} s2 s3"
      "?ok s2 ?L \<Longrightarrow> ?ok s2 ?R \<Longrightarrow> ?ok s3 (Node ?L x ?R)"
    using maintain_shape [OF s2(2) [unfolded T'']] T'' by auto
  have rot: "rotate_at c s x = Some s3"
    using lx ly h'(1) s2(1) s3(1) by (auto simp: rotate_at_def elim!: lnk_SomeE)
  have ol: "only_links {x, y} s s3"
    using s2(3) s3(3) h'(2) by (auto simp: only_links_def)
  have Y: "?ok s2 (Node ?l y ?r)" if "?ok s C" "?ok s (if d then A else B)"
    by (rule s2(5)) (use that obs in \<open>auto split: if_splits\<close>)
  have okY: "?ok s3 (Node ?l y ?r)" if "?ok s C" "?ok s (if d then A else B)"
    by (rule info_ok_only_links [OF s3(3) _ Y [OF that]])
      (use dist in \<open>auto simp: inorder_plug simp del: plug.simps split: if_splits\<close>)
  have okO: "?ok s2 (if d then B else A)" if "?ok s (if d then B else A)"
    by (rule info_ok_only_links [OF s2(3)])
      (use that obs dist in \<open>auto simp: inorder_plug simp del: plug.simps split: if_splits\<close>)
  have okX: "?ok s3 (Node ?L x ?R)" if "?ok s C" "?ok s (if d then A else B)" "?ok s (if d then B else A)"
    by (intro s3(4)) (use that Y okO in \<open>auto split: if_splits\<close>)
  show ?thesis
    using s3(2) T'' rot ol okY okX by (intro exI [of _ s3]) (simp split: if_splits)
qed

lemma shape_distinct: "shape c s T \<Longrightarrow> distinct (inorder T)"
  by (simp add: shape_def ends_ok_def)

lemma rotate_lifted:
  assumes "shape c s (plug (f # ctx) (Node A x B))" and "state_ok c s A" "state_ok c s B" "frames_ok c s [f]"
  shows "\<exists>s'. rotate_at c s x = Some s' \<and> lifted c s ctx (plug [f] (Node A x B)) x s'"
proof -
  obtain d y C where f: "f = (d, y, C)" by (cases f) auto
  obtain s' where s': "rotate_at c s x = Some s'" "shape c s' (plug ctx (lift_frame f A x B))" "only_links {x, y} s s'"
      "state_ok c s' (lift_frame f A x B)"
    using rotate_shape [OF assms(1) [unfolded f]] assms(2-4) f by (cases d) auto
  obtain L R where L: "lift_frame f A x B = Node L x R"
    using f by (cases d) auto
  have "only_links (set_tree (plug [f] (Node A x B))) s s'"
    using s'(3) f by (auto simp: only_links_def)
  then have "lifted c s ctx (plug [f] (Node A x B)) x s'"
    unfolding lifted_def using s' L by (metis inorder_lift_frame)
  with s'(1) show ?thesis by blast
qed

lemma lifted_trans:
  assumes "lifted c s (fs @ ctx) t x s1" and "shape c s (plug (fs @ ctx) t)" and "frames_ok c s fs"
  obtains A B where "shape c s1 (plug (fs @ ctx) (Node A x B))" "state_ok c s1 (Node A x B)" "frames_ok c s1 fs"
    "\<And>s2. lifted c s1 ctx (plug fs (Node A x B)) x s2 \<Longrightarrow> lifted c s ctx (plug fs t) x s2"
proof -
  obtain A B where AB: "shape c s1 (plug (fs @ ctx) (Node A x B))" "inorder (Node A x B) = inorder t"
      "state_ok c s1 (Node A x B)" "only_links (set_tree t) s s1"
    using assms(1) by (auto simp: lifted_def)
  have fr: "frames_ok c s1 fs"
    by (rule frames_ok_only_links [OF AB(4) _ assms(3)])
      (use shape_distinct [OF assms(2)] in \<open>auto simp: inorder_plug\<close>)
  have io: "inorder (plug fs (Node A x B)) = inorder (plug fs t)"
    using AB(2) by (simp add: inorder_plug)
  then have st: "set_tree (plug fs (Node A x B)) = set_tree (plug fs t)" by (metis set_inorder)
  have "only_links (set_tree (plug fs t)) s s2" if "only_links (set_tree (plug fs t)) s1 s2" for s2
    by (rule only_links_trans [OF AB(4) that]) (auto simp: set_tree_plug)
  then have "lifted c s ctx (plug fs t) x s2" if "lifted c s1 ctx (plug fs (Node A x B)) x s2" for s2
    using that io st unfolding lifted_def by auto
  with AB fr show ?thesis by (intro that) auto
qed

lemma zig_zag:
  assumes "shape c s (plug (f # g # ctx) (Node A x B))" and "state_ok c s A" "state_ok c s B" "frames_ok c s [f, g]"
  shows "\<exists>s1 s2. rotate_at c s x = Some s1 \<and> rotate_at c s1 x = Some s2 \<and> lifted c s ctx (plug [f, g] (Node A x B)) x s2"
proof -
  have fr: "frames_ok c s [f]" "frames_ok c s [g]"
    using assms(4) by (auto simp: frames_ok_def)
  have eq: "plug (f # g # ctx) t = plug ([g] @ ctx) (plug [f] t)" "plug [g] (plug [f] t) = plug [f, g] t" for t
    by (cases f; cases g; simp)+
  obtain s1 where s1: "rotate_at c s x = Some s1" "lifted c s (g # ctx) (plug [f] (Node A x B)) x s1"
    using rotate_lifted [OF assms(1-3) fr(1)] by blast
  obtain A' B' where AB: "shape c s1 (plug ([g] @ ctx) (Node A' x B'))" "state_ok c s1 (Node A' x B')" "frames_ok c s1 [g]"
      "\<And>s2. lifted c s1 ctx (plug [g] (Node A' x B')) x s2 \<Longrightarrow> lifted c s ctx (plug [g] (plug [f] (Node A x B))) x s2"
    by (rule lifted_trans [of s "[g]" ctx "plug [f] (Node A x B)" x s1])
      (use s1(2) assms(1) fr eq in auto)
  then obtain s2 where "rotate_at c s1 x = Some s2" "lifted c s1 ctx (plug [g] (Node A' x B')) x s2"
    using rotate_lifted [of s1 g ctx A' x B'] by auto
  with s1 AB(4) show ?thesis unfolding eq(2) by blast
qed

lemma zig_zig:
  assumes sh: "shape c s (plug ((d, y, S1) # (d, z, S2) # ctx) (Node A x B))"
    and ok: "state_ok c s A" "state_ok c s B" "state_ok c s S1" "state_ok c s S2"
  shows "\<exists>s1 s2. rotate_at c s y = Some s1 \<and> rotate_at c s1 x = Some s2 \<and>
    lifted c s ctx (plug [(d, y, S1), (d, z, S2)] (Node A x B)) x s2"
proof -
  let ?N = "Node A x B" and ?S = "if d then Node S2 z S1 else Node S1 z S2"
  let ?L = "if d then S1 else ?N" and ?R = "if d then ?N else S1"
  have sh1: "shape c s (plug ((d, z, S2) # ctx) (Node ?L y ?R))" using sh by (cases d) auto
  obtain s1 where s1: "rotate_at c s y = Some s1" "shape c s1 (plug ctx (lift_frame (d, z, S2) ?L y ?R))"
      "only_links {y, z} s s1" "state_ok c s1 ?S"
    using rotate_shape [OF sh1] ok by (cases d) auto
  have sh2: "shape c s1 (plug ((d, y, ?S) # ctx) ?N)" using s1(2) by (cases d) auto
  have ok1: "state_ok c s1 A" "state_ok c s1 B"
    using shape_distinct [OF sh] ok
    by (auto intro!: info_ok_only_links [OF s1(3)] simp: inorder_plug simp del: plug.simps split: if_splits)
  obtain s2 where s2: "rotate_at c s1 x = Some s2" "lifted c s1 ctx (plug [(d, y, ?S)] ?N) x s2"
    using rotate_lifted [OF sh2 ok1] s1(4) by auto
  have io: "inorder (plug [(d, y, ?S)] ?N) = inorder (plug [(d, y, S1), (d, z, S2)] ?N)" by (cases d) auto
  then have st: "set_tree (plug [(d, y, ?S)] ?N) = set_tree (plug [(d, y, S1), (d, z, S2)] ?N)" by (metis set_inorder)
  have "only_links (set_tree (plug [(d, y, S1), (d, z, S2)] ?N)) s s'"
    if "only_links (set_tree (plug [(d, y, S1), (d, z, S2)] ?N)) s1 s'" for s'
    by (rule only_links_trans [OF s1(3) that]) auto
  then have "lifted c s ctx (plug [(d, y, S1), (d, z, S2)] ?N) x s2"
    using s2(2) io st unfolding lifted_def by metis
  with s1 s2 show ?thesis by blast
qed

lemma shape_repc: "shape c s (plug ctx t) \<Longrightarrow> repc (sp_items s) ctx (rt t) \<and> rep (sp_items s) (top_ix ctx) t"
  by (simp add: shape_def rep_plug)

lemma top_ix_ne:
  assumes "shape c s (plug (((d, y, C) # ctx1) @ ctx2) t)"
  shows "y \<noteq> top_ix ctx2" "y \<noteq> 0"
proof -
  show "y \<noteq> 0" using shape_repc [OF assms] by auto
  then show "y \<noteq> top_ix ctx2"
    using shape_distinct [OF assms] top_ix_in [of ctx2]
    by (cases "ctx2 = []") (auto simp: inorder_plug simp del: plug.simps split: if_splits)
qed

lemma splay_loop_stop: "shape c s (plug ctx (Node A x B)) \<Longrightarrow> splay_loop c x (top_ix ctx) s = Some s"
  using shape_repc [of s ctx "Node A x B"] by (subst splay_loop.simps) (auto elim!: lnk_SomeE)

text \<open>The two comparisons of \<^verbatim>\<open>splay\<close> read the directions of the two innermost frames.\<close>

lemma getChildIndex_frame:
  assumes "shape c s (plug ((d, y, C) # ctx) t)" and "t \<noteq> Leaf"
  shows "getChildIndex (sp_items s) (rt t) y = Some d"
proof -
  have "rt t \<noteq> rt C" if "\<not> d"
    using shape_distinct [OF assms(1)] shape_repc [OF assms(1)] rt_in [OF assms(2)] rt_in [of C] that
    by (cases C) (auto simp: inorder_plug simp del: plug.simps dest: rep_nonzero)
  then show ?thesis
    using shape_repc [OF assms(1)] by (auto simp: getChildIndex_lnk)
qed

lemma splay_loop_lifted:
  assumes "shape c s (plug (ctx1 @ ctx2) (Node A x B))" and "ctx1 \<noteq> []"
    and "state_ok c s A" "state_ok c s B" "frames_ok c s ctx1"
  shows "\<exists>s'. splay_loop c x (top_ix ctx2) s = Some s' \<and> lifted c s ctx2 (plug ctx1 (Node A x B)) x s'"
  using assms
proof (induction "length ctx1" arbitrary: ctx1 s A B rule: less_induct)
  case less
  let ?k = "top_ix ctx2" and ?N = "Node A x B"
  obtain d y C fs where c1: "ctx1 = (d, y, C) # fs" using less.prems(2) by (cases ctx1) auto
  note sh = less.prems(1)
  have px: "lnk (sp_items s) x = Some (y, rt A, rt B)"
    and py: "lnk (sp_items s) y = Some (top_ix (fs @ ctx2), if d then rt C else x, if d then x else rt C)"
    using shape_repc [OF sh] c1 by auto
  have yk: "y \<noteq> ?k" using top_ix_ne sh c1 by blast
  show ?case
  proof (cases fs)
    case Nil
    obtain s1 where s1: "rotate_at c s x = Some s1" "lifted c s ctx2 (plug ctx1 ?N) x s1"
      using rotate_lifted [of s "(d, y, C)" ctx2 A x B] less.prems c1 Nil by auto
    have "splay_loop c x ?k s = splay_loop c x ?k s1"
      using px py yk s1(1) Nil by (subst splay_loop.simps) (auto elim!: lnk_SomeE)
    then show ?thesis
      using s1(2) splay_loop_stop [of s1 ctx2] by (auto simp: lifted_def)
  next
    case (Cons g fs')
    obtain e z D where g: "g = (e, z, D)" by (cases g) auto
    have zk: "z \<noteq> ?k" "z \<noteq> 0"
      using top_ix_ne [of s e z D fs' ctx2 "plug [(d, y, C)] ?N"] sh c1 Cons g by auto
    have kx: "getChildIndex (sp_items s) x y = Some d"
      using getChildIndex_frame [of s d y C "fs @ ctx2" ?N] sh c1 by auto
    have ky: "getChildIndex (sp_items s) y z = Some e"
      using getChildIndex_frame [of s e z D "fs' @ ctx2" "plug [(d, y, C)] ?N"] sh c1 Cons g by (cases d) auto
    have sh': "shape c s (plug ((d, y, C) # (e, z, D) # (fs' @ ctx2)) ?N)" using sh c1 Cons g by simp
    obtain s1 s2 where step: "(if d \<noteq> e then rotate_at c s x else rotate_at c s y) = Some s1" "rotate_at c s1 x = Some s2"
        and l: "lifted c s (fs' @ ctx2) (plug [(d, y, C), (e, z, D)] ?N) x s2"
    proof (cases "d = e")
      case True
      then show ?thesis
        using that zig_zig [of s d y C z D "fs' @ ctx2" A x B] sh' less.prems(3-5) c1 Cons g by auto
    next
      case False
      then show ?thesis
        using that zig_zag [OF sh'] less.prems(3-5) c1 Cons g by auto
    qed
    have go: "splay_loop c x ?k s = splay_loop c x ?k s2"
      using px py yk zk kx ky step Cons g by (subst splay_loop.simps) (auto elim!: lnk_SomeE)
    have eq: "plug fs' (plug [(d, y, C), (e, z, D)] ?N) = plug ctx1 ?N"
      using c1 Cons g by simp
    obtain A' B' where AB: "shape c s2 (plug (fs' @ ctx2) (Node A' x B'))" "state_ok c s2 (Node A' x B')" "frames_ok c s2 fs'"
        "\<And>s3. lifted c s2 ctx2 (plug fs' (Node A' x B')) x s3 \<Longrightarrow> lifted c s ctx2 (plug ctx1 ?N) x s3"
      by (rule lifted_trans [OF l]) (use sh less.prems(5) c1 Cons g eq in auto)
    show ?thesis
    proof (cases "fs' = []")
      case True
      then have "lifted c s ctx2 (plug ctx1 ?N) x s2" using l c1 Cons g by simp
      moreover have "splay_loop c x ?k s2 = Some s2" using splay_loop_stop AB(1) True by auto
      ultimately show ?thesis using go by auto
    next
      case False
      then obtain s3 where "splay_loop c x ?k s2 = Some s3" "lifted c s2 ctx2 (plug fs' (Node A' x B')) x s3"
        using less.hyps [of fs' s2 A' B'] AB(1-3) c1 Cons by auto
      then show ?thesis using go AB(4) by auto
    qed
  qed
qed

text \<open>Splaying a node of a represented tree below the node \<open>k\<close>, or to the root.\<close>

lemma splay_shape:
  assumes sh: "shape c s (plug (ctx1 @ ctx2) (Node A x B))" and "frames_ok c s ctx1"
    and "state_ok c s (Node A x B) \<or> ctx1 \<noteq> [] \<and> state_ok c s A \<and> state_ok c s B" and "k = top_ix ctx2"
  obtains s' A' B' where "splay c s x k = Some s'" "shape c s' (plug ctx2 (Node A' x B'))" "state_ok c s' (Node A' x B')"
    "inorder (Node A' x B') = inorder (plug ctx1 (Node A x B))" "sp_root s' = (if k = 0 then x else sp_root s)"
    "only_links (set_tree (plug ctx1 (Node A x B))) s (s'\<lparr>sp_root := sp_root s\<rparr>)"
proof -
  have "\<exists>s1. splay_loop c x k s = Some s1 \<and> lifted c s ctx2 (plug ctx1 (Node A x B)) x s1"
  proof (cases "ctx1 = []")
    case True
    then have "lifted c s ctx2 (plug ctx1 (Node A x B)) x s"
      unfolding lifted_def using assms by (intro exI [of _ A] exI [of _ B]) auto
    then show ?thesis using splay_loop_stop [of s ctx2 A x B] sh True assms(4) by auto
  next
    case False
    then show ?thesis using splay_loop_lifted [OF sh False] assms by auto
  qed
  then obtain s1 A' B' where s1: "splay_loop c x k s = Some s1" "shape c s1 (plug ctx2 (Node A' x B'))"
      "inorder (Node A' x B') = inorder (plug ctx1 (Node A x B))" "state_ok c s1 (Node A' x B')"
      "only_links (set_tree (plug ctx1 (Node A x B))) s s1"
    unfolding lifted_def by blast
  let ?s = "if k = 0 then s1\<lparr>sp_root := x\<rparr> else s1"
  show ?thesis
    by (rule that [of ?s A' B']) (use s1 in \<open>auto simp: splay_def shape_def only_links_def\<close>)
qed

end

end
