(* ===== verification/Splay_Ops.thy ===== *)
theory Splay_Ops
  imports Splay_Tree
begin

section \<open>The operations of the splay tree\<close>

text \<open>
  The relation \<open>splay_holds c s xs\<close> says that the slice represents a tree between the two sentinels whose objects,
  in order, are the list \<open>xs\<close>, that the hash holds exactly their keys, and that every summary is the one of its
  subtree. Each operation is shown to return (no panic, no endless loop) and to act on the list: insertion
  at the place the order gives, deletion of the key, and no change by \<^verbatim>\<open>Partition\<close>, whose
  result summarises the objects below the bound.
\<close>

subsection \<open>The invariant and the contents\<close>

definition contents :: "'o nodes \<Rightarrow> int tree \<Rightarrow> 'o list" where
  "contents h T = List.map_filter (ob h) (inorder T)"

definition hash_ok :: "('o, 'i) stored_class \<Rightarrow> ('o, 'i) splay \<Rightarrow> bool" where
  "hash_ok c s =
     ((\<forall>k i. sp_hash s k = Some i \<longrightarrow> 3 \<le> i \<and> i \<le> sp_count s \<and> (\<exists>v. pay (sp_items s) i = Some (k, Obj v))) \<and>
      (\<forall>i. 3 \<le> i \<and> i \<le> sp_count s \<longrightarrow>
         (\<exists>v. pay (sp_items s) i = Some (sc_Key c v, Obj v) \<and> sp_hash s (sc_Key c v) = Some i)))"

definition splay_at :: "('o, 'i) stored_class \<Rightarrow> ('o, 'i) splay \<Rightarrow> int tree \<Rightarrow> bool" where
  "splay_at c s T =
     (shape c s T \<and> state_ok c s T \<and> rt T = sp_root s \<and> set_tree T = {1..sp_count s} \<and>
      dom (sp_items s) = {0..sp_count s} \<and> dom (sp_infos s) = {0..sp_count s} \<and> hash_ok c s)"

definition splay_holds :: "('o, 'i) stored_class \<Rightarrow> ('o, 'i) splay \<Rightarrow> 'o list \<Rightarrow> bool" where
  "splay_holds c s xs = (\<exists>T. splay_at c s T \<and> xs = contents (sp_items s) T)"

subsection \<open>Generic facts on trees of indices\<close>

lemma map_filter_append [simp]: "List.map_filter f (xs @ ys) = List.map_filter f xs @ List.map_filter f ys"
  by (simp add: List.map_filter_def)

lemma map_filter_Cons [simp]:
  "List.map_filter f (x # xs) = (case f x of None \<Rightarrow> List.map_filter f xs | Some y \<Rightarrow> y # List.map_filter f xs)"
  by (simp add: List.map_filter_def split: option.splits)

lemma map_filter_Nil [simp]: "List.map_filter f [] = []"
  by (simp add: List.map_filter_def)

lemma map_filter_cong: "(\<And>x. x \<in> set xs \<Longrightarrow> f x = g x) \<Longrightarrow> List.map_filter f xs = List.map_filter g xs"
  by (induction xs) (auto split: option.splits)

lemma map_filter_upd: "n \<notin> set xs \<Longrightarrow> List.map_filter (f(n \<mapsto> v)) xs = List.map_filter f xs"
  by (rule map_filter_cong) auto

lemma contents_cong: "(\<And>a. a \<in> set_tree T \<Longrightarrow> ob h' a = ob h a) \<Longrightarrow> inorder T' = inorder T \<Longrightarrow> contents h' T' = contents h T"
  unfolding contents_def by (auto intro: map_filter_cong)

lemma plug_member: "x \<in> set_tree t \<Longrightarrow> \<exists>ctx A B. t = plug ctx (Node A x B)"
proof (induction t)
  case (Node l a r)
  then consider "x = a" | "x \<in> set_tree l" | "x \<in> set_tree r" by auto
  then show ?case
  proof cases
    case 1
    then show ?thesis by (intro exI [of _ "[]"]) auto
  next
    case 2
    then obtain ctx A B where "l = plug ctx (Node A x B)" using Node.IH(1) by blast
    then have "Node l a r = plug (ctx @ [(False, a, r)]) (Node A x B)" by (simp add: plug_append)
    then show ?thesis by blast
  next
    case 3
    then obtain ctx A B where "r = plug ctx (Node A x B)" using Node.IH(2) by blast
    then have "Node l a r = plug (ctx @ [(True, a, l)]) (Node A x B)" by (simp add: plug_append)
    then show ?thesis by blast
  qed
qed simp

lemma info_ok_plug: "info_ok c b f (plug ctx t) \<Longrightarrow> info_ok c b f t \<and> (\<forall>g \<in> set ctx. info_ok c b f (snd (snd g)))"
  by (induction ctx t rule: plug.induct) (auto split: if_splits)

lemma smry_cong: "(\<And>a. a \<in> set_tree t \<Longrightarrow> b' a = b a) \<Longrightarrow> smry c b' t = smry c b t"
  by (induction t) (auto simp: smry.simps(2) split: option.splits)

lemma info_ok_cong:
  "(\<And>a. a \<in> set_tree t \<Longrightarrow> b' a = b a \<and> f' a = f a) \<Longrightarrow> info_ok c b f t \<Longrightarrow> info_ok c b' f' t"
proof (induction t)
  case (Node l a r)
  then show ?case using smry_cong [of "Node l a r" b' b c] by auto
qed simp

lemma inorder_single: "inorder t = [i] \<Longrightarrow> t = Node Leaf i Leaf"
  by (cases t) (auto simp: append_eq_Cons_conv)

lemma inorder_Nil: "inorder t = [] \<longleftrightarrow> t = Leaf"
  by (cases t) auto

lemma distinct_split_unique:
  "xs @ a # ys = xs' @ a # ys' \<Longrightarrow> distinct (xs @ a # ys) \<Longrightarrow> xs = xs' \<and> ys = ys'"
  by (metis append_Cons_eq_iff distinct.simps(2) distinct_append not_distinct_conv_prefix disjoint_insert(1) list.simps(15))

lemma dropWhile_app:
  "dropWhile P (xs @ ys) = (if dropWhile P xs = [] then dropWhile P ys else dropWhile P xs @ ys)"
  by (induction xs) auto

subsection \<open>Descending\<close>

text \<open>The direction taken at a node.\<close>

definition dirq :: "'o nodes \<Rightarrow> ('o \<Rightarrow> bool) \<Rightarrow> int \<Rightarrow> bool" where
  "dirq h q a = (a = minv \<or> a \<noteq> maxv \<and> (\<exists>w. ob h a = Some w \<and> q w))"

lemma chooseChildIndex_dirq:
  "a \<in> {minv, maxv} \<or> ob h a \<noteq> None \<Longrightarrow> chooseChildIndex h q a = Some (dirq h q a)"
  by (auto simp: chooseChildIndex_def dirq_def ob_def pay_def split: option.splits splay_obj.splits)

definition desc_on :: "(int \<Rightarrow> bool) \<Rightarrow> int list \<Rightarrow> bool" where
  "desc_on d xs = sorted_wrt (\<lambda>a b. d b \<longrightarrow> d a) xs"

lemma insert_descend_plug:
  assumes "rep h p t" and "\<And>a. a \<in> set_tree t \<Longrightarrow> a \<in> {minv, maxv} \<or> ob h a \<noteq> None" and "p = top_ix ctx"
  shows "\<exists>fs. insert_descend h q p (rt t) = Some (top_ix (fs @ ctx)) \<and> plug fs Leaf = t \<and>
              (\<forall>f \<in> set fs. fst f = dirq h q (fst (snd f)))"
  using assms
proof (induction t arbitrary: p ctx)
  case Leaf
  then show ?case by (subst insert_descend.simps) (auto intro!: exI [of _ "[]"])
next
  case (Node l a r)
  obtain n where n: "h a = Some n" "nd_lchild n = rt l" "nd_rchild n = rt r"
    using Node.prems(1) by (auto elim: lnk_SomeE)
  let ?d = "dirq h q a"
  let ?t = "if ?d then r else l" and ?f = "(?d, a, if ?d then l else r)"
  have "insert_descend h q p a = insert_descend h q a (rt ?t)"
    using n Node.prems chooseChildIndex_dirq [of a h q] by (subst insert_descend.simps) auto
  moreover obtain fs where "insert_descend h q a (rt ?t) = Some (top_ix (fs @ ?f # ctx))" "plug fs Leaf = ?t"
      "\<forall>f \<in> set fs. fst f = dirq h q (fst (snd f))"
    using Node.IH(1) [of a "?f # ctx"] Node.IH(2) [of a "?f # ctx"] Node.prems by (cases ?d) auto
  ultimately show ?case
    by (intro exI [of _ "fs @ [?f]"]) (auto simp: plug_append)
qed

lemma frames_sorted:
  assumes "desc_on d (lctx fs @ xs @ rctx fs)" and "\<forall>f \<in> set fs. fst f = d (fst (snd f))"
  shows "(\<forall>a \<in> set (lctx fs). d a) \<and> (\<forall>a \<in> set (rctx fs). \<not> d a)"
  using assms
proof (induction fs arbitrary: xs rule: lctx.induct)
  case (2 e a s ctx)
  have e: "e = d a" "\<forall>f \<in> set ctx. fst f = d (fst (snd f))" using "2.prems"(2) by auto
  show ?case
  proof (cases e)
    case True
    then have so: "desc_on d (lctx ctx @ (inorder s @ a # xs) @ rctx ctx)" using "2.prems"(1) by simp
    then have "\<forall>x \<in> set_tree s. d x"
      using e(1) True by (simp add: desc_on_def sorted_wrt_append)
    then show ?thesis using "2.IH" [OF so e(2)] e(1) True by auto
  next
    case False
    then have so: "desc_on d (lctx ctx @ (xs @ a # inorder s) @ rctx ctx)" using "2.prems"(1) by simp
    then have "\<forall>x \<in> set_tree s. \<not> d x"
      using e(1) False by (simp add: desc_on_def sorted_wrt_append)
    then show ?thesis using "2.IH" [OF so e(2)] e(1) False by auto
  qed
qed auto

lemma partition_descend_first:
  assumes "rep h p t" and "\<And>a. a \<in> set_tree t \<Longrightarrow> a \<in> {minv, maxv} \<or> ob h a \<noteq> None" and "desc_on (dirq h q) (inorder t)"
  shows "partition_descend h q n (rt t) =
           Some (case dropWhile (dirq h q) (inorder t) of [] \<Rightarrow> n | a # as \<Rightarrow> a)"
  using assms
proof (induction t arbitrary: p n)
  case Leaf
  then show ?case by (subst partition_descend.simps) simp
next
  case (Node l a r)
  obtain nd where nd: "h a = Some nd" "nd_lchild nd = rt l" "nd_rchild nd = rt r"
    using Node.prems(1) by (auto elim: lnk_SomeE)
  have c: "chooseChildIndex h q a = Some (dirq h q a)"
    using Node.prems chooseChildIndex_dirq [of a h q] by auto
  have ds: "desc_on (dirq h q) (inorder l)" "desc_on (dirq h q) (inorder r)" "dirq h q a \<Longrightarrow> \<forall>x \<in> set_tree l. dirq h q x"
    using Node.prems(3) by (auto simp: desc_on_def sorted_wrt_append)
  show ?case
  proof (cases "dirq h q a")
    case True
    then have "partition_descend h q n a = partition_descend h q n (rt r)"
      using nd c Node.prems(1) by (subst partition_descend.simps) auto
    then show ?thesis
      using Node.IH(2) [of a n] Node.prems ds True by (auto simp: dropWhile_append)
  next
    case False
    then have "partition_descend h q n a = partition_descend h q a (rt l)"
      using nd c Node.prems(1) by (subst partition_descend.simps) auto
    then show ?thesis
      using Node.IH(1) [of a a] Node.prems ds False
      by (cases "dropWhile (dirq h q) (inorder l)") (auto simp: dropWhile_app)
  qed
qed

text \<open>The last node of a chain is the last (or the first) node of the subtree.\<close>

lemma chain_end_last:
  assumes "rep h p t" and "t \<noteq> Leaf"
  shows "chain_end h True (rt t) = Some (last (inorder t)) \<and> chain_end h False (rt t) = Some (hd (inorder t))"
  using assms
proof (induction t arbitrary: p)
  case (Node l a r)
  obtain nd where nd: "h a = Some nd" "nd_lchild nd = rt l" "nd_rchild nd = rt r"
    using Node.prems(1) by (auto elim: lnk_SomeE)
  have 1: "chain_end h True a = Some (last (inorder (Node l a r)))"
    using nd Node.prems(1) Node.IH(2) [of a] rt_zero [of h a r]
    by (cases "r = Leaf"; subst chain_end.simps) (auto simp: inorder_Nil)
  have 2: "chain_end h False a = Some (hd (inorder (Node l a r)))"
    using nd Node.prems(1) Node.IH(1) [of a] rt_zero [of h a l]
    by (cases "l = Leaf"; subst chain_end.simps) (auto simp: inorder_Nil hd_append)
  show ?case using 1 2 by simp
qed simp

subsection \<open>The middle of the tree\<close>

lemma ends_ok_decomp:
  assumes "ends_ok xs"
  obtains ms where "xs = minv # ms @ [maxv]" "distinct ms" "minv \<notin> set ms" "maxv \<notin> set ms"
proof -
  obtain ys where ys: "xs = minv # ys" using assms by (cases xs) (auto simp: ends_ok_def)
  with assms have "ys \<noteq> []" "last ys = maxv" by (auto simp: ends_ok_def split: if_splits)
  then have "xs = minv # butlast ys @ [maxv]" using ys by (metis append_butlast_last_id)
  with assms show ?thesis by (intro that [of "butlast ys"]) (auto simp: ends_ok_def)
qed

lemma ends_ok_in: "ends_ok xs \<Longrightarrow> minv \<in> set xs \<and> maxv \<in> set xs"
  by (metis ends_ok_def hd_in_set last_in_set)

lemma ends_ok_insert: "ends_ok (xs @ ys) \<Longrightarrow> xs \<noteq> [] \<Longrightarrow> ys \<noteq> [] \<Longrightarrow> n \<notin> set xs \<union> set ys \<Longrightarrow> ends_ok (xs @ n # ys)"
  by (auto simp: ends_ok_def)

lemma contents_mid:
  assumes "shape c s T" and "inorder T = minv # ms @ [maxv]"
  shows "contents (sp_items s) T = map (\<lambda>a. the (ob (sp_items s) a)) ms \<and>
         (\<forall>a \<in> set ms. a \<notin> {minv, maxv} \<and> ob (sp_items s) a \<noteq> None)"
proof -
  have d: "distinct (minv # ms @ [maxv])" using assms by (simp add: shape_def ends_ok_def)
  have st: "set_tree T = insert minv (insert maxv (set ms))" using assms(2) by (metis set_inorder set_append Un_insert_right list.simps(15) Un_empty_right empty_set insert_commute)
  have ne: "\<forall>a \<in> set ms. a \<notin> {minv, maxv} \<and> ob (sp_items s) a \<noteq> None"
    using d shape_node [OF assms(1)] st by auto
  have ends: "ob (sp_items s) minv = None" "ob (sp_items s) maxv = None"
    using shape_node [OF assms(1)] st by auto
  have "List.map_filter (ob (sp_items s)) ms = map (\<lambda>a. the (ob (sp_items s) a)) ms"
    using ne by (induction ms) auto
  then show ?thesis using ne ends assms(2) by (simp add: contents_def)
qed

lemma desc_on_contents:
  assumes "shape c s T" and "sorted_wrt (\<lambda>v w. q w \<longrightarrow> q v) (contents (sp_items s) T)"
  shows "desc_on (dirq (sp_items s) q) (inorder T)"
proof -
  obtain ms where ms: "inorder T = minv # ms @ [maxv]" "distinct ms" "minv \<notin> set ms" "maxv \<notin> set ms"
    using assms(1) by (auto simp: shape_def elim: ends_ok_decomp)
  note mid = contents_mid [OF assms(1) ms(1)]
  have dq: "dirq (sp_items s) q a \<longleftrightarrow> q (the (ob (sp_items s) a))" if "a \<in> set ms" for a
    using mid that by (auto simp: dirq_def)
  have "sorted_wrt (\<lambda>a b. dirq (sp_items s) q b \<longrightarrow> dirq (sp_items s) q a) ms"
    using assms(2) mid by (auto simp: sorted_wrt_map dq intro: sorted_wrt_mono_rel [rotated])
  moreover have "dirq (sp_items s) q minv" "\<not> dirq (sp_items s) q maxv" by (auto simp: dirq_def)
  ultimately show ?thesis
    by (simp add: ms(1) desc_on_def sorted_wrt_append)
qed

lemma shape_choose: "shape c s T \<Longrightarrow> a \<in> set_tree T \<Longrightarrow> a \<in> {minv, maxv} \<or> ob (sp_items s) a \<noteq> None"
  using shape_node by blast

lemma takeWhile_split: "(\<forall>x \<in> set xs. P x) \<Longrightarrow> (\<forall>x \<in> set ys. \<not> P x) \<Longrightarrow> takeWhile P (xs @ ys) = xs \<and> dropWhile P (xs @ ys) = ys"
  by (cases ys) auto

text \<open>The objects on the two sides of a place found by a descent.\<close>

lemma in_map_filter: "w \<in> set (List.map_filter f xs) \<longleftrightarrow> (\<exists>a \<in> set xs. f a = Some w)"
  by (induction xs) (auto split: option.splits)

lemma map_filter_dirq:
  assumes "\<And>a. a \<in> set xs \<Longrightarrow> a \<in> {minv, maxv} \<longleftrightarrow> ob h a = None"
  shows "(\<forall>a \<in> set xs. dirq h q a = e) \<Longrightarrow> \<forall>w \<in> set (List.map_filter (ob h) xs). q w = e"
proof (intro ballI)
  fix w assume e: "\<forall>a \<in> set xs. dirq h q a = e" and "w \<in> set (List.map_filter (ob h) xs)"
  then obtain a where a: "a \<in> set xs" "ob h a = Some w" unfolding in_map_filter by blast
  then have "a \<noteq> minv" "a \<noteq> maxv" using assms [of a] by auto
  then have "dirq h q a = q w" using a by (simp add: dirq_def)
  with e a(1) show "q w = e" by blast
qed

text \<open>The links and payloads after a new node \<open>n\<close> has been hung below the innermost frame.\<close>

lemma hang_node:
  assumes "lnk h p = Some (pp, pl, pr)" and "p \<noteq> n"
  obtains h' where
    "(if d then upd p (\<lambda>m. m\<lparr>nd_rchild := n\<rparr>) (h(n \<mapsto> newNode c (Obj v) p))
      else upd p (\<lambda>m. m\<lparr>nd_lchild := n\<rparr>) (h(n \<mapsto> newNode c (Obj v) p))) = Some h'"
    "lnk h' = (lnk h)(n \<mapsto> (p, 0, 0), p \<mapsto> (pp, if d then pl else n, if d then n else pr))"
    "pay h' = (pay h)(n \<mapsto> (sc_Key c v, Obj v))"
proof -
  let ?h = "h(n \<mapsto> newNode c (Obj v) p)"
  have l: "lnk ?h = (lnk h)(n \<mapsto> (p, 0, 0))" and py: "pay ?h = (pay h)(n \<mapsto> (sc_Key c v, Obj v))"
    by (auto simp: fun_eq_iff newNode_def)
  have lp: "lnk ?h p = Some (pp, pl, pr)" using assms l by simp
  obtain h1 where "upd p (\<lambda>m. m\<lparr>nd_rchild := n\<rparr>) ?h = Some h1" "lnk h1 = (lnk ?h)(p \<mapsto> (pp, pl, n))" "pay h1 = pay ?h"
    using upd_rchild [OF lp] .
  moreover obtain h2 where "upd p (\<lambda>m. m\<lparr>nd_lchild := n\<rparr>) ?h = Some h2" "lnk h2 = (lnk ?h)(p \<mapsto> (pp, n, pr))" "pay h2 = pay ?h"
    using upd_lchild [OF lp] .
  ultimately show ?thesis
    using l py by (cases d) (auto intro: that)
qed

lemma dom_pay: "a \<in> dom h \<longleftrightarrow> pay h a \<noteq> None"
  by (auto simp: pay_def)

lemma dom_pay_upd: "pay h' = (pay h)(n \<mapsto> x) \<Longrightarrow> dom h' = insert n (dom h)"
  by (rule set_eqI) (simp add: dom_pay del: domIff)

lemma ob_upd: "pay h' = (pay h)(n \<mapsto> (k, Obj v)) \<Longrightarrow> ob h' = (ob h)(n \<mapsto> v)"
  by (simp add: ob_def fun_eq_iff)

lemma splay_atD:
  assumes "splay_at c s T"
  shows "shape c s T" "state_ok c s T" "rt T = sp_root s" "set_tree T = {1..sp_count s}" "rep (sp_items s) 0 T"
    "dom (sp_items s) = {0..sp_count s}" "dom (sp_infos s) = {0..sp_count s}" "hash_ok c s" "ends_ok (inorder T)"
  using assms by (auto simp: splay_at_def shape_def)

lemma splay_at_count: "splay_at c s T \<Longrightarrow> 2 \<le> sp_count s"
proof -
  assume at: "splay_at c s T"
  obtain ms where "inorder T = minv # ms @ [maxv]"
    using splay_atD(9) [OF at] by (rule ends_ok_decomp)
  then have "maxv \<in> set_tree T" by (metis in_set_conv_decomp append_Cons set_inorder)
  then show "2 \<le> sp_count s" using splay_atD(4) [OF at] by auto
qed

text \<open>The place of a new object and the tree with a node hung there.\<close>

lemma insert_place:
  assumes at: "splay_at c s T" and sorted: "sorted_wrt (\<lambda>v w. q w \<longrightarrow> q v) (contents (sp_items s) T)"
  obtains d p S fs where
    "insert_descend (sp_items s) q 0 (sp_root s) = Some p" "chooseChildIndex (sp_items s) q p = Some d"
    "plug ((d, p, S) # fs) Leaf = T"
    "takeWhile q (contents (sp_items s) T) = List.map_filter (ob (sp_items s)) (lctx ((d, p, S) # fs))"
    "dropWhile q (contents (sp_items s) T) = List.map_filter (ob (sp_items s)) (rctx ((d, p, S) # fs))"
    "lctx ((d, p, S) # fs) \<noteq> []" "rctx ((d, p, S) # fs) \<noteq> []"
proof -
  let ?h = "sp_items s"
  note D = splay_atD [OF at]
  obtain gs where gs: "insert_descend ?h q 0 (rt T) = Some (top_ix (gs @ []))" "plug gs Leaf = T"
      "\<forall>f \<in> set gs. fst f = dirq ?h q (fst (snd f))"
    using insert_descend_plug [OF D(5) shape_choose [OF D(1)], of "[]" q] by auto
  obtain d p S fs where f: "gs = (d, p, S) # fs"
    using gs(2) D(9) by (cases gs) (auto simp: ends_ok_def)
  have io: "inorder T = lctx gs @ rctx gs" using gs(2) inorder_plug [of gs Leaf] by simp
  have side: "(\<forall>a \<in> set (lctx gs). dirq ?h q a) \<and> (\<forall>a \<in> set (rctx gs). \<not> dirq ?h q a)"
    using frames_sorted [of "dirq ?h q" gs "[]"] desc_on_contents [OF D(1) sorted] io gs(3) by simp
  have p: "p \<in> set_tree T" using f set_tree_plug [of gs Leaf] gs(2) top_ix_in [of gs] by auto
  have b: "a \<in> set (lctx gs) \<Longrightarrow> a \<in> {minv, maxv} \<longleftrightarrow> ob ?h a = None" "a \<in> set (rctx gs) \<Longrightarrow> a \<in> {minv, maxv} \<longleftrightarrow> ob ?h a = None" for a
    using shape_node [OF D(1), of a] set_tree_plug [of gs Leaf] gs(2) by auto
  have "takeWhile q (contents ?h T) = List.map_filter (ob ?h) (lctx gs) \<and> dropWhile q (contents ?h T) = List.map_filter (ob ?h) (rctx gs)"
    unfolding contents_def io map_filter_append
    by (rule takeWhile_split) (use map_filter_dirq [of "lctx gs" ?h q True] map_filter_dirq [of "rctx gs" ?h q False] b side in auto)
  moreover have "lctx gs \<noteq> []" "rctx gs \<noteq> []"
    using side ends_ok_in [OF D(9)] io by (auto simp: dirq_def)
  ultimately show ?thesis
    using that [of p d S fs] gs f D(3) chooseChildIndex_dirq [of p ?h q] shape_choose [OF D(1) p] by auto
qed

subsection \<open>Inserting\<close>

lemma shape_hang:
  assumes at: "splay_at c s T" and T: "plug ((d, p, S) # fs) Leaf = T" and n: "n = sp_count s + 1"
    and h': "lnk h' = (lnk (sp_items s))(n \<mapsto> (p, 0, 0), p \<mapsto> (top_ix fs, if d then rt S else n, if d then n else rt S))"
      "pay h' = (pay (sp_items s))(n \<mapsto> (sc_Key c v, Obj v))"
    and ne: "lctx ((d, p, S) # fs) \<noteq> []" "rctx ((d, p, S) # fs) \<noteq> []"
    and s1: "sp_items s1 = h'" "sp_infos s1 = (sp_infos s)(n \<mapsto> obj_MakeMaintainInfo c (Obj v))"
  shows "shape c s1 (plug ((d, p, S) # fs) (Node Leaf n Leaf)) \<and> frames_ok c s1 ((d, p, S) # fs)"
proof -
  let ?h = "sp_items s" and ?gs = "(d, p, S) # fs"
  note D = splay_atD [OF at]
  have n3: "3 \<le> n" using splay_at_count [OF at] n by simp
  have st: "set (lctx ?gs) \<union> set (rctx ?gs) = {1..sp_count s}"
    using D(4) T set_tree_plug [of ?gs Leaf] by auto
  then have nin: "n \<notin> set (lctx ?gs) \<union> set (rctx ?gs)" using n by simp
  have r: "repc ?h ?gs 0" "lnk ?h p = Some (top_ix fs, if d then rt S else 0, if d then 0 else rt S)"
    using D(5) T rep_plug [of ?h ?gs Leaf] by auto
  have dist: "distinct (lctx ?gs @ rctx ?gs)"
    using D(9) T inorder_plug [of ?gs Leaf] by (auto simp: ends_ok_def)
  have pn: "p \<noteq> n" using nin top_ix_in [of ?gs] by auto
  have "repc h' ?gs n"
    by (rule repc_retarget [OF r(1) dist]) (use h'(1) nin in auto)
  then have rep: "rep h' 0 (plug ?gs (Node Leaf n Leaf))"
    unfolding rep_plug using h'(1) pn n3 by auto
  have obs: "ob h' = (ob ?h)(n \<mapsto> v)" using h'(2) by (rule ob_upd)
  have T': "set_tree (plug ?gs (Node Leaf n Leaf)) = insert n {1..sp_count s}"
    unfolding set_tree_plug using st by auto
  have io: "inorder T = lctx ?gs @ rctx ?gs" unfolding T [symmetric] inorder_plug by simp
  have "ends_ok (lctx ?gs @ n # rctx ?gs)" by (rule ends_ok_insert [OF D(9) [unfolded io] ne nin])
  then have e: "ends_ok (inorder (plug ?gs (Node Leaf n Leaf)))" unfolding inorder_plug by simp
  have node: "(ob h' a = None \<longleftrightarrow> a \<in> {minv, maxv}) \<and> (\<exists>w. sp_infos s1 a = Some w \<and> based c (ob h' a) w)"
    if "a \<in> insert n {1..sp_count s}" for a
    using that shape_node [OF D(1), of a] D(4) n3 obs s1(2) by (auto simp: based_def)
  have "shape c s1 (plug ?gs (Node Leaf n Leaf))"
    by (rule shapeI) (unfold s1(1) T', fact rep, fact e, fact node)
  moreover have "frames_ok c s1 ?gs"
    unfolding frames_ok_def
  proof
    fix f assume f: "f \<in> set ?gs"
    have "info_ok c (ob ?h) (sp_infos s) (snd (snd f))"
      using info_ok_plug [of c "ob ?h" "sp_infos s" ?gs Leaf] D(2) T f by auto
    then show "info_ok c (ob (sp_items s1)) (sp_infos s1) (snd (snd f))"
      by (rule info_ok_cong [rotated]) (use frame_tree_sub [OF f] nin obs s1 in auto)
  qed
  ultimately show ?thesis by blast
qed

lemma hash_ok_insert:
  assumes "hash_ok c s" and "2 \<le> sp_count s" and "sp_hash s (sc_Key c v) = None"
    and "sp_hash s' = (sp_hash s)(sc_Key c v \<mapsto> sp_count s + 1)" "sp_count s' = sp_count s + 1"
      "pay (sp_items s') = (pay (sp_items s))(sp_count s + 1 \<mapsto> (sc_Key c v, Obj v))"
  shows "hash_ok c s'"
proof -
  have "\<exists>w. pay (sp_items s') i = Some (sc_Key c w, Obj w) \<and> sp_hash s' (sc_Key c w) = Some i"
    if i: "3 \<le> i" "i \<le> sp_count s'" for i
  proof (cases "i = sp_count s + 1")
    case True
    then show ?thesis using assms by (intro exI [of _ v]) simp
  next
    case False
    then obtain w where "pay (sp_items s) i = Some (sc_Key c w, Obj w)" "sp_hash s (sc_Key c w) = Some i"
      using assms(1,5) i by (auto simp: hash_ok_def)
    then show ?thesis using assms False by (intro exI [of _ w]) auto
  qed
  moreover have "3 \<le> i \<and> i \<le> sp_count s' \<and> (\<exists>v. pay (sp_items s') i = Some (k, Obj v))" if "sp_hash s' k = Some i" for k i
    using assms that unfolding hash_ok_def by (cases "k = sc_Key c v") fastforce+
  ultimately show ?thesis unfolding hash_ok_def by blast
qed

text \<open>After splaying a node to the root the state represents the new tree.\<close>

lemma splay_at_only_links:
  assumes "only_links X s1 (s'\<lparr>sp_root := sp_root s1\<rparr>)" and "shape c s' T" "state_ok c s' T" "sp_root s' = rt T"
    and "set_tree T = {1..sp_count s1}" "dom (sp_items s1) = {0..sp_count s1}" "dom (sp_infos s1) = {0..sp_count s1}" "hash_ok c s1"
  shows "splay_at c s' T"
  using assms pay_eq_dom [of "sp_items s'" "sp_items s1"] by (simp add: only_links_def splay_at_def hash_ok_def)

context summary_class
begin

lemma Insert_new:
  assumes at: "splay_at c s T" and sorted: "sorted_wrt (\<lambda>u w. sc_Compare c v w \<longrightarrow> sc_Compare c v u) (contents (sp_items s) T)"
    and new: "sp_hash s (sc_Key c v) = None"
  shows "\<exists>s'. Splay_Insert c s v = Some (s', True) \<and>
     splay_holds c s' (takeWhile (sc_Compare c v) (contents (sp_items s) T) @ v # dropWhile (sc_Compare c v) (contents (sp_items s) T))"
proof -
  let ?h = "sp_items s" and ?q = "sc_Compare c v" and ?n = "sp_count s + 1"
  note D = splay_atD [OF at]
  obtain d p S fs where P: "insert_descend ?h ?q 0 (sp_root s) = Some p" "chooseChildIndex ?h ?q p = Some d"
      "plug ((d, p, S) # fs) Leaf = T"
      "takeWhile ?q (contents ?h T) = List.map_filter (ob ?h) (lctx ((d, p, S) # fs))"
      "dropWhile ?q (contents ?h T) = List.map_filter (ob ?h) (rctx ((d, p, S) # fs))"
      "lctx ((d, p, S) # fs) \<noteq> []" "rctx ((d, p, S) # fs) \<noteq> []"
    by (rule insert_place [OF at sorted])
  let ?gs = "(d, p, S) # fs" and ?N = "Node Leaf ?n Leaf"
  have st: "set (lctx ?gs) \<union> set (rctx ?gs) = {1..sp_count s}"
    unfolding D(4) [symmetric] P(3) [symmetric] set_tree_plug by auto
  then have pn: "p \<in> {1..sp_count s}" using top_ix_in [of ?gs] by auto
  have "?n \<notin> set (lctx ?gs) \<union> set (rctx ?gs)" unfolding st by simp
  then have nin: "?n \<notin> set (lctx ?gs)" "?n \<notin> set (rctx ?gs)" by blast+
  have lp: "lnk ?h p = Some (top_ix fs, if d then rt S else 0, if d then 0 else rt S)"
    using D(5) unfolding P(3) [symmetric] rep_plug by simp
  obtain h' where h': "(if d then upd p (\<lambda>m. m\<lparr>nd_rchild := ?n\<rparr>) (?h(?n \<mapsto> newNode c (Obj v) p))
      else upd p (\<lambda>m. m\<lparr>nd_lchild := ?n\<rparr>) (?h(?n \<mapsto> newNode c (Obj v) p))) = Some h'"
      "lnk h' = (lnk ?h)(?n \<mapsto> (p, 0, 0), p \<mapsto> (top_ix fs, if d then rt S else ?n, if d then ?n else rt S))"
      "pay h' = (pay ?h)(?n \<mapsto> (sc_Key c v, Obj v))"
    by (rule hang_node [OF lp, of ?n d c v]) (use pn in auto)
  let ?s1 = "s\<lparr>sp_items := h', sp_infos := (sp_infos s)(?n \<mapsto> obj_MakeMaintainInfo c (Obj v)),
               sp_count := ?n, sp_hash := (sp_hash s)(sc_Key c v \<mapsto> ?n)\<rparr>"
  have sh: "shape c ?s1 (plug ?gs ?N)" "frames_ok c ?s1 ?gs"
    using shape_hang [OF at P(3) refl h'(2,3) P(6,7), of ?s1] by simp_all
  obtain s' A B where s': "splay c ?s1 ?n 0 = Some s'" "shape c s' (Node A ?n B)" "state_ok c s' (Node A ?n B)"
      "inorder (Node A ?n B) = inorder (plug ?gs ?N)" "sp_root s' = ?n"
      "only_links (set_tree (plug ?gs ?N)) ?s1 (s'\<lparr>sp_root := sp_root ?s1\<rparr>)"
    by (rule splay_shape [of ?s1 ?gs "[]" Leaf ?n Leaf 0]) (use sh in auto)
  have d1: "dom h' = {0..?n}"
    using dom_pay_upd [OF h'(3)] D(6) splay_at_count [OF at] by auto
  have io: "inorder (Node A ?n B) = lctx ?gs @ ?n # rctx ?gs"
    unfolding s'(4) inorder_plug by simp
  have st': "set_tree (Node A ?n B) = {1..?n}"
    using arg_cong [OF io, of set] st splay_at_count [OF at] by (auto simp del: lctx.simps rctx.simps inorder.simps)
  have "hash_ok c ?s1"
    by (rule hash_ok_insert [OF D(8) splay_at_count [OF at] new]) (use h'(3) in simp_all)
  moreover have "insert ?n {0..sp_count s} = {0..?n}" using splay_at_count [OF at] by auto
  ultimately have at': "splay_at c s' (Node A ?n B)"
    using splay_at_only_links [OF s'(6,2,3)] s'(5) st' d1 D(7) by auto
  have "ob (sp_items s') = (ob ?h)(?n \<mapsto> v)"
    using only_links_ob [OF s'(6)] ob_upd [OF h'(3)] by simp
  then have "contents (sp_items s') (Node A ?n B) =
      List.map_filter (ob ?h) (lctx ?gs) @ v # List.map_filter (ob ?h) (rctx ?gs)"
    unfolding contents_def io using nin by (simp add: map_filter_upd del: lctx.simps rctx.simps)
  moreover have "chooseChildIndex (?h(?n \<mapsto> newNode c (Obj v) p)) ?q p = Some d"
    using P(2) pn by (auto simp: chooseChildIndex_def split: if_splits)
  then have "Splay_Insert c s v = Some (s', True)"
    using new P(1) h'(1) s'(1) pn by (simp add: Splay_Insert_def Let_def)
  ultimately show ?thesis
    unfolding P(4,5) splay_holds_def using at' by metis
qed

lemma splay_root:
  assumes at: "splay_at c s T" and x: "x \<in> set_tree T"
  obtains s' A B where "splay c s x 0 = Some s'" "splay_at c s' (Node A x B)" "inorder (Node A x B) = inorder T"
    "pay (sp_items s') = pay (sp_items s)" "sp_hash s' = sp_hash s" "sp_count s' = sp_count s"
proof -
  note D = splay_atD [OF at]
  obtain ctx A0 B0 where T: "T = plug ctx (Node A0 x B0)" using plug_member [OF x] by blast
  have ok: "state_ok c s (Node A0 x B0)" "frames_ok c s ctx"
    using info_ok_plug [of c "ob (sp_items s)" "sp_infos s" ctx "Node A0 x B0"] D(2) T by (auto simp: frames_ok_def)
  obtain s' A B where s': "splay c s x 0 = Some s'" "shape c s' (Node A x B)" "state_ok c s' (Node A x B)"
      "inorder (Node A x B) = inorder T" "sp_root s' = x" "only_links (set_tree T) s (s'\<lparr>sp_root := sp_root s\<rparr>)"
    by (rule splay_shape [of s ctx "[]" A0 x B0 0]) (use D(1) T ok in auto)
  have "set_tree (Node A x B) = set_tree T" using s'(4) by (metis set_inorder)
  then have "splay_at c s' (Node A x B)"
    by (intro splay_at_only_links [OF s'(6,2,3)]) (use s'(5) D in auto)
  then show ?thesis
    using s'(1,4,6) by (intro that [of s' A B]) (simp_all add: only_links_def)
qed

lemma splay_under:
  assumes at: "splay_at c s (Node A0 k B0)" and x: "x \<in> set_tree B0"
  obtains s' A B where "splay c s x k = Some s'" "shape c s' (Node A0 k (Node A x B))" "inorder (Node A x B) = inorder B0"
    "state_ok c s' A0" "state_ok c s' (Node A x B)" "only_links (set_tree B0) s s'"
proof -
  note D = splay_atD [OF at]
  obtain ctx A1 B1 where B0: "B0 = plug ctx (Node A1 x B1)" using plug_member [OF x] by blast
  have ok: "state_ok c s (Node A1 x B1)" "frames_ok c s ctx"
    using info_ok_plug [of c "ob (sp_items s)" "sp_infos s" ctx "Node A1 x B1"] D(2) B0 by (auto simp: frames_ok_def)
  have k0: "k \<noteq> 0" using D(5) by simp
  obtain s' A B where s': "splay c s x k = Some s'" "shape c s' (plug [(True, k, A0)] (Node A x B))" "state_ok c s' (Node A x B)"
      "inorder (Node A x B) = inorder B0" "only_links (set_tree B0) s (s'\<lparr>sp_root := sp_root s\<rparr>)" "sp_root s' = sp_root s"
    by (rule splay_shape [of s ctx "[(True, k, A0)]" A1 x B1 k]) (use D(1) B0 ok k0 in \<open>auto simp: plug_append\<close>)
  have ol: "only_links (set_tree B0) s s'" using s'(5,6) by (simp add: only_links_def)
  moreover have "state_ok c s' A0"
    by (rule info_ok_only_links [OF ol]) (use D(2,9) in \<open>auto simp: ends_ok_def\<close>)
  ultimately show ?thesis
    using s' by (intro that [of s' A B]) simp_all
qed

lemma first_node:
  assumes "ends_ok (inorder T)" and "desc_on (dirq h q) (inorder T)"
  obtains n as where "inorder T = takeWhile (dirq h q) (inorder T) @ n # as" "dropWhile (dirq h q) (inorder T) = n # as"
    "\<not> dirq h q n" "\<forall>a \<in> set as. \<not> dirq h q a"
proof -
  have "maxv \<in> set (inorder T)" "\<not> dirq h q maxv" using ends_ok_in [OF assms(1)] by (auto simp: dirq_def)
  then have "dropWhile (dirq h q) (inorder T) \<noteq> []" by (simp add: dropWhile_eq_Nil_conv) blast
  then obtain n as where n: "dropWhile (dirq h q) (inorder T) = n # as" by (cases "dropWhile (dirq h q) (inorder T)") auto
  have io: "inorder T = takeWhile (dirq h q) (inorder T) @ n # as" using takeWhile_dropWhile_id [of "dirq h q" "inorder T"] n by simp
  have nd: "\<not> dirq h q n" using n by (metis dropWhile_eq_Cons_conv)
  have "sorted_wrt (\<lambda>a b. dirq h q b \<longrightarrow> dirq h q a) (takeWhile (dirq h q) (inorder T) @ n # as)"
    using assms(2) io unfolding desc_on_def by simp
  then have "\<forall>a \<in> set as. \<not> dirq h q a" using nd by (auto simp: sorted_wrt_append)
  then show ?thesis using that io n nd by blast
qed

text \<open>What \<^verbatim>\<open>Partition\<close> returns: the summary of a sentinel-free tree that holds the objects below the bound.\<close>

lemma Partition_holds:
  assumes at: "splay_at c s T" and sorted: "sorted_wrt (\<lambda>u w. q w \<longrightarrow> q u) (contents (sp_items s) T)"
  shows "\<exists>s' t. Splay_Partition c s q = Some (s', if t = Leaf then None else Some (smry c (ob (sp_items s')) t)) \<and>
     splay_holds c s' (contents (sp_items s) T) \<and> contents (sp_items s') t = takeWhile q (contents (sp_items s) T) \<and>
     (\<forall>a \<in> set_tree t. ob (sp_items s') a \<noteq> None \<and> a \<notin> {minv, maxv})"
proof -
  have "minv \<in> set_tree T" using ends_ok_in [OF splay_atD(9) [OF at]] by auto
  then obtain s1 A B where s1: "splay c s minv 0 = Some s1" "splay_at c s1 (Node A minv B)" "inorder (Node A minv B) = inorder T"
      "pay (sp_items s1) = pay (sp_items s)"
    by (rule splay_root [OF at])
  note D = splay_atD [OF s1(2)]
  have A: "A = Leaf"
    using D(9) by (cases "inorder A") (auto simp: ends_ok_def inorder_Nil)
  have o1: "ob (sp_items s1) = ob (sp_items s)" by (rule ob_pay [OF s1(4)])
  let ?T = "Node Leaf minv B" and ?d = "dirq (sp_items s1) q"
  have ct: "contents (sp_items s1) ?T = contents (sp_items s) T"
    using o1 s1(3) A by (simp add: contents_def)
  have ds: "desc_on ?d (inorder ?T)"
    using desc_on_contents [OF D(1)] sorted ct A by metis
  obtain n as where n: "inorder ?T = takeWhile ?d (inorder ?T) @ n # as" "dropWhile ?d (inorder ?T) = n # as"
      "\<not> ?d n" "\<forall>a \<in> set as. \<not> ?d a"
    using first_node [OF _ ds] D(9) A by blast
  have pd: "partition_descend (sp_items s1) q 0 minv = Some n"
    using partition_descend_first [OF D(5) shape_choose [OF D(1)]] ds n(2) A by simp
  have d1: "?d minv" by (simp add: dirq_def)
  then have nio: "inorder B = takeWhile ?d (inorder B) @ n # as" using n by auto
  then have nB: "n \<in> set_tree B" by (metis in_set_conv_decomp set_inorder)
  obtain s2 A' B' where s2: "splay c s1 n minv = Some s2" "shape c s2 (Node Leaf minv (Node A' n B'))"
      "inorder (Node A' n B') = inorder B" "state_ok c s2 (Node A' n B')" "only_links (set_tree B) s1 s2"
    by (rule splay_under [OF s1(2) [unfolded A] nB])
  let ?T2 = "Node Leaf minv (Node A' n B')" and ?h = "sp_items s2"
  have o2: "ob ?h = ob (sp_items s1)" by (rule only_links_ob [OF s2(5)])
  have dist: "distinct (inorder B)" using D(9) A by (simp add: ends_ok_def)
  have AB: "inorder A' = takeWhile ?d (inorder B)" "inorder B' = as"
    using distinct_split_unique [of "inorder A'" n "inorder B'" "takeWhile ?d (inorder B)" as] s2(3) nio dist by auto
  have io: "inorder ?T2 = inorder T" using s2(3) s1(3) A by simp
  have at2: "splay_at c s2 ?T2"
  proof (rule splay_at_only_links [of "set_tree B" s1])
    show "only_links (set_tree B) s1 (s2\<lparr>sp_root := sp_root s1\<rparr>)" "sp_root s2 = rt ?T2"
      using s2(5) D(3) A by (simp_all add: only_links_def)
    have "sp_infos s2 minv = Some LookupInfo" "ob ?h minv = None"
      using shape_node [OF s2(2), of minv] by (auto simp: based_def)
    then show "state_ok c s2 ?T2" using s2(4) by (simp add: smry.simps(2))
    show "set_tree ?T2 = {1..sp_count s1}"
      using D(4) A s2(3) by (metis set_inorder inorder.simps(2))
  qed (use s2(2) D in auto)
  have "contents (sp_items s) T = List.map_filter (ob ?h) (inorder A') @ List.map_filter (ob ?h) (n # inorder B')"
    using shape_node [OF s2(2), of minv] io by (simp add: contents_def o1 o2 flip: io)
  moreover have "takeWhile q (List.map_filter (ob ?h) (inorder A') @ List.map_filter (ob ?h) (n # inorder B')) = List.map_filter (ob ?h) (inorder A')"
  proof (rule takeWhile_split [THEN conjunct1])
    have dirq_eq: "dirq ?h q = ?d" by (simp add: dirq_def o2 fun_eq_iff)
    have b: "a \<in> {minv, maxv} \<longleftrightarrow> ob ?h a = None" if "a \<in> set (inorder A') \<union> set (n # inorder B')" for a
      using shape_node [OF s2(2), of a] that by auto
    have t: "\<forall>a \<in> set (inorder A'). ?d a = True" "\<forall>a \<in> set (n # inorder B'). ?d a = False"
      using set_takeWhileD [of _ ?d "inorder B"] n(3,4) unfolding AB by auto
    show "\<forall>w \<in> set (List.map_filter (ob ?h) (inorder A')). q w" "\<forall>w \<in> set (List.map_filter (ob ?h) (n # inorder B')). \<not> q w"
      using map_filter_dirq [of "inorder A'" ?h q True, OF b] map_filter_dirq [of "n # inorder B'" ?h q False, OF b] t
      unfolding dirq_eq by blast+
  qed
  ultimately have tw: "contents ?h A' = takeWhile q (contents (sp_items s) T)"
    by (simp add: contents_def)
  have r: "lnk ?h n = Some (minv, rt A', rt B')" "rep ?h n A'" "state_ok c s2 A'"
    using splay_atD(5,2) [OF at2] by simp_all
  then have res: "Splay_Partition c s q = Some (s2, if A' = Leaf then None else Some (smry c (ob ?h) A'))"
    using s1(1) D(3) pd s2(1) A by (cases A') (auto simp: Splay_Partition_def elim!: lnk_SomeE)
  have "splay_holds c s2 (contents (sp_items s) T)"
    unfolding splay_holds_def using at2 contents_cong [OF _ io, of ?h "sp_items s"] o1 o2 by auto
  moreover have "maxv \<notin> set_tree A'" "minv \<notin> set_tree A'"
    using ends_ok_children [of "[(True, minv, Leaf)]" A' n B'] splay_atD(9) [OF at2] by (auto simp: ends_ok_def)
  then have "\<forall>a \<in> set_tree A'. ob ?h a \<noteq> None \<and> a \<notin> {minv, maxv}"
    using shape_node [OF s2(2)] by fastforce
  ultimately show ?thesis using res tw by blast
qed

end

end
