(* ===== verification/Splay_Remove.thy ===== *)
theory Splay_Remove
  imports Splay_Ops
begin

section \<open>Deleting from the splay tree\<close>

text \<open>
  \<^verbatim>\<open>Delete\<close> splays the node, its predecessor and its successor so that the node hangs alone below
  the successor, cuts it off, and moves the last node of the slice into the gap. The move is a renaming of
  one index of the tree (\<open>map_tree\<close>).
\<close>

subsection \<open>Renaming the indices of a tree\<close>

lemma rt_map_tree: "g 0 = 0 \<Longrightarrow> rt (map_tree g T) = g (rt T)"
  by (cases T) auto

lemma rep_map_tree:
  assumes "g 0 = 0" and "\<And>a. a \<in> set_tree T \<Longrightarrow> g a \<noteq> 0"
    and "\<And>a p l r. a \<in> set_tree T \<Longrightarrow> lnk h a = Some (p, l, r) \<Longrightarrow> lnk h' (g a) = Some (g p, g l, g r)"
    and "rep h p T"
  shows "rep h' (g p) (map_tree g T)"
  using assms(2-4) by (induction T arbitrary: p) (auto simp: rt_map_tree assms(1))

lemma smry_map_tree:
  assumes "g 0 = 0" and "\<And>a. a \<in> set_tree T \<Longrightarrow> b' (g a) = b a \<and> (g a = minv \<longleftrightarrow> a = minv) \<and> (g a = maxv \<longleftrightarrow> a = maxv)"
  shows "smry c b' (map_tree g T) = smry c b T"
  using assms(2)
proof (induction T)
  case (Node l a r)
  have "g (rt l) = minv \<longleftrightarrow> rt l = minv" "g (rt r) = maxv \<longleftrightarrow> rt r = maxv"
    using Node.prems [of "rt l"] Node.prems [of "rt r"] assms(1) by (cases l; cases r; auto)+
  then show ?case
    using Node by (simp add: smry.simps(2) rt_map_tree assms(1) cong: option.case_cong)
qed simp

lemma info_ok_map_tree:
  assumes "g 0 = 0" and "\<And>a. a \<in> set_tree T \<Longrightarrow> b' (g a) = b a \<and> f' (g a) = f a \<and> (g a = minv \<longleftrightarrow> a = minv) \<and> (g a = maxv \<longleftrightarrow> a = maxv)"
    and "info_ok c b f T"
  shows "info_ok c b' f' (map_tree g T)"
  using assms(2,3)
proof (induction T)
  case (Node l a r)
  then show ?case
    using smry_map_tree [of g "Node l a r" b' b c, OF assms(1)] by simp
qed simp

lemma map_filter_map: "List.map_filter f (map g xs) = List.map_filter (\<lambda>a. f (g a)) xs"
  by (induction xs) (auto split: option.splits)

text \<open>Links point both ways.\<close>

lemma rep_mutual:
  assumes "rep h 0 T" and "distinct (inorder T)" and "a \<in> set_tree T" and "lnk h a = Some (q, x, y)"
  shows "x \<noteq> 0 \<longrightarrow> (x \<in> set_tree T \<and> (\<exists>u v. lnk h x = Some (a, u, v)))"
    "y \<noteq> 0 \<longrightarrow> (y \<in> set_tree T \<and> (\<exists>u v. lnk h y = Some (a, u, v)))"
    "q \<noteq> 0 \<longrightarrow> (q \<in> set_tree T \<and> (\<exists>u v w. lnk h q = Some (u, v, w) \<and> (v = a \<or> w = a)))"
    "a \<noteq> q" "a \<noteq> x" "a \<noteq> y" "x \<noteq> 0 \<Longrightarrow> x \<noteq> y" "q \<noteq> 0 \<Longrightarrow> q \<noteq> x" "q \<noteq> 0 \<Longrightarrow> q \<noteq> y"
proof -
  obtain ctx A B where T: "T = plug ctx (Node A a B)" using plug_member [OF assms(3)] by blast
  have r: "repc h ctx a" "q = top_ix ctx" "x = rt A" "y = rt B" "rep h a A" "rep h a B" "a \<noteq> 0"
    using assms(1,4) unfolding T rep_plug by auto
  have d: "a \<notin> set_tree A" "a \<notin> set_tree B" "set_tree A \<inter> set_tree B = {}"
      "(set (lctx ctx) \<union> set (rctx ctx)) \<inter> insert a (set_tree A \<union> set_tree B) = {}"
    using assms(2) unfolding T inorder_plug by auto
  have st: "set_tree T = set (lctx ctx) \<union> insert a (set_tree A \<union> set_tree B) \<union> set (rctx ctx)"
    unfolding T set_tree_plug by auto
  have xA: "x \<noteq> 0 \<Longrightarrow> x \<in> set_tree A" "y \<noteq> 0 \<Longrightarrow> y \<in> set_tree B" using r rt_in by (metis rt.simps(1))+
  have qin: "q \<noteq> 0 \<Longrightarrow> q \<in> set (lctx ctx) \<union> set (rctx ctx)" using r(2) top_ix_in [of ctx] by (cases ctx) auto
  show "x \<noteq> 0 \<longrightarrow> (x \<in> set_tree T \<and> (\<exists>u v. lnk h x = Some (a, u, v)))"
    using r(3,5) xA(1) st by (cases A) auto
  show "y \<noteq> 0 \<longrightarrow> (y \<in> set_tree T \<and> (\<exists>u v. lnk h y = Some (a, u, v)))"
    using r(4,6) xA(2) st by (cases B) auto
  show "q \<noteq> 0 \<longrightarrow> (q \<in> set_tree T \<and> (\<exists>u v w. lnk h q = Some (u, v, w) \<and> (v = a \<or> w = a)))"
    using r(1,2) qin st by (cases ctx) auto
  show "a \<noteq> q" "a \<noteq> x" "a \<noteq> y" using qin xA d r(7) by auto
  show "x \<noteq> 0 \<Longrightarrow> x \<noteq> y" using xA d by auto
  show "q \<noteq> 0 \<Longrightarrow> q \<noteq> x" using qin xA d by auto
  show "q \<noteq> 0 \<Longrightarrow> q \<noteq> y" using qin xA d by auto
qed

subsection \<open>Moving the last node\<close>

text \<open>The slice after the last node \<open>m\<close> has been moved to the free index \<open>i\<close>.\<close>

lemma move_last_links:
  assumes rep: "rep h 0 T" and dist: "distinct (inorder T)" and m: "m \<in> set_tree T" "lnk h m = Some (p, l, r)"
    and i: "i \<notin> set_tree T" "i \<noteq> 0" and g: "g = (\<lambda>a. if a = m then i else a)"
  obtains h1 h2 h3 where
    "(if p \<noteq> 0 then
        do { k \<leftarrow> getChildIndex h m p;
             if k then upd p (\<lambda>n. n\<lparr>nd_rchild := i\<rparr>) h else upd p (\<lambda>n. n\<lparr>nd_lchild := i\<rparr>) h }
      else Some h) = Some h1"
    "(if l \<noteq> 0 then upd l (\<lambda>n. n\<lparr>nd_parent := i\<rparr>) h1 else Some h1) = Some h2"
    "(if r \<noteq> 0 then upd r (\<lambda>n. n\<lparr>nd_parent := i\<rparr>) h2 else Some h2) = Some h3"
    "pay h3 = pay h" "lnk h3 m = Some (p, l, r)"
    "\<And>a q x y. a \<in> set_tree T \<Longrightarrow> a \<noteq> m \<Longrightarrow> lnk h a = Some (q, x, y) \<Longrightarrow> lnk h3 a = Some (g q, g x, g y)"
proof -
  note M = rep_mutual [OF rep dist m]
  obtain pp pl pr where lp: "p \<noteq> 0 \<Longrightarrow> lnk h p = Some (pp, pl, pr) \<and> (pl = m \<or> pr = m)" using M(3) by blast
  obtain ll lr where ll: "l \<noteq> 0 \<Longrightarrow> lnk h l = Some (m, ll, lr)" using M(1) by blast
  obtain rl rr where rr: "r \<noteq> 0 \<Longrightarrow> lnk h r = Some (m, rl, rr)" using M(2) by blast
  have m0: "m \<noteq> 0" using rep_nonzero [OF rep m(1)] .
  obtain h1 where h1: "(if p \<noteq> 0 then
        do { k \<leftarrow> getChildIndex h m p;
             if k then upd p (\<lambda>n. n\<lparr>nd_rchild := i\<rparr>) h else upd p (\<lambda>n. n\<lparr>nd_lchild := i\<rparr>) h }
      else Some h) = Some h1"
    and l1: "lnk h1 = (if p \<noteq> 0 then (lnk h)(p \<mapsto> (pp, if pr = m then pl else i, if pr = m then i else pr)) else lnk h)"
    and p1: "pay h1 = pay h"
    by (rule redirect_child [of p h pp pl pr m i]) (use lp in auto)
  obtain h2 where h2: "(if l \<noteq> 0 then upd l (\<lambda>n. n\<lparr>nd_parent := i\<rparr>) h1 else Some h1) = Some h2"
    and l2: "lnk h2 = (if l \<noteq> 0 then (lnk h1)(l \<mapsto> (i, ll, lr)) else lnk h1)" and p2: "pay h2 = pay h1"
    by (rule redirect_parent [of l h1 m ll lr i]) (use ll l1 M in auto)
  obtain h3 where h3: "(if r \<noteq> 0 then upd r (\<lambda>n. n\<lparr>nd_parent := i\<rparr>) h2 else Some h2) = Some h3"
    and l3: "lnk h3 = (if r \<noteq> 0 then (lnk h2)(r \<mapsto> (i, rl, rr)) else lnk h2)" and p3: "pay h3 = pay h2"
    by (rule redirect_parent [of r h2 m rl rr i]) (use rr l1 l2 M in auto)
  have lm: "lnk h3 m = Some (p, l, r)" using l1 l2 l3 m(2) M by auto
  have step: "lnk h3 a = Some (g q, g x, g y)" if a: "a \<in> set_tree T" "a \<noteq> m" "lnk h a = Some (q, x, y)" for a q x y
  proof -
    note N = rep_mutual [OF rep dist a(1,3)]
    have q: "q = m \<longleftrightarrow> (a = l \<and> l \<noteq> 0) \<or> (a = r \<and> r \<noteq> 0)"
      using N(3) m(2) m0 a(3) ll rr rep_nonzero [OF rep a(1)] by auto
    have xy: "x = m \<or> y = m \<longleftrightarrow> a = p \<and> p \<noteq> 0"
      using N(1,2) m(2) m0 a(3) lp rep_nonzero [OF rep a(1)] by auto
    have "lnk h3 a = Some (if q = m then i else q, if x = m then i else x, if y = m then i else y)"
    proof (cases "a = p")
      case True
      then have ap: "p \<noteq> 0" "q = pp" "x = pl" "y = pr" "pl = m \<or> pr = m" using rep_nonzero [OF rep a(1)] lp a(3) by auto
      have "q \<noteq> m" using q True M(8,9) ap(1) by auto
      moreover have "lnk h3 a = Some (pp, if pr = m then pl else i, if pr = m then i else pr)"
        using l1 l2 l3 True M(8,9) ap(1) by auto
      moreover have "pr = m \<Longrightarrow> pl \<noteq> m" using N(7) ap m0 by auto
      ultimately show ?thesis using ap by auto
    next
      case False
      then have "x \<noteq> m" "y \<noteq> m" using xy by auto
      then show ?thesis using q l1 l2 l3 False a(3) ll rr M(7) by auto
    qed
    then show ?thesis by (simp add: g)
  qed
  show ?thesis
    by (rule that [OF h1 h2 h3 _ lm step]) (use p1 p2 p3 in simp_all)
qed

text \<open>A renaming of the indices keeps the invariant and the contents.\<close>

lemma rename_at:
  assumes sh: "shape c s T" and ok: "state_ok c s T"
    and g: "g 0 = 0" "inj_on g (set_tree T)" "g ` set_tree T = {1..sp_count s'}"
      "\<And>a. a \<in> set_tree T \<Longrightarrow> (g a = minv \<longleftrightarrow> a = minv) \<and> (g a = maxv \<longleftrightarrow> a = maxv)"
    and lnk: "\<And>a p l r. a \<in> set_tree T \<Longrightarrow> lnk (sp_items s) a = Some (p, l, r) \<Longrightarrow> lnk (sp_items s') (g a) = Some (g p, g l, g r)"
    and pay: "\<And>a. a \<in> set_tree T \<Longrightarrow> pay (sp_items s') (g a) = pay (sp_items s) a \<and> sp_infos s' (g a) = sp_infos s a"
    and s': "sp_root s' = g (rt T)" "dom (sp_items s') = {0..sp_count s'}" "dom (sp_infos s') = {0..sp_count s'}" "hash_ok c s'"
  shows "splay_at c s' (map_tree g T) \<and> contents (sp_items s') (map_tree g T) = contents (sp_items s) T"
proof -
  let ?b = "ob (sp_items s)" and ?b' = "ob (sp_items s')"
  have ob: "?b' (g a) = ?b a" if "a \<in> set_tree T" for a using pay [OF that] by (simp add: ob_def)
  have nz: "g a \<noteq> 0" if "a \<in> set_tree T" for a using g(3) that by force
  have "rep (sp_items s') 0 (map_tree g T)"
    using rep_map_tree [of g T "sp_items s" "sp_items s'" 0] g(1) nz lnk sh by (auto simp: shape_def)
  moreover have "ends_ok (inorder (map_tree g T))"
  proof -
    have e: "ends_ok (inorder T)" using sh by (simp add: shape_def)
    then have "minv \<in> set_tree T" "maxv \<in> set_tree T" using ends_ok_in [OF e] by auto
    then have "g minv = minv" "g maxv = maxv" using g(4) by auto
    then show ?thesis
      using e g(2) by (simp add: ends_ok_def inorder_map distinct_map hd_map last_map)
  qed
  moreover have "(?b' e = None \<longleftrightarrow> e \<in> {minv, maxv}) \<and> (\<exists>w. sp_infos s' e = Some w \<and> based c (?b' e) w)"
    if e: "e \<in> set_tree (map_tree g T)" for e
  proof -
    obtain a where a: "a \<in> set_tree T" "e = g a" using e by (auto simp: tree.set_map)
    then show ?thesis using shape_node [OF sh a(1)] ob [OF a(1)] pay [OF a(1)] g(4) [OF a(1)] by simp
  qed
  ultimately have "shape c s' (map_tree g T)" by (rule shapeI)
  moreover have "state_ok c s' (map_tree g T)"
    by (rule info_ok_map_tree [where g = g, OF g(1) _ ok]) (use ob pay g(4) in auto)
  moreover have "rt (map_tree g T) = sp_root s'" using s'(1) g(1) by (simp add: rt_map_tree)
  moreover have "set_tree (map_tree g T) = {1..sp_count s'}" using g(3) by (simp add: tree.set_map)
  ultimately have "splay_at c s' (map_tree g T)" using s' by (simp add: splay_at_def)
  moreover have "contents (sp_items s') (map_tree g T) = contents (sp_items s) T"
    unfolding contents_def by (auto simp: inorder_map map_filter_map ob intro: map_filter_cong)
  ultimately show ?thesis by blast
qed

lemma lnk_restrict: "a \<in> X \<Longrightarrow> lnk (h |` X) a = lnk h a" and pay_restrict: "a \<in> X \<Longrightarrow> pay (h |` X) a = pay h a"
  by (simp_all add: lnk_def pay_def)

text \<open>The state after the node \<open>i\<close> has been cut off and its key deleted.\<close>

definition cut_at :: "('o, 'i) stored_class \<Rightarrow> ('o, 'i) splay \<Rightarrow> int \<Rightarrow> int tree \<Rightarrow> bool" where
  "cut_at c s i T =
     (shape c s T \<and> state_ok c s T \<and> rt T = sp_root s \<and> set_tree T = {1..sp_count s} - {i} \<and> 3 \<le> i \<and> i \<le> sp_count s \<and>
      dom (sp_items s) = {0..sp_count s} \<and> dom (sp_infos s) = {0..sp_count s} \<and>
      (\<forall>k j. sp_hash s k = Some j \<longrightarrow> 3 \<le> j \<and> j \<le> sp_count s \<and> j \<noteq> i \<and> (\<exists>v. pay (sp_items s) j = Some (k, Obj v))) \<and>
      (\<forall>j. 3 \<le> j \<and> j \<le> sp_count s \<and> j \<noteq> i \<longrightarrow>
         (\<exists>v. pay (sp_items s) j = Some (sc_Key c v, Obj v) \<and> sp_hash s (sc_Key c v) = Some j)))"

lemma cut_atD:
  assumes "cut_at c s i T"
  shows "shape c s T" "state_ok c s T" "rt T = sp_root s" "set_tree T = {1..sp_count s} - {i}" "3 \<le> i" "i \<le> sp_count s"
    "dom (sp_items s) = {0..sp_count s}" "dom (sp_infos s) = {0..sp_count s}"
    "\<And>k j. sp_hash s k = Some j \<Longrightarrow> 3 \<le> j \<and> j \<le> sp_count s \<and> j \<noteq> i \<and> (\<exists>v. pay (sp_items s) j = Some (k, Obj v))"
    "\<And>j. 3 \<le> j \<Longrightarrow> j \<le> sp_count s \<Longrightarrow> j \<noteq> i \<Longrightarrow>
       \<exists>v. pay (sp_items s) j = Some (sc_Key c v, Obj v) \<and> sp_hash s (sc_Key c v) = Some j"
  using assms unfolding cut_at_def by simp_all

lemma move_last_same:
  assumes cut: "cut_at c s (sp_count s) T"
  shows "splay_holds c (drop_last s) (contents (sp_items s) T)"
proof -
  let ?s = "drop_last s" and ?m = "sp_count s"
  note C = cut_atD [OF cut]
  have st: "set_tree T = {1..?m - 1}" unfolding C(4) by auto
  have "splay_at c ?s (map_tree (\<lambda>a. a) T) \<and> contents (sp_items ?s) (map_tree (\<lambda>a. a) T) = contents (sp_items s) T"
  proof (rule rename_at [OF C(1,2)])
    have "hash_ok c ?s"
      unfolding hash_ok_def
    proof (intro conjI allI impI)
      fix k j assume "sp_hash ?s k = Some j"
      then have "3 \<le> j \<and> j \<le> ?m \<and> j \<noteq> ?m \<and> (\<exists>v. pay (sp_items s) j = Some (k, Obj v))"
        using C(9) [of k j] by (simp add: drop_last_def)
      then show "3 \<le> j" "j \<le> sp_count ?s" "\<exists>v. pay (sp_items ?s) j = Some (k, Obj v)"
        by (auto simp: drop_last_def pay_restrict)
    next
      fix j assume "3 \<le> j \<and> j \<le> sp_count ?s"
      then have j: "3 \<le> j" "j < ?m" by (auto simp: drop_last_def)
      then have "\<exists>v. pay (sp_items s) j = Some (sc_Key c v, Obj v) \<and> sp_hash s (sc_Key c v) = Some j"
        using C(10) [of j] by simp
      then show "\<exists>v. pay (sp_items ?s) j = Some (sc_Key c v, Obj v) \<and> sp_hash ?s (sc_Key c v) = Some j"
        using j by (simp add: drop_last_def pay_restrict)
    qed
    then show "hash_ok c ?s" .
  qed (use st C in \<open>auto simp: drop_last_def lnk_restrict pay_restrict\<close>)
  then show ?thesis unfolding splay_holds_def by metis
qed

lemma hash_ok_move:
  assumes cut: "cut_at c s i T" and i: "i \<noteq> sp_count s" and v: "pay (sp_items s) (sp_count s) = Some (sc_Key c v, Obj v)"
    and s': "sp_count s' = sp_count s - 1" "sp_hash s' = (sp_hash s)(sc_Key c v \<mapsto> i)"
      "pay (sp_items s') i = Some (sc_Key c v, Obj v)"
      "\<And>j. j \<noteq> i \<Longrightarrow> 0 \<le> j \<Longrightarrow> j < sp_count s \<Longrightarrow> pay (sp_items s') j = pay (sp_items s) j"
  shows "hash_ok c s'"
proof -
  let ?m = "sp_count s"
  note C1 = cut_atD(9) [OF cut] and C2 = cut_atD(10) [OF cut]
  have im: "3 \<le> i" "i < ?m" using cut_atD(5,6) [OF cut] i by auto
  have "sp_hash s (sc_Key c v) = Some ?m"
    using C2 [of ?m] im v by auto
  have "3 \<le> j \<and> j \<le> sp_count s' \<and> (\<exists>w. pay (sp_items s') j = Some (k, Obj w))" if "sp_hash s' k = Some j" for k j
  proof (cases "k = sc_Key c v")
    case True
    then show ?thesis using that s' im by auto
  next
    case False
    then have h: "sp_hash s k = Some j" using that s'(2) by simp
    moreover have "j \<noteq> ?m" using C1 [OF h] v False by auto
    ultimately show ?thesis using C1 [OF h] s' by auto
  qed
  moreover have "\<exists>w. pay (sp_items s') j = Some (sc_Key c w, Obj w) \<and> sp_hash s' (sc_Key c w) = Some j"
    if j: "3 \<le> j" "j \<le> sp_count s'" for j
  proof (cases "j = i")
    case True
    then show ?thesis using s' by auto
  next
    case False
    then obtain w where w: "pay (sp_items s) j = Some (sc_Key c w, Obj w)" "sp_hash s (sc_Key c w) = Some j"
      using C2 [of j] j s'(1) by auto
    moreover have "sc_Key c w \<noteq> sc_Key c v"
      using w(2) \<open>sp_hash s (sc_Key c v) = Some ?m\<close> j s'(1) by auto
    ultimately show ?thesis using s' False j by (intro exI [of _ w]) auto
  qed
  ultimately show ?thesis unfolding hash_ok_def by blast
qed

lemma move_last_holds:
  assumes cut: "cut_at c s i T"
  shows "\<exists>s'. move_last s i = Some s' \<and> splay_holds c (drop_last s') (contents (sp_items s) T)"
proof (cases "i = sp_count s")
  case True
  then show ?thesis using move_last_same cut by (auto simp: move_last_def)
next
  case False
  let ?m = "sp_count s" and ?h = "sp_items s"
  note C = cut_atD [OF cut]
  have im: "3 \<le> i" "i < ?m" using C(5,6) False by auto
  have rep: "rep ?h 0 T" and dist: "distinct (inorder T)" using C(1) by (auto simp: shape_def ends_ok_def)
  have mT: "?m \<in> set_tree T" "i \<notin> set_tree T" unfolding C(4) using im by auto
  obtain p l r where lm: "lnk ?h ?m = Some (p, l, r)" using rep_lnk [OF rep mT(1)] by auto
  let ?g = "\<lambda>a. if a = ?m then i else a"
  obtain h1 h2 h3 where h1: "(if p \<noteq> 0 then
        do { k \<leftarrow> getChildIndex ?h ?m p;
             if k then upd p (\<lambda>n. n\<lparr>nd_rchild := i\<rparr>) ?h else upd p (\<lambda>n. n\<lparr>nd_lchild := i\<rparr>) ?h }
      else Some ?h) = Some h1"
    and h2: "(if l \<noteq> 0 then upd l (\<lambda>n. n\<lparr>nd_parent := i\<rparr>) h1 else Some h1) = Some h2"
    and h3: "(if r \<noteq> 0 then upd r (\<lambda>n. n\<lparr>nd_parent := i\<rparr>) h2 else Some h2) = Some h3"
    and p3: "pay h3 = pay ?h" and l3: "lnk h3 ?m = Some (p, l, r)"
    and l3': "\<And>a q x y. a \<in> set_tree T \<Longrightarrow> a \<noteq> ?m \<Longrightarrow> lnk ?h a = Some (q, x, y) \<Longrightarrow> lnk h3 a = Some (?g q, ?g x, ?g y)"
    by (rule move_last_links [OF rep dist mT(1) lm mT(2) _ refl]) (use im in auto)
  obtain mn where mn: "h3 ?m = Some mn" "nd_parent mn = p" "nd_lchild mn = l" "nd_rchild mn = r"
    using l3 by (rule lnk_SomeE)
  obtain ln where ln: "?h ?m = Some ln" "nd_parent ln = p" "nd_lchild ln = l" "nd_rchild ln = r"
    using lm by (rule lnk_SomeE)
  have "?m \<in> dom (sp_infos s)" unfolding C(8) using im by simp
  then obtain w where w: "sp_infos s ?m = Some w" by blast
  obtain v where v: "pay ?h ?m = Some (sc_Key c v, Obj v)" using C(10) [of ?m] im by auto
  have "pay h3 ?m = Some (sc_Key c v, Obj v)" using v p3 by simp
  then have kv: "nd_key mn = sc_Key c v" "nd_obj mn = Obj v" using mn(1) by (simp_all add: pay_def)
  let ?s = "s\<lparr>sp_hash := (sp_hash s)(nd_key mn \<mapsto> i), sp_items := h3(i \<mapsto> mn), sp_infos := (sp_infos s)(i \<mapsto> w),
              sp_root := (if sp_root s = ?m then i else sp_root s)\<rparr>"
  have mv: "move_last s i = Some ?s"
    unfolding move_last_def Let_def
    by (simp only: False ln mn(1) h1 h2 h3 w not_False_eq_True if_True bind.bind_lunit)
  let ?s' = "drop_last ?s"
  have pi: "pay (sp_items ?s') i = Some (sc_Key c v, Obj v)"
    using kv im by (simp add: drop_last_def pay_restrict)
  have "splay_at c ?s' (map_tree ?g T) \<and> contents (sp_items ?s') (map_tree ?g T) = contents ?h T"
  proof (rule rename_at [OF C(1,2)])
    show "?g 0 = 0" "inj_on ?g (set_tree T)" "?g ` set_tree T = {1..sp_count ?s'}"
      unfolding C(4) using im by (auto simp: inj_on_def drop_last_def image_iff)
    show "(?g a = minv \<longleftrightarrow> a = minv) \<and> (?g a = maxv \<longleftrightarrow> a = maxv)" for a using im by auto
    show "sp_root ?s' = ?g (rt T)" using C(3) by (simp add: drop_last_def)
    show "hash_ok c ?s'"
      by (rule hash_ok_move [OF cut False v _ _ pi]) (use kv p3 in \<open>auto simp: drop_last_def pay_restrict\<close>)
    have "dom h3 = {0..?m}" using pay_eq_dom [OF p3] C(7) by simp
    then show "dom (sp_items ?s') = {0..sp_count ?s'}" "dom (sp_infos ?s') = {0..sp_count ?s'}"
      using C(8) im by (auto simp: drop_last_def)
    fix a assume a: "a \<in> set_tree T"
    then have am: "1 \<le> a" "a \<le> ?m" "a \<noteq> i" using C(4) by auto
    show "pay (sp_items ?s') (?g a) = pay ?h a \<and> sp_infos ?s' (?g a) = sp_infos s a"
      using am im pi v w p3 by (auto simp: drop_last_def pay_restrict)
    show "lnk (sp_items ?s') (?g a) = Some (?g q, ?g x, ?g y)" if "lnk ?h a = Some (q, x, y)" for q x y
    proof (cases "a = ?m")
      case True
      then have "q = p" "x = l" "y = r" using that lm by auto
      moreover have "p \<noteq> ?m" "l \<noteq> ?m" "r \<noteq> ?m" using rep_mutual(4-6) [OF rep dist mT(1) lm] by auto
      ultimately show ?thesis using True im mn by (simp add: drop_last_def lnk_restrict)
    next
      case nm: False
      then show ?thesis using l3' [OF a nm that] am by (simp add: drop_last_def lnk_restrict)
    qed
  qed
  then have "splay_holds c ?s' (contents ?h T)"
    unfolding splay_holds_def by (intro exI [of _ "map_tree ?g T"]) (simp only: simp_thms)
  then show ?thesis by (intro exI [of _ ?s] conjI mv)
qed

subsection \<open>Cutting a node off\<close>

lemma ob_pay_eq: "ob h a = Some v \<longleftrightarrow> (\<exists>k. pay h a = Some (k, Obj v))"
  by (auto simp: ob_def split: option.splits splay_obj.splits)

lemma key_index:
  assumes "splay_at c s T" and "a \<in> set_tree T" and "ob (sp_items s) a = Some w"
  shows "sp_hash s (sc_Key c w) = Some a"
proof -
  have "a \<notin> {minv, maxv}" "1 \<le> a" "a \<le> sp_count s"
    using assms shape_node [OF splay_atD(1) [OF assms(1)] assms(2)] splay_atD(4) [OF assms(1)] by auto
  then have "\<exists>v. pay (sp_items s) a = Some (sc_Key c v, Obj v) \<and> sp_hash s (sc_Key c v) = Some a"
    using splay_atD(8) [OF assms(1)] by (simp add: hash_ok_def)
  then show ?thesis using assms(3) by (auto simp: ob_pay_eq)
qed

lemma filter_other_keys:
  assumes "splay_at c s T" and "set xs \<subseteq> set_tree T" and "\<And>i. sp_hash s key = Some i \<Longrightarrow> i \<notin> set xs"
  shows "filter (\<lambda>w. sc_Key c w \<noteq> key) (List.map_filter (ob (sp_items s)) xs) = List.map_filter (ob (sp_items s)) xs"
proof (rule filter_True, intro ballI)
  fix w assume "w \<in> set (List.map_filter (ob (sp_items s)) xs)"
  then obtain a where a: "a \<in> set xs" "ob (sp_items s) a = Some w" unfolding in_map_filter by blast
  then have "sp_hash s (sc_Key c w) = Some a" by (intro key_index [OF assms(1) subsetD [OF assms(2)]])
  then show "sc_Key c w \<noteq> key" using assms(3) [of a] a(1) by auto
qed

context summary_class
begin

text \<open>The part of \<^verbatim>\<open>Delete\<close> that detaches the left child of \<open>nxt\<close> and renews the two summaries.\<close>

lemma cut_left_child:
  assumes sh: "shape c s (Node A pre (Node (Node Leaf i Leaf) nxt B))" and i: "i \<notin> {minv, maxv}"
    and ok: "state_ok c s A" "state_ok c s B"
  obtains h s4 s5 where "upd nxt (\<lambda>n. n\<lparr>nd_lchild := 0\<rparr>) (sp_items s) = Some h" "maintain c (s\<lparr>sp_items := h\<rparr>) nxt = Some s4"
    "maintain c s4 pre = Some s5" "shape c s5 (Node A pre (Node Leaf nxt B))" "state_ok c s5 (Node A pre (Node Leaf nxt B))"
    "only_links {nxt, pre} s s5"
proof -
  let ?T = "Node A pre (Node (Node Leaf i Leaf) nxt B)" and ?T' = "Node A pre (Node Leaf nxt B)"
  have rep: "rep (sp_items s) 0 ?T" and e: "ends_ok (inorder ?T)" using sh by (auto simp: shape_def)
  then have ln: "lnk (sp_items s) nxt = Some (pre, i, rt B)" by simp
  obtain h where h: "upd nxt (\<lambda>n. n\<lparr>nd_lchild := 0\<rparr>) (sp_items s) = Some h"
      "lnk h = (lnk (sp_items s))(nxt \<mapsto> (pre, 0, rt B))" "pay h = pay (sp_items s)"
    using upd_lchild [OF ln] .
  have d: "nxt \<noteq> pre" "nxt \<notin> set_tree A" "nxt \<notin> set_tree B" "pre \<notin> set_tree A" "pre \<notin> set_tree B" "set_tree A \<inter> set_tree B = {}"
    using e by (auto simp: ends_ok_def)
  have "rep h pre A" "rep h nxt B"
    using rep h(2) d by (auto intro!: rep_frame [where h = "sp_items s"])
  then have rep': "rep h 0 ?T'" using rep h(2) d(1) by auto
  have e': "ends_ok (inorder ?T')"
    using e i by (cases "inorder A"; cases "inorder B") (auto simp: ends_ok_def split: if_splits)
  let ?s = "s\<lparr>sp_items := h\<rparr>"
  have obs: "ob h = ob (sp_items s)" by (rule ob_pay [OF h(3)])
  have sh': "shape c ?s (plug [(True, pre, A)] (Node Leaf nxt B))"
  proof (rule shapeI)
    show "(ob (sp_items ?s) a = None \<longleftrightarrow> a \<in> {minv, maxv}) \<and> (\<exists>w. sp_infos ?s a = Some w \<and> based c (ob (sp_items ?s) a) w)"
      if "a \<in> set_tree (plug [(True, pre, A)] (Node Leaf nxt B))" for a
      using shape_node [OF sh, of a] that obs by auto
  qed (use rep' e' in simp_all)
  have oks: "state_ok c ?s Leaf \<and> state_ok c ?s B" "state_ok c ?s A" using ok obs by simp_all
  obtain s4 where s4: "maintain c ?s nxt = Some s4" "shape c s4 (plug [(True, pre, A)] (Node Leaf nxt B))" "only_links {nxt} ?s s4"
      and okN: "state_ok c s4 (Node Leaf nxt B)"
    using maintain_shape [OF sh'] oks(1) by blast
  have sh4: "shape c s4 (plug [] ?T')" using s4(2) by simp
  have "state_ok c s4 A"
    by (rule info_ok_only_links [OF s4(3) _ oks(2)]) (use d in auto)
  then obtain s5 where s5: "maintain c s4 pre = Some s5" "shape c s5 (plug [] ?T')" "only_links {pre} s4 s5" "state_ok c s5 ?T'"
    using maintain_shape [OF sh4] okN by blast
  have "only_links {nxt, pre} s s5"
    using s4(3) s5(3) h(3) by (auto simp: only_links_def)
  then show ?thesis using that [OF h(1) s4(1) s5(1)] s5(2,4) by simp
qed

text \<open>The three splays of \<^verbatim>\<open>Delete\<close> leave node \<open>i\<close> alone below its successor.\<close>

lemma delete_splays:
  assumes at: "splay_at c s T" and i: "i \<in> set_tree T" "i \<notin> {minv, maxv}"
  obtains s1 ni pre nxt s2 s3 xs ys A B where "splay c s i 0 = Some s1" "sp_items s1 i = Some ni"
    "chain_end (sp_items s1) True (nd_lchild ni) = Some pre" "chain_end (sp_items s1) False (nd_rchild ni) = Some nxt"
    "splay c s1 pre 0 = Some s2" "splay c s2 nxt pre = Some s3" "shape c s3 (Node A pre (Node (Node Leaf i Leaf) nxt B))"
    "state_ok c s3 A" "state_ok c s3 B" "inorder T = inorder (Node A pre (Node (Node Leaf i Leaf) nxt B))"
    "pay (sp_items s3) = pay (sp_items s)" "sp_hash s3 = sp_hash s" "sp_count s3 = sp_count s" "sp_root s3 = pre"
    "dom (sp_infos s3) = dom (sp_infos s)"
proof -
  obtain s1 A1 B1 where s1: "splay c s i 0 = Some s1" "splay_at c s1 (Node A1 i B1)" "inorder (Node A1 i B1) = inorder T"
      "pay (sp_items s1) = pay (sp_items s)" "sp_hash s1 = sp_hash s" "sp_count s1 = sp_count s"
    by (rule splay_root [OF at i(1)])
  note D1 = splay_atD [OF s1(2)]
  have ne: "A1 \<noteq> Leaf" "B1 \<noteq> Leaf" using D1(9) i(2) by (auto simp: ends_ok_def)
  then have ne': "inorder A1 \<noteq> []" "inorder B1 \<noteq> []" by (simp_all add: inorder_Nil)
  let ?pre = "last (inorder A1)" and ?nxt = "hd (inorder B1)"
  have r1: "lnk (sp_items s1) i = Some (0, rt A1, rt B1)" "rep (sp_items s1) i A1" "rep (sp_items s1) i B1" using D1(5) by auto
  obtain ni where ni: "sp_items s1 i = Some ni" "nd_lchild ni = rt A1" "nd_rchild ni = rt B1" using r1(1) by (rule lnk_SomeE)
  have ch: "chain_end (sp_items s1) True (rt A1) = Some ?pre" "chain_end (sp_items s1) False (rt B1) = Some ?nxt"
    using chain_end_last [OF r1(2) ne(1)] chain_end_last [OF r1(3) ne(2)] by auto
  have "?pre \<in> set_tree (Node A1 i B1)" using last_in_set [OF ne'(1)] by simp
  then obtain s2 A2 B2 where s2: "splay c s1 ?pre 0 = Some s2" "splay_at c s2 (Node A2 ?pre B2)"
      "inorder (Node A2 ?pre B2) = inorder (Node A1 i B1)"
      "pay (sp_items s2) = pay (sp_items s1)" "sp_hash s2 = sp_hash s1" "sp_count s2 = sp_count s1"
    by (rule splay_root [OF s1(2)])
  have "inorder A2 @ ?pre # inorder B2 = butlast (inorder A1) @ ?pre # (i # inorder B1)"
    using s2(3) append_butlast_last_id [OF ne'(1)] by (metis append.assoc append_Cons append_Nil inorder.simps(2))
  then have "inorder B2 = i # inorder B1"
    by (rule distinct_split_unique [THEN conjunct2]) (use splay_atD(9) [OF s2(2)] in \<open>simp add: ends_ok_def\<close>)
  then have B2: "inorder B2 = [i] @ ?nxt # tl (inorder B1)" using ne'(2) by simp
  then have "?nxt \<in> set_tree B2" by (metis in_set_conv_decomp set_inorder)
  then obtain s3 A3 B3 where s3: "splay c s2 ?nxt ?pre = Some s3" "shape c s3 (Node A2 ?pre (Node A3 ?nxt B3))"
      "inorder (Node A3 ?nxt B3) = inorder B2" "state_ok c s3 A2" "state_ok c s3 (Node A3 ?nxt B3)" "only_links (set_tree B2) s2 s3"
    by (rule splay_under [OF s2(2)])
  have dB: "distinct (inorder B2)" using splay_atD(9) [OF s2(2)] by (simp add: ends_ok_def)
  have "inorder A3 = [i]"
    using distinct_split_unique [of "inorder A3" ?nxt "inorder B3" "[i]" "tl (inorder B1)"] s3(3) B2 dB by simp
  then have A3: "A3 = Node Leaf i Leaf" by (rule inorder_single)
  have io: "inorder T = inorder (Node A2 ?pre (Node A3 ?nxt B3))" using s3(3) s2(3) s1(3) by simp
  have "dom (sp_infos s3) = dom (sp_infos s)"
    using s3(6) splay_atD(7) [OF s2(2)] splay_atD(7) [OF at] s2(6) s1(6) by (simp add: only_links_def)
  then show ?thesis
    using that [OF s1(1) ni(1) _ _ s2(1) s3(1) s3(2) [unfolded A3] s3(4) _ io [unfolded A3]] ni ch s3(5,6) s1 s2 splay_atD(3) [OF s2(2)]
    by (simp add: only_links_def)
qed

lemma Delete_present:
  assumes at: "splay_at c s T" and key: "sp_hash s key = Some i"
  shows "\<exists>s'. Splay_Delete c s key = Some (s', True) \<and>
              splay_holds c s' (filter (\<lambda>w. sc_Key c w \<noteq> key) (contents (sp_items s) T))"
proof -
  note D = splay_atD [OF at]
  have i3: "3 \<le> i" "i \<le> sp_count s" and ki: "\<exists>v. pay (sp_items s) i = Some (key, Obj v)"
    using D(8) key unfolding hash_ok_def by blast+
  then have iT: "i \<in> set_tree T" "i \<notin> {minv, maxv}" using D(4) by auto
  obtain s1 ni pre nxt s2 s3 A B where S: "splay c s i 0 = Some s1" "sp_items s1 i = Some ni"
    "chain_end (sp_items s1) True (nd_lchild ni) = Some pre" "chain_end (sp_items s1) False (nd_rchild ni) = Some nxt"
    "splay c s1 pre 0 = Some s2" "splay c s2 nxt pre = Some s3" "shape c s3 (Node A pre (Node (Node Leaf i Leaf) nxt B))"
    "state_ok c s3 A" "state_ok c s3 B" "inorder T = inorder (Node A pre (Node (Node Leaf i Leaf) nxt B))"
    "pay (sp_items s3) = pay (sp_items s)" "sp_hash s3 = sp_hash s" "sp_count s3 = sp_count s" "sp_root s3 = pre"
    "dom (sp_infos s3) = dom (sp_infos s)"
    by (rule delete_splays [OF at iT])
  obtain h s4 s5 where S5: "upd nxt (\<lambda>n. n\<lparr>nd_lchild := 0\<rparr>) (sp_items s3) = Some h" "maintain c (s3\<lparr>sp_items := h\<rparr>) nxt = Some s4"
    "maintain c s4 pre = Some s5" "shape c s5 (Node A pre (Node Leaf nxt B))" "state_ok c s5 (Node A pre (Node Leaf nxt B))"
    "only_links {nxt, pre} s3 s5"
    by (rule cut_left_child [OF S(7) iT(2) S(8,9)])
  let ?T = "Node A pre (Node Leaf nxt B)" and ?s = "s5\<lparr>sp_hash := (sp_hash s5)(key := None)\<rparr>"
  have E: "pay (sp_items s5) = pay (sp_items s)" "sp_hash s5 = sp_hash s" "sp_count s5 = sp_count s" "sp_root s5 = pre"
      "dom (sp_infos s5) = dom (sp_infos s)"
    using S5(6) S(11-15) by (simp_all add: only_links_def)
  have "set (inorder T) = insert i (set_tree ?T)" "i \<notin> set_tree ?T"
    using S(10) D(9) by (auto simp: ends_ok_def)
  then have st: "set_tree ?T = {1..sp_count s} - {i}" using D(4) by auto
  have cut: "cut_at c ?s i ?T"
    unfolding cut_at_def
  proof (intro conjI allI impI)
    show "shape c ?s ?T" using S5(4) by (simp add: shape_def)
    show "state_ok c ?s ?T" using S5(5) by simp
    show "set_tree ?T = {1..sp_count ?s} - {i}" using st E(3) by simp
    show "dom (sp_items ?s) = {0..sp_count ?s}" using pay_eq_dom [OF E(1)] D(6) E(3) by simp
    show "dom (sp_infos ?s) = {0..sp_count ?s}" using E(3,5) D(7) by simp
    fix k j assume "sp_hash ?s k = Some j"
    then have k: "k \<noteq> key" "sp_hash s k = Some j" using E(2) by (auto split: if_splits)
    then have p: "3 \<le> j" "j \<le> sp_count s" "\<exists>v. pay (sp_items s) j = Some (k, Obj v)"
      using D(8) unfolding hash_ok_def by blast+
    then show "3 \<le> j" "j \<le> sp_count ?s" "\<exists>v. pay (sp_items ?s) j = Some (k, Obj v)" using E by simp_all
    show "j \<noteq> i" using p(3) ki k(1) by auto
  next
    fix j assume j: "3 \<le> j \<and> j \<le> sp_count ?s \<and> j \<noteq> i"
    then obtain v where v: "pay (sp_items s) j = Some (sc_Key c v, Obj v)" "sp_hash s (sc_Key c v) = Some j"
      using D(8) E(3) unfolding hash_ok_def by auto
    then have "sc_Key c v \<noteq> key" using key j by auto
    then show "\<exists>v. pay (sp_items ?s) j = Some (sc_Key c v, Obj v) \<and> sp_hash ?s (sc_Key c v) = Some j"
      using v E by auto
  qed (use E i3 in simp_all)
  obtain s6 where s6: "move_last ?s i = Some s6" "splay_holds c (drop_last s6) (contents (sp_items ?s) ?T)"
    using move_last_holds [OF cut] by blast
  have "Splay_Delete c s key = Some (drop_last s6, True)"
    using key S(1-6) S5(1-3) s6(1) by (simp add: Splay_Delete_def)
  moreover have "contents (sp_items ?s) ?T = filter (\<lambda>w. sc_Key c w \<noteq> key) (contents (sp_items s) T)"
  proof -
    let ?b = "ob (sp_items s)" and ?u = "inorder A @ [pre]" and ?v = "nxt # inorder B"
    have io: "inorder T = ?u @ i # ?v" "inorder ?T = ?u @ ?v" using S(10) by simp_all
    obtain v where v: "?b i = Some v" using ki by (auto simp: ob_pay_eq)
    then have kv: "sc_Key c v = key" using key_index [OF at iT(1)] key D(8) ki unfolding hash_ok_def
      by (metis Pair_inject option.inject)
    have sub: "set (?u @ ?v) \<subseteq> set_tree T" "i \<notin> set (?u @ ?v)"
      using io(1) D(9) set_inorder [of T] by (auto simp: ends_ok_def)
    have "filter (\<lambda>w. sc_Key c w \<noteq> key) (List.map_filter ?b xs) = List.map_filter ?b xs" if "xs = ?u \<or> xs = ?v" for xs
      by (rule filter_other_keys [OF at]) (use that sub key in auto)
    then have f: "filter (\<lambda>w. sc_Key c w \<noteq> key) (List.map_filter ?b ?u) = List.map_filter ?b ?u"
        "filter (\<lambda>w. sc_Key c w \<noteq> key) (List.map_filter ?b ?v) = List.map_filter ?b ?v" by blast+
    have obs: "ob (sp_items ?s) = ?b" using ob_pay [OF E(1)] by simp
    have "contents (sp_items s) T = List.map_filter ?b ?u @ v # List.map_filter ?b ?v"
      unfolding contents_def io(1) map_filter_append map_filter_Cons [of _ i] v by simp
    moreover have "contents (sp_items ?s) ?T = List.map_filter ?b ?u @ List.map_filter ?b ?v"
      unfolding contents_def io(2) map_filter_append obs ..
    ultimately show ?thesis using f kv by (simp only: filter_append filter.simps simp_thms if_False)
  qed
  ultimately show ?thesis using s6(2) by auto
qed

end

end
