(* ===== verification/Splay_Spec.thy ===== *)
theory Splay_Spec
  imports Splay_Remove
begin

section \<open>The splay tree as a sorted list\<close>

text \<open>
  What a client of the splay tree relies on, for a class of stored objects whose comparison is a strict weak order and
  whose summary is a sum (\<open>ordered_class\<close>): an empty tree, the traversals, and the operations on
  a state that holds a sorted list.
\<close>

subsection \<open>The empty tree\<close>

lemma NewSplay_holds: "splay_holds c (NewSplay c) []"
proof -
  let ?s = "NewSplay c" and ?T = "Node Leaf minv (Node Leaf maxv Leaf)"
  have d: "{0..2::int} = {0, 1, 2}" "{1..2::int} = {1, 2}" by auto
  have h: "sp_items ?s = [0 \<mapsto> newNode c nilObj (- 1), minv \<mapsto> (newNode c minObj 0)\<lparr>nd_rchild := maxv\<rparr>,
                          maxv \<mapsto> (newNode c maxObj 1)\<lparr>nd_parent := minv\<rparr>]" by (simp add: NewSplay_def)
  have o: "ob (sp_items ?s) minv = None" "ob (sp_items ?s) maxv = None"
    unfolding h by (simp_all add: ob_def newNode_def)
  have "shape c ?s ?T"
    by (rule shapeI) (use o in \<open>auto simp: NewSplay_def newNode_def ends_ok_def based_def\<close>)
  moreover have "state_ok c ?s ?T"
    using o by (simp add: smry.simps(2)) (simp add: NewSplay_def)
  moreover have "hash_ok c ?s" by (auto simp: hash_ok_def NewSplay_def)
  ultimately have "splay_at c ?s ?T"
    using d by (auto simp: splay_at_def NewSplay_def)
  moreover have "contents (sp_items ?s) ?T = []" using o by (simp add: contents_def)
  ultimately show ?thesis unfolding splay_holds_def by metis
qed

subsection \<open>Traversals and lookups\<close>

lemma range_dfs_rep:
  assumes "rep h p t" and "\<And>a. a \<in> set_tree t \<Longrightarrow> ob h a = None \<longleftrightarrow> a \<in> {minv, maxv}"
  shows "range_dfs h (rt t) = Some (map Obj (contents h t))"
  using assms
proof (induction t arbitrary: p)
  case Leaf
  then show ?case by (subst range_dfs.simps) (simp add: contents_def)
next
  case (Node l a r)
  obtain n where n: "h a = Some n" "nd_lchild n = rt l" "nd_rchild n = rt r"
    using Node.prems(1) by (auto elim: lnk_SomeE)
  have ih: "range_dfs h (rt l) = Some (map Obj (contents h l))" "range_dfs h (rt r) = Some (map Obj (contents h r))" "a \<noteq> 0"
    using Node.IH [of a] Node.prems by auto
  show ?case
  proof (cases "a \<in> {minv, maxv}")
    case True
    then have "ob h a = None" using Node.prems(2) [of a] by auto
    then show ?thesis using True n ih by (subst rt.simps, subst range_dfs.simps) (auto simp: contents_def)
  next
    case False
    then obtain v where "ob h a = Some v" "nd_obj n = Obj v"
      using Node.prems(2) [of a] n(1) by (auto simp: ob_def pay_def split: splay_obj.splits)
    then show ?thesis using False n ih by (subst rt.simps, subst range_dfs.simps) (auto simp: contents_def)
  qed
qed

text \<open>The objects \<^verbatim>\<open>ConditionRange\<close> visits contain every object that satisfies \<open>P\<close>, when \<open>P\<close> implies that the
  function answers true and no object after a negative answer satisfies \<open>P\<close>.\<close>

lemma condition_dfs_rep:
  assumes "rep h p t" and "\<And>a. a \<in> set_tree t \<Longrightarrow> ob h a = None \<longleftrightarrow> a \<in> {minv, maxv}"
    and "sorted_wrt (\<lambda>v w. P w \<longrightarrow> f (Obj v)) (contents h t)"
  shows "\<exists>vs. condition_dfs h f (rt t) = Some (map Obj vs) \<and> filter P vs = filter P (contents h t)"
  using assms
proof (induction t arbitrary: p)
  case Leaf
  then show ?case by (subst condition_dfs.simps) (simp add: contents_def)
next
  case (Node l a r)
  obtain n where n: "h a = Some n" "nd_lchild n = rt l" "nd_rchild n = rt r"
    using Node.prems(1) by (auto elim: lnk_SomeE)
  have so: "sorted_wrt (\<lambda>v w. P w \<longrightarrow> f (Obj v)) (contents h l)" "sorted_wrt (\<lambda>v w. P w \<longrightarrow> f (Obj v)) (contents h r)"
    "\<And>v w. ob h a = Some v \<Longrightarrow> w \<in> set (contents h r) \<Longrightarrow> P w \<Longrightarrow> f (Obj v)"
    using Node.prems(3) by (auto simp: contents_def sorted_wrt_append split: option.splits)
  obtain vl where vl: "condition_dfs h f (rt l) = Some (map Obj vl)" "filter P vl = filter P (contents h l)"
    using Node.IH(1) [of a] Node.prems so by auto
  obtain vr where vr: "condition_dfs h f (rt r) = Some (map Obj vr)" "filter P vr = filter P (contents h r)"
    using Node.IH(2) [of a] Node.prems so by auto
  show ?case
  proof (cases "a \<in> {minv, maxv}")
    case True
    then have "ob h a = None" using Node.prems(2) [of a] by auto
    moreover have "condition_dfs h f a = Some (map Obj (vl @ vr))"
      using True n vl vr Node.prems(1) by (subst condition_dfs.simps) auto
    ultimately show ?thesis
      using vl(2) vr(2) by (intro exI [of _ "vl @ vr"]) (simp add: contents_def)
  next
    case False
    then obtain v where v: "ob h a = Some v" "nd_obj n = Obj v"
      using Node.prems(2) [of a] n(1) by (auto simp: ob_def pay_def split: splay_obj.splits)
    show ?thesis
    proof (cases "f (Obj v)")
      case True
      then have "condition_dfs h f a = Some (map Obj (vl @ v # vr))"
        using False n v vl vr Node.prems(1) by (subst condition_dfs.simps) auto
      then show ?thesis
        using vl(2) vr(2) v by (intro exI [of _ "vl @ v # vr"]) (simp add: contents_def)
    next
      case neg: False
      then have "condition_dfs h f a = Some (map Obj (vl @ [v]))"
        using False n v vl vr Node.prems(1) by (subst condition_dfs.simps) auto
      moreover have "filter P (contents h r) = []" using so(3) v(1) neg by (auto simp: filter_empty_conv)
      ultimately show ?thesis
        using vl(2) v by (intro exI [of _ "vl @ [v]"]) (simp add: contents_def)
    qed
  qed
qed

lemma Range_holds: "splay_holds c s xs \<Longrightarrow> Splay_Range s = Some (map Obj xs)"
proof -
  assume "splay_holds c s xs"
  then obtain T where T: "splay_at c s T" "xs = contents (sp_items s) T" by (auto simp: splay_holds_def)
  show ?thesis
    using range_dfs_rep [OF splay_atD(5) [OF T(1)]] shape_node [OF splay_atD(1) [OF T(1)]] splay_atD(3) [OF T(1)] T(2)
    by (simp add: Splay_Range_def)
qed

lemma ConditionRange_holds:
  assumes "splay_holds c s xs" and "sorted_wrt (\<lambda>v w. P w \<longrightarrow> f (Obj v)) xs"
  shows "\<exists>vs. Splay_ConditionRange s f = Some (map Obj vs) \<and> filter P vs = filter P xs"
proof -
  obtain T where T: "splay_at c s T" "xs = contents (sp_items s) T" using assms(1) by (auto simp: splay_holds_def)
  show ?thesis
    using condition_dfs_rep [OF splay_atD(5) [OF T(1)]] shape_node [OF splay_atD(1) [OF T(1)]] splay_atD(3) [OF T(1)] T(2) assms(2)
    by (simp add: Splay_ConditionRange_def)
qed

lemma Len_holds: "splay_holds c s xs \<Longrightarrow> Splay_Len s = int (length xs)"
proof -
  assume "splay_holds c s xs"
  then obtain T where T: "splay_at c s T" "xs = contents (sp_items s) T" by (auto simp: splay_holds_def)
  obtain ms where ms: "inorder T = minv # ms @ [maxv]" "distinct ms" "minv \<notin> set ms" "maxv \<notin> set ms"
    using splay_atD(9) [OF T(1)] by (rule ends_ok_decomp)
  have "card (set_tree T) = length (inorder T)"
    using splay_atD(9) [OF T(1)] distinct_card [of "inorder T"] by (simp add: ends_ok_def)
  moreover have "card (set_tree T) = nat (sp_count s)" using splay_atD(4) [OF T(1)] by simp
  moreover have "length xs = length ms" using contents_mid [OF splay_atD(1) [OF T(1)] ms(1)] T(2) by simp
  ultimately show ?thesis using ms(1) splay_at_count [OF T(1)] by (simp add: Splay_Len_def)
qed

lemma Get_holds:
  assumes "splay_holds c s xs"
  shows "Splay_Get s k = Some (map_option Obj (find (\<lambda>w. sc_Key c w = k) xs))" and "distinct (map (sc_Key c) xs)"
    and "sp_hash s k = None \<longleftrightarrow> k \<notin> sc_Key c ` set xs"
proof -
  obtain T where at: "splay_at c s T" and xs: "xs = contents (sp_items s) T" using assms by (auto simp: splay_holds_def)
  note D = splay_atD [OF at]
  let ?b = "ob (sp_items s)"
  obtain ms where ms: "inorder T = minv # ms @ [maxv]" "distinct ms" "minv \<notin> set ms" "maxv \<notin> set ms"
    using D(9) by (rule ends_ok_decomp)
  note mid = contents_mid [OF D(1) ms(1)]
  have in_T: "a \<in> set_tree T" if "a \<in> set ms" for a
    using that arg_cong [OF ms(1), of set] by auto
  have key: "sp_hash s (sc_Key c (the (?b a))) = Some a" if a: "a \<in> set ms" for a
  proof -
    obtain w where "?b a = Some w" using mid a by auto
    then show ?thesis using key_index [OF at in_T [OF a]] by simp
  qed
  have "inj_on (\<lambda>a. sc_Key c (the (?b a))) (set ms)"
  proof (rule inj_onI)
    fix a b assume ab: "a \<in> set ms" "b \<in> set ms" "sc_Key c (the (?b a)) = sc_Key c (the (?b b))"
    have "Some a = Some b"
      using trans [OF sym [OF key [OF ab(1), unfolded ab(3)]] key [OF ab(2)]] .
    then show "a = b" by simp
  qed
  then show d: "distinct (map (sc_Key c) xs)"
    unfolding xs using mid ms(2) by (simp add: distinct_map comp_def)
  have hash: "a \<in> set ms \<and> (\<exists>v. ?b a = Some v \<and> sc_Key c v = k)" if "sp_hash s k = Some a" for a
  proof -
    have a: "3 \<le> a" "a \<le> sp_count s" "\<exists>v. pay (sp_items s) a = Some (k, Obj v)"
      using D(8) that unfolding hash_ok_def by blast+
    moreover have "\<exists>v. pay (sp_items s) a = Some (sc_Key c v, Obj v)" using D(8) a unfolding hash_ok_def by blast
    moreover have "a \<in> set_tree T" using a D(4) by auto
    ultimately show ?thesis using arg_cong [OF ms(1), of set] by (auto simp: ob_pay_eq)
  qed
  show h: "sp_hash s k = None \<longleftrightarrow> k \<notin> sc_Key c ` set xs"
  proof
    assume n: "sp_hash s k = None"
    show "k \<notin> sc_Key c ` set xs" using n key unfolding xs using mid by auto
  next
    assume n: "k \<notin> sc_Key c ` set xs"
    show "sp_hash s k = None"
    proof (rule ccontr)
      assume "sp_hash s k \<noteq> None"
      then obtain a where "sp_hash s k = Some a" by blast
      then have "a \<in> set ms \<and> (\<exists>v. ?b a = Some v \<and> sc_Key c v = k)" by (rule hash)
      then show False using n mid unfolding xs by (auto intro!: image_eqI)
    qed
  qed
  show "Splay_Get s k = Some (map_option Obj (find (\<lambda>w. sc_Key c w = k) xs))"
  proof (cases "sp_hash s k")
    case None
    then have "find (\<lambda>w. sc_Key c w = k) xs = None" using h by (auto simp: find_None_iff)
    with None show ?thesis by (simp add: Splay_Get_def)
  next
    case (Some a)
    obtain v where v: "?b a = Some v" "sc_Key c v = k" "a \<in> set ms" using hash [OF Some] by blast
    have "v \<in> set xs" unfolding xs using v mid by (auto intro!: image_eqI [of _ _ a])
    then have "find (\<lambda>w. sc_Key c w = k) xs = Some v"
      using d v(2) by (induction xs) auto
    moreover obtain n where "sp_items s a = Some n" "nd_obj n = Obj v" using v(1) by (auto simp: ob_pay_eq pay_def)
    ultimately show ?thesis using Some by (simp add: Splay_Get_def)
  qed
qed

text \<open>A clone is the same tree.\<close>

lemma clone_hash_eq:
  assumes "\<forall>i \<in> set is. \<exists>n. items i = Some n \<and> hash (nd_key n) = Some i \<and> (\<forall>k. hash k = Some i \<longrightarrow> k = nd_key n)"
  shows "clone_hash items is m = Some (\<lambda>k. if hash k \<in> Some ` set is then hash k else m k)"
  using assms
proof (induction "is" arbitrary: m)
  case (Cons i "is")
  then obtain n where n: "items i = Some n" "hash (nd_key n) = Some i" "\<forall>k. hash k = Some i \<longrightarrow> k = nd_key n" by auto
  have "(if hash k \<in> Some ` set is then hash k else (m(nd_key n \<mapsto> i)) k) =
      (if hash k \<in> Some ` set (i # is) then hash k else m k)" for k
  proof (cases "hash k = Some i")
    case True
    then show ?thesis using n(3) by auto
  next
    case False
    then have "k \<noteq> nd_key n" using n(2) by blast
    moreover have "hash k \<in> Some ` set (i # is) \<longleftrightarrow> hash k \<in> Some ` set is" using False by auto
    ultimately show ?thesis by (simp only: fun_upd_other if_cancel split: if_split) simp
  qed
  then have f: "(\<lambda>k. if hash k \<in> Some ` set is then hash k else (m(nd_key n \<mapsto> i)) k) =
      (\<lambda>k. if hash k \<in> Some ` set (i # is) then hash k else m k)" by (rule ext)
  have "clone_hash items (i # is) m = clone_hash items is (m(nd_key n \<mapsto> i))" using n(1) by simp
  also have "\<dots> = Some (\<lambda>k. if hash k \<in> Some ` set is then hash k else (m(nd_key n \<mapsto> i)) k)"
    by (rule Cons.IH) (use Cons.prems in simp)
  finally show ?case unfolding f .
qed simp

lemma hash_entry:
  assumes "hash_ok c s" "3 \<le> i" "i \<le> sp_count s"
  shows "\<exists>n. sp_items s i = Some n \<and> sp_hash s (nd_key n) = Some i \<and> (\<forall>k. sp_hash s k = Some i \<longrightarrow> k = nd_key n)"
proof -
  obtain v where v: "pay (sp_items s) i = Some (sc_Key c v, Obj v)" "sp_hash s (sc_Key c v) = Some i"
    using assms unfolding hash_ok_def by blast
  then obtain n where n: "sp_items s i = Some n" "nd_key n = sc_Key c v" by (auto simp: pay_def)
  have u: "k = nd_key n" if hk: "sp_hash s k = Some i" for k
  proof -
    have "\<exists>w. pay (sp_items s) i = Some (k, Obj w)" using assms(1) hk unfolding hash_ok_def by blast
    then show ?thesis using v(1) n(2) by auto
  qed
  show ?thesis using n v(2) u by (intro exI [of _ n]) auto
qed

lemma card_hash:
  assumes "hash_ok c s" "2 \<le> sp_count s"
  shows "int (card (dom (sp_hash s))) = sp_count s - 2"
proof -
  have "inj_on (\<lambda>k. the (sp_hash s k)) (dom (sp_hash s))"
  proof (rule inj_onI)
    fix j k
    assume "j \<in> dom (sp_hash s)" "k \<in> dom (sp_hash s)" "the (sp_hash s j) = the (sp_hash s k)"
    then obtain i where i: "sp_hash s j = Some i" "sp_hash s k = Some i" by auto
    then have "3 \<le> i" "i \<le> sp_count s" using assms(1) unfolding hash_ok_def by blast+
    then show "j = k" using hash_entry [OF assms(1)] i by metis
  qed
  moreover have "(\<lambda>k. the (sp_hash s k)) ` dom (sp_hash s) = {3..sp_count s}"
  proof (intro set_eqI iffI)
    fix i
    assume "i \<in> (\<lambda>k. the (sp_hash s k)) ` dom (sp_hash s)"
    then obtain k where "sp_hash s k = Some i" by auto
    then show "i \<in> {3..sp_count s}" using assms(1) unfolding hash_ok_def by auto
  next
    fix i
    assume "i \<in> {3..sp_count s}"
    then have "\<exists>k. sp_hash s k = Some i" using hash_entry [OF assms(1), of i] by auto
    then obtain k where "sp_hash s k = Some i" ..
    then show "i \<in> (\<lambda>k. the (sp_hash s k)) ` dom (sp_hash s)" by (intro rev_image_eqI [of k]) auto
  qed
  ultimately have "card (dom (sp_hash s)) = card {3..sp_count s}" by (metis card_image)
  then show ?thesis using assms(2) by simp
qed

lemma restrict_dom_eq:
  fixes c :: int
  assumes "dom m = {0..c}"
  shows "m |` {0..<c + 1} = m"
proof
  fix x
  show "(m |` {0..<c + 1}) x = m x"
  proof (cases "x \<in> dom m")
    case True
    then have "0 \<le> x" "x < c + 1" using assms by auto
    then show ?thesis by simp
  next
    case False
    then show ?thesis by (simp add: restrict_map_def domIff)
  qed
qed

lemma Clone_holds:
  assumes "splay_holds c s xs"
  shows "Splay_Clone s = Some s"
proof -
  obtain T where at: "splay_at c s T" using assms by (auto simp: splay_holds_def)
  note D = splay_atD [OF at]
  have n: "int (card (dom (sp_hash s))) + 3 = sp_count s + 1"
    using card_hash [OF D(8) splay_at_count [OF at]] by simp
  have r: "sp_items s |` {0..<sp_count s + 1} = sp_items s" "sp_infos s |` {0..<sp_count s + 1} = sp_infos s"
    by (rule restrict_dom_eq [OF D(6)], rule restrict_dom_eq [OF D(7)])
  have "clone_hash (sp_items s) [3..sp_count s] Map.empty = Some (\<lambda>k. if sp_hash s k \<in> Some ` set [3..sp_count s] then sp_hash s k else None)"
    using hash_entry [OF D(8)] by (intro clone_hash_eq) simp
  moreover have "(\<lambda>k. if sp_hash s k \<in> Some ` set [3..sp_count s] then sp_hash s k else None) = sp_hash s"
  proof
    fix k
    show "(if sp_hash s k \<in> Some ` set [3..sp_count s] then sp_hash s k else None) = sp_hash s k"
    proof (cases "sp_hash s k")
      case (Some i)
      then have "i \<in> {3..sp_count s}" using D(8) unfolding hash_ok_def by auto
      then show ?thesis using Some by simp
    qed simp
  qed
  ultimately show ?thesis by (simp add: Splay_Clone_def n r)
qed

lemma dropWhile_sorted: "sorted_wrt (\<lambda>u w. q w \<longrightarrow> q u) xs \<Longrightarrow> w \<in> set (dropWhile q xs) \<Longrightarrow> \<not> q w"
  by (induction xs) (auto split: if_splits)

subsection \<open>Classes of stored objects\<close>

definition order_ok :: "('o, 'i) stored_class \<Rightarrow> 'o list \<Rightarrow> bool" where
  "order_ok c xs = sorted_wrt (\<lambda>v w. \<not> sc_Compare c v w) xs"

text \<open>The laws of a stored object: the comparison is a strict weak order, and \<^verbatim>\<open>Maintain\<close> computes a sum over the
  object and the two children that can be read off the summary.\<close>

locale ordered_class = summary_class c for c :: "('o, 'i) stored_class" +
  fixes weight :: "'o \<Rightarrow> 'n::comm_monoid_add" and total :: "'i \<Rightarrow> 'n"
  assumes compare_asym: "sc_Compare c v w \<Longrightarrow> \<not> sc_Compare c w v"
    and compare_trans: "\<not> sc_Compare c u v \<Longrightarrow> \<not> sc_Compare c v w \<Longrightarrow> \<not> sc_Compare c u w"
    and total_maintain: "total (sc_Maintain c (sc_MakeMaintainInfo c v) l r) =
      weight v + (case l of None \<Rightarrow> 0 | Some i \<Rightarrow> total i) + (case r of None \<Rightarrow> 0 | Some i \<Rightarrow> total i)"
begin

lemma total_smry:
  assumes "\<And>a. a \<in> set_tree t \<Longrightarrow> b a \<noteq> None \<and> a \<notin> {minv, maxv}" and "t \<noteq> Leaf"
  shows "\<exists>i. smry c b t = Info i \<and> total i = sum_list (map weight (List.map_filter b (inorder t)))"
  using assms
proof (induction t)
  case (Node l a r)
  obtain v where v: "b a = Some v" using Node.prems(1) [of a] by auto
  let ?sum = "\<lambda>t. sum_list (map weight (List.map_filter b (inorder t)))"
  have part: "(case the_info (smry c b t) of None \<Rightarrow> 0 | Some i \<Rightarrow> total i) = ?sum t \<and> rt t \<noteq> minv \<and> rt t \<noteq> maxv"
    if "t = l \<or> t = r" for t
  proof (cases "t = Leaf")
    case False
    then have "rt t \<notin> {minv, maxv}" using Node.prems(1) [of "rt t"] that rt_in [OF False] by auto
    moreover have "\<exists>i. smry c b t = Info i \<and> total i = ?sum t"
      using Node.IH Node.prems(1) that False by auto
    ultimately show ?thesis by auto
  qed simp
  have "smry c b (Node l a r) = Info (sc_Maintain c (sc_MakeMaintainInfo c v) (the_info (smry c b l)) (the_info (smry c b r)))"
    using v part by (simp add: smry.simps(2))
  moreover have "total (sc_Maintain c (sc_MakeMaintainInfo c v) (the_info (smry c b l)) (the_info (smry c b r))) = ?sum (Node l a r)"
    using part v by (simp add: total_maintain ac_simps)
  ultimately show ?case by blast
qed simp

lemma sorted_query:
  assumes "order_ok c xs" and "\<And>v w. q w \<Longrightarrow> \<not> sc_Compare c v w \<Longrightarrow> q v"
  shows "sorted_wrt (\<lambda>v w. q w \<longrightarrow> q v) xs"
  using assms unfolding order_ok_def by (auto intro: sorted_wrt_mono_rel [rotated])

lemma Insert_spec:
  assumes "splay_holds c s xs" and "order_ok c xs" and "sc_Key c v \<notin> sc_Key c ` set xs"
  shows "\<exists>s'. Splay_Insert c s v = Some (s', True) \<and>
    splay_holds c s' (takeWhile (sc_Compare c v) xs @ v # dropWhile (sc_Compare c v) xs) \<and>
    order_ok c (takeWhile (sc_Compare c v) xs @ v # dropWhile (sc_Compare c v) xs)"
proof -
  obtain T where T: "splay_at c s T" "xs = contents (sp_items s) T" using assms(1) by (auto simp: splay_holds_def)
  have so: "sorted_wrt (\<lambda>u w. sc_Compare c v w \<longrightarrow> sc_Compare c v u) xs"
    using assms(2) compare_trans by (intro sorted_query) blast+
  have "sorted_wrt (\<lambda>v w. \<not> sc_Compare c v w) (takeWhile (sc_Compare c v) xs @ dropWhile (sc_Compare c v) xs)"
    using assms(2) by (simp add: order_ok_def)
  moreover have "\<forall>u \<in> set (takeWhile (sc_Compare c v) xs). \<not> sc_Compare c u v"
    using compare_asym set_takeWhileD by metis
  moreover have "\<forall>u \<in> set (dropWhile (sc_Compare c v) xs). \<not> sc_Compare c v u"
    using dropWhile_sorted [OF so] by blast
  ultimately have "order_ok c (takeWhile (sc_Compare c v) xs @ v # dropWhile (sc_Compare c v) xs)"
    unfolding order_ok_def sorted_wrt_append by simp
  moreover have new: "sp_hash s (sc_Key c v) = None" using Get_holds(3) [OF assms(1)] assms(3) by blast
  ultimately show ?thesis
    using Insert_new [OF T(1) so [unfolded T(2)] new] unfolding T(2) [symmetric] by blast
qed

lemma Delete_spec:
  assumes "splay_holds c s xs" and "order_ok c xs"
  shows "\<exists>s'. Splay_Delete c s k = Some (s', k \<in> sc_Key c ` set xs) \<and>
    splay_holds c s' (filter (\<lambda>w. sc_Key c w \<noteq> k) xs) \<and> order_ok c (filter (\<lambda>w. sc_Key c w \<noteq> k) xs)"
proof -
  obtain T where T: "splay_at c s T" "xs = contents (sp_items s) T" using assms(1) by (auto simp: splay_holds_def)
  have o: "order_ok c (filter (\<lambda>w. sc_Key c w \<noteq> k) xs)"
    using assms(2) by (simp add: order_ok_def sorted_wrt_filter)
  show ?thesis
  proof (cases "sp_hash s k")
    case None
    then have k: "k \<notin> sc_Key c ` set xs" using Get_holds(3) [OF assms(1)] by blast
    then have "filter (\<lambda>w. sc_Key c w \<noteq> k) xs = xs" by (intro filter_True) auto
    then show ?thesis using None k o assms(1) by (auto simp: Splay_Delete_def)
  next
    case (Some i)
    then have "k \<in> sc_Key c ` set xs" using Get_holds(3) [OF assms(1), of k] by auto
    then show ?thesis using Delete_present [OF T(1) Some] T(2) o by auto
  qed
qed

lemma Partition_spec:
  assumes "splay_holds c s xs" and "order_ok c xs" and "\<forall>v w. q w \<and> \<not> sc_Compare c v w \<longrightarrow> q v"
  shows "\<exists>s' r. Splay_Partition c s q = Some (s', r) \<and> splay_holds c s' xs \<and>
    (if filter q xs = [] then r = None else \<exists>i. r = Some (Info i) \<and> total i = sum_list (map weight (filter q xs)))"
proof -
  obtain T where T: "splay_at c s T" "xs = contents (sp_items s) T" using assms(1) by (auto simp: splay_holds_def)
  have so: "sorted_wrt (\<lambda>u w. q w \<longrightarrow> q u) xs" by (rule sorted_query [OF assms(2)]) (use assms(3) in blast)
  obtain s' t where P: "Splay_Partition c s q = Some (s', if t = Leaf then None else Some (smry c (ob (sp_items s')) t))"
      "splay_holds c s' xs" "contents (sp_items s') t = takeWhile q xs"
      "\<And>a. a \<in> set_tree t \<Longrightarrow> ob (sp_items s') a \<noteq> None \<and> a \<notin> {minv, maxv}"
    using Partition_holds [OF T(1) so [unfolded T(2)]] unfolding T(2) [symmetric] by blast
  have "filter q xs = takeWhile q xs"
    using so by (induction xs) (auto simp: filter_empty_conv)
  then have f: "filter q xs = List.map_filter (ob (sp_items s')) (inorder t)" using P(3) by (simp add: contents_def)
  show ?thesis
  proof (cases "t = Leaf")
    case True
    then show ?thesis using P f by auto
  next
    case False
    then obtain i where i: "smry c (ob (sp_items s')) t = Info i" "total i = sum_list (map weight (filter q xs))"
      using total_smry [OF P(4) False] f by auto
    have "filter q xs \<noteq> []"
      using False P(4) [of "rt t"] rt_in [OF False] unfolding f by (cases t) (auto split: option.splits)
    then show ?thesis using P(1,2) False i by auto
  qed
qed

end

end
