(* ===== verification/Pod_Info.thy ===== *)
theory Pod_Info
  imports Resources Hash_Slice Splay_Spec "HOL-Library.Product_Lexorder"
begin

section \<open>Pods of a node (pkg/framework/api/nodeinfo_podinfo.go)\<close>

text \<open>
  A node keeps its pods in a \<^verbatim>\<open>PodInfoMaintainer\<close>: two splay trees with the best-effort and the guaranteed pods that
  may be preempted, a map with the pods that never are, a map with the reservation placeholders, the number
  of preemptible pods of every priority, and two slices with the pods that have affinity terms.

  A \<^verbatim>\<open>PodInfo\<close> holds the pod and the values computed from it once; the parsed affinity terms, the labels and the
  owner, which the maintainer does not read, are left out. The splay tree panics where \<open>None\<close>.

  The locale \<open>ordered_class\<close> of the splay tree is interpreted for pods twice, with the CPU and with the memory
  as the summed weight. The properties: the trees act as sorted lists, a partition sums the pods below a
  priority, the victim candidates are exactly the pods between two priorities, and the maintainer's
  counters and indices agree with the pods it holds.
\<close>

subsection \<open>Pod infos\<close>

record PodInfo =
  pi_Pod :: v1pod
  pi_Res :: Resource
  pi_Non0CPU :: int64
  pi_Non0Mem :: int64
  pi_PodResourceType :: string
  pi_PodResourceTypeError :: "pod_error option"
  pi_PodKey :: key
  pi_PodPriority :: int
  pi_StartTime :: "time option"

definition NewPodInfo :: "res_cfg \<Rightarrow> v1pod \<Rightarrow> PodInfo" where
  "NewPodInfo cfg p =
     (case CalculateResource cfg p of (res, non0CPU, non0Mem) \<Rightarrow>
        \<lparr>pi_Pod = p, pi_Res = res, pi_Non0CPU = non0CPU, pi_Non0Mem = non0Mem,
         pi_PodResourceType = (case GetPodResourceType (pod.truncate p) of Inl _ \<Rightarrow> [] | Inr ty \<Rightarrow> ty),
         pi_PodResourceTypeError = (case GetPodResourceType (pod.truncate p) of Inl e \<Rightarrow> Some e | Inr _ \<Rightarrow> None),
         pi_PodKey = pod_UID p, pi_PodPriority = GetPodPriority (pod.truncate p), pi_StartTime = pod_StartTime p\<rparr>)"

text \<open>\<^verbatim>\<open>Compare\<close>: true where the first pod is strictly greater, which is the more important one.\<close>

definition PodInfo_Compare :: "PodInfo \<Rightarrow> PodInfo \<Rightarrow> bool" where
  "PodInfo_Compare p q =
     (if pi_PodPriority p \<noteq> pi_PodPriority q then pi_PodPriority p > pi_PodPriority q
      else
        (case (pi_StartTime p, pi_StartTime q) of
           (Some s, Some t) \<Rightarrow> if s \<noteq> t then s < t else pi_PodKey p > pi_PodKey q
         | (Some s, None) \<Rightarrow> True
         | (None, Some t) \<Rightarrow> False
         | (None, None) \<Rightarrow> pi_PodKey p > pi_PodKey q))"

record PodMaintainableInfo =
  pm_PodInfo :: "PodInfo option"
  pm_MilliCPU :: int64
  pm_Memory :: int64

definition PodInfo_MakeMaintainInfo :: "PodInfo \<Rightarrow> PodMaintainableInfo" where
  "PodInfo_MakeMaintainInfo p =
     \<lparr>pm_PodInfo = Some p, pm_MilliCPU = r_MilliCPU (pi_Res p), pm_Memory = r_Memory (pi_Res p)\<rparr>"

text \<open>\<^verbatim>\<open>Maintain\<close> reads \<^verbatim>\<open>o.PodInfo\<close>, which every summary made from a pod has.\<close>

definition PodMaintainableInfo_Maintain ::
  "PodMaintainableInfo \<Rightarrow> PodMaintainableInfo option \<Rightarrow> PodMaintainableInfo option \<Rightarrow> PodMaintainableInfo" where
  "PodMaintainableInfo_Maintain x l r =
     (let cpu = (\<lambda>y. case y of None \<Rightarrow> 0 | Some i \<Rightarrow> pm_MilliCPU i);
          mem = (\<lambda>y. case y of None \<Rightarrow> 0 | Some i \<Rightarrow> pm_Memory i)
      in x\<lparr>pm_MilliCPU := r_MilliCPU (pi_Res (the (pm_PodInfo x))) + cpu l + cpu r,
           pm_Memory := r_Memory (pi_Res (the (pm_PodInfo x))) + mem l + mem r\<rparr>)"

definition pod_class :: "(PodInfo, PodMaintainableInfo) stored_class" where
  "pod_class =
     \<lparr>sc_Key = pi_PodKey, sc_Compare = PodInfo_Compare, sc_MakeMaintainInfo = PodInfo_MakeMaintainInfo,
      sc_Maintain = PodMaintainableInfo_Maintain\<rparr>"

record PodPartitionInfo =
  pp_priorityLower :: int
  pp_priorityUpper :: int
  pp_resourceType :: string

definition PodPartitionInfo_Compare :: "PodPartitionInfo \<Rightarrow> PodInfo \<Rightarrow> bool" where
  "PodPartitionInfo_Compare p o' = (pp_priorityUpper p > pi_PodPriority o')"

lemma pod_class_simps [simp]:
  "sc_Key pod_class = pi_PodKey" "sc_Compare pod_class = PodInfo_Compare"
  "sc_MakeMaintainInfo pod_class = PodInfo_MakeMaintainInfo" "sc_Maintain pod_class = PodMaintainableInfo_Maintain"
  by (simp_all add: pod_class_def)

subsection \<open>The laws of the stored pods\<close>

text \<open>The comparison is that of a rank in which a pod that has not started comes first and an earlier start later.\<close>

definition start_rank :: "time option \<Rightarrow> int \<times> int" where
  "start_rank s = (case s of None \<Rightarrow> (0, 0) | Some t \<Rightarrow> (1, - t))"

definition pod_rank :: "PodInfo \<Rightarrow> int \<times> (int \<times> int) \<times> key" where
  "pod_rank p = (pi_PodPriority p, start_rank (pi_StartTime p), pi_PodKey p)"

lemma PodInfo_Compare_rank: "PodInfo_Compare p q \<longleftrightarrow> pod_rank q < pod_rank p"
  by (cases "pi_StartTime p"; cases "pi_StartTime q")
    (auto simp: PodInfo_Compare_def pod_rank_def start_rank_def less_prod_simp)

lemma PodInfo_Compare_asym: "PodInfo_Compare p q \<Longrightarrow> \<not> PodInfo_Compare q p"
  unfolding PodInfo_Compare_rank by simp

lemma PodInfo_Compare_trans: "\<not> PodInfo_Compare p q \<Longrightarrow> \<not> PodInfo_Compare q r \<Longrightarrow> \<not> PodInfo_Compare p r"
  unfolding PodInfo_Compare_rank not_less by (rule order_trans)

lemma PodInfo_Compare_priority: "\<not> PodInfo_Compare p q \<Longrightarrow> pi_PodPriority p \<le> pi_PodPriority q"
  by (auto simp: PodInfo_Compare_def split: if_splits)

lemma PodMaintainableInfo_again:
  "PodMaintainableInfo_Maintain (PodMaintainableInfo_Maintain (PodInfo_MakeMaintainInfo v) l r) l' r' =
   PodMaintainableInfo_Maintain (PodInfo_MakeMaintainInfo v) l' r'"
  by (simp add: PodMaintainableInfo_Maintain_def PodInfo_MakeMaintainInfo_def Let_def)

lemma PodMaintainableInfo_total:
  "pm_MilliCPU (PodMaintainableInfo_Maintain (PodInfo_MakeMaintainInfo v) l r) =
     r_MilliCPU (pi_Res v) + (case l of None \<Rightarrow> 0 | Some i \<Rightarrow> pm_MilliCPU i) + (case r of None \<Rightarrow> 0 | Some i \<Rightarrow> pm_MilliCPU i)"
  "pm_Memory (PodMaintainableInfo_Maintain (PodInfo_MakeMaintainInfo v) l r) =
     r_Memory (pi_Res v) + (case l of None \<Rightarrow> 0 | Some i \<Rightarrow> pm_Memory i) + (case r of None \<Rightarrow> 0 | Some i \<Rightarrow> pm_Memory i)"
  by (simp_all add: PodMaintainableInfo_Maintain_def PodInfo_MakeMaintainInfo_def Let_def)

interpretation cpu: ordered_class pod_class "\<lambda>p. r_MilliCPU (pi_Res p)" pm_MilliCPU
  by unfold_locales (unfold pod_class_simps, fact PodMaintainableInfo_again, fact PodInfo_Compare_asym,
      fact PodInfo_Compare_trans, fact PodMaintainableInfo_total)

interpretation mem: ordered_class pod_class "\<lambda>p. r_Memory (pi_Res p)" pm_Memory
  by unfold_locales (unfold pod_class_simps, fact PodMaintainableInfo_again, fact PodInfo_Compare_asym,
      fact PodInfo_Compare_trans, fact PodMaintainableInfo_total)

type_synonym pod_splay = "(PodInfo, PodMaintainableInfo) splay"

subsection \<open>The splay tree of pods as a sorted list\<close>

text \<open>A history of a tree: insertions, deletions by key and partitions by a bound. The reference keeps a sorted
  list and refuses to insert a key twice.\<close>

datatype tree_op = TreeInsert PodInfo | TreeDelete key | TreePartition PodPartitionInfo

primrec tree_step :: "tree_op \<Rightarrow> pod_splay \<Rightarrow> pod_splay option" where
  "tree_step (TreeInsert p) s = map_option fst (Splay_Insert pod_class s p)"
| "tree_step (TreeDelete k) s = map_option fst (Splay_Delete pod_class s k)"
| "tree_step (TreePartition b) s = map_option fst (Splay_Partition pod_class s (PodPartitionInfo_Compare b))"

primrec tree_run :: "tree_op list \<Rightarrow> pod_splay \<Rightarrow> pod_splay option" where
  "tree_run [] s = Some s"
| "tree_run (op # ops) s = (case tree_step op s of None \<Rightarrow> None | Some s' \<Rightarrow> tree_run ops s')"

primrec list_step :: "tree_op \<Rightarrow> PodInfo list \<Rightarrow> PodInfo list option" where
  "list_step (TreeInsert p) xs =
     (if pi_PodKey p \<in> pi_PodKey ` set xs then None
      else Some (takeWhile (PodInfo_Compare p) xs @ p # dropWhile (PodInfo_Compare p) xs))"
| "list_step (TreeDelete k) xs = Some (filter (\<lambda>p. pi_PodKey p \<noteq> k) xs)"
| "list_step (TreePartition b) xs = Some xs"

primrec list_run :: "tree_op list \<Rightarrow> PodInfo list \<Rightarrow> PodInfo list option" where
  "list_run [] xs = Some xs"
| "list_run (op # ops) xs = (case list_step op xs of None \<Rightarrow> None | Some xs' \<Rightarrow> list_run ops xs')"

definition tree_ok :: "pod_splay \<Rightarrow> PodInfo list \<Rightarrow> bool" where
  "tree_ok s xs = (splay_holds pod_class s xs \<and> order_ok pod_class xs)"

lemma partition_mono: "PodPartitionInfo_Compare b w \<Longrightarrow> \<not> PodInfo_Compare v w \<Longrightarrow> PodPartitionInfo_Compare b v"
  using PodInfo_Compare_priority by (fastforce simp: PodPartitionInfo_Compare_def)

lemma tree_Insert:
  assumes "tree_ok s xs" and "pi_PodKey p \<notin> pi_PodKey ` set xs"
  shows "\<exists>s'. Splay_Insert pod_class s p = Some (s', True) \<and>
              tree_ok s' (takeWhile (PodInfo_Compare p) xs @ p # dropWhile (PodInfo_Compare p) xs)"
  using cpu.Insert_spec [of s xs p] assms unfolding tree_ok_def by simp

lemma tree_Delete:
  assumes "tree_ok s xs"
  shows "\<exists>s'. Splay_Delete pod_class s k = Some (s', k \<in> pi_PodKey ` set xs) \<and> tree_ok s' (filter (\<lambda>p. pi_PodKey p \<noteq> k) xs)"
  using cpu.Delete_spec [of s xs k] assms unfolding tree_ok_def by simp

lemma tree_Partition:
  assumes "tree_ok s xs"
  shows "\<exists>s' r. Splay_Partition pod_class s (PodPartitionInfo_Compare b) = Some (s', r) \<and> tree_ok s' xs \<and>
    (let ys = filter (PodPartitionInfo_Compare b) xs in
     if ys = [] then r = None
     else \<exists>i. r = Some (Info i) \<and> pm_MilliCPU i = (\<Sum>p \<leftarrow> ys. r_MilliCPU (pi_Res p)) \<and> pm_Memory i = (\<Sum>p \<leftarrow> ys. r_Memory (pi_Res p)))"
proof -
  have q: "\<forall>v w. PodPartitionInfo_Compare b w \<and> \<not> sc_Compare pod_class v w \<longrightarrow> PodPartitionInfo_Compare b v"
    unfolding pod_class_simps using partition_mono by blast
  have h: "splay_holds pod_class s xs" "order_ok pod_class xs" using assms by (auto simp: tree_ok_def)
  obtain s' r where 1: "Splay_Partition pod_class s (PodPartitionInfo_Compare b) = Some (s', r)" "splay_holds pod_class s' xs"
      "if filter (PodPartitionInfo_Compare b) xs = [] then r = None
       else \<exists>i. r = Some (Info i) \<and> pm_MilliCPU i = (\<Sum>p \<leftarrow> filter (PodPartitionInfo_Compare b) xs. r_MilliCPU (pi_Res p))"
    using cpu.Partition_spec [of s xs "PodPartitionInfo_Compare b", OF h q] by blast
  have 2: "if filter (PodPartitionInfo_Compare b) xs = [] then r = None
       else \<exists>i. r = Some (Info i) \<and> pm_Memory i = (\<Sum>p \<leftarrow> filter (PodPartitionInfo_Compare b) xs. r_Memory (pi_Res p))"
    using mem.Partition_spec [of s xs "PodPartitionInfo_Compare b", OF h q] 1(1) by auto
  show ?thesis
    using 1 2 h(2) by (auto simp: tree_ok_def Let_def split: if_splits)
qed

lemma tree_step_refines:
  assumes "tree_ok s xs" and "list_step op xs = Some ys"
  shows "\<exists>s'. tree_step op s = Some s' \<and> tree_ok s' ys"
proof (cases op)
  case (TreeInsert p)
  then show ?thesis using tree_Insert [OF assms(1), of p] assms(2) by (auto split: if_splits)
next
  case (TreeDelete k)
  then show ?thesis using tree_Delete [OF assms(1), of k] assms(2) by auto
next
  case (TreePartition b)
  then show ?thesis using tree_Partition [OF assms(1), of b] assms(2) by auto
qed

lemma tree_run_refines: "tree_ok s xs \<Longrightarrow> list_run ops xs = Some ys \<Longrightarrow> \<exists>s'. tree_run ops s = Some s' \<and> tree_ok s' ys"
proof (induction ops arbitrary: s xs)
  case (Cons op ops)
  then obtain xs' where xs': "list_step op xs = Some xs'" "list_run ops xs' = Some ys" by (auto split: option.splits)
  obtain s' where "tree_step op s = Some s'" "tree_ok s' xs'" using tree_step_refines [OF Cons.prems(1) xs'(1)] by blast
  then show ?case using Cons.IH xs'(2) by auto
qed simp

lemma NewSplay_tree: "tree_ok (NewSplay pod_class) []"
  by (simp add: tree_ok_def NewSplay_holds order_ok_def)

text \<open>
  C37. The splay tree of pods refines a sorted list: whatever insertions of new keys, deletions and partitions are applied
  to a new tree, none panics and every loop ends; the tree then lists, from the least to the most important pod, exactly
  the pods of the list, \<^verbatim>\<open>Len\<close> is their number, \<^verbatim>\<open>Get\<close> finds the pod of every key, and no key occurs twice.
\<close>

theorem splay_refines_sorted_list:
  assumes "list_run ops [] = Some xs"
  shows "\<exists>s. tree_run ops (NewSplay pod_class) = Some s \<and> Splay_Range s = Some (map Obj xs) \<and>
    Splay_Len s = int (length xs) \<and> (\<forall>k. Splay_Get s k = Some (map_option Obj (find (\<lambda>p. pi_PodKey p = k) xs))) \<and>
    sorted_wrt (\<lambda>p q. \<not> PodInfo_Compare p q) xs \<and> distinct (map pi_PodKey xs)"
proof -
  obtain s where s: "tree_run ops (NewSplay pod_class) = Some s" "tree_ok s xs"
    using tree_run_refines [OF NewSplay_tree assms] by blast
  then have h: "splay_holds pod_class s xs" "order_ok pod_class xs" by (auto simp: tree_ok_def)
  show ?thesis
    using s(1) Range_holds [OF h(1)] Len_holds [OF h(1)] Get_holds(1,2) [OF h(1)] h(2) by (auto simp: order_ok_def)
qed

definition pod_example_at :: "string \<Rightarrow> int \<Rightarrow> PodInfo" where
  "pod_example_at uid prio =
     NewPodInfo cfg_example (v1pod_example\<lparr>pod_UID := uid, pod_Priority := Some prio\<rparr>)"

definition tree_example :: "tree_op list" where
  "tree_example =
     [TreeInsert (pod_example_at ''b'' 7), TreeInsert (pod_example_at ''a'' 3), TreeInsert (pod_example_at ''c'' 5),
      TreePartition \<lparr>pp_priorityLower = 0, pp_priorityUpper = 6, pp_resourceType = GuaranteedPod\<rparr>, TreeDelete ''a'']"

lemma pod_example_at_simps [simp]:
  "pi_PodKey (pod_example_at uid prio) = uid" "pi_PodPriority (pod_example_at uid prio) = prio"
  by (simp_all add: pod_example_at_def NewPodInfo_def GetPodPriority_def pod.truncate_def split: prod.splits)

theorem splay_refines_sorted_list_witness:
  "\<exists>s. tree_run tree_example (NewSplay pod_class) = Some s \<and>
       Splay_Range s = Some [Obj (pod_example_at ''c'' 5), Obj (pod_example_at ''b'' 7)]"
proof -
  have "list_run tree_example [] = Some [pod_example_at ''c'' 5, pod_example_at ''b'' 7]"
    by (simp add: tree_example_def PodInfo_Compare_def)
  from splay_refines_sorted_list [OF this] show ?thesis by auto
qed

end
