(* ===== verification/Pod_Maintainer.thy ===== *)
theory Pod_Maintainer
  imports Pod_Info
begin

section \<open>The pod info maintainer (pkg/framework/api/nodeinfo_podinfo.go)\<close>

text \<open>
  The pods of a node: the trees of the best-effort and guaranteed pods that may be preempted with the number
  of pods of each priority, the pods that are never preempted, the reservation placeholders and the two
  slices of pods with affinity terms.

  The proofs relate the maintainer to the map \<open>A\<close> from keys to pods that it stands for (\<open>maint_ok\<close>): every field
  is determined by \<open>A\<close>, so additions of new pods and removals of stored ones keep them in step.
\<close>

subsection \<open>Operations\<close>

definition podsWithAffinity :: "v1pod \<Rightarrow> bool" where
  "podsWithAffinity p = (pod_HasPodAffinity p \<or> pod_AntiAffinity p \<noteq> None)"

definition podsWithRequiredAntiAffinity :: "v1pod \<Rightarrow> bool" where
  "podsWithRequiredAntiAffinity p = (case pod_AntiAffinity p of None \<Rightarrow> False | Some n \<Rightarrow> n \<noteq> 0)"

definition ReservationPlaceHolderPodAnnotation :: string where
  "ReservationPlaceHolderPodAnnotation = ''godel.bytedance.com/reservation-placeholder''"

definition IsReservationPlaceholderPod :: "v1pod \<Rightarrow> bool" where
  "IsReservationPlaceholderPod p =
     (if pod_Annotations p = None then False
      else ann_has (pod_Annotations p) ReservationPlaceHolderPodAnnotation \<and>
           ann (pod_Annotations p) ReservationPlaceHolderPodAnnotation = ''true'')"

record PodInfoMaintainer =
  mt_be :: pod_splay
  mt_bePriorities :: "int \<rightharpoonup> int"
  mt_gt :: pod_splay
  mt_gtPriorities :: "int \<rightharpoonup> int"
  mt_never :: "key \<rightharpoonup> PodInfo"
  mt_reserved :: "key \<rightharpoonup> PodInfo"
  mt_withAffinity :: "PodInfo hash_slice"
  mt_withAntiAffinity :: "PodInfo hash_slice"

text \<open>The filters set by \<^verbatim>\<open>NewPodInfoMaintainer\<close>.\<close>

definition podFilters :: "(PodInfo \<Rightarrow> bool) list" where
  "podFilters =
     [\<lambda>p. pi_PodResourceTypeError p = None,
      \<lambda>p. BoundPod (pod.truncate (pi_Pod p)),
      \<lambda>p. \<not> IsReservationPlaceholderPod (pi_Pod p)]"

definition empty_maintainer :: PodInfoMaintainer where
  "empty_maintainer =
     \<lparr>mt_be = NewSplay pod_class, mt_bePriorities = Map.empty, mt_gt = NewSplay pod_class, mt_gtPriorities = Map.empty,
      mt_never = Map.empty, mt_reserved = Map.empty, mt_withAffinity = NewHashSlice, mt_withAntiAffinity = NewHashSlice\<rparr>"

text \<open>\<^verbatim>\<open>m[p]++\<close> and the decrement of \<^verbatim>\<open>RemovePodInfo\<close>, which deletes an entry that is not positive.\<close>

definition count_inc :: "(int \<rightharpoonup> int) \<Rightarrow> int \<Rightarrow> int \<rightharpoonup> int" where
  "count_inc m p = m(p \<mapsto> lookup0 m p + 1)"

definition count_dec :: "(int \<rightharpoonup> int) \<Rightarrow> int \<Rightarrow> int \<rightharpoonup> int" where
  "count_dec m p = (let m' = m(p \<mapsto> lookup0 m p - 1) in if lookup0 m' p \<le> 0 then m'(p := None) else m')"

text \<open>The slices of pods with affinity terms, in both operations.\<close>

definition slice_if :: "bool \<Rightarrow> ('a hash_slice \<Rightarrow> ('a hash_slice \<times> bool) option) \<Rightarrow> 'a hash_slice \<Rightarrow> 'a hash_slice option" where
  "slice_if b f hs = (if b then map_option fst (f hs) else Some hs)"

definition AddPodInfo :: "res_cfg \<Rightarrow> PodInfoMaintainer \<Rightarrow> PodInfo \<Rightarrow> PodInfoMaintainer option" where
  "AddPodInfo cfg m p =
     do { aff \<leftarrow> slice_if (podsWithAffinity (pi_Pod p)) (\<lambda>hs. HashSlice_Add pi_PodKey hs p) (mt_withAffinity m);
          anti \<leftarrow> slice_if (podsWithRequiredAntiAffinity (pi_Pod p)) (\<lambda>hs. HashSlice_Add pi_PodKey hs p) (mt_withAntiAffinity m);
          let m1 = m\<lparr>mt_withAffinity := aff, mt_withAntiAffinity := anti,
                     mt_reserved := (if rc_ResourceReservation cfg \<and> IsReservationPlaceholderPod (pi_Pod p)
                                     then (mt_reserved m)(pi_PodKey p \<mapsto> p) else mt_reserved m)\<rparr>;
          if list_ex (\<lambda>f. \<not> f p) podFilters then Some (m1\<lparr>mt_never := (mt_never m1)(pi_PodKey p \<mapsto> p)\<rparr>)
          else if pi_PodResourceType p = GuaranteedPod then
            do { r \<leftarrow> Splay_Insert pod_class (mt_gt m1) p;
                 Some (m1\<lparr>mt_gt := fst r, mt_gtPriorities := count_inc (mt_gtPriorities m1) (pi_PodPriority p)\<rparr>) }
          else
            do { r \<leftarrow> Splay_Insert pod_class (mt_be m1) p;
                 Some (m1\<lparr>mt_be := fst r, mt_bePriorities := count_inc (mt_bePriorities m1) (pi_PodPriority p)\<rparr>) } }"

definition RemovePodInfo :: "res_cfg \<Rightarrow> PodInfoMaintainer \<Rightarrow> PodInfo \<Rightarrow> PodInfoMaintainer option" where
  "RemovePodInfo cfg m p =
     do { aff \<leftarrow> slice_if (podsWithAffinity (pi_Pod p)) (\<lambda>hs. HashSlice_Del pi_PodKey hs (pi_PodKey p)) (mt_withAffinity m);
          anti \<leftarrow> slice_if (podsWithRequiredAntiAffinity (pi_Pod p)) (\<lambda>hs. HashSlice_Del pi_PodKey hs (pi_PodKey p)) (mt_withAntiAffinity m);
          let m1 = m\<lparr>mt_withAffinity := aff, mt_withAntiAffinity := anti,
                     mt_reserved := (if rc_ResourceReservation cfg \<and> IsReservationPlaceholderPod (pi_Pod p)
                                     then (mt_reserved m)(pi_PodKey p := None) else mt_reserved m)\<rparr>;
          if mt_never m1 (pi_PodKey p) \<noteq> None then Some (m1\<lparr>mt_never := (mt_never m1)(pi_PodKey p := None)\<rparr>)
          else if pi_PodResourceType p = GuaranteedPod then
            do { r \<leftarrow> Splay_Delete pod_class (mt_gt m1) (pi_PodKey p);
                 Some (m1\<lparr>mt_gt := fst r, mt_gtPriorities := count_dec (mt_gtPriorities m1) (pi_PodPriority p)\<rparr>) }
          else
            do { r \<leftarrow> Splay_Delete pod_class (mt_be m1) (pi_PodKey p);
                 Some (m1\<lparr>mt_be := fst r, mt_bePriorities := count_dec (mt_bePriorities m1) (pi_PodPriority p)\<rparr>) } }"

text \<open>The type assertion \<^verbatim>\<open>o.(*PodInfo)\<close>.\<close>

definition as_pod :: "PodInfo splay_obj \<Rightarrow> PodInfo option" where
  "as_pod x = (case x of Obj p \<Rightarrow> Some p | LookupObj _ \<Rightarrow> None)"

primrec as_pods :: "PodInfo splay_obj list \<Rightarrow> PodInfo list option" where
  "as_pods [] = Some []"
| "as_pods (x # xs) = do { p \<leftarrow> as_pod x; ps \<leftarrow> as_pods xs; Some (p # ps) }"

definition tree_Get :: "pod_splay \<Rightarrow> key \<Rightarrow> PodInfo option option" where
  "tree_Get s key =
     do { x \<leftarrow> Splay_Get s key; (case x of None \<Rightarrow> Some None | Some y \<Rightarrow> do { p \<leftarrow> as_pod y; Some (Some p) }) }"

definition GetPodInfo :: "PodInfoMaintainer \<Rightarrow> key \<Rightarrow> PodInfo option option" where
  "GetPodInfo m key =
     (case mt_never m key of
        Some p \<Rightarrow> Some (Some p)
      | None \<Rightarrow>
          do { g \<leftarrow> tree_Get (mt_gt m) key;
               (case g of Some p \<Rightarrow> Some (Some p) | None \<Rightarrow> tree_Get (mt_be m) key) })"

definition maintainer_Len :: "PodInfoMaintainer \<Rightarrow> int" where
  "maintainer_Len m = Splay_Len (mt_be m) + Splay_Len (mt_gt m) + int (card (dom (mt_never m)))"

definition ReservedPodsNum :: "PodInfoMaintainer \<Rightarrow> int" where
  "ReservedPodsNum m = int (card (dom (mt_reserved m)))"

text \<open>\<^verbatim>\<open>GetPods\<close>; \<open>order\<close> lists the keys of \<^verbatim>\<open>neverBePreempted\<close> in the order of the iteration.\<close>

definition GetPods :: "PodInfoMaintainer \<Rightarrow> key list \<Rightarrow> PodInfo list option" where
  "GetPods m order =
     do { b \<leftarrow> Splay_Range (mt_be m); be \<leftarrow> as_pods b;
          g \<leftarrow> Splay_Range (mt_gt m); gt \<leftarrow> as_pods g;
          Some (be @ gt @ List.map_filter (mt_never m) order) }"

definition the_tree :: "PodInfoMaintainer \<Rightarrow> PodPartitionInfo \<Rightarrow> pod_splay" where
  "the_tree m b = (if pp_resourceType b = GuaranteedPod then mt_gt m else mt_be m)"

text \<open>The function \<^verbatim>\<open>GetVictimCandidates\<close> passes to \<^verbatim>\<open>ConditionRange\<close>: whether it answers true, and whether it keeps
  the pod.\<close>

definition victim_continue :: "PodPartitionInfo \<Rightarrow> PodInfo splay_obj \<Rightarrow> bool" where
  "victim_continue b x =
     (case x of
        LookupObj _ \<Rightarrow> False
      | Obj p \<Rightarrow>
          if pi_PodPriority p \<le> pp_priorityLower b then True
          else if pi_PodPriority p \<ge> pp_priorityUpper b then False else True)"

definition victim_keep :: "PodPartitionInfo \<Rightarrow> PodInfo \<Rightarrow> bool" where
  "victim_keep b p = (\<not> pi_PodPriority p \<le> pp_priorityLower b \<and> \<not> pi_PodPriority p \<ge> pp_priorityUpper b)"

definition GetVictimCandidates :: "PodInfoMaintainer \<Rightarrow> PodPartitionInfo \<Rightarrow> PodInfo list option" where
  "GetVictimCandidates m b =
     do { visited \<leftarrow> Splay_ConditionRange (the_tree m b) (victim_continue b);
          ps \<leftarrow> as_pods visited;
          Some (filter (victim_keep b) ps) }"

definition GetMaintainableInfoByPartition ::
  "PodInfoMaintainer \<Rightarrow> PodPartitionInfo \<Rightarrow> (PodInfoMaintainer \<times> PodMaintainableInfo) option" where
  "GetMaintainableInfoByPartition m b =
     do { sr \<leftarrow> Splay_Partition pod_class (the_tree m b) (PodPartitionInfo_Compare b);
          let m' = (if pp_resourceType b = GuaranteedPod then m\<lparr>mt_gt := fst sr\<rparr> else m\<lparr>mt_be := fst sr\<rparr>);
          (case snd sr of
             None \<Rightarrow> Some (m', \<lparr>pm_PodInfo = None, pm_MilliCPU = 0, pm_Memory = 0\<rparr>)
           | Some (Info i) \<Rightarrow> Some (m', i)
           | Some LookupInfo \<Rightarrow> None) }"

text \<open>\<^verbatim>\<open>Clone\<close>; the slices of priorities it also makes are left out.\<close>

definition maintainer_Clone :: "PodInfoMaintainer \<Rightarrow> PodInfoMaintainer option" where
  "maintainer_Clone m =
     do { be \<leftarrow> Splay_Clone (mt_be m);
          gt \<leftarrow> Splay_Clone (mt_gt m);
          Some \<lparr>mt_be = be, mt_bePriorities = (\<lambda>k. mt_bePriorities m k), mt_gt = gt, mt_gtPriorities = (\<lambda>k. mt_gtPriorities m k),
                mt_never = (\<lambda>k. mt_never m k), mt_reserved = (\<lambda>k. mt_reserved m k),
                mt_withAffinity = HashSlice_Clone (mt_withAffinity m), mt_withAntiAffinity = HashSlice_Clone (mt_withAntiAffinity m)\<rparr> }"

subsection \<open>The invariant\<close>

definition may_be_preempted :: "PodInfo \<Rightarrow> bool" where
  "may_be_preempted p = (\<not> list_ex (\<lambda>f. \<not> f p) podFilters)"

definition guaranteed :: "PodInfo \<Rightarrow> bool" where
  "guaranteed p = (pi_PodResourceType p = GuaranteedPod)"

definition keep :: "(PodInfo \<Rightarrow> bool) \<Rightarrow> (key \<rightharpoonup> PodInfo) \<Rightarrow> key \<rightharpoonup> PodInfo" where
  "keep P A k = (case A k of None \<Rightarrow> None | Some p \<Rightarrow> if P p then Some p else None)"

text \<open>The number of pods of each priority.\<close>

definition at_priority :: "PodInfo list \<Rightarrow> int \<Rightarrow> nat" where
  "at_priority xs p = length (filter (\<lambda>q. pi_PodPriority q = p) xs)"

definition priority_counts :: "PodInfo list \<Rightarrow> int \<rightharpoonup> int" where
  "priority_counts xs p = (if at_priority xs p = 0 then None else Some (int (at_priority xs p)))"

text \<open>The list \<open>xs\<close> holds the pods of \<open>A\<close> that satisfy \<open>P\<close>.\<close>

definition lists :: "PodInfo list \<Rightarrow> (key \<rightharpoonup> PodInfo) \<Rightarrow> (PodInfo \<Rightarrow> bool) \<Rightarrow> bool" where
  "lists xs A P = (\<forall>p. p \<in> set xs \<longleftrightarrow> A (pi_PodKey p) = Some p \<and> P p)"

definition tree_part :: "pod_splay \<Rightarrow> (int \<rightharpoonup> int) \<Rightarrow> (key \<rightharpoonup> PodInfo) \<Rightarrow> (PodInfo \<Rightarrow> bool) \<Rightarrow> bool" where
  "tree_part s c A P = (\<exists>xs. tree_ok s xs \<and> lists xs A P \<and> c = priority_counts xs)"

definition maint_ok :: "res_cfg \<Rightarrow> PodInfoMaintainer \<Rightarrow> (key \<rightharpoonup> PodInfo) \<Rightarrow> bool" where
  "maint_ok cfg m A =
     ((\<forall>k p. A k = Some p \<longrightarrow> pi_PodKey p = k) \<and>
      tree_part (mt_be m) (mt_bePriorities m) A (\<lambda>p. may_be_preempted p \<and> \<not> guaranteed p) \<and>
      tree_part (mt_gt m) (mt_gtPriorities m) A (\<lambda>p. may_be_preempted p \<and> guaranteed p) \<and>
      mt_never m = keep (\<lambda>p. \<not> may_be_preempted p) A \<and>
      mt_reserved m = keep (\<lambda>p. rc_ResourceReservation cfg \<and> IsReservationPlaceholderPod (pi_Pod p)) A \<and>
      slice_ok pi_PodKey (mt_withAffinity m) \<and>
      slice_map pi_PodKey (mt_withAffinity m) = keep (\<lambda>p. podsWithAffinity (pi_Pod p)) A \<and>
      slice_ok pi_PodKey (mt_withAntiAffinity m) \<and>
      slice_map pi_PodKey (mt_withAntiAffinity m) = keep (\<lambda>p. podsWithRequiredAntiAffinity (pi_Pod p)) A)"

subsection \<open>The fields under additions and removals\<close>

lemma keep_add: "A k = None \<Longrightarrow> keep P (A(k \<mapsto> p)) = (if P p then (keep P A)(k \<mapsto> p) else keep P A)"
  by (auto simp: keep_def fun_eq_iff)

lemma keep_del: "keep P (A(k := None)) = (keep P A)(k := None)"
  by (auto simp: keep_def fun_eq_iff)

lemma keep_del_other: "A k = Some p \<Longrightarrow> \<not> P p \<Longrightarrow> keep P (A(k := None)) = keep P A"
  by (auto simp: keep_def fun_eq_iff)

lemma at_priority_mid:
  "at_priority (xs @ p # ys) x = at_priority (xs @ ys) x + (if x = pi_PodPriority p then 1 else 0)"
  by (simp add: at_priority_def)

lemma priority_counts_add: "priority_counts (xs @ p # ys) = count_inc (priority_counts (xs @ ys)) (pi_PodPriority p)"
  by (auto simp: fun_eq_iff priority_counts_def count_inc_def lookup0_def at_priority_mid)

lemma priority_counts_del: "count_dec (priority_counts (xs @ p # ys)) (pi_PodPriority p) = priority_counts (xs @ ys)"
  by (auto simp: fun_eq_iff priority_counts_def count_dec_def lookup0_def at_priority_mid Let_def)

lemma tree_ok_distinct: "tree_ok s xs \<Longrightarrow> distinct (map pi_PodKey xs)"
  using Get_holds(2) [of pod_class s xs] by (simp add: tree_ok_def)

lemma lists_key: "lists xs A P \<Longrightarrow> A k = None \<Longrightarrow> k \<notin> pi_PodKey ` set xs"
  by (auto simp: lists_def)

lemma tree_part_insert:
  assumes tp: "tree_part s c A P" and new: "A (pi_PodKey p) = None" and P: "P p"
  shows "\<exists>s'. Splay_Insert pod_class s p = Some (s', True) \<and>
              tree_part s' (count_inc c (pi_PodPriority p)) (A(pi_PodKey p \<mapsto> p)) P"
proof -
  obtain xs where xs: "tree_ok s xs" "lists xs A P" "c = priority_counts xs" using tp by (auto simp: tree_part_def)
  let ?u = "takeWhile (PodInfo_Compare p) xs" and ?v = "dropWhile (PodInfo_Compare p) xs"
  obtain s' where s': "Splay_Insert pod_class s p = Some (s', True)" "tree_ok s' (?u @ p # ?v)"
    using tree_Insert [OF xs(1) lists_key [OF xs(2) new]] by blast
  have st: "set (?u @ p # ?v) = insert p (set xs)"
    using takeWhile_dropWhile_id [of "PodInfo_Compare p" xs] set_append [of ?u ?v] by simp
  have "lists (?u @ p # ?v) (A(pi_PodKey p \<mapsto> p)) P"
    unfolding lists_def st using xs(2) new P by (auto simp: lists_def)
  moreover have "priority_counts (?u @ p # ?v) = count_inc c (pi_PodPriority p)"
    unfolding priority_counts_add xs(3) by simp
  ultimately show ?thesis using s' unfolding tree_part_def by metis
qed

lemma tree_part_insert_other:
  assumes "tree_part s c A P" and "A (pi_PodKey p) = None" and "\<not> P p"
  shows "tree_part s c (A(pi_PodKey p \<mapsto> p)) P"
proof -
  obtain xs where xs: "tree_ok s xs" "lists xs A P" "c = priority_counts xs" using assms(1) by (auto simp: tree_part_def)
  have "lists xs (A(pi_PodKey p \<mapsto> p)) P" using xs(2) assms(2,3) by (auto simp: lists_def)
  with xs show ?thesis unfolding tree_part_def by blast
qed

lemma tree_part_delete:
  assumes tp: "tree_part s c A P" and p: "A (pi_PodKey p) = Some p" and P: "P p"
  shows "\<exists>s'. Splay_Delete pod_class s (pi_PodKey p) = Some (s', True) \<and>
              tree_part s' (count_dec c (pi_PodPriority p)) (A(pi_PodKey p := None)) P"
proof -
  obtain xs where xs: "tree_ok s xs" "lists xs A P" "c = priority_counts xs" using tp by (auto simp: tree_part_def)
  have "p \<in> set xs" using xs(2) p P by (simp add: lists_def)
  then obtain us vs where uv: "xs = us @ p # vs" by (auto dest: split_list)
  let ?k = "pi_PodKey p"
  have d: "distinct (map pi_PodKey (us @ p # vs))" using tree_ok_distinct [OF xs(1)] uv by simp
  have ne: "q \<in> set us \<union> set vs \<Longrightarrow> pi_PodKey q \<noteq> ?k" for q
    using d by (auto simp: image_iff)
  then have f: "filter (\<lambda>q. pi_PodKey q \<noteq> ?k) xs = us @ vs" unfolding uv by (simp add: filter_id_conv)
  obtain s' where s': "Splay_Delete pod_class s ?k = Some (s', True)" "tree_ok s' (us @ vs)"
    using tree_Delete [OF xs(1), of ?k] \<open>p \<in> set xs\<close> f by auto
  have "lists (us @ vs) (A(?k := None)) P"
    unfolding lists_def
  proof (intro allI)
    fix q
    have "q \<in> set xs \<longleftrightarrow> A (pi_PodKey q) = Some q \<and> P q" using xs(2) by (simp add: lists_def)
    then show "q \<in> set (us @ vs) \<longleftrightarrow> (A(?k := None)) (pi_PodKey q) = Some q \<and> P q"
      using ne [of q] p uv by auto
  qed
  moreover have "priority_counts (us @ vs) = count_dec c (pi_PodPriority p)"
    unfolding xs(3) uv by (rule priority_counts_del [symmetric])
  ultimately show ?thesis using s' unfolding tree_part_def by metis
qed

lemma tree_part_delete_other:
  assumes "tree_part s c A P" and "A k = Some p" and "\<not> P p"
  shows "tree_part s c (A(k := None)) P"
proof -
  obtain xs where xs: "tree_ok s xs" "lists xs A P" "c = priority_counts xs" using assms(1) by (auto simp: tree_part_def)
  have "lists xs (A(k := None)) P" using xs(2) assms(2,3) by (auto simp: lists_def)
  with xs show ?thesis unfolding tree_part_def by blast
qed

lemma slice_if_add:
  assumes "slice_ok pi_PodKey hs" and "slice_map pi_PodKey hs = keep Q A" and "A (pi_PodKey p) = None"
  shows "\<exists>hs'. slice_if (Q p) (\<lambda>hs. HashSlice_Add pi_PodKey hs p) hs = Some hs' \<and> slice_ok pi_PodKey hs' \<and>
               slice_map pi_PodKey hs' = keep Q (A(pi_PodKey p \<mapsto> p))"
  using slice.add_law [OF assms(1), of p] assms by (auto simp: slice_if_def keep_add)

lemma slice_if_del:
  assumes "slice_ok pi_PodKey hs" and "slice_map pi_PodKey hs = keep Q A" and "A (pi_PodKey p) = Some p"
  shows "\<exists>hs'. slice_if (Q p) (\<lambda>hs. HashSlice_Del pi_PodKey hs (pi_PodKey p)) hs = Some hs' \<and> slice_ok pi_PodKey hs' \<and>
               slice_map pi_PodKey hs' = keep Q (A(pi_PodKey p := None))"
  using slice.del_law [OF assms(1), of "pi_PodKey p"] assms keep_del_other [of A "pi_PodKey p" p Q]
  by (cases "Q p") (auto simp: slice_if_def keep_del)

lemma maint_okD:
  assumes "maint_ok cfg m A"
  shows "\<And>k p. A k = Some p \<Longrightarrow> pi_PodKey p = k"
    "tree_part (mt_be m) (mt_bePriorities m) A (\<lambda>p. may_be_preempted p \<and> \<not> guaranteed p)"
    "tree_part (mt_gt m) (mt_gtPriorities m) A (\<lambda>p. may_be_preempted p \<and> guaranteed p)"
    "mt_never m = keep (\<lambda>p. \<not> may_be_preempted p) A"
    "mt_reserved m = keep (\<lambda>p. rc_ResourceReservation cfg \<and> IsReservationPlaceholderPod (pi_Pod p)) A"
    "slice_ok pi_PodKey (mt_withAffinity m)" "slice_map pi_PodKey (mt_withAffinity m) = keep (\<lambda>p. podsWithAffinity (pi_Pod p)) A"
    "slice_ok pi_PodKey (mt_withAntiAffinity m)"
    "slice_map pi_PodKey (mt_withAntiAffinity m) = keep (\<lambda>p. podsWithRequiredAntiAffinity (pi_Pod p)) A"
  using assms unfolding maint_ok_def by simp_all

lemma empty_maintainer_ok: "maint_ok cfg empty_maintainer Map.empty"
proof -
  have "tree_part (NewSplay pod_class) Map.empty Map.empty P" for P
    unfolding tree_part_def using NewSplay_tree
    by (intro exI [of _ "[]"]) (simp add: lists_def priority_counts_def at_priority_def fun_eq_iff)
  moreover have "keep P Map.empty = Map.empty" for P by (simp add: keep_def fun_eq_iff)
  ultimately show ?thesis
    unfolding maint_ok_def empty_maintainer_def using NewHashSlice_ok [of pi_PodKey] by simp
qed

text \<open>Both operations first update the slices and the placeholders, then one of the three places where a pod is kept.\<close>

definition maint_rest :: "res_cfg \<Rightarrow> PodInfoMaintainer \<Rightarrow> (key \<rightharpoonup> PodInfo) \<Rightarrow> bool" where
  "maint_rest cfg m A =
     ((\<forall>k p. A k = Some p \<longrightarrow> pi_PodKey p = k) \<and>
      mt_reserved m = keep (\<lambda>p. rc_ResourceReservation cfg \<and> IsReservationPlaceholderPod (pi_Pod p)) A \<and>
      slice_ok pi_PodKey (mt_withAffinity m) \<and>
      slice_map pi_PodKey (mt_withAffinity m) = keep (\<lambda>p. podsWithAffinity (pi_Pod p)) A \<and>
      slice_ok pi_PodKey (mt_withAntiAffinity m) \<and>
      slice_map pi_PodKey (mt_withAntiAffinity m) = keep (\<lambda>p. podsWithRequiredAntiAffinity (pi_Pod p)) A)"

lemma maint_ok_split:
  "maint_ok cfg m A \<longleftrightarrow>
     maint_rest cfg m A \<and>
     tree_part (mt_be m) (mt_bePriorities m) A (\<lambda>p. may_be_preempted p \<and> \<not> guaranteed p) \<and>
     tree_part (mt_gt m) (mt_gtPriorities m) A (\<lambda>p. may_be_preempted p \<and> guaranteed p) \<and>
     mt_never m = keep (\<lambda>p. \<not> may_be_preempted p) A"
  unfolding maint_ok_def maint_rest_def by blast

lemma maint_rest_update [simp]:
  "maint_rest cfg (m\<lparr>mt_never := n\<rparr>) A = maint_rest cfg m A"
  "maint_rest cfg (m\<lparr>mt_gt := s, mt_gtPriorities := c\<rparr>) A = maint_rest cfg m A"
  "maint_rest cfg (m\<lparr>mt_be := s, mt_bePriorities := c\<rparr>) A = maint_rest cfg m A"
  by (simp_all add: maint_rest_def)

definition add_rest :: "res_cfg \<Rightarrow> PodInfoMaintainer \<Rightarrow> PodInfo \<Rightarrow> PodInfo hash_slice \<Rightarrow> PodInfo hash_slice \<Rightarrow> PodInfoMaintainer" where
  "add_rest cfg m p aff anti =
     m\<lparr>mt_withAffinity := aff, mt_withAntiAffinity := anti,
       mt_reserved := (if rc_ResourceReservation cfg \<and> IsReservationPlaceholderPod (pi_Pod p)
                       then (mt_reserved m)(pi_PodKey p \<mapsto> p) else mt_reserved m)\<rparr>"

definition del_rest :: "res_cfg \<Rightarrow> PodInfoMaintainer \<Rightarrow> PodInfo \<Rightarrow> PodInfo hash_slice \<Rightarrow> PodInfo hash_slice \<Rightarrow> PodInfoMaintainer" where
  "del_rest cfg m p aff anti =
     m\<lparr>mt_withAffinity := aff, mt_withAntiAffinity := anti,
       mt_reserved := (if rc_ResourceReservation cfg \<and> IsReservationPlaceholderPod (pi_Pod p)
                       then (mt_reserved m)(pi_PodKey p := None) else mt_reserved m)\<rparr>"

lemma rest_simps [simp]:
  "mt_be (add_rest cfg m p x y) = mt_be m" "mt_bePriorities (add_rest cfg m p x y) = mt_bePriorities m"
  "mt_gt (add_rest cfg m p x y) = mt_gt m" "mt_gtPriorities (add_rest cfg m p x y) = mt_gtPriorities m"
  "mt_never (add_rest cfg m p x y) = mt_never m"
  "mt_be (del_rest cfg m p x y) = mt_be m" "mt_bePriorities (del_rest cfg m p x y) = mt_bePriorities m"
  "mt_gt (del_rest cfg m p x y) = mt_gt m" "mt_gtPriorities (del_rest cfg m p x y) = mt_gtPriorities m"
  "mt_never (del_rest cfg m p x y) = mt_never m"
  by (simp_all add: add_rest_def del_rest_def)

lemma add_rest_ok:
  assumes ok: "maint_ok cfg m A" and new: "A (pi_PodKey p) = None"
  shows "\<exists>aff anti.
    slice_if (podsWithAffinity (pi_Pod p)) (\<lambda>hs. HashSlice_Add pi_PodKey hs p) (mt_withAffinity m) = Some aff \<and>
    slice_if (podsWithRequiredAntiAffinity (pi_Pod p)) (\<lambda>hs. HashSlice_Add pi_PodKey hs p) (mt_withAntiAffinity m) = Some anti \<and>
    maint_rest cfg (add_rest cfg m p aff anti) (A(pi_PodKey p \<mapsto> p))"
proof -
  let ?A = "A(pi_PodKey p \<mapsto> p)"
  note D = maint_okD [OF ok]
  obtain aff where aff: "slice_if (podsWithAffinity (pi_Pod p)) (\<lambda>hs. HashSlice_Add pi_PodKey hs p) (mt_withAffinity m) = Some aff"
      "slice_ok pi_PodKey aff" "slice_map pi_PodKey aff = keep (\<lambda>p. podsWithAffinity (pi_Pod p)) ?A"
    using slice_if_add [OF D(6,7) new] by blast
  obtain anti where anti: "slice_if (podsWithRequiredAntiAffinity (pi_Pod p)) (\<lambda>hs. HashSlice_Add pi_PodKey hs p) (mt_withAntiAffinity m) = Some anti"
      "slice_ok pi_PodKey anti" "slice_map pi_PodKey anti = keep (\<lambda>p. podsWithRequiredAntiAffinity (pi_Pod p)) ?A"
    using slice_if_add [OF D(8,9) new] by blast
  have keys: "\<forall>k q. ?A k = Some q \<longrightarrow> pi_PodKey q = k" using D(1) by auto
  have res: "mt_reserved (add_rest cfg m p aff anti) =
      keep (\<lambda>p. rc_ResourceReservation cfg \<and> IsReservationPlaceholderPod (pi_Pod p)) ?A"
    unfolding add_rest_def keep_add [where A = A and k = "pi_PodKey p", OF new] by (simp add: D(5))
  have "mt_withAffinity (add_rest cfg m p aff anti) = aff" "mt_withAntiAffinity (add_rest cfg m p aff anti) = anti"
    by (simp_all add: add_rest_def)
  then have "maint_rest cfg (add_rest cfg m p aff anti) ?A"
    unfolding maint_rest_def using keys res aff(2,3) anti(2,3) by metis
  then show ?thesis using aff(1) anti(1) by blast
qed

lemma del_rest_ok:
  assumes ok: "maint_ok cfg m A" and p: "A (pi_PodKey p) = Some p"
  shows "\<exists>aff anti.
    slice_if (podsWithAffinity (pi_Pod p)) (\<lambda>hs. HashSlice_Del pi_PodKey hs (pi_PodKey p)) (mt_withAffinity m) = Some aff \<and>
    slice_if (podsWithRequiredAntiAffinity (pi_Pod p)) (\<lambda>hs. HashSlice_Del pi_PodKey hs (pi_PodKey p)) (mt_withAntiAffinity m) = Some anti \<and>
    maint_rest cfg (del_rest cfg m p aff anti) (A(pi_PodKey p := None))"
proof -
  let ?A = "A(pi_PodKey p := None)" and ?R = "\<lambda>p. rc_ResourceReservation cfg \<and> IsReservationPlaceholderPod (pi_Pod p)"
  note D = maint_okD [OF ok]
  obtain aff where aff: "slice_if (podsWithAffinity (pi_Pod p)) (\<lambda>hs. HashSlice_Del pi_PodKey hs (pi_PodKey p)) (mt_withAffinity m) = Some aff"
      "slice_ok pi_PodKey aff" "slice_map pi_PodKey aff = keep (\<lambda>p. podsWithAffinity (pi_Pod p)) ?A"
    using slice_if_del [OF D(6,7) p] by blast
  obtain anti where anti: "slice_if (podsWithRequiredAntiAffinity (pi_Pod p)) (\<lambda>hs. HashSlice_Del pi_PodKey hs (pi_PodKey p)) (mt_withAntiAffinity m) = Some anti"
      "slice_ok pi_PodKey anti" "slice_map pi_PodKey anti = keep (\<lambda>p. podsWithRequiredAntiAffinity (pi_Pod p)) ?A"
    using slice_if_del [OF D(8,9) p] by blast
  have keys: "\<forall>k q. ?A k = Some q \<longrightarrow> pi_PodKey q = k" using D(1) by auto
  have res: "mt_reserved (del_rest cfg m p aff anti) = keep ?R ?A"
    using keep_del [of ?R A "pi_PodKey p"] keep_del_other [of A "pi_PodKey p" p ?R] p D(5)
    by (cases "?R p") (auto simp: del_rest_def)
  have "mt_withAffinity (del_rest cfg m p aff anti) = aff" "mt_withAntiAffinity (del_rest cfg m p aff anti) = anti"
    by (simp_all add: del_rest_def)
  then have "maint_rest cfg (del_rest cfg m p aff anti) ?A"
    unfolding maint_rest_def using keys res aff(2,3) anti(2,3) by metis
  then show ?thesis using aff(1) anti(1) by blast
qed

lemma AddPodInfo_ok:
  assumes ok: "maint_ok cfg m A" and new: "A (pi_PodKey p) = None"
  shows "\<exists>m'. AddPodInfo cfg m p = Some m' \<and> maint_ok cfg m' (A(pi_PodKey p \<mapsto> p))"
proof -
  let ?A = "A(pi_PodKey p \<mapsto> p)" and ?k = "pi_PodKey p" and ?pr = "pi_PodPriority p"
  note D = maint_okD [OF ok]
  obtain aff anti where
    s: "slice_if (podsWithAffinity (pi_Pod p)) (\<lambda>hs. HashSlice_Add pi_PodKey hs p) (mt_withAffinity m) = Some aff"
      "slice_if (podsWithRequiredAntiAffinity (pi_Pod p)) (\<lambda>hs. HashSlice_Add pi_PodKey hs p) (mt_withAntiAffinity m) = Some anti"
    and r: "maint_rest cfg (add_rest cfg m p aff anti) ?A"
    using add_rest_ok [OF ok new] by blast
  define m1 where "m1 = add_rest cfg m p aff anti"
  have run: "AddPodInfo cfg m p =
      (if \<not> may_be_preempted p then Some (m1\<lparr>mt_never := (mt_never m)(?k \<mapsto> p)\<rparr>)
       else if guaranteed p then
         do { r \<leftarrow> Splay_Insert pod_class (mt_gt m) p;
              Some (m1\<lparr>mt_gt := fst r, mt_gtPriorities := count_inc (mt_gtPriorities m) ?pr\<rparr>) }
       else
         do { r \<leftarrow> Splay_Insert pod_class (mt_be m) p;
              Some (m1\<lparr>mt_be := fst r, mt_bePriorities := count_inc (mt_bePriorities m) ?pr\<rparr>) })"
    unfolding AddPodInfo_def s Option.bind.simps Let_def add_rest_def [symmetric] m1_def [symmetric]
      may_be_preempted_def guaranteed_def not_not
    by (simp add: m1_def)
  have nev: "keep (\<lambda>p. \<not> may_be_preempted p) ?A = (if may_be_preempted p then mt_never m else (mt_never m)(?k \<mapsto> p))"
    unfolding D(4) keep_add [where A = A and k = "?k", OF new] by simp
  have r1: "maint_rest cfg m1 ?A" using r by (simp add: m1_def)
  have m1: "mt_be m1 = mt_be m" "mt_bePriorities m1 = mt_bePriorities m" "mt_gt m1 = mt_gt m"
      "mt_gtPriorities m1 = mt_gtPriorities m" "mt_never m1 = mt_never m" by (simp_all add: m1_def)
  consider "\<not> may_be_preempted p" | "may_be_preempted p" "guaranteed p" | "may_be_preempted p" "\<not> guaranteed p" by blast
  then show ?thesis
  proof cases
    case 1
    then show ?thesis
      unfolding run maint_ok_split
      using tree_part_insert_other [OF D(2) new] tree_part_insert_other [OF D(3) new] r1 nev by (simp add: m1)
  next
    case 2
    then obtain t where "Splay_Insert pod_class (mt_gt m) p = Some (t, True)"
        "tree_part t (count_inc (mt_gtPriorities m) ?pr) ?A (\<lambda>p. may_be_preempted p \<and> guaranteed p)"
      using tree_part_insert [OF D(3) new] by blast
    then show ?thesis
      unfolding run maint_ok_split using 2 tree_part_insert_other [OF D(2) new] r1 nev by (simp add: m1)
  next
    case 3
    then obtain t where "Splay_Insert pod_class (mt_be m) p = Some (t, True)"
        "tree_part t (count_inc (mt_bePriorities m) ?pr) ?A (\<lambda>p. may_be_preempted p \<and> \<not> guaranteed p)"
      using tree_part_insert [OF D(2) new] by blast
    then show ?thesis
      unfolding run maint_ok_split using 3 tree_part_insert_other [OF D(3) new] r1 nev by (simp add: m1)
  qed
qed

lemma RemovePodInfo_ok:
  assumes ok: "maint_ok cfg m A" and p: "A (pi_PodKey p) = Some p"
  shows "\<exists>m'. RemovePodInfo cfg m p = Some m' \<and> maint_ok cfg m' (A(pi_PodKey p := None))"
proof -
  let ?A = "A(pi_PodKey p := None)" and ?k = "pi_PodKey p" and ?pr = "pi_PodPriority p"
  note D = maint_okD [OF ok]
  obtain aff anti where
    s: "slice_if (podsWithAffinity (pi_Pod p)) (\<lambda>hs. HashSlice_Del pi_PodKey hs (pi_PodKey p)) (mt_withAffinity m) = Some aff"
      "slice_if (podsWithRequiredAntiAffinity (pi_Pod p)) (\<lambda>hs. HashSlice_Del pi_PodKey hs (pi_PodKey p)) (mt_withAntiAffinity m) = Some anti"
    and r: "maint_rest cfg (del_rest cfg m p aff anti) ?A"
    using del_rest_ok [OF ok p] by blast
  define m1 where "m1 = del_rest cfg m p aff anti"
  have m1: "mt_be m1 = mt_be m" "mt_bePriorities m1 = mt_bePriorities m" "mt_gt m1 = mt_gt m"
      "mt_gtPriorities m1 = mt_gtPriorities m" "mt_never m1 = mt_never m" by (simp_all add: m1_def)
  have nev: "mt_never m ?k = (if may_be_preempted p then None else Some p)"
    unfolding D(4) by (simp add: keep_def p)
  have run: "RemovePodInfo cfg m p =
      (if \<not> may_be_preempted p then Some (m1\<lparr>mt_never := (mt_never m)(?k := None)\<rparr>)
       else if guaranteed p then
         do { r \<leftarrow> Splay_Delete pod_class (mt_gt m) ?k;
              Some (m1\<lparr>mt_gt := fst r, mt_gtPriorities := count_dec (mt_gtPriorities m) ?pr\<rparr>) }
       else
         do { r \<leftarrow> Splay_Delete pod_class (mt_be m) ?k;
              Some (m1\<lparr>mt_be := fst r, mt_bePriorities := count_dec (mt_bePriorities m) ?pr\<rparr>) })"
    unfolding RemovePodInfo_def s Option.bind.simps Let_def del_rest_def [symmetric] m1_def [symmetric] m1 nev guaranteed_def
    by simp
  have keepd: "keep (\<lambda>p. \<not> may_be_preempted p) ?A = (if may_be_preempted p then mt_never m else (mt_never m)(?k := None))"
    using keep_del [of "\<lambda>p. \<not> may_be_preempted p" A ?k] keep_del_other [of A ?k p "\<lambda>p. \<not> may_be_preempted p"] p D(4) by simp
  have r1: "maint_rest cfg m1 ?A" using r by (simp add: m1_def)
  consider "\<not> may_be_preempted p" | "may_be_preempted p" "guaranteed p" | "may_be_preempted p" "\<not> guaranteed p" by blast
  then show ?thesis
  proof cases
    case 1
    then show ?thesis
      unfolding run maint_ok_split
      using tree_part_delete_other [OF D(2) p] tree_part_delete_other [OF D(3) p] r1 keepd by (simp add: m1)
  next
    case 2
    then obtain t where "Splay_Delete pod_class (mt_gt m) ?k = Some (t, True)"
        "tree_part t (count_dec (mt_gtPriorities m) ?pr) ?A (\<lambda>p. may_be_preempted p \<and> guaranteed p)"
      using tree_part_delete [OF D(3) p] by blast
    then show ?thesis
      unfolding run maint_ok_split using 2 tree_part_delete_other [OF D(2) p] r1 keepd by (simp add: m1)
  next
    case 3
    then obtain t where "Splay_Delete pod_class (mt_be m) ?k = Some (t, True)"
        "tree_part t (count_dec (mt_bePriorities m) ?pr) ?A (\<lambda>p. may_be_preempted p \<and> \<not> guaranteed p)"
      using tree_part_delete [OF D(2) p] by blast
    then show ?thesis
      unfolding run maint_ok_split using 3 tree_part_delete_other [OF D(3) p] r1 keepd by (simp add: m1)
  qed
qed

subsection \<open>Queries\<close>

lemma as_pods_Obj [simp]: "as_pods (map Obj xs) = Some xs"
  by (induction xs) (simp_all add: as_pod_def)

lemma find_distinct_key:
  "distinct (map f xs) \<Longrightarrow> x \<in> set xs \<Longrightarrow> find (\<lambda>y. f y = f x) xs = Some x"
  by (induction xs) auto

lemma tree_Get_part:
  assumes "tree_part s c A P" and "\<forall>k p. A k = Some p \<longrightarrow> pi_PodKey p = k"
  shows "tree_Get s k = Some (keep P A k)"
proof -
  obtain xs where xs: "tree_ok s xs" "lists xs A P" using assms(1) by (auto simp: tree_part_def)
  have g: "Splay_Get s k = Some (map_option Obj (find (\<lambda>w. pi_PodKey w = k) xs))"
    using Get_holds(1) [of pod_class s xs k] xs(1) by (simp add: tree_ok_def)
  have "find (\<lambda>w. pi_PodKey w = k) xs = keep P A k"
  proof (cases "keep P A k")
    case None
    have "pi_PodKey w \<noteq> k" if "w \<in> set xs" for w
    proof
      assume "pi_PodKey w = k"
      moreover have "A (pi_PodKey w) = Some w" "P w" using xs(2) that unfolding lists_def by blast+
      ultimately have "keep P A k = Some w" by (simp add: keep_def)
      then show False using None by simp
    qed
    then show ?thesis using None find_None_iff [of "\<lambda>w. pi_PodKey w = k" xs] by metis
  next
    case (Some p)
    then have A: "A k = Some p" "P p" unfolding keep_def by (simp_all split: option.splits if_splits)
    then have p: "pi_PodKey p = k" using assms(2) by blast
    then have "p \<in> set xs" using A xs(2) unfolding lists_def by blast
    then show ?thesis using find_distinct_key [OF tree_ok_distinct [OF xs(1)], of p] Some p by simp
  qed
  then show ?thesis using g by (cases "keep P A k") (simp_all add: tree_Get_def as_pod_def)
qed

lemma GetPodInfo_ok:
  assumes ok: "maint_ok cfg m A"
  shows "GetPodInfo m k = Some (A k)"
proof -
  note D = maint_okD [OF ok]
  have key: "\<forall>k p. A k = Some p \<longrightarrow> pi_PodKey p = k" using D(1) by blast
  show ?thesis
    unfolding GetPodInfo_def D(4) tree_Get_part [OF D(2) key] tree_Get_part [OF D(3) key]
    by (cases "A k") (auto simp: keep_def)
qed

text \<open>The pods that may be preempted for a request of the resource type \<open>ty\<close>.\<close>

definition candidate :: "string \<Rightarrow> PodInfo \<Rightarrow> bool" where
  "candidate ty p = (may_be_preempted p \<and> (guaranteed p \<longleftrightarrow> ty = GuaranteedPod))"

lemma the_tree_part:
  assumes "maint_ok cfg m A"
  shows "\<exists>c. tree_part (the_tree m b) c A (candidate (pp_resourceType b))"
  using maint_okD(2,3) [OF assms] by (auto simp: the_tree_def candidate_def [abs_def])

lemma sorted_victims:
  assumes "order_ok pod_class xs"
  shows "sorted_wrt (\<lambda>v w. victim_keep b w \<longrightarrow> victim_continue b (Obj v)) xs"
proof (rule sorted_wrt_mono_rel)
  show "sorted_wrt (\<lambda>v w. \<not> PodInfo_Compare v w) xs" using assms by (simp add: order_ok_def)
  show "victim_keep b w \<longrightarrow> victim_continue b (Obj v)" if "\<not> PodInfo_Compare v w" for v w
    using PodInfo_Compare_priority [OF that] by (auto simp: victim_keep_def victim_continue_def)
qed

lemma GetVictimCandidates_ok:
  assumes ok: "maint_ok cfg m A"
  shows "\<exists>vs. GetVictimCandidates m b = Some vs \<and> distinct (map pi_PodKey vs) \<and>
    sorted_wrt (\<lambda>p q. \<not> PodInfo_Compare p q) vs \<and>
    (\<forall>p. p \<in> set vs \<longleftrightarrow> A (pi_PodKey p) = Some p \<and> candidate (pp_resourceType b) p \<and>
                       pp_priorityLower b < pi_PodPriority p \<and> pi_PodPriority p < pp_priorityUpper b)"
proof -
  obtain c xs where xs: "tree_ok (the_tree m b) xs" "lists xs A (candidate (pp_resourceType b))"
    using the_tree_part [OF ok] unfolding tree_part_def by blast
  then have h: "splay_holds pod_class (the_tree m b) xs" "order_ok pod_class xs" by (auto simp: tree_ok_def)
  obtain vs where vs: "Splay_ConditionRange (the_tree m b) (victim_continue b) = Some (map Obj vs)"
      "filter (victim_keep b) vs = filter (victim_keep b) xs"
    using ConditionRange_holds [of pod_class "the_tree m b" xs "victim_keep b" "victim_continue b", OF h(1) sorted_victims [OF h(2)]]
    by blast
  have "GetVictimCandidates m b = Some (filter (victim_keep b) xs)"
    by (simp add: GetVictimCandidates_def vs)
  moreover have "distinct (map pi_PodKey (filter (victim_keep b) xs))"
    using tree_ok_distinct [OF xs(1)] by (rule distinct_map_filter)
  moreover have "sorted_wrt (\<lambda>p q. \<not> PodInfo_Compare p q) (filter (victim_keep b) xs)"
    using h(2) by (simp add: order_ok_def sorted_wrt_filter)
  moreover have "p \<in> set (filter (victim_keep b) xs) \<longleftrightarrow> A (pi_PodKey p) = Some p \<and> candidate (pp_resourceType b) p \<and>
      pp_priorityLower b < pi_PodPriority p \<and> pi_PodPriority p < pp_priorityUpper b" for p
    using xs(2) by (auto simp: lists_def victim_keep_def)
  ultimately show ?thesis by blast
qed

lemma maint_ok_tree:
  assumes ok: "maint_ok cfg m A" and t: "tree_ok (the_tree m b) xs" "tree_ok s' xs"
  shows "maint_ok cfg (if pp_resourceType b = GuaranteedPod then m\<lparr>mt_gt := s'\<rparr> else m\<lparr>mt_be := s'\<rparr>) A"
proof -
  note D = maint_okD [OF ok]
  have swap: "tree_part s' c A P" if tp: "tree_part (the_tree m b) c A P" for c P
  proof -
    obtain ys where ys: "tree_ok (the_tree m b) ys" "lists ys A P" "c = priority_counts ys"
      using tp unfolding tree_part_def by blast
    have "ys = xs" using Range_holds [of pod_class "the_tree m b" ys] Range_holds [of pod_class "the_tree m b" xs] ys(1) t(1)
      by (auto simp: tree_ok_def inj_on_def intro: map_injective)
    then show ?thesis using ys t(2) unfolding tree_part_def by blast
  qed
  have r: "maint_rest cfg (m\<lparr>mt_gt := s'\<rparr>) A" "maint_rest cfg (m\<lparr>mt_be := s'\<rparr>) A"
    using ok unfolding maint_ok_split by (simp_all add: maint_rest_def)
  show ?thesis
  proof (cases "pp_resourceType b = GuaranteedPod")
    case True
    then have "the_tree m b = mt_gt m" by (simp add: the_tree_def)
    then show ?thesis using True swap r D(2,3,4) unfolding maint_ok_split by simp
  next
    case False
    then have "the_tree m b = mt_be m" by (simp add: the_tree_def)
    then show ?thesis using False swap r D(2,3,4) unfolding maint_ok_split by simp
  qed
qed

lemma GetMaintainableInfoByPartition_ok:
  assumes ok: "maint_ok cfg m A"
  shows "\<exists>m' i xs. GetMaintainableInfoByPartition m b = Some (m', i) \<and> maint_ok cfg m' A \<and> distinct xs \<and>
    (\<forall>p. p \<in> set xs \<longleftrightarrow> A (pi_PodKey p) = Some p \<and> candidate (pp_resourceType b) p \<and> pi_PodPriority p < pp_priorityUpper b) \<and>
    pm_MilliCPU i = (\<Sum>p \<leftarrow> xs. r_MilliCPU (pi_Res p)) \<and> pm_Memory i = (\<Sum>p \<leftarrow> xs. r_Memory (pi_Res p))"
proof -
  obtain c xs where xs: "tree_ok (the_tree m b) xs" "lists xs A (candidate (pp_resourceType b))"
    using the_tree_part [OF ok] unfolding tree_part_def by blast
  let ?ys = "filter (PodPartitionInfo_Compare b) xs"
  obtain s' r where r: "Splay_Partition pod_class (the_tree m b) (PodPartitionInfo_Compare b) = Some (s', r)" "tree_ok s' xs"
      "if ?ys = [] then r = None
       else \<exists>i. r = Some (Info i) \<and> pm_MilliCPU i = (\<Sum>p \<leftarrow> ?ys. r_MilliCPU (pi_Res p)) \<and> pm_Memory i = (\<Sum>p \<leftarrow> ?ys. r_Memory (pi_Res p))"
    using tree_Partition [OF xs(1), of b] unfolding Let_def by blast
  let ?m = "if pp_resourceType b = GuaranteedPod then m\<lparr>mt_gt := s'\<rparr> else m\<lparr>mt_be := s'\<rparr>"
  have "\<exists>i. GetMaintainableInfoByPartition m b = Some (?m, i) \<and>
      pm_MilliCPU i = (\<Sum>p \<leftarrow> ?ys. r_MilliCPU (pi_Res p)) \<and> pm_Memory i = (\<Sum>p \<leftarrow> ?ys. r_Memory (pi_Res p))"
  proof (cases "?ys = []")
    case True
    then show ?thesis using r(1,3) by (simp add: GetMaintainableInfoByPartition_def Let_def)
  next
    case False
    then obtain i where "r = Some (Info i)" "pm_MilliCPU i = (\<Sum>p \<leftarrow> ?ys. r_MilliCPU (pi_Res p))"
        "pm_Memory i = (\<Sum>p \<leftarrow> ?ys. r_Memory (pi_Res p))"
      using r(3) by auto
    then show ?thesis using r(1) by (simp add: GetMaintainableInfoByPartition_def Let_def)
  qed
  moreover have "maint_ok cfg ?m A" using maint_ok_tree [OF ok xs(1) r(2)] .
  moreover have "distinct ?ys" using tree_ok_distinct [OF xs(1)] by (simp add: distinct_map)
  moreover have "p \<in> set ?ys \<longleftrightarrow> A (pi_PodKey p) = Some p \<and> candidate (pp_resourceType b) p \<and> pi_PodPriority p < pp_priorityUpper b" for p
    using xs(2) by (auto simp: lists_def PodPartitionInfo_Compare_def)
  ultimately show ?thesis by blast
qed

lemma HashSlice_Clone_eq: "slice_ok kf hs \<Longrightarrow> HashSlice_Clone hs = hs"
  by (simp add: slice_ok_def HashSlice_Clone_def)

lemma maintainer_Clone_ok:
  assumes ok: "maint_ok cfg m A"
  shows "maintainer_Clone m = Some m"
proof -
  note D = maint_okD [OF ok]
  have "Splay_Clone s = Some s" if "tree_part s c A P" for s c P
    using that Clone_holds [of pod_class s] unfolding tree_part_def tree_ok_def by blast
  then have "Splay_Clone (mt_be m) = Some (mt_be m)" "Splay_Clone (mt_gt m) = Some (mt_gt m)" using D(2,3) by blast+
  then show ?thesis using HashSlice_Clone_eq [OF D(6)] HashSlice_Clone_eq [OF D(8)] by (simp add: maintainer_Clone_def)
qed

text \<open>\<^verbatim>\<open>Len\<close> is the number of pods.\<close>

lemma tree_part_card:
  assumes keys: "\<forall>k p. A k = Some p \<longrightarrow> pi_PodKey p = k" and tp: "tree_part s c A P"
  shows "Splay_Len s = int (card (dom (keep P A)))"
proof -
  obtain xs where xs: "tree_ok s xs" "lists xs A P" using tp unfolding tree_part_def by blast
  have "dom (keep P A) = pi_PodKey ` set xs"
  proof (intro set_eqI iffI)
    fix k
    assume "k \<in> dom (keep P A)"
    then obtain p where p: "A k = Some p" "P p" by (auto simp: keep_def split: option.splits if_splits)
    then have k: "pi_PodKey p = k" using keys by blast
    have "p \<in> set xs" using xs(2) p unfolding k [symmetric] lists_def by blast
    then show "k \<in> pi_PodKey ` set xs" using k by blast
  next
    fix k
    assume "k \<in> pi_PodKey ` set xs"
    then obtain p where p: "p \<in> set xs" "k = pi_PodKey p" by blast
    then have "A (pi_PodKey p) = Some p" "P p" using xs(2) unfolding lists_def by blast+
    then show "k \<in> dom (keep P A)" using p(2) by (simp add: keep_def dom_def)
  qed
  then have "card (dom (keep P A)) = length xs" using tree_ok_distinct [OF xs(1)] distinct_card [of "map pi_PodKey xs"] by simp
  then show ?thesis using Len_holds [of pod_class s xs] xs(1) by (simp add: tree_ok_def)
qed

lemma card_keep_split:
  assumes "finite (dom A)"
  shows "card (dom (keep P A)) = card (dom (keep (\<lambda>p. P p \<and> Q p) A)) + card (dom (keep (\<lambda>p. P p \<and> \<not> Q p) A))"
proof -
  have "dom (keep P A) = dom (keep (\<lambda>p. P p \<and> Q p) A) \<union> dom (keep (\<lambda>p. P p \<and> \<not> Q p) A)"
    by (auto simp: keep_def split: option.splits if_splits)
  moreover have "dom (keep (\<lambda>p. P p \<and> Q p) A) \<inter> dom (keep (\<lambda>p. P p \<and> \<not> Q p) A) = {}"
    by (auto simp: keep_def split: option.splits if_splits)
  moreover have "finite (dom (keep R A))" for R
    using assms by (rule rev_finite_subset) (auto simp: keep_def split: option.splits)
  ultimately show ?thesis using card_Un_disjoint by metis
qed

lemma maintainer_Len_card:
  assumes ok: "maint_ok cfg m A" and fin: "finite (dom A)"
  shows "maintainer_Len m = int (card (dom A))"
proof -
  note D = maint_okD [OF ok]
  have keys: "\<forall>k p. A k = Some p \<longrightarrow> pi_PodKey p = k" using D(1) by blast
  have "keep (\<lambda>p. True) A = A" by (auto simp: keep_def fun_eq_iff split: option.splits)
  then have "card (dom A) = card (dom (keep may_be_preempted A)) + card (dom (keep (\<lambda>p. \<not> may_be_preempted p) A))"
    using card_keep_split [OF fin, of "\<lambda>p. True" may_be_preempted] by simp
  then show ?thesis
    using tree_part_card [OF keys D(2)] tree_part_card [OF keys D(3)] card_keep_split [OF fin, of may_be_preempted guaranteed]
    by (simp add: maintainer_Len_def D(4))
qed

subsection \<open>The maintainer as a map\<close>

text \<open>A history of a maintainer: additions, removals of the pod found under a key, as \<^verbatim>\<open>NodeInfoImpl.RemovePod\<close> does
  them, and partitions, which reshape a tree. The reference is a map that refuses to add a key twice.\<close>

datatype maint_op = MaintAdd PodInfo | MaintRemove key | MaintPartition PodPartitionInfo

primrec maint_step :: "res_cfg \<Rightarrow> maint_op \<Rightarrow> PodInfoMaintainer \<Rightarrow> PodInfoMaintainer option" where
  "maint_step cfg (MaintAdd p) m = AddPodInfo cfg m p"
| "maint_step cfg (MaintRemove k) m =
     do { x \<leftarrow> GetPodInfo m k; (case x of None \<Rightarrow> Some m | Some p \<Rightarrow> RemovePodInfo cfg m p) }"
| "maint_step cfg (MaintPartition b) m = map_option fst (GetMaintainableInfoByPartition m b)"

primrec maint_run :: "res_cfg \<Rightarrow> maint_op list \<Rightarrow> PodInfoMaintainer \<Rightarrow> PodInfoMaintainer option" where
  "maint_run cfg [] m = Some m"
| "maint_run cfg (op # ops) m = do { m' \<leftarrow> maint_step cfg op m; maint_run cfg ops m' }"

primrec map_step :: "maint_op \<Rightarrow> (key \<rightharpoonup> PodInfo) \<Rightarrow> (key \<rightharpoonup> PodInfo) option" where
  "map_step (MaintAdd p) A = (if A (pi_PodKey p) \<noteq> None then None else Some (A(pi_PodKey p \<mapsto> p)))"
| "map_step (MaintRemove k) A = Some (A(k := None))"
| "map_step (MaintPartition b) A = Some A"

primrec map_run :: "maint_op list \<Rightarrow> (key \<rightharpoonup> PodInfo) \<Rightarrow> (key \<rightharpoonup> PodInfo) option" where
  "map_run [] A = Some A"
| "map_run (op # ops) A = do { A' \<leftarrow> map_step op A; map_run ops A' }"

lemma maint_step_refines:
  assumes ok: "maint_ok cfg m A" and st: "map_step op A = Some A'"
  shows "\<exists>m'. maint_step cfg op m = Some m' \<and> maint_ok cfg m' A'"
proof (cases op)
  case (MaintAdd p)
  then have "A (pi_PodKey p) = None" "A' = A(pi_PodKey p \<mapsto> p)" using st by (simp_all split: if_splits)
  then show ?thesis using AddPodInfo_ok [OF ok] MaintAdd by simp
next
  case (MaintRemove k)
  then have A': "A' = A(k := None)" using st by simp
  show ?thesis
  proof (cases "A k")
    case None
    then have "A(k := None) = A" by (simp add: fun_upd_idem)
    then show ?thesis using None MaintRemove A' ok by (simp add: GetPodInfo_ok [OF ok])
  next
    case (Some p)
    then have "pi_PodKey p = k" using maint_okD(1) [OF ok] by blast
    then show ?thesis using RemovePodInfo_ok [OF ok, of p] Some MaintRemove A' by (simp add: GetPodInfo_ok [OF ok])
  qed
next
  case (MaintPartition b)
  then have "A' = A" using st by simp
  moreover obtain m' i where "GetMaintainableInfoByPartition m b = Some (m', i)" "maint_ok cfg m' A"
    using GetMaintainableInfoByPartition_ok [OF ok, of b] by blast
  ultimately show ?thesis using MaintPartition by simp
qed

lemma maint_run_refines:
  "maint_ok cfg m A \<Longrightarrow> map_run ops A = Some A' \<Longrightarrow> \<exists>m'. maint_run cfg ops m = Some m' \<and> maint_ok cfg m' A'"
proof (induction ops arbitrary: m A)
  case (Cons op ops)
  then obtain A1 where A1: "map_step op A = Some A1" "map_run ops A1 = Some A'" by (auto simp: bind_eq_Some_conv)
  obtain m1 where "maint_step cfg op m = Some m1" "maint_ok cfg m1 A1" using maint_step_refines [OF Cons.prems(1) A1(1)] by blast
  then show ?case using Cons.IH [OF _ A1(2)] by simp
qed simp

text \<open>The counters are the numbers of pods of a priority.\<close>

definition priority_number :: "(key \<rightharpoonup> PodInfo) \<Rightarrow> string \<Rightarrow> int \<Rightarrow> nat" where
  "priority_number A ty x = card {p. A (pi_PodKey p) = Some p \<and> candidate ty p \<and> pi_PodPriority p = x}"

lemma at_priority_card:
  assumes "tree_ok s xs" and "lists xs A (candidate ty)"
  shows "at_priority xs x = priority_number A ty x"
proof -
  have "distinct xs" using tree_ok_distinct [OF assms(1)] by (simp add: distinct_map)
  then have "at_priority xs x = card (set (filter (\<lambda>p. pi_PodPriority p = x) xs))"
    by (simp only: at_priority_def distinct_card distinct_filter)
  also have "set (filter (\<lambda>p. pi_PodPriority p = x) xs) = {p. A (pi_PodKey p) = Some p \<and> candidate ty p \<and> pi_PodPriority p = x}"
    using assms(2) by (auto simp: lists_def)
  finally show ?thesis by (simp add: priority_number_def)
qed

lemma tree_part_counts:
  assumes "tree_part s c A (candidate ty)"
  shows "c x = (if priority_number A ty x = 0 then None else Some (int (priority_number A ty x)))"
proof -
  obtain xs where "tree_ok s xs" "lists xs A (candidate ty)" "c = priority_counts xs"
    using assms unfolding tree_part_def by blast
  then show ?thesis using at_priority_card by (simp add: priority_counts_def)
qed

lemma candidate_types:
  "candidate GuaranteedPod = (\<lambda>p. may_be_preempted p \<and> guaranteed p)"
  "candidate BestEffortPod = (\<lambda>p. may_be_preempted p \<and> \<not> guaranteed p)"
  by (simp_all add: candidate_def fun_eq_iff GuaranteedPod_def BestEffortPod_def)

text \<open>
  C38. The pod maintainer refines a map: whatever additions of new pods, removals and partitions are applied to an empty
  maintainer, none panics and every loop ends; \<^verbatim>\<open>GetPodInfo\<close> then finds exactly the pods of the map, the counters of both
  trees are the numbers of preemptible pods of each priority with no entry at zero, and the placeholders and the two
  affinity slices hold exactly the pods they are meant for, no pod twice.
\<close>

theorem maintainer_refines_map:
  assumes "map_run ops Map.empty = Some A"
  shows "\<exists>m. maint_run cfg ops empty_maintainer = Some m \<and> (\<forall>k. GetPodInfo m k = Some (A k)) \<and>
    (\<forall>x. mt_gtPriorities m x =
           (if priority_number A GuaranteedPod x = 0 then None else Some (int (priority_number A GuaranteedPod x)))) \<and>
    (\<forall>x. mt_bePriorities m x =
           (if priority_number A BestEffortPod x = 0 then None else Some (int (priority_number A BestEffortPod x)))) \<and>
    mt_reserved m = keep (\<lambda>p. rc_ResourceReservation cfg \<and> IsReservationPlaceholderPod (pi_Pod p)) A \<and>
    slice_ok pi_PodKey (mt_withAffinity m) \<and> slice_ok pi_PodKey (mt_withAntiAffinity m) \<and>
    slice_map pi_PodKey (mt_withAffinity m) = keep (\<lambda>p. podsWithAffinity (pi_Pod p)) A \<and>
    slice_map pi_PodKey (mt_withAntiAffinity m) = keep (\<lambda>p. podsWithRequiredAntiAffinity (pi_Pod p)) A"
proof -
  obtain m where run: "maint_run cfg ops empty_maintainer = Some m" and ok: "maint_ok cfg m A"
    using maint_run_refines [OF empty_maintainer_ok assms] by blast
  note D = maint_okD [OF ok]
  note c = tree_part_counts [OF D(3) [folded candidate_types]] tree_part_counts [OF D(2) [folded candidate_types]]
  show ?thesis using run GetPodInfo_ok [OF ok] c D(5-9) by blast
qed

definition maint_example :: "maint_op list" where
  "maint_example =
     [MaintAdd (pod_example_at ''b'' 7), MaintAdd (pod_example_at ''a'' 3),
      MaintPartition \<lparr>pp_priorityLower = 0, pp_priorityUpper = 6, pp_resourceType = GuaranteedPod\<rparr>, MaintRemove ''b'']"

lemma maint_example_run: "map_run maint_example Map.empty = Some [''a'' \<mapsto> pod_example_at ''a'' 3]"
  by (simp add: maint_example_def fun_upd_twist)

theorem maintainer_refines_map_witness:
  "\<exists>m. maint_run cfg_example maint_example empty_maintainer = Some m \<and>
       GetPodInfo m ''a'' = Some (Some (pod_example_at ''a'' 3)) \<and> GetPodInfo m ''b'' = Some None"
  using maintainer_refines_map [OF maint_example_run, of cfg_example] by auto

text \<open>
  C39. In every maintainer reached from the empty one by additions under new keys, removals and partitions
  \<^verbatim>\<open>GetVictimCandidates\<close> returns, from the least to the most important and without
  repetition, exactly the preemptible pods of the resource type whose priority lies strictly between the two bounds,
  although \<^verbatim>\<open>ConditionRange\<close> skips subtrees; and \<^verbatim>\<open>GetMaintainableInfoByPartition\<close> returns the CPU and memory, modulo \<open>2^64\<close>,
  that the preemptible pods of the type below the upper bound request together: the pods for which \<^verbatim>\<open>Compare\<close> of the
  partition is true, although its comment says those for which it is false.
\<close>

theorem victims_and_partition_exact:
  assumes "map_run ops Map.empty = Some A" and "maint_run cfg ops empty_maintainer = Some m"
  shows "(\<exists>vs. GetVictimCandidates m b = Some vs \<and> distinct (map pi_PodKey vs) \<and>
      sorted_wrt (\<lambda>p q. \<not> PodInfo_Compare p q) vs \<and>
      set vs = {p. A (pi_PodKey p) = Some p \<and> candidate (pp_resourceType b) p \<and>
                   pp_priorityLower b < pi_PodPriority p \<and> pi_PodPriority p < pp_priorityUpper b}) \<and>
    (\<exists>m' i. GetMaintainableInfoByPartition m b = Some (m', i) \<and>
      (let below = {p. A (pi_PodKey p) = Some p \<and> candidate (pp_resourceType b) p \<and> pi_PodPriority p < pp_priorityUpper b} in
       finite below \<and> pm_MilliCPU i = (\<Sum>p \<in> below. r_MilliCPU (pi_Res p)) \<and> pm_Memory i = (\<Sum>p \<in> below. r_Memory (pi_Res p))))"
proof -
  have ok: "maint_ok cfg m A"
    using maint_run_refines [OF empty_maintainer_ok assms(1), of cfg] assms(2) by auto
  let ?below = "{p. A (pi_PodKey p) = Some p \<and> candidate (pp_resourceType b) p \<and> pi_PodPriority p < pp_priorityUpper b}"
  obtain m' i xs where p: "GetMaintainableInfoByPartition m b = Some (m', i)" "distinct xs"
      "\<forall>p. p \<in> set xs \<longleftrightarrow> A (pi_PodKey p) = Some p \<and> candidate (pp_resourceType b) p \<and> pi_PodPriority p < pp_priorityUpper b"
      "pm_MilliCPU i = (\<Sum>p \<leftarrow> xs. r_MilliCPU (pi_Res p))" "pm_Memory i = (\<Sum>p \<leftarrow> xs. r_Memory (pi_Res p))"
    using GetMaintainableInfoByPartition_ok [OF ok, of b] by blast
  have st: "set xs = ?below" using p(3) by blast
  have "finite ?below" unfolding st [symmetric] by simp
  moreover have "pm_MilliCPU i = (\<Sum>p \<in> ?below. r_MilliCPU (pi_Res p))" "pm_Memory i = (\<Sum>p \<in> ?below. r_Memory (pi_Res p))"
    unfolding p(4,5) st [symmetric] using p(2) by (simp_all add: sum_list_distinct_conv_sum_set)
  moreover obtain vs where v: "GetVictimCandidates m b = Some vs" "distinct (map pi_PodKey vs)"
      "sorted_wrt (\<lambda>p q. \<not> PodInfo_Compare p q) vs"
      "\<forall>p. p \<in> set vs \<longleftrightarrow> A (pi_PodKey p) = Some p \<and> candidate (pp_resourceType b) p \<and>
                       pp_priorityLower b < pi_PodPriority p \<and> pi_PodPriority p < pp_priorityUpper b"
    using GetVictimCandidates_ok [OF ok, of b] by blast
  moreover have "set vs = {p. A (pi_PodKey p) = Some p \<and> candidate (pp_resourceType b) p \<and>
      pp_priorityLower b < pi_PodPriority p \<and> pi_PodPriority p < pp_priorityUpper b}" using v(4) by blast
  ultimately show ?thesis using p(1) unfolding Let_def by blast
qed

definition bound_example :: PodPartitionInfo where
  "bound_example = \<lparr>pp_priorityLower = 0, pp_priorityUpper = 6, pp_resourceType = GuaranteedPod\<rparr>"

lemma example_candidate: "candidate GuaranteedPod (pod_example_at uid prio)"
  by (simp add: candidate_def may_be_preempted_def guaranteed_def podFilters_def pod_example_at_def NewPodInfo_def v1pod_example_def
      pod.truncate_def GetPodResourceType_def BoundPod_def IsReservationPlaceholderPod_def ann_has_def Let_def split: prod.splits)

theorem victims_and_partition_exact_witness:
  "\<exists>m. maint_run cfg_example maint_example empty_maintainer = Some m \<and>
       GetVictimCandidates m bound_example = Some [pod_example_at ''a'' 3]"
proof -
  obtain m where m: "maint_run cfg_example maint_example empty_maintainer = Some m"
    using maint_run_refines [OF empty_maintainer_ok maint_example_run, of cfg_example] by blast
  obtain vs where vs: "GetVictimCandidates m bound_example = Some vs" "distinct (map pi_PodKey vs)"
      "set vs = {p. [''a'' \<mapsto> pod_example_at ''a'' 3] (pi_PodKey p) = Some p \<and> candidate GuaranteedPod p \<and> 0 < pi_PodPriority p \<and> pi_PodPriority p < 6}"
    using victims_and_partition_exact [OF maint_example_run m, of bound_example] by (auto simp: bound_example_def)
  have "set vs = {pod_example_at ''a'' 3}"
    unfolding vs(3) using example_candidate by (auto split: if_splits)
  then have "vs = [pod_example_at ''a'' 3]"
    using vs(2) by (cases vs) (auto simp: distinct_map subset_singleton_iff)
  then show ?thesis using m vs(1) by blast
qed

end
