(* ===== verification/Node_Info.thy ===== *)
theory Node_Info
  imports Pod_Maintainer
begin

section \<open>The cached node (pkg/framework/api/nodeinfo.go)\<close>

text \<open>
  A \<^verbatim>\<open>NodeInfoImpl\<close> aggregates the pods of a node: the amounts requested by the guaranteed and by the best-effort pods,
  the amounts held by reservation placeholders, the host ports in use, and what the node offers, computed from the
  node object of Kubernetes and that of the node manager.

  The model is the configuration with the gate \<^verbatim>\<open>NonNativeResourceSchedulingSupport\<close> off, in which \<^verbatim>\<open>NumaTopologyStatus\<close> is
  nil and its methods return at once. The images, the transient information and the lock are left out: no operation
  here reads them. The generation is kept by the store that holds the node. The resources are kept by value. \<open>None\<close> is a panic of the pod trees.

  The properties: after any history the amounts are exactly the sums over the pods of the node, a removal fails
  exactly for a pod that is not there, and the occupiable resources are the allocatable ones less the pods
  that cannot be preempted.
\<close>

subsection \<open>Operations\<close>

record v1node =
  node_Name :: string
  node_Labels :: "string \<rightharpoonup> string"
  node_Annotations :: "string \<rightharpoonup> string"
  node_Allocatable :: ResourceList
  node_Capacity :: ResourceList
  node_Taints :: "taint list"
  node_Unschedulable :: bool

record nm_node =
  nm_Name :: string
  nm_Labels :: "string \<rightharpoonup> string"
  nm_Annotations :: "string \<rightharpoonup> string"
  nm_ResourceAllocatable :: "ResourceList option"
  nm_ResourceCapacity :: "ResourceList option"
  nm_Taints :: "taint list"

text \<open>Of a \<^verbatim>\<open>CustomNodeResource\<close> the allocatable best-effort resources are read.\<close>

record custom_node_resource =
  cnode_Name :: string
  cnode_Allocatable :: "ResourceList option"

record NodeInfoImpl =
  ni_Node :: "v1node option"
  ni_NMNode :: "nm_node option"
  ni_CNR :: "custom_node_resource option"
  ni_NodeInSchedulerPartition :: bool
  ni_NMNodeInSchedulerPartition :: bool
  ni_PodInfoMaintainer :: PodInfoMaintainer
  ni_UsedPorts :: HostPortInfo
  ni_GuaranteedRequested :: Resource
  ni_GuaranteedNonZeroRequested :: Resource
  ni_GuaranteedAllocatable :: Resource
  ni_GuaranteedCapacity :: Resource
  ni_GuaranteedReserved :: Resource
  ni_BestEffortRequested :: Resource
  ni_BestEffortNonZeroRequested :: Resource
  ni_BestEffortAllocatable :: Resource

datatype node_error = EmptyUID | NoCorrespondingPod string string

definition getNodeName :: "NodeInfoImpl \<Rightarrow> string" where
  "getNodeName n =
     (case ni_Node n of
        Some x \<Rightarrow> node_Name x
      | None \<Rightarrow> (case ni_NMNode n of Some y \<Rightarrow> nm_Name y | None \<Rightarrow> []))"

definition GetNodeLabels :: "NodeInfoImpl \<Rightarrow> string \<Rightarrow> string \<rightharpoonup> string" where
  "GetNodeLabels n podLauncher =
     (if podLauncher = Kubelet then (case ni_Node n of Some x \<Rightarrow> node_Labels x | None \<Rightarrow> Map.empty)
      else if podLauncher = NodeManager then (case ni_NMNode n of Some y \<Rightarrow> nm_Labels y | None \<Rightarrow> Map.empty)
      else Map.empty)"

definition ObjectIsNil :: "NodeInfoImpl \<Rightarrow> bool" where
  "ObjectIsNil n = (ni_NMNode n = None \<and> ni_Node n = None)"

definition SetNodePartition :: "NodeInfoImpl \<Rightarrow> bool \<Rightarrow> NodeInfoImpl" where
  "SetNodePartition n flag = n\<lparr>ni_NodeInSchedulerPartition := flag, ni_NMNodeInSchedulerPartition := flag\<rparr>"

definition VolumeLimits :: "NodeInfoImpl \<Rightarrow> string \<rightharpoonup> int64" where
  "VolumeLimits n =
     (\<lambda>k. if IsAttachableVolumeResourceName k then r_ScalarResources (ni_GuaranteedAllocatable n) k else None)"

subsubsection \<open>What the node offers\<close>

text \<open>Both subtractions stop at zero.\<close>

definition nm_deduct :: "int \<Rightarrow> int \<Rightarrow> int \<Rightarrow> int" where
  "nm_deduct quantity capacity allocatable =
     (let rQuant = (if capacity - allocatable < 0 then 0 else capacity - allocatable);
          q = quantity - rQuant
      in if q < 0 then 0 else q)"

definition getAllocatableResources :: "res_cfg \<Rightarrow> v1node \<Rightarrow> nm_node \<Rightarrow> Resource" where
  "getAllocatableResources cfg nd nm =
     (let resourceList = node_Allocatable nd;
          cap = (case nm_ResourceCapacity nm of None \<Rightarrow> Map.empty | Some c \<Rightarrow> c);
          alloc = (case nm_ResourceAllocatable nm of None \<Rightarrow> Map.empty | Some a \<Rightarrow> a)
      in NewResourceFromPtr cfg (Some (\<lambda>rName.
           case alloc rName of
             None \<Rightarrow> resourceList rName
           | Some rQuantity \<Rightarrow>
               (case resourceList rName of
                  None \<Rightarrow> Some rQuantity
                | Some quantity \<Rightarrow>
                    (case cap rName of None \<Rightarrow> Some quantity | Some c \<Rightarrow> Some (nm_deduct quantity c rQuantity))))))"

definition setGuaranteedAllocatableResource :: "res_cfg \<Rightarrow> NodeInfoImpl \<Rightarrow> NodeInfoImpl" where
  "setGuaranteedAllocatableResource cfg n =
     n\<lparr>ni_GuaranteedAllocatable :=
         (case (ni_Node n, ni_NMNode n) of
            (None, None) \<Rightarrow> zero_Resource
          | (Some x, None) \<Rightarrow> NewResource cfg (node_Allocatable x)
          | (None, Some y) \<Rightarrow> NewResourceFromPtr cfg (nm_ResourceAllocatable y)
          | (Some x, Some y) \<Rightarrow> getAllocatableResources cfg x y)\<rparr>"

definition setGuaranteedCapacityResource :: "res_cfg \<Rightarrow> NodeInfoImpl \<Rightarrow> NodeInfoImpl" where
  "setGuaranteedCapacityResource cfg n =
     n\<lparr>ni_GuaranteedCapacity :=
         (case (ni_Node n, ni_NMNode n) of
            (None, None) \<Rightarrow> zero_Resource
          | (Some x, None) \<Rightarrow> NewResource cfg (node_Capacity x)
          | (None, Some y) \<Rightarrow> NewResourceFromPtr cfg (nm_ResourceCapacity y)
          | (Some x, Some y) \<Rightarrow> NewResource cfg (node_Capacity x))\<rparr>"

definition SetNode :: "res_cfg \<Rightarrow> NodeInfoImpl \<Rightarrow> v1node \<Rightarrow> NodeInfoImpl" where
  "SetNode cfg n x = setGuaranteedCapacityResource cfg (setGuaranteedAllocatableResource cfg (n\<lparr>ni_Node := Some x\<rparr>))"

definition SetNMNode :: "res_cfg \<Rightarrow> NodeInfoImpl \<Rightarrow> nm_node \<Rightarrow> NodeInfoImpl" where
  "SetNMNode cfg n y = setGuaranteedCapacityResource cfg (setGuaranteedAllocatableResource cfg (n\<lparr>ni_NMNode := Some y\<rparr>))"

definition SetCNR :: "res_cfg \<Rightarrow> NodeInfoImpl \<Rightarrow> custom_node_resource \<Rightarrow> NodeInfoImpl" where
  "SetCNR cfg n c = n\<lparr>ni_CNR := Some c, ni_BestEffortAllocatable := NewResourceFromPtr cfg (cnode_Allocatable c)\<rparr>"

definition RemoveNode :: "res_cfg \<Rightarrow> NodeInfoImpl \<Rightarrow> NodeInfoImpl" where
  "RemoveNode cfg n = setGuaranteedCapacityResource cfg (setGuaranteedAllocatableResource cfg (n\<lparr>ni_Node := None\<rparr>))"

definition RemoveNMNode :: "res_cfg \<Rightarrow> NodeInfoImpl \<Rightarrow> NodeInfoImpl" where
  "RemoveNMNode cfg n = setGuaranteedCapacityResource cfg (setGuaranteedAllocatableResource cfg (n\<lparr>ni_NMNode := None\<rparr>))"

definition RemoveCNR :: "NodeInfoImpl \<Rightarrow> NodeInfoImpl" where
  "RemoveCNR n = n\<lparr>ni_CNR := None, ni_BestEffortAllocatable := zero_Resource\<rparr>"

subsubsection \<open>The pods of the node\<close>

text \<open>The additions of \<^verbatim>\<open>update\<close>; \<open>sg\<close> is 1 or -1.\<close>

definition add_scaled :: "int64 \<Rightarrow> (string \<rightharpoonup> int64) \<Rightarrow> (string \<rightharpoonup> int64) \<Rightarrow> string \<rightharpoonup> int64" where
  "add_scaled sg requested scalars =
     (\<lambda>rName. case scalars rName of None \<Rightarrow> requested rName | Some rQuant \<Rightarrow> Some (lookup0 requested rName + sg * rQuant))"

definition update_requested :: "int64 \<Rightarrow> Resource \<Rightarrow> PodInfo \<Rightarrow> Resource" where
  "update_requested sg r p =
     r\<lparr>r_MilliCPU := r_MilliCPU r + sg * r_MilliCPU (pi_Res p),
       r_Memory := r_Memory r + sg * r_Memory (pi_Res p),
       r_EphemeralStorage := r_EphemeralStorage r + sg * r_EphemeralStorage (pi_Res p),
       r_ScalarResources := add_scaled sg (r_ScalarResources r) (r_ScalarResources (pi_Res p))\<rparr>"

definition update_nonZeroRequested :: "int64 \<Rightarrow> Resource \<Rightarrow> PodInfo \<Rightarrow> Resource" where
  "update_nonZeroRequested sg r p =
     r\<lparr>r_MilliCPU := r_MilliCPU r + sg * pi_Non0CPU p, r_Memory := r_Memory r + sg * pi_Non0Mem p\<rparr>"

definition updateUsedPorts :: "HostPortInfo \<Rightarrow> v1pod \<Rightarrow> bool \<Rightarrow> HostPortInfo" where
  "updateUsedPorts ports p add =
     fold (\<lambda>(ip, protocol, port) h. if add then HostPortInfo_Add h ip protocol port else HostPortInfo_Remove h ip protocol port)
       (pod_Ports p) ports"

text \<open>\<^verbatim>\<open>AddScalar\<close> for every scalar of the pod.\<close>

definition updateReservedResource :: "int64 \<Rightarrow> Resource \<Rightarrow> PodInfo \<Rightarrow> Resource" where
  "updateReservedResource sg r p =
     r\<lparr>r_MilliCPU := r_MilliCPU r + sg * r_MilliCPU (pi_Res p),
       r_Memory := r_Memory r + sg * r_Memory (pi_Res p),
       r_ScalarResources := add_scaled sg (r_ScalarResources r) (r_ScalarResources (pi_Res p))\<rparr>"

text \<open>A pod of an illegal resource type counts as a guaranteed one. The parameter \<^verbatim>\<open>preempt\<close> is only passed on to the
  method of the nil topology.\<close>

definition node_update :: "res_cfg \<Rightarrow> NodeInfoImpl \<Rightarrow> PodInfo \<Rightarrow> int64 \<Rightarrow> NodeInfoImpl" where
  "node_update cfg n p sg =
     (let n1 = (if pi_PodResourceType p = BestEffortPod
                then n\<lparr>ni_BestEffortRequested := update_requested sg (ni_BestEffortRequested n) p,
                       ni_BestEffortNonZeroRequested := update_nonZeroRequested sg (ni_BestEffortNonZeroRequested n) p\<rparr>
                else n\<lparr>ni_GuaranteedRequested := update_requested sg (ni_GuaranteedRequested n) p,
                       ni_GuaranteedNonZeroRequested := update_nonZeroRequested sg (ni_GuaranteedNonZeroRequested n) p\<rparr>);
          n2 = n1\<lparr>ni_UsedPorts := updateUsedPorts (ni_UsedPorts n1) (pi_Pod p) (0 < sint sg)\<rparr>
      in if rc_ResourceReservation cfg \<and> IsReservationPlaceholderPod (pi_Pod p)
         then n2\<lparr>ni_GuaranteedReserved := updateReservedResource sg (ni_GuaranteedReserved n2) p\<rparr> else n2)"

definition AddPod :: "res_cfg \<Rightarrow> NodeInfoImpl \<Rightarrow> v1pod \<Rightarrow> NodeInfoImpl option" where
  "AddPod cfg n pd =
     (let p = NewPodInfo cfg pd in
      do { m \<leftarrow> AddPodInfo cfg (ni_PodInfoMaintainer n) p;
           Some (node_update cfg (n\<lparr>ni_PodInfoMaintainer := m\<rparr>) p 1) })"

definition NodeInfo_GetPodKey :: "v1pod \<Rightarrow> node_error + key" where
  "NodeInfo_GetPodKey pd = (if length (pod_UID pd) = 0 then Inl EmptyUID else Inr (pod_UID pd))"

definition RemovePod :: "res_cfg \<Rightarrow> NodeInfoImpl \<Rightarrow> v1pod \<Rightarrow> (NodeInfoImpl \<times> node_error option) option" where
  "RemovePod cfg n pd =
     (case NodeInfo_GetPodKey pd of
        Inl e \<Rightarrow> Some (n, Some e)
      | Inr k \<Rightarrow>
          do { x \<leftarrow> GetPodInfo (ni_PodInfoMaintainer n) k;
               (case x of
                  Some p \<Rightarrow>
                    do { m \<leftarrow> RemovePodInfo cfg (ni_PodInfoMaintainer n) p;
                         Some (node_update cfg (n\<lparr>ni_PodInfoMaintainer := m\<rparr>) p (- 1), None) }
                | None \<Rightarrow> Some (n, Some (NoCorrespondingPod (pod_Name pd) (getNodeName n)))) })"

text \<open>The partition reshapes a tree of the maintainer.\<close>

definition GetOccupiableResources :: "NodeInfoImpl \<Rightarrow> PodPartitionInfo \<Rightarrow> (NodeInfoImpl \<times> Resource) option" where
  "GetOccupiableResources n b =
     do { mi \<leftarrow> GetMaintainableInfoByPartition (ni_PodInfoMaintainer n) b;
          let info = snd mi;
          let alloc = (if pp_resourceType b = GuaranteedPod then ni_GuaranteedAllocatable n else ni_BestEffortAllocatable n);
          let req = (if pp_resourceType b = GuaranteedPod then ni_GuaranteedRequested n else ni_BestEffortRequested n);
          Some (n\<lparr>ni_PodInfoMaintainer := fst mi\<rparr>,
                zero_Resource\<lparr>r_MilliCPU := pm_MilliCPU info + (r_MilliCPU alloc - r_MilliCPU req),
                              r_Memory := pm_Memory info + (r_Memory alloc - r_Memory req)\<rparr>) }"

definition empty_node :: NodeInfoImpl where
  "empty_node =
     \<lparr>ni_Node = None, ni_NMNode = None, ni_CNR = None, ni_NodeInSchedulerPartition = False,
      ni_NMNodeInSchedulerPartition = False, ni_PodInfoMaintainer = empty_maintainer, ni_UsedPorts = [],
      ni_GuaranteedRequested = zero_Resource, ni_GuaranteedNonZeroRequested = zero_Resource,
      ni_GuaranteedAllocatable = zero_Resource, ni_GuaranteedCapacity = zero_Resource,
      ni_GuaranteedReserved = zero_Resource, ni_BestEffortRequested = zero_Resource,
      ni_BestEffortNonZeroRequested = zero_Resource, ni_BestEffortAllocatable = zero_Resource\<rparr>"

primrec add_pods :: "res_cfg \<Rightarrow> v1pod list \<Rightarrow> NodeInfoImpl \<Rightarrow> NodeInfoImpl option" where
  "add_pods cfg [] n = Some n"
| "add_pods cfg (pd # pds) n = do { n' \<leftarrow> AddPod cfg n pd; add_pods cfg pds n' }"

definition NewNodeInfo :: "res_cfg \<Rightarrow> v1pod list \<Rightarrow> NodeInfoImpl option" where
  "NewNodeInfo cfg pds = add_pods cfg pds empty_node"

definition NumPods :: "NodeInfoImpl \<Rightarrow> int" where
  "NumPods n = maintainer_Len (ni_PodInfoMaintainer n)"

text \<open>\<^verbatim>\<open>Clone\<close>; the host ports are copied set by set.\<close>

definition NodeInfo_Clone :: "NodeInfoImpl \<Rightarrow> NodeInfoImpl option" where
  "NodeInfo_Clone n =
     do { m \<leftarrow> maintainer_Clone (ni_PodInfoMaintainer n);
          Some \<lparr>ni_Node = ni_Node n, ni_NMNode = ni_NMNode n, ni_CNR = ni_CNR n,
                ni_NodeInSchedulerPartition = ni_NodeInSchedulerPartition n,
                ni_NMNodeInSchedulerPartition = ni_NMNodeInSchedulerPartition n, ni_PodInfoMaintainer = m,
                ni_UsedPorts = map (\<lambda>(ip, portMap). (ip, portMap)) (ni_UsedPorts n),
                ni_GuaranteedRequested = Resource_Clone (ni_GuaranteedRequested n),
                ni_GuaranteedNonZeroRequested = Resource_Clone (ni_GuaranteedNonZeroRequested n),
                ni_GuaranteedAllocatable = Resource_Clone (ni_GuaranteedAllocatable n),
                ni_GuaranteedCapacity = Resource_Clone (ni_GuaranteedCapacity n),
                ni_GuaranteedReserved = Resource_Clone (ni_GuaranteedReserved n),
                ni_BestEffortRequested = Resource_Clone (ni_BestEffortRequested n),
                ni_BestEffortNonZeroRequested = Resource_Clone (ni_BestEffortNonZeroRequested n),
                ni_BestEffortAllocatable = Resource_Clone (ni_BestEffortAllocatable n)\<rparr> }"

subsection \<open>Sums over the pods\<close>

definition total :: "(key \<rightharpoonup> PodInfo) \<Rightarrow> (PodInfo \<Rightarrow> bool) \<Rightarrow> (PodInfo \<Rightarrow> int64) \<Rightarrow> int64" where
  "total A P f = (\<Sum>k \<in> {k. \<exists>p. A k = Some p \<and> P p}. f (the (A k)))"

lemma total_empty [simp]: "total Map.empty P f = 0"
  by (simp add: total_def)

lemma total_finite: "finite (dom A) \<Longrightarrow> finite {k. \<exists>p. A k = Some p \<and> P p}"
  by (rule finite_subset [of _ "dom A"]) auto

lemma total_add:
  assumes "finite (dom A)" and "A k = None"
  shows "total (A(k \<mapsto> p)) P f = total A P f + (if P p then f p else 0)"
proof -
  let ?S = "{k. \<exists>p. A k = Some p \<and> P p}"
  have "k \<notin> ?S" using assms(2) by simp
  have S: "{j. \<exists>q. (A(k \<mapsto> p)) j = Some q \<and> P q} = (if P p then insert k ?S else ?S)"
    using assms(2) by (auto split: if_splits)
  have eq: "(\<Sum>j \<in> ?S. f (the ((A(k \<mapsto> p)) j))) = (\<Sum>j \<in> ?S. f (the (A j)))"
    using \<open>k \<notin> ?S\<close> by (intro sum.cong) auto
  show ?thesis
    unfolding total_def S using total_finite [OF assms(1), of P] \<open>k \<notin> ?S\<close> eq by (simp add: add.commute)
qed

lemma total_del:
  assumes "finite (dom A)" and "A k = Some p"
  shows "total (A(k := None)) P f = total A P f - (if P p then f p else 0)"
proof -
  have "A = (A(k := None))(k \<mapsto> p)" using assms(2) by (auto simp: fun_eq_iff)
  then have "total A P f = total (A(k := None)) P f + (if P p then f p else 0)"
    using total_add [of "A(k := None)" k p P f] assms(1) by simp
  then show ?thesis by simp
qed

text \<open>A total splits into the pods that satisfy a condition and the others.\<close>

lemma total_split:
  assumes "finite (dom A)"
  shows "total A P f = total A (\<lambda>p. P p \<and> Q p) f + total A (\<lambda>p. P p \<and> \<not> Q p) f"
proof -
  have "{k. \<exists>p. A k = Some p \<and> P p} = {k. \<exists>p. A k = Some p \<and> P p \<and> Q p} \<union> {k. \<exists>p. A k = Some p \<and> P p \<and> \<not> Q p}"
    by auto
  then show ?thesis
    unfolding total_def using total_finite [OF assms] by (simp only:) (intro sum.union_disjoint; auto)
qed

lemma total_cong: "(\<And>k p. A k = Some p \<Longrightarrow> P p = Q p) \<Longrightarrow> total A P f = total A Q f"
  unfolding total_def by (rule arg_cong [where f = "\<lambda>S. \<Sum>k \<in> S. f (the (A k))"]) auto

text \<open>An amount read by \<open>rd\<close> is the total of \<open>w\<close>; both operations change it by the weight of the pod.\<close>

definition charged :: "(int64 \<Rightarrow> 'r \<Rightarrow> PodInfo \<Rightarrow> 'r) \<Rightarrow> ('r \<Rightarrow> int64) \<Rightarrow> (PodInfo \<Rightarrow> int64) \<Rightarrow> bool" where
  "charged chg rd w = (\<forall>sg r p. rd (chg sg r p) = rd r + sg * w p)"

lemma charged_add:
  assumes "charged chg rd w" and "finite (dom A)" and "A k = None" and "rd r = total A P w"
  shows "rd (if P p then chg 1 r p else r) = total (A(k \<mapsto> p)) P w"
  using assms total_add [OF assms(2,3), of p P w] by (simp add: charged_def)

lemma charged_del:
  assumes "charged chg rd w" and "finite (dom A)" and "A k = Some p" and "rd r = total A P w"
  shows "rd (if P p then chg (- 1) r p else r) = total (A(k := None)) P w"
  using assms total_del [OF assms(2,3), of P w] by (simp add: charged_def)

definition scalar_of :: "string \<Rightarrow> Resource \<Rightarrow> int64" where
  "scalar_of name r = lookup0 (r_ScalarResources r) name"

lemma add_scaled_lookup [simp]: "lookup0 (add_scaled sg requested scalars) name = lookup0 requested name + sg * lookup0 scalars name"
  by (simp add: add_scaled_def lookup0_def split: option.splits)

lemma update_requested_charged:
  "charged update_requested r_MilliCPU (\<lambda>p. r_MilliCPU (pi_Res p))"
  "charged update_requested r_Memory (\<lambda>p. r_Memory (pi_Res p))"
  "charged update_requested r_EphemeralStorage (\<lambda>p. r_EphemeralStorage (pi_Res p))"
  "charged update_requested (scalar_of name) (\<lambda>p. scalar_of name (pi_Res p))"
  by (simp_all add: charged_def update_requested_def scalar_of_def)

lemma update_nonZeroRequested_charged:
  "charged update_nonZeroRequested r_MilliCPU pi_Non0CPU" "charged update_nonZeroRequested r_Memory pi_Non0Mem"
  by (simp_all add: charged_def update_nonZeroRequested_def)

lemma updateReservedResource_charged:
  "charged updateReservedResource r_MilliCPU (\<lambda>p. r_MilliCPU (pi_Res p))"
  "charged updateReservedResource r_Memory (\<lambda>p. r_Memory (pi_Res p))"
  "charged updateReservedResource (scalar_of name) (\<lambda>p. scalar_of name (pi_Res p))"
  by (simp_all add: charged_def updateReservedResource_def scalar_of_def)

text \<open>What the three kinds of aggregates are the sums of.\<close>

definition requested_sums :: "Resource \<Rightarrow> (key \<rightharpoonup> PodInfo) \<Rightarrow> (PodInfo \<Rightarrow> bool) \<Rightarrow> bool" where
  "requested_sums r A P =
     (r_MilliCPU r = total A P (\<lambda>p. r_MilliCPU (pi_Res p)) \<and> r_Memory r = total A P (\<lambda>p. r_Memory (pi_Res p)) \<and>
      r_EphemeralStorage r = total A P (\<lambda>p. r_EphemeralStorage (pi_Res p)) \<and>
      (\<forall>name. scalar_of name r = total A P (\<lambda>p. scalar_of name (pi_Res p))))"

definition nonZero_sums :: "Resource \<Rightarrow> (key \<rightharpoonup> PodInfo) \<Rightarrow> (PodInfo \<Rightarrow> bool) \<Rightarrow> bool" where
  "nonZero_sums r A P = (r_MilliCPU r = total A P pi_Non0CPU \<and> r_Memory r = total A P pi_Non0Mem)"

definition reserved_sums :: "Resource \<Rightarrow> (key \<rightharpoonup> PodInfo) \<Rightarrow> (PodInfo \<Rightarrow> bool) \<Rightarrow> bool" where
  "reserved_sums r A P =
     (r_MilliCPU r = total A P (\<lambda>p. r_MilliCPU (pi_Res p)) \<and> r_Memory r = total A P (\<lambda>p. r_Memory (pi_Res p)) \<and>
      (\<forall>name. scalar_of name r = total A P (\<lambda>p. scalar_of name (pi_Res p))))"

lemma requested_sums_add:
  assumes "requested_sums r A P" "finite (dom A)" "A k = None"
  shows "requested_sums (if P p then update_requested 1 r p else r) (A(k \<mapsto> p)) P"
  using assms(1) charged_add [where A = A and P = P and p = p and r = r, OF _ assms(2,3)] update_requested_charged
  unfolding requested_sums_def by metis

lemma requested_sums_del:
  assumes "requested_sums r A P" "finite (dom A)" "A k = Some p"
  shows "requested_sums (if P p then update_requested (- 1) r p else r) (A(k := None)) P"
  using assms(1) charged_del [where A = A and P = P and r = r, OF _ assms(2,3)] update_requested_charged
  unfolding requested_sums_def by metis

lemma nonZero_sums_add:
  assumes "nonZero_sums r A P" "finite (dom A)" "A k = None"
  shows "nonZero_sums (if P p then update_nonZeroRequested 1 r p else r) (A(k \<mapsto> p)) P"
  using assms(1) charged_add [where A = A and P = P and p = p and r = r, OF _ assms(2,3)] update_nonZeroRequested_charged
  unfolding nonZero_sums_def by metis

lemma nonZero_sums_del:
  assumes "nonZero_sums r A P" "finite (dom A)" "A k = Some p"
  shows "nonZero_sums (if P p then update_nonZeroRequested (- 1) r p else r) (A(k := None)) P"
  using assms(1) charged_del [where A = A and P = P and r = r, OF _ assms(2,3)] update_nonZeroRequested_charged
  unfolding nonZero_sums_def by metis

lemma reserved_sums_add:
  assumes "reserved_sums r A P" "finite (dom A)" "A k = None"
  shows "reserved_sums (if P p then updateReservedResource 1 r p else r) (A(k \<mapsto> p)) P"
  using assms(1) charged_add [where A = A and P = P and p = p and r = r, OF _ assms(2,3)] updateReservedResource_charged
  unfolding reserved_sums_def by metis

lemma reserved_sums_del:
  assumes "reserved_sums r A P" "finite (dom A)" "A k = Some p"
  shows "reserved_sums (if P p then updateReservedResource (- 1) r p else r) (A(k := None)) P"
  using assms(1) charged_del [where A = A and P = P and r = r, OF _ assms(2,3)] updateReservedResource_charged
  unfolding reserved_sums_def by metis

subsection \<open>The invariant of a node\<close>

definition best_effort :: "PodInfo \<Rightarrow> bool" where "best_effort p = (pi_PodResourceType p = BestEffortPod)"

definition placeholder :: "res_cfg \<Rightarrow> PodInfo \<Rightarrow> bool" where
  "placeholder cfg p = (rc_ResourceReservation cfg \<and> IsReservationPlaceholderPod (pi_Pod p))"

definition node_sums :: "res_cfg \<Rightarrow> NodeInfoImpl \<Rightarrow> (key \<rightharpoonup> PodInfo) \<Rightarrow> bool" where
  "node_sums cfg n A =
     (requested_sums (ni_GuaranteedRequested n) A (\<lambda>p. \<not> best_effort p) \<and>
      nonZero_sums (ni_GuaranteedNonZeroRequested n) A (\<lambda>p. \<not> best_effort p) \<and>
      requested_sums (ni_BestEffortRequested n) A best_effort \<and>
      nonZero_sums (ni_BestEffortNonZeroRequested n) A best_effort \<and>
      reserved_sums (ni_GuaranteedReserved n) A (placeholder cfg))"

text \<open>The amounts offered agree with the node objects that are set.\<close>

definition offers_ok :: "res_cfg \<Rightarrow> NodeInfoImpl \<Rightarrow> bool" where
  "offers_ok cfg n =
     (setGuaranteedAllocatableResource cfg n = n \<and> setGuaranteedCapacityResource cfg n = n \<and>
      ni_BestEffortAllocatable n = (case ni_CNR n of None \<Rightarrow> zero_Resource | Some c \<Rightarrow> NewResourceFromPtr cfg (cnode_Allocatable c)))"

definition node_ok :: "res_cfg \<Rightarrow> NodeInfoImpl \<Rightarrow> (key \<rightharpoonup> PodInfo) \<Rightarrow> bool" where
  "node_ok cfg n A =
     (finite (dom A) \<and> (\<forall>k p. A k = Some p \<longrightarrow> (\<exists>pd. p = NewPodInfo cfg pd)) \<and>
      maint_ok cfg (ni_PodInfoMaintainer n) A \<and> node_sums cfg n A \<and> offers_ok cfg n)"

lemma NewPodInfo_key [simp]: "pi_PodKey (NewPodInfo cfg pd) = pod_UID pd"
  by (simp add: NewPodInfo_def split: prod.splits)

lemma node_update_fields:
  "ni_GuaranteedRequested (node_update cfg n p sg) =
     (if \<not> best_effort p then update_requested sg (ni_GuaranteedRequested n) p else ni_GuaranteedRequested n)"
  "ni_GuaranteedNonZeroRequested (node_update cfg n p sg) =
     (if \<not> best_effort p then update_nonZeroRequested sg (ni_GuaranteedNonZeroRequested n) p else ni_GuaranteedNonZeroRequested n)"
  "ni_BestEffortRequested (node_update cfg n p sg) =
     (if best_effort p then update_requested sg (ni_BestEffortRequested n) p else ni_BestEffortRequested n)"
  "ni_BestEffortNonZeroRequested (node_update cfg n p sg) =
     (if best_effort p then update_nonZeroRequested sg (ni_BestEffortNonZeroRequested n) p else ni_BestEffortNonZeroRequested n)"
  "ni_GuaranteedReserved (node_update cfg n p sg) =
     (if placeholder cfg p then updateReservedResource sg (ni_GuaranteedReserved n) p else ni_GuaranteedReserved n)"
  by (simp_all add: node_update_def best_effort_def placeholder_def Let_def)

lemma node_update_other [simp]:
  "ni_PodInfoMaintainer (node_update cfg n p sg) = ni_PodInfoMaintainer n"
  "ni_Node (node_update cfg n p sg) = ni_Node n" "ni_NMNode (node_update cfg n p sg) = ni_NMNode n"
  "ni_CNR (node_update cfg n p sg) = ni_CNR n"
  "ni_GuaranteedAllocatable (node_update cfg n p sg) = ni_GuaranteedAllocatable n"
  "ni_GuaranteedCapacity (node_update cfg n p sg) = ni_GuaranteedCapacity n"
  "ni_BestEffortAllocatable (node_update cfg n p sg) = ni_BestEffortAllocatable n"
  by (simp_all add: node_update_def Let_def)

lemma node_sums_add:
  assumes s: "node_sums cfg n A" and f: "finite (dom A)" "A k = None"
  shows "node_sums cfg (node_update cfg n p 1) (A(k \<mapsto> p))"
  using s requested_sums_add [OF _ f, of _ "\<lambda>p. \<not> best_effort p" p] requested_sums_add [OF _ f, of _ best_effort p]
    nonZero_sums_add [OF _ f, of _ "\<lambda>p. \<not> best_effort p" p] nonZero_sums_add [OF _ f, of _ best_effort p]
    reserved_sums_add [OF _ f, of _ "placeholder cfg" p]
  unfolding node_sums_def node_update_fields by blast

lemma node_sums_del:
  assumes s: "node_sums cfg n A" and f: "finite (dom A)" "A k = Some p"
  shows "node_sums cfg (node_update cfg n p (- 1)) (A(k := None))"
  using s requested_sums_del [OF _ f, of _ "\<lambda>p. \<not> best_effort p"] requested_sums_del [OF _ f, of _ best_effort]
    nonZero_sums_del [OF _ f, of _ "\<lambda>p. \<not> best_effort p"] nonZero_sums_del [OF _ f, of _ best_effort]
    reserved_sums_del [OF _ f, of _ "placeholder cfg"]
  unfolding node_sums_def node_update_fields by blast

lemma offers_ok_fields:
  "offers_ok cfg n \<longleftrightarrow>
     ni_GuaranteedAllocatable n = ni_GuaranteedAllocatable (setGuaranteedAllocatableResource cfg n) \<and>
     ni_GuaranteedCapacity n = ni_GuaranteedCapacity (setGuaranteedCapacityResource cfg n) \<and>
     ni_BestEffortAllocatable n = (case ni_CNR n of None \<Rightarrow> zero_Resource | Some c \<Rightarrow> NewResourceFromPtr cfg (cnode_Allocatable c))"
proof -
  have "n\<lparr>ni_GuaranteedAllocatable := x\<rparr> = n \<longleftrightarrow> ni_GuaranteedAllocatable n = x"
    "n\<lparr>ni_GuaranteedCapacity := x\<rparr> = n \<longleftrightarrow> ni_GuaranteedCapacity n = x" for x
    by (cases n; auto)+
  then show ?thesis by (simp add: offers_ok_def setGuaranteedAllocatableResource_def setGuaranteedCapacityResource_def)
qed

lemma offers_ok_update [simp]:
  "offers_ok cfg (node_update cfg n p sg) = offers_ok cfg n" "offers_ok cfg (n\<lparr>ni_PodInfoMaintainer := m\<rparr>) = offers_ok cfg n"
  by (simp_all add: offers_ok_fields setGuaranteedAllocatableResource_def setGuaranteedCapacityResource_def)

lemma node_sums_maintainer [simp]: "node_sums cfg (n\<lparr>ni_PodInfoMaintainer := m\<rparr>) A = node_sums cfg n A"
  by (simp add: node_sums_def)

lemma AddPod_ok:
  assumes ok: "node_ok cfg n A" and new: "A (pod_UID pd) = None"
  shows "\<exists>n'. AddPod cfg n pd = Some n' \<and> node_ok cfg n' (A(pod_UID pd \<mapsto> NewPodInfo cfg pd))"
proof -
  have D: "finite (dom A)" "\<forall>k p. A k = Some p \<longrightarrow> (\<exists>pd. p = NewPodInfo cfg pd)" "maint_ok cfg (ni_PodInfoMaintainer n) A"
      "node_sums cfg n A" "offers_ok cfg n" using ok unfolding node_ok_def by blast+
  obtain m where m: "AddPodInfo cfg (ni_PodInfoMaintainer n) (NewPodInfo cfg pd) = Some m"
      "maint_ok cfg m (A(pod_UID pd \<mapsto> NewPodInfo cfg pd))"
    using AddPodInfo_ok [OF D(3), of "NewPodInfo cfg pd"] new by auto
  have s: "node_sums cfg (node_update cfg (n\<lparr>ni_PodInfoMaintainer := m\<rparr>) (NewPodInfo cfg pd) 1) (A(pod_UID pd \<mapsto> NewPodInfo cfg pd))"
    using D(4) by (intro node_sums_add [OF _ D(1) new]) simp
  have k: "\<forall>k p. (A(pod_UID pd \<mapsto> NewPodInfo cfg pd)) k = Some p \<longrightarrow> (\<exists>pd. p = NewPodInfo cfg pd)" using D(2) by auto
  show ?thesis
    unfolding AddPod_def Let_def m(1) Option.bind.simps
    by (rule exI, rule conjI [OF refl]) (use D(1,5) m(2) s k in \<open>unfold node_ok_def; simp\<close>)
qed

lemma RemovePod_present:
  assumes ok: "node_ok cfg n A" and p: "A (pod_UID pd) = Some p" and u: "pod_UID pd \<noteq> []"
  shows "\<exists>n'. RemovePod cfg n pd = Some (n', None) \<and> node_ok cfg n' (A(pod_UID pd := None))"
proof -
  have D: "finite (dom A)" "\<forall>k p. A k = Some p \<longrightarrow> (\<exists>pd. p = NewPodInfo cfg pd)" "maint_ok cfg (ni_PodInfoMaintainer n) A"
      "node_sums cfg n A" "offers_ok cfg n" using ok unfolding node_ok_def by blast+
  have key: "pi_PodKey p = pod_UID pd" using maint_okD(1) [OF D(3) p] .
  obtain m where m: "RemovePodInfo cfg (ni_PodInfoMaintainer n) p = Some m" "maint_ok cfg m (A(pod_UID pd := None))"
    using RemovePodInfo_ok [OF D(3), of p] p key by auto
  have s: "node_sums cfg (node_update cfg (n\<lparr>ni_PodInfoMaintainer := m\<rparr>) p (- 1)) (A(pod_UID pd := None))"
    using D(4) by (intro node_sums_del [OF _ D(1) p]) simp
  have k: "\<forall>k p. (A(pod_UID pd := None)) k = Some p \<longrightarrow> (\<exists>pd. p = NewPodInfo cfg pd)" using D(2) by auto
  have "RemovePod cfg n pd = Some (node_update cfg (n\<lparr>ni_PodInfoMaintainer := m\<rparr>) p (- 1), None)"
    using u p m(1) by (simp add: RemovePod_def NodeInfo_GetPodKey_def GetPodInfo_ok [OF D(3)])
  moreover have "node_ok cfg (node_update cfg (n\<lparr>ni_PodInfoMaintainer := m\<rparr>) p (- 1)) (A(pod_UID pd := None))"
    unfolding node_ok_def using D(1,5) m(2) s k by simp
  ultimately show ?thesis by blast
qed

lemma RemovePod_absent:
  assumes ok: "node_ok cfg n A" and a: "pod_UID pd = [] \<or> A (pod_UID pd) = None"
  shows "RemovePod cfg n pd =
    Some (n, Some (if pod_UID pd = [] then EmptyUID else NoCorrespondingPod (pod_Name pd) (getNodeName n)))"
proof -
  have "GetPodInfo (ni_PodInfoMaintainer n) k = Some (A k)" for k using ok GetPodInfo_ok unfolding node_ok_def by blast
  then show ?thesis using a by (auto simp: RemovePod_def NodeInfo_GetPodKey_def)
qed

lemma empty_node_ok: "node_ok cfg empty_node Map.empty"
  using empty_maintainer_ok [of cfg]
  by (simp add: node_ok_def node_sums_def requested_sums_def nonZero_sums_def reserved_sums_def offers_ok_fields
      setGuaranteedAllocatableResource_def setGuaranteedCapacityResource_def empty_node_def zero_Resource_def scalar_of_def)

text \<open>Setting or removing a node object leaves the pods alone and brings the offers up to date.\<close>

lemma set_node_ok:
  assumes "node_ok cfg n A"
  shows "node_ok cfg (SetNode cfg n x) A" "node_ok cfg (SetNMNode cfg n y) A" "node_ok cfg (SetCNR cfg n c) A"
    "node_ok cfg (RemoveNode cfg n) A" "node_ok cfg (RemoveNMNode cfg n) A" "node_ok cfg (RemoveCNR n) A"
  using assms
  by (simp_all add: node_ok_def node_sums_def offers_ok_fields SetNode_def SetNMNode_def SetCNR_def RemoveNode_def RemoveNMNode_def
      RemoveCNR_def setGuaranteedAllocatableResource_def setGuaranteedCapacityResource_def)

lemma NewPodInfo_legal:
  "pi_PodResourceTypeError (NewPodInfo cfg pd) = None \<Longrightarrow> guaranteed (NewPodInfo cfg pd) \<longleftrightarrow> \<not> best_effort (NewPodInfo cfg pd)"
  by (auto simp: NewPodInfo_def guaranteed_def best_effort_def GetPodResourceType_def GuaranteedPod_def BestEffortPod_def Let_def
      split: prod.splits if_splits)

lemma preempted_legal:
  assumes "\<forall>k p. A k = Some p \<longrightarrow> (\<exists>pd. p = NewPodInfo cfg pd)" and "A k = Some p" and "may_be_preempted p"
  shows "guaranteed p \<longleftrightarrow> \<not> best_effort p"
  using assms NewPodInfo_legal by (auto simp: may_be_preempted_def podFilters_def)

text \<open>A total over the keys is one over the pods.\<close>

lemma total_pods:
  assumes "\<forall>k p. A k = Some p \<longrightarrow> pi_PodKey p = k"
  shows "total A P f = (\<Sum>p \<in> {p. A (pi_PodKey p) = Some p \<and> P p}. f p)"
proof -
  have inj: "inj_on pi_PodKey {p. A (pi_PodKey p) = Some p \<and> P p}"
  proof (rule inj_onI)
    fix p q
    assume pq: "p \<in> {p. A (pi_PodKey p) = Some p \<and> P p}" "q \<in> {p. A (pi_PodKey p) = Some p \<and> P p}" "pi_PodKey p = pi_PodKey q"
    then have "A (pi_PodKey q) = Some p" "A (pi_PodKey q) = Some q" by simp_all
    then show "p = q" by simp
  qed
  have im: "{k. \<exists>p. A k = Some p \<and> P p} = pi_PodKey ` {p. A (pi_PodKey p) = Some p \<and> P p}"
    using assms by (auto simp: image_iff)
  show ?thesis unfolding total_def im by (simp add: sum.reindex [OF inj])
qed

text \<open>The pods charged to a resource type, and those of them that a request of a higher priority may displace.\<close>

definition of_type :: "string \<Rightarrow> PodInfo \<Rightarrow> bool" where
  "of_type ty p = (best_effort p \<longleftrightarrow> ty \<noteq> GuaranteedPod)"

definition displaceable :: "PodPartitionInfo \<Rightarrow> PodInfo \<Rightarrow> bool" where
  "displaceable b p = (may_be_preempted p \<and> pi_PodPriority p < pp_priorityUpper b)"

lemma requested_of_type:
  assumes "node_sums cfg n A"
  shows "requested_sums (if ty = GuaranteedPod then ni_GuaranteedRequested n else ni_BestEffortRequested n) A (of_type ty)"
  using assms by (simp add: node_sums_def of_type_def [abs_def])

lemma occupiable_amount:
  assumes fin: "finite (dom A)" and pods: "\<forall>k p. A k = Some p \<longrightarrow> (\<exists>pd. p = NewPodInfo cfg pd)"
    and keys: "\<forall>k p. A k = Some p \<longrightarrow> pi_PodKey p = k" and xs: "distinct xs"
    "\<forall>p. p \<in> set xs \<longleftrightarrow> A (pi_PodKey p) = Some p \<and> candidate (pp_resourceType b) p \<and> pi_PodPriority p < pp_priorityUpper b"
  shows "(\<Sum>p \<leftarrow> xs. f p) + (a - total A (of_type (pp_resourceType b)) f) =
    a - total A (\<lambda>p. of_type (pp_resourceType b) p \<and> \<not> displaceable b p) f"
proof -
  have set: "set xs = {p. A (pi_PodKey p) = Some p \<and> candidate (pp_resourceType b) p \<and> pi_PodPriority p < pp_priorityUpper b}"
    using xs(2) by blast
  have "(\<Sum>p \<leftarrow> xs. f p) = total A (\<lambda>p. candidate (pp_resourceType b) p \<and> pi_PodPriority p < pp_priorityUpper b) f"
    unfolding total_pods [OF keys] set [symmetric] using xs(1) by (simp add: sum_list_distinct_conv_sum_set)
  also have "\<dots> = total A (\<lambda>p. of_type (pp_resourceType b) p \<and> displaceable b p) f"
    using preempted_legal [OF pods] by (intro total_cong) (auto simp: candidate_def of_type_def displaceable_def)
  finally show ?thesis using total_split [OF fin, of "of_type (pp_resourceType b)" f "displaceable b"] by simp
qed

lemma GetOccupiableResources_ok:
  assumes ok: "node_ok cfg n A"
  shows "\<exists>n' r. GetOccupiableResources n b = Some (n', r) \<and> node_ok cfg n' A \<and>
    (let alloc = (if pp_resourceType b = GuaranteedPod then ni_GuaranteedAllocatable n else ni_BestEffortAllocatable n);
         kept = (\<lambda>p. of_type (pp_resourceType b) p \<and> \<not> displaceable b p)
     in r_MilliCPU r = r_MilliCPU alloc - total A kept (\<lambda>p. r_MilliCPU (pi_Res p)) \<and>
        r_Memory r = r_Memory alloc - total A kept (\<lambda>p. r_Memory (pi_Res p)))"
proof -
  have D: "finite (dom A)" "\<forall>k p. A k = Some p \<longrightarrow> (\<exists>pd. p = NewPodInfo cfg pd)" "maint_ok cfg (ni_PodInfoMaintainer n) A"
      "node_sums cfg n A" "offers_ok cfg n" using ok unfolding node_ok_def by blast+
  have keys: "\<forall>k p. A k = Some p \<longrightarrow> pi_PodKey p = k" using maint_okD(1) [OF D(3)] by blast
  obtain m' i xs where p: "GetMaintainableInfoByPartition (ni_PodInfoMaintainer n) b = Some (m', i)" "maint_ok cfg m' A" "distinct xs"
      "\<forall>p. p \<in> set xs \<longleftrightarrow> A (pi_PodKey p) = Some p \<and> candidate (pp_resourceType b) p \<and> pi_PodPriority p < pp_priorityUpper b"
      "pm_MilliCPU i = (\<Sum>p \<leftarrow> xs. r_MilliCPU (pi_Res p))" "pm_Memory i = (\<Sum>p \<leftarrow> xs. r_Memory (pi_Res p))"
    using GetMaintainableInfoByPartition_ok [OF D(3), of b] by blast
  note amount = occupiable_amount [OF D(1,2) keys p(3,4)]
  let ?alloc = "if pp_resourceType b = GuaranteedPod then ni_GuaranteedAllocatable n else ni_BestEffortAllocatable n"
  let ?req = "if pp_resourceType b = GuaranteedPod then ni_GuaranteedRequested n else ni_BestEffortRequested n"
  let ?r = "zero_Resource\<lparr>r_MilliCPU := pm_MilliCPU i + (r_MilliCPU ?alloc - r_MilliCPU ?req),
                           r_Memory := pm_Memory i + (r_Memory ?alloc - r_Memory ?req)\<rparr>"
  have run: "GetOccupiableResources n b = Some (n\<lparr>ni_PodInfoMaintainer := m'\<rparr>, ?r)"
    unfolding GetOccupiableResources_def p(1) by (simp add: Let_def)
  have q: "r_MilliCPU ?req = total A (of_type (pp_resourceType b)) (\<lambda>p. r_MilliCPU (pi_Res p))"
      "r_Memory ?req = total A (of_type (pp_resourceType b)) (\<lambda>p. r_Memory (pi_Res p))"
    using requested_of_type [OF D(4), of "pp_resourceType b"] unfolding requested_sums_def by blast+
  have "r_MilliCPU ?r = r_MilliCPU ?alloc - total A (\<lambda>p. of_type (pp_resourceType b) p \<and> \<not> displaceable b p) (\<lambda>p. r_MilliCPU (pi_Res p))"
    "r_Memory ?r = r_Memory ?alloc - total A (\<lambda>p. of_type (pp_resourceType b) p \<and> \<not> displaceable b p) (\<lambda>p. r_Memory (pi_Res p))"
    unfolding q p(5,6) by (simp_all add: amount)
  moreover have "node_ok cfg (n\<lparr>ni_PodInfoMaintainer := m'\<rparr>) A" unfolding node_ok_def using D(1,2,4,5) p(2) by simp
  ultimately show ?thesis using run unfolding Let_def by blast
qed

lemma NodeInfo_Clone_ok:
  assumes "node_ok cfg n A"
  shows "NodeInfo_Clone n = Some n"
proof -
  have "maintainer_Clone (ni_PodInfoMaintainer n) = Some (ni_PodInfoMaintainer n)"
    using assms maintainer_Clone_ok unfolding node_ok_def by blast
  moreover have "Resource_Clone r = r" for r by (simp add: Resource_Clone_def)
  moreover have "map (\<lambda>(ip, portMap). (ip, portMap)) ps = ps" for ps :: HostPortInfo by (induction ps) auto
  ultimately show ?thesis by (simp add: NodeInfo_Clone_def)
qed

lemma NumPods_card: "node_ok cfg n A \<Longrightarrow> NumPods n = int (card (dom A))"
  using maintainer_Len_card unfolding node_ok_def NumPods_def by blast

lemma NumPods_zero: "node_ok cfg n A \<Longrightarrow> NumPods n = 0 \<longleftrightarrow> A = Map.empty"
  using NumPods_card by (simp add: node_ok_def)

subsection \<open>Histories of a node\<close>

datatype node_op =
    NodeAdd v1pod | NodeRemove v1pod | NodeOccupiable PodPartitionInfo
  | NodeSet v1node | NodeSetNM nm_node | NodeSetCNR custom_node_resource
  | NodeUnset | NodeUnsetNM | NodeUnsetCNR

primrec node_step :: "res_cfg \<Rightarrow> node_op \<Rightarrow> NodeInfoImpl \<Rightarrow> NodeInfoImpl option" where
  "node_step cfg (NodeAdd pd) n = AddPod cfg n pd"
| "node_step cfg (NodeRemove pd) n = map_option fst (RemovePod cfg n pd)"
| "node_step cfg (NodeOccupiable b) n = map_option fst (GetOccupiableResources n b)"
| "node_step cfg (NodeSet x) n = Some (SetNode cfg n x)"
| "node_step cfg (NodeSetNM y) n = Some (SetNMNode cfg n y)"
| "node_step cfg (NodeSetCNR c) n = Some (SetCNR cfg n c)"
| "node_step cfg NodeUnset n = Some (RemoveNode cfg n)"
| "node_step cfg NodeUnsetNM n = Some (RemoveNMNode cfg n)"
| "node_step cfg NodeUnsetCNR n = Some (RemoveCNR n)"

primrec node_run :: "res_cfg \<Rightarrow> node_op list \<Rightarrow> NodeInfoImpl \<Rightarrow> NodeInfoImpl option" where
  "node_run cfg [] n = Some n"
| "node_run cfg (op # ops) n = do { n' \<leftarrow> node_step cfg op n; node_run cfg ops n' }"

text \<open>The pods of the node: a pod is added under a UID that is not there, a pod without UID is not removed.\<close>

definition pods_step :: "res_cfg \<Rightarrow> node_op \<Rightarrow> (key \<rightharpoonup> PodInfo) \<Rightarrow> (key \<rightharpoonup> PodInfo) option" where
  "pods_step cfg op A =
     (case op of
        NodeAdd pd \<Rightarrow> if A (pod_UID pd) \<noteq> None then None else Some (A(pod_UID pd \<mapsto> NewPodInfo cfg pd))
      | NodeRemove pd \<Rightarrow> Some (if pod_UID pd = [] then A else A(pod_UID pd := None))
      | _ \<Rightarrow> Some A)"

primrec pods_run :: "res_cfg \<Rightarrow> node_op list \<Rightarrow> (key \<rightharpoonup> PodInfo) \<Rightarrow> (key \<rightharpoonup> PodInfo) option" where
  "pods_run cfg [] A = Some A"
| "pods_run cfg (op # ops) A = do { A' \<leftarrow> pods_step cfg op A; pods_run cfg ops A' }"

lemma RemovePod_ok:
  assumes "node_ok cfg n A"
  shows "\<exists>n' e. RemovePod cfg n pd = Some (n', e) \<and> (e = None \<longleftrightarrow> pod_UID pd \<noteq> [] \<and> A (pod_UID pd) \<noteq> None) \<and>
    node_ok cfg n' (if pod_UID pd = [] then A else A(pod_UID pd := None))"
proof (cases "pod_UID pd = [] \<or> A (pod_UID pd) = None")
  case True
  moreover have "A (pod_UID pd) = None \<Longrightarrow> A(pod_UID pd := None) = A" by (simp add: fun_upd_idem)
  ultimately show ?thesis using RemovePod_absent [OF assms True] assms by auto
next
  case False
  then show ?thesis using RemovePod_present [OF assms] by auto
qed

lemma node_step_ok:
  assumes ok: "node_ok cfg n A" and st: "pods_step cfg op A = Some A'"
  shows "\<exists>n'. node_step cfg op n = Some n' \<and> node_ok cfg n' A'"
proof (cases op)
  case (NodeAdd pd)
  then show ?thesis using AddPod_ok [OF ok, of pd] st by (simp add: pods_step_def split: if_splits)
next
  case (NodeRemove pd)
  obtain n' e where "RemovePod cfg n pd = Some (n', e)" "node_ok cfg n' (if pod_UID pd = [] then A else A(pod_UID pd := None))"
    using RemovePod_ok [OF ok, of pd] by blast
  moreover have "A' = (if pod_UID pd = [] then A else A(pod_UID pd := None))" using st NodeRemove by (simp add: pods_step_def)
  ultimately show ?thesis using NodeRemove by simp
next
  case (NodeOccupiable b)
  obtain n' r where "GetOccupiableResources n b = Some (n', r)" "node_ok cfg n' A"
    using GetOccupiableResources_ok [OF ok, of b] by blast
  then show ?thesis using st NodeOccupiable by (simp add: pods_step_def)
qed (use set_node_ok [OF ok] st in \<open>simp_all add: pods_step_def\<close>)

lemma node_run_ok:
  "node_ok cfg n A \<Longrightarrow> pods_run cfg ops A = Some A' \<Longrightarrow> \<exists>n'. node_run cfg ops n = Some n' \<and> node_ok cfg n' A'"
proof (induction ops arbitrary: n A)
  case (Cons op ops)
  then obtain A1 where A1: "pods_step cfg op A = Some A1" "pods_run cfg ops A1 = Some A'" by (auto simp: bind_eq_Some_conv)
  obtain n1 where "node_step cfg op n = Some n1" "node_ok cfg n1 A1" using node_step_ok [OF Cons.prems(1) A1(1)] by blast
  then show ?case using Cons.IH [OF _ A1(2)] by simp
qed simp

text \<open>
  C40. A node accounts for its pods exactly: after any history of additions under new UIDs, removals, changes of the node objects
  and partitions, none of which panics, the guaranteed, best-effort, non-zero and reserved amounts are the sums, modulo \<open>2^64\<close>,
  over the pods on the node of the right kind; the amounts offered agree with the node objects that are set; a removal
  fails exactly for a pod without UID or one that is not there; and the occupiable CPU and memory are the allocatable
  ones less those of the pods of the type that cannot be displaced.
\<close>

theorem node_accounting:
  assumes "pods_run cfg ops Map.empty = Some A"
  shows "\<exists>n. node_run cfg ops empty_node = Some n \<and> node_sums cfg n A \<and> offers_ok cfg n \<and>
    (\<forall>pd. \<exists>n' e. RemovePod cfg n pd = Some (n', e) \<and> (e = None \<longleftrightarrow> pod_UID pd \<noteq> [] \<and> A (pod_UID pd) \<noteq> None)) \<and>
    (\<forall>b. \<exists>n' r. GetOccupiableResources n b = Some (n', r) \<and>
      (let alloc = (if pp_resourceType b = GuaranteedPod then ni_GuaranteedAllocatable n else ni_BestEffortAllocatable n);
           kept = (\<lambda>p. of_type (pp_resourceType b) p \<and> \<not> displaceable b p)
       in r_MilliCPU r = r_MilliCPU alloc - total A kept (\<lambda>p. r_MilliCPU (pi_Res p)) \<and>
          r_Memory r = r_Memory alloc - total A kept (\<lambda>p. r_Memory (pi_Res p))))"
proof -
  obtain n where n: "node_run cfg ops empty_node = Some n" "node_ok cfg n A"
    using node_run_ok [OF empty_node_ok assms] by blast
  then have "node_sums cfg n A" "offers_ok cfg n" unfolding node_ok_def by blast+
  moreover have "\<exists>n' e. RemovePod cfg n pd = Some (n', e) \<and> (e = None \<longleftrightarrow> pod_UID pd \<noteq> [] \<and> A (pod_UID pd) \<noteq> None)" for pd
    using RemovePod_ok [OF n(2), of pd] by blast
  moreover note GetOccupiableResources_ok [OF n(2)]
  ultimately show ?thesis using n(1) by blast
qed

definition node_example :: "node_op list" where
  "node_example =
     [NodeAdd (v1pod_example\<lparr>pod_UID := ''a''\<rparr>), NodeAdd (v1pod_example\<lparr>pod_UID := ''b''\<rparr>), NodeUnset,
      NodeRemove (v1pod_example\<lparr>pod_UID := ''a''\<rparr>), NodeRemove (v1pod_example\<lparr>pod_UID := ''c''\<rparr>)]"

theorem node_accounting_witness:
  "\<exists>n. node_run cfg_example node_example empty_node = Some n \<and>
       r_MilliCPU (ni_GuaranteedRequested n) = r_MilliCPU (pi_Res (NewPodInfo cfg_example (v1pod_example\<lparr>pod_UID := ''b''\<rparr>)))"
proof -
  let ?p = "NewPodInfo cfg_example (v1pod_example\<lparr>pod_UID := ''b''\<rparr>)"
  have run: "pods_run cfg_example node_example Map.empty = Some [''b'' \<mapsto> ?p]"
    by (simp add: node_example_def pods_step_def fun_upd_twist)
  have "\<not> best_effort ?p"
    by (simp add: best_effort_def NewPodInfo_def v1pod_example_def pod.truncate_def GetPodResourceType_def ann_has_def Let_def
        GuaranteedPod_def BestEffortPod_def split: prod.splits)
  then have "total [''b'' \<mapsto> ?p] (\<lambda>p. \<not> best_effort p) (\<lambda>p. r_MilliCPU (pi_Res p)) = r_MilliCPU (pi_Res ?p)"
    using total_add [of Map.empty "''b''" ?p "\<lambda>p. \<not> best_effort p" "\<lambda>p. r_MilliCPU (pi_Res p)"] by simp
  then show ?thesis
    using node_accounting [OF run] by (auto simp: node_sums_def requested_sums_def)
qed

end
