(* ===== verification/Pod_Store.thy ===== *)
theory Pod_Store
  imports Node_Info
begin

section \<open>The pod store (pkg/scheduler/cache/commonstores/pod_store)\<close>

text \<open>
  The pod store of the scheduler cache knows which pods the cache holds and which of them are only assumed: placed by
  this scheduler and not yet bound. An assumed pod becomes a confirmed one when the event of its binding
  arrives, is forgotten when the binding fails, and expires some time after the binding was reported finished.

  The state is \<open>PodStore\<close>; the code keeps pointers to pod states in a map and changes a state in place, the model stores
  the changed value. What the handler of the cache answers is \<open>cache_handler\<close>. The process exits where the
  node of a forgotten pod is not the one it was assumed on; that is \<open>None\<close>. A snapshot ignores assumed and
  forgotten pods.
\<close>

subsection \<open>State\<close>

record CachePodState =
  cps_Pod :: v1pod
  cps_Deadline :: "time option"
  cps_BindingFinished :: bool

record PodStore =
  pst_isSnapshot :: bool
  pst_AssumedPods :: "key \<rightharpoonup> bool"
  pst_PodStates :: "key \<rightharpoonup> CachePodState"

record cache_handler =
  ch_SchedulerType :: string
  ch_ComponentName :: string
  ch_PodAssumedTTL :: duration
  ch_unmarshal :: "string \<Rightarrow> string option"
  ch_res :: res_cfg

datatype cache_error =
    EmptyKey | AlreadyInCache key | AlreadyAdded key | NotInCache key | NotAssumed string string
  | NodeNotFound string | NodePodError node_error

definition ps_NewCache :: PodStore where
  "ps_NewCache = \<lparr>pst_isSnapshot = False, pst_AssumedPods = Map.empty, pst_PodStates = Map.empty\<rparr>"

definition ps_NewSnapshot :: PodStore where
  "ps_NewSnapshot = \<lparr>pst_isSnapshot = True, pst_AssumedPods = Map.empty, pst_PodStates = Map.empty\<rparr>"

text \<open>The pods the stores take: bound ones and those this scheduler has assumed.\<close>

definition assumedOrBoundPod :: "cache_handler \<Rightarrow> v1pod \<Rightarrow> bool" where
  "assumedOrBoundPod h pd = (BoundPod (pod.truncate pd) \<or> AssumedPodOfGodel (pod.truncate pd) (ch_SchedulerType h))"

definition node_of :: "cache_handler \<Rightarrow> v1pod \<Rightarrow> string" where
  "node_of h pd = GetNodeNameFromPod (ch_unmarshal h) (pod.truncate pd)"

subsection \<open>Operations\<close>

definition ps_podOp :: "PodStore \<Rightarrow> v1pod \<Rightarrow> bool \<Rightarrow> PodStore \<times> cache_error option" where
  "ps_podOp s pd isAdd =
     (case NodeInfo_GetPodKey pd of
        Inl _ \<Rightarrow> (s, Some EmptyKey)
      | Inr k \<Rightarrow>
          if isAdd then
            (if pst_PodStates s k \<noteq> None then (s, Some (AlreadyAdded k))
             else (s\<lparr>pst_PodStates := (pst_PodStates s)(k \<mapsto> \<lparr>cps_Pod = pd, cps_Deadline = None, cps_BindingFinished = False\<rparr>)\<rparr>, None))
          else
            (if pst_PodStates s k = None then (s, Some (NotInCache k))
             else (s\<lparr>pst_PodStates := (pst_PodStates s)(k := None), pst_AssumedPods := (pst_AssumedPods s)(k := None)\<rparr>, None)))"

definition ps_AddPod :: "cache_handler \<Rightarrow> PodStore \<Rightarrow> v1pod \<Rightarrow> PodStore \<times> cache_error option" where
  "ps_AddPod h s pd = (if \<not> assumedOrBoundPod h pd then (s, None) else ps_podOp s pd True)"

definition ps_DeletePod :: "cache_handler \<Rightarrow> PodStore \<Rightarrow> v1pod \<Rightarrow> PodStore \<times> cache_error option" where
  "ps_DeletePod h s pd = (if \<not> assumedOrBoundPod h pd then (s, None) else ps_podOp s pd False)"

text \<open>A missing key reads false in the map of assumed pods.\<close>

definition is_assumed :: "PodStore \<Rightarrow> key \<Rightarrow> bool" where
  "is_assumed s k = (case pst_AssumedPods s k of None \<Rightarrow> False | Some b \<Rightarrow> b)"

definition ps_GetPodState :: "PodStore \<Rightarrow> key \<Rightarrow> CachePodState option \<times> bool" where
  "ps_GetPodState s k =
     (case pst_PodStates s k of None \<Rightarrow> (None, False) | Some ps \<Rightarrow> (Some ps, is_assumed s k))"

definition ps_UpdatePod :: "cache_handler \<Rightarrow> PodStore \<Rightarrow> v1pod \<Rightarrow> v1pod \<Rightarrow> PodStore \<times> cache_error option" where
  "ps_UpdatePod h s oldPod newPod =
     (case NodeInfo_GetPodKey oldPod of
        Inl _ \<Rightarrow> (s, Some EmptyKey)
      | Inr k \<Rightarrow>
          (case fst (ps_GetPodState s k) of
             None \<Rightarrow> ps_AddPod h s newPod
           | Some ps \<Rightarrow>
               (case ps_DeletePod h s (cps_Pod ps) of
                  (s1, Some e) \<Rightarrow> (s1, Some e)
                | (s1, None) \<Rightarrow> ps_AddPod h s1 newPod)))"

definition ps_AssumePod :: "PodStore \<Rightarrow> v1pod \<Rightarrow> PodStore \<times> cache_error option" where
  "ps_AssumePod s pd =
     (if pst_isSnapshot s then (s, None)
      else
        (case NodeInfo_GetPodKey pd of
           Inl _ \<Rightarrow> (s, Some EmptyKey)
         | Inr k \<Rightarrow>
             if pst_PodStates s k \<noteq> None then (s, Some (AlreadyInCache k))
             else (s\<lparr>pst_PodStates := (pst_PodStates s)(k \<mapsto> \<lparr>cps_Pod = pd, cps_Deadline = None, cps_BindingFinished = False\<rparr>),
                     pst_AssumedPods := (pst_AssumedPods s)(k \<mapsto> True)\<rparr>, None)))"

definition ps_ForgetPod :: "cache_handler \<Rightarrow> PodStore \<Rightarrow> v1pod \<Rightarrow> (PodStore \<times> cache_error option) option" where
  "ps_ForgetPod h s pd =
     (if pst_isSnapshot s then Some (s, None)
      else
        (case NodeInfo_GetPodKey pd of
           Inl _ \<Rightarrow> Some (s, Some EmptyKey)
         | Inr k \<Rightarrow>
             (case pst_PodStates s k of
                None \<Rightarrow> Some (s, None)
              | Some currState \<Rightarrow>
                  if node_of h (cps_Pod currState) \<noteq> node_of h pd then None
                  else if is_assumed s k then
                    Some (s\<lparr>pst_AssumedPods := (pst_AssumedPods s)(k := None), pst_PodStates := (pst_PodStates s)(k := None)\<rparr>, None)
                  else Some (s, Some (NotAssumed (pod_Namespace pd) (pod_Name pd))))))"

definition IsAssumedPod :: "PodStore \<Rightarrow> v1pod \<Rightarrow> cache_error + bool" where
  "IsAssumedPod s pd = (case NodeInfo_GetPodKey pd of Inl _ \<Rightarrow> Inl EmptyKey | Inr k \<Rightarrow> Inr (is_assumed s k))"

definition IsCachedPod :: "PodStore \<Rightarrow> v1pod \<Rightarrow> cache_error + bool" where
  "IsCachedPod s pd = (case NodeInfo_GetPodKey pd of Inl _ \<Rightarrow> Inl EmptyKey | Inr k \<Rightarrow> Inr (pst_PodStates s k \<noteq> None))"

definition ps_GetPod :: "PodStore \<Rightarrow> v1pod \<Rightarrow> cache_error + v1pod" where
  "ps_GetPod s pd =
     (case NodeInfo_GetPodKey pd of
        Inl _ \<Rightarrow> Inl EmptyKey
      | Inr k \<Rightarrow> (case pst_PodStates s k of None \<Rightarrow> Inl (NotInCache k) | Some ps \<Rightarrow> Inr (cps_Pod ps)))"

definition ps_FinishReserving :: "cache_handler \<Rightarrow> PodStore \<Rightarrow> v1pod \<Rightarrow> time \<Rightarrow> PodStore \<times> cache_error option" where
  "ps_FinishReserving h s pd now =
     (case NodeInfo_GetPodKey pd of
        Inl _ \<Rightarrow> (s, Some EmptyKey)
      | Inr k \<Rightarrow>
          (case pst_PodStates s k of
             Some currState \<Rightarrow>
               if is_assumed s k then
                 (s\<lparr>pst_PodStates := (pst_PodStates s)
                      (k \<mapsto> currState\<lparr>cps_BindingFinished := True, cps_Deadline := Some (now + ch_PodAssumedTTL h)\<rparr>)\<rparr>, None)
               else (s, None)
           | None \<Rightarrow> (s, None)))"

text \<open>Whether \<^verbatim>\<open>CleanupExpiredAssumedPods\<close> expires the pod of a key: the process exits where the state is missing and
  panics where a finished binding has no deadline.\<close>

definition expired :: "PodStore \<Rightarrow> time \<Rightarrow> key \<Rightarrow> v1pod option option" where
  "expired s now k =
     (case pst_PodStates s k of
        None \<Rightarrow> None
      | Some ps \<Rightarrow>
          if \<not> cps_BindingFinished ps then Some None
          else (case cps_Deadline ps of None \<Rightarrow> None | Some dl \<Rightarrow> Some (if now > dl then Some (cps_Pod ps) else None)))"

subsection \<open>The invariant\<close>

text \<open>Every state is that of a pod the stores take, under its UID; assumed pods are in the cache; a finished
  binding has a deadline and is that of an assumed pod.\<close>

definition ps_ok :: "cache_handler \<Rightarrow> PodStore \<Rightarrow> bool" where
  "ps_ok h s =
     (\<not> pst_isSnapshot s \<and> finite (dom (pst_PodStates s)) \<and>
      (\<forall>k ps. pst_PodStates s k = Some ps \<longrightarrow>
         k \<noteq> [] \<and> pod_UID (cps_Pod ps) = k \<and> assumedOrBoundPod h (cps_Pod ps) \<and>
         (cps_BindingFinished ps \<longrightarrow> cps_Deadline ps \<noteq> None)) \<and>
      (\<forall>k b. pst_AssumedPods s k = Some b \<longrightarrow> b \<and> pst_PodStates s k \<noteq> None))"

text \<open>The pods of the cache.\<close>

definition cached :: "PodStore \<Rightarrow> key \<rightharpoonup> v1pod" where
  "cached s k = map_option cps_Pod (pst_PodStates s k)"

lemma ps_NewCache_ok: "ps_ok h ps_NewCache" "cached ps_NewCache = Map.empty"
  by (simp_all add: ps_ok_def ps_NewCache_def cached_def fun_eq_iff)

lemma ps_okD:
  assumes "ps_ok h s"
  shows "\<not> pst_isSnapshot s" "finite (dom (pst_PodStates s))"
    "\<And>k ps. pst_PodStates s k = Some ps \<Longrightarrow> k \<noteq> [] \<and> pod_UID (cps_Pod ps) = k \<and> assumedOrBoundPod h (cps_Pod ps) \<and>
       (cps_BindingFinished ps \<longrightarrow> cps_Deadline ps \<noteq> None)"
    "\<And>k b. pst_AssumedPods s k = Some b \<Longrightarrow> b \<and> pst_PodStates s k \<noteq> None"
  using assms unfolding ps_ok_def by blast+

lemma cached_pod:
  assumes "ps_ok h s" "cached s k = Some pd"
  shows "k \<noteq> [] \<and> pod_UID pd = k \<and> assumedOrBoundPod h pd"
  using assms ps_okD(3) [OF assms(1), of k] by (auto simp: cached_def)

lemma finite_cached: "ps_ok h s \<Longrightarrow> finite (dom (cached s))"
  using ps_okD(2) by (fastforce simp: cached_def dom_def)

text \<open>Adding a pod the stores take, under a UID the cache does not hold.\<close>

lemma ps_put_ok:
  assumes ok: "ps_ok h s" and new: "cached s (pod_UID pd) = None" and u: "pod_UID pd \<noteq> []" and m: "assumedOrBoundPod h pd"
  shows "ps_ok h (s\<lparr>pst_PodStates := (pst_PodStates s)(pod_UID pd \<mapsto> \<lparr>cps_Pod = pd, cps_Deadline = None, cps_BindingFinished = False\<rparr>)\<rparr>)"
    "ps_ok h (s\<lparr>pst_PodStates := (pst_PodStates s)(pod_UID pd \<mapsto> \<lparr>cps_Pod = pd, cps_Deadline = None, cps_BindingFinished = False\<rparr>),
                pst_AssumedPods := (pst_AssumedPods s)(pod_UID pd \<mapsto> True)\<rparr>)"
  using ps_okD [OF ok] u m unfolding ps_ok_def by (auto split: if_splits)

lemma ps_drop_ok:
  assumes ok: "ps_ok h s"
  shows "ps_ok h (s\<lparr>pst_PodStates := (pst_PodStates s)(k := None), pst_AssumedPods := (pst_AssumedPods s)(k := None)\<rparr>)"
    "ps_ok h (s\<lparr>pst_AssumedPods := (pst_AssumedPods s)(k := None), pst_PodStates := (pst_PodStates s)(k := None)\<rparr>)"
  using ps_okD [OF ok] unfolding ps_ok_def by (auto split: if_splits)

lemma ps_AddPod_ok:
  assumes ok: "ps_ok h s" and u: "pod_UID pd \<noteq> []" and new: "cached s (pod_UID pd) = None"
  shows "\<exists>s'. ps_AddPod h s pd = (s', None) \<and> ps_ok h s' \<and>
    cached s' = (if assumedOrBoundPod h pd then (cached s)(pod_UID pd \<mapsto> pd) else cached s)"
proof (cases "assumedOrBoundPod h pd")
  case True
  then show ?thesis
    using ps_put_ok(1) [OF ok new u True] new u
    by (auto simp: ps_AddPod_def ps_podOp_def NodeInfo_GetPodKey_def cached_def fun_eq_iff)
next
  case False
  then show ?thesis using ok by (simp add: ps_AddPod_def)
qed

lemma ps_DeletePod_present:
  assumes ok: "ps_ok h s" and p: "cached s (pod_UID pd) = Some q" and m: "assumedOrBoundPod h pd"
  shows "\<exists>s'. ps_DeletePod h s pd = (s', None) \<and> ps_ok h s' \<and> cached s' = (cached s)(pod_UID pd := None)"
proof -
  have "pod_UID pd \<noteq> []" using cached_pod [OF ok p] by simp
  then show ?thesis
    using ps_drop_ok(1) [OF ok, of "pod_UID pd"] p m
    by (auto simp: ps_DeletePod_def ps_podOp_def NodeInfo_GetPodKey_def cached_def fun_eq_iff)
qed

lemma ps_DeletePod_absent:
  assumes "cached s (pod_UID pd) = None"
  shows "fst (ps_DeletePod h s pd) = s"
  using assms by (simp add: ps_DeletePod_def ps_podOp_def NodeInfo_GetPodKey_def cached_def)

lemma ps_AssumePod_ok:
  assumes ok: "ps_ok h s" and u: "pod_UID pd \<noteq> []" and new: "cached s (pod_UID pd) = None" and m: "assumedOrBoundPod h pd"
  shows "\<exists>s'. ps_AssumePod s pd = (s', None) \<and> ps_ok h s' \<and> cached s' = (cached s)(pod_UID pd \<mapsto> pd) \<and> is_assumed s' (pod_UID pd)"
  using ps_put_ok(2) [OF ok new u m] new u ps_okD(1) [OF ok]
  by (auto simp: ps_AssumePod_def NodeInfo_GetPodKey_def cached_def fun_eq_iff is_assumed_def)

lemma ps_ForgetPod_ok:
  assumes ok: "ps_ok h s" and a: "is_assumed s (pod_UID pd)" and p: "cached s (pod_UID pd) = Some q" and n: "node_of h q = node_of h pd"
  shows "\<exists>s'. ps_ForgetPod h s pd = Some (s', None) \<and> ps_ok h s' \<and> cached s' = (cached s)(pod_UID pd := None)"
proof -
  have "pod_UID pd \<noteq> []" using cached_pod [OF ok p] by simp
  then show ?thesis
    using ps_drop_ok(2) [OF ok, of "pod_UID pd"] p a n ps_okD(1) [OF ok]
    by (auto simp: ps_ForgetPod_def NodeInfo_GetPodKey_def cached_def fun_eq_iff)
qed

lemma ps_FinishReserving_ok:
  assumes ok: "ps_ok h s"
  shows "ps_ok h (fst (ps_FinishReserving h s pd now))" "cached (fst (ps_FinishReserving h s pd now)) = cached s"
proof -
  show "ps_ok h (fst (ps_FinishReserving h s pd now))"
    using ps_okD [OF ok] unfolding ps_ok_def
    by (auto simp: ps_FinishReserving_def NodeInfo_GetPodKey_def split: option.splits if_splits)
  show "cached (fst (ps_FinishReserving h s pd now)) = cached s"
    by (auto simp: ps_FinishReserving_def cached_def fun_eq_iff NodeInfo_GetPodKey_def split: sum.splits option.splits)
qed

lemma is_assumed_cached: "ps_ok h s \<Longrightarrow> is_assumed s k \<Longrightarrow> cached s k \<noteq> None"
  using ps_okD(4) [of h s k] by (auto simp: is_assumed_def cached_def split: option.splits)

end
