(* ===== verification/Node_Store.thy ===== *)
theory Node_Store
  imports Pod_Store Pod_Group_Store
begin

section \<open>The node store (pkg/scheduler/cache/commonstores/node_store)\<close>

text \<open>
  The node store holds a \<^verbatim>\<open>NodeInfo\<close> for every node the cache knows of: nodes whose object has arrived, and nodes known only
  by pods or by a custom resource, because the object is late or gone. The latter are in the set
  \<^verbatim>\<open>Deleted\<close> and are not meant for scheduling.

  The store is a generation store. The code gets a pointer from it, changes the node in place and sets it again, or sets it first
  and changes it afterwards; the model sets the changed value once, which leaves the same store. The callbacks
  \<^verbatim>\<open>AfterAdd\<close> and \<^verbatim>\<open>AfterDelete\<close>, which feed metrics and the node lists of the snapshot, and the image states are left
  out. \<^verbatim>\<open>AssignMicroTopology\<close> returns nil for every pod and is left out too.
\<close>

subsection \<open>State\<close>

record NodeStore =
  ns_isSnapshot :: bool
  ns_Store :: "NodeInfoImpl generation_store"
  ns_Deleted :: "key set"

type_synonym ns_result = "(NodeStore \<times> cache_error option) option"

definition ns_NewCache :: NodeStore where
  "ns_NewCache = \<lparr>ns_isSnapshot = False, ns_Store = ListS NewListStore, ns_Deleted = {}\<rparr>"

definition ns_NewSnapshot :: NodeStore where
  "ns_NewSnapshot = \<lparr>ns_isSnapshot = True, ns_Store = RawS NewRawStore, ns_Deleted = {}\<rparr>"

definition GodelSchedulerNodeAnnotationKey :: string where
  "GodelSchedulerNodeAnnotationKey = ''godel.bytedance.com/scheduler-name''"

definition NodeOfThisScheduler :: "(string \<rightharpoonup> string) \<Rightarrow> string \<Rightarrow> bool" where
  "NodeOfThisScheduler annotations schedulerName =
     (case annotations GodelSchedulerNodeAnnotationKey of None \<Rightarrow> False | Some name \<Rightarrow> name = schedulerName)"

subsection \<open>Access\<close>

definition ns_Get :: "NodeStore \<Rightarrow> string \<Rightarrow> NodeInfoImpl option" where
  "ns_Get s nodeName = map_option so_obj (store_Get (ns_Store s) nodeName)"

text \<open>\<^verbatim>\<open>Set\<close>, and \<^verbatim>\<open>Add\<close> and \<^verbatim>\<open>Delete\<close> without their callbacks. A stored node is stamped by the store.\<close>

definition ns_Set :: "NodeStore \<Rightarrow> string \<Rightarrow> NodeInfoImpl \<Rightarrow> NodeStore option" where
  "ns_Set s nodeName n =
     do { st \<leftarrow> store_Set (ns_Store s) nodeName \<lparr>so_generation = 0, so_obj = n\<rparr>; Some (s\<lparr>ns_Store := st\<rparr>) }"

definition ns_Delete :: "NodeStore \<Rightarrow> string \<Rightarrow> NodeStore option" where
  "ns_Delete s nodeName = do { st \<leftarrow> store_Delete (ns_Store s) nodeName; Some (s\<lparr>ns_Store := st\<rparr>) }"

definition GetNodeInfo :: "NodeStore \<Rightarrow> string \<Rightarrow> NodeInfoImpl option" where
  "GetNodeInfo s nodeName = ns_Get s nodeName"

definition NodeInThisPartition :: "NodeStore \<Rightarrow> string \<Rightarrow> bool" where
  "NodeInThisPartition s nodeName =
     (case ns_Get s nodeName of
        None \<Rightarrow> False
      | Some n \<Rightarrow> ni_NodeInSchedulerPartition n \<or> ni_NMNodeInSchedulerPartition n)"

subsection \<open>Node events\<close>

text \<open>The first part of \<^verbatim>\<open>AddNode\<close> and its kin: a known node is taken out of the store and of \<^verbatim>\<open>Deleted\<close>.\<close>

definition take_node :: "NodeStore \<Rightarrow> string \<Rightarrow> (NodeStore \<times> NodeInfoImpl) option" where
  "take_node s nodeName =
     (case ns_Get s nodeName of
        Some n \<Rightarrow> do { s1 \<leftarrow> ns_Delete (s\<lparr>ns_Deleted := ns_Deleted s - {nodeName}\<rparr>) nodeName; Some (s1, n) }
      | None \<Rightarrow> Some (s, empty_node))"

definition ns_AddNode :: "cache_handler \<Rightarrow> NodeStore \<Rightarrow> v1node \<Rightarrow> ns_result" where
  "ns_AddNode h s nd =
     do { (s1, n) \<leftarrow> take_node s (node_Name nd);
          s2 \<leftarrow> ns_Set s1 (node_Name nd)
                  (SetNode (ch_res h) (n\<lparr>ni_NodeInSchedulerPartition := NodeOfThisScheduler (node_Annotations nd) (ch_ComponentName h)\<rparr>) nd);
          Some (s2, None) }"

definition ns_UpdateNode :: "cache_handler \<Rightarrow> NodeStore \<Rightarrow> v1node \<Rightarrow> v1node \<Rightarrow> ns_result" where
  "ns_UpdateNode h s oldNode newNd =
     do { (s1, n) \<leftarrow> take_node s (node_Name newNd);
          s2 \<leftarrow> ns_Set s1 (node_Name newNd)
                  (SetNode (ch_res h) (n\<lparr>ni_NodeInSchedulerPartition := NodeOfThisScheduler (node_Annotations newNd) (ch_ComponentName h)\<rparr>) newNd);
          Some (s2, None) }"

definition ns_AddNMNode :: "cache_handler \<Rightarrow> NodeStore \<Rightarrow> nm_node \<Rightarrow> ns_result" where
  "ns_AddNMNode h s nm =
     do { (s1, n) \<leftarrow> take_node s (nm_Name nm);
          s2 \<leftarrow> ns_Set s1 (nm_Name nm)
                  (SetNMNode (ch_res h) (n\<lparr>ni_NMNodeInSchedulerPartition := NodeOfThisScheduler (nm_Annotations nm) (ch_ComponentName h)\<rparr>) nm);
          Some (s2, None) }"

definition ns_UpdateNMNode :: "cache_handler \<Rightarrow> NodeStore \<Rightarrow> nm_node \<Rightarrow> nm_node \<Rightarrow> ns_result" where
  "ns_UpdateNMNode h s oldNMNode newNMNode =
     do { (s1, n) \<leftarrow> take_node s (nm_Name newNMNode);
          s2 \<leftarrow> ns_Set s1 (nm_Name newNMNode)
                  (SetNMNode (ch_res h) (n\<lparr>ni_NMNodeInSchedulerPartition := NodeOfThisScheduler (nm_Annotations newNMNode) (ch_ComponentName h)\<rparr>) newNMNode);
          Some (s2, None) }"

definition ns_AddCNR :: "cache_handler \<Rightarrow> NodeStore \<Rightarrow> custom_node_resource \<Rightarrow> ns_result" where
  "ns_AddCNR h s c =
     do { let n = (case ns_Get s (cnode_Name c) of Some n \<Rightarrow> n | None \<Rightarrow> empty_node);
          s1 \<leftarrow> ns_Set s (cnode_Name c) (SetCNR (ch_res h) n c);
          Some (s1, None) }"

definition ns_UpdateCNR :: "cache_handler \<Rightarrow> NodeStore \<Rightarrow> custom_node_resource \<Rightarrow> custom_node_resource \<Rightarrow> ns_result" where
  "ns_UpdateCNR h s oldCNR newCNR =
     do { let n = (case ns_Get s (cnode_Name newCNR) of Some n \<Rightarrow> n | None \<Rightarrow> empty_node);
          s1 \<leftarrow> ns_Set s (cnode_Name newCNR) (SetCNR (ch_res h) n newCNR);
          Some (s1, None) }"

definition ns_DeleteNode :: "cache_handler \<Rightarrow> NodeStore \<Rightarrow> v1node \<Rightarrow> ns_result" where
  "ns_DeleteNode h s nd =
     (case ns_Get s (node_Name nd) of
        None \<Rightarrow> Some (s, Some (NodeNotFound (node_Name nd)))
      | Some n0 \<Rightarrow>
          do { s1 \<leftarrow> ns_Delete s (node_Name nd);
               let n = RemoveNode (ch_res h) n0;
               s2 \<leftarrow> (if ni_NMNode n \<noteq> None then ns_Set s1 (node_Name nd) n
                      else if NumPods n \<noteq> 0 \<or> ni_CNR n \<noteq> None
                      then ns_Set (s1\<lparr>ns_Deleted := insert (node_Name nd) (ns_Deleted s1)\<rparr>) (node_Name nd) n
                      else Some s1);
               Some (s2, None) })"

definition ns_DeleteNMNode :: "cache_handler \<Rightarrow> NodeStore \<Rightarrow> nm_node \<Rightarrow> ns_result" where
  "ns_DeleteNMNode h s nm =
     (case ns_Get s (nm_Name nm) of
        None \<Rightarrow> Some (s, Some (NodeNotFound (nm_Name nm)))
      | Some n0 \<Rightarrow>
          do { s1 \<leftarrow> ns_Delete s (nm_Name nm);
               let n = RemoveNMNode (ch_res h) n0;
               s2 \<leftarrow> (if ni_Node n \<noteq> None then ns_Set s1 (nm_Name nm) n
                      else if NumPods n \<noteq> 0 \<or> ni_CNR n \<noteq> None
                      then ns_Set (s1\<lparr>ns_Deleted := insert (nm_Name nm) (ns_Deleted s1)\<rparr>) (nm_Name nm) n
                      else Some s1);
               Some (s2, None) })"

text \<open>The end of \<^verbatim>\<open>DeleteCNR\<close>, \<^verbatim>\<open>DeletePod\<close> and \<^verbatim>\<open>ForgetPod\<close>: a node without pods and objects goes, another one is stored.\<close>

definition put_back :: "NodeStore \<Rightarrow> string \<Rightarrow> NodeInfoImpl \<Rightarrow> NodeStore option" where
  "put_back s nodeName n =
     (if NumPods n = 0 \<and> ObjectIsNil n then ns_Delete (s\<lparr>ns_Deleted := ns_Deleted s - {nodeName}\<rparr>) nodeName
      else ns_Set s nodeName n)"

definition ns_DeleteCNR :: "NodeStore \<Rightarrow> custom_node_resource \<Rightarrow> ns_result" where
  "ns_DeleteCNR s c =
     (case ns_Get s (cnode_Name c) of
        None \<Rightarrow> Some (s, Some (NodeNotFound (cnode_Name c)))
      | Some n \<Rightarrow> do { s1 \<leftarrow> put_back s (cnode_Name c) (RemoveCNR n); Some (s1, None) })"

definition ns_SetPartition :: "NodeStore \<Rightarrow> string \<Rightarrow> bool \<Rightarrow> ns_result" where
  "ns_SetPartition s nodeName flag =
     (case ns_Get s nodeName of
        None \<Rightarrow> Some (s, Some (NodeNotFound nodeName))
      | Some n \<Rightarrow>
          do { s1 \<leftarrow> ns_Delete s nodeName; s2 \<leftarrow> ns_Set s1 nodeName (SetNodePartition n flag); Some (s2, None) })"

subsection \<open>Pod events\<close>

text \<open>\<^verbatim>\<open>getOrCreateNode\<close> and the addition of the pod to the node it returns.\<close>

definition add_pod_to_node :: "cache_handler \<Rightarrow> NodeStore \<Rightarrow> string \<Rightarrow> v1pod \<Rightarrow> (NodeStore \<times> NodeInfoImpl) option" where
  "add_pod_to_node h s nodeName pd =
     (case ns_Get s nodeName of
        Some n \<Rightarrow> do { n1 \<leftarrow> AddPod (ch_res h) n pd; Some (s, n1) }
      | None \<Rightarrow>
          do { n1 \<leftarrow> AddPod (ch_res h) empty_node pd; Some (s\<lparr>ns_Deleted := insert nodeName (ns_Deleted s)\<rparr>, n1) })"

definition ns_AddPod :: "cache_handler \<Rightarrow> NodeStore \<Rightarrow> v1pod \<Rightarrow> ns_result" where
  "ns_AddPod h s pd =
     (if \<not> assumedOrBoundPod h pd then Some (s, None)
      else if node_of h pd = [] then Some (s, None)
      else
        do { (s1, n) \<leftarrow> add_pod_to_node h s (node_of h pd) pd;
             s2 \<leftarrow> ns_Set s1 (node_of h pd) n;
             Some (s2, None) })"

definition ns_DeletePod :: "cache_handler \<Rightarrow> NodeStore \<Rightarrow> v1pod \<Rightarrow> ns_result" where
  "ns_DeletePod h s pd =
     (if \<not> assumedOrBoundPod h pd then Some (s, None)
      else if node_of h pd = [] then Some (s, None)
      else
        (case ns_Get s (node_of h pd) of
           None \<Rightarrow> Some (s, None)
         | Some n \<Rightarrow>
             do { (n1, err) \<leftarrow> RemovePod (ch_res h) n pd;
                  (case err of
                     Some e \<Rightarrow> Some (s, Some (NodePodError e))
                   | None \<Rightarrow> do { s1 \<leftarrow> put_back s (node_of h pd) n1; Some (s1, None) }) }))"

text \<open>\<open>podState\<close> is \<^verbatim>\<open>GetPodState\<close> of the handler.\<close>

definition ns_UpdatePod ::
  "cache_handler \<Rightarrow> (key \<Rightarrow> CachePodState option \<times> bool) \<Rightarrow> NodeStore \<Rightarrow> v1pod \<Rightarrow> v1pod \<Rightarrow> ns_result" where
  "ns_UpdatePod h podState s oldPod newPod =
     (case NodeInfo_GetPodKey oldPod of
        Inl _ \<Rightarrow> Some (s, Some EmptyKey)
      | Inr k \<Rightarrow>
          (case fst (podState k) of
             None \<Rightarrow> ns_AddPod h s newPod
           | Some ps \<Rightarrow>
               do { (s1, err) \<leftarrow> ns_DeletePod h s (cps_Pod ps);
                    (case err of Some e \<Rightarrow> Some (s1, Some e) | None \<Rightarrow> ns_AddPod h s1 newPod) }))"

text \<open>The victims of a preemption, removed from and added to the node of a snapshot; a failed removal is only logged.\<close>

primrec remove_victims :: "res_cfg \<Rightarrow> v1pod list \<Rightarrow> NodeInfoImpl \<Rightarrow> NodeInfoImpl option" where
  "remove_victims cfg [] n = Some n"
| "remove_victims cfg (v # vs) n = do { (n1, _) \<leftarrow> RemovePod cfg n v; remove_victims cfg vs n1 }"

definition ns_AssumePod :: "cache_handler \<Rightarrow> NodeStore \<Rightarrow> v1pod \<Rightarrow> v1pod list \<Rightarrow> ns_result" where
  "ns_AssumePod h s pd victims =
     (if node_of h pd = [] then Some (s, None)
      else
        do { (s1, n) \<leftarrow> add_pod_to_node h s (node_of h pd) pd;
             n1 \<leftarrow> (if ns_isSnapshot s then remove_victims (ch_res h) victims n else Some n);
             s2 \<leftarrow> ns_Set s1 (node_of h pd) n1;
             Some (s2, None) })"

definition ns_ForgetPod :: "cache_handler \<Rightarrow> NodeStore \<Rightarrow> v1pod \<Rightarrow> v1pod list \<Rightarrow> ns_result" where
  "ns_ForgetPod h s pd victims =
     (if node_of h pd = [] then Some (s, None)
      else
        (case ns_Get s (node_of h pd) of
           None \<Rightarrow> Some (s, None)
         | Some n \<Rightarrow>
             do { (n1, err) \<leftarrow> RemovePod (ch_res h) n pd;
                  (case err of
                     Some e \<Rightarrow> Some (s, Some (NodePodError e))
                   | None \<Rightarrow>
                       do { n2 \<leftarrow> (if ns_isSnapshot s then add_pods (ch_res h) victims n1 else Some n1);
                            s1 \<leftarrow> put_back s (node_of h pd) n2;
                            Some (s1, None) }) }))"


subsection \<open>The store as a map of nodes\<close>

text \<open>The node store of the cache is a list store; each change of a node takes a generation. \<open>R\<close> is the copy function and the
  raw store of a snapshot that was updated from it at some time: what the store does since keeps the two comparable.\<close>

definition ns_gen :: "NodeStore \<Rightarrow> int" where
  "ns_gen s = (case ns_Store s of ListS ls \<Rightarrow> ls_generation ls | RawS _ \<Rightarrow> 0)"

type_synonym snap = "(NodeInfoImpl StoredObj \<Rightarrow> NodeInfoImpl StoredObj) \<times> NodeInfoImpl RawStoreImpl"

definition ns_inv :: "snap \<Rightarrow> NodeStore \<Rightarrow> bool" where
  "ns_inv R s =
     (\<not> ns_isSnapshot s \<and> (case ns_Store s of ListS ls \<Rightarrow> ls_inv ls \<and> in_sync (fst R) ls (snd R) | RawS _ \<Rightarrow> False))"

definition ns_room :: "NodeStore \<Rightarrow> int \<Rightarrow> bool" where
  "ns_room s m = (ns_gen s + m < 2 ^ 63)"

lemma ns_Deleted_simps [simp]:
  "ns_inv R (s\<lparr>ns_Deleted := d\<rparr>) = ns_inv R s" "ns_gen (s\<lparr>ns_Deleted := d\<rparr>) = ns_gen s"
  "ns_Get (s\<lparr>ns_Deleted := d\<rparr>) = ns_Get s" "ns_room (s\<lparr>ns_Deleted := d\<rparr>) m = ns_room s m"
  by (simp_all add: ns_inv_def ns_gen_def ns_Get_def ns_room_def fun_eq_iff)

lemma ns_NewCache_inv: "ns_inv (cl, NewRawStore) ns_NewCache" "ns_gen ns_NewCache = 0" "ns_Get ns_NewCache = Map.empty"
proof -
  have "in_sync cl (NewListStore :: NodeInfoImpl ListStoreImpl) NewRawStore"
    by (simp add: in_sync_def NewRawStore_def) (simp add: NewListStore_def)
  then show "ns_inv (cl, NewRawStore) ns_NewCache" by (simp add: ns_inv_def ns_NewCache_def)
  show "ns_gen ns_NewCache = 0" by (simp add: ns_gen_def ns_NewCache_def NewListStore_def)
  show "ns_Get ns_NewCache = Map.empty" by (simp add: ns_NewCache_def ns_Get_def fun_eq_iff)
qed

lemma ns_Set_ok:
  assumes "ns_inv R s" "ns_room s 1"
  shows "\<exists>s'. ns_Set s N n = Some s' \<and> ns_inv R s' \<and> ns_gen s' = ns_gen s + 1 \<and> ns_Get s' = (ns_Get s)(N \<mapsto> n)"
proof -
  obtain ls where ls: "ns_Store s = ListS ls" "ls_inv ls" "\<not> ns_isSnapshot s" and sync: "in_sync (fst R) ls (snd R)"
    using assms(1) by (auto simp: ns_inv_def split: generation_store.splits)
  then have "ls_room ls" using assms(2) by (simp add: ns_room_def ns_gen_def ls_room_def)
  from ls_Set [OF ls(2) this, of N "\<lparr>so_generation = 0, so_obj = n\<rparr>"] obtain ls' where
    l: "ListStore_Set ls N \<lparr>so_generation = 0, so_obj = n\<rparr> = Some ls'" "ls_inv ls'" "ls_generation ls' = ls_generation ls + 1"
    "ListStore_Get ls' = (ListStore_Get ls)(N \<mapsto> \<lparr>so_generation = ls_generation ls + 1, so_obj = n\<rparr>)"
    by auto
  have "in_sync (fst R) ls' (snd R)"
    by (rule in_sync_cache_set [OF sync, of ls' N "\<lparr>so_generation = 0, so_obj = n\<rparr>"]) (use l in simp_all)
  then show ?thesis
    using ls l by (intro exI [of _ "s\<lparr>ns_Store := ListS ls'\<rparr>"]) (auto simp: ns_Set_def ns_inv_def ns_gen_def ns_Get_def fun_eq_iff)
qed

lemma ns_Delete_ok:
  assumes "ns_inv R s"
  shows "\<exists>s'. ns_Delete s N = Some s' \<and> ns_inv R s' \<and> ns_gen s' = ns_gen s \<and> ns_Get s' = (ns_Get s)(N := None)"
proof -
  obtain ls where ls: "ns_Store s = ListS ls" "ls_inv ls" "\<not> ns_isSnapshot s" and sync: "in_sync (fst R) ls (snd R)"
    using assms(1) by (auto simp: ns_inv_def split: generation_store.splits)
  from ls_Delete [OF ls(2), of N] obtain ls' where
    l: "ListStore_Delete ls N = Some ls'" "ls_inv ls'" "ls_generation ls' = ls_generation ls"
    "ListStore_Get ls' = (ListStore_Get ls)(N := None)"
    by auto
  have "in_sync (fst R) ls' (snd R)" using sync l(3,4) by (auto simp: in_sync_def split: if_splits)
  then show ?thesis
    using ls l by (intro exI [of _ "s\<lparr>ns_Store := ListS ls'\<rparr>"]) (auto simp: ns_Delete_def ns_inv_def ns_gen_def ns_Get_def fun_eq_iff)
qed

lemma ns_room_le: "ns_room s m \<Longrightarrow> k \<le> m \<Longrightarrow> ns_room s k"
  by (simp add: ns_room_def)

subsection \<open>The nodes account for the pods\<close>

text \<open>The pods of a map on a node, as the node keeps them; no node has the empty name.\<close>

definition pods_on :: "cache_handler \<Rightarrow> (key \<rightharpoonup> v1pod) \<Rightarrow> string \<Rightarrow> key \<rightharpoonup> PodInfo" where
  "pods_on h P N k =
     (case P k of
        None \<Rightarrow> None
      | Some pd \<Rightarrow> if node_of h pd = N \<and> N \<noteq> [] then Some (NewPodInfo (ch_res h) pd) else None)"

definition node_at :: "cache_handler \<Rightarrow> (key \<rightharpoonup> v1pod) \<Rightarrow> string \<Rightarrow> NodeInfoImpl option \<Rightarrow> bool" where
  "node_at h P N x =
     (case x of None \<Rightarrow> pods_on h P N = Map.empty | Some n \<Rightarrow> node_ok (ch_res h) n (pods_on h P N))"

definition nodes_ok :: "cache_handler \<Rightarrow> snap \<Rightarrow> NodeStore \<Rightarrow> (key \<rightharpoonup> v1pod) \<Rightarrow> bool" where
  "nodes_ok h R s P = (ns_inv R s \<and> (\<forall>N. node_at h P N (ns_Get s N)))"

lemma pods_on_empty [simp]: "pods_on h Map.empty N = Map.empty"
  by (simp add: pods_on_def fun_eq_iff)

lemma pods_on_add:
  assumes "P u = None"
  shows "pods_on h (P(u \<mapsto> pd)) N =
    (if N = node_of h pd \<and> N \<noteq> [] then (pods_on h P N)(u \<mapsto> NewPodInfo (ch_res h) pd) else pods_on h P N)"
  using assms by (auto simp: pods_on_def fun_eq_iff)

lemma pods_on_del:
  assumes "P u = Some pd"
  shows "pods_on h (P(u := None)) N =
    (if N = node_of h pd \<and> N \<noteq> [] then (pods_on h P N)(u := None) else pods_on h P N)"
  using assms by (auto simp: pods_on_def fun_eq_iff)

lemma nodes_okD: "nodes_ok h R s P \<Longrightarrow> ns_inv R s" "nodes_ok h R s P \<Longrightarrow> node_at h P N (ns_Get s N)"
  by (simp_all add: nodes_ok_def)

lemma nodes_ok_New: "nodes_ok h (cl, NewRawStore) ns_NewCache Map.empty"
  using ns_NewCache_inv by (simp add: nodes_ok_def node_at_def)

text \<open>A change of one node.\<close>

lemma nodes_ok_change:
  assumes "nodes_ok h R s P" "ns_inv R s'" "ns_Get s' = (ns_Get s)(N := x)" "node_at h P' N x"
    and "\<And>M. M \<noteq> N \<Longrightarrow> pods_on h P' M = pods_on h P M"
  shows "nodes_ok h R s' P'"
proof -
  have "node_at h P' M (ns_Get s' M)" for M
  proof (cases "M = N")
    case False
    then show ?thesis using nodes_okD(2) [OF assms(1), of M] assms(3) assms(5) [OF False] by (simp add: node_at_def split: option.splits)
  qed (use assms(3,4) in simp)
  then show ?thesis using assms(2) by (simp add: nodes_ok_def)
qed

lemma ns_Set_nodes:
  assumes "nodes_ok h R s P" "ns_room s 1" "node_ok (ch_res h) n (pods_on h P' N)"
    and "\<And>M. M \<noteq> N \<Longrightarrow> pods_on h P' M = pods_on h P M"
  shows "\<exists>s'. ns_Set s N n = Some s' \<and> nodes_ok h R s' P' \<and> ns_gen s' = ns_gen s + 1"
proof -
  obtain s' where s': "ns_Set s N n = Some s'" "ns_inv R s'" "ns_gen s' = ns_gen s + 1" "ns_Get s' = (ns_Get s)(N \<mapsto> n)"
    using ns_Set_ok [OF nodes_okD(1) [OF assms(1)] assms(2)] by blast
  have "nodes_ok h R s' P'" by (rule nodes_ok_change [OF assms(1) s'(2,4)]) (use assms(3,4) in \<open>simp_all add: node_at_def\<close>)
  then show ?thesis using s' by blast
qed

text \<open>Taking a node out and setting it again.\<close>

lemma ns_reset_nodes:
  assumes "nodes_ok h R s P" "ns_room s 1" "node_ok (ch_res h) n (pods_on h P N)"
  shows "\<exists>s1. ns_Delete s N = Some s1 \<and>
    (\<forall>d. \<exists>s2. ns_Set (s1\<lparr>ns_Deleted := d\<rparr>) N n = Some s2 \<and> nodes_ok h R s2 P \<and> ns_gen s2 = ns_gen s + 1)"
proof -
  obtain s1 where s1: "ns_Delete s N = Some s1" "ns_inv R s1" "ns_gen s1 = ns_gen s" "ns_Get s1 = (ns_Get s)(N := None)"
    using ns_Delete_ok [OF nodes_okD(1) [OF assms(1)]] by blast
  have "\<exists>s2. ns_Set (s1\<lparr>ns_Deleted := d\<rparr>) N n = Some s2 \<and> nodes_ok h R s2 P \<and> ns_gen s2 = ns_gen s + 1" for d
  proof -
    have "ns_inv R (s1\<lparr>ns_Deleted := d\<rparr>)" "ns_room (s1\<lparr>ns_Deleted := d\<rparr>) 1" using s1(2,3) assms(2) by (simp_all add: ns_room_def)
    from ns_Set_ok [OF this] obtain s2 where s2: "ns_Set (s1\<lparr>ns_Deleted := d\<rparr>) N n = Some s2" "ns_inv R s2" "ns_gen s2 = ns_gen s + 1"
        "ns_Get s2 = (ns_Get s)(N \<mapsto> n)"
      using s1(3,4) by fastforce
    have "nodes_ok h R s2 P" by (rule nodes_ok_change [OF assms(1) s2(2,4)]) (use assms(3) in \<open>simp_all add: node_at_def\<close>)
    then show ?thesis using s2 by blast
  qed
  then show ?thesis using s1(1) by blast
qed

lemma put_back_nodes:
  assumes "nodes_ok h R s P" "ns_room s 1" "node_ok (ch_res h) n (pods_on h P' N)"
    and "\<And>M. M \<noteq> N \<Longrightarrow> pods_on h P' M = pods_on h P M"
  shows "\<exists>s'. put_back s N n = Some s' \<and> nodes_ok h R s' P' \<and> ns_gen s' \<le> ns_gen s + 1"
proof (cases "NumPods n = 0 \<and> ObjectIsNil n")
  case True
  let ?s = "s\<lparr>ns_Deleted := ns_Deleted s - {N}\<rparr>"
  obtain s' where s': "ns_Delete ?s N = Some s'" "ns_inv R s'" "ns_gen s' = ns_gen s" "ns_Get s' = (ns_Get s)(N := None)"
    using ns_Delete_ok [of R ?s N] nodes_okD(1) [OF assms(1)] by auto
  have "pods_on h P' N = Map.empty" using NumPods_zero [OF assms(3)] True by blast
  then have "nodes_ok h R s' P'" by (intro nodes_ok_change [OF assms(1) s'(2,4)]) (use assms(4) in \<open>simp_all add: node_at_def\<close>)
  then show ?thesis using s' True by (auto simp: put_back_def)
next
  case False
  then have "put_back s N n = ns_Set s N n" by (auto simp: put_back_def)
  then show ?thesis using ns_Set_nodes [OF assms] by auto
qed

subsection \<open>Pod events\<close>

text \<open>A node of the store, or a new one where there is none, holds the pods of its name.\<close>

lemma node_or_empty:
  assumes "nodes_ok h R s P"
  shows "node_ok (ch_res h) (case ns_Get s N of Some n \<Rightarrow> n | None \<Rightarrow> empty_node) (pods_on h P N)"
  using nodes_okD(2) [OF assms, of N] empty_node_ok [of "ch_res h"] by (auto simp: node_at_def split: option.splits)

lemma add_pod_to_node_ok:
  assumes ok: "nodes_ok h R s P" and new: "P (pod_UID pd) = None" and N: "node_of h pd \<noteq> []"
  shows "\<exists>s1 n. add_pod_to_node h s (node_of h pd) pd = Some (s1, n) \<and>
    node_ok (ch_res h) n (pods_on h (P(pod_UID pd \<mapsto> pd)) (node_of h pd)) \<and> nodes_ok h R s1 P \<and> ns_gen s1 = ns_gen s \<and> ns_isSnapshot s1 = ns_isSnapshot s"
proof -
  have "pods_on h P (node_of h pd) (pod_UID pd) = None" using new by (simp add: pods_on_def)
  from AddPod_ok [OF node_or_empty [OF ok] this] obtain n where
    n: "AddPod (ch_res h) (case ns_Get s (node_of h pd) of Some n \<Rightarrow> n | None \<Rightarrow> empty_node) pd = Some n"
       "node_ok (ch_res h) n (pods_on h (P(pod_UID pd \<mapsto> pd)) (node_of h pd))"
    using N by (auto simp: pods_on_add [where P = P, OF new])
  have "nodes_ok h R (s\<lparr>ns_Deleted := d\<rparr>) P" for d using ok by (simp add: nodes_ok_def)
  then show ?thesis using n ok by (cases "ns_Get s (node_of h pd)") (simp_all add: add_pod_to_node_def)
qed

lemma pod_set_ok:
  assumes ok: "nodes_ok h R s P" and r: "ns_room s 1" and new: "P (pod_UID pd) = None" and N: "node_of h pd \<noteq> []"
  shows "\<exists>s1 n s2. add_pod_to_node h s (node_of h pd) pd = Some (s1, n) \<and> ns_Set s1 (node_of h pd) n = Some s2 \<and>
    nodes_ok h R s2 (P(pod_UID pd \<mapsto> pd)) \<and> ns_gen s2 = ns_gen s + 1"
proof -
  obtain s1 n where n: "add_pod_to_node h s (node_of h pd) pd = Some (s1, n)"
      "node_ok (ch_res h) n (pods_on h (P(pod_UID pd \<mapsto> pd)) (node_of h pd))" "nodes_ok h R s1 P" "ns_gen s1 = ns_gen s"
    using add_pod_to_node_ok [OF ok new N] by blast
  have "ns_room s1 1" using r n(4) by (simp add: ns_room_def)
  from ns_Set_nodes [OF n(3) this n(2)] show ?thesis using n(1,4) by (auto simp: pods_on_add [where P = P, OF new])
qed

text \<open>A pod without a node is in no node.\<close>

lemma nodes_ok_off:
  assumes "nodes_ok h R s P" "\<And>N. pods_on h P' N = pods_on h P N"
  shows "nodes_ok h R s P'"
  by (rule nodes_ok_change [OF assms(1) nodes_okD(1) [OF assms(1)], of "[]" "ns_Get s []"])
    (use assms nodes_okD(2) [OF assms(1), of "[]"] in \<open>simp_all add: node_at_def split: option.splits\<close>)

lemma ns_AddPod_ok:
  assumes ok: "nodes_ok h R s P" and r: "ns_room s 1" and new: "P (pod_UID pd) = None"
  shows "\<exists>s'. ns_AddPod h s pd = Some (s', None) \<and> ns_gen s' \<le> ns_gen s + 1 \<and>
    nodes_ok h R s' (if assumedOrBoundPod h pd then P(pod_UID pd \<mapsto> pd) else P)"
proof (cases "assumedOrBoundPod h pd \<and> node_of h pd \<noteq> []")
  case True
  then show ?thesis using pod_set_ok [OF ok r new] by (auto simp: ns_AddPod_def)
next
  case False
  moreover have "nodes_ok h R s (P(pod_UID pd \<mapsto> pd))" if "node_of h pd = []"
    by (rule nodes_ok_off [OF ok]) (use that in \<open>simp add: pods_on_add [where P = P, OF new]\<close>)
  ultimately show ?thesis using ok by (auto simp: ns_AddPod_def)
qed

lemma ns_AssumePod_ok:
  assumes ok: "nodes_ok h R s P" and r: "ns_room s 1" and new: "P (pod_UID pd) = None"
  shows "\<exists>s'. ns_AssumePod h s pd vs = Some (s', None) \<and> ns_gen s' \<le> ns_gen s + 1 \<and> nodes_ok h R s' (P(pod_UID pd \<mapsto> pd))"
proof (cases "node_of h pd = []")
  case True
  have "nodes_ok h R s (P(pod_UID pd \<mapsto> pd))" by (rule nodes_ok_off [OF ok]) (use True in \<open>simp add: pods_on_add [where P = P, OF new]\<close>)
  then show ?thesis using True by (simp add: ns_AssumePod_def)
next
  case False
  moreover have "\<not> ns_isSnapshot s" using nodes_okD(1) [OF ok] by (simp add: ns_inv_def)
  ultimately show ?thesis using pod_set_ok [OF ok r new] by (auto simp: ns_AssumePod_def)
qed

lemma pod_unset_ok:
  assumes ok: "nodes_ok h R s P" and r: "ns_room s 1" and p: "P (pod_UID pd) = Some q" and u: "pod_UID pd \<noteq> []"
    and q: "node_of h q = node_of h pd" and N: "node_of h pd \<noteq> []"
  shows "\<exists>n n1 s'. ns_Get s (node_of h pd) = Some n \<and> RemovePod (ch_res h) n pd = Some (n1, None) \<and>
    put_back s (node_of h pd) n1 = Some s' \<and> nodes_ok h R s' (P(pod_UID pd := None)) \<and> ns_gen s' \<le> ns_gen s + 1"
proof -
  let ?N = "node_of h pd"
  have on: "pods_on h P ?N (pod_UID pd) = Some (NewPodInfo (ch_res h) q)" using p q N by (simp add: pods_on_def)
  then obtain n where n: "ns_Get s ?N = Some n" "node_ok (ch_res h) n (pods_on h P ?N)"
    using nodes_okD(2) [OF ok, of ?N] by (auto simp: node_at_def split: option.splits)
  obtain n1 where n1: "RemovePod (ch_res h) n pd = Some (n1, None)" "node_ok (ch_res h) n1 (pods_on h (P(pod_UID pd := None)) ?N)"
    using RemovePod_present [OF n(2) on u] N q by (auto simp: pods_on_del [where P = P, OF p])
  from put_back_nodes [OF ok r n1(2)] show ?thesis using n(1) n1(1) q by (auto simp: pods_on_del [where P = P, OF p])
qed

lemma ns_DeletePod_ok:
  assumes ok: "nodes_ok h R s P" and r: "ns_room s 1" and p: "P (pod_UID pd) = Some q" and u: "pod_UID pd \<noteq> []"
    and q: "node_of h q = node_of h pd" and m: "assumedOrBoundPod h pd"
  shows "\<exists>s'. ns_DeletePod h s pd = Some (s', None) \<and> ns_gen s' \<le> ns_gen s + 1 \<and> nodes_ok h R s' (P(pod_UID pd := None))"
proof (cases "node_of h pd = []")
  case True
  have "nodes_ok h R s (P(pod_UID pd := None))" by (rule nodes_ok_off [OF ok]) (use True q in \<open>simp add: pods_on_del [where P = P, OF p]\<close>)
  then show ?thesis using True by (simp add: ns_DeletePod_def)
next
  case False
  then show ?thesis using pod_unset_ok [OF ok r p u q] m by (auto simp: ns_DeletePod_def)
qed

lemma ns_DeletePod_absent:
  assumes ok: "nodes_ok h R s P" and p: "P (pod_UID pd) = None"
  shows "\<exists>e. ns_DeletePod h s pd = Some (s, e)"
proof -
  have "\<exists>e. RemovePod (ch_res h) n pd = Some (n, Some e)" if n: "ns_Get s (node_of h pd) = Some n" for n
  proof -
    have "node_ok (ch_res h) n (pods_on h P (node_of h pd))" using nodes_okD(2) [OF ok, of "node_of h pd"] n by (simp add: node_at_def)
    from RemovePod_absent [OF this, of pd] show ?thesis using p by (simp add: pods_on_def)
  qed
  then show ?thesis by (fastforce simp: ns_DeletePod_def split: option.splits)
qed

lemma ns_ForgetPod_ok:
  assumes ok: "nodes_ok h R s P" and r: "ns_room s 1" and p: "P (pod_UID pd) = Some q" and u: "pod_UID pd \<noteq> []"
    and q: "node_of h q = node_of h pd"
  shows "\<exists>s'. ns_ForgetPod h s pd vs = Some (s', None) \<and> ns_gen s' \<le> ns_gen s + 1 \<and> nodes_ok h R s' (P(pod_UID pd := None))"
proof (cases "node_of h pd = []")
  case True
  have "nodes_ok h R s (P(pod_UID pd := None))" by (rule nodes_ok_off [OF ok]) (use True q in \<open>simp add: pods_on_del [where P = P, OF p]\<close>)
  then show ?thesis using True by (simp add: ns_ForgetPod_def)
next
  case False
  moreover have "\<not> ns_isSnapshot s" using nodes_okD(1) [OF ok] by (simp add: ns_inv_def)
  ultimately show ?thesis using pod_unset_ok [OF ok r p u q] by (auto simp: ns_ForgetPod_def)
qed

text \<open>An update replaces the cached pod by the new one, or drops it where the new one is not one the stores take.\<close>

lemma ns_UpdatePod_ok:
  assumes ok: "nodes_ok h R s (cached ps)" and po: "ps_ok h ps" and r: "ns_room s 2"
    and u: "pod_UID oldPod = pod_UID newPod" "pod_UID newPod \<noteq> []"
  shows "\<exists>s'. ns_UpdatePod h (ps_GetPodState ps) s oldPod newPod = Some (s', None) \<and> ns_gen s' \<le> ns_gen s + 2 \<and>
    nodes_ok h R s' (if assumedOrBoundPod h newPod then (cached ps)(pod_UID newPod \<mapsto> newPod) else (cached ps)(pod_UID newPod := None))"
proof (cases "pst_PodStates ps (pod_UID newPod)")
  case None
  then have new: "cached ps (pod_UID newPod) = None" by (simp add: cached_def)
  then have "(cached ps)(pod_UID newPod := None) = cached ps" by (rule fun_upd_idem)
  then show ?thesis
    using ns_AddPod_ok [OF ok ns_room_le [OF r] new] u None by (auto simp: ns_UpdatePod_def NodeInfo_GetPodKey_def ps_GetPodState_def)
next
  case (Some st)
  then have c: "cached ps (pod_UID newPod) = Some (cps_Pod st)" by (simp add: cached_def)
  note q = cached_pod [OF po c]
  obtain s1 where s1: "ns_DeletePod h s (cps_Pod st) = Some (s1, None)" "ns_gen s1 \<le> ns_gen s + 1"
      "nodes_ok h R s1 ((cached ps)(pod_UID newPod := None))"
    using ns_DeletePod_ok [OF ok ns_room_le [OF r], of "cps_Pod st" "cps_Pod st"] c q by auto
  have "ns_room s1 1" using r s1(2) by (simp add: ns_room_def)
  from ns_AddPod_ok [OF s1(3) this, of newPod, unfolded fun_upd_upd] obtain s2 where
    "ns_AddPod h s1 newPod = Some (s2, None)" "ns_gen s2 \<le> ns_gen s1 + 1"
    "nodes_ok h R s2 (if assumedOrBoundPod h newPod then (cached ps)(pod_UID newPod \<mapsto> newPod) else (cached ps)(pod_UID newPod := None))"
    by auto
  then show ?thesis using s1 u Some by (auto simp: ns_UpdatePod_def NodeInfo_GetPodKey_def ps_GetPodState_def)
qed

subsection \<open>Node events\<close>

lemma partition_flag_ok [simp]:
  "node_ok cfg (n\<lparr>ni_NodeInSchedulerPartition := b\<rparr>) A = node_ok cfg n A"
  "node_ok cfg (n\<lparr>ni_NMNodeInSchedulerPartition := b\<rparr>) A = node_ok cfg n A"
  by (simp_all add: node_ok_def node_sums_def offers_ok_fields setGuaranteedAllocatableResource_def setGuaranteedCapacityResource_def)

text \<open>Whatever a node event does to the object of a node, it leaves the pods alone.\<close>

definition node_event_ok :: "cache_handler \<Rightarrow> snap \<Rightarrow> NodeStore \<Rightarrow> (key \<rightharpoonup> v1pod) \<Rightarrow> ns_result \<Rightarrow> bool" where
  "node_event_ok h R s P res = (\<exists>s' e. res = Some (s', e) \<and> nodes_ok h R s' P \<and> ns_gen s' \<le> ns_gen s + 1)"

lemma take_node_set:
  assumes ok: "nodes_ok h R s P" and r: "ns_room s 1" and f: "\<And>n. node_ok (ch_res h) n (pods_on h P N) \<Longrightarrow> node_ok (ch_res h) (f n) (pods_on h P N)"
  shows "node_event_ok h R s P (do { (s1, n) \<leftarrow> take_node s N; s2 \<leftarrow> ns_Set s1 N (f n); Some (s2, None) })"
proof (cases "ns_Get s N")
  case None
  from ns_Set_nodes [OF ok r f [OF node_or_empty [OF ok]]] show ?thesis using None by (auto simp: take_node_def node_event_ok_def)
next
  case (Some n)
  let ?s = "s\<lparr>ns_Deleted := ns_Deleted s - {N}\<rparr>"
  have ok': "nodes_ok h R ?s P" "ns_room ?s 1" using ok r by (simp_all add: nodes_ok_def)
  have "node_ok (ch_res h) (f n) (pods_on h P N)" using f [OF node_or_empty [OF ok, of N]] Some by simp
  from ns_reset_nodes [OF ok' this] obtain s1 where s1: "ns_Delete ?s N = Some s1"
      "\<forall>d. \<exists>s2. ns_Set (s1\<lparr>ns_Deleted := d\<rparr>) N (f n) = Some s2 \<and> nodes_ok h R s2 P \<and> ns_gen s2 = ns_gen ?s + 1"
    by blast
  then show ?thesis using Some spec [OF s1(2), of "ns_Deleted s1"] by (auto simp: take_node_def node_event_ok_def)
qed

lemma node_set_events_ok:
  assumes ok: "nodes_ok h R s P" and r: "ns_room s 1"
  shows "node_event_ok h R s P (ns_AddNode h s nd)" "node_event_ok h R s P (ns_UpdateNode h s od nd)"
    "node_event_ok h R s P (ns_AddNMNode h s nm)" "node_event_ok h R s P (ns_UpdateNMNode h s om nm)"
    "node_event_ok h R s P (ns_AddCNR h s c)" "node_event_ok h R s P (ns_UpdateCNR h s oc c)"
proof -
  show "node_event_ok h R s P (ns_AddNode h s nd)" unfolding ns_AddNode_def by (rule take_node_set [OF ok r]) (simp add: set_node_ok)
  show "node_event_ok h R s P (ns_UpdateNode h s od nd)" unfolding ns_UpdateNode_def by (rule take_node_set [OF ok r]) (simp add: set_node_ok)
  show "node_event_ok h R s P (ns_AddNMNode h s nm)" unfolding ns_AddNMNode_def by (rule take_node_set [OF ok r]) (simp add: set_node_ok)
  show "node_event_ok h R s P (ns_UpdateNMNode h s om nm)" unfolding ns_UpdateNMNode_def by (rule take_node_set [OF ok r]) (simp add: set_node_ok)
  note cnr = ns_Set_nodes [OF ok r set_node_ok(3) [OF node_or_empty [OF ok]], of "cnode_Name c" c]
  show "node_event_ok h R s P (ns_AddCNR h s c)" "node_event_ok h R s P (ns_UpdateCNR h s oc c)"
    using cnr by (auto simp: ns_AddCNR_def ns_UpdateCNR_def node_event_ok_def)
qed

lemma node_known: "nodes_ok h R s P \<Longrightarrow> ns_Get s N = Some n \<Longrightarrow> node_ok (ch_res h) n (pods_on h P N)"
  using node_or_empty [of h R s P N] by simp

text \<open>The end of \<^verbatim>\<open>DeleteNode\<close> and \<^verbatim>\<open>DeleteNMNode\<close>: the node stays as long as it has another object, pods or a custom resource.\<close>

lemma keep_or_drop:
  assumes ok: "nodes_ok h R s P" and r: "ns_room s 1" and n: "node_ok (ch_res h) n (pods_on h P N)" and c: "NumPods n \<noteq> 0 \<Longrightarrow> c2"
  shows "node_event_ok h R s P
    (do { s1 \<leftarrow> ns_Delete s N;
          s2 \<leftarrow> (if c1 then ns_Set s1 N n
                 else if c2 then ns_Set (s1\<lparr>ns_Deleted := insert N (ns_Deleted s1)\<rparr>) N n else Some s1);
          Some (s2, None) })"
proof -
  obtain s1 where s1: "ns_Delete s N = Some s1" "ns_inv R s1" "ns_gen s1 = ns_gen s" "ns_Get s1 = (ns_Get s)(N := None)"
    using ns_Delete_ok [OF nodes_okD(1) [OF ok]] by blast
  have set: "\<exists>s2. ns_Set (s1\<lparr>ns_Deleted := d\<rparr>) N n = Some s2 \<and> nodes_ok h R s2 P \<and> ns_gen s2 = ns_gen s + 1" for d
    using ns_reset_nodes [OF ok r n] s1(1) by auto
  show ?thesis
  proof (cases "c1 \<or> c2")
    case True
    then show ?thesis using s1(1) set [of "ns_Deleted s1"] set [of "insert N (ns_Deleted s1)"] by (auto simp: node_event_ok_def)
  next
    case False
    then have "pods_on h P N = Map.empty" using c NumPods_zero [OF n] by blast
    then have "nodes_ok h R s1 P" by (intro nodes_ok_change [OF ok s1(2,4)]) (simp_all add: node_at_def)
    then show ?thesis using s1 False by (simp add: node_event_ok_def)
  qed
qed

lemma node_event_same: "nodes_ok h R s P \<Longrightarrow> node_event_ok h R s P (Some (s, e))"
  by (simp add: node_event_ok_def)

lemma node_unset_events_ok:
  assumes ok: "nodes_ok h R s P" and r: "ns_room s 1"
  shows "node_event_ok h R s P (ns_DeleteNode h s nd)" "node_event_ok h R s P (ns_DeleteNMNode h s nm)"
    "node_event_ok h R s P (ns_DeleteCNR s c)" "node_event_ok h R s P (ns_SetPartition s N flag)"
proof -
  show "node_event_ok h R s P (ns_DeleteNode h s nd)"
  proof (cases "ns_Get s (node_Name nd)")
    case (Some n)
    from keep_or_drop [OF ok r set_node_ok(4) [OF node_known [OF ok Some]]]
    show ?thesis using Some unfolding ns_DeleteNode_def Let_def by simp
  qed (simp add: ns_DeleteNode_def node_event_same [OF ok])
  show "node_event_ok h R s P (ns_DeleteNMNode h s nm)"
  proof (cases "ns_Get s (nm_Name nm)")
    case (Some n)
    from keep_or_drop [OF ok r set_node_ok(5) [OF node_known [OF ok Some]]]
    show ?thesis using Some unfolding ns_DeleteNMNode_def Let_def by simp
  qed (simp add: ns_DeleteNMNode_def node_event_same [OF ok])
  show "node_event_ok h R s P (ns_DeleteCNR s c)"
  proof (cases "ns_Get s (cnode_Name c)")
    case (Some n)
    from put_back_nodes [OF ok r set_node_ok(6) [OF node_known [OF ok Some]]]
    show ?thesis using Some by (auto simp: ns_DeleteCNR_def node_event_ok_def)
  qed (simp add: ns_DeleteCNR_def node_event_same [OF ok])
  show "node_event_ok h R s P (ns_SetPartition s N flag)"
  proof (cases "ns_Get s N")
    case (Some n)
    have "node_ok (ch_res h) (SetNodePartition n flag) (pods_on h P N)" using node_known [OF ok Some] by (simp add: SetNodePartition_def)
    from ns_reset_nodes [OF ok r this] obtain s1 where s1: "ns_Delete s N = Some s1"
        "\<forall>d. \<exists>s2. ns_Set (s1\<lparr>ns_Deleted := d\<rparr>) N (SetNodePartition n flag) = Some s2 \<and> nodes_ok h R s2 P \<and> ns_gen s2 = ns_gen s + 1"
      by blast
    then show ?thesis using Some spec [OF s1(2), of "ns_Deleted s1"] by (auto simp: ns_SetPartition_def node_event_ok_def)
  qed (simp add: ns_SetPartition_def node_event_same [OF ok])
qed

end
