(* ===== verification/Scheduler_Cache.thy ===== *)
theory Scheduler_Cache
  imports Node_Store
begin

section \<open>The scheduler cache (pkg/scheduler/cache, pkg/common/store)\<close>

text \<open>
  The scheduler cache passes every event to its stores in a fixed order, the node store second to last and the
  pod store last, and collects their errors. The model has these two; the stores before them see neither of
  the two and are left out. The event handlers of the switch (\<open>switch_AddPod\<close> and so on) pass an event on; the cache overrides
  \<^verbatim>\<open>UpdatePod\<close> and adds \<^verbatim>\<open>AssumePod\<close>, \<^verbatim>\<open>ForgetPod\<close>, \<^verbatim>\<open>RemovePod\<close> and the periodic clean-up of expired
  assumed pods. Each operation holds the lock of the cache, so a history of the cache is a sequence of them. A result
  is \<open>None\<close> where the process exits or panics; otherwise it is the new cache and the errors.
\<close>

subsection \<open>State and the switch\<close>

record SchedulerCache =
  sc_nodes :: NodeStore
  sc_pods :: PodStore

type_synonym sc_result = "(SchedulerCache \<times> cache_error list) option"

definition newSchedulerCache :: SchedulerCache where
  "newSchedulerCache = \<lparr>sc_nodes = ns_NewCache, sc_pods = ps_NewCache\<rparr>"

text \<open>\<^verbatim>\<open>Range\<close>, with what it calls on the node store and on the pod store.\<close>

definition switch_Range ::
  "(NodeStore \<Rightarrow> ns_result) \<Rightarrow> (PodStore \<Rightarrow> (PodStore \<times> cache_error option) option) \<Rightarrow> SchedulerCache \<Rightarrow> sc_result" where
  "switch_Range f g c =
     do { (n, e1) \<leftarrow> f (sc_nodes c);
          (p, e2) \<leftarrow> g (sc_pods c);
          Some (\<lparr>sc_nodes = n, sc_pods = p\<rparr>, (case e1 of None \<Rightarrow> [] | Some e \<Rightarrow> [e]) @ (case e2 of None \<Rightarrow> [] | Some e \<Rightarrow> [e])) }"

text \<open>The pod store takes node events as its base store does: it ignores them.\<close>

definition base_nil :: "PodStore \<Rightarrow> (PodStore \<times> cache_error option) option" where
  "base_nil p = Some (p, None)"

definition switch_AddPod :: "cache_handler \<Rightarrow> SchedulerCache \<Rightarrow> v1pod \<Rightarrow> sc_result" where
  "switch_AddPod h c pd = switch_Range (\<lambda>s. ns_AddPod h s pd) (\<lambda>s. Some (ps_AddPod h s pd)) c"

definition switch_UpdatePod :: "cache_handler \<Rightarrow> SchedulerCache \<Rightarrow> v1pod \<Rightarrow> v1pod \<Rightarrow> sc_result" where
  "switch_UpdatePod h c oldPod newPod =
     switch_Range (\<lambda>s. ns_UpdatePod h (ps_GetPodState (sc_pods c)) s oldPod newPod) (\<lambda>s. Some (ps_UpdatePod h s oldPod newPod)) c"

definition switch_DeletePod :: "cache_handler \<Rightarrow> SchedulerCache \<Rightarrow> v1pod \<Rightarrow> sc_result" where
  "switch_DeletePod h c pd = switch_Range (\<lambda>s. ns_DeletePod h s pd) (\<lambda>s. Some (ps_DeletePod h s pd)) c"

definition switch_AddNode :: "cache_handler \<Rightarrow> SchedulerCache \<Rightarrow> v1node \<Rightarrow> sc_result" where
  "switch_AddNode h c nd = switch_Range (\<lambda>s. ns_AddNode h s nd) base_nil c"

definition switch_UpdateNode :: "cache_handler \<Rightarrow> SchedulerCache \<Rightarrow> v1node \<Rightarrow> v1node \<Rightarrow> sc_result" where
  "switch_UpdateNode h c oldNode newNd = switch_Range (\<lambda>s. ns_UpdateNode h s oldNode newNd) base_nil c"

definition switch_DeleteNode :: "cache_handler \<Rightarrow> SchedulerCache \<Rightarrow> v1node \<Rightarrow> sc_result" where
  "switch_DeleteNode h c nd = switch_Range (\<lambda>s. ns_DeleteNode h s nd) base_nil c"

definition switch_AddNMNode :: "cache_handler \<Rightarrow> SchedulerCache \<Rightarrow> nm_node \<Rightarrow> sc_result" where
  "switch_AddNMNode h c nm = switch_Range (\<lambda>s. ns_AddNMNode h s nm) base_nil c"

definition switch_UpdateNMNode :: "cache_handler \<Rightarrow> SchedulerCache \<Rightarrow> nm_node \<Rightarrow> nm_node \<Rightarrow> sc_result" where
  "switch_UpdateNMNode h c oldNMNode newNMNode = switch_Range (\<lambda>s. ns_UpdateNMNode h s oldNMNode newNMNode) base_nil c"

definition switch_DeleteNMNode :: "cache_handler \<Rightarrow> SchedulerCache \<Rightarrow> nm_node \<Rightarrow> sc_result" where
  "switch_DeleteNMNode h c nm = switch_Range (\<lambda>s. ns_DeleteNMNode h s nm) base_nil c"

definition switch_AddCNR :: "cache_handler \<Rightarrow> SchedulerCache \<Rightarrow> custom_node_resource \<Rightarrow> sc_result" where
  "switch_AddCNR h c cnr = switch_Range (\<lambda>s. ns_AddCNR h s cnr) base_nil c"

definition switch_UpdateCNR :: "cache_handler \<Rightarrow> SchedulerCache \<Rightarrow> custom_node_resource \<Rightarrow> custom_node_resource \<Rightarrow> sc_result" where
  "switch_UpdateCNR h c oldCNR newCNR = switch_Range (\<lambda>s. ns_UpdateCNR h s oldCNR newCNR) base_nil c"

definition switch_DeleteCNR :: "cache_handler \<Rightarrow> SchedulerCache \<Rightarrow> custom_node_resource \<Rightarrow> sc_result" where
  "switch_DeleteCNR h c cnr = switch_Range (\<lambda>s. ns_DeleteCNR s cnr) base_nil c"

subsection \<open>Operations of the cache\<close>

definition cache_AssumePod :: "cache_handler \<Rightarrow> SchedulerCache \<Rightarrow> v1pod \<Rightarrow> v1pod list \<Rightarrow> sc_result" where
  "cache_AssumePod h c pd victims =
     (case NodeInfo_GetPodKey pd of
        Inl _ \<Rightarrow> Some (c, [EmptyKey])
      | Inr k \<Rightarrow>
          if fst (ps_GetPodState (sc_pods c) k) \<noteq> None then Some (c, [AlreadyInCache k])
          else switch_Range (\<lambda>s. ns_AssumePod h s pd victims) (\<lambda>s. Some (ps_AssumePod s pd)) c)"

definition cache_ForgetPod :: "cache_handler \<Rightarrow> SchedulerCache \<Rightarrow> v1pod \<Rightarrow> v1pod list \<Rightarrow> sc_result" where
  "cache_ForgetPod h c pd victims =
     (case NodeInfo_GetPodKey pd of
        Inl _ \<Rightarrow> Some (c, [EmptyKey])
      | Inr k \<Rightarrow>
          if \<not> snd (ps_GetPodState (sc_pods c) k) then Some (c, [])
          else switch_Range (\<lambda>s. ns_ForgetPod h s pd victims) (\<lambda>s. ps_ForgetPod h s pd) c)"

definition cache_UpdatePod :: "cache_handler \<Rightarrow> SchedulerCache \<Rightarrow> v1pod \<Rightarrow> v1pod \<Rightarrow> sc_result" where
  "cache_UpdatePod h c oldPod newPod =
     (if \<not> assumedOrBoundPod h oldPod \<and> \<not> assumedOrBoundPod h newPod
      then (case NodeInfo_GetPodKey oldPod of
              Inl _ \<Rightarrow> Some (c, [EmptyKey])
            | Inr k \<Rightarrow> if snd (ps_GetPodState (sc_pods c) k) then Some (c, []) else switch_UpdatePod h c oldPod newPod)
      else switch_UpdatePod h c oldPod newPod)"

definition cache_RemovePod :: "cache_handler \<Rightarrow> SchedulerCache \<Rightarrow> v1pod \<Rightarrow> sc_result" where
  "cache_RemovePod h c pd =
     (case NodeInfo_GetPodKey pd of
        Inl _ \<Rightarrow> Some (c, [EmptyKey])
      | Inr k \<Rightarrow>
          (case fst (ps_GetPodState (sc_pods c) k) of
             Some ps \<Rightarrow> switch_DeletePod h c (cps_Pod ps)
           | None \<Rightarrow> switch_DeletePod h c pd))"

definition cache_FinishReserving :: "cache_handler \<Rightarrow> SchedulerCache \<Rightarrow> v1pod \<Rightarrow> time \<Rightarrow> sc_result" where
  "cache_FinishReserving h c pd now =
     (case ps_FinishReserving h (sc_pods c) pd now of
        (p, e) \<Rightarrow> Some (c\<lparr>sc_pods := p\<rparr>, (case e of None \<Rightarrow> [] | Some e' \<Rightarrow> [e'])))"

definition cache_SetNodePartition :: "SchedulerCache \<Rightarrow> string \<Rightarrow> bool \<Rightarrow> sc_result" where
  "cache_SetNodePartition c nodeName flag =
     do { (n, e) \<leftarrow> ns_SetPartition (sc_nodes c) nodeName flag;
          Some (c\<lparr>sc_nodes := n\<rparr>, (case e of None \<Rightarrow> [] | Some e' \<Rightarrow> [e'])) }"

text \<open>The callback of the stores: a pod is added to or deleted from the stores that are not skipped.\<close>

definition podOpFunc :: "cache_handler \<Rightarrow> SchedulerCache \<Rightarrow> v1pod \<Rightarrow> bool \<Rightarrow> string set \<Rightarrow> sc_result" where
  "podOpFunc h c pd isAdd skippedStores =
     switch_Range
       (\<lambda>s. if ''NodeStore'' \<in> skippedStores then Some (s, None) else if isAdd then ns_AddPod h s pd else ns_DeletePod h s pd)
       (\<lambda>s. Some (if ''PodStore'' \<in> skippedStores then (s, None) else if isAdd then ps_AddPod h s pd else ps_DeletePod h s pd)) c"

text \<open>The range over the assumed pods; a key removed on the way is not met. The errors of the callback are dropped.\<close>

primrec cleanup_loop :: "cache_handler \<Rightarrow> time \<Rightarrow> key list \<Rightarrow> SchedulerCache \<Rightarrow> SchedulerCache option" where
  "cleanup_loop h now [] c = Some c"
| "cleanup_loop h now (k # ks) c =
     (if pst_AssumedPods (sc_pods c) k = None then cleanup_loop h now ks c
      else
        do { x \<leftarrow> expired (sc_pods c) now k;
             c' \<leftarrow> (case x of None \<Rightarrow> Some c | Some pd \<Rightarrow> map_option fst (podOpFunc h c pd False {}));
             cleanup_loop h now ks c' })"

definition CleanupExpiredAssumedPods :: "(key set \<Rightarrow> key list) \<Rightarrow> cache_handler \<Rightarrow> SchedulerCache \<Rightarrow> time \<Rightarrow> SchedulerCache option" where
  "CleanupExpiredAssumedPods ord h c now = cleanup_loop h now (ord (dom (pst_AssumedPods (sc_pods c)))) c"

subsection \<open>Histories of the cache\<close>

datatype cache_event =
    EvAddPod v1pod | EvUpdatePod v1pod v1pod | EvDeletePod v1pod | EvRemovePod v1pod
  | EvAssumePod v1pod "v1pod list" | EvForgetPod v1pod "v1pod list" | EvFinishReserving v1pod time | EvCleanup time
  | EvAddNode v1node | EvUpdateNode v1node v1node | EvDeleteNode v1node
  | EvAddNMNode nm_node | EvUpdateNMNode nm_node nm_node | EvDeleteNMNode nm_node
  | EvAddCNR custom_node_resource | EvUpdateCNR custom_node_resource custom_node_resource | EvDeleteCNR custom_node_resource
  | EvPartition string bool

primrec cache_step :: "(key set \<Rightarrow> key list) \<Rightarrow> cache_handler \<Rightarrow> cache_event \<Rightarrow> SchedulerCache \<Rightarrow> sc_result" where
  "cache_step ord h (EvAddPod pd) c = switch_AddPod h c pd"
| "cache_step ord h (EvUpdatePod oldPod newPod) c = cache_UpdatePod h c oldPod newPod"
| "cache_step ord h (EvDeletePod pd) c = switch_DeletePod h c pd"
| "cache_step ord h (EvRemovePod pd) c = cache_RemovePod h c pd"
| "cache_step ord h (EvAssumePod pd vs) c = cache_AssumePod h c pd vs"
| "cache_step ord h (EvForgetPod pd vs) c = cache_ForgetPod h c pd vs"
| "cache_step ord h (EvFinishReserving pd now) c = cache_FinishReserving h c pd now"
| "cache_step ord h (EvCleanup now) c = map_option (\<lambda>c'. (c', [])) (CleanupExpiredAssumedPods ord h c now)"
| "cache_step ord h (EvAddNode nd) c = switch_AddNode h c nd"
| "cache_step ord h (EvUpdateNode od nd) c = switch_UpdateNode h c od nd"
| "cache_step ord h (EvDeleteNode nd) c = switch_DeleteNode h c nd"
| "cache_step ord h (EvAddNMNode nm) c = switch_AddNMNode h c nm"
| "cache_step ord h (EvUpdateNMNode om nm) c = switch_UpdateNMNode h c om nm"
| "cache_step ord h (EvDeleteNMNode nm) c = switch_DeleteNMNode h c nm"
| "cache_step ord h (EvAddCNR r) c = switch_AddCNR h c r"
| "cache_step ord h (EvUpdateCNR ol r) c = switch_UpdateCNR h c ol r"
| "cache_step ord h (EvDeleteCNR r) c = switch_DeleteCNR h c r"
| "cache_step ord h (EvPartition N b) c = cache_SetNodePartition c N b"

text \<open>
  What the events may be. A pod is added once, an update is one of the same pod, a pod that is assumed carries its assumed state,
  and the event that deletes a cached pod, or the request to forget it, names the node the cache has it on.
  \<^verbatim>\<open>RemovePod\<close> and the node events are not restricted.
\<close>

definition legal :: "cache_handler \<Rightarrow> SchedulerCache \<Rightarrow> cache_event \<Rightarrow> bool" where
  "legal h c ev =
     (case ev of
        EvAddPod pd \<Rightarrow> pod_UID pd \<noteq> [] \<and> cached (sc_pods c) (pod_UID pd) = None
      | EvUpdatePod oldPod newPod \<Rightarrow> pod_UID oldPod = pod_UID newPod \<and> pod_UID newPod \<noteq> []
      | EvDeletePod pd \<Rightarrow>
          (case cached (sc_pods c) (pod_UID pd) of None \<Rightarrow> True | Some q \<Rightarrow> assumedOrBoundPod h pd \<longrightarrow> node_of h q = node_of h pd)
      | EvAssumePod pd vs \<Rightarrow> assumedOrBoundPod h pd
      | EvForgetPod pd vs \<Rightarrow>
          (case cached (sc_pods c) (pod_UID pd) of
             None \<Rightarrow> True | Some q \<Rightarrow> is_assumed (sc_pods c) (pod_UID pd) \<longrightarrow> node_of h q = node_of h pd)
      | _ \<Rightarrow> True)"

text \<open>There is room for the generations an event takes: two for an update, one for each assumed pod that may expire.\<close>

definition cache_room :: "SchedulerCache \<Rightarrow> bool" where
  "cache_room c = ns_room (sc_nodes c) (2 + int (card (dom (pst_AssumedPods (sc_pods c)))))"

inductive cache_reachable :: "cache_handler \<Rightarrow> SchedulerCache \<Rightarrow> bool" for h where
  cache_start: "cache_reachable h newSchedulerCache"
| cache_next: "cache_reachable h c \<Longrightarrow> ord_ok ord \<Longrightarrow> legal h c ev \<Longrightarrow> cache_room c \<Longrightarrow>
    cache_step ord h ev c = Some (c', es) \<Longrightarrow> cache_reachable h c'"

definition cache_ok :: "cache_handler \<Rightarrow> snap \<Rightarrow> SchedulerCache \<Rightarrow> bool" where
  "cache_ok h R c = (ps_ok h (sc_pods c) \<and> nodes_ok h R (sc_nodes c) (cached (sc_pods c)))"


lemma cache_okD: "cache_ok h R c \<Longrightarrow> ps_ok h (sc_pods c)" "cache_ok h R c \<Longrightarrow> nodes_ok h R (sc_nodes c) (cached (sc_pods c))"
  by (simp_all add: cache_ok_def)

lemma newSchedulerCache_ok: "cache_ok h (cl, NewRawStore) newSchedulerCache"
  using ps_NewCache_ok nodes_ok_New by (simp add: cache_ok_def newSchedulerCache_def)

text \<open>An operation succeeds and leaves the cache with the pods \<open>Q\<close>.\<close>

definition leaves :: "cache_handler \<Rightarrow> snap \<Rightarrow> sc_result \<Rightarrow> (key \<rightharpoonup> v1pod) \<Rightarrow> bool" where
  "leaves h R res Q = (\<exists>c' es. res = Some (c', es) \<and> cache_ok h R c' \<and> cached (sc_pods c') = Q)"

lemma leaves_same: "cache_ok h R c \<Longrightarrow> leaves h R (Some (c, es)) (cached (sc_pods c))"
  by (simp add: leaves_def)

lemma Range_leaves:
  assumes "f (sc_nodes c) = Some (n, e)" "g (sc_pods c) = Some (p, x)" "ps_ok h p" "nodes_ok h R n (cached p)" "cached p = Q"
  shows "leaves h R (switch_Range f g c) Q"
  using assms by (simp add: leaves_def switch_Range_def cache_ok_def)

lemma node_event_leaves:
  assumes ok: "cache_ok h R c" and e: "node_event_ok h R (sc_nodes c) (cached (sc_pods c)) (f (sc_nodes c))"
  shows "leaves h R (switch_Range f base_nil c) (cached (sc_pods c))"
proof -
  obtain n e1 where "f (sc_nodes c) = Some (n, e1)" "nodes_ok h R n (cached (sc_pods c))"
    using e unfolding node_event_ok_def by blast
  then show ?thesis
    by (intro Range_leaves [where n = n and e = e1 and p = "sc_pods c" and x = None]) (use cache_okD(1) [OF ok] in \<open>simp_all add: base_nil_def\<close>)
qed

lemma cache_room_le: "cache_room c \<Longrightarrow> ns_room (sc_nodes c) 2" "cache_room c \<Longrightarrow> ns_room (sc_nodes c) 1"
  by (simp_all add: cache_room_def ns_room_def)

lemma switch_AddPod_leaves:
  assumes ok: "cache_ok h R c" and r: "ns_room (sc_nodes c) 1" and u: "pod_UID pd \<noteq> []" and new: "cached (sc_pods c) (pod_UID pd) = None"
  shows "leaves h R (switch_AddPod h c pd)
    (if assumedOrBoundPod h pd then (cached (sc_pods c))(pod_UID pd \<mapsto> pd) else cached (sc_pods c))"
proof -
  note D = cache_okD [OF ok]
  obtain n where n: "ns_AddPod h (sc_nodes c) pd = Some (n, None)"
      "nodes_ok h R n (if assumedOrBoundPod h pd then (cached (sc_pods c))(pod_UID pd \<mapsto> pd) else cached (sc_pods c))"
    using ns_AddPod_ok [OF D(2) r new] by blast
  obtain p where p: "ps_AddPod h (sc_pods c) pd = (p, None)" "ps_ok h p"
      "cached p = (if assumedOrBoundPod h pd then (cached (sc_pods c))(pod_UID pd \<mapsto> pd) else cached (sc_pods c))"
    using ps_AddPod_ok [OF D(1) u new] by blast
  show ?thesis unfolding switch_AddPod_def by (rule Range_leaves [where e = None and x = None and n = n and p = p]) (use n p in simp_all)
qed

lemma switch_DeletePod_leaves:
  assumes ok: "cache_ok h R c" and r: "ns_room (sc_nodes c) 1" and p: "cached (sc_pods c) (pod_UID pd) = Some q"
    and m: "assumedOrBoundPod h pd" and q: "node_of h q = node_of h pd"
  shows "\<exists>c'. switch_DeletePod h c pd = Some (c', []) \<and> cache_ok h R c' \<and> ns_gen (sc_nodes c') \<le> ns_gen (sc_nodes c) + 1 \<and>
    sc_pods c' = fst (ps_DeletePod h (sc_pods c) pd) \<and> cached (sc_pods c') = (cached (sc_pods c))(pod_UID pd := None)"
proof -
  note D = cache_okD [OF ok]
  have u: "pod_UID pd \<noteq> []" using cached_pod [OF D(1) p] by simp
  obtain n where n: "ns_DeletePod h (sc_nodes c) pd = Some (n, None)" "nodes_ok h R n ((cached (sc_pods c))(pod_UID pd := None))"
      "ns_gen n \<le> ns_gen (sc_nodes c) + 1"
    using ns_DeletePod_ok [OF D(2) r p u q m] by blast
  obtain s where s: "ps_DeletePod h (sc_pods c) pd = (s, None)" "ps_ok h s" "cached s = (cached (sc_pods c))(pod_UID pd := None)"
    using ps_DeletePod_present [OF D(1) p m] by blast
  show ?thesis using n s by (simp add: switch_DeletePod_def switch_Range_def cache_ok_def)
qed

lemma switch_DeletePod_other:
  assumes ok: "cache_ok h R c" and p: "cached (sc_pods c) (pod_UID pd) = None \<or> \<not> assumedOrBoundPod h pd"
  shows "\<exists>es. switch_DeletePod h c pd = Some (c, es) \<and> (\<not> assumedOrBoundPod h pd \<longrightarrow> es = [])"
proof (cases "assumedOrBoundPod h pd")
  case False
  then show ?thesis by (simp add: switch_DeletePod_def switch_Range_def ns_DeletePod_def ps_DeletePod_def)
next
  case True
  then have n: "cached (sc_pods c) (pod_UID pd) = None" using p by blast
  obtain e where "ns_DeletePod h (sc_nodes c) pd = Some (sc_nodes c, e)" using ns_DeletePod_absent [OF cache_okD(2) [OF ok] n] by blast
  moreover obtain e2 where "ps_DeletePod h (sc_pods c) pd = (sc_pods c, e2)"
    using ps_DeletePod_absent [OF n, of h] by (metis prod.collapse)
  ultimately show ?thesis using True by (simp add: switch_DeletePod_def switch_Range_def)
qed

lemma ps_UpdatePod_ok:
  assumes ok: "ps_ok h s" and u: "pod_UID oldPod = pod_UID newPod" "pod_UID newPod \<noteq> []"
  shows "\<exists>s'. ps_UpdatePod h s oldPod newPod = (s', None) \<and> ps_ok h s' \<and>
    cached s' = (if assumedOrBoundPod h newPod then (cached s)(pod_UID newPod \<mapsto> newPod) else (cached s)(pod_UID newPod := None))"
proof (cases "pst_PodStates s (pod_UID newPod)")
  case None
  then have new: "cached s (pod_UID newPod) = None" by (simp add: cached_def)
  then have "(cached s)(pod_UID newPod := None) = cached s" by (rule fun_upd_idem)
  then show ?thesis
    using ps_AddPod_ok [OF ok u(2) new] u None by (auto simp: ps_UpdatePod_def NodeInfo_GetPodKey_def ps_GetPodState_def)
next
  case (Some st)
  then have c: "cached s (pod_UID newPod) = Some (cps_Pod st)" by (simp add: cached_def)
  note q = cached_pod [OF ok c]
  obtain s1 where s1: "ps_DeletePod h s (cps_Pod st) = (s1, None)" "ps_ok h s1" "cached s1 = (cached s)(pod_UID newPod := None)"
    using ps_DeletePod_present [OF ok, of "cps_Pod st"] c q by auto
  from ps_AddPod_ok [OF s1(2) u(2)] obtain s2 where "ps_AddPod h s1 newPod = (s2, None)" "ps_ok h s2"
    "cached s2 = (if assumedOrBoundPod h newPod then (cached s)(pod_UID newPod \<mapsto> newPod) else (cached s)(pod_UID newPod := None))"
    unfolding s1(3) fun_upd_upd by auto
  then show ?thesis using s1(1) u Some by (simp add: ps_UpdatePod_def NodeInfo_GetPodKey_def ps_GetPodState_def)
qed

text \<open>The pods after an update: an update between two states the stores do not take leaves an assumed pod alone.\<close>

definition updated :: "cache_handler \<Rightarrow> PodStore \<Rightarrow> v1pod \<Rightarrow> v1pod \<Rightarrow> key \<rightharpoonup> v1pod" where
  "updated h s oldPod newPod =
     (if assumedOrBoundPod h newPod then (cached s)(pod_UID newPod \<mapsto> newPod)
      else if \<not> assumedOrBoundPod h oldPod \<and> is_assumed s (pod_UID newPod) then cached s
      else (cached s)(pod_UID newPod := None))"

lemma ps_GetPodState_snd: "ps_ok h s \<Longrightarrow> snd (ps_GetPodState s k) = is_assumed s k"
  using is_assumed_cached [of h s k] by (auto simp: ps_GetPodState_def cached_def split: option.splits)

lemma cache_UpdatePod_leaves:
  assumes ok: "cache_ok h R c" and r: "ns_room (sc_nodes c) 2" and u: "pod_UID oldPod = pod_UID newPod" "pod_UID newPod \<noteq> []"
  shows "leaves h R (cache_UpdatePod h c oldPod newPod) (updated h (sc_pods c) oldPod newPod)"
proof -
  note D = cache_okD [OF ok]
  let ?Q = "if assumedOrBoundPod h newPod then (cached (sc_pods c))(pod_UID newPod \<mapsto> newPod) else (cached (sc_pods c))(pod_UID newPod := None)"
  obtain n where n: "ns_UpdatePod h (ps_GetPodState (sc_pods c)) (sc_nodes c) oldPod newPod = Some (n, None)" "nodes_ok h R n ?Q"
    using ns_UpdatePod_ok [OF D(2,1) r u] by blast
  obtain p where p: "ps_UpdatePod h (sc_pods c) oldPod newPod = (p, None)" "ps_ok h p" "cached p = ?Q"
    using ps_UpdatePod_ok [OF D(1) u] by blast
  have "leaves h R (switch_UpdatePod h c oldPod newPod) ?Q"
    unfolding switch_UpdatePod_def by (rule Range_leaves [where e = None and x = None and n = n and p = p]) (use n p in simp_all)
  then show ?thesis
    using leaves_same [OF ok] ps_GetPodState_snd [OF D(1)] u
    by (auto simp: cache_UpdatePod_def updated_def NodeInfo_GetPodKey_def)
qed

lemma cache_AssumePod_leaves:
  assumes ok: "cache_ok h R c" and r: "ns_room (sc_nodes c) 1" and m: "assumedOrBoundPod h pd"
  shows "leaves h R (cache_AssumePod h c pd vs)
    (if pod_UID pd \<noteq> [] \<and> cached (sc_pods c) (pod_UID pd) = None then (cached (sc_pods c))(pod_UID pd \<mapsto> pd) else cached (sc_pods c))"
proof (cases "pod_UID pd \<noteq> [] \<and> cached (sc_pods c) (pod_UID pd) = None")
  case True
  note D = cache_okD [OF ok]
  obtain n where n: "ns_AssumePod h (sc_nodes c) pd vs = Some (n, None)" "nodes_ok h R n ((cached (sc_pods c))(pod_UID pd \<mapsto> pd))"
    using ns_AssumePod_ok [OF D(2) r] True by blast
  obtain p where p: "ps_AssumePod (sc_pods c) pd = (p, None)" "ps_ok h p" "cached p = (cached (sc_pods c))(pod_UID pd \<mapsto> pd)"
    using ps_AssumePod_ok [OF D(1) _ _ m] True by auto
  have "leaves h R (switch_Range (\<lambda>s. ns_AssumePod h s pd vs) (\<lambda>s. Some (ps_AssumePod s pd)) c) ((cached (sc_pods c))(pod_UID pd \<mapsto> pd))"
    by (rule Range_leaves [where e = None and x = None and n = n and p = p]) (use n p in simp_all)
  then show ?thesis
    using True by (auto simp: cache_AssumePod_def NodeInfo_GetPodKey_def ps_GetPodState_def cached_def split: option.splits)
next
  case False
  then show ?thesis
    using leaves_same [OF ok] by (auto simp: cache_AssumePod_def NodeInfo_GetPodKey_def ps_GetPodState_def cached_def split: option.splits)
qed

lemma cache_ForgetPod_leaves:
  assumes ok: "cache_ok h R c" and r: "ns_room (sc_nodes c) 1" and l: "legal h c (EvForgetPod pd vs)"
  shows "leaves h R (cache_ForgetPod h c pd vs)
    (if is_assumed (sc_pods c) (pod_UID pd) then (cached (sc_pods c))(pod_UID pd := None) else cached (sc_pods c))"
proof (cases "is_assumed (sc_pods c) (pod_UID pd)")
  case True
  note D = cache_okD [OF ok]
  obtain q where q: "cached (sc_pods c) (pod_UID pd) = Some q" using is_assumed_cached [OF D(1) True] by blast
  then have N: "node_of h q = node_of h pd" using l True by (simp add: legal_def)
  have u: "pod_UID pd \<noteq> []" using cached_pod [OF D(1) q] by simp
  obtain n where n: "ns_ForgetPod h (sc_nodes c) pd vs = Some (n, None)" "nodes_ok h R n ((cached (sc_pods c))(pod_UID pd := None))"
    using ns_ForgetPod_ok [OF D(2) r q u N] by blast
  obtain p where p: "ps_ForgetPod h (sc_pods c) pd = Some (p, None)" "ps_ok h p" "cached p = (cached (sc_pods c))(pod_UID pd := None)"
    using ps_ForgetPod_ok [OF D(1) True q N] by blast
  have "leaves h R (switch_Range (\<lambda>s. ns_ForgetPod h s pd vs) (\<lambda>s. ps_ForgetPod h s pd) c) ((cached (sc_pods c))(pod_UID pd := None))"
    by (rule Range_leaves [where e = None and x = None and n = n and p = p]) (use n p in simp_all)
  then show ?thesis using True u ps_GetPodState_snd [OF D(1)] by (simp add: cache_ForgetPod_def NodeInfo_GetPodKey_def)
next
  case False
  then show ?thesis
    using leaves_same [OF ok] ps_GetPodState_snd [OF cache_okD(1) [OF ok]] by (simp add: cache_ForgetPod_def NodeInfo_GetPodKey_def)
qed

text \<open>\<^verbatim>\<open>RemovePod\<close> takes the pod the cache has, whatever the event carries.\<close>

lemma cache_RemovePod_leaves:
  assumes ok: "cache_ok h R c" and r: "ns_room (sc_nodes c) 1"
  shows "leaves h R (cache_RemovePod h c pd) ((cached (sc_pods c))(pod_UID pd := None))"
proof (cases "pst_PodStates (sc_pods c) (pod_UID pd)")
  case None
  then have n: "cached (sc_pods c) (pod_UID pd) = None" by (simp add: cached_def)
  then have "(cached (sc_pods c))(pod_UID pd := None) = cached (sc_pods c)" by (rule fun_upd_idem)
  moreover obtain es where "switch_DeletePod h c pd = Some (c, es)" using switch_DeletePod_other [OF ok] n by blast
  ultimately show ?thesis
    using leaves_same [OF ok] None by (simp add: cache_RemovePod_def NodeInfo_GetPodKey_def ps_GetPodState_def)
next
  case (Some ps)
  then have c: "cached (sc_pods c) (pod_UID pd) = Some (cps_Pod ps)" by (simp add: cached_def)
  note q = cached_pod [OF cache_okD(1) [OF ok] c]
  have "leaves h R (switch_DeletePod h c (cps_Pod ps)) ((cached (sc_pods c))(pod_UID pd := None))"
    using switch_DeletePod_leaves [OF ok r, of "cps_Pod ps" "cps_Pod ps"] c q by (auto simp: leaves_def)
  then show ?thesis using q Some by (simp add: cache_RemovePod_def NodeInfo_GetPodKey_def ps_GetPodState_def)
qed

lemma cache_FinishReserving_leaves:
  assumes ok: "cache_ok h R c"
  shows "leaves h R (cache_FinishReserving h c pd now) (cached (sc_pods c))"
  using cache_okD [OF ok] ps_FinishReserving_ok [OF cache_okD(1) [OF ok], of pd now]
  by (auto simp: cache_FinishReserving_def leaves_def cache_ok_def split: prod.splits)

subsection \<open>Expiry\<close>

text \<open>The assumed pods whose binding was reported finished more than the time to live ago.\<close>

definition lapsed :: "PodStore \<Rightarrow> time \<Rightarrow> key \<Rightarrow> bool" where
  "lapsed s now k =
     (is_assumed s k \<and>
      (case pst_PodStates s k of
         None \<Rightarrow> False
       | Some ps \<Rightarrow> cps_BindingFinished ps \<and> (case cps_Deadline ps of None \<Rightarrow> False | Some dl \<Rightarrow> dl < now)))"

lemma cleanup_step:
  assumes ok: "cache_ok h R c" and r: "ns_room (sc_nodes c) 1" and a: "pst_AssumedPods (sc_pods c) k \<noteq> None"
  shows "\<exists>x c'. expired (sc_pods c) now k = Some x \<and>
      (case x of None \<Rightarrow> Some c | Some pd \<Rightarrow> map_option fst (podOpFunc h c pd False {})) = Some c' \<and>
      cache_ok h R c' \<and> ns_gen (sc_nodes c') \<le> ns_gen (sc_nodes c) + 1 \<and>
      sc_pods c' = (if lapsed (sc_pods c) now k
        then (sc_pods c)\<lparr>pst_PodStates := (pst_PodStates (sc_pods c))(k := None), pst_AssumedPods := (pst_AssumedPods (sc_pods c))(k := None)\<rparr>
        else sc_pods c)"
proof -
  note D = cache_okD [OF ok] and P = ps_okD [OF cache_okD(1) [OF ok]]
  have as: "is_assumed (sc_pods c) k" using a P(4) [of k] by (auto simp: is_assumed_def)
  then obtain ps where ps: "pst_PodStates (sc_pods c) k = Some ps" using is_assumed_cached [OF D(1) as] by (auto simp: cached_def)
  note q = P(3) [OF ps]
  show ?thesis
  proof (cases "lapsed (sc_pods c) now k")
    case False
    moreover have "expired (sc_pods c) now k = Some None"
      using False as ps q by (auto simp: lapsed_def expired_def split: option.splits)
    ultimately show ?thesis using ok by simp
  next
    case True
    then have x: "expired (sc_pods c) now k = Some (Some (cps_Pod ps))"
      using ps by (auto simp: lapsed_def expired_def split: option.splits)
    have "cached (sc_pods c) (pod_UID (cps_Pod ps)) = Some (cps_Pod ps)" using ps q by (simp add: cached_def)
    from switch_DeletePod_leaves [OF ok r this] obtain c' where
      c': "switch_DeletePod h c (cps_Pod ps) = Some (c', [])" "cache_ok h R c'" "ns_gen (sc_nodes c') \<le> ns_gen (sc_nodes c) + 1"
        "sc_pods c' = fst (ps_DeletePod h (sc_pods c) (cps_Pod ps))"
      using q by blast
    have "podOpFunc h c (cps_Pod ps) False {} = switch_DeletePod h c (cps_Pod ps)" by (simp add: podOpFunc_def switch_DeletePod_def)
    moreover have "sc_pods c' = (sc_pods c)\<lparr>pst_PodStates := (pst_PodStates (sc_pods c))(k := None),
        pst_AssumedPods := (pst_AssumedPods (sc_pods c))(k := None)\<rparr>"
      using c'(4) q ps by (auto simp: ps_DeletePod_def ps_podOp_def NodeInfo_GetPodKey_def)
    ultimately show ?thesis using x c'(1-3) True by simp
  qed
qed

lemma cleanup_loop_ok:
  assumes "cache_ok h R c" "ns_room (sc_nodes c) (int (length ks))" "distinct ks"
  shows "\<exists>c'. cleanup_loop h now ks c = Some c' \<and> cache_ok h R c' \<and>
    (\<forall>k. pst_PodStates (sc_pods c') k = (if k \<in> set ks \<and> lapsed (sc_pods c) now k then None else pst_PodStates (sc_pods c) k)) \<and>
    (\<forall>k. pst_AssumedPods (sc_pods c') k = (if k \<in> set ks \<and> lapsed (sc_pods c) now k then None else pst_AssumedPods (sc_pods c) k))"
  using assms
proof (induction ks arbitrary: c)
  case (Cons k ks)
  show ?case
  proof (cases "pst_AssumedPods (sc_pods c) k = None")
    case True
    then have n: "\<not> lapsed (sc_pods c) now k" by (simp add: lapsed_def is_assumed_def)
    have "ns_room (sc_nodes c) (int (length ks))" using Cons.prems(2) by (simp add: ns_room_def)
    then obtain c' where c': "cleanup_loop h now ks c = Some c'" "cache_ok h R c'"
        "\<And>j. pst_PodStates (sc_pods c') j = (if j \<in> set ks \<and> lapsed (sc_pods c) now j then None else pst_PodStates (sc_pods c) j)"
        "\<And>j. pst_AssumedPods (sc_pods c') j = (if j \<in> set ks \<and> lapsed (sc_pods c) now j then None else pst_AssumedPods (sc_pods c) j)"
      using Cons.IH [OF Cons.prems(1)] Cons.prems(3) by auto
    show ?thesis using True c' n by auto
  next
    case False
    have "ns_room (sc_nodes c) 1" using Cons.prems(2) by (simp add: ns_room_def)
    from cleanup_step [OF Cons.prems(1) this False, of now] obtain x c1 where x: "expired (sc_pods c) now k = Some x"
      "(case x of None \<Rightarrow> Some c | Some pd \<Rightarrow> map_option fst (podOpFunc h c pd False {})) = Some c1"
      and c1: "cache_ok h R c1" "ns_gen (sc_nodes c1) \<le> ns_gen (sc_nodes c) + 1"
      and p1: "sc_pods c1 = (if lapsed (sc_pods c) now k
        then (sc_pods c)\<lparr>pst_PodStates := (pst_PodStates (sc_pods c))(k := None), pst_AssumedPods := (pst_AssumedPods (sc_pods c))(k := None)\<rparr>
        else sc_pods c)"
      by blast
    have same: "lapsed (sc_pods c1) now j = lapsed (sc_pods c) now j" "pst_PodStates (sc_pods c1) j = pst_PodStates (sc_pods c) j"
        "pst_AssumedPods (sc_pods c1) j = pst_AssumedPods (sc_pods c) j" if "j \<noteq> k" for j
      using that unfolding p1 by (simp_all add: lapsed_def is_assumed_def)
    have "ns_room (sc_nodes c1) (int (length ks))" using Cons.prems(2) c1(2) by (simp add: ns_room_def)
    then obtain c' where c': "cleanup_loop h now ks c1 = Some c'" "cache_ok h R c'"
        "\<And>j. pst_PodStates (sc_pods c') j = (if j \<in> set ks \<and> lapsed (sc_pods c1) now j then None else pst_PodStates (sc_pods c1) j)"
        "\<And>j. pst_AssumedPods (sc_pods c') j = (if j \<in> set ks \<and> lapsed (sc_pods c1) now j then None else pst_AssumedPods (sc_pods c1) j)"
      using Cons.IH [OF c1(1)] Cons.prems(3) by auto
    have run: "cleanup_loop h now (k # ks) c = Some c'" using False x c'(1) by auto
    have k: "k \<notin> set ks" using Cons.prems(3) by simp
    have "pst_PodStates (sc_pods c') j = (if j \<in> set (k # ks) \<and> lapsed (sc_pods c) now j then None else pst_PodStates (sc_pods c) j) \<and>
      pst_AssumedPods (sc_pods c') j = (if j \<in> set (k # ks) \<and> lapsed (sc_pods c) now j then None else pst_AssumedPods (sc_pods c) j)" for j
    proof (cases "j = k")
      case True
      then show ?thesis using k unfolding c'(3,4) True by (simp add: p1)
    next
      case False
      then show ?thesis unfolding c'(3,4) same [OF False] by simp
    qed
    then show ?thesis using run c'(2) by blast
  qed
qed simp

lemma finite_assumed: "ps_ok h s \<Longrightarrow> finite (dom (pst_AssumedPods s))"
  by (rule finite_subset [OF _ ps_okD(2)]) (use ps_okD(4) in fastforce)

lemma Cleanup_ok:
  assumes ok: "cache_ok h R c" and o: "ord_ok ord" and r: "cache_room c"
  shows "\<exists>c'. CleanupExpiredAssumedPods ord h c now = Some c' \<and> cache_ok h R c' \<and>
    (\<forall>k. pst_PodStates (sc_pods c') k = (if lapsed (sc_pods c) now k then None else pst_PodStates (sc_pods c) k)) \<and>
    (\<forall>k. is_assumed (sc_pods c') k = (is_assumed (sc_pods c) k \<and> \<not> lapsed (sc_pods c) now k))"
proof -
  let ?ks = "ord (dom (pst_AssumedPods (sc_pods c)))"
  have ks: "set ?ks = dom (pst_AssumedPods (sc_pods c))" "distinct ?ks"
    using o finite_assumed [OF cache_okD(1) [OF ok]] by (simp_all add: ord_ok_def)
  then have "length ?ks = card (dom (pst_AssumedPods (sc_pods c)))" by (metis distinct_card)
  then have "ns_room (sc_nodes c) (int (length ?ks))" using r by (simp add: cache_room_def ns_room_def)
  from cleanup_loop_ok [OF ok this ks(2), of now] obtain c' where c': "CleanupExpiredAssumedPods ord h c now = Some c'" "cache_ok h R c'"
    "\<And>k. pst_PodStates (sc_pods c') k = (if k \<in> set ?ks \<and> lapsed (sc_pods c) now k then None else pst_PodStates (sc_pods c) k)"
    "\<And>k. pst_AssumedPods (sc_pods c') k = (if k \<in> set ?ks \<and> lapsed (sc_pods c) now k then None else pst_AssumedPods (sc_pods c) k)"
    unfolding CleanupExpiredAssumedPods_def by blast
  have "lapsed (sc_pods c) now k \<Longrightarrow> k \<in> set ?ks" for k
    unfolding ks by (auto simp: lapsed_def is_assumed_def split: option.splits)
  then have "k \<in> set ?ks \<and> lapsed (sc_pods c) now k \<longleftrightarrow> lapsed (sc_pods c) now k" for k by blast
  then show ?thesis using c' by (auto simp: is_assumed_def)
qed

subsection \<open>Every step keeps the accounts\<close>

lemma switch_node_events_leave:
  assumes ok: "cache_ok h R c" and r: "ns_room (sc_nodes c) 1"
  shows "leaves h R (switch_AddNode h c nd) (cached (sc_pods c))" "leaves h R (switch_UpdateNode h c od nd) (cached (sc_pods c))"
    "leaves h R (switch_DeleteNode h c nd) (cached (sc_pods c))" "leaves h R (switch_AddNMNode h c nm) (cached (sc_pods c))"
    "leaves h R (switch_UpdateNMNode h c om nm) (cached (sc_pods c))" "leaves h R (switch_DeleteNMNode h c nm) (cached (sc_pods c))"
    "leaves h R (switch_AddCNR h c r1) (cached (sc_pods c))" "leaves h R (switch_UpdateCNR h c r0 r1) (cached (sc_pods c))"
    "leaves h R (switch_DeleteCNR h c r1) (cached (sc_pods c))"
  unfolding switch_AddNode_def switch_UpdateNode_def switch_DeleteNode_def switch_AddNMNode_def switch_UpdateNMNode_def
    switch_DeleteNMNode_def switch_AddCNR_def switch_UpdateCNR_def switch_DeleteCNR_def
  by (rule node_event_leaves [OF ok], rule node_set_events_ok [OF cache_okD(2) [OF ok] r] node_unset_events_ok [OF cache_okD(2) [OF ok] r])+

lemma cache_step_ok:
  assumes ok: "cache_ok h R c" and o: "ord_ok ord" and l: "legal h c ev" and r: "cache_room c"
  shows "\<exists>Q. leaves h R (cache_step ord h ev c) Q"
proof -
  note R = cache_room_le [OF r] and D = cache_okD [OF ok]
  show ?thesis
  proof (cases ev)
    case (EvAddPod pd)
    then show ?thesis using switch_AddPod_leaves [OF ok R(2)] l by (auto simp: legal_def)
  next
    case (EvUpdatePod oldPod newPod)
    then show ?thesis using cache_UpdatePod_leaves [OF ok R(1)] l by (auto simp: legal_def)
  next
    case (EvDeletePod pd)
    show ?thesis
    proof (cases "cached (sc_pods c) (pod_UID pd) = None \<or> \<not> assumedOrBoundPod h pd")
      case True
      then obtain es where "switch_DeletePod h c pd = Some (c, es)" using switch_DeletePod_other [OF ok] by blast
      then show ?thesis using leaves_same [OF ok, of es] EvDeletePod by (intro exI [of _ "cached (sc_pods c)"]) simp
    next
      case False
      then show ?thesis using switch_DeletePod_leaves [OF ok R(2)] l EvDeletePod by (fastforce simp: legal_def leaves_def)
    qed
  next
    case (EvRemovePod pd)
    then show ?thesis using cache_RemovePod_leaves [OF ok R(2)] by auto
  next
    case (EvAssumePod pd vs)
    then show ?thesis using cache_AssumePod_leaves [OF ok R(2)] l by (auto simp: legal_def)
  next
    case (EvForgetPod pd vs)
    then show ?thesis using cache_ForgetPod_leaves [OF ok R(2)] l by auto
  next
    case (EvFinishReserving pd now)
    then show ?thesis using cache_FinishReserving_leaves [OF ok] by auto
  next
    case (EvCleanup now)
    then show ?thesis using Cleanup_ok [OF ok o r, of now] by (auto simp: leaves_def)
  next
    case (EvPartition N b)
    then show ?thesis
      using node_unset_events_ok(4) [OF D(2) R(2), of N b] D(1) by (auto simp: cache_SetNodePartition_def node_event_ok_def leaves_def cache_ok_def)
  qed (simp_all, (rule exI, rule switch_node_events_leave [OF ok R(2)])+)
qed

lemma cache_reachable_ok: "cache_reachable h c \<Longrightarrow> cache_ok h (cl, NewRawStore) c"
proof (induction rule: cache_reachable.induct)
  case cache_start
  then show ?case by (rule newSchedulerCache_ok)
next
  case (cache_next c ord ev c' es)
  then show ?case using cache_step_ok [of h "(cl, NewRawStore)" c ord ev] by (auto simp: leaves_def)
qed

subsection \<open>Assumed pods\<close>

lemma cache_AssumePod_new:
  assumes ok: "cache_ok h R c" and r: "ns_room (sc_nodes c) 1" and m: "assumedOrBoundPod h pd"
    and u: "pod_UID pd \<noteq> []" and new: "cached (sc_pods c) (pod_UID pd) = None"
  shows "\<exists>c1. cache_AssumePod h c pd vs = Some (c1, []) \<and> cache_ok h R c1 \<and> ns_gen (sc_nodes c1) \<le> ns_gen (sc_nodes c) + 1 \<and>
    sc_pods c1 = (sc_pods c)\<lparr>pst_PodStates := (pst_PodStates (sc_pods c))(pod_UID pd \<mapsto> \<lparr>cps_Pod = pd, cps_Deadline = None, cps_BindingFinished = False\<rparr>),
      pst_AssumedPods := (pst_AssumedPods (sc_pods c))(pod_UID pd \<mapsto> True)\<rparr>"
proof -
  note D = cache_okD [OF ok]
  have np: "pst_PodStates (sc_pods c) (pod_UID pd) = None" using new by (simp add: cached_def)
  obtain n where n: "ns_AssumePod h (sc_nodes c) pd vs = Some (n, None)" "ns_gen n \<le> ns_gen (sc_nodes c) + 1"
    "nodes_ok h R n ((cached (sc_pods c))(pod_UID pd \<mapsto> pd))"
    using ns_AssumePod_ok [OF D(2) r new] by blast
  obtain p where p: "ps_AssumePod (sc_pods c) pd = (p, None)" "ps_ok h p" "cached p = (cached (sc_pods c))(pod_UID pd \<mapsto> pd)"
    using ps_AssumePod_ok [OF D(1) u new m] by blast
  have "cache_AssumePod h c pd vs = Some (\<lparr>sc_nodes = n, sc_pods = p\<rparr>, [])"
    using n(1) p(1) np u by (simp add: cache_AssumePod_def switch_Range_def NodeInfo_GetPodKey_def ps_GetPodState_def)
  moreover have "p = (sc_pods c)\<lparr>pst_PodStates := (pst_PodStates (sc_pods c))(pod_UID pd \<mapsto> \<lparr>cps_Pod = pd, cps_Deadline = None, cps_BindingFinished = False\<rparr>),
      pst_AssumedPods := (pst_AssumedPods (sc_pods c))(pod_UID pd \<mapsto> True)\<rparr>"
    using p(1) np u ps_okD(1) [OF D(1)] by (simp add: ps_AssumePod_def NodeInfo_GetPodKey_def)
  ultimately show ?thesis using n p by (simp add: cache_ok_def)
qed

lemma Cleanup_cached:
  assumes "cache_ok h R c" "ord_ok ord" "cache_room c"
  shows "\<exists>c'. CleanupExpiredAssumedPods ord h c now = Some c' \<and>
    cached (sc_pods c') = (\<lambda>k. if lapsed (sc_pods c) now k then None else cached (sc_pods c) k)"
  using Cleanup_ok [OF assms, of now] by (force simp: cached_def fun_eq_iff)

subsection \<open>Properties\<close>

text \<open>
  C3. The scheduler cache accounts for its pods exactly. In every state that events can bring about, in whatever order pod and node
  events, assumptions, expiries and partitions interleave, each node of the cache has the requested, non-zero
  and reserved amounts of exactly the pods the pod store has on that node, bound or assumed, and offers what
  its objects say, also for a node known only by its pods or deleted and added again; a cached pod with a node has
  that node in the cache; and no legal event makes the process panic or exit.
\<close>

theorem cache_accounting:
  assumes "cache_reachable h c"
  shows "(\<forall>N n. ns_Get (sc_nodes c) N = Some n \<longrightarrow>
      node_sums (ch_res h) n (pods_on h (cached (sc_pods c)) N) \<and> offers_ok (ch_res h) n \<and>
      (NumPods n = 0 \<longleftrightarrow> pods_on h (cached (sc_pods c)) N = Map.empty)) \<and>
    (\<forall>k pd. cached (sc_pods c) k = Some pd \<longrightarrow> node_of h pd \<noteq> [] \<longrightarrow> ns_Get (sc_nodes c) (node_of h pd) \<noteq> None) \<and>
    (\<forall>ord ev. ord_ok ord \<longrightarrow> legal h c ev \<longrightarrow> cache_room c \<longrightarrow>
      (\<exists>c' es. cache_step ord h ev c = Some (c', es) \<and> cache_reachable h c'))"
proof (intro conjI allI impI)
  have ok: "cache_ok h (id, NewRawStore) c" using cache_reachable_ok [OF assms] .
  note nodes = cache_okD(2) [OF ok]
  fix N n
  assume n: "ns_Get (sc_nodes c) N = Some n"
  have "node_ok (ch_res h) n (pods_on h (cached (sc_pods c)) N)" by (rule node_known [OF nodes n])
  then show "node_sums (ch_res h) n (pods_on h (cached (sc_pods c)) N)" "offers_ok (ch_res h) n"
    "NumPods n = 0 \<longleftrightarrow> pods_on h (cached (sc_pods c)) N = Map.empty"
    using NumPods_zero unfolding node_ok_def by blast+
next
  fix k pd
  assume pd: "cached (sc_pods c) k = Some pd" and N: "node_of h pd \<noteq> []"
  have "pods_on h (cached (sc_pods c)) (node_of h pd) k \<noteq> None" using pd N by (simp add: pods_on_def)
  then have "pods_on h (cached (sc_pods c)) (node_of h pd) \<noteq> Map.empty" by (metis (full_types))
  then show "ns_Get (sc_nodes c) (node_of h pd) \<noteq> None"
    using nodes_okD(2) [OF cache_okD(2) [OF cache_reachable_ok [OF assms]], of "node_of h pd"] by (auto simp: node_at_def)
next
  fix ord ev
  assume s: "ord_ok ord" "legal h c ev" "cache_room c"
  obtain c' es where "cache_step ord h ev c = Some (c', es)"
    using cache_step_ok [OF cache_reachable_ok [where cl = id, OF assms] s] by (auto simp: leaves_def)
  then show "\<exists>c' es. cache_step ord h ev c = Some (c', es) \<and> cache_reachable h c'" using cache_reachable.cache_next [OF assms s] by blast
qed

definition handler_example :: cache_handler where
  "handler_example = \<lparr>ch_SchedulerType = ''godel'', ch_ComponentName = ''s'', ch_PodAssumedTTL = 900, ch_unmarshal = (\<lambda>_. None), ch_res = cfg_example\<rparr>"

lemma example_pod: "assumedOrBoundPod handler_example v1pod_example" "node_of handler_example v1pod_example = ''n1''" "pod_UID v1pod_example = ''u1''"
    "\<not> assumedOrBoundPod handler_example (v1pod_example\<lparr>pod_NodeName := []\<rparr>)"
  by (simp_all add: assumedOrBoundPod_def v1pod_example_def BoundPod_def pod.truncate_def node_of_def GetNodeNameFromPod_def
      AssumedPodOfGodel_def AssumedPod_def ann_def)

lemma example_room: "cache_room newSchedulerCache"
  using ns_NewCache_inv by (simp add: cache_room_def ns_room_def newSchedulerCache_def ps_NewCache_def)

theorem cache_accounting_witness:
  "\<exists>c n. cache_reachable handler_example c \<and> ns_Get (sc_nodes c) ''n1'' = Some n \<and>
     node_sums cfg_example n [''u1'' \<mapsto> NewPodInfo cfg_example v1pod_example] \<and> NumPods n \<noteq> 0"
proof -
  let ?h = handler_example and ?ev = "EvAssumePod v1pod_example []"
  have l: "legal ?h newSchedulerCache ?ev" by (simp add: legal_def example_pod)
  obtain c es where c: "cache_step sorted_list_of_set ?h ?ev newSchedulerCache = Some (c, es)" "cache_reachable ?h c"
    using cache_accounting [OF cache_start [of ?h]] ord_ok_sorted l example_room by blast
  have "leaves ?h (id, NewRawStore) (cache_AssumePod ?h newSchedulerCache v1pod_example []) [''u1'' \<mapsto> v1pod_example]"
    using cache_AssumePod_leaves [OF newSchedulerCache_ok [of ?h id], of v1pod_example "[]"] example_pod
      cache_room_le(2) [OF example_room] ps_NewCache_ok(2) by (simp add: newSchedulerCache_def)
  then have P: "cached (sc_pods c) = [''u1'' \<mapsto> v1pod_example]" using c(1) by (simp add: leaves_def)
  then have on: "pods_on ?h (cached (sc_pods c)) ''n1'' = [''u1'' \<mapsto> NewPodInfo cfg_example v1pod_example]"
    by (auto simp: pods_on_def fun_eq_iff example_pod handler_example_def [THEN arg_cong, of ch_res])
  have "ns_Get (sc_nodes c) (node_of ?h v1pod_example) \<noteq> None"
    using cache_accounting [OF c(2), THEN conjunct2, THEN conjunct1, rule_format, of "''u1''" v1pod_example] P by (simp add: example_pod)
  then obtain n where n: "ns_Get (sc_nodes c) ''n1'' = Some n" by (auto simp: example_pod)
  have "node_sums (ch_res ?h) n (pods_on ?h (cached (sc_pods c)) ''n1'') \<and> NumPods n \<noteq> 0"
    using cache_accounting [OF c(2), THEN conjunct1, rule_format, OF n] on by simp
  then show ?thesis using c(2) n on by (auto simp: handler_example_def)
qed

text \<open>
  C28. The life of an assumed pod. A pod assumed on a node enters the cache; while its binding is not reported finished no clean-up,
  at any time, removes it; after \<^verbatim>\<open>FinishReserving\<close> at time \<open>t\<close> the clean-ups keep it until \<open>t\<close> plus the time to live and the first one
  after that removes it, together with exactly the other assumed pods whose time is up, and ends.
\<close>

theorem assumed_pod_expires:
  assumes "cache_reachable h c" "ord_ok ord" and "assumedOrBoundPod h pd" "pod_UID pd \<noteq> []" "cached (sc_pods c) (pod_UID pd) = None"
    and "ns_gen (sc_nodes c) + int (card (dom (pst_AssumedPods (sc_pods c)))) + 4 < 2 ^ 63"
  shows "\<exists>c1 c2. cache_AssumePod h c pd vs = Some (c1, []) \<and> cached (sc_pods c1) = (cached (sc_pods c))(pod_UID pd \<mapsto> pd) \<and>
    (\<forall>now. \<exists>c3. CleanupExpiredAssumedPods ord h c1 now = Some c3 \<and> cached (sc_pods c3) (pod_UID pd) = Some pd) \<and>
    cache_FinishReserving h c1 pd t = Some (c2, []) \<and>
    (\<forall>now. \<exists>c3. CleanupExpiredAssumedPods ord h c2 now = Some c3 \<and>
       cached (sc_pods c3) (pod_UID pd) = (if t + ch_PodAssumedTTL h < now then None else Some pd) \<and>
       (\<forall>k. k \<noteq> pod_UID pd \<longrightarrow> cached (sc_pods c3) k = (if lapsed (sc_pods c) now k then None else cached (sc_pods c) k)))"
proof -
  let ?u = "pod_UID pd"
  have ok: "cache_ok h (id, NewRawStore) c" using cache_reachable_ok [OF assms(1)] .
  have "ns_room (sc_nodes c) 1" using assms(6) by (simp add: ns_room_def)
  from cache_AssumePod_new [OF ok this assms(3-5)] obtain c1 where c1: "cache_AssumePod h c pd vs = Some (c1, [])" "cache_ok h (id, NewRawStore) c1"
      "ns_gen (sc_nodes c1) \<le> ns_gen (sc_nodes c) + 1"
    and p1: "sc_pods c1 = (sc_pods c)\<lparr>pst_PodStates := (pst_PodStates (sc_pods c))(?u \<mapsto> \<lparr>cps_Pod = pd, cps_Deadline = None, cps_BindingFinished = False\<rparr>),
      pst_AssumedPods := (pst_AssumedPods (sc_pods c))(?u \<mapsto> True)\<rparr>"
    by blast
  define c2 where "c2 = c1\<lparr>sc_pods := fst (ps_FinishReserving h (sc_pods c1) pd t)\<rparr>"
  have c2: "cache_FinishReserving h c1 pd t = Some (c2, [])"
    using assms(4) by (simp add: cache_FinishReserving_def c2_def ps_FinishReserving_def NodeInfo_GetPodKey_def p1 is_assumed_def)
  have p2: "sc_pods c2 = (sc_pods c1)\<lparr>pst_PodStates := (pst_PodStates (sc_pods c1))
      (?u \<mapsto> \<lparr>cps_Pod = pd, cps_Deadline = Some (t + ch_PodAssumedTTL h), cps_BindingFinished = True\<rparr>)\<rparr>"
    using assms(4) by (simp add: c2_def ps_FinishReserving_def NodeInfo_GetPodKey_def p1 is_assumed_def)
  have "leaves h (id, NewRawStore) (cache_FinishReserving h c1 pd t) (cached (sc_pods c1))" by (rule cache_FinishReserving_leaves [OF c1(2)])
  then have ok2: "cache_ok h (id, NewRawStore) c2" "cached (sc_pods c2) = cached (sc_pods c1)" using c2 by (simp_all add: leaves_def)
  have "card (insert ?u (dom (pst_AssumedPods (sc_pods c)))) \<le> card (dom (pst_AssumedPods (sc_pods c))) + 1"
    using finite_assumed [OF cache_okD(1) [OF ok]] by (simp add: card_insert_if)
  then have room: "cache_room c1" "cache_room c2" using c1(3) assms(6) by (simp_all add: cache_room_def ns_room_def c2_def p1 ps_FinishReserving_def NodeInfo_GetPodKey_def assms(4) is_assumed_def)
  have cd: "cached (sc_pods c1) = (cached (sc_pods c))(?u \<mapsto> pd)" by (simp add: p1 cached_def fun_eq_iff)
  have l1: "\<not> lapsed (sc_pods c1) now ?u" for now by (simp add: lapsed_def p1)
  have l2: "lapsed (sc_pods c2) now k = (if k = ?u then t + ch_PodAssumedTTL h < now else lapsed (sc_pods c) now k)" for now k
    by (simp add: lapsed_def p2 p1 is_assumed_def)
  have "\<exists>c3. CleanupExpiredAssumedPods ord h c1 now = Some c3 \<and> cached (sc_pods c3) ?u = Some pd" for now
    using Cleanup_cached [OF c1(2) assms(2) room(1), of now] l1 cd by auto
  moreover have "\<exists>c3. CleanupExpiredAssumedPods ord h c2 now = Some c3 \<and>
       cached (sc_pods c3) ?u = (if t + ch_PodAssumedTTL h < now then None else Some pd) \<and>
       (\<forall>k. k \<noteq> ?u \<longrightarrow> cached (sc_pods c3) k = (if lapsed (sc_pods c) now k then None else cached (sc_pods c) k))" for now
    using Cleanup_cached [OF ok2(1) assms(2) room(2), of now] unfolding ok2(2) cd l2 by auto
  ultimately show ?thesis using c1(1) c2 cd by blast
qed

theorem assumed_pod_expires_witness:
  "\<exists>c1 c2 c3. cache_AssumePod handler_example newSchedulerCache v1pod_example [] = Some (c1, []) \<and>
     cache_FinishReserving handler_example c1 v1pod_example 100 = Some (c2, []) \<and>
     CleanupExpiredAssumedPods sorted_list_of_set handler_example c2 1001 = Some c3 \<and>
     cached (sc_pods c1) ''u1'' = Some v1pod_example \<and> cached (sc_pods c3) ''u1'' = None"
proof -
  have new: "cached (sc_pods newSchedulerCache) (pod_UID v1pod_example) = None" by (simp add: newSchedulerCache_def ps_NewCache_ok)
  have "ns_gen (sc_nodes newSchedulerCache) + int (card (dom (pst_AssumedPods (sc_pods newSchedulerCache)))) + 4 < 2 ^ 63"
    using ns_NewCache_inv by (simp add: newSchedulerCache_def ps_NewCache_def)
  note room = this
  have u: "pod_UID v1pod_example \<noteq> []" by (simp add: example_pod)
  from assumed_pod_expires [OF cache_start ord_ok_sorted example_pod(1) u new room, of "[]" 100, unfolded example_pod(3)] show ?thesis
    apply (elim exE conjE)
    subgoal for c1 c2
      by (drule spec [of _ 1001], drule spec [of _ 1001]) (auto simp: handler_example_def)
    done
qed

text \<open>
  C11. A delete event can miss an assumed pod. \<^verbatim>\<open>DeletePod\<close> of the cache is the one of the switch, which asks whether the pod of the event
  is bound or assumed; where the event still carries the pod as it was before it was assumed, nothing is removed and no error is
  reported. \<^verbatim>\<open>RemovePod\<close>, written for this case and called by nobody, would remove the pod.
\<close>

theorem delete_event_misses_assumed_pod:
  assumes "cache_reachable h c" "ns_gen (sc_nodes c) + 1 < 2 ^ 63" "cached (sc_pods c) (pod_UID pd) = Some q" "\<not> assumedOrBoundPod h pd"
  shows "switch_DeletePod h c pd = Some (c, []) \<and>
    (\<exists>c' es. cache_RemovePod h c pd = Some (c', es) \<and> cached (sc_pods c') = (cached (sc_pods c))(pod_UID pd := None))"
proof -
  have ok: "cache_ok h (id, NewRawStore) c" using cache_reachable_ok [OF assms(1)] .
  have "ns_room (sc_nodes c) 1" using assms(2) by (simp add: ns_room_def)
  from cache_RemovePod_leaves [OF ok this, of pd] switch_DeletePod_other [OF ok, of pd] show ?thesis
    using assms(4) by (auto simp: leaves_def)
qed

theorem delete_event_misses_assumed_pod_witness:
  "\<exists>c. cache_reachable handler_example c \<and> IsAssumedPod (sc_pods c) v1pod_example = Inr True \<and>
     switch_DeletePod handler_example c (v1pod_example\<lparr>pod_NodeName := []\<rparr>) = Some (c, [])"
proof -
  let ?h = handler_example and ?c = newSchedulerCache
  have new: "cached (sc_pods ?c) (pod_UID v1pod_example) = None" by (simp add: newSchedulerCache_def ps_NewCache_ok)
  have u: "pod_UID v1pod_example \<noteq> []" by (simp add: example_pod)
  obtain c where c: "cache_AssumePod ?h ?c v1pod_example [] = Some (c, [])" "ns_gen (sc_nodes c) \<le> ns_gen (sc_nodes ?c) + 1"
      "sc_pods c = (sc_pods ?c)\<lparr>pst_PodStates := (pst_PodStates (sc_pods ?c))(pod_UID v1pod_example \<mapsto> \<lparr>cps_Pod = v1pod_example, cps_Deadline = None, cps_BindingFinished = False\<rparr>),
      pst_AssumedPods := (pst_AssumedPods (sc_pods ?c))(pod_UID v1pod_example \<mapsto> True)\<rparr>"
    using cache_AssumePod_new [OF newSchedulerCache_ok cache_room_le(2) [OF example_room] example_pod(1) u new] by blast
  have l: "legal ?h ?c (EvAssumePod v1pod_example [])" by (simp add: legal_def example_pod)
  have r: "cache_reachable ?h c"
    by (rule cache_next [OF cache_start ord_ok_sorted l example_room]) (use c(1) in simp)
  have "ns_gen (sc_nodes c) + 1 < 2 ^ 63" using c(2) ns_NewCache_inv(2) by (simp add: newSchedulerCache_def)
  from delete_event_misses_assumed_pod [OF r this, of "v1pod_example\<lparr>pod_NodeName := []\<rparr>" v1pod_example]
  have "switch_DeletePod ?h c (v1pod_example\<lparr>pod_NodeName := []\<rparr>) = Some (c, [])"
    using example_pod(3,4) c(3) by (simp add: cached_def)
  then show ?thesis using r c(3) u by (intro exI [of _ c]) (simp add: IsAssumedPod_def NodeInfo_GetPodKey_def is_assumed_def)
qed

end
