(* ===== verification/Node_Snapshot.thy ===== *)
theory Node_Snapshot
  imports Scheduler_Cache
begin

section \<open>The nodes of the snapshot (node_store.go, UpdateSnapshot)\<close>

text \<open>
  At the beginning of a scheduling cycle the cache brings the node store of the snapshot up to date, cloning only the nodes that
  changed. Between two updates scheduling changes the snapshot on its own: it assumes pods there, removing the victims of a
  preemption, and forgets them. \<open>snap_cfg\<close> has the feature gate for concurrent scheduling of sub-clusters, the sub-cluster of
  the snapshot and the label that names the sub-cluster of a node. The reset of the transient scheduling information is left out.
\<close>

subsection \<open>Operations\<close>

record snap_cfg =
  sg_SubClusterConcurrentScheduling :: bool
  sg_SubCluster :: string
  sg_GlobalSubClusterKey :: string

definition label_of :: "(string \<rightharpoonup> string) \<Rightarrow> string \<Rightarrow> string" where
  "label_of labels k = (case labels k of None \<Rightarrow> [] | Some v \<Rightarrow> v)"

definition nodeInfoBelongToSubCluster :: "snap_cfg \<Rightarrow> NodeInfoImpl \<Rightarrow> bool" where
  "nodeInfoBelongToSubCluster g n =
     (sg_SubCluster g = [] \<or>
      (case ni_Node n of None \<Rightarrow> False | Some x \<Rightarrow> label_of (node_Labels x) (sg_GlobalSubClusterKey g) = sg_SubCluster g) \<or>
      (case ni_NMNode n of None \<Rightarrow> False | Some x \<Rightarrow> label_of (nm_Labels x) (sg_GlobalSubClusterKey g) = sg_SubCluster g))"

text \<open>In the code the placeholder is one object that all nodes outside the sub-cluster share; here each entry has its own
  empty node. The two agree as long as nothing writes to a placeholder, and the code keeps it out of the slices of nodes
  scheduling chooses from.\<close>

definition GlobalNodeInfoPlaceHolder :: "NodeInfoImpl StoredObj" where
  "GlobalNodeInfoPlaceHolder = \<lparr>so_generation = 0, so_obj = empty_node\<rparr>"

text \<open>The two functions \<^verbatim>\<open>UpdateSnapshot\<close> passes on: one clones a node, the other removes the nodes that are gone.\<close>

definition node_clone_func :: "snap_cfg \<Rightarrow> (NodeInfoImpl, NodeInfoImpl) clone_func" where
  "node_clone_func g nodeName obj snapshot =
     (if nodeName \<noteq> [] then
        (let snapshot1 = (if RawStore_Get snapshot nodeName \<noteq> None then RawStore_Delete snapshot nodeName else snapshot) in
         if sg_SubClusterConcurrentScheduling g \<and> \<not> nodeInfoBelongToSubCluster g (so_obj obj)
         then Some (RawStore_Set snapshot1 nodeName GlobalNodeInfoPlaceHolder)
         else do { n \<leftarrow> NodeInfo_Clone (so_obj obj); Some (RawStore_Set snapshot1 nodeName (obj\<lparr>so_obj := n\<rparr>)) })
      else Some snapshot)"

definition removable :: "NodeInfoImpl ListStoreImpl \<Rightarrow> key \<Rightarrow> bool" where
  "removable cache k = (case ListStore_Get cache k of None \<Rightarrow> True | Some obj \<Rightarrow> ObjectIsNil (so_obj obj))"

definition clean_one ::
  "NodeInfoImpl ListStoreImpl \<Rightarrow> key \<Rightarrow> NodeInfoImpl StoredObj \<Rightarrow> NodeInfoImpl RawStoreImpl \<times> int \<Rightarrow> (NodeInfoImpl RawStoreImpl \<times> int) \<times> bool" where
  "clean_one cache k existingObj st =
     (case st of (snapshot, toDelete) \<Rightarrow>
        if toDelete \<le> 0 then ((snapshot, toDelete), False)
        else if removable cache k then ((RawStore_Delete snapshot k, toDelete - 1), True)
        else ((snapshot, toDelete), True))"

definition node_clean_func ::
  "(key set \<Rightarrow> key list) \<Rightarrow> NodeInfoImpl ListStoreImpl \<Rightarrow> nat \<Rightarrow> NodeInfoImpl RawStoreImpl \<Rightarrow> NodeInfoImpl RawStoreImpl" where
  "node_clean_func ord cache deletedLen snapshot =
     (let toDelete = int (RawStore_Len snapshot) - (int (ListStore_Len cache) - int deletedLen) in
      if toDelete > 0 then fst (fst (RawStore_ConditionRange ord (clean_one cache) (snapshot, toDelete))) else snapshot)"

definition ns_UpdateSnapshot :: "snap_cfg \<Rightarrow> (key set \<Rightarrow> key list) \<Rightarrow> NodeStore \<Rightarrow> NodeStore \<Rightarrow> NodeStore option" where
  "ns_UpdateSnapshot g ord cacheStore snapshotStore =
     do { (cache, snapshot) \<leftarrow> TransferGenerationStore (ns_Store cacheStore) (ns_Store snapshotStore);
          r \<leftarrow> UpdateRawStore ord cache (node_clone_func g) (node_clean_func ord cache (card (ns_Deleted snapshotStore))) snapshot;
          Some (snapshotStore\<lparr>ns_Store := RawS r\<rparr>) }"

text \<open>\<^verbatim>\<open>Get\<close> of the snapshot answers only for a node with an object.\<close>

definition Snapshot_Get :: "NodeStore \<Rightarrow> string \<Rightarrow> NodeInfoImpl option" where
  "Snapshot_Get s nodeName =
     (case ns_Get s nodeName of
        None \<Rightarrow> None
      | Some n \<Rightarrow> if ni_Node n \<noteq> None \<or> ni_NMNode n \<noteq> None then Some n else None)"

subsection \<open>The copy and the clean-up\<close>

definition node_copy :: "snap_cfg \<Rightarrow> NodeInfoImpl StoredObj \<Rightarrow> NodeInfoImpl StoredObj" where
  "node_copy g obj =
     (if sg_SubClusterConcurrentScheduling g \<and> \<not> nodeInfoBelongToSubCluster g (so_obj obj) then GlobalNodeInfoPlaceHolder else obj)"

lemma node_clone_func_copies:
  assumes "\<And>k obj. ListStore_Get ls k = Some obj \<Longrightarrow> k \<noteq> [] \<and> NodeInfo_Clone (so_obj obj) = Some (so_obj obj)"
  shows "copies (node_clone_func g) (node_copy g) ls"
proof -
  have "RawStore_Set (if RawStore_Get r k \<noteq> None then RawStore_Delete r k else r) k x = RawStore_Set r k x" for r :: "NodeInfoImpl RawStoreImpl" and k x
    by (simp add: RawStore_Set_def RawStore_Delete_def)
  then show ?thesis
    using assms by (auto simp: copies_def node_clone_func_def node_copy_def Let_def simp del: not_None_eq)
qed

lemma clean_one_eq:
  "clean_one cache k x (s, d) =
     (if d \<le> 0 then ((s, d), False) else if removable cache k then ((RawStore_Delete s k, d - 1), True) else ((s, d), True))"
  by (simp add: clean_one_def)

lemma clean_stops: "d \<le> 0 \<Longrightarrow> fst (condition_range (\<lambda>(s, _). RawStore_Get s) (clean_one cache) ks (r, d)) = (r, d)"
  by (induction ks) (auto simp: clean_one_eq split: option.splits)

text \<open>What the clean-up removes was removable, and is marked as changed.\<close>

lemma clean_keeps:
  assumes "((r', d'), b) = condition_range (\<lambda>(s, _). RawStore_Get s) (clean_one cache) ks (r, d)"
  shows "rs_generation r' = rs_generation r \<and> finite (rs_updatedSet r') = finite (rs_updatedSet r) \<and>
    rs_updatedSet r \<subseteq> rs_updatedSet r' \<and> dom (rs_store r') \<subseteq> dom (rs_store r) \<and>
    (\<forall>k. rs_store r' k \<noteq> rs_store r k \<longrightarrow> rs_store r' k = None \<and> removable cache k \<and> k \<in> rs_updatedSet r')"
  using assms
proof (induction ks arbitrary: r d)
  case (Cons k ks)
  show ?case
  proof (cases "rs_store r k = None")
    case True
    then have "((r', d'), b) = condition_range (\<lambda>(s, _). RawStore_Get s) (clean_one cache) ks (r, d)"
      using Cons.prems by (simp add: RawStore_Get_eq)
    then show ?thesis by (rule Cons.IH)
  next
    case False
    then obtain x where x: "rs_store r k = Some x" by blast
    consider "d \<le> 0" | "0 < d" "removable cache k" | "0 < d" "\<not> removable cache k" by linarith
    then show ?thesis
    proof cases
      case 1
      then have "r' = r" using Cons.prems x by (simp add: RawStore_Get_eq clean_one_eq)
      then show ?thesis by simp
    next
      case 2
      then have "((r', d'), b) = condition_range (\<lambda>(s, _). RawStore_Get s) (clean_one cache) ks (RawStore_Delete r k, d - 1)"
        using Cons.prems x by (simp add: RawStore_Get_eq clean_one_eq)
      note IH = Cons.IH [OF this]
      have rs: "rs_store (RawStore_Delete r k) = (rs_store r)(k := None)" "rs_updatedSet (RawStore_Delete r k) = insert k (rs_updatedSet r)"
        "rs_generation (RawStore_Delete r k) = rs_generation r" by (simp_all add: RawStore_Delete_def)
      have "rs_store r' j = None \<and> removable cache j \<and> j \<in> rs_updatedSet r'" if "rs_store r' j \<noteq> rs_store r j" for j
      proof (cases "j = k")
        case True
        moreover have "rs_store r' k = None" using IH rs(1) by (metis fun_upd_same)
        ultimately show ?thesis using 2(2) IH rs(2) by auto
      next
        case False
        then show ?thesis using IH that rs(1) by simp
      qed
      moreover have "dom (rs_store r') \<subseteq> dom (rs_store r)" using IH unfolding rs by (auto split: if_splits)
      ultimately show ?thesis using IH unfolding rs by simp
    next
      case 3
      then have "((r', d'), b) = condition_range (\<lambda>(s, _). RawStore_Get s) (clean_one cache) ks (r, d)"
        using Cons.prems x by (simp add: RawStore_Get_eq clean_one_eq)
      then show ?thesis by (rule Cons.IH)
    qed
  qed
qed simp

lemma node_clean_keeps:
  assumes r'_def: "r' = node_clean_func ord cache dl r"
  shows "rs_generation r' = rs_generation r" "finite (rs_updatedSet r') = finite (rs_updatedSet r)"
    "dom (rs_store r') \<subseteq> dom (rs_store r)" "rs_store r' k \<noteq> rs_store r k \<Longrightarrow> rs_store r' k = None \<and> removable cache k \<and> k \<in> rs_updatedSet r'"
proof -
  have *: "rs_generation r' = rs_generation r \<and> finite (rs_updatedSet r') = finite (rs_updatedSet r) \<and>
    rs_updatedSet r \<subseteq> rs_updatedSet r' \<and> dom (rs_store r') \<subseteq> dom (rs_store r) \<and>
    (\<forall>k. rs_store r' k \<noteq> rs_store r k \<longrightarrow> rs_store r' k = None \<and> removable cache k \<and> k \<in> rs_updatedSet r')"
  proof (cases "int (RawStore_Len r) - (int (ListStore_Len cache) - int dl) > 0")
    case True
    obtain r1 d1 b where c: "((r1, d1), b) = condition_range (\<lambda>(s, _). RawStore_Get s) (clean_one cache) (ord (dom (rs_store r)))
        (r, int (RawStore_Len r) - (int (ListStore_Len cache) - int dl))" by (metis surj_pair)
    moreover have "r' = r1" using True by (simp add: r'_def node_clean_func_def RawStore_ConditionRange_def c [symmetric])
    ultimately show ?thesis using clean_keeps [OF c] by simp
  next
    case False
    then have "r' = r" by (simp add: r'_def node_clean_func_def)
    then show ?thesis by simp
  qed
  then show "rs_generation r' = rs_generation r" "finite (rs_updatedSet r') = finite (rs_updatedSet r)"
    "dom (rs_store r') \<subseteq> dom (rs_store r)" "rs_store r' k \<noteq> rs_store r k \<Longrightarrow> rs_store r' k = None \<and> removable cache k \<and> k \<in> rs_updatedSet r'"
    by blast+
qed

text \<open>Where every cached node has an object and the snapshot has no deleted ones of its own, the clean-up is the default one.\<close>

lemma node_clean_default:
  assumes "\<And>k obj. ListStore_Get cache k = Some obj \<Longrightarrow> \<not> ObjectIsNil (so_obj obj)" and o: "ord_ok ord" and f: "finite (dom (rs_store r))"
  shows "node_clean_func ord cache 0 r = DefaultCleanFunc ord cache r"
proof -
  have rem: "removable cache k \<longleftrightarrow> ListStore_Get cache k = None" for k using assms by (auto simp: removable_def split: option.splits)
  have step: "clean_one cache = (\<lambda>k _ (snap, diff).
      if diff \<le> 0 then ((snap, diff), False)
      else if ListStore_Get cache k = None then ((RawStore_Delete snap k, diff - 1), True)
      else ((snap, diff), True))"
    by (intro ext) (auto simp: clean_one_eq rem split: prod.splits)
  let ?d = "int (RawStore_Len r) - int (ListStore_Len cache)"
  have "fst (fst (RawStore_ConditionRange ord (clean_one cache) (r, ?d))) = r" if "?d \<le> 0"
    using clean_stops [OF that] by (simp add: RawStore_ConditionRange_def)
  then show ?thesis
    unfolding node_clean_func_def DefaultCleanFunc_def step [symmetric] Let_def by simp
qed

lemma ListStore_Len_card: "walk_ok ls kvs \<Longrightarrow> ListStore_Len ls = card (dom (ListStore_Get ls))"
  by (metis distinct_card dom_map_of_conv_image_fst length_map set_map walk_ok_def)

text \<open>A range that meets enough removable nodes first removes nothing after them.\<close>

lemma clean_spends:
  assumes "distinct as" "set as \<subseteq> dom (rs_store r)" "\<forall>k \<in> set as. removable cache k" "d \<le> int (length as)" "x \<notin> set as"
    and "((r', d'), b) = condition_range (\<lambda>(s, _). RawStore_Get s) (clean_one cache) (as @ bs) (r, d)"
  shows "rs_store r' x = rs_store r x"
  using assms
proof (induction as arbitrary: r d)
  case Nil
  then have "fst ((r', d'), b) = (r, d)" using clean_stops [of d cache bs r] by simp
  then show ?case by simp
next
  case (Cons k as)
  then obtain y where y: "rs_store r k = Some y" by auto
  show ?case
  proof (cases "d \<le> 0")
    case True
    then have "r' = r" using Cons.prems(6) y by (simp add: RawStore_Get_eq clean_one_eq)
    then show ?thesis by simp
  next
    case False
    then have run: "((r', d'), b) = condition_range (\<lambda>(s, _). RawStore_Get s) (clean_one cache) (as @ bs) (RawStore_Delete r k, d - 1)"
      using Cons.prems(3,6) y by (simp add: RawStore_Get_eq clean_one_eq)
    have "set as \<subseteq> dom (rs_store (RawStore_Delete r k))" using Cons.prems(1,2) by (auto simp: RawStore_Delete_def)
    from Cons.IH [OF _ this _ _ _ run] have "rs_store r' x = rs_store (RawStore_Delete r k) x" using Cons.prems(1,3-5) by simp
    then show ?thesis using Cons.prems(5) by (simp add: RawStore_Delete_def)
  qed
qed

subsection \<open>Histories of cache and snapshot\<close>

inductive snapshot_reachable :: "cache_handler \<Rightarrow> snap_cfg \<Rightarrow> SchedulerCache \<Rightarrow> NodeStore \<Rightarrow> bool" for h g where
  snap_start: "snapshot_reachable h g newSchedulerCache ns_NewSnapshot"
| snap_event: "snapshot_reachable h g c s \<Longrightarrow> ord_ok ord \<Longrightarrow> legal h c ev \<Longrightarrow> cache_room c \<Longrightarrow>
    cache_step ord h ev c = Some (c', es) \<Longrightarrow> snapshot_reachable h g c' s"
| snap_assume: "snapshot_reachable h g c s \<Longrightarrow> ns_AssumePod h s pd vs = Some (s', e) \<Longrightarrow> snapshot_reachable h g c s'"
| snap_forget: "snapshot_reachable h g c s \<Longrightarrow> ns_ForgetPod h s pd vs = Some (s', e) \<Longrightarrow> snapshot_reachable h g c s'"
| snap_update: "snapshot_reachable h g c s \<Longrightarrow> ord_ok ord \<Longrightarrow> ns_Get (sc_nodes c) [] = None \<Longrightarrow>
    ns_UpdateSnapshot g ord (sc_nodes c) s = Some s' \<Longrightarrow> snapshot_reachable h g c s'"

definition snap_raw :: "NodeStore \<Rightarrow> NodeInfoImpl RawStoreImpl" where
  "snap_raw s = (case ns_Store s of ListS _ \<Rightarrow> NewRawStore | RawS r \<Rightarrow> r)"

definition snap_ok :: "cache_handler \<Rightarrow> snap_cfg \<Rightarrow> SchedulerCache \<Rightarrow> NodeStore \<Rightarrow> bool" where
  "snap_ok h g c s = (cache_ok h (node_copy g, snap_raw s) c \<and> ns_Store s = RawS (snap_raw s))"

lemma cache_ok_list:
  assumes "cache_ok h R c"
  obtains ls where "ns_Store (sc_nodes c) = ListS ls" "ls_inv ls" "in_sync (fst R) ls (snd R)"
  using nodes_okD(1) [OF cache_okD(2) [OF assms]] by (auto simp: ns_inv_def split: generation_store.splits)

text \<open>A change of the snapshot is remembered there.\<close>

lemma cache_ok_snapshot:
  assumes ok: "cache_ok h (cl, r) c" and r: "rs_generation r' = rs_generation r" "finite (dom (rs_store r'))" "finite (rs_updatedSet r')"
    and ch: "\<And>k. k \<notin> rs_updatedSet r' \<Longrightarrow> rs_store r' k = rs_store r k \<and> k \<notin> rs_updatedSet r"
  shows "cache_ok h (cl, r') c"
proof -
  obtain ls where ls: "ns_Store (sc_nodes c) = ListS ls" "ls_inv ls" "in_sync cl ls r" using cache_ok_list [OF ok] by auto
  have "in_sync cl ls r'" using ls(3) r ch unfolding in_sync_def by auto
  then have "ns_inv (cl, r') (sc_nodes c)" using ls nodes_okD(1) [OF cache_okD(2) [OF ok]] by (simp add: ns_inv_def)
  then show ?thesis using ok by (simp add: cache_ok_def nodes_ok_def)
qed

lemma in_sync_fin: "cache_ok h (cl, r) c \<Longrightarrow> finite (dom (rs_store r)) \<and> finite (rs_updatedSet r)"
  by (erule cache_ok_list) (simp add: in_sync_def)

lemma snap_set:
  assumes "snap_ok h g c s" "ns_Set s N n = Some s'"
  shows "snap_ok h g c s'"
proof -
  have s': "s' = s\<lparr>ns_Store := RawS (RawStore_Set (snap_raw s) N \<lparr>so_generation = 0, so_obj = n\<rparr>)\<rparr>"
    using assms by (simp add: ns_Set_def snap_ok_def)
  have "cache_ok h (node_copy g, RawStore_Set (snap_raw s) N \<lparr>so_generation = 0, so_obj = n\<rparr>) c"
    by (rule cache_ok_snapshot [of h _ "snap_raw s"])
      (use assms(1) in_sync_fin in \<open>auto simp: snap_ok_def RawStore_Set_def\<close>)
  then show ?thesis by (simp add: s' snap_ok_def snap_raw_def)
qed

lemma snap_delete:
  assumes "snap_ok h g c s" "ns_Delete s N = Some s'"
  shows "snap_ok h g c s'"
proof -
  have s': "s' = s\<lparr>ns_Store := RawS (RawStore_Delete (snap_raw s) N)\<rparr>"
    using assms by (simp add: ns_Delete_def snap_ok_def)
  have "cache_ok h (node_copy g, RawStore_Delete (snap_raw s) N) c"
    by (rule cache_ok_snapshot [of h _ "snap_raw s"])
      (use assms(1) in_sync_fin in \<open>auto simp: snap_ok_def RawStore_Delete_def\<close>)
  then show ?thesis by (simp add: s' snap_ok_def snap_raw_def)
qed

lemma snap_Deleted [simp]: "snap_ok h g c (s\<lparr>ns_Deleted := d\<rparr>) = snap_ok h g c s"
  by (simp add: snap_ok_def snap_raw_def)

lemma snap_pod_ops:
  assumes "snap_ok h g c s"
  shows "ns_AssumePod h s pd vs = Some (s', e) \<Longrightarrow> snap_ok h g c s'" "ns_ForgetPod h s pd vs = Some (s', e) \<Longrightarrow> snap_ok h g c s'"
proof -
  have "snap_ok h g c (s\<lparr>ns_Deleted := d\<rparr>)" for d using assms by simp
  note set = snap_set [OF assms] snap_set [OF this]
  show "ns_AssumePod h s pd vs = Some (s', e) \<Longrightarrow> snap_ok h g c s'"
    using assms by (auto simp: ns_AssumePod_def add_pod_to_node_def bind_eq_Some_conv split: if_splits option.splits intro: set)
  have "put_back s N n = Some t \<Longrightarrow> snap_ok h g c t" for N n t
    using assms snap_delete [of h g c "s\<lparr>ns_Deleted := ns_Deleted s - {N}\<rparr>"] by (auto simp: put_back_def split: if_splits intro: set)
  then show "ns_ForgetPod h s pd vs = Some (s', e) \<Longrightarrow> snap_ok h g c s'"
    using assms by (auto simp: ns_ForgetPod_def bind_eq_Some_conv split: if_splits option.splits)
qed

lemma ns_Get_list: "ns_Store s = ListS ls \<Longrightarrow> ns_Get s N = map_option so_obj (ListStore_Get ls N)"
  by (simp add: ns_Get_def)

lemma cached_clone:
  assumes ok: "cache_ok h R c" and ls: "ns_Store (sc_nodes c) = ListS ls" and obj: "ListStore_Get ls k = Some obj"
  shows "NodeInfo_Clone (so_obj obj) = Some (so_obj obj)"
  using node_known [OF cache_okD(2) [OF ok], of k "so_obj obj"] NodeInfo_Clone_ok ls obj by (simp add: ns_Get_list)

text \<open>The update ends: the raw store \<open>r3\<close> holds a copy of every cached node and what was there under other names, and
  the clean-up of it is the new snapshot.\<close>

lemma UpdateSnapshot_run:
  assumes ok: "snap_ok h g c s" and o: "ord_ok ord" and nn: "ns_Get (sc_nodes c) [] = None"
  obtains ls kvs r3 where "ns_Store (sc_nodes c) = ListS ls" "walk_ok ls kvs" "finite (dom (rs_store r3))" "rs_updatedSet r3 = {}"
    "rs_generation r3 = ls_generation ls"
    "\<And>k obj. ListStore_Get ls k = Some obj \<Longrightarrow> rs_store r3 k = Some (node_copy g obj)"
    "\<And>k. ListStore_Get ls k = None \<Longrightarrow> rs_store r3 k = rs_store (snap_raw s) k"
    "ns_UpdateSnapshot g ord (sc_nodes c) s = Some (s\<lparr>ns_Store := RawS (node_clean_func ord ls (card (ns_Deleted s)) r3)\<rparr>)"
proof -
  have cok: "cache_ok h (node_copy g, snap_raw s) c" and st: "ns_Store s = RawS (snap_raw s)" using ok by (simp_all add: snap_ok_def)
  obtain ls where ls: "ns_Store (sc_nodes c) = ListS ls" "ls_inv ls" "in_sync (node_copy g) ls (snap_raw s)"
    using cache_ok_list [OF cok] by auto
  obtain kvs where kvs: "walk_ok ls kvs" using ls_inv_walk [OF ls(2)] by blast
  have "k \<noteq> []" if "ListStore_Get ls k = Some obj" for k obj using nn that by (auto simp: ns_Get_list [OF ls(1)])
  then have "copies (node_clone_func g) (node_copy g) ls"
    using cached_clone [OF cok ls(1)] by (intro node_clone_func_copies) blast
  from UpdateRawStore_copies [OF o kvs ls(3) this] obtain r3 where
    r3: "\<forall>clean. UpdateRawStore ord ls (node_clone_func g) clean (snap_raw s) = Some (clean r3)" "rs_generation r3 = ls_generation ls"
      "rs_updatedSet r3 = {}" "finite (dom (rs_store r3))"
      "\<forall>k obj. ListStore_Get ls k = Some obj \<longrightarrow> rs_store r3 k = Some (node_copy g obj)"
      "\<forall>k. ListStore_Get ls k = None \<longrightarrow> rs_store r3 k = rs_store (snap_raw s) k"
    by blast
  show ?thesis
    by (rule that [OF ls(1) kvs r3(4,3,2)]) (use r3 st ls(1) in \<open>simp_all add: ns_UpdateSnapshot_def\<close>)
qed

lemma UpdateSnapshot_ok:
  assumes ok: "snap_ok h g c s" and o: "ord_ok ord" and nn: "ns_Get (sc_nodes c) [] = None"
    and up: "ns_UpdateSnapshot g ord (sc_nodes c) s = Some s'"
  shows "snap_ok h g c s'"
proof -
  obtain ls kvs r3 where ls: "ns_Store (sc_nodes c) = ListS ls" "walk_ok ls kvs" "finite (dom (rs_store r3))" "rs_updatedSet r3 = {}"
    "rs_generation r3 = ls_generation ls"
    and hit: "\<And>k obj. ListStore_Get ls k = Some obj \<Longrightarrow> rs_store r3 k = Some (node_copy g obj)"
    and miss: "\<And>k. ListStore_Get ls k = None \<Longrightarrow> rs_store r3 k = rs_store (snap_raw s) k"
    and run: "ns_UpdateSnapshot g ord (sc_nodes c) s = Some (s\<lparr>ns_Store := RawS (node_clean_func ord ls (card (ns_Deleted s)) r3)\<rparr>)"
    by (fact UpdateSnapshot_run [OF ok o nn])
  define r' where "r' = node_clean_func ord ls (card (ns_Deleted s)) r3"
  note K = node_clean_keeps [OF r'_def]
  have cok: "cache_ok h (node_copy g, snap_raw s) c" using ok by (simp add: snap_ok_def)
  have "finite (dom (rs_store r'))" using K(3) ls(3) by (rule finite_subset)
  moreover have "rs_store r' k = Some (node_copy g obj)" if "ListStore_Get ls k = Some obj" "k \<notin> rs_updatedSet r'" for k obj
    using hit [OF that(1)] K(4) [of k] that(2) by metis
  ultimately have "in_sync (node_copy g) ls r'" using K(1,2) ls(4,5) by (simp add: in_sync_def)
  then have "ns_inv (node_copy g, r') (sc_nodes c)"
    using nodes_okD(1) [OF cache_okD(2) [OF cok]] ls(1) by (simp add: ns_inv_def)
  then have "cache_ok h (node_copy g, r') c" using cok by (simp add: cache_ok_def nodes_ok_def)
  moreover have "s' = s\<lparr>ns_Store := RawS r'\<rparr>" using up run by (simp add: r'_def)
  ultimately show ?thesis by (simp add: snap_ok_def snap_raw_def)
qed

lemma snapshot_reachable_ok: "snapshot_reachable h g c s \<Longrightarrow> snap_ok h g c s"
proof (induction rule: snapshot_reachable.induct)
  case snap_start
  then show ?case using newSchedulerCache_ok [of h "node_copy g"] by (simp add: snap_ok_def snap_raw_def ns_NewSnapshot_def)
next
  case (snap_event c s ord ev c' es)
  then show ?case using cache_step_ok [of h "(node_copy g, snap_raw s)" c ord ev] by (auto simp: snap_ok_def leaves_def)
next
  case (snap_assume c s pd vs s' e)
  then show ?case using snap_pod_ops(1) by blast
next
  case (snap_forget c s pd vs s' e)
  then show ?case using snap_pod_ops(2) by blast
next
  case (snap_update c s ord s')
  then show ?case using UpdateSnapshot_ok by blast
qed

lemma snapshot_cache_reachable: "snapshot_reachable h g c s \<Longrightarrow> cache_reachable h c"
  by (induction rule: snapshot_reachable.induct) (auto intro: cache_reachable.intros)

lemma UpdateSnapshot_ends:
  assumes "snap_ok h g c s" "ord_ok ord" "ns_Get (sc_nodes c) [] = None"
  shows "\<exists>s'. ns_UpdateSnapshot g ord (sc_nodes c) s = Some s' \<and> ns_Deleted s' = ns_Deleted s"
  by (rule UpdateSnapshot_run [OF assms]) simp

text \<open>What the updated snapshot has under a name.\<close>

lemma UpdateSnapshot_nodes:
  assumes ok: "snap_ok h g c s" and o: "ord_ok ord" and nn: "ns_Get (sc_nodes c) [] = None"
    and up: "ns_UpdateSnapshot g ord (sc_nodes c) s = Some s'"
  shows "ns_Get (sc_nodes c) N = Some n \<Longrightarrow> \<not> ObjectIsNil n \<Longrightarrow>
      ns_Get s' N = Some (if sg_SubClusterConcurrentScheduling g \<and> \<not> nodeInfoBelongToSubCluster g n then empty_node else n)"
    "ns_Get s' N \<noteq> None \<Longrightarrow> ns_Get (sc_nodes c) N \<noteq> None \<or> ns_Get s' N = ns_Get s N"
    "(\<And>N n. ns_Get (sc_nodes c) N = Some n \<Longrightarrow> \<not> ObjectIsNil n) \<Longrightarrow> ns_Deleted s = {} \<Longrightarrow>
      ns_Get s' N = None \<longleftrightarrow> ns_Get (sc_nodes c) N = None"
proof -
  obtain ls kvs r3 where ls: "ns_Store (sc_nodes c) = ListS ls" "walk_ok ls kvs" "finite (dom (rs_store r3))" "rs_updatedSet r3 = {}"
    "rs_generation r3 = ls_generation ls"
    and hit: "\<And>k obj. ListStore_Get ls k = Some obj \<Longrightarrow> rs_store r3 k = Some (node_copy g obj)"
    and miss: "\<And>k. ListStore_Get ls k = None \<Longrightarrow> rs_store r3 k = rs_store (snap_raw s) k"
    and run: "ns_UpdateSnapshot g ord (sc_nodes c) s = Some (s\<lparr>ns_Store := RawS (node_clean_func ord ls (card (ns_Deleted s)) r3)\<rparr>)"
    by (fact UpdateSnapshot_run [OF ok o nn])
  define r' where "r' = node_clean_func ord ls (card (ns_Deleted s)) r3"
  note K = node_clean_keeps [OF r'_def] and G = ns_Get_list [OF ls(1)]
  have "s' = s\<lparr>ns_Store := RawS r'\<rparr>" using up run by (simp add: r'_def)
  then have get: "ns_Get s' N = map_option so_obj (rs_store r' N)" "ns_Get s N = map_option so_obj (rs_store (snap_raw s) N)" for N
    using ok by (simp_all add: ns_Get_def RawStore_Get_eq snap_ok_def)
  show "ns_Get s' N = Some (if sg_SubClusterConcurrentScheduling g \<and> \<not> nodeInfoBelongToSubCluster g n then empty_node else n)"
    if n: "ns_Get (sc_nodes c) N = Some n" "\<not> ObjectIsNil n"
  proof -
    obtain obj where obj: "ListStore_Get ls N = Some obj" "so_obj obj = n" using n(1) by (auto simp: G)
    then have "rs_store r' N = rs_store r3 N" using K(4) [of N] n(2) by (auto simp: removable_def)
    then show ?thesis using hit [OF obj(1)] obj(2) by (simp add: get node_copy_def GlobalNodeInfoPlaceHolder_def)
  qed
  show "ns_Get (sc_nodes c) N \<noteq> None \<or> ns_Get s' N = ns_Get s N" if n: "ns_Get s' N \<noteq> None"
  proof (cases "ListStore_Get ls N")
    case None
    have "rs_store r' N \<noteq> None" using n by (simp add: get)
    then have "rs_store r' N = rs_store r3 N" using K(4) [of N] by metis
    then show ?thesis using miss [OF None] by (simp add: get)
  qed (simp add: G)
  show "ns_Get s' N = None \<longleftrightarrow> ns_Get (sc_nodes c) N = None"
    if obj: "\<And>N n. ns_Get (sc_nodes c) N = Some n \<Longrightarrow> \<not> ObjectIsNil n" and d: "ns_Deleted s = {}"
  proof -
    have no: "\<And>k obj. ListStore_Get ls k = Some obj \<Longrightarrow> \<not> ObjectIsNil (so_obj obj)" using obj by (auto simp: G)
    have "r' = DefaultCleanFunc ord ls r3" using node_clean_default [OF no o ls(3)] d by (simp add: r'_def)
    moreover have "dom (ListStore_Get ls) \<subseteq> dom (rs_store r3)" using hit by auto
    ultimately have "rs_store r' = rs_store r3 |` dom (ListStore_Get ls)" using DefaultCleanFunc_spec [OF o ls(3,2)] by simp
    then show ?thesis using hit [of N] by (cases "ListStore_Get ls N") (auto simp: get G restrict_map_def domIff)
  qed
qed

subsection \<open>Properties\<close>

text \<open>
  C4. Scheduling sees the nodes of the cache. Whatever the cache and the snapshot went through, \<^verbatim>\<open>UpdateSnapshot\<close> ends without a panic and
  afterwards the snapshot has, for every cached node with an object, that node with all its pods and amounts, or
  the placeholder where the node belongs to another sub-cluster; every node of the snapshot is one of the cache or was
  there before; and if each cached node has an object and nothing was assumed on an unknown node of the snapshot, the snapshot has
  the nodes of the cache and no others.
\<close>

theorem node_snapshot_agrees:
  assumes "snapshot_reachable h g c s" "ord_ok ord" "ns_Get (sc_nodes c) [] = None"
  shows "\<exists>s'. ns_UpdateSnapshot g ord (sc_nodes c) s = Some s' \<and> snapshot_reachable h g c s' \<and>
    (\<forall>N n. ns_Get (sc_nodes c) N = Some n \<longrightarrow> \<not> ObjectIsNil n \<longrightarrow>
       ns_Get s' N = Some (if sg_SubClusterConcurrentScheduling g \<and> \<not> nodeInfoBelongToSubCluster g n then empty_node else n)) \<and>
    (\<forall>N. ns_Get s' N \<noteq> None \<longrightarrow> ns_Get (sc_nodes c) N \<noteq> None \<or> ns_Get s' N = ns_Get s N) \<and>
    ((\<forall>N n. ns_Get (sc_nodes c) N = Some n \<longrightarrow> \<not> ObjectIsNil n) \<and> ns_Deleted s = {} \<longrightarrow>
       (\<forall>N. ns_Get s' N = None \<longleftrightarrow> ns_Get (sc_nodes c) N = None))"
proof -
  have ok: "snap_ok h g c s" using snapshot_reachable_ok [OF assms(1)] .
  obtain s' where up: "ns_UpdateSnapshot g ord (sc_nodes c) s = Some s'" using UpdateSnapshot_ends [OF ok assms(2,3)] by blast
  show ?thesis
    by (rule exI [of _ s'], intro conjI allI impI)
      (use up snapshot_reachable.snap_update [OF assms up] UpdateSnapshot_nodes [OF ok assms(2,3) up] in blast)+
qed

text \<open>Events that change one node of the cache, for the examples: a node is added, a pod arrives for a node the cache does not know, and
  a node without pods is deleted.\<close>

lemma switch_AddNode_get:
  assumes ok: "cache_ok h R c" and r: "ns_room (sc_nodes c) 1" and n: "ns_Get (sc_nodes c) (node_Name nd) = None"
  shows "\<exists>c' x. switch_AddNode h c nd = Some (c', []) \<and> ns_Get (sc_nodes c') = (ns_Get (sc_nodes c))(node_Name nd \<mapsto> x) \<and>
    ni_Node x = Some nd \<and> ni_NMNode x = None \<and> ni_CNR x = None \<and> ns_gen (sc_nodes c') = ns_gen (sc_nodes c) + 1 \<and> sc_pods c' = sc_pods c"
proof -
  let ?x = "SetNode (ch_res h) (empty_node\<lparr>ni_NodeInSchedulerPartition := NodeOfThisScheduler (node_Annotations nd) (ch_ComponentName h)\<rparr>) nd"
  obtain s' where s': "ns_Set (sc_nodes c) (node_Name nd) ?x = Some s'" "ns_gen s' = ns_gen (sc_nodes c) + 1"
      "ns_Get s' = (ns_Get (sc_nodes c))(node_Name nd \<mapsto> ?x)"
    using ns_Set_ok [OF nodes_okD(1) [OF cache_okD(2) [OF ok]] r] by blast
  have "ni_Node ?x = Some nd" "ni_NMNode ?x = None" "ni_CNR ?x = None"
    by (simp_all add: SetNode_def setGuaranteedAllocatableResource_def setGuaranteedCapacityResource_def empty_node_def)
  then show ?thesis
    using s' n by (intro exI [of _ "\<lparr>sc_nodes = s', sc_pods = sc_pods c\<rparr>"] exI [of _ ?x])
      (simp add: switch_AddNode_def switch_Range_def ns_AddNode_def take_node_def base_nil_def)
qed

lemma switch_AddPod_get:
  assumes ok: "cache_ok h R c" and r: "ns_room (sc_nodes c) 1" and n: "ns_Get (sc_nodes c) (node_of h pd) = None"
    and p: "assumedOrBoundPod h pd" "node_of h pd \<noteq> []"
  shows "\<exists>c' es x. switch_AddPod h c pd = Some (c', es) \<and> ns_Get (sc_nodes c') = (ns_Get (sc_nodes c))(node_of h pd \<mapsto> x) \<and>
    ObjectIsNil x \<and> ns_gen (sc_nodes c') = ns_gen (sc_nodes c) + 1"
proof -
  obtain x where x: "AddPod (ch_res h) empty_node pd = Some x" using AddPod_ok [OF empty_node_ok, of "ch_res h" pd] by auto
  then have nil: "ObjectIsNil x" by (auto simp: AddPod_def Let_def ObjectIsNil_def bind_eq_Some_conv empty_node_def)
  let ?s = "(sc_nodes c)\<lparr>ns_Deleted := insert (node_of h pd) (ns_Deleted (sc_nodes c))\<rparr>"
  have "ns_inv R ?s" "ns_room ?s 1" using nodes_okD(1) [OF cache_okD(2) [OF ok]] r by simp_all
  from ns_Set_ok [OF this] obtain s' where s': "ns_Set ?s (node_of h pd) x = Some s'" "ns_gen s' = ns_gen (sc_nodes c) + 1"
      "ns_Get s' = (ns_Get (sc_nodes c))(node_of h pd \<mapsto> x)"
    by fastforce
  obtain p' e where "ps_AddPod h (sc_pods c) pd = (p', e)" by fastforce
  then show ?thesis
    using s' x n p nil by (intro exI [of _ "\<lparr>sc_nodes = s', sc_pods = p'\<rparr>"] exI [of _ "case e of None \<Rightarrow> [] | Some e \<Rightarrow> [e]"] exI [of _ x])
      (simp add: switch_AddPod_def switch_Range_def ns_AddPod_def add_pod_to_node_def)
qed

lemma switch_DeleteNode_get:
  assumes ok: "cache_ok h R c" and n: "ns_Get (sc_nodes c) (node_Name nd) = Some x" and x: "ni_NMNode x = None" "ni_CNR x = None"
    and p: "pods_on h (cached (sc_pods c)) (node_Name nd) = Map.empty"
  shows "\<exists>c' es. switch_DeleteNode h c nd = Some (c', es) \<and> ns_Get (sc_nodes c') = (ns_Get (sc_nodes c))(node_Name nd := None)"
proof -
  let ?x = "RemoveNode (ch_res h) x"
  have "node_ok (ch_res h) ?x Map.empty" using set_node_ok(4) [OF node_known [OF cache_okD(2) [OF ok] n]] p by simp
  then have "NumPods ?x = 0" using NumPods_zero by blast
  moreover have "ni_NMNode ?x = None" "ni_CNR ?x = None"
    using x by (simp_all add: RemoveNode_def setGuaranteedAllocatableResource_def setGuaranteedCapacityResource_def)
  moreover obtain s1 where "ns_Delete (sc_nodes c) (node_Name nd) = Some s1" "ns_Get s1 = (ns_Get (sc_nodes c))(node_Name nd := None)"
    using ns_Delete_ok [OF nodes_okD(1) [OF cache_okD(2) [OF ok]]] by blast
  ultimately show ?thesis using n by (simp add: switch_DeleteNode_def switch_Range_def ns_DeleteNode_def base_nil_def Let_def)
qed

definition node_x :: v1node where
  "node_x = \<lparr>node_Name = ''x'', node_Labels = Map.empty, node_Annotations = Map.empty, node_Allocatable = [''cpu'' \<mapsto> 4000], node_Capacity = [''cpu'' \<mapsto> 4000],
    node_Taints = [], node_Unschedulable = False\<rparr>"

definition snap_example :: snap_cfg where
  "snap_example = \<lparr>sg_SubClusterConcurrentScheduling = False, sg_SubCluster = [], sg_GlobalSubClusterKey = ''sc''\<rparr>"

text \<open>A cache with the node \<open>node_x\<close> only, and a new snapshot.\<close>

lemma example_cache:
  "\<exists>c x. snapshot_reachable handler_example snap_example c ns_NewSnapshot \<and> ns_Get (sc_nodes c) = [''x'' \<mapsto> x] \<and>
     ni_Node x = Some node_x \<and> ni_NMNode x = None \<and> ni_CNR x = None \<and> ns_gen (sc_nodes c) = 1 \<and> sc_pods c = ps_NewCache"
proof -
  let ?h = handler_example
  have l: "legal ?h newSchedulerCache (EvAddNode node_x)" by (simp add: legal_def)
  obtain c x where c: "switch_AddNode ?h newSchedulerCache node_x = Some (c, [])"
      "ns_Get (sc_nodes c) = (ns_Get (sc_nodes newSchedulerCache))(node_Name node_x \<mapsto> x)"
      "ni_Node x = Some node_x" "ni_NMNode x = None" "ni_CNR x = None"
      "ns_gen (sc_nodes c) = ns_gen (sc_nodes newSchedulerCache) + 1" "sc_pods c = sc_pods newSchedulerCache"
    using switch_AddNode_get [OF newSchedulerCache_ok cache_room_le(2) [OF example_room], of node_x ?h] ns_NewCache_inv(3)
    by (auto simp: newSchedulerCache_def)
  have "snapshot_reachable ?h snap_example c ns_NewSnapshot"
    by (rule snap_event [OF snap_start ord_ok_sorted l example_room]) (use c(1) in simp)
  then show ?thesis using c ns_NewCache_inv(2,3) by (auto simp: newSchedulerCache_def node_x_def)
qed

lemma example_snapshot:
  assumes c: "snapshot_reachable handler_example snap_example c ns_NewSnapshot" "ns_Get (sc_nodes c) = [''x'' \<mapsto> x]" and nil: "\<not> ObjectIsNil x"
  shows "\<exists>s. snapshot_reachable handler_example snap_example c s \<and> ns_Get s = [''x'' \<mapsto> x] \<and> ns_Deleted s = {}"
proof -
  have ok: "snap_ok handler_example snap_example c ns_NewSnapshot" using snapshot_reachable_ok [OF c(1)] .
  have nn: "ns_Get (sc_nodes c) [] = None" using c by simp
  obtain s where s: "ns_UpdateSnapshot snap_example sorted_list_of_set (sc_nodes c) ns_NewSnapshot = Some s" "ns_Deleted s = {}"
    using UpdateSnapshot_ends [OF ok ord_ok_sorted nn] by (auto simp: ns_NewSnapshot_def)
  note U = UpdateSnapshot_nodes [OF ok ord_ok_sorted nn s(1)]
  have "ns_Get s N = ([''x'' \<mapsto> x]) N" for N
  proof (cases "N = ''x''")
    case True
    then show ?thesis using U(1) [of N x] c(2) nil by (simp add: snap_example_def)
  next
    case False
    have "ns_Get s N = None \<longleftrightarrow> ns_Get (sc_nodes c) N = None"
      by (rule U(3)) (use c(2) nil in \<open>auto simp: ns_NewSnapshot_def split: if_splits\<close>)
    then show ?thesis using False c(2) by simp
  qed
  then have "ns_Get s = [''x'' \<mapsto> x]" by (rule ext)
  then show ?thesis using snap_update [OF c(1) ord_ok_sorted nn s(1)] s(2) by blast
qed

theorem node_snapshot_agrees_witness:
  "\<exists>c s x. snapshot_reachable handler_example snap_example c s \<and> ni_Node x = Some node_x \<and>
     ns_Get (sc_nodes c) ''x'' = Some x \<and> ns_Get s ''x'' = Some x \<and> ns_Get s ''y'' = None"
proof -
  obtain c x where c: "snapshot_reachable handler_example snap_example c ns_NewSnapshot" "ns_Get (sc_nodes c) = [''x'' \<mapsto> x]"
      "ni_Node x = Some node_x"
    using example_cache by blast
  have nn: "ns_Get (sc_nodes c) [] = None" and nil: "\<not> ObjectIsNil x" using c by (simp_all add: ObjectIsNil_def)
  from node_snapshot_agrees [OF c(1) ord_ok_sorted nn] obtain s where s: "snapshot_reachable handler_example snap_example c s"
      "ns_Get (sc_nodes c) ''x'' = Some x \<Longrightarrow> ns_Get s ''x'' = Some (if sg_SubClusterConcurrentScheduling snap_example \<and>
        \<not> nodeInfoBelongToSubCluster snap_example x then empty_node else x)"
      "ns_Get s ''y'' \<noteq> None \<longrightarrow> ns_Get (sc_nodes c) ''y'' \<noteq> None \<or> ns_Get s ''y'' = ns_Get ns_NewSnapshot ''y''"
    using nil by blast
  have "ns_Get ns_NewSnapshot ''y'' = None" by (simp add: ns_Get_def ns_NewSnapshot_def NewRawStore_def RawStore_Get_def)
  then show ?thesis using c s by (intro exI [of _ c] exI [of _ s] exI [of _ x]) (auto simp: snap_example_def)
qed

text \<open>
  C10. The clean-up of the snapshot can keep deleted nodes. It removes as many nodes as the snapshot has too many, in the order of a map
  range, and takes for removable also the nodes the cache still has for their pods. Where there are at least as many of these as
  deleted nodes, there is an order in which the update leaves every deleted node in the snapshot as it was.
\<close>

theorem snapshot_keeps_deleted_node:
  assumes "snapshot_reachable h g c s" "ns_Get (sc_nodes c) [] = None" "ns_Deleted s = {}"
    and "card {N. ns_Get s N \<noteq> None \<and> ns_Get (sc_nodes c) N = None} \<le> card {N. \<exists>n. ns_Get (sc_nodes c) N = Some n \<and> ObjectIsNil n}"
  shows "\<exists>ord s'. ord_ok ord \<and> ns_UpdateSnapshot g ord (sc_nodes c) s = Some s' \<and>
    (\<forall>N. ns_Get (sc_nodes c) N = None \<longrightarrow> ns_Get s' N = ns_Get s N)"
proof -
  have ok: "snap_ok h g c s" using snapshot_reachable_ok [OF assms(1)] .
  define Res where "Res = {N. \<exists>n. ns_Get (sc_nodes c) N = Some n \<and> ObjectIsNil n}"
  define ord where "ord = (\<lambda>A. sorted_list_of_set (A \<inter> Res) @ sorted_list_of_set (A - Res))"
  have o: "ord_ok ord" unfolding ord_def ord_ok_def by auto
  obtain ls kvs r3 where ls: "ns_Store (sc_nodes c) = ListS ls" "walk_ok ls kvs" "finite (dom (rs_store r3))" "rs_updatedSet r3 = {}"
    "rs_generation r3 = ls_generation ls"
    and hit: "\<And>k obj. ListStore_Get ls k = Some obj \<Longrightarrow> rs_store r3 k = Some (node_copy g obj)"
    and miss: "\<And>k. ListStore_Get ls k = None \<Longrightarrow> rs_store r3 k = rs_store (snap_raw s) k"
    and run: "ns_UpdateSnapshot g ord (sc_nodes c) s = Some (s\<lparr>ns_Store := RawS (node_clean_func ord ls (card (ns_Deleted s)) r3)\<rparr>)"
    by (fact UpdateSnapshot_run [OF ok o assms(2)])
  define r' where "r' = node_clean_func ord ls 0 r3"
  note G = ns_Get_list [OF ls(1)]
  let ?C = "dom (ListStore_Get ls)" and ?S = "{N. ns_Get s N \<noteq> None \<and> ns_Get (sc_nodes c) N = None}"
  have get: "ns_Get s N = map_option so_obj (rs_store (snap_raw s) N)" for N
    using ok by (simp add: ns_Get_def RawStore_Get_eq snap_ok_def)
  have sub: "?C \<subseteq> dom (rs_store r3)" using hit by auto
  have stale: "dom (rs_store r3) - ?C = ?S" using miss by (auto simp: get G)
  have res: "Res \<subseteq> ?C" "\<forall>k \<in> Res. removable ls k" by (auto simp: Res_def G removable_def)
  have fin: "finite Res" "finite ?C" using res(1) sub ls(3) by (auto intro: finite_subset)
  have d: "int (RawStore_Len r3) - int (ListStore_Len ls) \<le> int (length (sorted_list_of_set Res))"
    using assms(4) fin sub ls(3) card_Diff_subset [OF fin(2) sub] unfolding stale Res_def [symmetric]
    by (simp add: RawStore_Len_def ListStore_Len_card [OF ls(2)])
  have keep: "rs_store r' x = rs_store r3 x" if x: "x \<notin> Res" for x
  proof (cases "int (RawStore_Len r3) - int (ListStore_Len ls) > 0")
    case True
    obtain r1 d1 b where run1: "((r1, d1), b) = condition_range (\<lambda>(s, _). RawStore_Get s) (clean_one ls) (ord (dom (rs_store r3)))
        (r3, int (RawStore_Len r3) - int (ListStore_Len ls))" by (metis surj_pair)
    have eq: "r' = r1" using True by (simp add: r'_def node_clean_func_def RawStore_ConditionRange_def run1 [symmetric])
    have "ord (dom (rs_store r3)) = sorted_list_of_set Res @ sorted_list_of_set (dom (rs_store r3) - Res)"
      using res(1) sub by (simp add: ord_def Int_absorb1)
    from clean_spends [OF _ _ _ d _ run1 [unfolded this]] show ?thesis using fin(1) res sub x eq by auto
  qed (simp add: r'_def node_clean_func_def)
  have "ns_Get (s\<lparr>ns_Store := RawS r'\<rparr>) N = ns_Get s N" if N: "ns_Get (sc_nodes c) N = None" for N
  proof -
    have "N \<notin> Res" "ListStore_Get ls N = None" using N by (auto simp: Res_def G)
    then show ?thesis using keep [of N] miss [of N] by (simp add: get) (simp add: ns_Get_def RawStore_Get_eq)
  qed
  then show ?thesis using o run assms(3) by (intro exI [of _ ord] exI [of _ "s\<lparr>ns_Store := RawS r'\<rparr>"]) (simp add: r'_def)
qed

theorem snapshot_keeps_deleted_node_witness:
  "\<exists>c s ord s' x. snapshot_reachable handler_example snap_example c s \<and> ord_ok ord \<and> ns_Get (sc_nodes c) ''x'' = None \<and>
     ns_UpdateSnapshot snap_example ord (sc_nodes c) s = Some s' \<and> Snapshot_Get s' ''x'' = Some x"
proof -
  let ?h = handler_example and ?g = snap_example
  obtain c1 x where c1: "snapshot_reachable ?h ?g c1 ns_NewSnapshot" "ns_Get (sc_nodes c1) = [''x'' \<mapsto> x]"
      "ni_Node x = Some node_x" "ni_NMNode x = None" "ni_CNR x = None" "ns_gen (sc_nodes c1) = 1" "sc_pods c1 = ps_NewCache"
    using example_cache by blast
  have nn: "ns_Get (sc_nodes c1) [] = None" and nil: "\<not> ObjectIsNil x" using c1 by (simp_all add: ObjectIsNil_def)
  obtain s where s: "snapshot_reachable ?h ?g c1 s" "ns_Get s = [''x'' \<mapsto> x]" "ns_Deleted s = {}"
    using example_snapshot [OF c1(1,2) nil] by blast
  have room1: "cache_room c1" using c1(6,7) by (simp add: cache_room_def ns_room_def ps_NewCache_def)
  have ok1: "cache_ok ?h (node_copy ?g, snap_raw s) c1" using snapshot_reachable_ok [OF s(1)] by (simp add: snap_ok_def)
  obtain c2 es2 y where c2: "switch_AddPod ?h c1 v1pod_example = Some (c2, es2)" "ns_Get (sc_nodes c2) = [''x'' \<mapsto> x, ''n1'' \<mapsto> y]"
      "ObjectIsNil y" "ns_gen (sc_nodes c2) = 2"
    using switch_AddPod_get [OF ok1 cache_room_le(2) [OF room1], of v1pod_example] c1(2,6) example_pod by auto
  have l2: "legal ?h c1 (EvAddPod v1pod_example)" using c1(7) ps_NewCache_ok by (simp add: legal_def example_pod)
  have r2: "snapshot_reachable ?h ?g c2 s" by (rule snap_event [OF s(1) ord_ok_sorted l2 room1]) (use c2(1) in simp)
  have P: "cached (sc_pods c2) = [''u1'' \<mapsto> v1pod_example]"
    using switch_AddPod_leaves [OF ok1 cache_room_le(2) [OF room1], of v1pod_example] c2(1) c1(7) ps_NewCache_ok
    by (simp add: leaves_def example_pod)
  have ok2: "cache_ok ?h (node_copy ?g, snap_raw s) c2" using snapshot_reachable_ok [OF r2] by (simp add: snap_ok_def)
  have "pods_on ?h (cached (sc_pods c2)) (node_Name node_x) = Map.empty"
    by (auto simp: P pods_on_def fun_eq_iff example_pod node_x_def)
  then obtain c3 es3 where c3: "switch_DeleteNode ?h c2 node_x = Some (c3, es3)" "ns_Get (sc_nodes c3) = [''n1'' \<mapsto> y]"
    using switch_DeleteNode_get [OF ok2, of node_x x] c2(2) c1(4,5) by (auto simp: node_x_def fun_upd_twist)
  have room2: "cache_room c2"
    using c2(1,4) c1(7) by (auto simp: switch_AddPod_def switch_Range_def bind_eq_Some_conv cache_room_def ns_room_def ps_AddPod_def ps_podOp_def
        ps_NewCache_def NodeInfo_GetPodKey_def split: prod.splits if_splits)
  have l3: "legal ?h c2 (EvDeleteNode node_x)" by (simp add: legal_def)
  have r3: "snapshot_reachable ?h ?g c3 s" by (rule snap_event [OF r2 ord_ok_sorted l3 room2]) (use c3(1) in simp)
  have nn3: "ns_Get (sc_nodes c3) [] = None" "ns_Get (sc_nodes c3) ''x'' = None" using c3(2) by simp_all
  have "{N. ns_Get s N \<noteq> None \<and> ns_Get (sc_nodes c3) N = None} = {''x''}"
    "{N. \<exists>n. ns_Get (sc_nodes c3) N = Some n \<and> ObjectIsNil n} = {''n1''}" using s(2) c3(2) c2(3) by (auto split: if_splits)
  then obtain ord s' where "ord_ok ord" "ns_UpdateSnapshot ?g ord (sc_nodes c3) s = Some s'"
      "\<forall>N. ns_Get (sc_nodes c3) N = None \<longrightarrow> ns_Get s' N = ns_Get s N"
    using snapshot_keeps_deleted_node [OF r3 nn3(1) s(3)] by auto
  moreover have "Snapshot_Get s' ''x'' = Some x" using calculation(3) nn3(2) s(2) c1(3) by (simp add: Snapshot_Get_def)
  ultimately show ?thesis using r3 nn3(2) by blast
qed

end
