(* ===== verification/Plugin_Framework.thy ===== *)
theory Plugin_Framework
  imports Node_Info
begin

section \<open>The plugin framework (pkg/framework/api/interface.go, pkg/scheduler/framework/runtime/framework.go)\<close>

text \<open>
  The results of plugins, the framework built for a pod from the base plugins and the constraints of the pod, and
  the runs of its plugins over a node.

  A status is an option: \<open>None\<close> is the nil status, which counts as a success. A plugin is a record of the extension
  points it implements; the cycle state is the type parameter \<open>'st\<close>. A map from plugins to statuses is an
  association list; \<^verbatim>\<open>Merge\<close> takes the statuses in the order of its range. The parallel loops of \<^verbatim>\<open>RunScorePlugins\<close>
  run index by index: every index writes its own slot, and of several errors the channel keeps the first. The
  plugins are total functions here. Metrics and logs are left out, and a quoted name is the name between quotes.

  The properties: the merged verdict on a node is a success exactly when every filter plugin of the framework that is not
  skipped accepts the node, in every debug mode and every order of the range; the weights the framework admits
  keep the total score of a node in range, unless the test of a weight itself overflows.
\<close>

subsection \<open>Codes and statuses\<close>

datatype Code =
    Success | Error | Unschedulable | UnschedulableAndUnresolvable | Wait | Skip
  | PreemptionSucceed | PreemptionFail | PreemptionNotSure

primrec code_iota :: "Code \<Rightarrow> nat" where
  "code_iota Success = 0"
| "code_iota Error = 1"
| "code_iota Unschedulable = 2"
| "code_iota UnschedulableAndUnresolvable = 3"
| "code_iota Wait = 4"
| "code_iota Skip = 5"
| "code_iota PreemptionSucceed = 6"
| "code_iota PreemptionFail = 7"
| "code_iota PreemptionNotSure = 8"

definition codes :: "string list" where
  "codes = [''Success'', ''Error'', ''Unschedulable'', ''UnschedulableAndUnresolvable'', ''Wait'', ''Skip'',
            ''PreemptionFail'', ''PreemptionNotSure'']"

definition Code_String :: "Code \<Rightarrow> string option" where
  "Code_String c = (if code_iota c < length codes then Some (codes ! code_iota c) else None)"

record Status =
  st_code :: Code
  st_reasons :: "string list"
  st_err :: "string option"

definition Status_Code :: "Status option \<Rightarrow> Code" where
  "Status_Code s = (case s of None \<Rightarrow> Success | Some x \<Rightarrow> st_code x)"

fun strings_Join :: "string list \<Rightarrow> string \<Rightarrow> string" where
  "strings_Join [] sep = []"
| "strings_Join [x] sep = x"
| "strings_Join (x # y # ys) sep = x @ sep @ strings_Join (y # ys) sep"

definition Status_Message :: "Status option \<Rightarrow> string" where
  "Status_Message s = (case s of None \<Rightarrow> [] | Some x \<Rightarrow> strings_Join (st_reasons x) '', '')"

definition Status_Reasons :: "Status option \<Rightarrow> string list" where
  "Status_Reasons s = (case s of None \<Rightarrow> [] | Some x \<Rightarrow> st_reasons x)"

definition AppendReason :: "Status option \<Rightarrow> string \<Rightarrow> Status option" where
  "AppendReason s reason = (case s of None \<Rightarrow> None | Some x \<Rightarrow> Some (x\<lparr>st_reasons := st_reasons x @ [reason]\<rparr>))"

definition IsSuccess :: "Status option \<Rightarrow> bool" where
  "IsSuccess s = (Status_Code s = Success)"

definition IsUnschedulable :: "Status option \<Rightarrow> bool" where
  "IsUnschedulable s = (Status_Code s = Unschedulable \<or> Status_Code s = UnschedulableAndUnresolvable)"

definition AsError :: "Status option \<Rightarrow> string option" where
  "AsError s =
     (if IsSuccess s then None
      else (case s of Some x \<Rightarrow> (case st_err x of Some e \<Rightarrow> Some e | None \<Rightarrow> Some (Status_Message s)) | None \<Rightarrow> None))"

definition NewStatus :: "Code \<Rightarrow> string list \<Rightarrow> Status option" where
  "NewStatus code reasons =
     (let s = \<lparr>st_code = code, st_reasons = reasons, st_err = None\<rparr> in
      Some (if code = Error then s\<lparr>st_err := Some (Status_Message (Some s))\<rparr> else s))"

definition AsStatus :: "string \<Rightarrow> Status option" where
  "AsStatus err = Some \<lparr>st_code = Error, st_reasons = [err], st_err = Some err\<rparr>"

subsubsection \<open>Merging the statuses of the plugins\<close>

type_synonym PluginToStatus = "(string \<times> Status option) list"

text \<open>The state of the loop: the status and the two flags.\<close>

definition merge_step :: "string \<times> Status option \<Rightarrow> Status \<times> bool \<times> bool \<Rightarrow> Status \<times> bool \<times> bool" where
  "merge_step e st =
     (case e of (_, s) \<Rightarrow>
      case st of (final, unres, unsch) \<Rightarrow>
        (let final1 = (if Status_Code s = Error then final\<lparr>st_err := AsError s\<rparr> else final);
             unres' = (if Status_Code s \<noteq> Error \<and> Status_Code s = UnschedulableAndUnresolvable then True else unres);
             unsch' = (if Status_Code s \<noteq> Error \<and> Status_Code s = Unschedulable then True else unsch)
         in (final1\<lparr>st_code := Status_Code s, st_reasons := st_reasons final1 @ Status_Reasons s\<rparr>, unres', unsch')))"

definition Merge :: "PluginToStatus \<Rightarrow> Status option" where
  "Merge p =
     (if length p = 0 then None
      else
        (case fold merge_step p (\<lparr>st_code = Success, st_reasons = [], st_err = None\<rparr>, False, False) of (final, unres, unsch) \<Rightarrow>
           Some (if st_err final \<noteq> None then final\<lparr>st_code := Error\<rparr>
                 else if unres then final\<lparr>st_code := UnschedulableAndUnresolvable\<rparr>
                 else if unsch then final\<lparr>st_code := Unschedulable\<rparr>
                 else final)))"

subsection \<open>The framework of a pod\<close>

record NodeScore =
  ns_Name :: string
  ns_Score :: int64

text \<open>The extension points; \<^verbatim>\<open>PreFilter\<close> and \<^verbatim>\<open>PreScore\<close> write to the cycle state, \<^verbatim>\<open>NormalizeScore\<close> changes the list in place.\<close>

record 'st plugin =
  pl_Name :: string
  pl_Filter :: "('st \<Rightarrow> v1pod \<Rightarrow> NodeInfoImpl \<Rightarrow> Status option) option"
  pl_PreFilter :: "('st \<Rightarrow> v1pod \<Rightarrow> 'st \<times> Status option) option"
  pl_CrossNodes :: "('st \<Rightarrow> v1pod \<Rightarrow> bool) option"
  pl_PreScore :: "('st \<Rightarrow> v1pod \<Rightarrow> NodeInfoImpl list \<Rightarrow> 'st \<times> Status option) option"
  pl_Score :: "('st \<Rightarrow> v1pod \<Rightarrow> string \<Rightarrow> int64 \<times> Status option) option"
  pl_NormalizeScore :: "('st \<Rightarrow> v1pod \<Rightarrow> NodeScore list \<Rightarrow> NodeScore list \<times> Status option) option"

type_synonym 'st plugin_map = "string \<rightharpoonup> 'st plugin"

record PluginSpec =
  spec_Name :: string
  spec_Weight :: int64

record 'st pod_framework =
  f_scoreWeightMap :: "string \<rightharpoonup> int64"
  f_preFilterPlugins :: "'st plugin list"
  f_filterPlugins :: "'st plugin list"
  f_preScorePlugins :: "'st plugin list"
  f_scorePlugins :: "'st plugin list"
  f_crossNodesPlugins :: "'st plugin list"
  f_preFilterPluginsSet :: "string \<rightharpoonup> nat"
  f_filterPluginsSet :: "string \<rightharpoonup> nat"
  f_preScorePluginsSet :: "string \<rightharpoonup> nat"
  f_scorePluginsSet :: "string \<rightharpoonup> nat"
  f_crossNodesPluginsSet :: "string \<rightharpoonup> nat"

definition empty_framework :: "'st pod_framework" where
  "empty_framework =
     \<lparr>f_scoreWeightMap = Map.empty, f_preFilterPlugins = [], f_filterPlugins = [], f_preScorePlugins = [], f_scorePlugins = [],
      f_crossNodesPlugins = [], f_preFilterPluginsSet = Map.empty, f_filterPluginsSet = Map.empty, f_preScorePluginsSet = Map.empty,
      f_scorePluginsSet = Map.empty, f_crossNodesPluginsSet = Map.empty\<rparr>"

text \<open>What is done for one extension point: a plugin that implements it is appended and its index recorded, or
  replaces the one of its name.\<close>

definition register :: "string \<Rightarrow> bool \<Rightarrow> 'st plugin \<Rightarrow> 'st plugin list \<times> (string \<rightharpoonup> nat) \<Rightarrow> 'st plugin list \<times> (string \<rightharpoonup> nat)" where
  "register name implements pl st =
     (case st of (ps, idx) \<Rightarrow>
        if \<not> implements then (ps, idx)
        else (case idx name of None \<Rightarrow> (ps @ [pl], idx(name \<mapsto> length ps)) | Some i \<Rightarrow> (ps[i := pl], idx)))"

definition addFilterPlugin :: "'st plugin_map \<Rightarrow> PluginSpec \<Rightarrow> 'st pod_framework \<Rightarrow> 'st pod_framework" where
  "addFilterPlugin registry spec f =
     (case registry (spec_Name spec) of
        None \<Rightarrow> f
      | Some pl \<Rightarrow>
          (let name = spec_Name spec;
               (fs, fi) = register name (pl_Filter pl \<noteq> None) pl (f_filterPlugins f, f_filterPluginsSet f);
               (ps, pi) = register name (pl_PreFilter pl \<noteq> None) pl (f_preFilterPlugins f, f_preFilterPluginsSet f);
               (cs, ci) = register name (pl_CrossNodes pl \<noteq> None) pl (f_crossNodesPlugins f, f_crossNodesPluginsSet f)
           in f\<lparr>f_filterPlugins := fs, f_filterPluginsSet := fi, f_preFilterPlugins := ps, f_preFilterPluginsSet := pi,
                f_crossNodesPlugins := cs, f_crossNodesPluginsSet := ci\<rparr>))"

definition addScorePlugin :: "'st plugin_map \<Rightarrow> PluginSpec \<Rightarrow> 'st pod_framework \<Rightarrow> 'st pod_framework" where
  "addScorePlugin registry spec f =
     (case registry (spec_Name spec) of
        None \<Rightarrow> f
      | Some pl \<Rightarrow>
          (let name = spec_Name spec;
               (ss, si) = register name (pl_Score pl \<noteq> None) pl (f_scorePlugins f, f_scorePluginsSet f);
               (ps, pi) = register name (pl_PreScore pl \<noteq> None) pl (f_preScorePlugins f, f_preScorePluginsSet f)
           in f\<lparr>f_scorePlugins := ss, f_scorePluginsSet := si,
                f_scoreWeightMap := (if pl_Score pl \<noteq> None then (f_scoreWeightMap f)(name \<mapsto> spec_Weight spec) else f_scoreWeightMap f),
                f_preScorePlugins := ps, f_preScorePluginsSet := pi\<rparr>))"

text \<open>A stable sort; a plugin without an index goes to the end.\<close>

definition order_index :: "(string \<rightharpoonup> int) \<Rightarrow> 'st plugin \<Rightarrow> int" where
  "order_index order pl = (case order (pl_Name pl) of Some i \<Rightarrow> i | None \<Rightarrow> 2 ^ 31 - 1)"

definition orderFilterPlugins :: "(string \<rightharpoonup> int) option \<Rightarrow> 'st pod_framework \<Rightarrow> 'st pod_framework" where
  "orderFilterPlugins pluginOrder f =
     (case pluginOrder of
        None \<Rightarrow> f
      | Some order \<Rightarrow> f\<lparr>f_filterPlugins := sort_key (order_index order) (f_filterPlugins f)\<rparr>)"

definition MaxNodeScore :: int64 where "MaxNodeScore = 100"
definition MinNodeScore :: int64 where "MinNodeScore = 0"
definition MaxTotalScore :: int64 where "MaxTotalScore = 2 ^ 63 - 1"
definition MaxWeight :: int64 where "MaxWeight = 922337203685477580"

record PluginCollection =
  pc_Filters :: "PluginSpec list"
  pc_Scores :: "PluginSpec list"

datatype framework_error = WeightOverflow string int64 | TotalScoreOverflow

text \<open>The loops over the score plugins; the rest of the total score is passed on.\<close>

fun add_scores ::
  "'st plugin_map \<Rightarrow> PluginSpec list \<Rightarrow> 'st pod_framework \<times> int64 \<Rightarrow> framework_error + ('st pod_framework \<times> int64)" where
  "add_scores registry [] st = Inr st"
| "add_scores registry (spec # specs) (f, totalScore) =
     (if sint (spec_Weight spec) > sint MaxWeight then Inl (WeightOverflow (spec_Name spec) (spec_Weight spec))
      else
        (let pluginMaxScore = spec_Weight spec * MaxNodeScore in
         if sint pluginMaxScore \<ge> sint totalScore then Inl TotalScoreOverflow
         else add_scores registry specs (addScorePlugin registry spec f, totalScore - pluginMaxScore)))"

definition NewPodFramework ::
  "'st plugin_map \<Rightarrow> (string \<rightharpoonup> int) option \<Rightarrow> PluginCollection option \<Rightarrow> PluginCollection \<Rightarrow> PluginCollection \<Rightarrow>
   framework_error + 'st pod_framework" where
  "NewPodFramework registry pluginOrder basePlugins hardConstraints softConstraints =
     (let base = (case basePlugins of None \<Rightarrow> \<lparr>pc_Filters = [], pc_Scores = []\<rparr> | Some b \<Rightarrow> b);
          f1 = fold (addFilterPlugin registry) (pc_Filters base) empty_framework
      in case add_scores registry (pc_Scores base) (f1, MaxTotalScore) of
           Inl e \<Rightarrow> Inl e
         | Inr (f2, totalScore) \<Rightarrow>
             (case add_scores registry (pc_Scores softConstraints)
                     (fold (addFilterPlugin registry) (pc_Filters hardConstraints) f2, totalScore) of
                Inl e \<Rightarrow> Inl e
              | Inr (f3, _) \<Rightarrow> Inr (orderFilterPlugins pluginOrder f3)))"

subsection \<open>Running the plugins\<close>

definition DebugModeAnnotationKey :: string where "DebugModeAnnotationKey = ''godel.bytedance.com/debug-mode''"
definition WatchNodeNameLabelName :: string where "WatchNodeNameLabelName = ''godel.bytedance.com/watch-node-label''"
definition DebugModeOn :: string where "DebugModeOn = ''on''"
definition DebugModeOff :: string where "DebugModeOff = ''off''"

definition GetPodDebugMode :: "v1pod \<Rightarrow> string" where
  "GetPodDebugMode p =
     (if ann_has (pod_Annotations p) DebugModeAnnotationKey then ann (pod_Annotations p) DebugModeAnnotationKey else DebugModeOff)"

definition GetPodWatchLabelValueString :: "v1pod \<Rightarrow> string" where
  "GetPodWatchLabelValueString p =
     (if ann_has (pod_Annotations p) WatchNodeNameLabelName then ann (pod_Annotations p) WatchNodeNameLabelName else [])"

definition CheckIfNodeLabelsInSpecifiedLabels :: "(string \<rightharpoonup> string) \<Rightarrow> (string \<times> string) list \<Rightarrow> bool" where
  "CheckIfNodeLabelsInSpecifiedLabels labels requiredLabels =
     list_all (\<lambda>(key, val). (case labels key of None \<Rightarrow> [] | Some v \<Rightarrow> v) = val) requiredLabels"

text \<open>\<open>unmarshal\<close> is \<^verbatim>\<open>json.Unmarshal\<close> into a map, an empty one where it fails.\<close>

definition fitLabelFlag :: "(string \<Rightarrow> (string \<times> string) list) \<Rightarrow> v1pod \<Rightarrow> NodeInfoImpl \<Rightarrow> bool" where
  "fitLabelFlag unmarshal pd n =
     (if GetPodDebugMode pd = DebugModeOn then
        (let labelSelectorMap = unmarshal (GetPodWatchLabelValueString pd) in
         case GetPodLauncher (pod.truncate pd) of
           Inl _ \<Rightarrow> False
         | Inr podLauncher \<Rightarrow>
             if podLauncher = Kubelet then
               (case ni_Node n of None \<Rightarrow> False | Some x \<Rightarrow> CheckIfNodeLabelsInSpecifiedLabels (node_Labels x) labelSelectorMap)
             else if podLauncher = NodeManager then
               (case ni_NMNode n of None \<Rightarrow> False | Some y \<Rightarrow> CheckIfNodeLabelsInSpecifiedLabels (nm_Labels y) labelSelectorMap)
             else False)
      else False)"

definition quoted :: "string \<Rightarrow> string" where "quoted s = [CHR 0x22] @ s @ [CHR 0x22]"

definition run_PreFilter :: "'st plugin \<Rightarrow> 'st \<Rightarrow> v1pod \<Rightarrow> 'st \<times> Status option" where
  "run_PreFilter pl st pd = (case pl_PreFilter pl of None \<Rightarrow> (st, None) | Some h \<Rightarrow> h st pd)"

definition run_Filter :: "'st plugin \<Rightarrow> 'st \<Rightarrow> v1pod \<Rightarrow> NodeInfoImpl \<Rightarrow> Status option" where
  "run_Filter pl st pd n = (case pl_Filter pl of None \<Rightarrow> None | Some h \<Rightarrow> h st pd n)"

definition prefilter_failure :: "'st plugin \<Rightarrow> v1pod \<Rightarrow> Status option \<Rightarrow> Status option" where
  "prefilter_failure pl pd status =
     (if IsUnschedulable status then status
      else NewStatus Error [''Failed to run PreFilter plugin '' @ quoted (pl_Name pl) @ '' for pod '' @ quoted (pod_Name pd) @ '': '' @
                            Status_Message status])"

fun prefilter_loop :: "'st plugin list \<Rightarrow> 'st \<Rightarrow> v1pod \<Rightarrow> Status option \<Rightarrow> 'st \<times> Status option" where
  "prefilter_loop [] st pd finalStatus = (st, finalStatus)"
| "prefilter_loop (pl # pls) st pd finalStatus =
     (case run_PreFilter pl st pd of (st', status) \<Rightarrow>
        if \<not> IsSuccess status then
          (let final' = (if finalStatus = None then prefilter_failure pl pd status else finalStatus) in
           if GetPodDebugMode pd \<noteq> DebugModeOn \<and> final' \<noteq> None then (st', final') else prefilter_loop pls st' pd final')
        else prefilter_loop pls st' pd finalStatus)"

definition RunPreFilterPlugins :: "'st pod_framework \<Rightarrow> 'st \<Rightarrow> v1pod \<Rightarrow> 'st \<times> Status option" where
  "RunPreFilterPlugins f st pd = prefilter_loop (f_preFilterPlugins f) st pd None"

text \<open>The loop of \<^verbatim>\<open>RunFilterPlugins\<close>; it returns when a plugin fails on a node that is not watched.\<close>

fun filter_loop ::
  "bool \<Rightarrow> string list \<Rightarrow> 'st plugin list \<Rightarrow> 'st \<Rightarrow> v1pod \<Rightarrow> NodeInfoImpl \<Rightarrow> PluginToStatus \<Rightarrow> PluginToStatus \<Rightarrow> PluginToStatus" where
  "filter_loop fit skip [] st pd n finalStatus statuses = (if length finalStatus \<noteq> 0 then finalStatus else statuses)"
| "filter_loop fit skip (pl # pls) st pd n finalStatus statuses =
     (if pl_Name pl \<in> set skip then filter_loop fit skip pls st pd n finalStatus statuses
      else
        (let pluginStatus = run_Filter pl st pd n in
         if \<not> IsSuccess pluginStatus then
           (let final' = (if \<not> IsUnschedulable pluginStatus \<and> length finalStatus = 0
                          then [(pl_Name pl, NewStatus Error [''failed to run '' @ quoted (pl_Name pl) @ '' filter plugin for pod '' @
                                                              quoted (pod_Name pd) @ '': '' @ Status_Message pluginStatus])]
                          else finalStatus);
                statuses' = (if IsUnschedulable pluginStatus then AList.update (pl_Name pl) pluginStatus statuses else statuses)
            in if \<not> fit then (if length final' > 0 then final' else statuses')
               else filter_loop fit skip pls st pd n final' statuses')
         else filter_loop fit skip pls st pd n finalStatus (AList.update (pl_Name pl) pluginStatus statuses)))"

definition RunFilterPlugins ::
  "(string \<Rightarrow> (string \<times> string) list) \<Rightarrow> 'st pod_framework \<Rightarrow> 'st \<Rightarrow> v1pod \<Rightarrow> NodeInfoImpl \<Rightarrow> string list \<Rightarrow> PluginToStatus" where
  "RunFilterPlugins unmarshal f st pd n skip = filter_loop (fitLabelFlag unmarshal pd n) skip (f_filterPlugins f) st pd n [] []"

text \<open>\<open>order\<close> is the order in which the range of \<^verbatim>\<open>Merge\<close> visits the statuses.\<close>

definition PodPassesFiltersOnNode :: "PluginToStatus \<Rightarrow> bool \<times> Status option \<times> string option" where
  "PodPassesFiltersOnNode order =
     (let status = Merge order in
      if \<not> IsSuccess status \<and> \<not> IsUnschedulable status then (False, status, AsError status)
      else (IsSuccess status, status, None))"

subsubsection \<open>The binder\<close>

text \<open>A failing plugin's message replaces the statuses collected so far.\<close>

fun conflicts_loop :: "(string \<times> (v1pod \<Rightarrow> NodeInfoImpl \<Rightarrow> Status option)) list \<Rightarrow> v1pod \<Rightarrow> NodeInfoImpl \<Rightarrow> PluginToStatus" where
  "conflicts_loop [] pd n = []"
| "conflicts_loop ((name, check) # pls) pd n =
     (let pluginStatus = check pd n in
      if \<not> IsSuccess pluginStatus then
        [(name, NewStatus (Status_Code pluginStatus)
                  [''failed to run '' @ quoted name @ '' check conflict plugin for pod '' @ quoted (pod_Name pd) @ '': '' @
                   Status_Message pluginStatus])]
      else conflicts_loop pls pd n)"

definition RunCheckConflictsPlugins ::
  "(string \<times> (v1pod \<Rightarrow> NodeInfoImpl \<Rightarrow> Status option)) list \<Rightarrow> v1pod \<Rightarrow> NodeInfoImpl \<Rightarrow> PluginToStatus" where
  "RunCheckConflictsPlugins plugins pd n = conflicts_loop plugins pd n"

subsubsection \<open>Scores\<close>

fun prescore_loop :: "'st plugin list \<Rightarrow> 'st \<Rightarrow> v1pod \<Rightarrow> NodeInfoImpl list \<Rightarrow> 'st \<times> Status option" where
  "prescore_loop [] st pd nodes = (st, None)"
| "prescore_loop (pl # pls) st pd nodes =
     (case (case pl_PreScore pl of None \<Rightarrow> (st, None) | Some h \<Rightarrow> h st pd nodes) of (st', status) \<Rightarrow>
        if \<not> IsSuccess status then
          (st', NewStatus Error [''Failed to run PreScore plugin '' @ quoted (pl_Name pl) @ '' for pod '' @ quoted (pod_Name pd) @ '': '' @
                                 Status_Message status])
        else prescore_loop pls st' pd nodes)"

definition RunPreScorePlugins :: "'st pod_framework \<Rightarrow> 'st \<Rightarrow> v1pod \<Rightarrow> NodeInfoImpl list \<Rightarrow> 'st \<times> Status option" where
  "RunPreScorePlugins f st pd nodes = prescore_loop (f_preScorePlugins f) st pd nodes"

definition run_Score :: "'st plugin \<Rightarrow> 'st \<Rightarrow> v1pod \<Rightarrow> string \<Rightarrow> int64 \<times> Status option" where
  "run_Score pl st pd name = (case pl_Score pl of None \<Rightarrow> (0, None) | Some h \<Rightarrow> h st pd name)"

definition zero_NodeScore :: NodeScore where "zero_NodeScore = \<lparr>ns_Name = [], ns_Score = 0\<rparr>"

text \<open>The score of every plugin on every node, a node without a name keeps the zero score; then the normalisation, and
  the weights. The three kinds of errors stand for the messages of the Error status; of several errors the first
  in order is kept.\<close>

datatype score_error = ScoreFailed string string | NormalizeFailed string string | InvalidScore string int64

definition score_slot :: "'st \<Rightarrow> v1pod \<Rightarrow> 'st plugin \<Rightarrow> string \<Rightarrow> score_error + NodeScore" where
  "score_slot st pd pl nodeName =
     (if nodeName = [] then Inr zero_NodeScore
      else
        (case run_Score pl st pd nodeName of (s, status) \<Rightarrow>
           if \<not> IsSuccess status then Inl (ScoreFailed (pl_Name pl) (Status_Message status))
           else Inr \<lparr>ns_Name = nodeName, ns_Score = s\<rparr>))"

primrec all_ok :: "('e + 'a) list \<Rightarrow> 'e + 'a list" where
  "all_ok [] = Inr []"
| "all_ok (x # xs) = (case x of Inl e \<Rightarrow> Inl e | Inr a \<Rightarrow> (case all_ok xs of Inl e \<Rightarrow> Inl e | Inr as \<Rightarrow> Inr (a # as)))"

definition normalize_slot :: "'st \<Rightarrow> v1pod \<Rightarrow> 'st plugin \<Rightarrow> NodeScore list \<Rightarrow> score_error + NodeScore list" where
  "normalize_slot st pd pl scores =
     (case pl_NormalizeScore pl of
        None \<Rightarrow> Inr scores
      | Some h \<Rightarrow>
          (case h st pd scores of (scores', status) \<Rightarrow>
             if \<not> IsSuccess status then Inl (NormalizeFailed (pl_Name pl) (Status_Message status)) else Inr scores'))"

definition weigh_slot :: "string \<Rightarrow> int64 \<Rightarrow> NodeScore \<Rightarrow> score_error + NodeScore" where
  "weigh_slot name weight s =
     (if sint (ns_Score s) > sint MaxNodeScore \<or> sint (ns_Score s) < sint MinNodeScore then Inl (InvalidScore name (ns_Score s))
      else Inr (s\<lparr>ns_Score := ns_Score s * weight\<rparr>))"

definition RunScorePlugins ::
  "'st pod_framework \<Rightarrow> 'st \<Rightarrow> v1pod \<Rightarrow> string list \<Rightarrow> score_error + (string \<times> NodeScore list) list" where
  "RunScorePlugins f st pd nodeNames =
     (let pls = f_scorePlugins f in
      case all_ok (map (\<lambda>pl. all_ok (map (score_slot st pd pl) nodeNames)) pls) of
        Inl e \<Rightarrow> Inl e
      | Inr scores \<Rightarrow>
          (case all_ok (map2 (normalize_slot st pd) pls scores) of
             Inl e \<Rightarrow> Inl e
           | Inr scores' \<Rightarrow>
               (case all_ok (map2 (\<lambda>pl l. all_ok (map (weigh_slot (pl_Name pl) (lookup0 (f_scoreWeightMap f) (pl_Name pl))) l)) pls scores') of
                  Inl e \<Rightarrow> Inl e
                | Inr scores'' \<Rightarrow> Inr (zip (map pl_Name pls) scores''))))"

text \<open>The sums of \<^verbatim>\<open>prioritizeNodes\<close>; \<open>i\<close> is the index of the node. A plugin's list has a slot for every node.\<close>

definition total_score :: "(string \<times> NodeScore list) list \<Rightarrow> nat \<Rightarrow> int64" where
  "total_score scoresMap i = sum_list (map (\<lambda>(name, l). ns_Score (l ! i)) scoresMap)"

definition prioritizeNodes :: "'st pod_framework \<Rightarrow> 'st \<Rightarrow> v1pod \<Rightarrow> NodeInfoImpl list \<Rightarrow> (string + score_error) + NodeScore list" where
  "prioritizeNodes f st pd nodes =
     (case RunPreScorePlugins f st pd nodes of (st', preScoreStatus) \<Rightarrow>
        if \<not> IsSuccess preScoreStatus then Inl (Inl (Status_Message preScoreStatus))
        else
          (let nodeNames = map getNodeName nodes in
           case RunScorePlugins f st' pd nodeNames of
             Inl e \<Rightarrow> Inl (Inr e)
           | Inr scoresMap \<Rightarrow>
               Inr (map (\<lambda>i. \<lparr>ns_Name = nodeNames ! i, ns_Score = total_score scoresMap i\<rparr>) [0..<length nodes])))"

subsection \<open>The verdict of the filters\<close>

lemmas status_defs = Status_Code_def IsSuccess_def IsUnschedulable_def NewStatus_def AsError_def Status_Message_def Status_Reasons_def

text \<open>What the loop of \<^verbatim>\<open>Merge\<close> has seen: an error, and the two kinds of rejection.\<close>

lemma merge_fold:
  "fold merge_step p (final, unres, unsch) = (final', unres', unsch') \<Longrightarrow>
     (st_err final' \<noteq> None \<longleftrightarrow> st_err final \<noteq> None \<or> (\<exists>e \<in> set p. Status_Code (snd e) = Error)) \<and>
     (unres' \<longleftrightarrow> unres \<or> (\<exists>e \<in> set p. Status_Code (snd e) = UnschedulableAndUnresolvable)) \<and>
     (unsch' \<longleftrightarrow> unsch \<or> (\<exists>e \<in> set p. Status_Code (snd e) = Unschedulable)) \<and>
     (st_code final' = (if p = [] then st_code final else Status_Code (snd (last p)))) \<and>
     st_reasons final' = st_reasons final @ concat (map (Status_Reasons \<circ> snd) p)"
proof (induction p arbitrary: final unres unsch)
  case (Cons e p)
  obtain f1 r1 u1 where s: "merge_step e (final, unres, unsch) = (f1, r1, u1)" by (rule prod_cases3)
  have "(st_err f1 \<noteq> None \<longleftrightarrow> st_err final \<noteq> None \<or> Status_Code (snd e) = Error) \<and>
        (r1 \<longleftrightarrow> unres \<or> Status_Code (snd e) = UnschedulableAndUnresolvable) \<and>
        (u1 \<longleftrightarrow> unsch \<or> Status_Code (snd e) = Unschedulable) \<and>
        st_code f1 = Status_Code (snd e) \<and> st_reasons f1 = st_reasons final @ Status_Reasons (snd e)"
    using s by (cases e; cases "snd e") (auto simp: merge_step_def status_defs Let_def split: if_splits option.splits)
  then show ?case using Cons.IH [of f1 r1 u1] Cons.prems s by auto
qed simp

lemma Merge_code:
  "Status_Code (Merge p) =
     (if \<exists>e \<in> set p. Status_Code (snd e) = Error then Error
      else if \<exists>e \<in> set p. Status_Code (snd e) = UnschedulableAndUnresolvable then UnschedulableAndUnresolvable
      else if \<exists>e \<in> set p. Status_Code (snd e) = Unschedulable then Unschedulable
      else if p = [] then Success else Status_Code (snd (last p)))"
proof -
  obtain f u v where s: "fold merge_step p (\<lparr>st_code = Success, st_reasons = [], st_err = None\<rparr>, False, False) = (f, u, v)"
    by (rule prod_cases3)
  show ?thesis using merge_fold [OF s] s by (auto simp: Merge_def Status_Code_def [of "Some _"] Status_Code_def [of None])
qed

text \<open>The statuses a run leaves are successes and rejections, or one error; whether one of them is not a success is
  whether a plugin that is not skipped rejects the node.\<close>

definition verdict_ok :: "PluginToStatus \<Rightarrow> bool" where
  "verdict_ok p = (\<forall>e \<in> set p. IsSuccess (snd e) \<or> IsUnschedulable (snd e) \<or> Status_Code (snd e) = Error)"

lemma Merge_success: "verdict_ok p \<Longrightarrow> IsSuccess (Merge p) \<longleftrightarrow> (\<forall>e \<in> set p. IsSuccess (snd e))"
proof
  assume ok: "verdict_ok p" and m: "IsSuccess (Merge p)"
  then have "\<not> (\<exists>e \<in> set p. Status_Code (snd e) = Error)"
      "\<not> (\<exists>e \<in> set p. Status_Code (snd e) = UnschedulableAndUnresolvable)" "\<not> (\<exists>e \<in> set p. Status_Code (snd e) = Unschedulable)"
    unfolding IsSuccess_def Merge_code by (auto split: if_splits)
  then show "\<forall>e \<in> set p. IsSuccess (snd e)" using ok unfolding verdict_ok_def IsUnschedulable_def by blast
next
  assume "\<forall>e \<in> set p. IsSuccess (snd e)"
  then show "IsSuccess (Merge p)" using last_in_set [of p] unfolding IsSuccess_def Merge_code by auto
qed

lemma NewStatus_Error [simp]: "Status_Code (NewStatus code reasons) = code"
  by (simp add: NewStatus_def Status_Code_def Let_def)

lemma update_new: "k \<notin> fst ` set al \<Longrightarrow> set (AList.update k v al) = insert (k, v) (set al)"
  by (induction al) auto

definition all_success :: "PluginToStatus \<Rightarrow> bool" where "all_success p = (\<forall>e \<in> set p. IsSuccess (snd e))"

definition accepts :: "'st plugin list \<Rightarrow> string list \<Rightarrow> 'st \<Rightarrow> v1pod \<Rightarrow> NodeInfoImpl \<Rightarrow> bool" where
  "accepts pls skip st pd n = (\<forall>pl \<in> set pls. pl_Name pl \<notin> set skip \<longrightarrow> IsSuccess (run_Filter pl st pd n))"

lemma filter_loop_verdict:
  assumes "verdict_ok final" "final \<noteq> [] \<longrightarrow> \<not> all_success final" "verdict_ok statuses"
    "distinct (map pl_Name pls)" "pl_Name ` set pls \<inter> fst ` set statuses = {}"
  shows "verdict_ok (filter_loop fit skip pls st pd n final statuses) \<and>
    (all_success (filter_loop fit skip pls st pd n final statuses) \<longleftrightarrow>
       final = [] \<and> all_success statuses \<and> accepts pls skip st pd n)"
  using assms
proof (induction pls arbitrary: final statuses)
  case Nil
  then show ?case by (cases final) (auto simp: accepts_def)
next
  case (Cons pl pls)
  let ?s = "run_Filter pl st pd n"
  have new: "set (AList.update (pl_Name pl) x statuses) = insert (pl_Name pl, x) (set statuses)" for x
    using Cons.prems(5) by (intro update_new) auto
  have dj: "pl_Name ` set pls \<inter> fst ` set statuses = {}" "distinct (map pl_Name pls)"
      "pl_Name ` set pls \<inter> fst ` set (AList.update (pl_Name pl) x statuses) = {}" for x
    using Cons.prems(4,5) unfolding new by auto
  show ?case
  proof (cases "pl_Name pl \<in> set skip")
    case True
    then show ?thesis using Cons.IH [OF Cons.prems(1-3) dj(2,1)] by (simp add: accepts_def)
  next
    case no: False
    show ?thesis
    proof (cases "IsSuccess ?s")
      case True
      have "verdict_ok (AList.update (pl_Name pl) ?s statuses)" "all_success (AList.update (pl_Name pl) ?s statuses) = all_success statuses"
        using Cons.prems(3) True by (auto simp: verdict_ok_def all_success_def new)
      then show ?thesis using Cons.IH [OF Cons.prems(1,2) _ dj(2,3)] True no by (simp add: accepts_def Let_def)
    next
      case False
      define f' where "f' = (if \<not> IsUnschedulable ?s \<and> length final = 0
          then [(pl_Name pl, NewStatus Error [''failed to run '' @ quoted (pl_Name pl) @ '' filter plugin for pod '' @
                                              quoted (pod_Name pd) @ '': '' @ Status_Message ?s])] else final)"
      define s' where "s' = (if IsUnschedulable ?s then AList.update (pl_Name pl) ?s statuses else statuses)"
      have loop: "filter_loop fit skip (pl # pls) st pd n final statuses =
          (if \<not> fit then (if length f' > 0 then f' else s') else filter_loop fit skip pls st pd n f' s')"
        using no False by (simp add: f'_def s'_def Let_def)
      have f': "verdict_ok f'" "f' \<noteq> [] \<longrightarrow> \<not> all_success f'" "f' = [] \<Longrightarrow> IsUnschedulable ?s"
        using Cons.prems(1,2) by (auto simp: f'_def verdict_ok_def all_success_def IsSuccess_def split: if_splits)
      have s': "verdict_ok s'" "IsUnschedulable ?s \<Longrightarrow> \<not> all_success s'" "pl_Name ` set pls \<inter> fst ` set s' = {}"
        using Cons.prems(3) False dj by (auto simp: s'_def verdict_ok_def all_success_def new)
      have "\<not> accepts (pl # pls) skip st pd n" using no False by (auto simp: accepts_def)
      moreover have "\<not> (f' = [] \<and> all_success s')" using f'(3) s'(2) by blast
      ultimately show ?thesis
        unfolding loop using Cons.IH [OF f'(1,2) s'(1) dj(2) s'(3)] f'(1,2) s'(1) by auto
    qed
  qed
qed

subsection \<open>Building the framework\<close>

definition registry_ok :: "'st plugin_map \<Rightarrow> bool" where
  "registry_ok registry = (\<forall>name pl. registry name = Some pl \<longrightarrow> pl_Name pl = name)"

definition slots_ok :: "'st plugin_map \<Rightarrow> 'st plugin list \<Rightarrow> (string \<rightharpoonup> nat) \<Rightarrow> bool" where
  "slots_ok registry ps idx =
     ((\<forall>name i. idx name = Some i \<longrightarrow> i < length ps \<and> registry name = Some (ps ! i)) \<and>
      (\<forall>i < length ps. idx (pl_Name (ps ! i)) = Some i))"

lemma slots_ok_distinct: "slots_ok registry ps idx \<Longrightarrow> distinct (map pl_Name ps)"
  unfolding slots_ok_def distinct_conv_nth by (auto simp: nth_map) (metis option.inject)

lemma register_ok:
  assumes "registry_ok registry" "slots_ok registry ps idx" "registry name = Some pl" "register name b pl (ps, idx) = (ps', idx')"
  shows "slots_ok registry ps' idx' \<and> set ps' = (if b then insert pl (set ps) else set ps)"
proof (cases "b \<and> idx name = None")
  case True
  have n: "pl_Name pl = name" using assms(1,3) by (simp add: registry_ok_def)
  have "ps' = ps @ [pl]" "idx' = idx(name \<mapsto> length ps)" using True assms(4) by (simp_all add: register_def)
  moreover have "pl_Name (ps ! i) \<noteq> name" if "i < length ps" for i
    using that assms(2) True unfolding slots_ok_def by (metis option.distinct(1))
  ultimately show ?thesis
    using assms(2,3) n True by (auto simp: slots_ok_def nth_append less_Suc_eq split: if_splits)
next
  case False
  then have "ps' = ps \<and> idx' = idx \<and> (b \<longrightarrow> pl \<in> set ps)"
    using assms(2-4) by (auto simp: register_def slots_ok_def split: option.splits if_splits)
  then show ?thesis using assms(2) by auto
qed

definition framework_ok :: "'st plugin_map \<Rightarrow> 'st pod_framework \<Rightarrow> bool" where
  "framework_ok registry f =
     (slots_ok registry (f_filterPlugins f) (f_filterPluginsSet f) \<and> slots_ok registry (f_scorePlugins f) (f_scorePluginsSet f))"

definition implementing :: "'st plugin_map \<Rightarrow> ('st plugin \<Rightarrow> bool) \<Rightarrow> PluginSpec list \<Rightarrow> 'st plugin set" where
  "implementing registry P specs = {pl. \<exists>spec \<in> set specs. registry (spec_Name spec) = Some pl \<and> P pl}"

abbreviation filters_of :: "'st plugin_map \<Rightarrow> PluginSpec list \<Rightarrow> 'st plugin set" where
  "filters_of registry specs \<equiv> implementing registry (\<lambda>pl. pl_Filter pl \<noteq> None) specs"

lemma addFilterPlugin_ok:
  assumes "registry_ok registry" "framework_ok registry f"
  shows "framework_ok registry (addFilterPlugin registry spec f) \<and>
    set (f_filterPlugins (addFilterPlugin registry spec f)) = set (f_filterPlugins f) \<union> filters_of registry [spec] \<and>
    f_scorePlugins (addFilterPlugin registry spec f) = f_scorePlugins f \<and>
    f_scoreWeightMap (addFilterPlugin registry spec f) = f_scoreWeightMap f"
proof (cases "registry (spec_Name spec)")
  case (Some pl)
  obtain fs fi where r: "register (spec_Name spec) (pl_Filter pl \<noteq> None) pl (f_filterPlugins f, f_filterPluginsSet f) = (fs, fi)"
    by fastforce
  have "slots_ok registry (f_filterPlugins f) (f_filterPluginsSet f)" "slots_ok registry (f_scorePlugins f) (f_scorePluginsSet f)"
    using assms(2) by (auto simp: framework_ok_def)
  then show ?thesis
    using register_ok [OF assms(1) _ Some r] Some r
    by (auto simp: addFilterPlugin_def framework_ok_def implementing_def Let_def split: prod.splits)
qed (use assms(2) in \<open>simp add: addFilterPlugin_def implementing_def\<close>)

lemma addFilterPlugins_ok:
  assumes "registry_ok registry" "framework_ok registry f"
  shows "framework_ok registry (fold (addFilterPlugin registry) specs f) \<and>
    set (f_filterPlugins (fold (addFilterPlugin registry) specs f)) = set (f_filterPlugins f) \<union> filters_of registry specs \<and>
    f_scorePlugins (fold (addFilterPlugin registry) specs f) = f_scorePlugins f \<and>
    f_scoreWeightMap (fold (addFilterPlugin registry) specs f) = f_scoreWeightMap f"
  using assms(2)
proof (induction specs arbitrary: f)
  case (Cons spec specs)
  show ?case using Cons.IH [of "addFilterPlugin registry spec f"] addFilterPlugin_ok [OF assms(1) Cons.prems, of spec]
    by (auto simp: implementing_def)
qed (simp add: implementing_def)

lemma addScorePlugin_ok:
  assumes "registry_ok registry" "framework_ok registry f"
  shows "framework_ok registry (addScorePlugin registry spec f) \<and>
    f_filterPlugins (addScorePlugin registry spec f) = f_filterPlugins f \<and>
    set (f_scorePlugins (addScorePlugin registry spec f)) =
      set (f_scorePlugins f) \<union> implementing registry (\<lambda>pl. pl_Score pl \<noteq> None) [spec] \<and>
    f_scoreWeightMap (addScorePlugin registry spec f) =
      (if \<exists>pl. registry (spec_Name spec) = Some pl \<and> pl_Score pl \<noteq> None
       then (f_scoreWeightMap f)(spec_Name spec \<mapsto> spec_Weight spec) else f_scoreWeightMap f)"
proof (cases "registry (spec_Name spec)")
  case (Some pl)
  obtain fs fi where r: "register (spec_Name spec) (pl_Score pl \<noteq> None) pl (f_scorePlugins f, f_scorePluginsSet f) = (fs, fi)"
    by fastforce
  have "slots_ok registry (f_filterPlugins f) (f_filterPluginsSet f)" "slots_ok registry (f_scorePlugins f) (f_scorePluginsSet f)"
    using assms(2) by (auto simp: framework_ok_def)
  then show ?thesis
    using register_ok [OF assms(1) _ Some r] Some r
    by (auto simp: addScorePlugin_def framework_ok_def implementing_def Let_def split: prod.splits)
qed (use assms(2) in \<open>simp add: addScorePlugin_def implementing_def\<close>)

lemma add_scores_filters:
  assumes "registry_ok registry"
  shows "framework_ok registry f \<Longrightarrow> add_scores registry specs (f, t) = Inr (f', t') \<Longrightarrow>
    framework_ok registry f' \<and> f_filterPlugins f' = f_filterPlugins f"
proof (induction specs arbitrary: f t)
  case (Cons spec specs)
  then show ?case
    using addScorePlugin_ok [OF assms Cons.prems(1), of spec] by (fastforce simp: Let_def split: if_splits)
qed simp

lemma empty_framework_ok: "framework_ok registry empty_framework"
  by (simp add: framework_ok_def slots_ok_def empty_framework_def)

lemma orderFilterPlugins_set [simp]:
  "set (f_filterPlugins (orderFilterPlugins order f)) = set (f_filterPlugins f)"
  "distinct (map pl_Name (f_filterPlugins (orderFilterPlugins order f))) = distinct (map pl_Name (f_filterPlugins f))"
proof -
  have m: "mset (f_filterPlugins (orderFilterPlugins order f)) = mset (f_filterPlugins f)"
    by (cases order) (simp_all add: orderFilterPlugins_def)
  then have "mset (map pl_Name (f_filterPlugins (orderFilterPlugins order f))) = mset (map pl_Name (f_filterPlugins f))" by simp
  then show "distinct (map pl_Name (f_filterPlugins (orderFilterPlugins order f))) = distinct (map pl_Name (f_filterPlugins f))"
    by (rule mset_eq_imp_distinct_iff)
  show "set (f_filterPlugins (orderFilterPlugins order f)) = set (f_filterPlugins f)" using mset_eq_setD [OF m] .
qed

definition base_collection :: "PluginCollection option \<Rightarrow> PluginCollection" where
  "base_collection b = (case b of None \<Rightarrow> \<lparr>pc_Filters = [], pc_Scores = []\<rparr> | Some x \<Rightarrow> x)"

lemma NewPodFramework_filters:
  assumes r: "registry_ok registry" and f: "NewPodFramework registry order base hard soft = Inr f"
  shows "distinct (map pl_Name (f_filterPlugins f)) \<and>
    set (f_filterPlugins f) = filters_of registry (pc_Filters (base_collection base) @ pc_Filters hard)"
proof -
  let ?f1 = "fold (addFilterPlugin registry) (pc_Filters (base_collection base)) empty_framework"
  obtain f2 t where 2: "add_scores registry (pc_Scores (base_collection base)) (?f1, MaxTotalScore) = Inr (f2, t)"
    using f unfolding NewPodFramework_def base_collection_def [symmetric] Let_def by (auto split: sum.splits prod.splits)
  obtain f3 u where 3: "add_scores registry (pc_Scores soft) (fold (addFilterPlugin registry) (pc_Filters hard) f2, t) = Inr (f3, u)"
      "f = orderFilterPlugins order f3"
    using f 2 unfolding NewPodFramework_def base_collection_def [symmetric] Let_def by (auto split: sum.splits prod.splits)
  note a1 = addFilterPlugins_ok [OF r empty_framework_ok, of "pc_Filters (base_collection base)"]
  note a2 = add_scores_filters [OF r _ 2]
  note a3 = addFilterPlugins_ok [OF r, of f2 "pc_Filters hard"]
  note a4 = add_scores_filters [OF r _ 3(1)]
  have "framework_ok registry f3 \<and>
      set (f_filterPlugins f3) = set (f_filterPlugins empty_framework) \<union> filters_of registry (pc_Filters (base_collection base)) \<union>
        filters_of registry (pc_Filters hard)"
    using a1 a2 a3 a4 by simp
  then show ?thesis
    using slots_ok_distinct unfolding 3(2) by (auto simp: framework_ok_def empty_framework_def implementing_def)
qed

subsection \<open>The budget of the scores\<close>

definition weight_ok :: "PluginSpec \<Rightarrow> bool" where
  "weight_ok spec = (0 \<le> sint (spec_Weight spec) \<and> sint (spec_Weight spec) * 100 < 2 ^ 63)"

definition weight_of :: "'st pod_framework \<Rightarrow> string \<Rightarrow> int" where
  "weight_of f name = sint (lookup0 (f_scoreWeightMap f) name)"

definition weights_total :: "'st pod_framework \<Rightarrow> int" where
  "weights_total f = (\<Sum>name \<in> pl_Name ` set (f_scorePlugins f). weight_of f name)"

lemma of_int_sint64: "of_int (sint (w :: int64)) = w" by (metis of_int_sint scast_id)

lemma sint_mult64: "in64 (sint a * sint b) \<Longrightarrow> sint (a * b :: int64) = sint a * sint b"
  using sint_of_int64 [of "sint a * sint b"] unfolding of_int_mult of_int_sint64 .

lemma sint_diff64: "in64 (sint a - sint b) \<Longrightarrow> sint (a - b :: int64) = sint a - sint b"
  using sint_of_int64 [of "sint a - sint b"] unfolding of_int_diff of_int_sint64 .

lemma sint_add64: "in64 (sint a + sint b) \<Longrightarrow> sint (a + b :: int64) = sint a + sint b"
  using sint_of_int64 [of "sint a + sint b"] unfolding of_int_add of_int_sint64 .

lemma sint_bound64: "- (2 ^ 63) \<le> sint (a :: int64)" "sint (a :: int64) < 2 ^ 63"
  using sint_range_size [of a] by (simp_all add: word_size)

lemma sum_insert_upd:
  fixes g :: "string \<Rightarrow> int"
  assumes "finite N" "\<And>x. x \<in> N \<Longrightarrow> 0 \<le> g x"
  shows "(\<Sum>x \<in> insert k N. (g(k := w)) x) \<le> (\<Sum>x \<in> N. g x) + w"
proof -
  have "(\<Sum>x \<in> insert k N. (g(k := w)) x) = w + (\<Sum>x \<in> N - {k}. (g(k := w)) x)"
    using assms(1) by (subst sum.insert_remove) simp_all
  also have "(\<Sum>x \<in> N - {k}. (g(k := w)) x) = (\<Sum>x \<in> N - {k}. g x)" by (rule sum.cong) auto
  also have "\<dots> \<le> (\<Sum>x \<in> N. g x)" using assms by (intro sum_mono2) auto
  finally show ?thesis by simp
qed

lemma addScorePlugin_weights:
  assumes "registry_ok registry" "framework_ok registry f" "0 \<le> sint (spec_Weight spec)" "\<And>name. 0 \<le> weight_of f name"
  shows "weights_total (addScorePlugin registry spec f) \<le> weights_total f + sint (spec_Weight spec) \<and>
    (\<forall>name. 0 \<le> weight_of (addScorePlugin registry spec f) name)"
proof (cases "\<exists>pl. registry (spec_Name spec) = Some pl \<and> pl_Score pl \<noteq> None")
  case True
  then obtain pl where pl: "registry (spec_Name spec) = Some pl" "pl_Score pl \<noteq> None" by blast
  have n: "pl_Name pl = spec_Name spec" using assms(1) pl(1) by (simp add: registry_ok_def)
  let ?f = "addScorePlugin registry spec f"
  have w: "weight_of ?f = (weight_of f)(spec_Name spec := sint (spec_Weight spec))"
    using addScorePlugin_ok [OF assms(1,2), of spec] True by (auto simp: weight_of_def lookup0_def fun_eq_iff)
  have "set (f_scorePlugins ?f) = insert pl (set (f_scorePlugins f))"
    using addScorePlugin_ok [OF assms(1,2), of spec] pl by (auto simp: implementing_def)
  then have "pl_Name ` set (f_scorePlugins ?f) = insert (spec_Name spec) (pl_Name ` set (f_scorePlugins f))" using n by simp
  then show ?thesis
    using sum_insert_upd [of "pl_Name ` set (f_scorePlugins f)" "weight_of f"] assms(3,4) by (simp add: weights_total_def w)
next
  case False
  then have "f_scoreWeightMap (addScorePlugin registry spec f) = f_scoreWeightMap f"
      "set (f_scorePlugins (addScorePlugin registry spec f)) = set (f_scorePlugins f)"
    using addScorePlugin_ok [OF assms(1,2), of spec] by (auto simp: implementing_def)
  then show ?thesis using assms(3,4) by (simp add: weights_total_def weight_of_def)
qed

lemma add_scores_budget:
  assumes "registry_ok registry"
  shows "framework_ok registry f \<Longrightarrow> (\<And>name. 0 \<le> weight_of f name) \<Longrightarrow> \<forall>spec \<in> set specs. weight_ok spec \<Longrightarrow>
    0 \<le> sint t \<Longrightarrow> 100 * weights_total f + sint t < 2 ^ 63 \<Longrightarrow> add_scores registry specs (f, t) = Inr (f', t') \<Longrightarrow>
    framework_ok registry f' \<and> (\<forall>name. 0 \<le> weight_of f' name) \<and> 0 \<le> sint t' \<and> 100 * weights_total f' + sint t' < 2 ^ 63"
proof (induction specs arbitrary: f t)
  case (Cons spec specs)
  have w: "0 \<le> sint (spec_Weight spec)" "sint (spec_Weight spec) * 100 < 2 ^ 63" using Cons.prems(3) by (auto simp: weight_ok_def)
  have m: "sint (spec_Weight spec * MaxNodeScore) = sint (spec_Weight spec) * 100"
    using sint_mult64 [of "spec_Weight spec" MaxNodeScore] w by (simp add: MaxNodeScore_def in64_def)
  have run: "add_scores registry specs (addScorePlugin registry spec f, t - spec_Weight spec * MaxNodeScore) = Inr (f', t')"
    and lt: "sint (spec_Weight spec * MaxNodeScore) < sint t"
    using Cons.prems(6) by (auto simp: Let_def split: if_splits)
  have d: "sint (t - spec_Weight spec * MaxNodeScore) = sint t - sint (spec_Weight spec) * 100"
    using sint_diff64 [of t "spec_Weight spec * MaxNodeScore"] lt w Cons.prems(4) sint_bound64(2) [of t] m by (simp add: in64_def)
  note a = addScorePlugin_weights [OF assms Cons.prems(1) w(1) Cons.prems(2)]
  show ?case
    using Cons.IH [OF _ _ _ _ _ run] addScorePlugin_ok [OF assms Cons.prems(1), of spec] a Cons.prems(3,5) d lt m by force
qed auto

lemma all_ok_Inr: "all_ok xs = Inr ys \<longleftrightarrow> xs = map Inr ys"
proof (induction xs arbitrary: ys)
  case (Cons x xs)
  show ?case
  proof (cases x)
    case (Inr a)
    then have "all_ok (x # xs) = Inr ys \<longleftrightarrow> (\<exists>zs. all_ok xs = Inr zs \<and> ys = a # zs)" by (auto split: sum.splits)
    also have "\<dots> \<longleftrightarrow> (\<exists>zs. xs = map Inr zs \<and> ys = a # zs)" by (simp only: Cons.IH)
    also have "\<dots> \<longleftrightarrow> x # xs = map Inr ys" using Inr by (cases ys) auto
    finally show ?thesis .
  qed (cases ys; simp)
qed auto

lemma all_ok_nth:
  assumes "all_ok (map g xs) = Inr ys"
  shows "length ys = length xs \<and> (\<forall>i < length xs. g (xs ! i) = Inr (ys ! i))"
proof -
  have eq: "map g xs = map Inr ys" using assms unfolding all_ok_Inr .
  then have l: "length ys = length xs" by (metis length_map)
  have "g (xs ! i) = Inr (ys ! i)" if "i < length xs" for i
    using arg_cong [OF eq, of "\<lambda>l. l ! i"] that l by simp
  then show ?thesis using l by blast
qed

text \<open>\<^verbatim>\<open>NormalizeScore\<close> changes the slots of a slice and not their number.\<close>

definition normalizers_ok :: "'st plugin_map \<Rightarrow> bool" where
  "normalizers_ok registry =
     (\<forall>name pl h st pd l. registry name = Some pl \<longrightarrow> pl_NormalizeScore pl = Some h \<longrightarrow> length (fst (h st pd l)) = length l)"

lemma weigh_slot_bounds:
  assumes "weigh_slot name w x = Inr y" "0 \<le> sint w" "100 * sint w < 2 ^ 63"
  shows "0 \<le> sint (ns_Score y) \<and> sint (ns_Score y) \<le> 100 * sint w \<and> sint (ns_Score y) = sint (ns_Score x) * sint w"
proof -
  have x: "0 \<le> sint (ns_Score x)" "sint (ns_Score x) \<le> 100" "ns_Score y = ns_Score x * w"
    using assms(1) by (auto simp: weigh_slot_def MaxNodeScore_def MinNodeScore_def split: if_splits)
  have "sint (ns_Score x) * sint w \<le> 100 * sint w" "0 \<le> sint (ns_Score x) * sint w"
    using x(1,2) assms(2) by (simp_all add: mult_right_mono)
  then show ?thesis using sint_mult64 [of "ns_Score x" w] assms(3) x(3) by (simp add: in64_def)
qed

lemma RunScorePlugins_slots:
  assumes r: "normalizers_ok registry" and pls: "set (f_scorePlugins f) \<subseteq> ran registry" and run: "RunScorePlugins f st pd names = Inr m"
  shows "length m = length (f_scorePlugins f) \<and>
    (\<forall>j < length m. length (snd (m ! j)) = length names \<and>
       (\<forall>i < length names. \<exists>x. weigh_slot (pl_Name (f_scorePlugins f ! j))
          (lookup0 (f_scoreWeightMap f) (pl_Name (f_scorePlugins f ! j))) x = Inr (snd (m ! j) ! i)))"
proof -
  let ?pls = "f_scorePlugins f"
  let ?w = "\<lambda>pl. weigh_slot (pl_Name pl) (lookup0 (f_scoreWeightMap f) (pl_Name pl))"
  obtain s1 s2 s3 where s: "all_ok (map (\<lambda>pl. all_ok (map (score_slot st pd pl) names)) ?pls) = Inr s1"
      "all_ok (map2 (normalize_slot st pd) ?pls s1) = Inr s2" "all_ok (map2 (\<lambda>pl l. all_ok (map (?w pl) l)) ?pls s2) = Inr s3"
      "m = zip (map pl_Name ?pls) s3"
    using run by (auto simp: RunScorePlugins_def Let_def split: sum.splits)
  have l1: "length s1 = length ?pls" "\<forall>j < length ?pls. length (s1 ! j) = length names"
    using all_ok_nth [OF s(1)] all_ok_nth by fastforce+
  have l2: "length s2 = length ?pls" "\<forall>j < length ?pls. normalize_slot st pd (?pls ! j) (s1 ! j) = Inr (s2 ! j)"
    using all_ok_nth [OF s(2)] l1(1) by auto
  have l3: "length s3 = length ?pls" "\<forall>j < length ?pls. all_ok (map (?w (?pls ! j)) (s2 ! j)) = Inr (s3 ! j)"
    using all_ok_nth [OF s(3)] l2(1) by auto
  have n: "length (s2 ! j) = length names" if j: "j < length ?pls" for j
  proof -
    obtain name where "registry name = Some (?pls ! j)" using pls nth_mem [OF j] by (auto simp: ran_def)
    then have "length (fst (h st pd (s1 ! j))) = length names" if "pl_NormalizeScore (?pls ! j) = Some h" for h
      using r that l1(2) j unfolding normalizers_ok_def by metis
    moreover have "normalize_slot st pd (?pls ! j) (s1 ! j) = Inr (s2 ! j)" "length (s1 ! j) = length names" using l2(2) l1(2) j by blast+
    ultimately show ?thesis
      by (cases "pl_NormalizeScore (?pls ! j)") (auto simp: normalize_slot_def split: prod.splits if_splits)
  qed
  have "length (s3 ! j) = length names \<and> (\<forall>i < length names. ?w (?pls ! j) (s2 ! j ! i) = Inr (s3 ! j ! i))" if j: "j < length ?pls" for j
    using all_ok_nth [of "?w (?pls ! j)" "s2 ! j" "s3 ! j"] l3(2) n j by auto
  then show ?thesis using s(4) l3(1) by auto
qed

lemma map_upt_nth: "map (\<lambda>j. g (xs ! j)) [0..<length xs] = map g xs"
  by (rule nth_equalityI) simp_all

lemma sum_list_sint:
  assumes "\<forall>x \<in> set xs. 0 \<le> sint (f x :: int64) \<and> sint (f x) \<le> b x" "(\<Sum>x \<leftarrow> xs. b x) < 2 ^ 63"
  shows "sint (\<Sum>x \<leftarrow> xs. f x) = (\<Sum>x \<leftarrow> xs. sint (f x)) \<and> 0 \<le> (\<Sum>x \<leftarrow> xs. sint (f x)) \<and> (\<Sum>x \<leftarrow> xs. sint (f x)) \<le> (\<Sum>x \<leftarrow> xs. b x)"
  using assms
proof (induction xs)
  case (Cons x xs)
  have b: "0 \<le> sint (f x)" "sint (f x) \<le> b x" "b x + (\<Sum>x \<leftarrow> xs. b x) < 2 ^ 63" using Cons.prems by simp_all
  have ih: "sint (\<Sum>x \<leftarrow> xs. f x) = (\<Sum>x \<leftarrow> xs. sint (f x))" "0 \<le> (\<Sum>x \<leftarrow> xs. sint (f x))"
      "(\<Sum>x \<leftarrow> xs. sint (f x)) \<le> (\<Sum>x \<leftarrow> xs. b x)"
    using Cons.IH Cons.prems(1) b by simp_all
  have "sint (f x + (\<Sum>x \<leftarrow> xs. f x)) = sint (f x) + (\<Sum>x \<leftarrow> xs. sint (f x))"
    using sint_add64 [of "f x" "\<Sum>x \<leftarrow> xs. f x"] b ih by (simp add: in64_def)
  then show ?case using b ih by simp
qed simp

lemma NewPodFramework_scores:
  assumes r: "registry_ok registry" and f: "NewPodFramework registry order base hard soft = Inr f"
    and w: "\<forall>spec \<in> set (pc_Scores (base_collection base) @ pc_Scores soft). weight_ok spec"
  shows "(\<forall>name. 0 \<le> weight_of f name) \<and> 100 * weights_total f < 2 ^ 63 \<and> distinct (map pl_Name (f_scorePlugins f)) \<and>
    set (f_scorePlugins f) \<subseteq> ran registry"
proof -
  let ?f1 = "fold (addFilterPlugin registry) (pc_Filters (base_collection base)) empty_framework"
  obtain f2 t where 2: "add_scores registry (pc_Scores (base_collection base)) (?f1, MaxTotalScore) = Inr (f2, t)"
    using f unfolding NewPodFramework_def base_collection_def [symmetric] Let_def by (auto split: sum.splits prod.splits)
  let ?f2 = "fold (addFilterPlugin registry) (pc_Filters hard) f2"
  obtain f3 u where 3: "add_scores registry (pc_Scores soft) (?f2, t) = Inr (f3, u)" "f = orderFilterPlugins order f3"
    using f 2 unfolding NewPodFramework_def base_collection_def [symmetric] Let_def by (auto split: sum.splits prod.splits)
  note a1 = addFilterPlugins_ok [OF r empty_framework_ok, of "pc_Filters (base_collection base)"]
  have e: "weight_of ?f1 name = 0" "weights_total ?f1 = 0" for name
    using a1 by (simp_all add: weight_of_def weights_total_def empty_framework_def)
  have b2: "framework_ok registry f2 \<and> (\<forall>name. 0 \<le> weight_of f2 name) \<and> 0 \<le> sint t \<and> 100 * weights_total f2 + sint t < 2 ^ 63"
    using add_scores_budget [OF r _ _ _ _ _ 2] a1 e w by (simp add: MaxTotalScore_def)
  note a2 = addFilterPlugins_ok [OF r conjunct1 [OF b2], of "pc_Filters hard"]
  have e2: "weight_of ?f2 name = weight_of f2 name" "weights_total ?f2 = weights_total f2" for name
    using a2 by (simp_all add: weight_of_def weights_total_def)
  have b3: "framework_ok registry f3 \<and> (\<forall>name. 0 \<le> weight_of f3 name) \<and> 0 \<le> sint u \<and> 100 * weights_total f3 + sint u < 2 ^ 63"
    using add_scores_budget [OF r _ _ _ _ _ 3(1)] a2 b2 e2 w by simp
  have same: "f_scorePlugins f = f_scorePlugins f3" "f_scoreWeightMap f = f_scoreWeightMap f3"
    unfolding 3(2) by (cases order; simp add: orderFilterPlugins_def)+
  have s: "slots_ok registry (f_scorePlugins f3) (f_scorePluginsSet f3)" using b3 by (simp add: framework_ok_def)
  have "pl \<in> ran registry" if "pl \<in> set (f_scorePlugins f3)" for pl
    using s that unfolding slots_ok_def in_set_conv_nth ran_def by blast
  then show ?thesis
    using b3 same slots_ok_distinct [OF s] by (auto simp: weight_of_def weights_total_def)
qed

subsection \<open>Properties\<close>

text \<open>
  C9. The verdict on a node. For a framework built from the base plugins and the constraints of a pod, the merged
  result of \<^verbatim>\<open>RunFilterPlugins\<close> is a success, and \<^verbatim>\<open>PodPassesFiltersOnNode\<close> answers true, exactly when every filter
  plugin named by the base plugins or the hard constraints that is registered and not skipped accepts the node: no
  plugin is lost by the registration or the sorting, a rejection is never hidden by a later success, whatever
  the debug mode of the pod and the order in which the map of statuses is visited. An error is returned
  exactly with an Error verdict.
\<close>

theorem filter_verdict:
  assumes "registry_ok registry" and "NewPodFramework registry pluginOrder base hard soft = Inr f"
    and "mset order = mset (RunFilterPlugins unmarshal f st pd n skip)"
  shows "(fst (PodPassesFiltersOnNode order) \<longleftrightarrow>
      (\<forall>pl \<in> filters_of registry (pc_Filters (base_collection base) @ pc_Filters hard).
         pl_Name pl \<notin> set skip \<longrightarrow> IsSuccess (run_Filter pl st pd n))) \<and>
    (snd (snd (PodPassesFiltersOnNode order)) \<noteq> None \<longleftrightarrow> Status_Code (Merge order) = Error)"
proof -
  note F = NewPodFramework_filters [OF assms(1,2)]
  let ?res = "RunFilterPlugins unmarshal f st pd n skip"
  have v: "verdict_ok ?res" "all_success ?res \<longleftrightarrow> accepts (f_filterPlugins f) skip st pd n"
    using filter_loop_verdict [of "[]" "[]" "f_filterPlugins f"] F by (auto simp: RunFilterPlugins_def verdict_ok_def all_success_def)
  have s: "set order = set ?res" using mset_eq_setD [OF assms(3)] .
  have ok: "verdict_ok order" "all_success order \<longleftrightarrow> accepts (f_filterPlugins f) skip st pd n"
    using v unfolding verdict_ok_def all_success_def s by blast+
  have m: "IsSuccess (Merge order) \<longleftrightarrow> accepts (f_filterPlugins f) skip st pd n" using Merge_success [OF ok(1)] ok(2) by (simp add: all_success_def)
  have c: "Status_Code (Merge order) \<in> {Success, Error, Unschedulable, UnschedulableAndUnresolvable}"
    using ok(1) last_in_set [of order] unfolding Merge_code verdict_ok_def IsSuccess_def IsUnschedulable_def by auto
  have e: "AsError (Merge order) \<noteq> None" if "Status_Code (Merge order) = Error"
    using that by (auto simp: AsError_def IsSuccess_def Status_Code_def split: option.splits)
  have "fst (PodPassesFiltersOnNode order) \<longleftrightarrow> IsSuccess (Merge order)" by (simp add: PodPassesFiltersOnNode_def Let_def)
  moreover have "snd (snd (PodPassesFiltersOnNode order)) \<noteq> None \<longleftrightarrow> Status_Code (Merge order) = Error"
    using c e by (auto simp: PodPassesFiltersOnNode_def Let_def IsSuccess_def IsUnschedulable_def)
  ultimately show ?thesis using m F unfolding accepts_def by simp
qed

definition plugin_example :: "string \<Rightarrow> Status option \<Rightarrow> int64 \<Rightarrow> unit plugin" where
  "plugin_example name status score =
     \<lparr>pl_Name = name, pl_Filter = Some (\<lambda>st pd n. status), pl_PreFilter = None, pl_CrossNodes = None, pl_PreScore = None,
      pl_Score = Some (\<lambda>st pd node. (score, None)), pl_NormalizeScore = None\<rparr>"

definition registry_example :: "unit plugin_map" where
  "registry_example =
     [''A'' \<mapsto> plugin_example ''A'' None 100, ''B'' \<mapsto> plugin_example ''B'' (NewStatus Unschedulable [''no'']) 50]"

definition collection_example :: "string list \<Rightarrow> (string \<times> int64) list \<Rightarrow> PluginCollection" where
  "collection_example fs ss =
     \<lparr>pc_Filters = map (\<lambda>x. \<lparr>spec_Name = x, spec_Weight = 1\<rparr>) fs, pc_Scores = map (\<lambda>(x, w). \<lparr>spec_Name = x, spec_Weight = w\<rparr>) ss\<rparr>"

lemmas example_defs = plugin_example_def registry_example_def collection_example_def base_collection_def

lemma registry_example_ok: "registry_ok registry_example" "normalizers_ok registry_example"
  by (auto simp: registry_ok_def normalizers_ok_def registry_example_def plugin_example_def split: if_splits)

lemma example_framework:
  "\<exists>f. NewPodFramework registry_example None (Some (collection_example [''A''] [(''A'', 2)])) (collection_example [''B''] [])
         (collection_example [] [(''B'', 3)]) = Inr f \<and>
       f_filterPlugins f = map (the \<circ> registry_example) [''A'', ''B''] \<and> f_scorePlugins f = map (the \<circ> registry_example) [''A'', ''B''] \<and>
       f_scoreWeightMap f = [''A'' \<mapsto> 2, ''B'' \<mapsto> 3]"
  by (simp add: NewPodFramework_def example_defs empty_framework_def addFilterPlugin_def addScorePlugin_def register_def
      orderFilterPlugins_def MaxTotalScore_def MaxWeight_def MaxNodeScore_def Let_def)

theorem filter_verdict_witness:
  "\<exists>f. NewPodFramework registry_example None (Some (collection_example [''A''] [(''A'', 2)])) (collection_example [''B''] [])
         (collection_example [] [(''B'', 3)]) = Inr f \<and>
       \<not> fst (PodPassesFiltersOnNode (RunFilterPlugins (\<lambda>s. []) f () v1pod_example empty_node [])) \<and>
       fst (PodPassesFiltersOnNode (RunFilterPlugins (\<lambda>s. []) f () v1pod_example empty_node [''B'']))"
proof -
  obtain f where f: "NewPodFramework registry_example None (Some (collection_example [''A''] [(''A'', 2)])) (collection_example [''B''] [])
      (collection_example [] [(''B'', 3)]) = Inr f"
    using example_framework by blast
  note v = filter_verdict [OF registry_example_ok(1) f refl, where unmarshal = "\<lambda>s. []" and st = "()" and pd = v1pod_example and n = empty_node]
  have "implementing registry_example (\<lambda>pl. pl_Filter pl \<noteq> None)
      (pc_Filters (base_collection (Some (collection_example [''A''] [(''A'', 2)]))) @ pc_Filters (collection_example [''B''] [])) =
      {plugin_example ''A'' None 100, plugin_example ''B'' (NewStatus Unschedulable [''no'']) 50}"
    by (auto simp: implementing_def example_defs)
  then show ?thesis
    using v [where skip = "[]"] v [where skip = "[''B'']"] f
    by (simp add: plugin_example_def run_Filter_def IsSuccess_def) (simp add: Status_Code_def)
qed

text \<open>
  C22. Scores stay in range. Where the weights are not negative and a hundred times a weight fits an \<^verbatim>\<open>int64\<close>, the
  budget of \<^verbatim>\<open>NewPodFramework\<close> is enough: whatever the score plugins return, the total score of every node in
  \<^verbatim>\<open>prioritizeNodes\<close> is the exact sum of the weighted scores, with no wrap-around, and not negative.
\<close>

theorem total_score_in_range:
  assumes "registry_ok registry" and "normalizers_ok registry" and "NewPodFramework registry pluginOrder base hard soft = Inr f"
    and "\<forall>spec \<in> set (pc_Scores (base_collection base) @ pc_Scores soft). weight_ok spec"
    and "RunScorePlugins f st pd names = Inr m" and "i < length names"
  shows "sint (total_score m i) = (\<Sum>(name, l) \<leftarrow> m. sint (ns_Score (l ! i))) \<and>
    0 \<le> sint (total_score m i) \<and> (\<forall>(name, l) \<in> set m. 0 \<le> sint (ns_Score (l ! i)))"
proof -
  let ?pls = "f_scorePlugins f"
  note F = NewPodFramework_scores [OF assms(1,3,4)]
  note S = RunScorePlugins_slots [OF assms(2) _ assms(5)]
  have len: "length m = length ?pls" and
    slot: "\<And>j. j < length m \<Longrightarrow> \<exists>x. weigh_slot (pl_Name (?pls ! j)) (lookup0 (f_scoreWeightMap f) (pl_Name (?pls ! j))) x = Inr (snd (m ! j) ! i)"
    using S F assms(6) by blast+
  have part: "100 * weight_of f (pl_Name pl) < 2 ^ 63" if "pl \<in> set ?pls" for pl
  proof -
    have "weight_of f (pl_Name pl) \<le> weights_total f"
      unfolding weights_total_def using that F by (intro member_le_sum) auto
    then show ?thesis using F by linarith
  qed
  have b: "0 \<le> sint (ns_Score (snd (m ! j) ! i)) \<and> sint (ns_Score (snd (m ! j) ! i)) \<le> 100 * weight_of f (pl_Name (?pls ! j))"
    if "j < length m" for j
    using slot [OF that] weigh_slot_bounds F part [of "?pls ! j"] that len unfolding weight_of_def by (metis nth_mem)
  have "(\<Sum>j \<leftarrow> [0..<length m]. 100 * weight_of f (pl_Name (?pls ! j))) = (\<Sum>pl \<leftarrow> ?pls. 100 * weight_of f (pl_Name pl))"
    unfolding len using map_upt_nth [of "\<lambda>pl. 100 * weight_of f (pl_Name pl)" ?pls] by (rule arg_cong)
  also have "\<dots> = (\<Sum>name \<leftarrow> map pl_Name ?pls. 100 * weight_of f name)" by (simp add: comp_def)
  also have "\<dots> = 100 * weights_total f"
    using sum_list_distinct_conv_sum_set [of "map pl_Name ?pls" "\<lambda>name. 100 * weight_of f name"] F
    by (simp add: weights_total_def sum_distrib_left del: map_map)
  finally have "(\<Sum>j \<leftarrow> [0..<length m]. 100 * weight_of f (pl_Name (?pls ! j))) < 2 ^ 63" using F by simp
  then have t: "sint (\<Sum>j \<leftarrow> [0..<length m]. ns_Score (snd (m ! j) ! i)) = (\<Sum>j \<leftarrow> [0..<length m]. sint (ns_Score (snd (m ! j) ! i)))"
      "0 \<le> (\<Sum>j \<leftarrow> [0..<length m]. sint (ns_Score (snd (m ! j) ! i)))"
    using sum_list_sint [of "[0..<length m]" "\<lambda>j. ns_Score (snd (m ! j) ! i)" "\<lambda>j. 100 * weight_of f (pl_Name (?pls ! j))"] b by auto
  have "total_score m i = (\<Sum>j \<leftarrow> [0..<length m]. ns_Score (snd (m ! j) ! i))"
      "(\<Sum>(name, l) \<leftarrow> m. sint (ns_Score (l ! i))) = (\<Sum>j \<leftarrow> [0..<length m]. sint (ns_Score (snd (m ! j) ! i)))"
    using map_upt_nth [of "\<lambda>e. ns_Score (snd e ! i)" m] map_upt_nth [of "\<lambda>e. sint (ns_Score (snd e ! i))" m]
    by (simp_all add: total_score_def case_prod_unfold)
  moreover have "0 \<le> sint (ns_Score (snd e ! i))" if "e \<in> set m" for e using that b by (auto simp: in_set_conv_nth)
  ultimately show ?thesis using t by auto
qed

theorem total_score_in_range_witness:
  "\<exists>f m. NewPodFramework registry_example None (Some (collection_example [''A''] [(''A'', 2)])) (collection_example [''B''] [])
         (collection_example [] [(''B'', 3)]) = Inr f \<and> RunScorePlugins f () v1pod_example [''n1''] = Inr m \<and>
       sint (total_score m 0) = 350 \<and> (\<forall>(name, l) \<in> set m. 0 \<le> sint (ns_Score (l ! 0)))"
proof -
  obtain f where f: "NewPodFramework registry_example None (Some (collection_example [''A''] [(''A'', 2)])) (collection_example [''B''] [])
      (collection_example [] [(''B'', 3)]) = Inr f" "f_scorePlugins f = map (the \<circ> registry_example) [''A'', ''B'']"
      "f_scoreWeightMap f = [''A'' \<mapsto> 2, ''B'' \<mapsto> 3]"
    using example_framework by blast
  obtain m where m: "RunScorePlugins f () v1pod_example [''n1''] = Inr m" "map snd m = [[\<lparr>ns_Name = ''n1'', ns_Score = 200\<rparr>], [\<lparr>ns_Name = ''n1'', ns_Score = 150\<rparr>]]"
    by (simp add: RunScorePlugins_def f(2,3) example_defs score_slot_def run_Score_def IsSuccess_def Status_Code_def normalize_slot_def
        weigh_slot_def MaxNodeScore_def MinNodeScore_def Let_def)
  have "\<forall>spec \<in> set (pc_Scores (base_collection (Some (collection_example [''A''] [(''A'', 2)]))) @ pc_Scores (collection_example [] [(''B'', 3)])).
      weight_ok spec"
    by (simp add: weight_ok_def example_defs)
  note t = total_score_in_range [OF registry_example_ok f(1) this m(1), of 0]
  have "(\<Sum>(name, l) \<leftarrow> m. sint (ns_Score (l ! 0))) = (\<Sum>l \<leftarrow> map snd m. sint (ns_Score (l ! 0)))" by (simp add: case_prod_unfold comp_def)
  then show ?thesis using t f(1) m by simp
qed

lemma addFilterPlugin_scores:
  "f_scorePlugins (addFilterPlugin registry spec f) = f_scorePlugins f \<and>
   f_scorePluginsSet (addFilterPlugin registry spec f) = f_scorePluginsSet f \<and>
   f_scoreWeightMap (addFilterPlugin registry spec f) = f_scoreWeightMap f"
  by (auto simp: addFilterPlugin_def Let_def split: option.split prod.split)

lemma addFilterPlugins_scores:
  "f_scorePlugins (fold (addFilterPlugin registry) specs f) = f_scorePlugins f \<and>
   f_scorePluginsSet (fold (addFilterPlugin registry) specs f) = f_scorePluginsSet f \<and>
   f_scoreWeightMap (fold (addFilterPlugin registry) specs f) = f_scoreWeightMap f"
  by (induction specs arbitrary: f) (simp_all add: addFilterPlugin_scores)

text \<open>A hundredfold is even, so it never meets the first test of the total: a single score plugin passes with every weight.\<close>

lemma hundredfold_below_total: "sint (w * MaxNodeScore) < sint MaxTotalScore"
proof -
  have t: "sint MaxTotalScore = 2 ^ 63 - 1" by (simp add: MaxTotalScore_def)
  have "sint (w * MaxNodeScore) \<noteq> sint MaxTotalScore"
  proof
    assume "sint (w * MaxNodeScore) = sint MaxTotalScore"
    then have "w * MaxNodeScore = MaxTotalScore" by (metis of_int_sint64)
    moreover have "even (w * MaxNodeScore)" by (simp add: MaxNodeScore_def)
    moreover have "odd MaxTotalScore" by (simp add: MaxTotalScore_def)
    ultimately show False by simp
  qed
  then show ?thesis using sint_bound64(2) [of "w * MaxNodeScore"] t by simp
qed

lemma single_score_framework:
  assumes "registry name = Some pl" "pl_Score pl \<noteq> None" "sint w \<le> sint MaxWeight"
    "pc_Scores (base_collection base) = []" "pc_Scores soft = [\<lparr>spec_Name = name, spec_Weight = w\<rparr>]"
  shows "\<exists>f. NewPodFramework registry order base hard soft = Inr f \<and> f_scorePlugins f = [pl] \<and>
             lookup0 (f_scoreWeightMap f) name = w"
proof -
  define f1 where "f1 = fold (addFilterPlugin registry) (pc_Filters hard)
    (fold (addFilterPlugin registry) (pc_Filters (base_collection base)) empty_framework)"
  let ?f2 = "addScorePlugin registry \<lparr>spec_Name = name, spec_Weight = w\<rparr> f1"
  have f1: "f_scorePlugins f1 = []" "f_scorePluginsSet f1 = Map.empty"
    by (simp_all add: f1_def addFilterPlugins_scores) (simp_all add: empty_framework_def)
  have "f_scorePlugins ?f2 = [pl]" "lookup0 (f_scoreWeightMap ?f2) name = w"
    using assms(1,2) f1 by (auto simp: addScorePlugin_def register_def Let_def lookup0_def split: prod.split)
  moreover have "NewPodFramework registry order base hard soft = Inr (orderFilterPlugins order ?f2)"
    using assms(3-5) hundredfold_below_total [of w]
    by (simp add: NewPodFramework_def base_collection_def [symmetric] Let_def f1_def not_less not_le)
  moreover have "f_scorePlugins (orderFilterPlugins order g) = f_scorePlugins g"
    "f_scoreWeightMap (orderFilterPlugins order g) = f_scoreWeightMap g" for g :: "'a pod_framework"
    by (simp_all add: orderFilterPlugins_def split: option.split)
  ultimately show ?thesis by simp
qed

text \<open>The least score whose weighted value wraps: it is legal, and the wrapped value is negative.\<close>

lemma least_wrapping_score:
  fixes w v :: int
  assumes "2 ^ 63 \<le> 100 * w" "w \<le> sint MaxWeight" "v = (2 ^ 63 - 1) div w + 1"
  shows "0 \<le> v \<and> v \<le> 100 \<and> 2 ^ 63 \<le> v * w \<and> v * w < 2 ^ 64"
proof -
  define q r where "q = (2 ^ 63 - 1 :: int) div w" and "r = (2 ^ 63 - 1 :: int) mod w"
  have w: "0 < w" "w \<le> 922337203685477580" using assms(1,2) by (simp_all add: MaxWeight_def)
  have d: "2 ^ 63 - 1 = q * w + r" "0 \<le> r" "r < w"
    using w(1) by (simp_all add: q_def r_def)
  have q: "0 \<le> q" using w(1) by (simp add: q_def pos_imp_zdiv_nonneg_iff)
  have vw: "v * w = q * w + w" using assms(3) by (simp add: q_def distrib_right)
  have "q * w < 100 * w" using d assms(1) by linarith
  then have "q < 100" using w(1) by simp
  moreover have "v = q + 1" using assms(3) by (simp only: q_def)
  moreover have "2 ^ 63 \<le> v * w" using vw d(1,3) by linarith
  moreover have "v * w < 2 ^ 64"
  proof -
    have "q * w \<le> 2 ^ 63 - 1" using d(1,2) by linarith
    then show ?thesis using vw w(2) by simp
  qed
  ultimately show ?thesis using q by linarith
qed

lemma wrapped_negative:
  assumes "2 ^ 63 \<le> sint s * sint w" "sint s * sint w < 2 ^ 64"
  shows "sint (s * w :: int64) < 0"
proof -
  have "in64 (sint s * sint w - 2 ^ 64)" using assms by (simp add: in64_def)
  then have r: "sint (of_int (sint s * sint w - 2 ^ 64) :: int64) = sint s * sint w - 2 ^ 64" by (rule sint_of_int64)
  have e: "(of_int (sint s * sint w - 2 ^ 64) :: int64) = s * w"
    by (simp add: of_int_sint64)
  show ?thesis using r assms(2) unfolding e by linarith
qed

text \<open>
  C23. The overflow test lets overflowing weights pass. \<^verbatim>\<open>MaxWeight\<close> divides the total by the largest custom priority score,
  which is 10, but a score can be 100: take any registry, any score plugin without a normalisation and any weight within
  \<^verbatim>\<open>MaxWeight\<close> whose hundredfold exceeds an int64. The framework with that plugin as its only score plugin is built without an
  error, for all filter plugins, and there is a legal score \<open>v\<close> such that a node the plugin gives the score \<open>v\<close> is rated below a node
  it gives none.
\<close>

theorem weight_guard_overflows:
  assumes "registry name = Some pl" "pl_Name pl = name" "pl_Score pl = Some (\<lambda>st pd n. (score n, None))" "pl_NormalizeScore pl = None"
    "sint w \<le> sint MaxWeight" "2 ^ 63 \<le> 100 * sint w" "v = (2 ^ 63 - 1) div sint w + 1"
    "pc_Scores (base_collection base) = []" "pc_Scores soft = [\<lparr>spec_Name = name, spec_Weight = w\<rparr>]"
  shows "0 \<le> v \<and> v \<le> sint MaxNodeScore \<and>
    (\<exists>f. NewPodFramework registry order base hard soft = Inr f \<and>
       (\<forall>a b. a \<noteq> [] \<longrightarrow> b \<noteq> [] \<longrightarrow> sint (score a) = v \<longrightarrow> score b = 0 \<longrightarrow>
          (\<exists>m. RunScorePlugins f st pd [a, b] = Inr m \<and> sint (total_score m 0) < sint (total_score m 1))))"
proof -
  have v: "0 \<le> v" "v \<le> 100" "2 ^ 63 \<le> v * sint w" "v * sint w < 2 ^ 64"
    using least_wrapping_score [OF assms(6,5,7)] by auto
  obtain f where f: "NewPodFramework registry order base hard soft = Inr f" "f_scorePlugins f = [pl]"
    "lookup0 (f_scoreWeightMap f) name = w"
    using single_score_framework [where registry = registry and name = name and pl = pl and w = w] assms(1,3,5,8,9) by blast
  have "\<exists>m. RunScorePlugins f st pd [a, b] = Inr m \<and> sint (total_score m 0) < sint (total_score m 1)"
    if "a \<noteq> []" "b \<noteq> []" and s: "sint (score a) = v" "score b = 0" for a b
  proof (intro exI conjI)
    show "RunScorePlugins f st pd [a, b] =
        Inr [(name, [\<lparr>ns_Name = a, ns_Score = score a * w\<rparr>, \<lparr>ns_Name = b, ns_Score = 0\<rparr>])]"
      using that assms(2-4) v(1,2) f(3)
      by (simp add: RunScorePlugins_def f(2) score_slot_def run_Score_def IsSuccess_def Status_Code_def normalize_slot_def
          weigh_slot_def MaxNodeScore_def MinNodeScore_def Let_def)
    show "sint (total_score [(name, [\<lparr>ns_Name = a, ns_Score = score a * w\<rparr>, \<lparr>ns_Name = b, ns_Score = 0\<rparr>])] 0) <
        sint (total_score [(name, [\<lparr>ns_Name = a, ns_Score = score a * w\<rparr>, \<lparr>ns_Name = b, ns_Score = 0\<rparr>])] 1)"
      using wrapped_negative [of "score a" w] v(3,4) s(1) by (simp add: total_score_def)
  qed
  then show ?thesis using v f(1) by (auto simp: MaxNodeScore_def)
qed

definition wrap_plugin :: "unit plugin" where
  "wrap_plugin = (plugin_example ''B'' None 0)\<lparr>pl_Score := Some (\<lambda>st pd n. (if n = ''n1'' then 50 else 0, None))\<rparr>"

theorem weight_guard_overflows_witness:
  "\<exists>f m. NewPodFramework [''B'' \<mapsto> wrap_plugin] None None (collection_example [] [])
         (collection_example [] [(''B'', 184467440737095517)]) = Inr f \<and>
       RunScorePlugins f () v1pod_example [''n1'', ''n2''] = Inr m \<and> sint (total_score m 0) < sint (total_score m 1)"
proof -
  have p: "[''B'' \<mapsto> wrap_plugin] ''B'' = Some wrap_plugin" "pl_Name wrap_plugin = ''B''"
    "pl_Score wrap_plugin = Some (\<lambda>st pd n. (if n = ''n1'' then 50 else 0, None))" "pl_NormalizeScore wrap_plugin = None"
    by (simp_all add: wrap_plugin_def plugin_example_def)
  have w: "sint (184467440737095517 :: int64) \<le> sint MaxWeight" "2 ^ 63 \<le> 100 * sint (184467440737095517 :: int64)"
    "50 = (2 ^ 63 - 1) div sint (184467440737095517 :: int64) + 1"
    by (simp_all add: MaxWeight_def)
  have c: "pc_Scores (base_collection None) = []"
    "pc_Scores (collection_example [] [(''B'', 184467440737095517)]) = [\<lparr>spec_Name = ''B'', spec_Weight = 184467440737095517\<rparr>]"
    by (simp_all add: base_collection_def collection_example_def)
  obtain f where "NewPodFramework [''B'' \<mapsto> wrap_plugin] None None (collection_example [] [])
         (collection_example [] [(''B'', 184467440737095517)]) = Inr f"
      "\<exists>m. RunScorePlugins f () v1pod_example [''n1'', ''n2''] = Inr m \<and> sint (total_score m 0) < sint (total_score m 1)"
    using weight_guard_overflows [of "[''B'' \<mapsto> wrap_plugin]" "''B''" wrap_plugin "\<lambda>n. if n = ''n1'' then 50 else 0",
        OF p w c, of None "collection_example [] []" "()" v1pod_example] by auto
  then show ?thesis by blast
qed

text \<open>The list of code names lacks one: a success of a preemption is printed as a failure, and the last code has no name.\<close>

lemma code_names_shifted:
  "Code_String PreemptionSucceed = Some ''PreemptionFail'' \<and> Code_String PreemptionFail = Some ''PreemptionNotSure'' \<and>
   Code_String PreemptionNotSure = None"
  by (simp add: Code_String_def codes_def)

end
