(* ===== verification/Min_Heap.thy ===== *)
theory Min_Heap
  imports Plugin_Framework
begin

section \<open>The heap of scored nodes (pkg/scheduler/util/min_heap.go)\<close>

text \<open>
  A binary heap with the smallest score at the top. The slice keeps its length when the heap shrinks, so the heap is
  the first \<^verbatim>\<open>size\<close> entries of it. The loops are recursive functions over the slice. Every access to the slice is checked: an
  index out of range is a panic, \<open>None\<close>.

  The properties: the operations keep the heap order and act on the multiset of the entries,
  \<^verbatim>\<open>TopHighestScoreNodes\<close> returns the highest scored nodes in rising order and panics exactly when it is asked for more nodes
  than there are or for a negative number, and a \<^verbatim>\<open>SiftUp\<close> after a \<^verbatim>\<open>SiftDown\<close> loses the node.
\<close>

subsection \<open>Operations\<close>

record MinHeap =
  mh_size :: nat
  mh_scoredNodes :: "NodeScore list"

definition NewMinHeap :: MinHeap where "NewMinHeap = \<lparr>mh_size = 0, mh_scoredNodes = []\<rparr>"

definition Parent :: "nat \<Rightarrow> nat" where "Parent i = (if i = 0 then 0 else (i - 1) div 2)"
definition LeftChild :: "nat \<Rightarrow> nat" where "LeftChild i = 2 * i + 1"

definition mh_IsEmpty :: "MinHeap \<Rightarrow> bool" where "mh_IsEmpty h = (mh_size h = 0)"
definition mh_GetSize :: "MinHeap \<Rightarrow> nat" where "mh_GetSize h = mh_size h"

text \<open>The accesses to the slice: reading an entry, its score, and exchanging two entries.\<close>

definition entry_at :: "NodeScore list \<Rightarrow> nat \<Rightarrow> NodeScore option" where
  "entry_at xs i = (if i < length xs then Some (xs ! i) else None)"

definition score_of :: "NodeScore \<Rightarrow> int" where "score_of x = sint (ns_Score x)"

definition exchange :: "NodeScore list \<Rightarrow> nat \<Rightarrow> nat \<Rightarrow> NodeScore list option" where
  "exchange xs i j = do { a \<leftarrow> entry_at xs i; b \<leftarrow> entry_at xs j; Some (xs[i := b, j := a]) }"

text \<open>\<open>Some None\<close> is the error of an empty heap.\<close>

definition mh_GetMinVal :: "MinHeap \<Rightarrow> NodeScore option option" where
  "mh_GetMinVal h = (if mh_IsEmpty h then Some None else map_option Some (entry_at (mh_scoredNodes h) 0))"

function siftDown :: "nat \<Rightarrow> NodeScore list \<Rightarrow> nat \<Rightarrow> NodeScore list option" where
  "siftDown n xs parI =
     (let leftI = LeftChild parI in
      if leftI + 1 > n then Some xs
      else if leftI + 2 > n then
        do { p \<leftarrow> entry_at xs parI; l \<leftarrow> entry_at xs leftI;
             if score_of p > score_of l then exchange xs parI leftI else Some xs }
      else
        do { l \<leftarrow> entry_at xs leftI; r \<leftarrow> entry_at xs (leftI + 1);
             let minI = (if score_of l \<le> score_of r then leftI else leftI + 1);
             p \<leftarrow> entry_at xs parI; m \<leftarrow> entry_at xs minI;
             xs' \<leftarrow> (if score_of p > score_of m then exchange xs parI minI else Some xs);
             siftDown n xs' minI })"
  by pat_completeness auto

termination by (relation "measure (\<lambda>(n, xs, parI). n - parI)") (auto simp: LeftChild_def Let_def)

lemma Parent_less: "0 < i \<Longrightarrow> Parent i < i" by (simp add: Parent_def)

text \<open>The loop of \<^verbatim>\<open>SiftUp\<close>; at the root the two indices meet and the test fails.\<close>

function siftUp :: "NodeScore list \<Rightarrow> nat \<Rightarrow> NodeScore list option" where
  "siftUp xs childI =
     (let parI = Parent childI in
      case (entry_at xs parI, entry_at xs childI) of
        (Some p, Some c) \<Rightarrow>
          if score_of p > score_of c then
            (case exchange xs parI childI of None \<Rightarrow> None | Some xs' \<Rightarrow> siftUp xs' parI)
          else Some xs
      | _ \<Rightarrow> None)"
  by pat_completeness auto

termination by (relation "measure snd") (auto simp: Parent_def Let_def split: if_splits, metis less_irrefl option.inject)

declare siftDown.simps [simp del] siftUp.simps [simp del]

definition mh_SiftUp :: "MinHeap \<Rightarrow> NodeScore \<Rightarrow> MinHeap option" where
  "mh_SiftUp h priorityNode =
     do { xs \<leftarrow> siftUp (mh_scoredNodes h @ [priorityNode]) (mh_size h);
          Some (h\<lparr>mh_scoredNodes := xs, mh_size := mh_size h + 1\<rparr>) }"

definition mh_SiftDown :: "MinHeap \<Rightarrow> (MinHeap \<times> NodeScore option) option" where
  "mh_SiftDown h =
     do { r \<leftarrow> mh_GetMinVal h;
          (case r of
             None \<Rightarrow> Some (h, None)
           | Some minVal \<Rightarrow>
               do { let n = mh_size h - 1;
                    let xs = mh_scoredNodes h;
                    a \<leftarrow> entry_at xs n;
                    ys \<leftarrow> siftDown n (xs[0 := a, n := zero_NodeScore]) 0;
                    Some (h\<lparr>mh_size := n, mh_scoredNodes := ys\<rparr>, Some minVal) }) }"

text \<open>\<open>Some None\<close> is the error of an empty heap.\<close>

definition mh_Replace :: "MinHeap \<Rightarrow> NodeScore \<Rightarrow> MinHeap option option" where
  "mh_Replace h priorityNode =
     do { r \<leftarrow> mh_GetMinVal h;
          (case r of
             None \<Rightarrow> Some None
           | Some _ \<Rightarrow>
               do { ys \<leftarrow> siftDown (mh_size h) ((mh_scoredNodes h)[0 := priorityNode]) 0;
                    Some (Some (h\<lparr>mh_scoredNodes := ys\<rparr>)) }) }"

text \<open>The three loops of \<^verbatim>\<open>TopHighestScoreNodes\<close>; the errors of \<^verbatim>\<open>GetMinVal\<close>, \<^verbatim>\<open>Replace\<close> and \<^verbatim>\<open>SiftDown\<close> are dropped, the value
  then is the zero value.\<close>

fun top_fill :: "NodeScore list \<Rightarrow> nat list \<Rightarrow> MinHeap \<Rightarrow> MinHeap option" where
  "top_fill priorityNodes [] h = Some h"
| "top_fill priorityNodes (i # is) h =
     do { v \<leftarrow> entry_at priorityNodes i; h' \<leftarrow> mh_SiftUp h v; top_fill priorityNodes is h' }"

definition or_zero :: "NodeScore option \<Rightarrow> NodeScore" where
  "or_zero r = (case r of None \<Rightarrow> zero_NodeScore | Some v \<Rightarrow> v)"

fun top_replace :: "NodeScore list \<Rightarrow> NodeScore \<Rightarrow> MinHeap \<Rightarrow> MinHeap option" where
  "top_replace [] minVal h = Some h"
| "top_replace (v # vs) minVal h =
     (if score_of v > score_of minVal then
        do { r \<leftarrow> mh_Replace h v;
             let h' = (case r of None \<Rightarrow> h | Some h' \<Rightarrow> h');
             mv \<leftarrow> mh_GetMinVal h';
             top_replace vs (or_zero mv) h' }
      else top_replace vs minVal h)"

fun top_drain :: "nat \<Rightarrow> MinHeap \<Rightarrow> NodeScore list option" where
  "top_drain 0 h = Some []"
| "top_drain (Suc k) h =
     do { (h', v) \<leftarrow> mh_SiftDown h; vs \<leftarrow> top_drain k h'; Some (or_zero v # vs) }"

text \<open>The slice expression \<^verbatim>\<open>xs[m:]\<close>.\<close>

definition slice_from :: "NodeScore list \<Rightarrow> int \<Rightarrow> NodeScore list option" where
  "slice_from xs m = (if 0 \<le> m \<and> m \<le> int (length xs) then Some (drop (nat m) xs) else None)"

definition TopHighestScoreNodes :: "NodeScore list \<Rightarrow> int \<Rightarrow> NodeScore list option" where
  "TopHighestScoreNodes priorityNodes m =
     do { h \<leftarrow> top_fill priorityNodes [0..<nat m] NewMinHeap;
          minVal \<leftarrow> mh_GetMinVal h;
          vs \<leftarrow> slice_from priorityNodes m;
          h' \<leftarrow> top_replace vs (or_zero minVal) h;
          top_drain (nat m) h' }"

subsection \<open>The loops within the slice\<close>

text \<open>The loops without the checks; they agree with the code while the heap is within the slice.\<close>

definition score_at :: "NodeScore list \<Rightarrow> nat \<Rightarrow> int" where "score_at xs i = score_of (xs ! i)"

definition swap :: "NodeScore list \<Rightarrow> nat \<Rightarrow> nat \<Rightarrow> NodeScore list" where
  "swap xs i j = xs[i := xs ! j, j := xs ! i]"

function sift_down :: "nat \<Rightarrow> NodeScore list \<Rightarrow> nat \<Rightarrow> NodeScore list" where
  "sift_down n xs parI =
     (let leftI = LeftChild parI in
      if leftI + 1 > n then xs
      else if leftI + 2 > n then (if score_at xs parI > score_at xs leftI then swap xs parI leftI else xs)
      else
        (let minI = (if score_at xs leftI \<le> score_at xs (leftI + 1) then leftI else leftI + 1);
             xs' = (if score_at xs parI > score_at xs minI then swap xs parI minI else xs)
         in sift_down n xs' minI))"
  by pat_completeness auto

termination by (relation "measure (\<lambda>(n, xs, parI). n - parI)") (auto simp: LeftChild_def Let_def)

function sift_up :: "NodeScore list \<Rightarrow> nat \<Rightarrow> NodeScore list" where
  "sift_up xs childI =
     (let parI = Parent childI in
      if score_at xs parI > score_at xs childI then sift_up (swap xs parI childI) parI else xs)"
  by pat_completeness auto

termination by (relation "measure snd") (auto simp: Parent_def Let_def split: if_splits)

declare sift_down.simps [simp del] sift_up.simps [simp del]

lemma swap_length [simp]: "length (swap xs i j) = length xs" by (simp add: swap_def)

lemma entry_at_some: "i < length xs \<Longrightarrow> entry_at xs i = Some (xs ! i)" by (simp add: entry_at_def)

lemma exchange_some: "i < length xs \<Longrightarrow> j < length xs \<Longrightarrow> exchange xs i j = Some (swap xs i j)"
  by (simp add: exchange_def swap_def entry_at_some)

lemma siftDown_total: "n \<le> length xs \<Longrightarrow> siftDown n xs p = Some (sift_down n xs p)"
proof (induction n xs p rule: sift_down.induct)
  case (1 n xs p)
  let ?l = "LeftChild p"
  have p: "p < ?l" by (simp add: LeftChild_def)
  consider (none) "?l + 1 > n" | (one) "\<not> ?l + 1 > n" "?l + 2 > n" | (two) "\<not> ?l + 1 > n" "\<not> ?l + 2 > n" by blast
  then show ?case
  proof cases
    case none
    then show ?thesis by (simp add: siftDown.simps sift_down.simps)
  next
    case one
    then have "p < length xs" "?l < length xs" using 1(2) p by auto
    then show ?thesis using one by (simp add: siftDown.simps sift_down.simps entry_at_some exchange_some score_at_def Let_def)
  next
    case two
    define c where "c = (if score_at xs ?l \<le> score_at xs (?l + 1) then ?l else ?l + 1)"
    define ys where "ys = (if score_at xs p > score_at xs c then swap xs p c else xs)"
    have b: "p < length xs" "?l < length xs" "?l + 1 < length xs" "c < length xs" using 1(2) p two by (auto simp: c_def)
    have "siftDown n ys c = Some (sift_down n ys c)"
      using 1(1) [OF refl two c_def ys_def] 1(2) by (simp add: ys_def)
    moreover have "sift_down n xs p = sift_down n ys c"
      by (subst sift_down.simps, unfold Let_def c_def [symmetric] ys_def [symmetric]) (use two in simp)
    moreover have "siftDown n xs p = siftDown n ys c"
      using two b by (subst siftDown.simps)
        (simp add: entry_at_some exchange_some c_def ys_def Let_def score_at_def [symmetric])
    ultimately show ?thesis by simp
  qed
qed

lemma siftUp_total: "c < length xs \<Longrightarrow> siftUp xs c = Some (sift_up xs c)"
proof (induction xs c rule: sift_up.induct)
  case (1 xs c)
  have p: "Parent c < length xs" using 1(2) by (auto simp: Parent_def)
  show ?case
  proof (cases "score_at xs (Parent c) > score_at xs c")
    case True
    then show ?thesis using 1(1) [OF refl True] 1(2) p
      by (subst siftUp.simps, subst sift_up.simps) (simp add: entry_at_some exchange_some score_at_def Let_def)
  next
    case False
    then show ?thesis using 1(2) p
      by (subst siftUp.simps, subst sift_up.simps) (simp add: entry_at_some score_at_def Let_def)
  qed
qed

subsection \<open>The heap order\<close>

definition heap_below :: "nat \<Rightarrow> NodeScore list \<Rightarrow> bool" where
  "heap_below n xs = (\<forall>i. 0 < i \<and> i < n \<longrightarrow> score_at xs (Parent i) \<le> score_at xs i)"

lemma score_at_swap:
  assumes "i < length xs" "j < length xs"
  shows "score_at (swap xs i j) k = (if k = i then score_at xs j else if k = j then score_at xs i else score_at xs k)"
  using assms by (cases "k < length xs") (auto simp: score_at_def swap_def nth_list_update)

lemma swap_mset: "i < length xs \<Longrightarrow> j < length xs \<Longrightarrow> mset (swap xs i j) = mset xs"
  unfolding swap_def by (rule mset_swap)

lemma swap_take:
  assumes "i < n" "j < n" "n \<le> length xs"
  shows "take n (swap xs i j) = swap (take n xs) i j" "drop n (swap xs i j) = drop n xs"
  using assms by (simp_all add: swap_def take_update_swap drop_update_cancel)

text \<open>The order is broken at most between \<open>p\<close> and its children, or between \<open>c\<close> and its parent.\<close>

definition down_at :: "nat \<Rightarrow> NodeScore list \<Rightarrow> nat \<Rightarrow> bool" where
  "down_at n xs p =
     (\<forall>i. 0 < i \<and> i < n \<longrightarrow>
        (if Parent i = p then 0 < p \<longrightarrow> score_at xs (Parent p) \<le> score_at xs i else score_at xs (Parent i) \<le> score_at xs i))"

definition up_at :: "nat \<Rightarrow> NodeScore list \<Rightarrow> nat \<Rightarrow> bool" where
  "up_at n xs c =
     (\<forall>i. 0 < i \<and> i < n \<longrightarrow>
        (i \<noteq> c \<longrightarrow> score_at xs (Parent i) \<le> score_at xs i) \<and> (Parent i = c \<and> 0 < c \<longrightarrow> score_at xs (Parent c) \<le> score_at xs i))"

lemma Parent_eq: "0 < i \<Longrightarrow> Parent i = p \<longleftrightarrow> i = LeftChild p \<or> i = LeftChild p + 1"
  by (auto simp: Parent_def LeftChild_def)

lemma Parent_child [simp]: "Parent (LeftChild p) = p" "Parent (LeftChild p + 1) = p" "Parent (Suc (LeftChild p)) = p"
  by (simp_all add: Parent_def LeftChild_def)

text \<open>Moving the smaller child up, if it is smaller, shifts the break to that child.\<close>

lemma down_at_step:
  assumes d: "down_at n xs p" and c: "c < n" "Parent c = p" "0 < c" "n \<le> length xs"
    and m: "\<And>i. 0 < i \<Longrightarrow> i < n \<Longrightarrow> Parent i = p \<Longrightarrow> score_at xs c \<le> score_at xs i"
  shows "down_at n (if score_at xs p > score_at xs c then swap xs p c else xs) c"
proof (cases "score_at xs p > score_at xs c")
  case True
  have p: "p < c" using Parent_less [OF c(3)] c(2) by simp
  have s: "score_at (swap xs p c) k = (if k = p then score_at xs c else if k = c then score_at xs p else score_at xs k)" for k
    using c(1,4) p by (intro score_at_swap) auto
  have "if Parent i = c then 0 < c \<longrightarrow> score_at (swap xs p c) (Parent c) \<le> score_at (swap xs p c) i
        else score_at (swap xs p c) (Parent i) \<le> score_at (swap xs p c) i" if i: "0 < i" "i < n" for i
  proof -
    have e: "if Parent i = p then 0 < p \<longrightarrow> score_at xs (Parent p) \<le> score_at xs i else score_at xs (Parent i) \<le> score_at xs i"
      using d i unfolding down_at_def by blast
    have ip: "Parent i < i" using Parent_less i(1) by simp
    show ?thesis
    proof (cases "i = p")
      case True
      have "0 < p \<longrightarrow> score_at xs (Parent p) \<le> score_at xs c" using d c unfolding down_at_def by metis
      then show ?thesis using True ip i p c(2) by (auto simp: s)
    next
      case False
      then show ?thesis using e ip p c(2) m [OF i] \<open>score_at xs p > score_at xs c\<close> by (auto simp: s)
    qed
  qed
  then show ?thesis using True unfolding down_at_def by simp
next
  case False
  have "if Parent i = c then 0 < c \<longrightarrow> score_at xs (Parent c) \<le> score_at xs i else score_at xs (Parent i) \<le> score_at xs i"
    if i: "0 < i" "i < n" for i
  proof -
    have e: "if Parent i = p then 0 < p \<longrightarrow> score_at xs (Parent p) \<le> score_at xs i else score_at xs (Parent i) \<le> score_at xs i"
      using d i unfolding down_at_def by blast
    have "p \<noteq> c" using Parent_less [OF c(3)] c(2) by simp
    then show ?thesis using e m [OF i] False c(2) by (auto split: if_splits)
  qed
  then show ?thesis using False unfolding down_at_def by simp
qed

lemma down_at_leaf:
  assumes "down_at n xs p" "n \<le> LeftChild p"
  shows "heap_below n xs"
proof -
  have "score_at xs (Parent i) \<le> score_at xs i" if "0 < i" "i < n" for i
  proof -
    have "Parent i \<noteq> p" using Parent_eq [OF that(1), of p] that(2) assms(2) by auto
    then show ?thesis using assms(1) that unfolding down_at_def by auto
  qed
  then show ?thesis unfolding heap_below_def by blast
qed

lemma sift_down_two:
  assumes "\<not> LeftChild p + 2 > n" "c = (if score_at xs (LeftChild p) \<le> score_at xs (LeftChild p + 1) then LeftChild p else LeftChild p + 1)"
  shows "sift_down n xs p = sift_down n (if score_at xs p > score_at xs c then swap xs p c else xs) c"
  by (subst sift_down.simps, unfold Let_def assms(2) [symmetric]) (use assms(1) in simp)

lemma sift_down_heap:
  assumes "down_at n xs p" "n \<le> length xs"
  shows "heap_below n (sift_down n xs p)"
  using assms
proof (induction n xs p rule: sift_down.induct)
  case (1 n xs p)
  let ?l = "LeftChild p"
  have pos: "0 < ?l" by (simp add: LeftChild_def)
  consider (none) "?l + 1 > n" | (one) "\<not> ?l + 1 > n" "?l + 2 > n" | (two) "\<not> ?l + 1 > n" "\<not> ?l + 2 > n" by blast
  then show ?case
  proof cases
    case none
    then show ?thesis using down_at_leaf 1(2) by (simp add: sift_down.simps Let_def)
  next
    case one
    have only: "i = ?l" if "0 < i" "i < n" "Parent i = p" for i using one that Parent_eq [OF that(1), of p] by auto
    have "down_at n (if score_at xs p > score_at xs ?l then swap xs p ?l else xs) ?l"
      using only one(1) by (intro down_at_step [OF 1(2) _ _ pos 1(3)]) auto
    moreover have "n \<le> LeftChild ?l" using one by (simp add: LeftChild_def)
    ultimately show ?thesis using down_at_leaf one by (simp add: sift_down.simps Let_def)
  next
    case two
    define c where "c = (if score_at xs ?l \<le> score_at xs (?l + 1) then ?l else ?l + 1)"
    have c: "c < n" "Parent c = p" "0 < c" using two pos by (auto simp: c_def)
    have min: "score_at xs c \<le> score_at xs i" if "0 < i" "i < n" "Parent i = p" for i
      using that(3) Parent_eq [OF that(1), of p] by (auto simp: c_def)
    have "down_at n (if score_at xs p > score_at xs c then swap xs p c else xs) c" by (rule down_at_step [OF 1(2) c 1(3) min])
    then show ?thesis unfolding sift_down_two [OF two(2) c_def] using 1(1) [OF refl two c_def refl] 1(3) by simp
  qed
qed

lemma sift_down_frame:
  assumes "n \<le> length xs"
  shows "mset (take n (sift_down n xs p)) = mset (take n xs) \<and> drop n (sift_down n xs p) = drop n xs \<and>
    length (sift_down n xs p) = length xs"
  using assms
proof (induction n xs p rule: sift_down.induct)
  case (1 n xs p)
  let ?l = "LeftChild p"
  have sw: "mset (take n (swap xs p c)) = mset (take n xs) \<and> drop n (swap xs p c) = drop n xs" if "c < n" "p < n" for c
    using swap_take [OF that(2,1) 1(2)] swap_mset [of p "take n xs" c] that 1(2) by simp
  have p: "p < ?l" by (simp add: LeftChild_def)
  consider (none) "?l + 1 > n" | (one) "\<not> ?l + 1 > n" "?l + 2 > n" | (two) "\<not> ?l + 1 > n" "\<not> ?l + 2 > n" by blast
  then show ?case
  proof cases
    case two
    define c where "c = (if score_at xs ?l \<le> score_at xs (?l + 1) then ?l else ?l + 1)"
    let ?xs = "if score_at xs p > score_at xs c then swap xs p c else xs"
    have c: "c < n" "p < n" using two p by (auto simp: c_def)
    have "mset (take n ?xs) = mset (take n xs) \<and> drop n ?xs = drop n xs" "n \<le> length ?xs" "length ?xs = length xs"
      using sw [OF c] 1(2) by auto
    then show ?thesis unfolding sift_down_two [OF two(2) c_def] using 1(1) [OF refl two c_def refl] by simp
  qed (use sw [of ?l] p in \<open>auto simp: sift_down.simps Let_def\<close>)
qed

lemma up_at_step:
  assumes u: "up_at n xs c" and c: "0 < c" "c < n" "n \<le> length xs" and gt: "score_at xs (Parent c) > score_at xs c"
  shows "up_at n (swap xs (Parent c) c) (Parent c)"
proof -
  let ?p = "Parent c"
  have p: "?p < c" using Parent_less c(1) by blast
  have s: "score_at (swap xs ?p c) k = (if k = ?p then score_at xs c else if k = c then score_at xs ?p else score_at xs k)" for k
    using c p by (intro score_at_swap) auto
  have "(i \<noteq> ?p \<longrightarrow> score_at (swap xs ?p c) (Parent i) \<le> score_at (swap xs ?p c) i) \<and>
      (Parent i = ?p \<and> 0 < ?p \<longrightarrow> score_at (swap xs ?p c) (Parent ?p) \<le> score_at (swap xs ?p c) i)" if i: "0 < i" "i < n" for i
  proof -
    have e: "i \<noteq> c \<longrightarrow> score_at xs (Parent i) \<le> score_at xs i" "Parent i = c \<longrightarrow> score_at xs ?p \<le> score_at xs i"
      using u i c(1) unfolding up_at_def by blast+
    have q: "0 < ?p \<longrightarrow> score_at xs (Parent ?p) \<le> score_at xs ?p" using u p c(2) unfolding up_at_def by fastforce
    have ip: "Parent i < i" "0 < ?p \<longrightarrow> Parent ?p < ?p" using Parent_less i(1) by simp_all
    have a: "score_at (swap xs ?p c) (Parent i) \<le> score_at (swap xs ?p c) i" if "i \<noteq> ?p"
      using e that gt ip p by (auto simp: s)
    have b: "score_at (swap xs ?p c) (Parent ?p) \<le> score_at (swap xs ?p c) i" if h: "Parent i = ?p" "0 < ?p"
    proof -
      have "Parent ?p \<noteq> ?p" "Parent ?p \<noteq> c" "i \<noteq> ?p" using ip h p by auto
      then show ?thesis using q e h by (cases "i = c") (auto simp: s)
    qed
    show ?thesis using a b by blast
  qed
  then show ?thesis unfolding up_at_def by blast
qed

lemma up_at_done: "up_at n xs c \<Longrightarrow> \<not> score_at xs (Parent c) > score_at xs c \<Longrightarrow> heap_below n xs"
  unfolding up_at_def heap_below_def by (metis leI)

lemma sift_up_heap:
  assumes "up_at n xs c" "c < n" "n \<le> length xs"
  shows "heap_below n (sift_up xs c) \<and> mset (sift_up xs c) = mset xs"
  using assms
proof (induction xs c rule: sift_up.induct)
  case (1 xs c)
  show ?case
  proof (cases "score_at xs (Parent c) > score_at xs c")
    case True
    then have c: "0 < c" by (cases c) (auto simp: Parent_def)
    have "up_at n (swap xs (Parent c) c) (Parent c)" "Parent c < n" using up_at_step 1(2-4) c True Parent_less [OF c] by auto
    then show ?thesis
      using 1(1) [OF refl True] 1(3,4) True swap_mset [of "Parent c" xs c] by (subst (1 2) sift_up.simps) (simp add: Let_def)
  next
    case False
    then show ?thesis using up_at_done [OF 1(2) False] by (simp add: sift_up.simps Let_def)
  qed
qed

lemma heap_root_le: "heap_below n xs \<Longrightarrow> i < n \<Longrightarrow> score_at xs 0 \<le> score_at xs i"
proof (induction i rule: less_induct)
  case (less i)
  show ?case
  proof (cases "i = 0")
    case False
    then have "score_at xs (Parent i) \<le> score_at xs i" "Parent i < i" using less.prems Parent_less by (auto simp: heap_below_def)
    then show ?thesis using less.IH [of "Parent i"] less.prems by fastforce
  qed simp
qed

subsection \<open>The heap as a multiset\<close>

definition mh_ok :: "MinHeap \<Rightarrow> bool" where
  "mh_ok h = (mh_size h \<le> length (mh_scoredNodes h) \<and> heap_below (mh_size h) (mh_scoredNodes h))"

definition entries :: "MinHeap \<Rightarrow> NodeScore multiset" where
  "entries h = mset (take (mh_size h) (mh_scoredNodes h))"

lemma entries_empty [simp]: "mh_ok h \<Longrightarrow> entries h = {#} \<longleftrightarrow> mh_size h = 0"
  by (auto simp: entries_def mh_ok_def)

lemma size_entries: "mh_ok h \<Longrightarrow> size (entries h) = mh_size h" by (simp add: entries_def mh_ok_def)

lemma mh_GetMinVal_some:
  assumes "mh_ok h" "0 < mh_size h"
  shows "mh_GetMinVal h = Some (Some (mh_scoredNodes h ! 0))"
  using assms by (auto simp: mh_GetMinVal_def mh_IsEmpty_def mh_ok_def entry_at_def)

lemma mh_min:
  assumes "mh_ok h" "mh_GetMinVal h = Some (Some x)"
  shows "0 < mh_size h \<and> x = mh_scoredNodes h ! 0 \<and> x \<in># entries h \<and> (\<forall>y \<in># entries h. score_of x \<le> score_of y)"
proof -
  let ?xs = "mh_scoredNodes h" and ?n = "mh_size h"
  have n: "0 < ?n" "x = ?xs ! 0" "?n \<le> length ?xs"
    using assms by (auto simp: mh_GetMinVal_def mh_IsEmpty_def mh_ok_def entry_at_def split: if_splits)
  have "take ?n ?xs ! 0 \<in> set (take ?n ?xs)" using n by (intro nth_mem) auto
  moreover have "score_of x \<le> score_of y" if "y \<in> set (take ?n ?xs)" for y
  proof -
    from that obtain i where "i < length (take ?n ?xs)" "take ?n ?xs ! i = y" unfolding in_set_conv_nth by blast
    then have "i < ?n" "y = ?xs ! i" by auto
    then show ?thesis using heap_root_le [of ?n ?xs i] assms(1) n(2) by (simp add: mh_ok_def score_at_def)
  qed
  ultimately show ?thesis using n(1,2) by (simp add: entries_def)
qed

lemma down_at_root: "heap_below n xs \<Longrightarrow> \<forall>i. 0 < i \<and> i < n \<longrightarrow> score_at ys i = score_at xs i \<Longrightarrow> down_at n ys 0"
  unfolding down_at_def heap_below_def by (metis Parent_less less_trans neq0_conv)

lemma score_at_upd: "i \<noteq> j \<Longrightarrow> score_at (xs[j := x]) i = score_at xs i" by (simp add: score_at_def)

lemma mh_Replace_ok:
  assumes "mh_ok h" "mh_GetMinVal h = Some (Some m)"
  shows "\<exists>h'. mh_Replace h x = Some (Some h') \<and> mh_ok h' \<and> add_mset m (entries h') = add_mset x (entries h) \<and> mh_size h' = mh_size h"
proof -
  let ?xs = "mh_scoredNodes h" and ?n = "mh_size h"
  have n: "0 < ?n" "m = ?xs ! 0" "?n \<le> length ?xs" "heap_below ?n ?xs"
    using mh_min [OF assms] assms(1) by (simp_all add: mh_ok_def)
  let ?ys = "?xs[0 := x]"
  have d: "down_at ?n ?ys 0" using n(4) by (rule down_at_root) (auto simp: score_at_upd)
  have l: "?n \<le> length ?ys" using n(3) by simp
  have "take ?n ?ys = (take ?n ?xs)[0 := x]" by (simp add: take_update_swap)
  then have "mset (take ?n ?ys) = add_mset x (mset (take ?n ?xs) - {#m#})" using n(1-3) by (simp add: mset_update)
  moreover have "m \<in># mset (take ?n ?xs)" using mh_min [OF assms] unfolding entries_def by blast
  ultimately have "add_mset m (mset (take ?n ?ys)) = add_mset x (mset (take ?n ?xs))" by (simp add: add_mset_commute)
  then show ?thesis
    using sift_down_heap [OF d l] sift_down_frame [OF l, of 0] siftDown_total [OF l, of 0] assms(2) n(3)
    by (auto simp: mh_Replace_def mh_ok_def entries_def)
qed

lemma mh_SiftDown_ok:
  assumes "mh_ok h" "mh_GetMinVal h = Some (Some m)"
  shows "\<exists>h'. mh_SiftDown h = Some (h', Some m) \<and> mh_ok h' \<and> entries h = add_mset m (entries h') \<and> mh_size h = Suc (mh_size h')"
proof -
  let ?xs = "mh_scoredNodes h"
  obtain k where k: "mh_size h = Suc k" using mh_min [OF assms] by (cases "mh_size h") simp_all
  have n: "m = ?xs ! 0" "Suc k \<le> length ?xs" "heap_below (Suc k) ?xs"
    using mh_min [OF assms] assms(1) k by (simp_all add: mh_ok_def)
  let ?ys = "?xs[0 := ?xs ! k, k := zero_NodeScore]"
  have "heap_below k ?xs" using n(3) by (simp add: heap_below_def)
  then have d: "down_at k ?ys 0" by (rule down_at_root) (auto simp: score_at_upd)
  have l: "k \<le> length ?ys" using n(2) by simp
  have t: "take k ?ys = (take k ?xs)[0 := ?xs ! k]" by (simp add: take_update_swap list_update_beyond)
  have u: "mset (take (Suc k) ?xs) = add_mset (?xs ! k) (mset (take k ?xs))" using n(2) by (simp add: take_Suc_conv_app_nth)
  have "mset (take (Suc k) ?xs) = add_mset m (mset (take k ?ys))"
  proof (cases k)
    case (Suc j)
    have "m \<in># mset (take k ?xs)" using n(1,2) Suc nth_mem [of 0 "take k ?xs"] by simp
    then obtain N where "mset (take k ?xs) = add_mset m N" by (metis insert_DiffM)
    then show ?thesis using Suc n(1,2) unfolding t u by (simp add: mset_update add_mset_commute)
  qed (use n u in simp)
  then show ?thesis
    using sift_down_heap [OF d l] sift_down_frame [OF l, of 0] siftDown_total [OF l, of 0] assms(2) n k
    by (auto simp: mh_SiftDown_def mh_ok_def entries_def entry_at_some Let_def)
qed

text \<open>\<^verbatim>\<open>SiftUp\<close> on a heap that fills its slice.\<close>

lemma mh_SiftUp_ok:
  assumes "mh_ok h" "length (mh_scoredNodes h) = mh_size h"
  shows "\<exists>h'. mh_SiftUp h x = Some h' \<and> mh_ok h' \<and> entries h' = add_mset x (entries h) \<and>
    length (mh_scoredNodes h') = mh_size h' \<and> mh_size h' = mh_size h + 1"
proof -
  let ?xs = "mh_scoredNodes h" and ?n = "mh_size h"
  let ?ys = "?xs @ [x]"
  have eq: "score_at ?ys i = score_at ?xs i" if "i < ?n" for i using that assms(2) by (simp add: score_at_def nth_append)
  have "up_at (Suc ?n) ?ys ?n"
  proof -
    have "score_at ?ys (Parent i) \<le> score_at ?ys i" if "0 < i" "i < ?n" for i
      using assms(1) that eq Parent_less [OF that(1)] by (auto simp: mh_ok_def heap_below_def)
    moreover have "Parent i \<noteq> ?n" if "0 < i" "i < Suc ?n" for i using Parent_less [OF that(1)] that(2) by simp
    ultimately show ?thesis unfolding up_at_def by (auto simp: less_Suc_eq)
  qed
  then have u: "heap_below (Suc ?n) (sift_up ?ys ?n)" "mset (sift_up ?ys ?n) = mset ?ys" using sift_up_heap [of "Suc ?n" ?ys ?n] assms(2) by auto
  then have "length (sift_up ?ys ?n) = Suc ?n" using mset_eq_length [OF u(2)] assms(2) by simp
  then show ?thesis using u assms(2) siftUp_total [of ?n ?ys] by (simp add: mh_SiftUp_def mh_ok_def entries_def)
qed

lemma NewMinHeap_ok: "mh_ok NewMinHeap" "entries NewMinHeap = {#}"
  by (simp_all add: NewMinHeap_def mh_ok_def entries_def heap_below_def)

lemma top_drain_sorted:
  assumes "mh_ok h" "mh_size h = k"
  shows "\<exists>vs. top_drain k h = Some vs \<and> mset vs = entries h \<and> sorted (map score_of vs)"
  using assms
proof (induction k arbitrary: h)
  case (Suc k)
  obtain m where m: "mh_GetMinVal h = Some (Some m)" using mh_GetMinVal_some Suc.prems by auto
  obtain h' where h': "mh_SiftDown h = Some (h', Some m)" "mh_ok h'" "entries h = add_mset m (entries h')" "mh_size h' = k"
    using mh_SiftDown_ok [OF Suc.prems(1) m] Suc.prems(2) by auto
  obtain vs where vs: "top_drain k h' = Some vs" "mset vs = entries h'" "sorted (map score_of vs)"
    using Suc.IH [OF h'(2,4)] by blast
  have "score_of m \<le> score_of y" if "y \<in> set vs" for y
  proof -
    have "y \<in># entries h" using that vs(2) h'(3) set_mset_mset [of vs] by simp
    then show ?thesis using mh_min [OF Suc.prems(1) m] by blast
  qed
  then show ?case using vs h'(1,3) by (simp add: or_zero_def)
qed (simp add: entries_def)

lemma top_fill_ok:
  assumes "mh_ok h" "length (mh_scoredNodes h) = mh_size h" "\<forall>i\<in>set is. i < length ns"
  shows "\<exists>h'. top_fill ns is h = Some h' \<and> mh_ok h' \<and> entries h' = entries h + mset (map ((!) ns) is)"
  using assms
proof (induction "is" arbitrary: h)
  case (Cons i "is")
  obtain h1 where h1: "mh_SiftUp h (ns ! i) = Some h1" "mh_ok h1" "entries h1 = add_mset (ns ! i) (entries h)"
    "length (mh_scoredNodes h1) = mh_size h1"
    using mh_SiftUp_ok [OF Cons.prems(1,2)] by blast
  then show ?case using Cons.IH [OF h1(2,4)] Cons.prems(3) by (auto simp: entry_at_some)
qed simp

text \<open>The heap keeps the best nodes seen: what was left out scores no more than any entry.\<close>

definition best_of :: "NodeScore multiset \<Rightarrow> NodeScore multiset \<Rightarrow> bool" where
  "best_of E A = (\<exists>R. A = E + R \<and> (\<forall>x \<in># E. \<forall>y \<in># R. score_of y \<le> score_of x))"

lemma Replace_best:
  assumes ok: "mh_ok h" and m: "mh_GetMinVal h = Some (Some m)" and best: "best_of (entries h) A" and gt: "score_of v > score_of m"
  shows "\<exists>h'. mh_Replace h v = Some (Some h') \<and> mh_ok h' \<and> mh_size h' = mh_size h \<and> best_of (entries h') (add_mset v A)"
proof -
  note mm = mh_min [OF ok m]
  obtain R where R: "A = entries h + R" "\<forall>x \<in># entries h. \<forall>y \<in># R. score_of y \<le> score_of x" using best by (auto simp: best_of_def)
  obtain h' where h': "mh_Replace h v = Some (Some h')" "mh_ok h'" "add_mset m (entries h') = add_mset v (entries h)" "mh_size h' = mh_size h"
    using mh_Replace_ok [OF ok m] by blast
  have "add_mset v A = entries h' + add_mset m R" using R(1) h'(3) by simp
  moreover have "score_of y \<le> score_of x" if x: "x \<in># entries h'" and y: "y \<in># add_mset m R" for x y
  proof -
    have "x = v \<or> x \<in># entries h" using x h'(3) by (metis insert_iff set_mset_add_mset_insert)
    then have "score_of m \<le> score_of x" using mm gt by auto
    moreover have "y = m \<or> score_of y \<le> score_of m" using y R(2) mm by auto
    ultimately show ?thesis by auto
  qed
  ultimately have "best_of (entries h') (add_mset v A)" unfolding best_of_def by blast
  then show ?thesis using h' by blast
qed

lemma keep_best:
  assumes ok: "mh_ok h" and m: "mh_GetMinVal h = Some (Some m)" and best: "best_of (entries h) A" and le: "\<not> score_of v > score_of m"
  shows "best_of (entries h) (add_mset v A)"
proof -
  obtain R where R: "A = entries h + R" "\<forall>x \<in># entries h. \<forall>y \<in># R. score_of y \<le> score_of x" using best by (auto simp: best_of_def)
  have "score_of v \<le> score_of x" if "x \<in># entries h" for x using mh_min [OF ok m] that le by fastforce
  then have "\<forall>x \<in># entries h. \<forall>y \<in># add_mset v R. score_of y \<le> score_of x" using R(2) by simp
  moreover have "add_mset v A = entries h + add_mset v R" using R(1) by simp
  ultimately show ?thesis unfolding best_of_def by blast
qed

lemma top_replace_best:
  assumes "mh_ok h" "mh_GetMinVal h = Some (Some m)" "best_of (entries h) A"
  shows "\<exists>h'. top_replace vs m h = Some h' \<and> mh_ok h' \<and> mh_size h' = mh_size h \<and> best_of (entries h') (mset vs + A)"
  using assms
proof (induction vs arbitrary: h m A)
  case (Cons v vs)
  show ?case
  proof (cases "score_of v > score_of m")
    case True
    obtain h1 where h1: "mh_Replace h v = Some (Some h1)" "mh_ok h1" "mh_size h1 = mh_size h" "best_of (entries h1) (add_mset v A)"
      using Replace_best [OF Cons.prems True] by blast
    obtain m1 where m1: "mh_GetMinVal h1 = Some (Some m1)"
      using mh_GetMinVal_some [OF h1(2)] mh_min [OF Cons.prems(1,2)] h1(3) by simp
    show ?thesis using Cons.IH [OF h1(2) m1 h1(4)] True h1 m1 by (simp add: or_zero_def)
  next
    case False
    then show ?thesis using Cons.IH [OF Cons.prems(1,2) keep_best [OF Cons.prems False]] by simp
  qed
qed simp

text \<open>On an empty heap every \<^verbatim>\<open>Replace\<close> fails and nothing changes.\<close>

lemma top_replace_empty: "mh_size h = 0 \<Longrightarrow> top_replace vs m h = Some h"
  by (induction vs arbitrary: m) (simp_all add: mh_Replace_def mh_GetMinVal_def mh_IsEmpty_def)

lemma top_fill_panics: "\<exists>i\<in>set is. \<not> i < length ns \<Longrightarrow> top_fill ns is h = None"
  by (induction "is" arbitrary: h) (auto simp: entry_at_def split: bind_splits)

subsection \<open>Properties\<close>

text \<open>
  C29. \<^verbatim>\<open>TopHighestScoreNodes\<close> panics exactly when it is asked for more nodes than there are or for a negative number. Else it returns
  as many nodes as asked for, none included, in rising order of their scores, each with its multiplicity from the list, and
  every node left out scores no more than any node returned; then no access to the slice of the heap is out of range.
\<close>

theorem top_highest_score_nodes:
  "(TopHighestScoreNodes ns m = None \<longleftrightarrow> m < 0 \<or> int (length ns) < m) \<and>
   (\<forall>resp. TopHighestScoreNodes ns m = Some resp \<longrightarrow>
      int (length resp) = m \<and> sorted (map score_of resp) \<and> best_of (mset resp) (mset ns))"
proof -
  have new: "mh_ok NewMinHeap" "entries NewMinHeap = {#}" "length (mh_scoredNodes NewMinHeap) = mh_size NewMinHeap"
    by (simp_all add: NewMinHeap_ok) (simp add: NewMinHeap_def)
  consider (neg) "m < 0" | (many) "int (length ns) < m" "0 \<le> m" | (ok) "0 \<le> m" "m \<le> int (length ns)" by linarith
  then show ?thesis
  proof cases
    case neg
    then show ?thesis by (simp add: TopHighestScoreNodes_def slice_from_def)
  next
    case many
    then have "\<exists>i\<in>set [0..<nat m]. \<not> i < length ns" by (intro bexI [of _ "length ns"]) auto
    then show ?thesis using many by (simp add: TopHighestScoreNodes_def top_fill_panics)
  next
    case ok
    let ?k = "nat m"
    have "map ((!) ns) [0..<?k] = take ?k ns" using ok by (intro nth_equalityI) auto
    moreover have "\<forall>i\<in>set [0..<?k]. i < length ns" using ok by auto
    ultimately obtain h where h: "top_fill ns [0..<?k] NewMinHeap = Some h" "mh_ok h" "entries h = mset (take ?k ns)"
      using top_fill_ok [OF new(1,3), of "[0..<?k]" ns] new(2) by auto
    have s: "mh_size h = ?k" using size_entries [OF h(2)] h(3) ok by simp
    have all: "mset (drop ?k ns) + mset (take ?k ns) = mset ns" by (metis append_take_drop_id mset_append union_commute)
    have "best_of (entries h) (mset (take ?k ns))" unfolding h(3) best_of_def by (rule exI [of _ "{#}"]) simp
    moreover have "best_of (entries h) (mset ns)" if "?k = 0" unfolding h(3) best_of_def using that by simp
    ultimately obtain mv h' where r: "mh_GetMinVal h = Some mv" "top_replace (drop ?k ns) (or_zero mv) h = Some h'" "mh_ok h'"
        "mh_size h' = ?k" "best_of (entries h') (mset ns)"
      using top_replace_best [OF h(2), of _ "mset (take ?k ns)" "drop ?k ns"] mh_GetMinVal_some [OF h(2)] h(2) s
        top_replace_empty [of h "drop ?k ns"] entries_empty [OF h(2)] unfolding all
      by (cases "?k = 0") (auto simp: or_zero_def mh_GetMinVal_def mh_IsEmpty_def)
    obtain resp where d: "top_drain ?k h' = Some resp" "mset resp = entries h'" "sorted (map score_of resp)"
      using top_drain_sorted [OF r(3,4)] by blast
    have "TopHighestScoreNodes ns m = Some resp"
      using h(1) r(1,2) d(1) ok by (simp add: TopHighestScoreNodes_def slice_from_def)
    moreover have "length resp = ?k" using size_entries [OF r(3)] r(4) d(2) by (metis size_mset)
    ultimately show ?thesis using d r(5) ok by auto
  qed
qed

theorem top_highest_score_nodes_witness:
  "\<exists>resp. TopHighestScoreNodes (map (\<lambda>s. \<lparr>ns_Name = [], ns_Score = s\<rparr>) [3, 9, 1, 7, 5]) 3 = Some resp \<and>
     length resp = 3 \<and> map ns_Score resp = [5, 7, 9]"
proof -
  let ?ns = "map (\<lambda>s. \<lparr>ns_Name = [], ns_Score = s\<rparr>) [3, 9, 1, 7, 5]"
  have r: "TopHighestScoreNodes ?ns 3 = Some (map (\<lambda>s. \<lparr>ns_Name = [], ns_Score = s\<rparr>) [5, 7, 9])" by code_simp
  then have "length (map (\<lambda>s. \<lparr>ns_Name = [], ns_Score = s\<rparr>) [5, 7, 9 :: int64]) = 3"
    using top_highest_score_nodes [of ?ns 3] by simp
  then show ?thesis using r by simp
qed

text \<open>\<^verbatim>\<open>SiftUp\<close> appends at the end of the slice but sifts the slot at \<^verbatim>\<open>size\<close>: after a \<^verbatim>\<open>SiftDown\<close> that is the zero entry left behind.\<close>

lemma sift_up_after_down_loses_node:
  "do { h1 \<leftarrow> mh_SiftUp NewMinHeap \<lparr>ns_Name = ''a'', ns_Score = 1\<rparr>; (h2, _) \<leftarrow> mh_SiftDown h1;
        h3 \<leftarrow> mh_SiftUp h2 \<lparr>ns_Name = ''b'', ns_Score = 7\<rparr>; mh_GetMinVal h3 } = Some (Some zero_NodeScore)"
  by code_simp

end
