(* ===== verification/Node_Filters.thy ===== *)
theory Node_Filters
  imports Plugin_Framework
begin

section \<open>Filter plugins (pkg/plugins, pkg/scheduler/framework/plugins, pkg/binder/framework/plugins)\<close>

text \<open>
  The filters over one node: the launcher, the resources and the host ports with their checks in the binder, taints,
  unschedulable nodes and node labels. The cycle state is a map from keys to the data of the plugins. A loop over
  the scalar resources of a request takes the names in the order \<open>names\<close> of the range. \<open>qs\<close> is \<^verbatim>\<open>Quantity.String\<close>,
  \<open>fmt\<close> the formatting of a state of the wrong type.

  The lemmas say exactly which nodes each filter accepts; a locale states what a filter promises once its \<^verbatim>\<open>PreFilter\<close>
  has run, and every plugin is an interpretation of it.
\<close>

subsection \<open>The launcher of a pod\<close>

definition canPodPlaceOnNode :: "string \<Rightarrow> NodeInfoImpl \<Rightarrow> bool" where
  "canPodPlaceOnNode podLauncher n =
     (if podLauncher = Kubelet then ni_Node n \<noteq> None
      else if podLauncher = NodeManager then ni_NMNode n \<noteq> None
      else False)"

definition NodeFits :: "v1pod \<Rightarrow> NodeInfoImpl \<Rightarrow> string \<times> Status option" where
  "NodeFits pd n =
     (let podLauncher = (case GetPodLauncher (pod.truncate pd) of Inl _ \<Rightarrow> [] | Inr l \<Rightarrow> l) in
      if podLauncher = [] then
        (podLauncher, NewStatus Error [''pod launcher is empty for pod '' @ pod_Namespace pd @ ''/'' @ pod_Name pd])
      else if canPodPlaceOnNode podLauncher n then (podLauncher, None)
      else (podLauncher, NewStatus UnschedulableAndUnresolvable [''launcher '' @ podLauncher @ '' doesn't exist on this node'']))"

definition PodLauncher_Filter :: "v1pod \<Rightarrow> NodeInfoImpl \<Rightarrow> Status option" where
  "PodLauncher_Filter pd n = snd (NodeFits pd n)"

subsection \<open>Resources\<close>

record PodRequest =
  pr_Resource :: Resource
  pr_ResourceType :: string
  pr_IgnorePodsLimit :: bool
  pr_Err :: "string option"

definition ComputePodResourceRequest :: "res_cfg \<Rightarrow> v1pod \<Rightarrow> PodRequest" where
  "ComputePodResourceRequest cfg pd =
     (let r1 = fold (\<lambda>c r. Resource_Add cfg r c) (pod_Requests pd) zero_Resource;
          r2 = fold (\<lambda>c r. SetMaxResource cfg r c) (pod_InitRequests pd) r1;
          r3 = (case pod_Overhead pd of None \<Rightarrow> r2 | Some rl \<Rightarrow> if rc_PodOverhead cfg then Resource_Add cfg r2 rl else r2)
      in \<lparr>pr_Resource = r3,
          pr_ResourceType = (case GetPodResourceType (pod.truncate pd) of Inl _ \<Rightarrow> [] | Inr ty \<Rightarrow> ty),
          pr_IgnorePodsLimit = IgnorePodsLimit (Some (pod.truncate pd)), pr_Err = None\<rparr>)"

record InsufficientResource =
  ir_ResourceName :: string
  ir_Reason :: string
  ir_Requested :: int64
  ir_Used :: int64
  ir_Capacity :: int64

datatype quantity_format = MilliDecimalSI | DecimalSI | BinarySI
type_synonym quantity_printer = "quantity_format \<Rightarrow> int64 \<Rightarrow> string"

definition ErrReasonTooManyPods :: string where "ErrReasonTooManyPods = ''node(s) had too many pods''"

definition ErrReasonRequestNotFitMessageFunc :: "string \<Rightarrow> string \<Rightarrow> string" where
  "ErrReasonRequestNotFitMessageFunc request resource = ''node(s) could not satisfy '' @ request @ '' '' @ resource @ '' '' @ ''request''"

definition insufficient :: "string \<Rightarrow> string \<Rightarrow> int64 \<Rightarrow> int64 \<Rightarrow> int64 \<Rightarrow> InsufficientResource" where
  "insufficient name shown requested inUse capacity =
     \<lparr>ir_ResourceName = name, ir_Reason = ErrReasonRequestNotFitMessageFunc shown name, ir_Requested = requested, ir_Used = inUse,
      ir_Capacity = capacity\<rparr>"

text \<open>The extended resources the arguments of the plugin tell it to ignore, by name or by the group before the slash. An
  empty set of groups looks the empty prefix up.\<close>

definition ignored :: "string set \<Rightarrow> string set \<Rightarrow> string \<Rightarrow> bool" where
  "ignored ignoredExtendedResources ignoredResourceGroups rName =
     (if IsExtendedResourceName rName then
        (let rNamePrefix = (if ignoredResourceGroups \<noteq> {} then takeWhile (\<lambda>c. c \<noteq> CHR ''/'') rName else []) in
         rName \<in> ignoredExtendedResources \<or> rNamePrefix \<in> ignoredResourceGroups)
      else False)"

primrec fits_scalars ::
  "quantity_printer \<Rightarrow> PodRequest \<Rightarrow> Resource \<Rightarrow> Resource \<Rightarrow> string set \<Rightarrow> string set \<Rightarrow> string list \<Rightarrow> InsufficientResource option" where
  "fits_scalars qs req allocatable requested ign grp [] = None"
| "fits_scalars qs req allocatable requested ign grp (rName # names) =
     (let rQuant = scalar_of rName (pr_Resource req) in
      if \<not> ignored ign grp rName \<and> sint (scalar_of rName allocatable) < sint (rQuant + scalar_of rName requested)
      then Some (insufficient rName (qs (if IsHugePageResourceName rName then BinarySI else DecimalSI) rQuant) rQuant
                   (scalar_of rName requested) (scalar_of rName allocatable))
      else fits_scalars qs req allocatable requested ign grp names)"

definition fitsRequestCore ::
  "quantity_printer \<Rightarrow> string list \<Rightarrow> PodRequest \<Rightarrow> int \<Rightarrow> Resource \<Rightarrow> Resource \<Rightarrow> string set \<Rightarrow> string set \<Rightarrow> InsufficientResource option" where
  "fitsRequestCore qs names req podNumber allocatable requested ign grp =
     (let allowedPodNumber = sint (r_AllowedPodNumber allocatable); r = pr_Resource req in
      if \<not> pr_IgnorePodsLimit req \<and> podNumber + 1 > allowedPodNumber
      then Some \<lparr>ir_ResourceName = ''pods'', ir_Reason = ErrReasonTooManyPods, ir_Requested = 1, ir_Used = of_int podNumber,
                 ir_Capacity = of_int allowedPodNumber\<rparr>
      else if r_MilliCPU r = 0 \<and> r_Memory r = 0 \<and> r_EphemeralStorage r = 0 \<and> length names = 0 then None
      else if sint (r_MilliCPU allocatable) < sint (r_MilliCPU r + r_MilliCPU requested)
      then Some (insufficient ''cpu'' (qs MilliDecimalSI (r_MilliCPU r)) (r_MilliCPU r) (r_MilliCPU requested) (r_MilliCPU allocatable))
      else if sint (r_Memory allocatable) < sint (r_Memory r + r_Memory requested)
      then Some (insufficient ''memory'' (qs BinarySI (r_Memory r)) (r_Memory r) (r_Memory requested) (r_Memory allocatable))
      else if sint (r_EphemeralStorage allocatable) < sint (r_EphemeralStorage r + r_EphemeralStorage requested)
      then Some (insufficient ''ephemeral-storage'' (qs BinarySI (r_EphemeralStorage r)) (r_EphemeralStorage r)
                   (r_EphemeralStorage requested) (r_EphemeralStorage allocatable))
      else fits_scalars qs req allocatable requested ign grp names)"

definition FitsRequest ::
  "quantity_printer \<Rightarrow> string list \<Rightarrow> PodRequest \<Rightarrow> NodeInfoImpl \<Rightarrow> string set \<Rightarrow> string set \<Rightarrow> InsufficientResource option" where
  "FitsRequest qs names req n ign grp =
     (if pr_ResourceType req = GuaranteedPod
      then fitsRequestCore qs names req (NumPods n) (ni_GuaranteedAllocatable n) (ni_GuaranteedRequested n) ign grp
      else if pr_ResourceType req = BestEffortPod
      then fitsRequestCore qs names req (NumPods n) (ni_BestEffortAllocatable n) (ni_BestEffortRequested n) ign grp
      else None)"

text \<open>The cycle state with the data of the plugins below.\<close>

record preFilterState =
  ps_Resource :: Resource
  ps_resourceType :: string
  ps_ignorePodsLimit :: bool
  ps_err :: "string option"

datatype state_data = FitData preFilterState | PortData "(string \<times> string \<times> int) list" | TaintData "toleration list"
type_synonym CycleState = "string \<rightharpoonup> state_data"

definition getPodRequest :: "preFilterState \<Rightarrow> PodRequest" where
  "getPodRequest s =
     \<lparr>pr_Resource = ps_Resource s, pr_ResourceType = ps_resourceType s, pr_IgnorePodsLimit = ps_ignorePodsLimit s, pr_Err = ps_err s\<rparr>"

definition newPreFilterState :: "PodRequest \<Rightarrow> preFilterState" where
  "newPreFilterState r =
     \<lparr>ps_Resource = pr_Resource r, ps_resourceType = pr_ResourceType r, ps_ignorePodsLimit = pr_IgnorePodsLimit r, ps_err = pr_Err r\<rparr>"

definition fitStateKey :: string where "fitStateKey = ''PreFilterNodeResourcesFit''"

record fit_args =
  fit_ignoredResources :: "string set"
  fit_ignoredResourceGroups :: "string set"

definition Fit_PreFilter :: "res_cfg \<Rightarrow> CycleState \<Rightarrow> v1pod \<Rightarrow> CycleState \<times> Status option" where
  "Fit_PreFilter cfg st pd = (st(fitStateKey \<mapsto> FitData (newPreFilterState (ComputePodResourceRequest cfg pd))), None)"

definition fit_getPreFilterState :: "(state_data \<Rightarrow> string) \<Rightarrow> CycleState \<Rightarrow> string + preFilterState" where
  "fit_getPreFilterState fmt st =
     (case st fitStateKey of
        None \<Rightarrow> Inl (''error reading '' @ quoted fitStateKey @ '' from cycleState: not found'')
      | Some (FitData s) \<Rightarrow> Inr s
      | Some d \<Rightarrow> Inl (fmt d @ ''  convert to NodeResourcesFit.preFilterState error''))"

definition Fit_Filter ::
  "(state_data \<Rightarrow> string) \<Rightarrow> quantity_printer \<Rightarrow> string list \<Rightarrow> fit_args \<Rightarrow> CycleState \<Rightarrow> v1pod \<Rightarrow> NodeInfoImpl \<Rightarrow> Status option" where
  "Fit_Filter fmt qs names args st pd n =
     (case fit_getPreFilterState fmt st of
        Inl e \<Rightarrow> NewStatus Error [e]
      | Inr s \<Rightarrow>
          (case ps_err s of
             Some e \<Rightarrow> NewStatus Error [e]
           | None \<Rightarrow>
               (case snd (NodeFits pd n) of
                  Some status \<Rightarrow> Some status
                | None \<Rightarrow>
                    (case FitsRequest qs names (getPodRequest s) n (fit_ignoredResources args) (fit_ignoredResourceGroups args) of
                       Some ir \<Rightarrow> NewStatus Unschedulable [ir_Reason ir]
                     | None \<Rightarrow> None))))"

text \<open>The check of the binder ignores no resource and does not look at the launcher.\<close>

definition Fit_CheckConflicts :: "res_cfg \<Rightarrow> quantity_printer \<Rightarrow> string list \<Rightarrow> v1pod \<Rightarrow> NodeInfoImpl \<Rightarrow> Status option" where
  "Fit_CheckConflicts cfg qs names pd n =
     (let resourceRequest = ComputePodResourceRequest cfg pd in
      case pr_Err resourceRequest of
        Some e \<Rightarrow> NewStatus Error [e]
      | None \<Rightarrow>
          (case FitsRequest qs names resourceRequest n {} {} of
             Some ir \<Rightarrow> NewStatus Unschedulable [ir_Reason ir]
           | None \<Rightarrow> None))"

subsection \<open>Host ports\<close>

definition FitsPorts :: "(string \<times> string \<times> int) list \<Rightarrow> NodeInfoImpl \<Rightarrow> bool" where
  "FitsPorts wantPorts n = list_all (\<lambda>(ip, protocol, port). \<not> CheckConflict (ni_UsedPorts n) ip protocol port) wantPorts"

definition getContainerPorts :: "v1pod list \<Rightarrow> (string \<times> string \<times> int) list" where
  "getContainerPorts pods = concat (map pod_Ports pods)"

definition Ports_Fits :: "v1pod \<Rightarrow> NodeInfoImpl \<Rightarrow> bool" where
  "Ports_Fits pd n = FitsPorts (getContainerPorts [pd]) n"

definition portStateKey :: string where "portStateKey = ''PreFilterNodePorts''"
definition ErrReasonPorts :: string where "ErrReasonPorts = ''node(s) didn't have free ports for the requested pod ports''"

definition NodePorts_PreFilter :: "CycleState \<Rightarrow> v1pod \<Rightarrow> CycleState \<times> Status option" where
  "NodePorts_PreFilter st pd = (st(portStateKey \<mapsto> PortData (getContainerPorts [pd])), None)"

definition ports_getPreFilterState :: "(state_data \<Rightarrow> string) \<Rightarrow> CycleState \<Rightarrow> string + (string \<times> string \<times> int) list" where
  "ports_getPreFilterState fmt st =
     (case st portStateKey of
        None \<Rightarrow> Inl (''reading '' @ quoted portStateKey @ '' from cycleState: not found'')
      | Some (PortData s) \<Rightarrow> Inr s
      | Some d \<Rightarrow> Inl (fmt d @ ''  convert to nodeports.preFilterState error''))"

definition NodePorts_Filter :: "(state_data \<Rightarrow> string) \<Rightarrow> CycleState \<Rightarrow> NodeInfoImpl \<Rightarrow> Status option" where
  "NodePorts_Filter fmt st n =
     (case ports_getPreFilterState fmt st of
        Inl e \<Rightarrow> AsStatus e
      | Inr wantPorts \<Rightarrow> if \<not> FitsPorts wantPorts n then NewStatus Unschedulable [ErrReasonPorts] else None)"

definition NodePorts_CheckConflicts :: "v1pod \<Rightarrow> NodeInfoImpl \<Rightarrow> Status option" where
  "NodePorts_CheckConflicts pd n = (if \<not> Ports_Fits pd n then NewStatus Unschedulable [ErrReasonPorts] else None)"

subsection \<open>Taints\<close>

definition TaintEffectNoSchedule :: string where "TaintEffectNoSchedule = ''NoSchedule''"
definition TaintEffectPreferNoSchedule :: string where "TaintEffectPreferNoSchedule = ''PreferNoSchedule''"
definition TaintEffectNoExecute :: string where "TaintEffectNoExecute = ''NoExecute''"

definition ToleratesTaint :: "toleration \<Rightarrow> taint \<Rightarrow> bool" where
  "ToleratesTaint t tnt =
     (if length (tol_Effect t) > 0 \<and> tol_Effect t \<noteq> taint_Effect tnt then False
      else if length (tol_Key t) > 0 \<and> tol_Key t \<noteq> taint_Key tnt then False
      else if tol_Operator t = [] \<or> tol_Operator t = ''Equal'' then tol_Value t = taint_Value tnt
      else tol_Operator t = ''Exists'')"

definition TolerationsTolerateTaint :: "toleration list \<Rightarrow> taint \<Rightarrow> bool" where
  "TolerationsTolerateTaint tolerations tnt = list_ex (\<lambda>t. ToleratesTaint t tnt) tolerations"

definition getFilteredTaints :: "taint list \<Rightarrow> (taint \<Rightarrow> bool) option \<Rightarrow> taint list" where
  "getFilteredTaints taints inclusionFilter = (case inclusionFilter of None \<Rightarrow> taints | Some g \<Rightarrow> filter g taints)"

definition FindMatchingUntoleratedTaint :: "taint list \<Rightarrow> toleration list \<Rightarrow> (taint \<Rightarrow> bool) option \<Rightarrow> taint option" where
  "FindMatchingUntoleratedTaint taints tolerations inclusionFilter =
     find (\<lambda>tnt. \<not> TolerationsTolerateTaint tolerations tnt) (getFilteredTaints taints inclusionFilter)"

definition TolerationsTolerateTaintsWithFilter :: "toleration list \<Rightarrow> taint list \<Rightarrow> (taint \<Rightarrow> bool) option \<Rightarrow> bool" where
  "TolerationsTolerateTaintsWithFilter tolerations taints applyFilter = (FindMatchingUntoleratedTaint taints tolerations applyFilter = None)"

fun matching_loop :: "taint list \<Rightarrow> toleration list \<Rightarrow> toleration list \<Rightarrow> bool \<times> toleration list" where
  "matching_loop [] tolerations res = (True, res)"
| "matching_loop (tnt # taints) tolerations res =
     (case find (\<lambda>t. ToleratesTaint t tnt) tolerations of
        None \<Rightarrow> (False, [])
      | Some t \<Rightarrow> matching_loop taints tolerations (res @ [t]))"

definition GetMatchingTolerations :: "taint list \<Rightarrow> toleration list \<Rightarrow> bool \<times> toleration list" where
  "GetMatchingTolerations taints tolerations =
     (if length taints = 0 then (True, [])
      else if length tolerations = 0 \<and> length taints > 0 then (False, [])
      else matching_loop taints tolerations [])"

text \<open>The taints of the node object the launcher asks for; \<^verbatim>\<open>NodeFits\<close> has checked that it is there.\<close>

definition launcher_taints :: "string \<Rightarrow> NodeInfoImpl \<Rightarrow> taint list" where
  "launcher_taints launcher n =
     (if launcher = Kubelet then (case ni_Node n of Some x \<Rightarrow> node_Taints x | None \<Rightarrow> [])
      else if launcher = NodeManager then (case ni_NMNode n of Some y \<Rightarrow> nm_Taints y | None \<Rightarrow> [])
      else [])"

definition hard_taint :: "taint \<Rightarrow> bool" where
  "hard_taint t = (taint_Effect t = TaintEffectNoSchedule \<or> taint_Effect t = TaintEffectNoExecute)"

definition TaintToleration_Filter :: "v1pod \<Rightarrow> NodeInfoImpl \<Rightarrow> Status option" where
  "TaintToleration_Filter pd n =
     (case NodeFits pd n of (launcher, status) \<Rightarrow>
        if status \<noteq> None then status
        else
          (case FindMatchingUntoleratedTaint (launcher_taints launcher n) (pod_Tolerations pd) (Some hard_taint) of
             None \<Rightarrow> None
           | Some t \<Rightarrow> NewStatus UnschedulableAndUnresolvable
                         [''node(s) had taint {'' @ taint_Key t @ '': '' @ taint_Value t @ ''}, that the pod didn't tolerate'']))"

definition getAllTolerationPreferNoSchedule :: "toleration list \<Rightarrow> toleration list" where
  "getAllTolerationPreferNoSchedule tolerations =
     filter (\<lambda>t. length (tol_Effect t) = 0 \<or> tol_Effect t = TaintEffectPreferNoSchedule) tolerations"

definition taintStateKey :: string where "taintStateKey = ''PreScoreTaintToleration''"

definition TaintToleration_PreScore :: "CycleState \<Rightarrow> v1pod \<Rightarrow> NodeInfoImpl list \<Rightarrow> CycleState \<times> Status option" where
  "TaintToleration_PreScore st pd nodes =
     (if length nodes = 0 then (st, None)
      else (st(taintStateKey \<mapsto> TaintData (getAllTolerationPreferNoSchedule (pod_Tolerations pd))), None))"

definition countIntolerableTaintsPreferNoSchedule :: "taint list \<Rightarrow> toleration list \<Rightarrow> nat" where
  "countIntolerableTaintsPreferNoSchedule taints tolerations =
     length (filter (\<lambda>t. taint_Effect t = TaintEffectPreferNoSchedule \<and> \<not> TolerationsTolerateTaint tolerations t) taints)"

definition taint_getPreScoreState :: "(state_data \<Rightarrow> string) \<Rightarrow> CycleState \<Rightarrow> string + toleration list" where
  "taint_getPreScoreState fmt st =
     (case st taintStateKey of
        None \<Rightarrow> Inl (''Error reading '' @ quoted taintStateKey @ '' from cycleState: not found'')
      | Some (TaintData s) \<Rightarrow> Inr s
      | Some d \<Rightarrow> Inl (fmt d @ '' convert to tainttoleration.preScoreState error''))"

text \<open>\<open>snap\<close> is the lookup of a node in the snapshot.\<close>

definition TaintToleration_Score ::
  "(string \<rightharpoonup> NodeInfoImpl) \<Rightarrow> (state_data \<Rightarrow> string) \<Rightarrow> CycleState \<Rightarrow> v1pod \<Rightarrow> string \<Rightarrow> int64 \<times> Status option" where
  "TaintToleration_Score snap fmt st pd nodeName =
     (case (case snap nodeName of None \<Rightarrow> None | Some n \<Rightarrow> if ObjectIsNil n then None else Some n) of
        None \<Rightarrow> (0, NewStatus Error [''getting node '' @ quoted nodeName @ '' from Snapshot''])
      | Some n \<Rightarrow>
          (case NodeFits pd n of (launcher, status) \<Rightarrow>
             if status \<noteq> None then (0, status)
             else
               (case taint_getPreScoreState fmt st of
                  Inl e \<Rightarrow> (0, NewStatus Error [e])
                | Inr tolerations \<Rightarrow>
                    (of_nat (countIntolerableTaintsPreferNoSchedule (launcher_taints launcher n) tolerations), None))))"

subsection \<open>Unschedulable nodes and labels\<close>

definition TaintNodeUnschedulable :: string where "TaintNodeUnschedulable = ''node.kubernetes.io/unschedulable''"

definition NodeUnschedulable_Filter :: "v1pod \<Rightarrow> NodeInfoImpl \<Rightarrow> Status option" where
  "NodeUnschedulable_Filter pd n =
     (case NodeFits pd n of (launcher, status) \<Rightarrow>
        if status \<noteq> None then status
        else if launcher = Kubelet then
          (let podToleratesUnschedulable = TolerationsTolerateTaint (pod_Tolerations pd)
                 \<lparr>taint_Key = TaintNodeUnschedulable, taint_Value = [], taint_Effect = TaintEffectNoSchedule\<rparr> in
           if (case ni_Node n of Some x \<Rightarrow> node_Unschedulable x | None \<Rightarrow> False) \<and> \<not> podToleratesUnschedulable
           then NewStatus UnschedulableAndUnresolvable [''node(s) were unschedulable''] else None)
        else if launcher = NodeManager then
          (if ni_NMNode n = None then NewStatus UnschedulableAndUnresolvable [''node(s) had unknown conditions''] else None)
        else None)"

record node_label_args =
  nl_PresentLabels :: "string list"
  nl_AbsentLabels :: "string list"
  nl_PresentLabelsPreference :: "string list"
  nl_AbsentLabelsPreference :: "string list"

definition label_check :: "(string \<rightharpoonup> string) \<Rightarrow> string list \<Rightarrow> bool \<Rightarrow> bool" where
  "label_check nodeLabels labels presence =
     list_all (\<lambda>label. \<not> ((nodeLabels label \<noteq> None \<and> \<not> presence) \<or> (nodeLabels label = None \<and> presence))) labels"

definition NodeLabel_Filter :: "node_label_args \<Rightarrow> v1pod \<Rightarrow> NodeInfoImpl \<Rightarrow> Status option" where
  "NodeLabel_Filter args pd n =
     (case NodeFits pd n of (podLauncher, status) \<Rightarrow>
        if status \<noteq> None then status
        else if label_check (GetNodeLabels n podLauncher) (nl_PresentLabels args) True \<and>
                label_check (GetNodeLabels n podLauncher) (nl_AbsentLabels args) False then None
        else NewStatus UnschedulableAndUnresolvable [''node(s) didn't have the requested labels''])"

subsection \<open>What the filters accept\<close>

definition launched :: "v1pod \<Rightarrow> NodeInfoImpl \<Rightarrow> bool" where
  "launched pd n = (case GetPodLauncher (pod.truncate pd) of Inl _ \<Rightarrow> False | Inr l \<Rightarrow> canPodPlaceOnNode l n)"

definition legal_launcher :: "v1pod \<Rightarrow> bool" where
  "legal_launcher pd = (case GetPodLauncher (pod.truncate pd) of Inl _ \<Rightarrow> False | Inr _ \<Rightarrow> True)"

definition launcher_of :: "v1pod \<Rightarrow> string" where
  "launcher_of pd = (case GetPodLauncher (pod.truncate pd) of Inl _ \<Rightarrow> [] | Inr l \<Rightarrow> l)"

lemma launcher_cases: "GetPodLauncher p = Inr l \<Longrightarrow> l = Kubelet \<or> l = NodeManager"
  by (auto simp: GetPodLauncher_def Let_def split: if_splits)

lemma NewStatus_simps [simp]: "NewStatus c r \<noteq> None" "IsSuccess (NewStatus c r) \<longleftrightarrow> c = Success"
  "IsUnschedulable (NewStatus c r) \<longleftrightarrow> c = Unschedulable \<or> c = UnschedulableAndUnresolvable" "IsSuccess None" "\<not> IsUnschedulable None"
  by (simp_all add: IsSuccess_def IsUnschedulable_def) (simp_all add: NewStatus_def Let_def Status_Code_def)

lemma NodeFits_simps:
  "fst (NodeFits pd n) = launcher_of pd" "snd (NodeFits pd n) = None \<longleftrightarrow> launched pd n"
  "IsSuccess (snd (NodeFits pd n)) \<longleftrightarrow> launched pd n"
  "legal_launcher pd \<Longrightarrow> \<not> launched pd n \<Longrightarrow> IsUnschedulable (snd (NodeFits pd n))"
  using launcher_cases [of "pod.truncate pd"]
  by (auto simp: NodeFits_def launcher_of_def launched_def legal_launcher_def Kubelet_def NodeManager_def Let_def
      split: sum.splits)

text \<open>The amounts a request must leave room for, one by one.\<close>

definition room :: "int64 \<Rightarrow> int64 \<Rightarrow> int64 \<Rightarrow> bool" where
  "room allocatable request requested = (sint (request + requested) \<le> sint allocatable)"

definition request_fits :: "string set \<Rightarrow> string set \<Rightarrow> PodRequest \<Rightarrow> int \<Rightarrow> Resource \<Rightarrow> Resource \<Rightarrow> bool" where
  "request_fits ign grp req podNumber allocatable requested =
     ((pr_IgnorePodsLimit req \<or> podNumber < sint (r_AllowedPodNumber allocatable)) \<and>
      (let r = pr_Resource req in
       (r_MilliCPU r = 0 \<and> r_Memory r = 0 \<and> r_EphemeralStorage r = 0 \<and> r_ScalarResources r = Map.empty) \<or>
       (room (r_MilliCPU allocatable) (r_MilliCPU r) (r_MilliCPU requested) \<and>
        room (r_Memory allocatable) (r_Memory r) (r_Memory requested) \<and>
        room (r_EphemeralStorage allocatable) (r_EphemeralStorage r) (r_EphemeralStorage requested) \<and>
        (\<forall>name \<in> dom (r_ScalarResources r). ignored ign grp name \<or> room (scalar_of name allocatable) (scalar_of name r) (scalar_of name requested)))))"

lemma fits_scalars_None:
  "fits_scalars qs req allocatable requested ign grp names = None \<longleftrightarrow>
     (\<forall>name \<in> set names. ignored ign grp name \<or> room (scalar_of name allocatable) (scalar_of name (pr_Resource req)) (scalar_of name requested))"
  by (induction names) (auto simp: Let_def room_def)

lemma fitsRequestCore_None:
  assumes "set names = dom (r_ScalarResources (pr_Resource req))"
  shows "fitsRequestCore qs names req podNumber allocatable requested ign grp = None \<longleftrightarrow>
    request_fits ign grp req podNumber allocatable requested"
proof -
  have "length names = 0 \<longleftrightarrow> r_ScalarResources (pr_Resource req) = Map.empty"
    using assms by (metis dom_eq_empty_conv length_0_conv set_empty)
  then show ?thesis
    unfolding fitsRequestCore_def request_fits_def Let_def using fits_scalars_None [of qs req allocatable requested ign grp names] assms
    by (auto simp: room_def)
qed

definition resources_fit :: "string set \<Rightarrow> string set \<Rightarrow> PodRequest \<Rightarrow> NodeInfoImpl \<Rightarrow> bool" where
  "resources_fit ign grp req n =
     ((pr_ResourceType req = GuaranteedPod \<longrightarrow>
         request_fits ign grp req (NumPods n) (ni_GuaranteedAllocatable n) (ni_GuaranteedRequested n)) \<and>
      (pr_ResourceType req = BestEffortPod \<longrightarrow>
         request_fits ign grp req (NumPods n) (ni_BestEffortAllocatable n) (ni_BestEffortRequested n)))"

lemma FitsRequest_None:
  "set names = dom (r_ScalarResources (pr_Resource req)) \<Longrightarrow> FitsRequest qs names req n ign grp = None \<longleftrightarrow> resources_fit ign grp req n"
  by (simp add: FitsRequest_def resources_fit_def fitsRequestCore_None GuaranteedPod_def BestEffortPod_def)

text \<open>The names of the scalar resources of a request, in the order of a range.\<close>

definition scalar_order :: "res_cfg \<Rightarrow> v1pod \<Rightarrow> string list \<Rightarrow> bool" where
  "scalar_order cfg pd names = (set names = dom (r_ScalarResources (pr_Resource (ComputePodResourceRequest cfg pd))))"

lemma getPodRequest_new [simp]: "getPodRequest (newPreFilterState r) = r" by (simp add: getPodRequest_def newPreFilterState_def)

text \<open>The contract of a filter: it accepts exactly the nodes that fit, and rejects the others with an unschedulable status
  and not with an error, for the pods it is meant for.\<close>

locale node_filter =
  fixes filt :: "v1pod \<Rightarrow> NodeInfoImpl \<Rightarrow> Status option"
    and fits :: "v1pod \<Rightarrow> NodeInfoImpl \<Rightarrow> bool"
    and handles :: "v1pod \<Rightarrow> bool"
  assumes exact: "handles pd \<Longrightarrow> IsSuccess (filt pd n) \<longleftrightarrow> fits pd n"
    and rejects: "handles pd \<Longrightarrow> \<not> fits pd n \<Longrightarrow> IsUnschedulable (filt pd n)"
begin

lemma no_error: "handles pd \<Longrightarrow> Status_Code (filt pd n) \<noteq> Error"
  using exact [of pd n] rejects [of pd n] by (auto simp: IsSuccess_def IsUnschedulable_def)

lemma verdict: "handles pd \<Longrightarrow> (IsUnschedulable (filt pd n) \<longleftrightarrow> \<not> fits pd n)"
  using exact [of pd n] rejects [of pd n] by (auto simp: IsSuccess_def IsUnschedulable_def)

end

interpretation launcher: node_filter PodLauncher_Filter launched legal_launcher
  by unfold_locales (simp_all add: PodLauncher_Filter_def NodeFits_simps)

lemma Fit_Filter_run:
  assumes "scalar_order cfg pd names"
  shows "Fit_Filter fmt qs names args (fst (Fit_PreFilter cfg st pd)) pd n =
    (if \<not> launched pd n then snd (NodeFits pd n)
     else if resources_fit (fit_ignoredResources args) (fit_ignoredResourceGroups args) (ComputePodResourceRequest cfg pd) n then None
     else NewStatus Unschedulable [ir_Reason (the (FitsRequest qs names (ComputePodResourceRequest cfg pd) n
            (fit_ignoredResources args) (fit_ignoredResourceGroups args)))])"
  using assms NodeFits_simps(2) [of pd n]
    FitsRequest_None [of names "ComputePodResourceRequest cfg pd" qs n "fit_ignoredResources args" "fit_ignoredResourceGroups args"]
  by (auto simp: Fit_Filter_def Fit_PreFilter_def fit_getPreFilterState_def scalar_order_def split: option.splits)
    (auto simp: newPreFilterState_def ComputePodResourceRequest_def Let_def)

interpretation ports: node_filter "\<lambda>pd n. NodePorts_Filter fmt (fst (NodePorts_PreFilter st pd)) n" Ports_Fits "\<lambda>pd. True" for fmt st
  by unfold_locales (simp_all add: NodePorts_Filter_def NodePorts_PreFilter_def ports_getPreFilterState_def Ports_Fits_def)

interpretation binder_ports: node_filter NodePorts_CheckConflicts Ports_Fits "\<lambda>pd. True"
  by unfold_locales (simp_all add: NodePorts_CheckConflicts_def)

definition node_fits_request :: "res_cfg \<Rightarrow> fit_args \<Rightarrow> v1pod \<Rightarrow> NodeInfoImpl \<Rightarrow> bool" where
  "node_fits_request cfg args pd n =
     (launched pd n \<and> resources_fit (fit_ignoredResources args) (fit_ignoredResourceGroups args) (ComputePodResourceRequest cfg pd) n)"

interpretation resources: node_filter "\<lambda>pd n. Fit_Filter fmt qs (names pd) args (fst (Fit_PreFilter cfg st pd)) pd n"
    "node_fits_request cfg args" "\<lambda>pd. legal_launcher pd \<and> scalar_order cfg pd (names pd)" for fmt qs names args cfg st
  by unfold_locales (auto simp: Fit_Filter_run node_fits_request_def NodeFits_simps)

interpretation binder_resources: node_filter "\<lambda>pd n. Fit_CheckConflicts cfg qs (names pd) pd n"
    "\<lambda>pd. resources_fit {} {} (ComputePodResourceRequest cfg pd)" "\<lambda>pd. scalar_order cfg pd (names pd)" for cfg qs names
proof unfold_locales
  fix pd n
  assume "scalar_order cfg pd (names pd)"
  then have "FitsRequest qs (names pd) (ComputePodResourceRequest cfg pd) n {} {} = None \<longleftrightarrow> resources_fit {} {} (ComputePodResourceRequest cfg pd) n"
    by (simp add: FitsRequest_None scalar_order_def)
  moreover have "pr_Err (ComputePodResourceRequest cfg pd) = None" by (simp add: ComputePodResourceRequest_def Let_def)
  ultimately show "IsSuccess (Fit_CheckConflicts cfg qs (names pd) pd n) \<longleftrightarrow> resources_fit {} {} (ComputePodResourceRequest cfg pd) n"
    "\<not> resources_fit {} {} (ComputePodResourceRequest cfg pd) n \<Longrightarrow> IsUnschedulable (Fit_CheckConflicts cfg qs (names pd) pd n)"
    by (auto simp: Fit_CheckConflicts_def Let_def split: option.splits)
qed

definition tolerated :: "v1pod \<Rightarrow> NodeInfoImpl \<Rightarrow> bool" where
  "tolerated pd n =
     (launched pd n \<and>
      (\<forall>t \<in> set (launcher_taints (launcher_of pd) n). hard_taint t \<longrightarrow> (\<exists>tol \<in> set (pod_Tolerations pd). ToleratesTaint tol t)))"

lemma TaintToleration_run:
  "TaintToleration_Filter pd n =
     (if \<not> launched pd n then snd (NodeFits pd n)
      else if tolerated pd n then None
      else NewStatus UnschedulableAndUnresolvable
        (let t = the (FindMatchingUntoleratedTaint (launcher_taints (launcher_of pd) n) (pod_Tolerations pd) (Some hard_taint)) in
         [''node(s) had taint {'' @ taint_Key t @ '': '' @ taint_Value t @ ''}, that the pod didn't tolerate'']))"
proof -
  have "FindMatchingUntoleratedTaint (launcher_taints (launcher_of pd) n) (pod_Tolerations pd) (Some hard_taint) = None \<longleftrightarrow>
      (\<forall>t \<in> set (launcher_taints (launcher_of pd) n). hard_taint t \<longrightarrow> (\<exists>tol \<in> set (pod_Tolerations pd). ToleratesTaint tol t))"
    by (auto simp: FindMatchingUntoleratedTaint_def getFilteredTaints_def find_None_iff TolerationsTolerateTaint_def list_ex_iff)
  then show ?thesis
    using NodeFits_simps(1,2) [of pd n] by (cases "NodeFits pd n") (auto simp: TaintToleration_Filter_def tolerated_def Let_def split: option.splits)
qed

interpretation taints: node_filter TaintToleration_Filter tolerated legal_launcher
  by unfold_locales (auto simp: TaintToleration_run NodeFits_simps, simp_all add: tolerated_def)

definition schedulable :: "v1pod \<Rightarrow> NodeInfoImpl \<Rightarrow> bool" where
  "schedulable pd n =
     (launched pd n \<and>
      (launcher_of pd = Kubelet \<and> (\<exists>x. ni_Node n = Some x \<and> node_Unschedulable x) \<longrightarrow>
         (\<exists>tol \<in> set (pod_Tolerations pd).
            ToleratesTaint tol \<lparr>taint_Key = TaintNodeUnschedulable, taint_Value = [], taint_Effect = TaintEffectNoSchedule\<rparr>)))"

lemma launched_NodeManager: "launched pd n \<Longrightarrow> launcher_of pd = NodeManager \<Longrightarrow> ni_NMNode n \<noteq> None"
  by (auto simp: launched_def launcher_of_def canPodPlaceOnNode_def Kubelet_def NodeManager_def split: sum.splits)

lemma NodeUnschedulable_run:
  "NodeUnschedulable_Filter pd n =
     (if \<not> launched pd n then snd (NodeFits pd n) else if schedulable pd n then None
      else NewStatus UnschedulableAndUnresolvable [''node(s) were unschedulable''])"
  using NodeFits_simps(1,2) [of pd n] launched_NodeManager [of pd n]
  by (cases "NodeFits pd n") (auto simp: NodeUnschedulable_Filter_def schedulable_def TolerationsTolerateTaint_def list_ex_iff Let_def
      split: option.splits)

interpretation unschedulable: node_filter NodeUnschedulable_Filter schedulable legal_launcher
  by unfold_locales (auto simp: NodeUnschedulable_run NodeFits_simps, simp_all add: schedulable_def)

definition labelled :: "node_label_args \<Rightarrow> v1pod \<Rightarrow> NodeInfoImpl \<Rightarrow> bool" where
  "labelled args pd n =
     (launched pd n \<and> set (nl_PresentLabels args) \<subseteq> dom (GetNodeLabels n (launcher_of pd)) \<and>
      set (nl_AbsentLabels args) \<inter> dom (GetNodeLabels n (launcher_of pd)) = {})"

lemma label_check_iff:
  "label_check ls xs True \<longleftrightarrow> set xs \<subseteq> dom ls" "label_check ls xs False \<longleftrightarrow> set xs \<inter> dom ls = {}"
  by (auto simp: label_check_def list_all_iff)

lemma NodeLabel_run:
  "NodeLabel_Filter args pd n =
     (if \<not> launched pd n then snd (NodeFits pd n) else if labelled args pd n then None
      else NewStatus UnschedulableAndUnresolvable [''node(s) didn't have the requested labels''])"
  using NodeFits_simps(1,2) [of pd n]
  by (cases "NodeFits pd n") (auto simp: NodeLabel_Filter_def labelled_def label_check_iff)

interpretation labels: node_filter "NodeLabel_Filter args" "labelled args" legal_launcher for args
  by unfold_locales (auto simp: NodeLabel_run NodeFits_simps, simp_all add: labelled_def)

text \<open>The score counts the same taints with the tolerations picked out as with all of them.\<close>

lemma ToleratesTaint_effect: "ToleratesTaint tol t \<Longrightarrow> length (tol_Effect tol) = 0 \<or> tol_Effect tol = taint_Effect t"
  by (simp add: ToleratesTaint_def split: if_splits)

lemma preferred_tolerations:
  assumes "taint_Effect t = TaintEffectPreferNoSchedule"
  shows "TolerationsTolerateTaint (getAllTolerationPreferNoSchedule tolerations) t = TolerationsTolerateTaint tolerations t"
  unfolding TolerationsTolerateTaint_def getAllTolerationPreferNoSchedule_def list_ex_iff set_filter
  using ToleratesTaint_effect [of _ t, unfolded assms] by blast

lemma countIntolerable_preferred:
  "countIntolerableTaintsPreferNoSchedule taints (getAllTolerationPreferNoSchedule tolerations) =
   countIntolerableTaintsPreferNoSchedule taints tolerations"
  unfolding countIntolerableTaintsPreferNoSchedule_def
  by (rule arg_cong [where f = length], rule filter_cong [OF refl]) (use preferred_tolerations in blast)

text \<open>The helper that collects the tolerations agrees with the one that looks for an untolerated taint.\<close>

lemma matching_loop_fst: "fst (matching_loop taints tolerations res) \<longleftrightarrow> (\<forall>t \<in> set taints. TolerationsTolerateTaint tolerations t)"
proof (induction taints arbitrary: res)
  case (Cons t taints)
  have "find (\<lambda>tol. ToleratesTaint tol t) tolerations = None \<longleftrightarrow> \<not> TolerationsTolerateTaint tolerations t"
    by (auto simp: find_None_iff TolerationsTolerateTaint_def list_ex_iff)
  then show ?case using Cons.IH by (cases "find (\<lambda>tol. ToleratesTaint tol t) tolerations") auto
qed simp

lemma GetMatchingTolerations_iff:
  "fst (GetMatchingTolerations taints tolerations) \<longleftrightarrow> TolerationsTolerateTaintsWithFilter tolerations taints None"
  using matching_loop_fst [of taints tolerations "[]"]
  by (cases taints; cases tolerations)
    (auto simp: GetMatchingTolerations_def TolerationsTolerateTaintsWithFilter_def FindMatchingUntoleratedTaint_def
      getFilteredTaints_def find_None_iff TolerationsTolerateTaint_def)

end
