(* ===== verification/Admission.thy ===== *)
theory Admission
  imports Node_Filters
begin

section \<open>Binding pods to a node: checks and accounting together\<close>

text \<open>
  The binder runs \<^verbatim>\<open>RunCheckConflictsPlugins\<close> on the node of its cache before it binds a pod, and the pod is then
  added to the node. The history of a node whose pods all went through the checks is a step relation: a pod that passes
  the checks is added, a pod of the node is removed.

  The properties: such a node is never overcommitted in any resource, nor in its number of pods, and no two of its pods
  claim the same host port. Both rest on the accounting of the node: the checks read its sums and its ports.
\<close>

subsection \<open>The request the checks compute is the one the node is charged with\<close>

lemma fold_calc_container: "fst (fold (calc_container cfg) cs st) = fold (\<lambda>c r. Resource_Add cfg r c) cs (fst st)"
  by (induction cs arbitrary: st) (auto simp: calc_container_def split: prod.splits)

lemma fold_calc_init: "fst (fold (calc_init cfg) cs st) = fold (\<lambda>c r. SetMaxResource cfg r c) cs (fst st)"
  by (induction cs arbitrary: st) (auto simp: calc_init_def split: prod.splits)

lemma calc_overhead_fst:
  "fst (calc_overhead cfg ov st) = (case ov of None \<Rightarrow> fst st | Some rl \<Rightarrow> if rc_PodOverhead cfg then Resource_Add cfg (fst st) rl else fst st)"
  by (simp add: calc_overhead_def split: option.splits prod.splits)

lemma request_resource: "pr_Resource (ComputePodResourceRequest cfg pd) = pi_Res (NewPodInfo cfg pd)"
proof -
  have "pi_Res (NewPodInfo cfg pd) = fst (CalculateResource cfg pd)" by (simp add: NewPodInfo_def split: prod.splits)
  then show ?thesis
    by (simp add: ComputePodResourceRequest_def CalculateResource_def calc_overhead_fst fold_calc_init fold_calc_container Let_def
        split: option.split)
qed

lemma request_type: "pr_ResourceType (ComputePodResourceRequest cfg pd) = pi_PodResourceType (NewPodInfo cfg pd)"
  by (simp add: ComputePodResourceRequest_def NewPodInfo_def Let_def split: prod.splits)

lemma NewPodInfo_Pod [simp]: "pi_Pod (NewPodInfo cfg pd) = pd" by (simp add: NewPodInfo_def split: prod.splits)

subsection \<open>One amount of a node\<close>

definition itotal :: "(key \<rightharpoonup> PodInfo) \<Rightarrow> (PodInfo \<Rightarrow> bool) \<Rightarrow> (PodInfo \<Rightarrow> int64) \<Rightarrow> int" where
  "itotal A P f = (\<Sum>k \<in> {k. \<exists>p. A k = Some p \<and> P p}. sint (f (the (A k))))"

lemma total_itotal: "total A P f = of_int (itotal A P f)"
  by (simp add: total_def itotal_def of_int_sum of_int_sint64 del: of_int_sint)

lemma itotal_add:
  assumes "finite (dom A)" "A k = None"
  shows "itotal (A(k \<mapsto> p)) P f = itotal A P f + (if P p then sint (f p) else 0)"
proof -
  let ?S = "{k. \<exists>p. A k = Some p \<and> P p}"
  have n: "k \<notin> ?S" using assms(2) by simp
  have S: "{j. \<exists>q. (A(k \<mapsto> p)) j = Some q \<and> P q} = (if P p then insert k ?S else ?S)" using assms(2) by (auto split: if_splits)
  have "(\<Sum>j \<in> ?S. sint (f (the ((A(k \<mapsto> p)) j)))) = (\<Sum>j \<in> ?S. sint (f (the (A j))))" using n by (intro sum.cong) auto
  then show ?thesis unfolding itotal_def S using total_finite [OF assms(1), of P] n by (simp add: add.commute)
qed

lemma itotal_del:
  assumes "finite (dom A)" "A k = Some p"
  shows "itotal (A(k := None)) P f = itotal A P f - (if P p then sint (f p) else 0)"
proof -
  have "A = (A(k := None))(k \<mapsto> p)" using assms(2) by (auto simp: fun_eq_iff)
  then show ?thesis using itotal_add [of "A(k := None)" k p P f] assms(1) by simp
qed

text \<open>An amount of a node in which nothing is overcommitted: the pods ask for no more than there is. Amounts below \<open>2 ^ 62\<close>
  keep the sums the checks form in range.\<close>

definition moderate :: "int64 \<Rightarrow> bool" where "moderate w = (0 \<le> sint w \<and> sint w < 2 ^ 62)"

definition within :: "(Resource \<Rightarrow> int64) \<Rightarrow> Resource \<Rightarrow> (key \<rightharpoonup> PodInfo) \<Rightarrow> (PodInfo \<Rightarrow> bool) \<Rightarrow> bool" where
  "within rd alloc A P = (0 \<le> itotal A P (rd \<circ> pi_Res) \<and> itotal A P (rd \<circ> pi_Res) \<le> sint (rd alloc))"

text \<open>A dimension of a resource: an amount that the accounting of a node sums up over its pods.\<close>

locale dimension =
  fixes rd :: "Resource \<Rightarrow> int64"
  assumes summed: "requested_sums r A P \<Longrightarrow> rd r = total A P (\<lambda>p. rd (pi_Res p))"
begin

lemma requested_value:
  assumes "requested_sums r A P" "within rd alloc A P" "moderate (rd alloc)"
  shows "sint (rd r) = itotal A P (rd \<circ> pi_Res)"
  using summed [OF assms(1)] assms(2,3) by (simp add: total_itotal comp_def within_def moderate_def sint_of_int64 in64_def)

lemma within_add:
  assumes "finite (dom A)" "A k = None" "requested_sums r A P" "within rd alloc A P" "moderate (rd alloc)" "moderate (rd (pi_Res p))"
    and "P p \<Longrightarrow> rd (pi_Res p) = 0 \<or> room (rd alloc) (rd (pi_Res p)) (rd r)"
  shows "within rd alloc (A(k \<mapsto> p)) P"
proof (cases "P p \<and> rd (pi_Res p) \<noteq> 0")
  case True
  have "sint (rd (pi_Res p) + rd r) = sint (rd (pi_Res p)) + sint (rd r)"
    using assms(4-6) requested_value [OF assms(3-5)] by (intro sint_add64) (auto simp: in64_def moderate_def within_def)
  then show ?thesis
    using True assms(4,6,7) itotal_add [OF assms(1,2), of p P "rd \<circ> pi_Res"] requested_value [OF assms(3-5)]
    by (simp add: within_def room_def moderate_def)
next
  case False
  then show ?thesis using assms(4) itotal_add [OF assms(1,2), of p P "rd \<circ> pi_Res"] by (auto simp: within_def)
qed

lemma within_del:
  assumes "finite (dom A)" "A k = Some p" "within rd alloc A P" "\<And>k p. A k = Some p \<Longrightarrow> moderate (rd (pi_Res p))"
  shows "within rd alloc (A(k := None)) P"
proof -
  have "0 \<le> itotal (A(k := None)) P (rd \<circ> pi_Res)"
    unfolding itotal_def using assms(4) by (intro sum_nonneg) (auto simp: moderate_def split: if_splits)
  then show ?thesis
    using itotal_del [OF assms(1,2), of P "rd \<circ> pi_Res"] assms(3) assms(4) [OF assms(2)] by (auto simp: within_def moderate_def)
qed

end

interpretation cpu: dimension r_MilliCPU by unfold_locales (simp add: requested_sums_def)
interpretation memory: dimension r_Memory by unfold_locales (simp add: requested_sums_def)
interpretation ephemeral: dimension r_EphemeralStorage by unfold_locales (simp add: requested_sums_def)
interpretation scalar: dimension "scalar_of name" for name by unfold_locales (simp add: requested_sums_def)

subsection \<open>Host ports of the pods of a node\<close>

fun triples :: "(string \<times> string \<times> int) list \<Rightarrow> (string \<times> ProtocolPort) set" where
  "triples [] = {}"
| "triples ((ip, protocol, port) # xs) = (if 0 < port then insert (triple ip protocol port) (triples xs) else triples xs)"

abbreviation pod_triples :: "v1pod \<Rightarrow> (string \<times> ProtocolPort) set" where "pod_triples pd \<equiv> triples (pod_Ports pd)"

definition clash :: "string \<times> ProtocolPort \<Rightarrow> string \<times> ProtocolPort \<Rightarrow> bool" where
  "clash s t = (snd s = snd t \<and> (fst s = DefaultBindAllHostIP \<or> fst t = DefaultBindAllHostIP \<or> fst s = fst t))"

definition node_triples :: "(key \<rightharpoonup> PodInfo) \<Rightarrow> (string \<times> ProtocolPort) set" where
  "node_triples A = (\<Union>p \<in> ran A. pod_triples (pi_Pod p))"

definition port_op_of :: "bool \<Rightarrow> string \<times> string \<times> int \<Rightarrow> port_op" where
  "port_op_of add x = (case x of (ip, pr, p) \<Rightarrow> if add then AddPort ip pr p else RemovePort ip pr p)"

lemma updateUsedPorts_run: "updateUsedPorts h pd add = fold port_step (map (port_op_of add) (pod_Ports pd)) h"
  unfolding updateUsedPorts_def fold_map
  by (rule arg_cong [where f = "\<lambda>g. fold g (pod_Ports pd) h"]) (auto simp: fun_eq_iff port_op_of_def)

lemma port_spec_run:
  "fold port_spec (map (port_op_of True) xs) U = U \<union> triples xs" "fold port_spec (map (port_op_of False) xs) U = U - triples xs"
  by (induction xs arbitrary: U) (auto simp: port_op_of_def split: if_splits)

lemma updateUsedPorts_used:
  assumes "ports_ok h"
  shows "ports_ok (updateUsedPorts h pd add)"
    "used (updateUsedPorts h pd True) = used h \<union> pod_triples pd" "used (updateUsedPorts h pd False) = used h - pod_triples pd"
  using port_run [OF assms] by (simp_all add: updateUsedPorts_run port_spec_run)

lemma clash_ex:
  "(\<exists>u \<in> U. clash t u) \<longleftrightarrow> (\<exists>i. (i, snd t) \<in> U \<and> (fst t = DefaultBindAllHostIP \<or> i = DefaultBindAllHostIP \<or> i = fst t))"
proof
  assume "\<exists>u \<in> U. clash t u"
  then obtain i s where "(i, s) \<in> U" "clash t (i, s)" by auto
  then show "\<exists>i. (i, snd t) \<in> U \<and> (fst t = DefaultBindAllHostIP \<or> i = DefaultBindAllHostIP \<or> i = fst t)"
    unfolding clash_def by auto
next
  assume "\<exists>i. (i, snd t) \<in> U \<and> (fst t = DefaultBindAllHostIP \<or> i = DefaultBindAllHostIP \<or> i = fst t)"
  then obtain i where "(i, snd t) \<in> U" "clash t (i, snd t)" unfolding clash_def by auto
  then show "\<exists>u \<in> U. clash t u" by blast
qed

lemma Ports_Fits_iff:
  assumes "ports_ok (ni_UsedPorts n)"
  shows "Ports_Fits pd n \<longleftrightarrow> (\<forall>t \<in> pod_triples pd. \<forall>u \<in> used (ni_UsedPorts n). \<not> clash t u)"
proof -
  have "CheckConflict (ni_UsedPorts n) ip pr p \<longleftrightarrow> 0 < p \<and> (\<exists>u \<in> used (ni_UsedPorts n). clash (triple ip pr p) u)" for ip pr p
    unfolding CheckConflict_used [OF assms] clash_ex ..
  then have "FitsPorts xs n \<longleftrightarrow> (\<forall>t \<in> triples xs. \<forall>u \<in> used (ni_UsedPorts n). \<not> clash t u)" for xs
    by (induction xs rule: triples.induct) (auto simp: FitsPorts_def)
  then show ?thesis by (simp add: Ports_Fits_def getContainerPorts_def)
qed

lemma node_update_ports:
  "ni_UsedPorts (node_update cfg n p sg) = updateUsedPorts (ni_UsedPorts n) (pi_Pod p) (0 < sint sg)"
  by (simp add: node_update_def Let_def)

lemma AddPod_ports: "AddPod cfg n pd = Some n' \<Longrightarrow> ni_UsedPorts n' = updateUsedPorts (ni_UsedPorts n) pd True"
  by (auto simp: AddPod_def Let_def node_update_ports split: bind_splits)

lemma RemovePod_ports:
  assumes "node_ok cfg n A" "RemovePod cfg n pd = Some (n', None)"
  shows "\<exists>p. pod_UID pd \<noteq> [] \<and> A (pod_UID pd) = Some p \<and> ni_UsedPorts n' = updateUsedPorts (ni_UsedPorts n) (pi_Pod p) False"
proof -
  have g: "GetPodInfo (ni_PodInfoMaintainer n) k = Some (A k)" for k using assms(1) GetPodInfo_ok unfolding node_ok_def by blast
  show ?thesis
    using assms(2) by (auto simp: RemovePod_def NodeInfo_GetPodKey_def g node_update_ports split: if_splits option.splits bind_splits)
qed

lemma AddPod_offers:
  "AddPod cfg n pd = Some n' \<Longrightarrow>
     ni_GuaranteedAllocatable n' = ni_GuaranteedAllocatable n \<and> ni_BestEffortAllocatable n' = ni_BestEffortAllocatable n"
  by (auto simp: AddPod_def Let_def split: bind_splits)

lemma RemovePod_offers:
  "RemovePod cfg n pd = Some (n', e) \<Longrightarrow>
     ni_GuaranteedAllocatable n' = ni_GuaranteedAllocatable n \<and> ni_BestEffortAllocatable n' = ni_BestEffortAllocatable n"
  by (auto simp: RemovePod_def split: sum.splits option.splits bind_splits)

subsection \<open>Histories of checked pods\<close>

text \<open>The plugins of the binder that check a node.\<close>

definition check_plugins :: "res_cfg \<Rightarrow> quantity_printer \<Rightarrow> string list \<Rightarrow> (string \<times> (v1pod \<Rightarrow> NodeInfoImpl \<Rightarrow> Status option)) list" where
  "check_plugins cfg qs names =
     [(''NodeResourcesCheck'', Fit_CheckConflicts cfg qs names), (''NodePorts'', NodePorts_CheckConflicts)]"

text \<open>A pod whose resource type is legal and whose amounts are not negative and below \<open>2 ^ 62\<close>.\<close>

definition moderate_resource :: "Resource \<Rightarrow> bool" where
  "moderate_resource r =
     (moderate (r_MilliCPU r) \<and> moderate (r_Memory r) \<and> moderate (r_EphemeralStorage r) \<and> (\<forall>name. moderate (scalar_of name r)))"

definition ordinary :: "res_cfg \<Rightarrow> v1pod \<Rightarrow> bool" where
  "ordinary cfg pd = (moderate_resource (pi_Res (NewPodInfo cfg pd)) \<and> pi_PodResourceTypeError (NewPodInfo cfg pd) = None)"

inductive admitted :: "res_cfg \<Rightarrow> quantity_printer \<Rightarrow> NodeInfoImpl \<Rightarrow> (key \<rightharpoonup> PodInfo) \<Rightarrow> bool" for cfg qs where
  new: "node_ok cfg n Map.empty \<Longrightarrow> ni_UsedPorts n = [] \<Longrightarrow> moderate_resource (ni_GuaranteedAllocatable n) \<Longrightarrow>
        moderate_resource (ni_BestEffortAllocatable n) \<Longrightarrow> admitted cfg qs n Map.empty"
| bind: "admitted cfg qs n A \<Longrightarrow> ordinary cfg pd \<Longrightarrow> A (pod_UID pd) = None \<Longrightarrow> scalar_order cfg pd names \<Longrightarrow>
         RunCheckConflictsPlugins (check_plugins cfg qs names) pd n = [] \<Longrightarrow> AddPod cfg n pd = Some n' \<Longrightarrow>
         admitted cfg qs n' (A(pod_UID pd \<mapsto> NewPodInfo cfg pd))"
| unbind: "admitted cfg qs n A \<Longrightarrow> RemovePod cfg n pd = Some (n', None) \<Longrightarrow> admitted cfg qs n' (A(pod_UID pd := None))"

lemma checks_passed:
  assumes "scalar_order cfg pd names"
  shows "RunCheckConflictsPlugins (check_plugins cfg qs names) pd n = [] \<longleftrightarrow>
    resources_fit {} {} (ComputePodResourceRequest cfg pd) n \<and> Ports_Fits pd n"
  using binder_resources.exact [of cfg pd "\<lambda>_. names" qs n] binder_ports.exact [of pd n] assms
  by (auto simp: RunCheckConflictsPlugins_def check_plugins_def Let_def)

definition fits_in :: "Resource \<Rightarrow> (key \<rightharpoonup> PodInfo) \<Rightarrow> (PodInfo \<Rightarrow> bool) \<Rightarrow> bool" where
  "fits_in alloc A P =
     (within r_MilliCPU alloc A P \<and> within r_Memory alloc A P \<and> within r_EphemeralStorage alloc A P \<and>
      (\<forall>name. within (scalar_of name) alloc A P))"

lemma fits_in_add:
  assumes fin: "finite (dom A)" "A k = None" and s: "requested_sums r A P" and i: "fits_in alloc A P"
    and m: "moderate_resource alloc" "moderate_resource (pi_Res p)"
    and ok: "P p \<Longrightarrow> request_fits {} {} req podNumber alloc r" and req: "pr_Resource req = pi_Res p"
  shows "fits_in alloc (A(k \<mapsto> p)) P"
proof -
  have zero: "scalar_of name (pi_Res p) = 0 \<or> room (scalar_of name alloc) (scalar_of name (pi_Res p)) (scalar_of name r)" if "P p" for name
  proof (cases "r_ScalarResources (pi_Res p) name")
    case (Some v)
    have "\<not> ignored {} {} name" by (simp add: ignored_def)
    then show ?thesis using ok [OF that] Some unfolding request_fits_def req Let_def by (metis domI option.distinct(1))
  qed (simp add: scalar_of_def)
  have "r_MilliCPU (pi_Res p) = 0 \<or> room (r_MilliCPU alloc) (r_MilliCPU (pi_Res p)) (r_MilliCPU r)"
    "r_Memory (pi_Res p) = 0 \<or> room (r_Memory alloc) (r_Memory (pi_Res p)) (r_Memory r)"
    "r_EphemeralStorage (pi_Res p) = 0 \<or> room (r_EphemeralStorage alloc) (r_EphemeralStorage (pi_Res p)) (r_EphemeralStorage r)" if "P p"
    using ok [OF that] unfolding request_fits_def req Let_def by blast+
  then show ?thesis
    using i m zero unfolding fits_in_def moderate_resource_def
    by (simp add: cpu.within_add [OF fin s] memory.within_add [OF fin s] ephemeral.within_add [OF fin s] scalar.within_add [OF fin s])
qed

lemma fits_in_del:
  assumes "finite (dom A)" "A k = Some p" "fits_in alloc A P" "\<forall>k p. A k = Some p \<longrightarrow> moderate_resource (pi_Res p)"
  shows "fits_in alloc (A(k := None)) P"
  using assms(3,4) cpu.within_del [OF assms(1,2)] memory.within_del [OF assms(1,2)] ephemeral.within_del [OF assms(1,2)]
    scalar.within_del [OF assms(1,2)]
  unfolding fits_in_def moderate_resource_def by blast

definition limited :: "PodInfo \<Rightarrow> bool" where
  "limited p = (\<not> IgnorePodsLimit (Some (pod.truncate (pi_Pod p))))"

definition limited_pods :: "(key \<rightharpoonup> PodInfo) \<Rightarrow> int" where
  "limited_pods A = int (card {k. \<exists>p. A k = Some p \<and> limited p})"

definition pod_limit :: "NodeInfoImpl \<Rightarrow> int" where
  "pod_limit n = max 0 (max (sint (r_AllowedPodNumber (ni_GuaranteedAllocatable n))) (sint (r_AllowedPodNumber (ni_BestEffortAllocatable n))))"

definition disjoint_ports :: "(key \<rightharpoonup> PodInfo) \<Rightarrow> bool" where
  "disjoint_ports A =
     (\<forall>j k p q. j \<noteq> k \<longrightarrow> A j = Some p \<longrightarrow> A k = Some q \<longrightarrow>
        (\<forall>t \<in> pod_triples (pi_Pod p). \<forall>u \<in> pod_triples (pi_Pod q). \<not> clash t u))"

definition admitted_inv :: "res_cfg \<Rightarrow> NodeInfoImpl \<Rightarrow> (key \<rightharpoonup> PodInfo) \<Rightarrow> bool" where
  "admitted_inv cfg n A =
     (node_ok cfg n A \<and> moderate_resource (ni_GuaranteedAllocatable n) \<and> moderate_resource (ni_BestEffortAllocatable n) \<and>
      (\<forall>k p. A k = Some p \<longrightarrow> moderate_resource (pi_Res p)) \<and>
      fits_in (ni_GuaranteedAllocatable n) A (\<lambda>p. \<not> best_effort p) \<and> fits_in (ni_BestEffortAllocatable n) A best_effort \<and>
      limited_pods A \<le> pod_limit n \<and>
      ports_ok (ni_UsedPorts n) \<and> used (ni_UsedPorts n) = node_triples A \<and> disjoint_ports A)"

lemma fits_in_empty: "moderate_resource alloc \<Longrightarrow> fits_in alloc Map.empty P"
  by (simp add: fits_in_def within_def itotal_def moderate_resource_def moderate_def)

lemma admitted_new:
  assumes "node_ok cfg n Map.empty" "ni_UsedPorts n = []" "moderate_resource (ni_GuaranteedAllocatable n)"
    "moderate_resource (ni_BestEffortAllocatable n)"
  shows "admitted_inv cfg n Map.empty"
  using assms by (simp add: admitted_inv_def fits_in_empty limited_pods_def pod_limit_def ports_ok_def used_def node_triples_def disjoint_ports_def)

lemma node_triples_add: "A k = None \<Longrightarrow> node_triples (A(k \<mapsto> p)) = node_triples A \<union> pod_triples (pi_Pod p)"
  by (auto simp: node_triples_def)

lemma clash_refl [simp]: "clash t t" and clash_sym: "clash t u = clash u t" by (auto simp: clash_def)

lemma node_triples_del:
  assumes "disjoint_ports A" "A k = Some p"
  shows "node_triples (A(k := None)) = node_triples A - pod_triples (pi_Pod p)"
proof (intro set_eqI iffI)
  fix t
  assume "t \<in> node_triples (A(k := None))"
  then obtain j q where q: "j \<noteq> k" "A j = Some q" "t \<in> pod_triples (pi_Pod q)" by (auto simp: node_triples_def ran_def split: if_splits)
  then have "t \<notin> pod_triples (pi_Pod p)" using assms clash_refl unfolding disjoint_ports_def by blast
  then show "t \<in> node_triples A - pod_triples (pi_Pod p)" using q by (auto simp: node_triples_def ran_def)
next
  fix t
  assume t: "t \<in> node_triples A - pod_triples (pi_Pod p)"
  then obtain j q where q: "A j = Some q" "t \<in> pod_triples (pi_Pod q)" by (auto simp: node_triples_def ran_def)
  then have "j \<noteq> k" using t assms(2) by auto
  then show "t \<in> node_triples (A(k := None))" using q by (auto simp: node_triples_def ran_def)
qed

lemma limited_pods_add:
  assumes "finite (dom A)" "A k = None"
  shows "limited_pods (A(k \<mapsto> p)) = limited_pods A + (if limited p then 1 else 0)" "limited_pods A \<le> int (card (dom A))"
proof -
  have "{j. \<exists>q. (A(k \<mapsto> p)) j = Some q \<and> limited q} = (if limited p then insert k {j. \<exists>q. A j = Some q \<and> limited q} else {j. \<exists>q. A j = Some q \<and> limited q})"
    using assms(2) by (auto split: if_splits)
  then show "limited_pods (A(k \<mapsto> p)) = limited_pods A + (if limited p then 1 else 0)"
    using total_finite [OF assms(1), of limited] assms(2) by (simp add: limited_pods_def)
  show "limited_pods A \<le> int (card (dom A))" unfolding limited_pods_def using assms(1) by (auto intro!: card_mono)
qed

lemma limited_pods_del: "finite (dom A) \<Longrightarrow> limited_pods (A(k := None)) \<le> limited_pods A"
  unfolding limited_pods_def using total_finite [of A limited] by (auto intro!: card_mono split: if_splits)

lemma admitted_unbind:
  assumes i: "admitted_inv cfg n A" and rm: "RemovePod cfg n pd = Some (n', None)"
  shows "admitted_inv cfg n' (A(pod_UID pd := None))"
proof -
  have ok: "node_ok cfg n A" using i by (simp add: admitted_inv_def)
  have fin: "finite (dom A)" using ok by (simp add: node_ok_def)
  obtain p where p: "pod_UID pd \<noteq> []" "A (pod_UID pd) = Some p" "ni_UsedPorts n' = updateUsedPorts (ni_UsedPorts n) (pi_Pod p) False"
    using RemovePod_ports [OF ok rm] by blast
  have ok': "node_ok cfg n' (A(pod_UID pd := None))" using RemovePod_present [OF ok p(2,1)] rm by auto
  note o = RemovePod_offers [OF rm]
  have "disjoint_ports (A(pod_UID pd := None))" using i unfolding admitted_inv_def disjoint_ports_def by auto
  moreover have "fits_in (ni_GuaranteedAllocatable n) (A(pod_UID pd := None)) (\<lambda>p. \<not> best_effort p)"
      "fits_in (ni_BestEffortAllocatable n) (A(pod_UID pd := None)) best_effort"
    using i fits_in_del [OF fin p(2)] by (auto simp: admitted_inv_def)
  moreover have "limited_pods (A(pod_UID pd := None)) \<le> pod_limit n'"
    using i limited_pods_del [OF fin, of "pod_UID pd"] o by (simp add: admitted_inv_def pod_limit_def)
  ultimately show ?thesis
    using i ok' o p(3) updateUsedPorts_used [of "ni_UsedPorts n" "pi_Pod p"] node_triples_del [of A "pod_UID pd" p] p(2)
    by (auto simp: admitted_inv_def)
qed

lemma bind_fits:
  assumes fit: "resources_fit {} {} (ComputePodResourceRequest cfg pd) n" and legal: "pi_PodResourceTypeError (NewPodInfo cfg pd) = None"
  shows "\<not> best_effort (NewPodInfo cfg pd) \<Longrightarrow>
      request_fits {} {} (ComputePodResourceRequest cfg pd) (NumPods n) (ni_GuaranteedAllocatable n) (ni_GuaranteedRequested n)"
    "best_effort (NewPodInfo cfg pd) \<Longrightarrow>
      request_fits {} {} (ComputePodResourceRequest cfg pd) (NumPods n) (ni_BestEffortAllocatable n) (ni_BestEffortRequested n)"
  using fit NewPodInfo_legal [OF legal] by (simp_all add: resources_fit_def request_type guaranteed_def best_effort_def)

lemma request_fits_limit:
  assumes "request_fits ign grp (ComputePodResourceRequest cfg pd) podNumber alloc r" "limited (NewPodInfo cfg pd)"
  shows "podNumber < sint (r_AllowedPodNumber alloc)"
proof -
  have "pr_IgnorePodsLimit (ComputePodResourceRequest cfg pd) = IgnorePodsLimit (Some (pod.truncate pd))"
    by (simp add: ComputePodResourceRequest_def Let_def)
  then show ?thesis using assms by (simp add: request_fits_def limited_def)
qed

lemma admitted_bind:
  assumes i: "admitted_inv cfg n A" and ord: "ordinary cfg pd" and new: "A (pod_UID pd) = None" and names: "scalar_order cfg pd names"
    and pass: "RunCheckConflictsPlugins (check_plugins cfg qs names) pd n = []" and add: "AddPod cfg n pd = Some n'"
  shows "admitted_inv cfg n' (A(pod_UID pd \<mapsto> NewPodInfo cfg pd))"
proof -
  let ?p = "NewPodInfo cfg pd" and ?A = "A(pod_UID pd \<mapsto> NewPodInfo cfg pd)"
  have ok: "node_ok cfg n A" and fin: "finite (dom A)" and sums: "node_sums cfg n A" using i by (auto simp: admitted_inv_def node_ok_def)
  have ok': "node_ok cfg n' ?A" using AddPod_ok [OF ok new] add by auto
  note o = AddPod_offers [OF add]
  have c: "resources_fit {} {} (ComputePodResourceRequest cfg pd) n" "Ports_Fits pd n" using checks_passed [OF names] pass by blast+
  have m: "moderate_resource (pi_Res ?p)" and legal: "pi_PodResourceTypeError ?p = None" using ord by (auto simp: ordinary_def)
  note fit = bind_fits [OF c(1) legal]
  have "fits_in (ni_GuaranteedAllocatable n) ?A (\<lambda>p. \<not> best_effort p)" "fits_in (ni_BestEffortAllocatable n) ?A best_effort"
    using i sums m fit
    by (auto simp: admitted_inv_def node_sums_def intro!: fits_in_add [OF fin new _ _ _ _ _ request_resource])
  moreover have "limited_pods ?A \<le> pod_limit n"
  proof (cases "limited ?p")
    case True
    have "NumPods n + 1 \<le> pod_limit n" using fit request_fits_limit [OF _ True] by (fastforce simp: pod_limit_def)
    then show ?thesis using limited_pods_add(1) [OF fin new, of ?p] limited_pods_add(2) [OF fin new] NumPods_card [OF ok] True by simp
  next
    case False
    then show ?thesis using limited_pods_add(1) [OF fin new, of ?p] i by (simp add: admitted_inv_def)
  qed
  moreover have ports: "ports_ok (ni_UsedPorts n)" "used (ni_UsedPorts n) = node_triples A" using i by (auto simp: admitted_inv_def)
  moreover have "disjoint_ports ?A"
  proof -
    have far: "\<not> clash t u" if "t \<in> pod_triples pd" "A k = Some q" "u \<in> pod_triples (pi_Pod q)" for t u k q
      using c(2) that ports(2) unfolding Ports_Fits_iff [OF ports(1)] by (auto simp: node_triples_def ran_def)
    then have far': "\<not> clash u t" if "t \<in> pod_triples pd" "A k = Some q" "u \<in> pod_triples (pi_Pod q)" for t u k q
      using that clash_sym by blast
    show ?thesis using i far far' unfolding admitted_inv_def disjoint_ports_def by (auto split: if_splits)
  qed
  ultimately show ?thesis
    using i ok' o m AddPod_ports [OF add] updateUsedPorts_used [OF ports(1), of pd] node_triples_add [of A "pod_UID pd" ?p, OF new]
    by (auto simp: admitted_inv_def pod_limit_def)
qed

lemma admitted_invariant: "admitted cfg qs n A \<Longrightarrow> admitted_inv cfg n A"
  by (induction rule: admitted.induct) (blast intro: admitted_new admitted_bind admitted_unbind)+

subsection \<open>Properties\<close>

text \<open>
  C31. No overcommitment. On a node whose pods all passed the checks of the binder before they were added, whatever was
  added and removed in between, the pods of each resource type together ask for no more CPU, memory, ephemeral storage and
  no more of any other resource than the node offers to that type, as true sums and not only modulo 64 bits; and the
  pods that do not ignore the limit are no more than the number of pods the node allows. The conditions: every pod added has a
  new UID and a legal resource type, the amounts of pods and node are not negative and below \<open>2 ^ 62\<close> (beyond that the
  sums of the check can wrap, as \<open>overflow_passes_check\<close> shows), and what the node offers does not change meanwhile.
\<close>

theorem no_overcommit:
  assumes "admitted cfg qs n A"
  shows "(\<forall>(alloc, P) \<in> {(ni_GuaranteedAllocatable n, \<lambda>p. \<not> best_effort p), (ni_BestEffortAllocatable n, best_effort)}.
      itotal A P (\<lambda>p. r_MilliCPU (pi_Res p)) \<le> sint (r_MilliCPU alloc) \<and>
      itotal A P (\<lambda>p. r_Memory (pi_Res p)) \<le> sint (r_Memory alloc) \<and>
      itotal A P (\<lambda>p. r_EphemeralStorage (pi_Res p)) \<le> sint (r_EphemeralStorage alloc) \<and>
      (\<forall>name. itotal A P (\<lambda>p. scalar_of name (pi_Res p)) \<le> sint (scalar_of name alloc))) \<and>
    limited_pods A \<le> pod_limit n"
  using admitted_invariant [OF assms] by (simp add: admitted_inv_def fits_in_def within_def comp_def)

definition node_example :: v1node where
  "node_example =
     \<lparr>node_Name = ''n1'', node_Labels = Map.empty, node_Annotations = Map.empty,
      node_Allocatable = [''cpu'' \<mapsto> 4000, ''memory'' \<mapsto> 64000, ''pods'' \<mapsto> 10000], node_Capacity = Map.empty, node_Taints = [],
      node_Unschedulable = False\<rparr>"

lemma node_example_offers:
  "ni_GuaranteedAllocatable (SetNode cfg_example empty_node node_example) =
     \<lparr>r_MilliCPU = 4000, r_Memory = 64, r_EphemeralStorage = 0, r_AllowedPodNumber = 10, r_ScalarResources = Map.empty\<rparr>"
  "ni_BestEffortAllocatable (SetNode cfg_example empty_node node_example) = zero_Resource"
  by (auto simp: SetNode_def setGuaranteedAllocatableResource_def setGuaranteedCapacityResource_def empty_node_def node_example_def
      NewResource_def Resource_Add_def add_signed_def zero_Resource_def rl_milli_def rl_value_def quantity_Value_def native_names_def
      cfg_example_def lookup0_def fun_eq_iff split: if_splits)

lemma v1pod_example_request:
  "pi_Res (NewPodInfo cfg_example v1pod_example) =
     \<lparr>r_MilliCPU = 950, r_Memory = 7, r_EphemeralStorage = 0, r_AllowedPodNumber = 0, r_ScalarResources = Map.empty\<rparr>"
  by (auto simp: NewPodInfo_def CalculateResource_def calc_container_def calc_init_def calc_overhead_def v1pod_example_def cfg_example_def
      Resource_Add_def add_signed_def SetMaxResource_def set_extreme_def pick_def zero_Resource_def rl_milli_def rl_value_def
      quantity_Value_def native_names_def lookup0_def GetNonzeroRequests_def fun_eq_iff split: if_splits)

lemma v1pod_example_type: "GetPodResourceType (pod.truncate v1pod_example) = Inr GuaranteedPod"
  by (simp add: GetPodResourceType_def v1pod_example_def pod.defs ann_has_def Let_def)

lemma v1pod_example_info:
  "pi_PodResourceTypeError (NewPodInfo cfg_example v1pod_example) = None" "\<not> best_effort (NewPodInfo cfg_example v1pod_example)"
  "IgnorePodsLimit (Some (pod.truncate v1pod_example)) = False" "pod_UID v1pod_example = ''u1''"
  using v1pod_example_type
  by (simp_all add: NewPodInfo_def best_effort_def GuaranteedPod_def BestEffortPod_def split: prod.splits)
    (simp_all add: IgnorePodsLimit_def v1pod_example_def pod.defs ann_has_def)

lemma example_admitted:
  "\<exists>n. admitted cfg_example (\<lambda>f w. []) n [''u1'' \<mapsto> NewPodInfo cfg_example v1pod_example] \<and>
       ni_GuaranteedAllocatable n = ni_GuaranteedAllocatable (SetNode cfg_example empty_node node_example) \<and>
       ni_BestEffortAllocatable n = zero_Resource"
proof -
  let ?n = "SetNode cfg_example empty_node node_example"
  have ok: "node_ok cfg_example ?n Map.empty" using set_node_ok(1) [OF empty_node_ok] .
  have ports: "ni_UsedPorts ?n = []"
    by (simp add: SetNode_def setGuaranteedAllocatableResource_def setGuaranteedCapacityResource_def empty_node_def)
  have start: "admitted cfg_example (\<lambda>f w. []) ?n Map.empty"
    using ok ports
    by (intro admitted.new) (simp_all add: node_example_offers zero_Resource_def moderate_resource_def moderate_def scalar_of_def lookup0_def)
  have names: "scalar_order cfg_example v1pod_example []" by (simp add: scalar_order_def request_resource v1pod_example_request)
  have req: "ni_GuaranteedRequested ?n = zero_Resource"
    by (simp add: SetNode_def setGuaranteedAllocatableResource_def setGuaranteedCapacityResource_def empty_node_def)
  have "NumPods ?n = 0" using NumPods_card [OF ok] by simp
  then have "resources_fit {} {} (ComputePodResourceRequest cfg_example v1pod_example) ?n"
    using v1pod_example_type
    by (simp add: resources_fit_def request_type request_fits_def request_resource v1pod_example_request node_example_offers req room_def
        zero_Resource_def) (simp add: NewPodInfo_def GuaranteedPod_def BestEffortPod_def split: prod.splits)
  moreover have "Ports_Fits v1pod_example ?n" by (simp add: Ports_Fits_def FitsPorts_def getContainerPorts_def ports CheckConflict_def list_all_iff)
  ultimately have pass: "RunCheckConflictsPlugins (check_plugins cfg_example (\<lambda>f w. []) []) v1pod_example ?n = []"
    using checks_passed [OF names] by blast
  have ord: "ordinary cfg_example v1pod_example"
    by (simp add: ordinary_def v1pod_example_request v1pod_example_info moderate_resource_def moderate_def scalar_of_def)
  obtain n' where n': "AddPod cfg_example ?n v1pod_example = Some n'" using AddPod_ok [OF ok, of v1pod_example] by auto
  have "admitted cfg_example (\<lambda>f w. []) n' (Map.empty(pod_UID v1pod_example \<mapsto> NewPodInfo cfg_example v1pod_example))"
    by (rule admitted.bind [OF start ord _ names pass n']) simp
  then show ?thesis using AddPod_offers [OF n'] node_example_offers(2) by (auto simp: v1pod_example_info)
qed

theorem no_overcommit_witness:
  "\<exists>n A. admitted cfg_example (\<lambda>f w. []) n A \<and> dom A = {''u1''} \<and>
     itotal A (\<lambda>p. \<not> best_effort p) (\<lambda>p. r_MilliCPU (pi_Res p)) \<le> 4000 \<and> limited_pods A \<le> 10"
proof -
  obtain n where n: "admitted cfg_example (\<lambda>f w. []) n [''u1'' \<mapsto> NewPodInfo cfg_example v1pod_example]"
      "ni_GuaranteedAllocatable n = ni_GuaranteedAllocatable (SetNode cfg_example empty_node node_example)"
      "ni_BestEffortAllocatable n = zero_Resource"
    using example_admitted by blast
  show ?thesis
    using no_overcommit [OF n(1)] n by (intro exI [of _ n] exI [of _ "[''u1'' \<mapsto> NewPodInfo cfg_example v1pod_example]"])
      (simp add: node_example_offers pod_limit_def zero_Resource_def)
qed

text \<open>
  C32. No port conflict. On such a node no two pods claim the same host port: no triples of address, protocol and port of two
  different pods clash, where the wildcard address clashes with every address; and the ports the node records are exactly
  those of its pods, so the removal of a pod never frees a port another pod holds.
\<close>

theorem admitted_ports_disjoint:
  assumes "admitted cfg qs n A"
  shows "used (ni_UsedPorts n) = (\<Union>p \<in> ran A. pod_triples (pi_Pod p)) \<and>
    (\<forall>j k p q. j \<noteq> k \<longrightarrow> A j = Some p \<longrightarrow> A k = Some q \<longrightarrow>
       (\<forall>t \<in> pod_triples (pi_Pod p). \<forall>u \<in> pod_triples (pi_Pod q). \<not> clash t u))"
proof -
  have "used (ni_UsedPorts n) = node_triples A" "disjoint_ports A" using admitted_invariant [OF assms] by (simp_all add: admitted_inv_def)
  then show ?thesis unfolding disjoint_ports_def node_triples_def ..
qed

theorem admitted_ports_disjoint_witness:
  "\<exists>n A. admitted cfg_example (\<lambda>f w. []) n A \<and> used (ni_UsedPorts n) = {triple ''10.0.0.1'' [] 80}"
proof -
  obtain n where n: "admitted cfg_example (\<lambda>f w. []) n [''u1'' \<mapsto> NewPodInfo cfg_example v1pod_example]"
    using example_admitted by blast
  show ?thesis
    using admitted_ports_disjoint [OF n] n
    by (intro exI [of _ n] exI [of _ "[''u1'' \<mapsto> NewPodInfo cfg_example v1pod_example]"]) (simp add: v1pod_example_def)
qed

text \<open>The bound of the amounts is needed: the sum the check forms wraps, and a pod that asks for the largest amount of memory
  passes on a node of 64 bytes as soon as one byte is requested there.\<close>

lemma overflow_passes_check:
  "fitsRequestCore qs [] \<lparr>pr_Resource = zero_Resource\<lparr>r_Memory := 2 ^ 63 - 1\<rparr>, pr_ResourceType = GuaranteedPod, pr_IgnorePodsLimit = False, pr_Err = None\<rparr>
     1 (zero_Resource\<lparr>r_Memory := 64, r_AllowedPodNumber := 10\<rparr>) (zero_Resource\<lparr>r_Memory := 1\<rparr>) {} {} = None \<and>
   fitsRequestCore qs [] \<lparr>pr_Resource = zero_Resource\<lparr>r_Memory := 2 ^ 63 - 1\<rparr>, pr_ResourceType = GuaranteedPod, pr_IgnorePodsLimit = False, pr_Err = None\<rparr>
     0 (zero_Resource\<lparr>r_Memory := 64, r_AllowedPodNumber := 10\<rparr>) zero_Resource {} {} \<noteq> None"
  by (simp add: fitsRequestCore_def zero_Resource_def Let_def)

end
