(* ===== verification/Feasible_Nodes.thy ===== *)
theory Feasible_Nodes
  imports Plugin_Framework
begin

section \<open>The parallel search for feasible nodes (pkg/scheduler/core/pod_scheduler/pod_scheduler.go)\<close>

text \<open>
  \<^verbatim>\<open>findFeasibleNodes\<close> checks the nodes with parallel workers. A worker whose node fits increments an atomic counter; the value
  it gets is its slot of the result, or, where it exceeds the number of nodes wanted, makes it cancel the search and
  decrement the counter again. Between any two atomic actions of a worker the others may run. The model is a step relation
  over the state the workers share and the position of each of them; \<^verbatim>\<open>ParallelizeUntil\<close> may start a piece of work at
  any time, and leaves pieces out only after a cancellation.

  The counter is an integer here: it never exceeds the number of nodes, which the code keeps in an \<^verbatim>\<open>int32\<close>.

  The property: in every interleaving the result slice has no empty slot and lists different nodes that fit, no
  more than wanted, and all of them where nothing was cancelled.
\<close>

subsection \<open>How many nodes to look for\<close>

record scheduler_cfg =
  sc_percentageOfNodesToScore :: "32 word"
  sc_increasedPercentageOfNodesToScore :: "32 word"

record UnitSchedulingRequest =
  usr_EverScheduled :: bool
  usr_AllMember :: int

text \<open>The division of Go truncates towards zero; the product may wrap.\<close>

definition go_div :: "int \<Rightarrow> int \<Rightarrow> int" where
  "go_div a b = (if 0 \<le> a then a div b else - ((- a) div b))"

definition getNumberOfFeasibleNodesToFind :: "32 word \<Rightarrow> 32 word \<Rightarrow> 32 word" where
  "getNumberOfFeasibleNodesToFind percentage numAllNodes =
     (if sint percentage \<ge> 100 then numAllNodes
      else
        (let expectedNodeCount = of_int (go_div (sint (numAllNodes * percentage)) 100) in
         if expectedNodeCount = (0 :: 32 word) then 1 else expectedNodeCount))"

definition numFeasibleNodesToFind :: "scheduler_cfg \<Rightarrow> 32 word \<Rightarrow> bool \<Rightarrow> UnitSchedulingRequest \<Rightarrow> bool \<Rightarrow> 32 word" where
  "numFeasibleNodesToFind gs numAllNodes longRunningTask usr increasePercentageOfNodesToScore =
     (if increasePercentageOfNodesToScore \<and> sc_increasedPercentageOfNodesToScore gs \<noteq> 0
      then getNumberOfFeasibleNodesToFind (sc_increasedPercentageOfNodesToScore gs) numAllNodes
      else if sc_percentageOfNodesToScore gs \<noteq> 0 then getNumberOfFeasibleNodesToFind (sc_percentageOfNodesToScore gs) numAllNodes
      else
        (let expectedNodeCount =
               (if (usr_AllMember usr > 1 \<and> \<not> usr_EverScheduled usr) \<or> longRunningTask
                then of_int (usr_AllMember usr + 50) else of_int (usr_AllMember usr + 10))
         in if sint expectedNodeCount > sint numAllNodes then numAllNodes else expectedNodeCount))"

lemma numFeasibleNodesToFind_bounds:
  assumes size: "0 < sint numAllNodes" "sint numAllNodes * 100 < 2 ^ 31"
    and pct: "0 \<le> sint (sc_percentageOfNodesToScore gs)" "0 \<le> sint (sc_increasedPercentageOfNodesToScore gs)"
    and mem: "0 < usr_AllMember usr" "usr_AllMember usr < 2 ^ 30"
  shows "0 < sint (numFeasibleNodesToFind gs numAllNodes l usr b) \<and> sint (numFeasibleNodesToFind gs numAllNodes l usr b) \<le> sint numAllNodes"
proof -
  have small: "sint (of_int x :: 32 word) = x" if "- (2 ^ 31) \<le> x" "x < 2 ^ 31" for x
    using that by (simp add: signed_of_int signed_take_bit_int_eq_self)
  have g: "0 < sint (getNumberOfFeasibleNodesToFind p numAllNodes) \<and> sint (getNumberOfFeasibleNodesToFind p numAllNodes) \<le> sint numAllNodes"
    if p: "0 \<le> sint p" for p :: "32 word"
  proof (cases "sint p \<ge> 100")
    case False
    have "of_int (sint numAllNodes * sint p) = numAllNodes * p" by (simp add: of_int_sint)
    moreover have "sint numAllNodes * sint p \<le> sint numAllNodes * 100" "0 \<le> sint numAllNodes * sint p"
      using False p size(1) by (simp_all add: mult_left_mono)
    ultimately have m: "sint (numAllNodes * p) = sint numAllNodes * sint p" using small [of "sint numAllNodes * sint p"] size(2) by simp
    define e where "e = sint numAllNodes * sint p div 100"
    have "e \<le> sint numAllNodes * 100 div 100" unfolding e_def using False size(1) by (intro zdiv_mono1) simp_all
    then have e: "0 \<le> e" "e \<le> sint numAllNodes" using p size(1) by (simp_all add: e_def pos_imp_zdiv_nonneg_iff)
    have "sint (of_int e :: 32 word) = e" using small [of e] e size(2) by simp
    then show ?thesis
      using False e size(1) p m by (cases "e = 0") (auto simp: getNumberOfFeasibleNodesToFind_def go_div_def Let_def e_def [symmetric])
  qed (use size(1) in \<open>simp add: getNumberOfFeasibleNodesToFind_def\<close>)
  have "sint (of_int (usr_AllMember usr + 10) :: 32 word) = usr_AllMember usr + 10"
      "sint (of_int (usr_AllMember usr + 50) :: 32 word) = usr_AllMember usr + 50"
    by (rule small; use mem in simp)+
  then show ?thesis using g pct mem size(1) by (auto simp: numFeasibleNodesToFind_def Let_def)
qed

subsection \<open>The workers\<close>

text \<open>What the check of a node finds: it fits, it does not with a status, or the check fails with an error. A success kept from an
  earlier pod saves the filters; \<open>run n\<close> is what they return on the node \<open>n\<close>, in the order in which it is merged.\<close>

datatype check_outcome = Fits | Rejected "Status option" | Failed string

definition checkNode :: "(string \<rightharpoonup> Status option) \<Rightarrow> (NodeInfoImpl \<Rightarrow> PluginToStatus) \<Rightarrow> NodeInfoImpl list \<Rightarrow> nat \<Rightarrow> nat \<Rightarrow> check_outcome" where
  "checkNode cachedStatuses run nodes startNodeIndex i =
     (let nodeInfo = nodes ! ((startNodeIndex + i) mod length nodes) in
      if (case cachedStatuses (getNodeName nodeInfo) of None \<Rightarrow> False | Some cachedStatus \<Rightarrow> IsSuccess cachedStatus) then Fits
      else
        (case PodPassesFiltersOnNode (run nodeInfo) of (fit, status, err) \<Rightarrow>
           (case err of Some e \<Rightarrow> Failed e | None \<Rightarrow> if fit then Fits else Rejected status)))"

text \<open>The position of the worker of a piece: before the check, holding the value of the counter, over the limit after the cancellation
  and before the decrement, or at the end.\<close>

datatype phase = Waiting | Counted int | Cancelling | Finished

record search =
  s_feasibleNodesLen :: int
  s_feasibleNodes :: "nat option list"
  s_statuses :: "nat \<rightharpoonup> Status option"
  s_cancelled :: bool
  s_outer :: bool
  s_err :: "string option"
  s_phase :: "nat \<Rightarrow> phase"

definition search_start :: "nat \<Rightarrow> search" where
  "search_start numNodesToFind =
     \<lparr>s_feasibleNodesLen = 0, s_feasibleNodes = replicate numNodesToFind None, s_statuses = Map.empty, s_cancelled = False,
      s_outer = False, s_err = None, s_phase = (\<lambda>i. Waiting)\<rparr>"

definition move :: "search \<Rightarrow> nat \<Rightarrow> phase \<Rightarrow> search" where
  "move s i ph = s\<lparr>s_phase := (s_phase s)(i := ph)\<rparr>"

text \<open>The actions of the worker of piece \<open>i\<close>. The status of a rejected node is recorded where it is not a success; of the errors the
  first one sent is kept. The statuses are written under a mutex and the error is sent on a buffered channel with a \<^verbatim>\<open>default\<close> branch, so
  neither can block and each is one action. \<open>Waiting\<close> is a piece that has not yet counted itself, started or not. The context of the
  caller may be cancelled at any time.\<close>

inductive search_step :: "nat \<Rightarrow> nat \<Rightarrow> (nat \<Rightarrow> check_outcome) \<Rightarrow> search \<Rightarrow> search \<Rightarrow> bool" for num pieces check where
  count: "i < pieces \<Longrightarrow> s_phase s i = Waiting \<Longrightarrow> check i = Fits \<Longrightarrow>
    search_step num pieces check s
      (move (s\<lparr>s_feasibleNodesLen := s_feasibleNodesLen s + 1\<rparr>) i (Counted (s_feasibleNodesLen s + 1)))"
| store: "i < pieces \<Longrightarrow> s_phase s i = Counted l \<Longrightarrow> l \<le> int num \<Longrightarrow>
    search_step num pieces check s
      (move (s\<lparr>s_feasibleNodes := (s_feasibleNodes s)[nat (l - 1) := Some i]\<rparr>) i Finished)"
| cancel: "i < pieces \<Longrightarrow> s_phase s i = Counted l \<Longrightarrow> l > int num \<Longrightarrow>
    search_step num pieces check s (move (s\<lparr>s_cancelled := True\<rparr>) i Cancelling)"
| uncount: "i < pieces \<Longrightarrow> s_phase s i = Cancelling \<Longrightarrow>
    search_step num pieces check s (move (s\<lparr>s_feasibleNodesLen := s_feasibleNodesLen s - 1\<rparr>) i Finished)"
| reject: "i < pieces \<Longrightarrow> s_phase s i = Waiting \<Longrightarrow> check i = Rejected status \<Longrightarrow>
    search_step num pieces check s
      (move (if \<not> IsSuccess status then s\<lparr>s_statuses := (s_statuses s)(i \<mapsto> status)\<rparr> else s) i Finished)"
| fail: "i < pieces \<Longrightarrow> s_phase s i = Waiting \<Longrightarrow> check i = Failed e \<Longrightarrow>
    search_step num pieces check s
      (move (s\<lparr>s_err := (case s_err s of None \<Rightarrow> Some e | Some e' \<Rightarrow> Some e'), s_cancelled := True\<rparr>) i Finished)"
| outer: "\<not> s_outer s \<Longrightarrow> search_step num pieces check s (s\<lparr>s_outer := True, s_cancelled := True\<rparr>)"

inductive searching :: "nat \<Rightarrow> nat \<Rightarrow> (nat \<Rightarrow> check_outcome) \<Rightarrow> search \<Rightarrow> bool" for num pieces check where
  init: "searching num pieces check (search_start num)"
| step: "searching num pieces check s \<Longrightarrow> search_step num pieces check s s' \<Longrightarrow> searching num pieces check s'"

text \<open>\<^verbatim>\<open>ParallelizeUntil\<close> returns when every piece is done, or, after a cancellation, when those that were started are.\<close>

definition search_done :: "nat \<Rightarrow> search \<Rightarrow> bool" where
  "search_done pieces s =
     ((\<forall>i < pieces. s_phase s i = Finished \<or> s_phase s i = Waiting) \<and> (\<not> s_cancelled s \<longrightarrow> (\<forall>i < pieces. s_phase s i = Finished)))"

text \<open>What the function returns, an empty slot is a nil node: the error received, or the slice of the nodes found.\<close>

definition search_result :: "search \<Rightarrow> nat option list" where
  "search_result s = take (nat (s_feasibleNodesLen s)) (s_feasibleNodes s)"

definition search_return :: "search \<Rightarrow> string + nat option list" where
  "search_return s = (case s_err s of Some e \<Rightarrow> Inl e | None \<Rightarrow> Inr (search_result s))"

subsection \<open>The invariant of the search\<close>

text \<open>The workers that hold a slot, those over the limit, and the slots in use.\<close>

definition holders :: "nat \<Rightarrow> nat \<Rightarrow> search \<Rightarrow> nat set" where
  "holders num pieces s = {i. i < pieces \<and> (\<exists>l. s_phase s i = Counted l \<and> l \<le> int num)}"

definition over :: "nat \<Rightarrow> nat \<Rightarrow> search \<Rightarrow> nat set" where
  "over num pieces s = {i. i < pieces \<and> ((\<exists>l. s_phase s i = Counted l \<and> l > int num) \<or> s_phase s i = Cancelling)}"

definition stored :: "search \<Rightarrow> nat set" where
  "stored s = {j. j < length (s_feasibleNodes s) \<and> s_feasibleNodes s ! j \<noteq> None}"

definition slot_of :: "search \<Rightarrow> nat \<Rightarrow> nat" where
  "slot_of s i = (case s_phase s i of Counted l \<Rightarrow> nat (l - 1) | _ \<Rightarrow> 0)"

text \<open>The slots from 0 to \<open>m\<close> are the stored ones and those held, each held by one worker; \<open>m\<close> is full where a worker is over.\<close>

definition search_inv :: "nat \<Rightarrow> nat \<Rightarrow> (nat \<Rightarrow> check_outcome) \<Rightarrow> search \<Rightarrow> nat \<Rightarrow> bool" where
  "search_inv num pieces check s m =
     (m \<le> num \<and> length (s_feasibleNodes s) = num \<and>
      s_feasibleNodesLen s = int m + int (card (over num pieces s)) \<and> (over num pieces s \<noteq> {} \<longrightarrow> m = num) \<and>
      stored s \<union> slot_of s ` holders num pieces s = {..<m} \<and> stored s \<inter> slot_of s ` holders num pieces s = {} \<and>
      inj_on (slot_of s) (holders num pieces s) \<and>
      (\<forall>i l. i < pieces \<longrightarrow> s_phase s i = Counted l \<longrightarrow> 1 \<le> l \<and> check i = Fits) \<and>
      (\<forall>j i. j < num \<longrightarrow> s_feasibleNodes s ! j = Some i \<longrightarrow> i < pieces \<and> check i = Fits \<and> s_phase s i = Finished) \<and>
      (\<forall>j k i. j < num \<longrightarrow> k < num \<longrightarrow> s_feasibleNodes s ! j = Some i \<longrightarrow> s_feasibleNodes s ! k = Some i \<longrightarrow> j = k))"

lemma move_sets:
  "holders num pieces (move s i ph) =
     (if i < pieces \<and> (\<exists>l. ph = Counted l \<and> l \<le> int num) then insert i (holders num pieces s) else holders num pieces s - {i})"
  "over num pieces (move s i ph) =
     (if i < pieces \<and> ((\<exists>l. ph = Counted l \<and> l > int num) \<or> ph = Cancelling) then insert i (over num pieces s) else over num pieces s - {i})"
  "stored (move s i ph) = stored s" "slot_of (move s i ph) = (slot_of s)(i := (case ph of Counted l \<Rightarrow> nat (l - 1) | _ \<Rightarrow> 0))"
  by (auto simp: holders_def over_def stored_def slot_of_def move_def fun_eq_iff split: if_splits)

lemma move_frame [simp]:
  "s_feasibleNodesLen (move s i ph) = s_feasibleNodesLen s" "s_feasibleNodes (move s i ph) = s_feasibleNodes s"
  "s_phase (move s i ph) = (s_phase s)(i := ph)" "s_cancelled (move s i ph) = s_cancelled s" "s_err (move s i ph) = s_err s"
  "s_outer (move s i ph) = s_outer s" "s_statuses (move s i ph) = s_statuses s"
  by (simp_all add: move_def)

lemma sets_frame [simp]:
  "holders num pieces (s\<lparr>s_feasibleNodesLen := x\<rparr>) = holders num pieces s" "over num pieces (s\<lparr>s_feasibleNodesLen := x\<rparr>) = over num pieces s"
  "stored (s\<lparr>s_feasibleNodesLen := x\<rparr>) = stored s" "slot_of (s\<lparr>s_feasibleNodesLen := x\<rparr>) = slot_of s"
  "holders num pieces (s\<lparr>s_feasibleNodes := xs\<rparr>) = holders num pieces s" "over num pieces (s\<lparr>s_feasibleNodes := xs\<rparr>) = over num pieces s"
  "slot_of (s\<lparr>s_feasibleNodes := xs\<rparr>) = slot_of s"
  "holders num pieces (s\<lparr>s_cancelled := b\<rparr>) = holders num pieces s" "over num pieces (s\<lparr>s_cancelled := b\<rparr>) = over num pieces s"
  "stored (s\<lparr>s_cancelled := b\<rparr>) = stored s" "slot_of (s\<lparr>s_cancelled := b\<rparr>) = slot_of s"
  "holders num pieces (s\<lparr>s_statuses := t\<rparr>) = holders num pieces s" "over num pieces (s\<lparr>s_statuses := t\<rparr>) = over num pieces s"
  "stored (s\<lparr>s_statuses := t\<rparr>) = stored s" "slot_of (s\<lparr>s_statuses := t\<rparr>) = slot_of s"
  "holders num pieces (s\<lparr>s_err := e\<rparr>) = holders num pieces s" "over num pieces (s\<lparr>s_err := e\<rparr>) = over num pieces s"
  "stored (s\<lparr>s_err := e\<rparr>) = stored s" "slot_of (s\<lparr>s_err := e\<rparr>) = slot_of s"
  "holders num pieces (s\<lparr>s_outer := b\<rparr>) = holders num pieces s" "over num pieces (s\<lparr>s_outer := b\<rparr>) = over num pieces s"
  "stored (s\<lparr>s_outer := b\<rparr>) = stored s" "slot_of (s\<lparr>s_outer := b\<rparr>) = slot_of s"
  by (simp_all add: holders_def over_def stored_def slot_of_def fun_eq_iff)

lemma finite_over [simp]: "finite (over num pieces s)" by (simp add: over_def)

lemma inv_count:
  assumes I: "search_inv num pieces check s m" and i: "i < pieces" "s_phase s i = Waiting" "check i = Fits"
  shows "\<exists>m' \<ge> m. search_inv num pieces check
    (move (s\<lparr>s_feasibleNodesLen := s_feasibleNodesLen s + 1\<rparr>) i (Counted (s_feasibleNodesLen s + 1))) m'"
proof -
  let ?len = "s_feasibleNodesLen s" and ?s = "move (s\<lparr>s_feasibleNodesLen := s_feasibleNodesLen s + 1\<rparr>) i (Counted (s_feasibleNodesLen s + 1))"
  have out: "i \<notin> holders num pieces s" "i \<notin> over num pieces s" using i by (auto simp: holders_def over_def)
  have len: "?len = int m + int (card (over num pieces s))" "over num pieces s \<noteq> {} \<longrightarrow> m = num" "m \<le> num"
    using I by (auto simp: search_inv_def)
  show ?thesis
  proof (cases "?len + 1 \<le> int num")
    case True
    have o: "over num pieces s = {}"
    proof (rule ccontr)
      assume "over num pieces s \<noteq> {}"
      then have "m = num" using len(2) by blast
      then show False using len(1) True by simp
    qed
    then have m: "?len = int m" "m < num" using len True by auto
    have "slot_of ?s ` holders num pieces ?s = insert m (slot_of s ` holders num pieces s)"
      using i(1) True out m by (auto simp: move_sets)
    moreover have "m \<notin> slot_of s ` holders num pieces s" "m \<notin> stored s" using I by (auto simp: search_inv_def)
    ultimately have "search_inv num pieces check ?s (Suc m)"
      using I i True out o m by (auto simp: search_inv_def move_sets lessThan_Suc inj_on_def)
    then show ?thesis by (intro exI [of _ "Suc m"]) simp
  next
    case False
    have "m = num" using len False by (cases "over num pieces s = {}") auto
    moreover have "slot_of ?s ` holders num pieces ?s = slot_of s ` holders num pieces s" "inj_on (slot_of ?s) (holders num pieces ?s)"
      using I i False out by (auto simp: move_sets search_inv_def inj_on_def image_iff)
    ultimately have "search_inv num pieces check ?s m"
      using I i False out len by (auto simp: search_inv_def move_sets)
    then show ?thesis by blast
  qed
qed

lemma inv_store:
  assumes I: "search_inv num pieces check s m" and i: "i < pieces" "s_phase s i = Counted l" "l \<le> int num"
  shows "search_inv num pieces check (move (s\<lparr>s_feasibleNodes := (s_feasibleNodes s)[nat (l - 1) := Some i]\<rparr>) i Finished) m"
proof -
  let ?xs = "(s_feasibleNodes s)[nat (l - 1) := Some i]"
  let ?s = "move (s\<lparr>s_feasibleNodes := ?xs\<rparr>) i Finished"
  have h: "i \<in> holders num pieces s" "i \<notin> over num pieces s" using i by (auto simp: holders_def over_def)
  have l: "1 \<le> l" "check i = Fits" "length (s_feasibleNodes s) = num" using I i by (auto simp: search_inv_def)
  then have j: "nat (l - 1) < num" "slot_of s i = nat (l - 1)" using i by (auto simp: slot_of_def)
  have st: "stored ?s = insert (nat (l - 1)) (stored s)" using j(1) l(3) by (auto simp: stored_def move_def nth_list_update)
  have inj: "inj_on (slot_of s) (holders num pieces s)" using I by (simp add: search_inv_def)
  have im: "slot_of ?s ` holders num pieces ?s = slot_of s ` holders num pieces s - {nat (l - 1)}"
  proof -
    have "slot_of ?s ` holders num pieces ?s = slot_of s ` (holders num pieces s - {i})" by (auto simp: move_sets)
    also have "\<dots> = slot_of s ` holders num pieces s - slot_of s ` {i}" using inj h(1) by (subst inj_on_image_set_diff [of "slot_of s" "holders num pieces s"]) auto
    finally show ?thesis using j(2) by simp
  qed
  have inj': "inj_on (slot_of ?s) (holders num pieces ?s)" using inj by (auto simp: inj_on_def move_sets)
  have fresh: "s_feasibleNodes s ! k \<noteq> Some i" if "k < num" for k using I that i(2) by (auto simp: search_inv_def)
  have U: "stored s \<union> slot_of s ` holders num pieces s = {..<m}" "stored s \<inter> slot_of s ` holders num pieces s = {}"
    using I by (simp_all add: search_inv_def)
  have mem: "nat (l - 1) \<in> slot_of s ` holders num pieces s" using h(1) j(2) by (metis imageI)
  have slots: "stored ?s \<union> slot_of ?s ` holders num pieces ?s = {..<m}" "stored ?s \<inter> slot_of ?s ` holders num pieces ?s = {}"
    unfolding st im U(1) [symmetric] using U(2) mem by blast+
  have entry: "k < pieces \<and> check k = Fits \<and> s_phase ?s k = Finished" if "j' < num" "?xs ! j' = Some k" for j' k
    using that I i l j(1) by (cases "j' = nat (l - 1)") (auto simp: search_inv_def nth_list_update)
  have uniq: "j1 = j2" if "j1 < num" "j2 < num" "?xs ! j1 = Some k" "?xs ! j2 = Some k" for j1 j2 k
    using that I fresh j(1) l(3) by (auto simp: search_inv_def nth_list_update split: if_splits)
  have o: "over num pieces ?s = over num pieces s" using h(2) by (simp add: move_sets)
  have ph: "\<forall>k l'. k < pieces \<longrightarrow> s_phase ?s k = Counted l' \<longrightarrow> 1 \<le> l' \<and> check k = Fits" using I by (simp add: search_inv_def)
  have base: "m \<le> num" "s_feasibleNodesLen s = int m + int (card (over num pieces s))" "over num pieces s \<noteq> {} \<longrightarrow> m = num"
    using I by (simp_all add: search_inv_def)
  have nodes: "s_feasibleNodes ?s = ?xs" "length ?xs = num" "s_feasibleNodesLen ?s = s_feasibleNodesLen s" using l(3) by simp_all
  show ?thesis unfolding search_inv_def o nodes
    using base slots inj' ph entry uniq by blast
qed

lemma inv_cancel:
  assumes I: "search_inv num pieces check s m" and i: "i < pieces" "s_phase s i = Counted l" "l > int num"
  shows "search_inv num pieces check (move (s\<lparr>s_cancelled := True\<rparr>) i Cancelling) m"
proof -
  have h: "i \<in> over num pieces s" "i \<notin> holders num pieces s" using i by (auto simp: holders_def over_def)
  have "slot_of (move (s\<lparr>s_cancelled := True\<rparr>) i Cancelling) ` holders num pieces s = slot_of s ` holders num pieces s"
      "inj_on (slot_of (move (s\<lparr>s_cancelled := True\<rparr>) i Cancelling)) (holders num pieces s)"
    using I h(2) by (auto simp: move_sets search_inv_def inj_on_def image_iff)
  then show ?thesis using I h i by (auto simp: search_inv_def move_sets insert_absorb)
qed

lemma inv_uncount:
  assumes I: "search_inv num pieces check s m" and i: "i < pieces" "s_phase s i = Cancelling"
  shows "search_inv num pieces check (move (s\<lparr>s_feasibleNodesLen := s_feasibleNodesLen s - 1\<rparr>) i Finished) m"
proof -
  let ?s = "move (s\<lparr>s_feasibleNodesLen := s_feasibleNodesLen s - 1\<rparr>) i Finished"
  have h: "i \<in> over num pieces s" "i \<notin> holders num pieces s" using i by (auto simp: holders_def over_def)
  have "slot_of ?s ` holders num pieces s = slot_of s ` holders num pieces s" "inj_on (slot_of ?s) (holders num pieces s)"
    using I h(2) by (auto simp: move_sets search_inv_def inj_on_def image_iff)
  moreover have "int (card (over num pieces s - {i})) = int (card (over num pieces s)) - 1"
    using h(1) card_Suc_Diff1 [OF finite_over h(1)] by linarith
  ultimately show ?thesis using I h i by (auto simp: search_inv_def move_sets)
qed

lemma inv_finish:
  assumes I: "search_inv num pieces check s m" and i: "i < pieces" "s_phase s i = Waiting"
    and s': "s_feasibleNodesLen s' = s_feasibleNodesLen s" "s_feasibleNodes s' = s_feasibleNodes s" "s_phase s' = s_phase s"
  shows "search_inv num pieces check (move s' i Finished) m"
proof -
  have e: "holders num pieces s' = holders num pieces s" "over num pieces s' = over num pieces s" "stored s' = stored s" "slot_of s' = slot_of s"
    using s' by (auto simp: holders_def over_def stored_def slot_of_def fun_eq_iff)
  have h: "i \<notin> over num pieces s" "i \<notin> holders num pieces s" using i by (auto simp: holders_def over_def)
  have "slot_of (move s' i Finished) ` holders num pieces s = slot_of s ` holders num pieces s"
      "inj_on (slot_of (move s' i Finished)) (holders num pieces s)"
    using I h(2) by (auto simp: move_sets e search_inv_def inj_on_def image_iff)
  then show ?thesis using I h i s' by (auto simp: search_inv_def move_sets e)
qed

subsection \<open>Every interleaving\<close>

text \<open>What the search has recorded of the pieces that are finished; a cancellation has a reason.\<close>

definition rejection :: "check_outcome \<Rightarrow> Status option option" where
  "rejection c = (case c of Rejected st \<Rightarrow> if IsSuccess st then None else Some st | _ \<Rightarrow> None)"

definition record_inv :: "nat \<Rightarrow> nat \<Rightarrow> (nat \<Rightarrow> check_outcome) \<Rightarrow> search \<Rightarrow> nat \<Rightarrow> bool" where
  "record_inv num pieces check s m =
     ((s_cancelled s \<longrightarrow> s_err s \<noteq> None \<or> s_outer s \<or> m = num) \<and>
      (\<forall>e. s_err s = Some e \<longrightarrow> s_cancelled s \<and> (\<exists>i < pieces. check i = Failed e)) \<and>
      (\<forall>i < pieces. s_phase s i = Cancelling \<longrightarrow> s_cancelled s \<and> check i = Fits) \<and>
      (\<forall>i < pieces. s_phase s i = Finished \<longrightarrow> check i = Fits \<longrightarrow> s_cancelled s \<or> Some i \<in> set (s_feasibleNodes s)) \<and>
      (\<forall>i < pieces. s_phase s i = Finished \<longrightarrow> (\<exists>e. check i = Failed e) \<longrightarrow> s_err s \<noteq> None) \<and>
      (\<forall>i. s_statuses s i = (if i < pieces \<and> s_phase s i = Finished then rejection (check i) else None)))"

lemma search_start_inv: "search_inv num pieces check (search_start num) 0" "record_inv num pieces check (search_start num) 0"
proof -
  have "holders num pieces (search_start num) = {}" "over num pieces (search_start num) = {}" "stored (search_start num) = {}"
    by (auto simp: holders_def over_def stored_def search_start_def)
  then show "search_inv num pieces check (search_start num) 0" by (simp add: search_inv_def search_start_def)
  show "record_inv num pieces check (search_start num) 0" by (simp add: record_inv_def search_start_def)
qed

lemma search_step_inv:
  assumes "search_step num pieces check s s'" "search_inv num pieces check s m"
  shows "\<exists>m' \<ge> m. search_inv num pieces check s' m'"
  using assms
proof (cases rule: search_step.cases)
  case (count i)
  then show ?thesis using inv_count assms(2) by blast
next
  case (store i l)
  then show ?thesis using inv_store assms(2) by blast
next
  case (cancel i l)
  then show ?thesis using inv_cancel assms(2) by blast
next
  case (uncount i)
  then show ?thesis using inv_uncount assms(2) by blast
next
  case (reject i status)
  then show ?thesis using inv_finish [OF assms(2)] by (intro exI [of _ m]) auto
next
  case (fail i e)
  then show ?thesis using inv_finish [OF assms(2)] by (intro exI [of _ m]) auto
next
  case outer
  then have "search_inv num pieces check s' m"
    using assms(2) by (simp add: search_inv_def)
  then show ?thesis by blast
qed

lemma stays_full: "search_inv num pieces check s m' \<Longrightarrow> m \<le> m' \<Longrightarrow> m = num \<Longrightarrow> m' = num"
  by (simp add: search_inv_def)

lemma search_step_record:
  assumes "search_step num pieces check s s'" "search_inv num pieces check s m" "record_inv num pieces check s m"
    and m': "search_inv num pieces check s' m'" "m \<le> m'"
  shows "record_inv num pieces check s' m'"
  using assms(1)
proof (cases rule: search_step.cases)
  case (count i)
  then show ?thesis using assms(3) stays_full [OF m'] by (auto simp: record_inv_def)
next
  case (store i l)
  have l: "1 \<le> l" "check i = Fits" "length (s_feasibleNodes s) = num" using store(2,3) assms(2) unfolding search_inv_def by blast+
  then have j: "nat (l - 1) < length (s_feasibleNodes s)" "check i = Fits" using store(4) by auto
  have old: "s_feasibleNodes s ! nat (l - 1) \<noteq> Some k" for k
  proof
    assume n: "s_feasibleNodes s ! nat (l - 1) = Some k"
    have h: "i \<in> holders num pieces s" "slot_of s i = nat (l - 1)" using store by (auto simp: holders_def slot_of_def)
    have "nat (l - 1) \<in> stored s" using n j(1) by (simp add: stored_def)
    moreover have "stored s \<inter> slot_of s ` holders num pieces s = {}" using assms(2) by (simp add: search_inv_def)
    ultimately show False using h by (metis IntI empty_iff imageI)
  qed
  have keep: "Some k \<in> set ((s_feasibleNodes s)[nat (l - 1) := Some i])" if "Some k \<in> set (s_feasibleNodes s)" for k
    using that old [of k] j(1) by (metis in_set_conv_nth length_list_update nth_list_update_neq)
  have new: "Some i \<in> set ((s_feasibleNodes s)[nat (l - 1) := Some i])" using j(1) by (rule set_update_memI)
  show ?thesis using store assms(3) j(2) keep new stays_full [OF m'] by (auto simp: record_inv_def rejection_def)
next
  case (cancel i l)
  have "over num pieces s \<noteq> {}" using cancel by (auto simp: over_def)
  then have "m = num" using assms(2) by (simp add: search_inv_def)
  moreover have "check i = Fits" using cancel(2,3) assms(2) unfolding search_inv_def by blast
  ultimately show ?thesis using cancel assms(3) stays_full [OF m'] by (auto simp: record_inv_def)
next
  case (uncount i)
  then show ?thesis using assms(3) stays_full [OF m'] by (auto simp: record_inv_def rejection_def)
next
  case (reject i status)
  then show ?thesis using assms(3) stays_full [OF m'] by (auto simp: record_inv_def rejection_def)
next
  case (fail i e)
  then show ?thesis using assms(3) by (auto simp: record_inv_def rejection_def split: option.splits)
next
  case outer
  then show ?thesis using assms(3) by (auto simp: record_inv_def)
qed

theorem searching_inv:
  assumes "searching num pieces check s"
  shows "\<exists>m. search_inv num pieces check s m \<and> record_inv num pieces check s m"
  using assms
proof (induction rule: searching.induct)
  case init
  then show ?case using search_start_inv by blast
next
  case (step s s')
  then obtain m where m: "search_inv num pieces check s m" "record_inv num pieces check s m" by blast
  obtain m' where "m \<le> m'" "search_inv num pieces check s' m'" using search_step_inv [OF step.hyps(2) m(1)] by blast
  then show ?case using search_step_record [OF step.hyps(2) m] by blast
qed

text \<open>At the end no worker holds a slot or is over: the result is full.\<close>

lemma done_slots:
  assumes I: "search_inv num pieces check s m" and d: "search_done pieces s"
  shows "m \<le> num" "search_result s = take m (s_feasibleNodes s)" "stored s = {..<m}"
proof -
  have "holders num pieces s = {}" "over num pieces s = {}" using d by (auto simp: search_done_def holders_def over_def)
  then show "m \<le> num" "search_result s = take m (s_feasibleNodes s)" "stored s = {..<m}" using I by (simp_all add: search_inv_def search_result_def)
qed

lemma done_result:
  assumes I: "search_inv num pieces check s m" and d: "search_done pieces s"
  shows "\<exists>res. search_result s = map Some res \<and> distinct res \<and> length res = m \<and> set res \<subseteq> {i. i < pieces \<and> check i = Fits} \<and>
    (\<forall>i. Some i \<in> set (s_feasibleNodes s) \<longrightarrow> i \<in> set res)"
proof -
  note S = done_slots [OF I d]
  let ?xs = "s_feasibleNodes s"
  have len: "length ?xs = num" using I by (simp add: search_inv_def)
  define res where "res = map (\<lambda>j. the (?xs ! j)) [0..<m]"
  have some: "?xs ! j = Some (res ! j)" if "j < m" for j
  proof -
    have "j \<in> stored s" using that S(3) by simp
    then show ?thesis using that by (auto simp: stored_def res_def)
  qed
  have l: "length res = m" by (simp add: res_def)
  have eq: "search_result s = map Some res" unfolding S(2) using S(1) some len l by (intro nth_equalityI) auto
  have ent: "i < pieces \<and> check i = Fits" if "j < num" "?xs ! j = Some i" for i j using I that unfolding search_inv_def by blast
  have uniq: "j = k" if "j < num" "k < num" "?xs ! j = Some i" "?xs ! k = Some i" for i j k using I that unfolding search_inv_def by blast
  have "distinct res" unfolding distinct_conv_nth l using uniq some S(1) by (metis order_less_le_trans)
  moreover have "set res \<subseteq> {i. i < pieces \<and> check i = Fits}"
  proof
    fix i
    assume "i \<in> set res"
    then obtain j where "j < m" "i = res ! j" using l by (auto simp: in_set_conv_nth)
    then show "i \<in> {i. i < pieces \<and> check i = Fits}" using ent [of j i] some [of j] S(1) by simp
  qed
  moreover have "i \<in> set res" if mem: "Some i \<in> set ?xs" for i
  proof -
    obtain j where j: "j < num" "?xs ! j = Some i" using mem unfolding in_set_conv_nth len by blast
    then have "j \<in> stored s" using len by (simp add: stored_def)
    then have "j < m" using S(3) by simp
    then show ?thesis using some [of j] j(2) l by (auto simp: in_set_conv_nth)
  qed
  ultimately show ?thesis using eq l by blast
qed

lemma done_complete:
  assumes R: "record_inv num pieces check s m" and d: "search_done pieces s" and c: "\<not> s_cancelled s" and i: "i < pieces"
  shows "check i = Fits \<and> Some i \<in> set (s_feasibleNodes s) \<and> s_statuses s i = None \<or>
    (\<exists>st. check i = Rejected st \<and> s_statuses s i = rejection (check i))"
proof -
  have f: "s_phase s i = Finished" using d c i by (simp add: search_done_def)
  have st: "s_statuses s i = rejection (check i)" using R i f unfolding record_inv_def by metis
  have "s_err s = None" using R c unfolding record_inv_def by (metis option.exhaust)
  then show ?thesis using R i f c st by (cases "check i") (auto simp: record_inv_def rejection_def)
qed

lemma search_outcome:
  assumes run: "searching num pieces check s" and d: "search_done pieces s"
  shows "case search_return s of
      Inl e \<Rightarrow> \<exists>i < pieces. check i = Failed e
    | Inr slots \<Rightarrow> \<exists>res. slots = map Some res \<and> distinct res \<and> set res \<subseteq> {i. i < pieces \<and> check i = Fits} \<and> length res \<le> num \<and>
        (\<not> s_outer s \<longrightarrow> length res = min num (card {i. i < pieces \<and> check i = Fits})) \<and>
        (\<not> s_outer s \<longrightarrow> 0 < num \<longrightarrow> res = [] \<longrightarrow> (\<forall>i < pieces. \<exists>st. check i = Rejected st \<and> s_statuses s i = rejection (check i)))"
proof -
  obtain m where I: "search_inv num pieces check s m" and R: "record_inv num pieces check s m" using searching_inv [OF run] by blast
  obtain res where r: "search_result s = map Some res" "distinct res" "length res = m" "set res \<subseteq> {i. i < pieces \<and> check i = Fits}"
      "\<forall>i. Some i \<in> set (s_feasibleNodes s) \<longrightarrow> i \<in> set res"
    using done_result [OF I d] by blast
  have m: "m \<le> num" using done_slots(1) [OF I d] .
  have sub: "m \<le> card {i. i < pieces \<and> check i = Fits}" using r(2-4) by (metis card_mono distinct_card finite_Collect_conjI finite_Collect_less_nat)
  show ?thesis
  proof (cases "s_err s")
    case (Some e)
    then show ?thesis using R by (auto simp: search_return_def record_inv_def)
  next
    case None
    have full: "\<not> s_outer s \<Longrightarrow> s_cancelled s \<Longrightarrow> m = num" using R None by (simp add: record_inv_def)
    have all: "{i. i < pieces \<and> check i = Fits} = set res" if "\<not> s_cancelled s"
    proof (rule subset_antisym [OF subsetI r(4)])
      fix i
      assume "i \<in> {i. i < pieces \<and> check i = Fits}"
      then show "i \<in> set res" using done_complete [OF R d that, of i] r(5) by auto
    qed
    have "length res = min num (card {i. i < pieces \<and> check i = Fits})" if o: "\<not> s_outer s"
    proof (cases "s_cancelled s")
      case True
      then show ?thesis using full o sub r(3) by simp
    next
      case False
      then show ?thesis using all r(2,3) m by (simp add: distinct_card)
    qed
    moreover have "\<exists>st. check i = Rejected st \<and> s_statuses s i = rejection (check i)" if "\<not> s_outer s" "0 < num" "res = []" "i < pieces" for i
      using that full r(3,5) done_complete [OF R d, of i] by force
    ultimately show ?thesis using None r m by (auto simp: search_return_def)
  qed
qed

subsection \<open>The end of the search\<close>

text \<open>A piece takes at most three actions, and the context of the caller is cancelled at most once.\<close>

primrec phase_left :: "phase \<Rightarrow> nat" where
  "phase_left Waiting = 3"
| "phase_left (Counted l) = 2"
| "phase_left Cancelling = 1"
| "phase_left Finished = 0"

definition steps_left :: "nat \<Rightarrow> search \<Rightarrow> nat" where
  "steps_left pieces s = (\<Sum>i < pieces. phase_left (s_phase s i)) + (if s_outer s then 0 else 1)"

lemma steps_left_move:
  assumes "i < pieces" "phase_left ph < phase_left (s_phase s' i)" "s_outer s' = s_outer s" "s_phase s' = s_phase s"
  shows "steps_left pieces (move s' i ph) < steps_left pieces s"
proof -
  have "(\<Sum>k < pieces. phase_left (((s_phase s)(i := ph)) k)) < (\<Sum>k < pieces. phase_left (s_phase s k))"
    using assms by (intro sum_strict_mono_ex1) auto
  then show ?thesis using assms by (simp add: steps_left_def)
qed

lemma search_step_left:
  assumes "search_step num pieces check s s'"
  shows "steps_left pieces s' < steps_left pieces s"
  using assms
proof (cases rule: search_step.cases)
  case outer
  then show ?thesis by (simp add: steps_left_def)
qed (simp_all add: steps_left_move)

lemma search_progress:
  assumes "\<not> search_done pieces s"
  shows "\<exists>s'. search_step num pieces check s s'"
proof -
  obtain i where i: "i < pieces" "s_phase s i \<noteq> Finished" using assms by (auto simp: search_done_def)
  show ?thesis
  proof (cases "s_phase s i")
    case Waiting
    then show ?thesis using i(1) by (cases "check i") (blast intro: search_step.intros)+
  next
    case (Counted l)
    then show ?thesis using i(1) by (cases "l \<le> int num") (fastforce intro: search_step.store search_step.cancel)+
  next
    case Cancelling
    then show ?thesis using i(1) search_step.uncount by blast
  qed (use i in simp)
qed

lemma search_ends: "\<exists>s'. (search_step num pieces check)\<^sup>*\<^sup>* s s' \<and> search_done pieces s'"
proof (induction "steps_left pieces s" arbitrary: s rule: less_induct)
  case less
  show ?case
  proof (cases "search_done pieces s")
    case False
    then obtain t where t: "search_step num pieces check s t" using search_progress by blast
    then obtain s' where "(search_step num pieces check)\<^sup>*\<^sup>* t s'" "search_done pieces s'" using less search_step_left by blast
    then show ?thesis using t by (meson converse_rtranclp_into_rtranclp)
  qed blast
qed

lemma searching_steps: "(search_step num pieces check)\<^sup>*\<^sup>* s s' \<Longrightarrow> searching num pieces check s \<Longrightarrow> searching num pieces check s'"
  by (induction rule: rtranclp_induct) (auto intro: searching.step)

lemma steps_bounded: "(search_step num pieces check ^^ n) s s' \<Longrightarrow> n + steps_left pieces s' \<le> steps_left pieces s"
proof (induction n arbitrary: s')
  case (Suc n)
  then obtain t where "(search_step num pieces check ^^ n) s t" "search_step num pieces check t s'" by auto
  then show ?case using Suc.IH search_step_left [of num pieces check t s'] by fastforce
qed simp

lemma checkNode_rejection: "checkNode cached run nodes start i = Rejected st \<Longrightarrow> rejection (checkNode cached run nodes start i) = Some st"
  by (auto simp: checkNode_def rejection_def PodPassesFiltersOnNode_def Let_def split: if_splits option.splits prod.splits)

subsection \<open>The properties of the search\<close>

text \<open>
  C5. The parallel search for nodes, in every interleaving of its workers. When it returns without an error, the slice it returns
  has no empty slot and lists different nodes that fit, at most as many as wanted; unless the context of the caller was cancelled
  it lists exactly as many as wanted or, where fewer fit, all that fit, and where it lists none every node has been
  rejected with a status that is recorded for it. An error it returns is the error of the filters on one of the nodes.
\<close>

theorem find_feasible_nodes:
  assumes "searching num (length nodes) (checkNode cached run nodes start) s" and "search_done (length nodes) s"
  shows "case search_return s of
      Inl e \<Rightarrow> \<exists>i < length nodes. checkNode cached run nodes start i = Failed e
    | Inr slots \<Rightarrow> \<exists>res. slots = map Some res \<and> distinct res \<and> length res \<le> num \<and>
        set res \<subseteq> {i. i < length nodes \<and> checkNode cached run nodes start i = Fits} \<and>
        (\<not> s_outer s \<longrightarrow> length res = min num (card {i. i < length nodes \<and> checkNode cached run nodes start i = Fits})) \<and>
        (\<not> s_outer s \<longrightarrow> 0 < num \<longrightarrow> res = [] \<longrightarrow>
           (\<forall>i < length nodes. \<exists>st. checkNode cached run nodes start i = Rejected st \<and> s_statuses s i = Some st))"
  using search_outcome [OF assms] checkNode_rejection [of cached run nodes start]
  by (cases "search_return s") (simp, fastforce)

text \<open>Two workers that both find a node that fits where one is wanted: the second is counted before the first stores its node,
  cancels the search and is uncounted.\<close>

lemma two_workers:
  assumes "check 0 = Fits" "check 1 = Fits"
  shows "\<exists>s. searching 1 2 check s \<and> search_done 2 s \<and> \<not> s_outer s \<and> search_return s = Inr [Some 0]"
proof -
  let ?c = "\<lambda>s i. move (s\<lparr>s_feasibleNodesLen := s_feasibleNodesLen s + 1\<rparr>) i (Counted (s_feasibleNodesLen s + 1))"
  define s1 where "s1 = ?c (search_start 1) 0"
  define s2 where "s2 = ?c s1 1"
  define s3 where "s3 = move (s2\<lparr>s_cancelled := True\<rparr>) 1 Cancelling"
  define s4 where "s4 = move (s3\<lparr>s_feasibleNodesLen := s_feasibleNodesLen s3 - 1\<rparr>) 1 Finished"
  define s5 where "s5 = move (s4\<lparr>s_feasibleNodes := (s_feasibleNodes s4)[nat (1 - 1) := Some 0]\<rparr>) 0 Finished"
  note ds = s1_def s2_def s3_def s4_def s5_def search_start_def
  have "searching 1 2 check s1" unfolding s1_def by (rule searching.step [OF searching.init search_step.count]) (simp_all add: assms search_start_def)
  then have "searching 1 2 check s2" unfolding s2_def by (rule searching.step [OF _ search_step.count]) (simp_all add: assms [simplified] ds)
  then have "searching 1 2 check s3" unfolding s3_def by (rule searching.step [OF _ search_step.cancel [where l = 2]]) (simp_all add: ds)
  then have "searching 1 2 check s4" unfolding s4_def by (rule searching.step [OF _ search_step.uncount]) (simp_all add: ds)
  then have "searching 1 2 check s5" unfolding s5_def by (rule searching.step [OF _ search_step.store [where l = 1]]) (simp_all add: ds)
  moreover have "search_done 2 s5" by (simp add: ds search_done_def)
  moreover have "\<not> s_outer s5" "search_return s5 = Inr [Some 0]" by (simp_all add: ds search_return_def search_result_def move_def)
  ultimately show ?thesis by blast
qed

theorem find_feasible_nodes_witness:
  "\<exists>s res. searching 1 (length [empty_node, empty_node]) (checkNode (\<lambda>name. Some None) (\<lambda>n. []) [empty_node, empty_node] 1) s \<and>
     search_done (length [empty_node, empty_node]) s \<and> search_return s = Inr (map Some res) \<and> distinct res \<and> length res = 1"
proof -
  let ?check = "checkNode (\<lambda>name. Some None) (\<lambda>n. []) [empty_node, empty_node] 1"
  have f: "?check i = Fits" for i by (simp add: checkNode_def IsSuccess_def Status_Code_def)
  obtain s where s: "searching 1 (length [empty_node, empty_node]) ?check s" "search_done (length [empty_node, empty_node]) s" "\<not> s_outer s"
      "search_return s = Inr [Some 0]"
    using two_workers [of ?check, OF f f] by (auto simp: numeral_2_eq_2)
  have "card {i. i < length [empty_node, empty_node] \<and> ?check i = Fits} = 2" using f by simp
  moreover obtain res where "[Some (0 :: nat)] = map Some res" "distinct res" "length res = min 1 (card {i. i < length [empty_node, empty_node] \<and> ?check i = Fits})"
    using find_feasible_nodes [OF s(1,2)] s(3) unfolding s(4) sum.case by meson
  ultimately have "search_return s = Inr (map Some res) \<and> distinct res \<and> length res = 1" using s(4) by simp
  then show ?thesis using s(1,2) by blast
qed

text \<open>
  The search ends: a run has at most three actions for every node and one for the caller, and a search that is not done can
  always take a step, so every reachable state leads to a result.
\<close>

lemma search_terminates:
  assumes "searching num pieces check s"
  shows "\<exists>s'. searching num pieces check s' \<and> (search_step num pieces check)\<^sup>*\<^sup>* s s' \<and> search_done pieces s' \<and>
    (\<forall>n t. (search_step num pieces check ^^ n) (search_start num) t \<longrightarrow> n \<le> 3 * pieces + 1)"
proof -
  have "steps_left pieces (search_start num) = 3 * pieces + 1" by (simp add: steps_left_def search_start_def)
  then have "n \<le> 3 * pieces + 1" if "(search_step num pieces check ^^ n) (search_start num) t" for n t using steps_bounded [OF that] by simp
  then show ?thesis using search_ends [of num pieces check s] searching_steps assms by blast
qed

end
