(* ===== verification/Spec2Isabelle.thy ===== *)
theory Spec2Isabelle
  imports Block_Queue Load_Aware_Store Node_Snapshot Min_Heap Admission Feasible_Nodes
begin

text \<open>
  Verification of the core of the Godel scheduler (\<^verbatim>\<open>godel-scheduler\<close>, Go).

  \<^bold>\<open>The program.\<close> Godel schedules the pods of a Kubernetes cluster. A dispatcher hands pods to schedulers by
  annotations on the pod; a scheduler queues them as units (a single pod or a pod group), takes the unit at the
  head of its queue, looks for nodes in a snapshot of its cache, and writes its choice back as another
  annotation, which a binder turns into a binding. The state of a pod is in its annotations; the state of the
  cluster is in the scheduler cache, which informer events keep up to date and which is copied incrementally to
  the snapshot before every cycle.

  \<^bold>\<open>What is modelled\<close>, from the leaves up (sources under \<^verbatim>\<open>src/pkg\<close>):

  \<^item> \<open>Godel_Prelude\<close>: shared types, wrap-around, list and map lemmas, the collections of simplification rules.
  \<^item> \<open>Container_Heap\<close> and \<open>Keyed_Heap\<close>: the loops of Go's \<^verbatim>\<open>container/heap\<close> and \<^verbatim>\<open>util/heap/heap.go\<close>, the keyed heap under
    every queue (C1, C2).
  \<^item> \<open>Pods\<close>: \<^verbatim>\<open>util/pod/podstate.go\<close>, the part of \<^verbatim>\<open>util/pod/util.go\<close> the other parts call, \<^verbatim>\<open>util/unit/unit.go\<close>: pod states, keys,
    requests, resource types, launchers, unit identifiers, the final-operation annotation (C6 to C8).
  \<^item> \<open>Schedule_Unit\<close>: \<^verbatim>\<open>framework/api/unit.go\<close> and \<^verbatim>\<open>framework/utils/unit.go\<close>.
  \<^item> \<open>Queue_Sort\<close>: the comparison plugins of \<^verbatim>\<open>plugins/queuesort\<close> and \<^verbatim>\<open>plugins/unitqueuesort\<close> (C12, C13).
  \<^item> \<open>Float64\<close>: \<^verbatim>\<open>float64\<close> as the real numbers with rounding to nearest, ties to even, after each operation, for the scores of units.
  \<^item> \<open>Queue_Base\<close>, \<open>Priority_Queue\<close>, \<open>Block_Queue\<close>: \<^verbatim>\<open>scheduler/queue\<close>: backoff, scores, waiting pods and the two scheduling
    queues with every operation that changes them (C14 to C21, C24, C25).
  \<^item> \<open>Generation_Store\<close>: \<^verbatim>\<open>util/generationstore\<close>, the linked cache store, the snapshot store and the incremental copy
    (C26, C27).
  \<^item> \<open>Pod_Group_Store\<close>, \<open>Load_Aware_Store\<close>: two stores of \<^verbatim>\<open>scheduler/cache/commonstores\<close> over the generation stores
    (C30).
  \<^item> \<open>Resources\<close>: \<^verbatim>\<open>Resource\<close> and \<^verbatim>\<open>HostPortInfo\<close> of \<^verbatim>\<open>framework/api/types.go\<close>, the non-zero requests of \<^verbatim>\<open>util/non_zero.go\<close> and
    \<^verbatim>\<open>CalculateResource\<close> (C33 to C35).
  \<^item> \<open>Hash_Slice\<close>: the slices with a key index of \<^verbatim>\<open>nodeinfo_hashslice.go\<close> and \<^verbatim>\<open>nodeinfo_podinfo.go\<close> (C36).
  \<^item> \<open>Splay\<close>: \<^verbatim>\<open>util/splay/splay.go\<close>, and over it the proofs \<open>Splay_Tree\<close> (links and rotations), \<open>Splay_Ops\<close> (insertion and
    partition), \<open>Splay_Remove\<close> (deletion) and \<open>Splay_Spec\<close> (the tree as a list).
  \<^item> \<open>Pod_Info\<close>, \<open>Pod_Maintainer\<close>: \<^verbatim>\<open>framework/api/nodeinfo_podinfo.go\<close>, the pods of a node in two splay trees, and the victim
    candidates of preemption (C37 to C39).
  \<^item> \<open>Node_Info\<close>: \<^verbatim>\<open>framework/api/nodeinfo.go\<close>, the aggregates of a node and its clone (C40).
  \<^item> \<open>Pod_Store\<close>, \<open>Node_Store\<close>: the two stores of \<^verbatim>\<open>scheduler/cache/commonstores\<close> every cache has.
  \<^item> \<open>Scheduler_Cache\<close>: \<^verbatim>\<open>scheduler/cache\<close> and the switch of \<^verbatim>\<open>common/store\<close>: the events of pods and nodes, assumed pods and their
    expiry (C3, C11, C28).
  \<^item> \<open>Node_Snapshot\<close>: the update of the nodes of the snapshot and what scheduling does to it between two updates (C4, C10).
  \<^item> \<open>Plugin_Framework\<close>: the statuses of \<^verbatim>\<open>framework/api/interface.go\<close>, and \<^verbatim>\<open>scheduler/framework/runtime/framework.go\<close>: the framework of
    a pod and the runs of its filter and score plugins, with the scores of \<^verbatim>\<open>prioritizeNodes\<close> (C9, C22, C23).
  \<^item> \<open>Min_Heap\<close>: \<^verbatim>\<open>scheduler/util/min_heap.go\<close>, the nodes with the highest scores (C29).
  \<^item> \<open>Node_Filters\<close>: the filters for launchers, resources, host ports, taints, unschedulable nodes and labels, of the scheduler
    (\<^verbatim>\<open>scheduler/framework/plugins\<close>) and of the binder (\<^verbatim>\<open>binder/framework/plugins\<close>); each is shown to accept exactly the
    nodes its contract names.
  \<^item> \<open>Admission\<close>: what the checks of the binder guarantee of a node over its whole history (C31, C32).
  \<^item> \<open>Feasible_Nodes\<close>: the parallel search of \<^verbatim>\<open>scheduler/core/pod_scheduler\<close> over every interleaving of its workers (C5).

  \<^bold>\<open>How code becomes definitions.\<close> A struct is a record with the fields of the struct, an interface a datatype of its
  implementations or a record of the functions a client calls, a Go map a partial function or an association list
  where its size or order matters. Every method is one definition named after it (prefixed with its component where a name
  is taken), with its guards, early returns and error results; a method that changes state returns the new state. A
  panic, that is an index out of range, a nil dereference or a failed type assertion, is \<open>None\<close>; an \<^verbatim>\<open>error\<close> is a
  value. Pointers are addresses where aliasing matters: the items of the linked list in
  \<open>Generation_Store\<close> and the nodes of the slice in \<open>Splay\<close>; elsewhere objects are stored by value, and the theory says why that is
  enough. \<^verbatim>\<open>int64\<close> amounts are 64-bit words; durations and generation numbers are integers with the wrap-around written
  out. Each operation runs under the lock of its object, so concurrent calls are interleavings of whole
  operations: the runs and step relations of the queues and stores allow every order of them. The search for nodes, whose
  workers share a counter, is a step relation on the atomic actions of the workers.

  \<^bold>\<open>Interfaces.\<close> Where a component relies on another the contract is a locale, interpreted on the model: \<open>heap_interface\<close> and
  \<open>heap_container\<close> (what \<^verbatim>\<open>container/heap\<close> asks of the keyed heap), \<open>sub_queue\<close> (what the queues ask of a
  keyed heap), \<open>pod_holder\<close>
  (the two kinds of unit), \<open>keyed_store\<close> (the hash slices as maps), \<open>store_contract\<close> (both generation stores and their sum), \<open>summary_class\<close> and \<open>ordered_class\<close> (what the splay tree asks of stored
  objects, interpreted for pods with CPU and with memory as the summed weight), \<open>node_filter\<close> (what the framework asks of a
  filter, interpreted for every filter modelled), \<open>followed_amount\<close> (an amount of a resource that follows the requests of the
  containers, interpreted for CPU, memory, storage and scalar resources) and \<open>dimension\<close> (one resource of a node under the check, interpreted
  for CPU, memory, storage and every scalar resource).

  \<^bold>\<open>What the properties show.\<close> Invariants by induction over runs: C3, C12, C16, C24, C26, C30, C32, C40. Safety of every
  interleaving or history: C5, C31. Refinement of an abstract object: C1, C27, C33, C36 to C38. Functional behaviour on every branch:
  the others, with round trips (C6, C17, C34), bounds with overflow (C14, C15, C22), errors (C11, C23), termination of loops (C19),
  equivalence of cache and snapshot (C4), and that an assumed pod expires (C28). Where the code
  does not do what it says the property states what it does: C10, C11, C13, C15, C21, C23, C39.

  \<^bold>\<open>What the properties ask for.\<close> The queues need no order: C16 and C24 hold for every comparison, and for histories in
  which a unit is not handed back while its key waits for its pod group (C21 is what happens else), label selectors parse
  and a queue is closed once. That nothing precedes the unit Pop returns (C18, C25) needs a strict weak order, which the
  shipped comparisons are on units of one kind (C12) and not on both (C13). The score of C15 is that of \<^verbatim>\<open>float64\<close> arithmetic,
  with the rounding error in its bounds. C38 to C40 are about histories that add a pod only under a UID that is not present, and C31 about amounts below \<open>2^62\<close> on a node whose offer does not change; C30 is about callers that remove a pod as it was added.

  \<^bold>\<open>Bounds and loops.\<close> There is no fuel. Recursions are structural or have a measure; loops over the heap slice,
  the linked list and the splay tree, which end only on well-formed states, are partial functions with \<open>None\<close> for not
  returning, and the properties prove that they return. The generation store counts sets in 64 bits: its properties
  and those of the cache ask for fewer than \<open>2^63\<close> of them. C31 and C35 ask that requests and sums of each resource fit \<^verbatim>\<open>int64\<close>, and C22 that the weights
  do; all other sums hold with wrap-around.

  \<^bold>\<open>Parameters.\<close> Code outside the repository is an argument: the clock, the listers, the label selector parser, feature
  gates of Kubernetes, the JSON decoder of reports and of watch labels, the printer of quantities, the plugins a framework is
  built from, and the order of \<^verbatim>\<open>range\<close> over a map.

  \<^bold>\<open>Not modelled.\<close> The loop of the scheduling cycle over units (\<^verbatim>\<open>scheduler/core\<close>), preemption, the filters for affinity, volumes
  and topology and most scores; the other cache
  stores, for disruption budgets, reservations, movements, preemptions and unit states, and the handlers that turn informer
  objects into events; the NUMA topology of a node (\<open>Node_Info\<close> is the configuration with the gate off), images and transient
  information; the dispatcher, the binder, the controllers and volume binding, which mostly call the API server; start-up and options
  (\<^verbatim>\<open>cmd\<close>), metrics, tracing and logging, which have no effect on the state modelled; generated code and API types.
\<close>

end
